(* ===== verification/Prelude.thy ===== *)
theory Prelude
  imports Main "HOL-Library.Word"
begin

text \<open>
  Shared vocabulary of the development: the machine integers of the C code, the
  packing of 16-bit and 32-bit values into bytes, the block move \<^verbatim>\<open>memmove\<close>, and the generic facts on
  words and lists that more than one component needs.

  A C object of type \<^verbatim>\<open>uint8_t\<close>, \<^verbatim>\<open>uint16_t\<close>, \<^verbatim>\<open>uint32_t\<close> is a word of that width, so
  that every assignment wraps the way the C assignment does.  Where C computes in
  \<^verbatim>\<open>int\<close> after integer promotion and the value cannot leave the range of \<^verbatim>\<open>int\<close>, the
  model computes in \<^typ>\<open>nat\<close> or \<^typ>\<open>int\<close> and truncates at the assignment.
\<close>

unbundle bit_operations_syntax

section \<open>Types\<close>

type_synonym u8 = "8 word"
type_synonym u16 = "16 word"
type_synonym u32 = "32 word"
type_synonym bytes = "u8 list"

named_theorems packs \<open>splitting words into bytes and putting them together\<close>
named_theorems frames \<open>shape of the frames the slave sends\<close>

text \<open>The result of most functions of the gateway.\<close>

datatype app_state_t = ST_OK | ST_ERR

section \<open>Bytes of a 16-bit value\<close>

definition hi8 :: "u16 \<Rightarrow> u8" where
  "hi8 w = ucast (drop_bit 8 w)"

definition lo8 :: "u16 \<Rightarrow> u8" where
  "lo8 w = ucast w"

definition mk16 :: "u8 \<Rightarrow> u8 \<Rightarrow> u16" where
  "mk16 h l = push_bit 8 (ucast h) OR ucast l"

lemma lo8_mk16 [simp, packs]: "lo8 (mk16 h l) = l"
  by (rule bit_word_eqI) (auto simp: lo8_def mk16_def bit_simps)

lemma hi8_mk16 [simp, packs]: "hi8 (mk16 h l) = h"
  by (rule bit_word_eqI) (auto simp: hi8_def mk16_def bit_simps dest: bit_imp_le_length)

lemma mk16_hi8_lo8 [simp, packs]: "mk16 (hi8 w) (lo8 w) = w"
  by (rule bit_word_eqI) (auto simp: hi8_def lo8_def mk16_def bit_simps)

lemma mk16_inject [simp]: "mk16 a b = mk16 c d \<longleftrightarrow> a = c \<and> b = d"
  by (metis hi8_mk16 lo8_mk16)

lemma lo8_ucast [simp]: "lo8 (ucast b) = b"
  by (rule bit_word_eqI) (auto simp: lo8_def bit_simps)

lemma hi8_0 [simp]: "hi8 0 = 0" and lo8_0 [simp]: "lo8 0 = 0"
  by (simp_all add: hi8_def lo8_def)

lemma mk16_0_0 [simp]: "mk16 0 0 = 0"
  by (simp add: mk16_def)

lemma hi8_xor: "hi8 (v XOR w) = hi8 v XOR hi8 w"
  by (rule bit_word_eqI) (auto simp: hi8_def bit_simps)

lemma lo8_xor: "lo8 (v XOR w) = lo8 v XOR lo8 w"
  by (rule bit_word_eqI) (auto simp: lo8_def bit_simps)

lemma mk16_xor: "mk16 a b XOR mk16 c d = mk16 (a XOR c) (b XOR d)"
  by (rule bit_word_eqI) (auto simp: mk16_def bit_simps dest: bit_imp_le_length)

lemma unat_mk16: "unat (mk16 h l) = 256 * unat h + unat l"
proof -
  have "mk16 h l = push_bit 8 (ucast h) + (ucast l :: u16)"
    unfolding mk16_def
    by (rule disjunctive_add [symmetric])
      (auto simp: bit_simps dest: bit_imp_le_length)
  moreover have "unat (push_bit 8 (ucast h :: u16)) = 256 * unat h"
    using unsigned_less [of h, where 'a = nat]
    by (subst unsigned_push_bit_eq) (simp add: unsigned_ucast_eq push_bit_eq_mult take_bit_nat_eq_self)
  moreover have "unat (ucast l :: u16) = unat l"
    using unsigned_less [of l, where 'a = nat] by (simp add: unsigned_ucast_eq take_bit_nat_eq_self)
  ultimately show ?thesis
    using unsigned_less [of h, where 'a = nat] unsigned_less [of l, where 'a = nat]
    by (simp add: unat_word_ariths)
qed

lemma xor_cancel_right [simp]: "a XOR c = b XOR c \<longleftrightarrow> a = b" for a b c :: "'a::len word"
  by (metis xor.assoc xor.right_neutral xor_self_eq)

lemma xor_cancel_left [simp]: "c XOR a = c XOR b \<longleftrightarrow> a = b" for a b c :: "'a::len word"
  by (metis xor.commute xor_cancel_right)

section \<open>Bounds of machine integers\<close>

lemma unat_u8_lt [simp]: "unat (b :: u8) < 256"
  using unsigned_less [of b, where 'a = nat] by simp

lemma unat_u16_lt [simp]: "unat (w :: u16) < 65536"
  using unsigned_less [of w, where 'a = nat] by simp

lemma unat_u8_le [simp]: "unat (b :: u8) \<le> 255"
  using unat_u8_lt [of b] by linarith

lemma unat_u16_le [simp]: "unat (w :: u16) \<le> 65535"
  using unat_u16_lt [of w] by linarith

lemma unat_of_nat_u8 [simp]: "n < 256 \<Longrightarrow> unat (of_nat n :: u8) = n"
  by (simp add: unat_of_nat)

lemma unat_of_nat_u16 [simp]: "n < 65536 \<Longrightarrow> unat (of_nat n :: u16) = n"
  by (simp add: unat_of_nat)

section \<open>Block moves\<close>

text \<open>C's \<^verbatim>\<open>memmove\<close> within an array: \<^term>\<open>k\<close> elements from \<^term>\<open>src\<close> on are copied to \<^term>\<open>dst\<close>.\<close>

definition memmove :: "nat \<Rightarrow> nat \<Rightarrow> nat \<Rightarrow> 'a list \<Rightarrow> 'a list" where
  "memmove dst src k xs = take dst xs @ take k (drop src xs) @ drop (dst + k) xs"

end
