(* ===== verification/Wave_Huffman.thy ===== *)
theory Wave_Huffman
  imports Prelude
begin

text \<open>
  The static Huffman codec of the waveform compression, \<^verbatim>\<open>src/DWT_Huffman/source/huffman.c\<close> with the
  table of \<^verbatim>\<open>huffman_table.h\<close>: the bit stream over a byte buffer, the encoder with its check mode, the
  decoding tree and the decoder.

  The arrays of \<^verbatim>\<open>float\<close> that the codec reads and writes hold whole numbers, because every producer
  rounds them; the model keeps them as integers.  The cast to \<^verbatim>\<open>int16_t\<close> is \<^const>\<open>word_of_int\<close>, which agrees
  with C on the range of \<^verbatim>\<open>int16_t\<close>, the only one for which C defines it.
\<close>

section \<open>The table\<close>

type_synonym i16 = "16 word"

record huffmanCode_t =
  symbol :: i16
  code_val :: u16
  code_len :: nat

definition INTERNAL_SYMBOL :: i16 where "INTERNAL_SYMBOL = - 32768"
definition ESCAPE_SYMBOL :: i16 where "ESCAPE_SYMBOL = 32767"
definition RAW_SYMBOL_BITS :: nat where "RAW_SYMBOL_BITS = 16"

definition PdM_Static_Table :: "huffmanCode_t list" where
  "PdM_Static_Table = [
     \<lparr>symbol = 0, code_val = 0x0000, code_len = 1\<rparr>,
     \<lparr>symbol = 5, code_val = 0x0004, code_len = 3\<rparr>,
     \<lparr>symbol = - 5, code_val = 0x0005, code_len = 3\<rparr>,
     \<lparr>symbol = 6, code_val = 0x000C, code_len = 4\<rparr>,
     \<lparr>symbol = - 6, code_val = 0x000D, code_len = 4\<rparr>,
     \<lparr>symbol = 7, code_val = 0x001C, code_len = 5\<rparr>,
     \<lparr>symbol = - 7, code_val = 0x001D, code_len = 5\<rparr>,
     \<lparr>symbol = 8, code_val = 0x003C, code_len = 6\<rparr>,
     \<lparr>symbol = - 8, code_val = 0x003D, code_len = 6\<rparr>,
     \<lparr>symbol = 9, code_val = 0x007C, code_len = 7\<rparr>,
     \<lparr>symbol = - 9, code_val = 0x007D, code_len = 7\<rparr>,
     \<lparr>symbol = 10, code_val = 0x00FC, code_len = 8\<rparr>,
     \<lparr>symbol = - 10, code_val = 0x00FD, code_len = 8\<rparr>,
     \<lparr>symbol = ESCAPE_SYMBOL, code_val = 0x007F, code_len = 7\<rparr>]"

definition find_code :: "i16 \<Rightarrow> huffmanCode_t option" where
  "find_code s = List.find (\<lambda>e. symbol e = s) PdM_Static_Table"

section \<open>The bit stream\<close>

text \<open>The indices are \<^verbatim>\<open>uint32_t\<close>; they never exceed the size of the buffer, so they do not wrap.\<close>

record huffmanBitstreamBuf_t =
  buffer :: bytes
  buf_size :: nat
  byte_index :: nat
  bit_offset :: nat

definition advance :: "huffmanBitstreamBuf_t \<Rightarrow> huffmanBitstreamBuf_t" where
  "advance bs = (let bs = bs\<lparr>bit_offset := bit_offset bs + 1\<rparr> in
     if bit_offset bs = 8 then bs\<lparr>bit_offset := 0, byte_index := byte_index bs + 1\<rparr> else bs)"

definition code_bit :: "u16 \<Rightarrow> nat \<Rightarrow> nat \<Rightarrow> bool" where
  "code_bit v n i = (drop_bit (n - 1 - i) v AND 1 = 1)"

text \<open>The loop over the bits of a code; the first component is False for the result -1.\<close>

fun write_bits :: "bool list \<Rightarrow> huffmanBitstreamBuf_t \<Rightarrow> bool \<times> huffmanBitstreamBuf_t" where
  "write_bits [] bs = (True, bs)"
| "write_bits (b # rest) bs =
     (if byte_index bs \<ge> buf_size bs then (False, bs)
      else let bs = (if b then bs\<lparr>buffer := (buffer bs)[byte_index bs :=
                        buffer bs ! byte_index bs OR push_bit (7 - bit_offset bs) 1]\<rparr> else bs)
           in write_bits rest (advance bs))"

definition write_code_value :: "huffmanBitstreamBuf_t \<Rightarrow> u16 \<Rightarrow> nat \<Rightarrow> bool \<times> huffmanBitstreamBuf_t" where
  "write_code_value bs v n = write_bits (map (code_bit v n) [0..<n]) bs"

definition read_bit :: "huffmanBitstreamBuf_t \<Rightarrow> bool option \<times> huffmanBitstreamBuf_t" where
  "read_bit bs =
     (if byte_index bs \<ge> buf_size bs then (None, bs)
      else (Some (drop_bit (7 - bit_offset bs) (buffer bs ! byte_index bs) AND 1 = 1), advance bs))"

fun read_raw_loop :: "nat list \<Rightarrow> i16 \<Rightarrow> huffmanBitstreamBuf_t \<Rightarrow> i16 option \<times> huffmanBitstreamBuf_t" where
  "read_raw_loop [] s bs = (Some s, bs)"
| "read_raw_loop (i # is) s bs =
     (case read_bit bs of
        (None, bs) \<Rightarrow> (None, bs)
      | (Some b, bs) \<Rightarrow> read_raw_loop is (s OR push_bit (RAW_SYMBOL_BITS - 1 - i) (of_bool b)) bs)"

definition read_raw_symbol :: "huffmanBitstreamBuf_t \<Rightarrow> i16 option \<times> huffmanBitstreamBuf_t" where
  "read_raw_symbol bs = read_raw_loop [0..<RAW_SYMBOL_BITS] 0 bs"

section \<open>The encoder\<close>

text \<open>
  The result of the encoder: the number of bits, the error code, the stream.  The argument \<^term>\<open>ret\<close> says
  whether the caller passed a pointer for the error code; without one a failed write does not end the loop.
\<close>

fun check_loop :: "nat \<Rightarrow> int list \<Rightarrow> u32 \<Rightarrow> u32" where
  "check_loop esc_len [] tot = tot"
| "check_loop esc_len (s # rest) tot =
     (case find_code (word_of_int s) of
        Some e \<Rightarrow> check_loop esc_len rest (tot + of_nat (code_len e))
      | None \<Rightarrow> check_loop esc_len rest (tot + of_nat esc_len + of_nat RAW_SYMBOL_BITS))"

fun encode_loop :: "bool \<Rightarrow> huffmanCode_t \<Rightarrow> int list \<Rightarrow> u32 \<Rightarrow> huffmanBitstreamBuf_t
    \<Rightarrow> u32 \<times> int \<times> huffmanBitstreamBuf_t" where
  "encode_loop ret esc [] tot bs = (tot, 0, bs)"
| "encode_loop ret esc (s # rest) tot bs =
     (case find_code (word_of_int s) of
        Some e \<Rightarrow>
          let (ok, bs) = write_code_value bs (code_val e) (code_len e) in
          if \<not> ok \<and> ret then (tot, - 1, bs)
          else encode_loop ret esc rest (tot + of_nat (code_len e)) bs
      | None \<Rightarrow>
          let (ok, bs) = write_code_value bs (code_val esc) (code_len esc) in
          if \<not> ok \<and> ret then (tot, - 1, bs)
          else let tot = tot + of_nat (code_len esc);
                   (ok, bs) = write_code_value bs (word_of_int s) RAW_SYMBOL_BITS in
            if \<not> ok \<and> ret then (tot, - 1, bs)
            else encode_loop ret esc rest (tot + of_nat RAW_SYMBOL_BITS) bs)"

definition huffman_encode_static ::
    "int list \<Rightarrow> huffmanBitstreamBuf_t \<Rightarrow> bool \<Rightarrow> bool \<Rightarrow> u32 \<times> int \<times> huffmanBitstreamBuf_t" where
  "huffman_encode_static symbols bs check ret =
     (case find_code ESCAPE_SYMBOL of
        None \<Rightarrow> (0, 0, bs)
      | Some esc \<Rightarrow>
          if check
          then let tot = check_loop (code_len esc) symbols 0 in
               (tot, if tot > of_nat (buf_size bs * 8) then - 1 else 0, bs)
          else encode_loop ret esc symbols 0 bs)"

section \<open>The decoder\<close>

datatype huffmanNode_t = NoNode | Node i16 huffmanNode_t huffmanNode_t

primrec node_symbol :: "huffmanNode_t \<Rightarrow> i16" where
  "node_symbol NoNode = 0"
| "node_symbol (Node s l r) = s"

primrec left_node :: "huffmanNode_t \<Rightarrow> huffmanNode_t" where
  "left_node NoNode = NoNode"
| "left_node (Node s l r) = l"

primrec right_node :: "huffmanNode_t \<Rightarrow> huffmanNode_t" where
  "right_node NoNode = NoNode"
| "right_node (Node s l r) = r"

text \<open>A child that is missing is created as an internal node on the way down.\<close>

definition make_node :: "huffmanNode_t \<Rightarrow> huffmanNode_t" where
  "make_node t = (if t = NoNode then Node INTERNAL_SYMBOL NoNode NoNode else t)"

fun insert_code :: "bool list \<Rightarrow> i16 \<Rightarrow> huffmanNode_t \<Rightarrow> huffmanNode_t" where
  "insert_code p s NoNode = NoNode"
| "insert_code [] s (Node y l r) = Node s l r"
| "insert_code (b # p) s (Node y l r) =
     (if \<not> b then Node y (insert_code p s (make_node l)) r
      else Node y l (insert_code p s (make_node r)))"

definition entry_bits :: "huffmanCode_t \<Rightarrow> bool list" where
  "entry_bits e = map (code_bit (code_val e) (code_len e)) [0..<code_len e]"

definition build_decoding_tree :: "bool \<Rightarrow> huffmanNode_t" where
  "build_decoding_tree mem_ok =
     (if \<not> mem_ok then NoNode
      else fold (\<lambda>e. insert_code (entry_bits e) (symbol e)) PdM_Static_Table (Node INTERNAL_SYMBOL NoNode NoNode))"

text \<open>Freeing the tree: the children before the node; the state is the list of the symbols of freed nodes.\<close>

primrec free_huffman_tree :: "huffmanNode_t \<Rightarrow> i16 list \<Rightarrow> i16 list" where
  "free_huffman_tree NoNode freed = freed"
| "free_huffman_tree (Node s l r) freed = free_huffman_tree r (free_huffman_tree l freed) @ [s]"

text \<open>
  The loop of the decoder.  Each round reads a bit, so that the number of bits of the buffer and one
  more round are enough; the result \<^term>\<open>None\<close> means that the rounds were used up.
\<close>

fun decode_loop :: "nat \<Rightarrow> huffmanNode_t \<Rightarrow> huffmanNode_t \<Rightarrow> int list \<Rightarrow> nat \<Rightarrow> huffmanBitstreamBuf_t
    \<Rightarrow> (int list \<times> int \<times> huffmanBitstreamBuf_t) option" where
  "decode_loop 0 root cur out max_symbols bs = None"
| "decode_loop (Suc fuel) root cur out max_symbols bs =
     (if length out \<ge> max_symbols then Some (out, 0, bs)
      else case read_bit bs of
        (None, bs) \<Rightarrow> Some (out, - 1, bs)
      | (Some b, bs) \<Rightarrow>
          let cur = (if \<not> b then left_node cur else right_node cur) in
          if cur = NoNode then Some (out, - 2, bs)
          else if node_symbol cur \<noteq> INTERNAL_SYMBOL
          then if node_symbol cur = ESCAPE_SYMBOL
               then case read_raw_symbol bs of
                      (None, bs) \<Rightarrow> Some (out, - 1, bs)
                    | (Some v, bs) \<Rightarrow> decode_loop fuel root root (out @ [sint v]) max_symbols bs
               else decode_loop fuel root root (out @ [sint (node_symbol cur)]) max_symbols bs
          else decode_loop fuel root cur out max_symbols bs)"

definition huffman_decode_static ::
    "huffmanBitstreamBuf_t \<Rightarrow> huffmanNode_t \<Rightarrow> nat \<Rightarrow> (int list \<times> int \<times> huffmanBitstreamBuf_t) option" where
  "huffman_decode_static bs root max_symbols = decode_loop (8 * buf_size bs + 1) root root [] max_symbols bs"

section \<open>Streams as lists of bits\<close>

definition byte_bits :: "u8 \<Rightarrow> bool list" where
  "byte_bits b = map (\<lambda>i. bit b (7 - i)) [0..<8]"

definition all_bits :: "bytes \<Rightarrow> bool list" where
  "all_bits bs = concat (map byte_bits bs)"

definition bit_pos :: "huffmanBitstreamBuf_t \<Rightarrow> nat" where
  "bit_pos bs = 8 * byte_index bs + bit_offset bs"

definition stream_wf :: "huffmanBitstreamBuf_t \<Rightarrow> bool" where
  "stream_wf bs \<longleftrightarrow> length (buffer bs) = buf_size bs \<and> bit_offset bs < 8 \<and> bit_pos bs \<le> 8 * buf_size bs"

definition written :: "huffmanBitstreamBuf_t \<Rightarrow> bool list" where
  "written bs = take (bit_pos bs) (all_bits (buffer bs))"

definition unread :: "huffmanBitstreamBuf_t \<Rightarrow> bool list" where
  "unread bs = drop (bit_pos bs) (all_bits (buffer bs))"

text \<open>What follows the write position is still zero.\<close>

definition stream_clean :: "huffmanBitstreamBuf_t \<Rightarrow> bool" where
  "stream_clean bs \<longleftrightarrow> (\<forall>b \<in> set (unread bs). \<not> b)"

lemma length_byte_bits [simp]: "length (byte_bits b) = 8"
  by (simp add: byte_bits_def)

lemma byte_bits_nth [simp]: "i < 8 \<Longrightarrow> byte_bits b ! i = bit b (7 - i)"
  by (simp add: byte_bits_def)

lemma all_bits_simps [simp]: "all_bits [] = []" "all_bits (b # bs) = byte_bits b @ all_bits bs"
  "all_bits (xs @ ys) = all_bits xs @ all_bits ys"
  by (simp_all add: all_bits_def)

lemma length_all_bits [simp]: "length (all_bits bs) = 8 * length bs"
  by (induction bs) simp_all

lemma all_bits_nth: "k < length bs \<Longrightarrow> i < 8 \<Longrightarrow> all_bits bs ! (8 * k + i) = bit (bs ! k) (7 - i)"
proof (induction bs arbitrary: k)
  case (Cons b bs)
  show ?case
  proof (cases k)
    case (Suc k')
    then have "8 * k + i = 8 + (8 * k' + i)" by simp
    then show ?thesis using Cons Suc by (simp add: nth_append)
  qed (use Cons.prems in \<open>simp add: nth_append\<close>)
qed simp

lemma drop_all_bits: "drop (8 * k) (all_bits bs) = all_bits (drop k bs)"
proof (induction k arbitrary: bs)
  case (Suc k)
  then show ?case by (cases bs) simp_all
qed simp

lemma all_bits_update:
  assumes "k < length bs" "i < 8"
  shows "all_bits (bs[k := bs ! k OR push_bit (7 - i) 1]) = (all_bits bs)[8 * k + i := True]"
proof (rule nth_equalityI)
  fix n assume "n < length (all_bits (bs[k := bs ! k OR push_bit (7 - i) 1]))"
  then obtain q r where n: "n = 8 * q + r" "r < 8" "q < length bs"
    by (metis length_all_bits length_list_update less_mult_imp_div_less mod_less_divisor mult.commute
        mult_div_mod_eq zero_less_numeral)
  show "all_bits (bs[k := bs ! k OR push_bit (7 - i) 1]) ! n = (all_bits bs)[8 * k + i := True] ! n"
  proof (cases "q = k")
    case True
    then show ?thesis
      using assms n by (cases "r = i") (auto simp: all_bits_nth bit_simps push_bit_eq_mult [symmetric] simp del: push_bit_of_1)
  next
    case False
    then have "8 * q + r \<noteq> 8 * k + i" using assms(2) n(2) by presburger
    then show ?thesis using n False by (simp add: all_bits_nth)
  qed
qed simp

lemma code_bit_eq: "code_bit v n i = bit v (n - 1 - i)"
  by (simp add: code_bit_def bit_iff_odd_drop_bit and_one_eq odd_iff_mod_2_eq_one)

section \<open>One bit\<close>

lemma advance_simps [simp]: "buffer (advance bs) = buffer bs" "buf_size (advance bs) = buf_size bs"
  by (simp_all add: advance_def Let_def)

lemma advance_pos: "bit_offset bs < 8 \<Longrightarrow> bit_pos (advance bs) = Suc (bit_pos bs) \<and> bit_offset (advance bs) < 8"
  by (auto simp: advance_def bit_pos_def Let_def)

lemma not_full: "stream_wf bs \<Longrightarrow> byte_index bs < buf_size bs \<longleftrightarrow> bit_pos bs < 8 * buf_size bs"
  by (auto simp: stream_wf_def bit_pos_def)

lemma length_unread [simp]: "stream_wf bs \<Longrightarrow> length (unread bs) = 8 * buf_size bs - bit_pos bs"
  by (simp add: unread_def stream_wf_def)

lemma length_written [simp]: "stream_wf bs \<Longrightarrow> length (written bs) = bit_pos bs"
  by (simp add: written_def stream_wf_def)

lemma read_bit_spec:
  assumes "stream_wf bs"
  shows "read_bit bs = (case unread bs of [] \<Rightarrow> (None, bs) | b # rest \<Rightarrow> (Some b, advance bs))"
    "unread bs = b # rest \<Longrightarrow> stream_wf (advance bs) \<and> unread (advance bs) = rest \<and> bit_pos (advance bs) = Suc (bit_pos bs)"
proof -
  have o: "bit_offset bs < 8" and l: "length (buffer bs) = buf_size bs" using assms by (simp_all add: stream_wf_def)
  have d: "unread bs = bit (buffer bs ! byte_index bs) (7 - bit_offset bs) # drop (Suc (bit_pos bs)) (all_bits (buffer bs))"
    if "bit_pos bs < 8 * buf_size bs"
    using that not_full [OF assms] l o all_bits_nth [of "byte_index bs" "buffer bs" "bit_offset bs"]
    by (simp add: unread_def Cons_nth_drop_Suc [symmetric] bit_pos_def)
  show "read_bit bs = (case unread bs of [] \<Rightarrow> (None, bs) | b # rest \<Rightarrow> (Some b, advance bs))"
  proof (cases "bit_pos bs < 8 * buf_size bs")
    case True
    then show ?thesis
      using not_full [OF assms] d by (simp add: read_bit_def bit_iff_odd_drop_bit and_one_eq odd_iff_mod_2_eq_one)
  next
    case False
    then show ?thesis
      using not_full [OF assms] l by (simp add: read_bit_def unread_def)
  qed
  assume u: "unread bs = b # rest"
  then have "bit_pos bs < 8 * buf_size bs" using length_unread [OF assms] by auto
  then show "stream_wf (advance bs) \<and> unread (advance bs) = rest \<and> bit_pos (advance bs) = Suc (bit_pos bs)"
    using d u advance_pos [OF o] l by (auto simp: stream_wf_def unread_def)
qed

section \<open>Writing codes\<close>

definition put_bit :: "bool \<Rightarrow> huffmanBitstreamBuf_t \<Rightarrow> huffmanBitstreamBuf_t" where
  "put_bit b bs = (if b then bs\<lparr>buffer := (buffer bs)[byte_index bs :=
     buffer bs ! byte_index bs OR push_bit (7 - bit_offset bs) 1]\<rparr> else bs)"

lemma put_bit_simps [simp]: "buf_size (put_bit b bs) = buf_size bs" "bit_pos (put_bit b bs) = bit_pos bs"
  "byte_index (put_bit b bs) = byte_index bs" "bit_offset (put_bit b bs) = bit_offset bs"
  "length (buffer (put_bit b bs)) = length (buffer bs)"
  by (simp_all add: put_bit_def bit_pos_def)

lemma write_bits_Cons:
  "write_bits (b # rest) bs = (if byte_index bs \<ge> buf_size bs then (False, bs) else write_bits rest (advance (put_bit b bs)))"
  by (simp add: put_bit_def)

lemma put_bit_spec:
  assumes "stream_wf bs" "stream_clean bs" "bit_pos bs < 8 * buf_size bs"
  shows "stream_wf (advance (put_bit b bs)) \<and> stream_clean (advance (put_bit b bs))
    \<and> written (advance (put_bit b bs)) = written bs @ [b] \<and> bit_pos (advance (put_bit b bs)) = Suc (bit_pos bs)"
proof -
  have o: "bit_offset bs < 8" "length (buffer bs) = buf_size bs" using assms(1) by (simp_all add: stream_wf_def)
  have p: "bit_pos (advance (put_bit b bs)) = Suc (bit_pos bs)" "bit_offset (advance (put_bit b bs)) < 8"
    using advance_pos [of "put_bit b bs"] o by auto
  let ?a = "all_bits (buffer bs)"
  have len: "bit_pos bs < length ?a" using assms(3) o by simp
  have z: "\<not> ?a ! k" if "bit_pos bs \<le> k" "k < length ?a" for k
    using assms(2) that nth_mem [of "k - bit_pos bs" "unread bs"] by (auto simp: stream_clean_def unread_def)
  have a: "all_bits (buffer (put_bit b bs)) = ?a[bit_pos bs := b]"
  proof (cases b)
    case True
    then show ?thesis
      using all_bits_update [of "byte_index bs" "buffer bs" "bit_offset bs"] not_full [OF assms(1)] assms(3) o
      by (simp add: put_bit_def bit_pos_def)
  next
    case False
    then show ?thesis using z [of "bit_pos bs"] len by (simp add: put_bit_def) (metis list_update_id)
  qed
  have "stream_clean (advance (put_bit b bs))"
    using z unfolding stream_clean_def unread_def p advance_simps a
    by (auto simp: in_set_conv_nth)
  moreover have "written (advance (put_bit b bs)) = written bs @ [b]"
    unfolding written_def p advance_simps a using len by (simp add: take_Suc_conv_app_nth)
  ultimately show ?thesis
    using p assms(3) o by (simp add: stream_wf_def)
qed

lemma write_bits_fits:
  assumes "stream_wf bs" "stream_clean bs" "bit_pos bs + length ws \<le> 8 * buf_size bs"
  shows "\<exists>bs'. write_bits ws bs = (True, bs') \<and> stream_wf bs' \<and> stream_clean bs' \<and> buf_size bs' = buf_size bs
    \<and> written bs' = written bs @ ws \<and> bit_pos bs' = bit_pos bs + length ws"
  using assms
proof (induction ws arbitrary: bs)
  case (Cons b ws)
  let ?bs = "advance (put_bit b bs)"
  have s: "stream_wf ?bs" "stream_clean ?bs" "written ?bs = written bs @ [b]" "bit_pos ?bs = Suc (bit_pos bs)"
    using put_bit_spec [of bs b] Cons.prems by auto
  obtain bs' where "write_bits ws ?bs = (True, bs')" "stream_wf bs'" "stream_clean bs'" "buf_size bs' = buf_size bs"
    "written bs' = (written bs @ [b]) @ ws" "bit_pos bs' = Suc (bit_pos bs) + length ws"
    using Cons.IH [OF s(1,2)] Cons.prems(3) s(3,4) by auto
  then show ?case
    using not_full [OF Cons.prems(1)] Cons.prems(3) by (simp add: write_bits_Cons del: write_bits.simps)
qed simp

lemma write_bits_full:
  assumes "stream_wf bs" "bit_pos bs + length ws > 8 * buf_size bs"
  shows "\<not> fst (write_bits ws bs)"
  using assms
proof (induction ws arbitrary: bs)
  case (Cons b ws)
  have p: "bit_pos (advance (put_bit b bs)) = Suc (bit_pos bs)" "bit_offset (advance (put_bit b bs)) < 8"
    using advance_pos [of "put_bit b bs"] Cons.prems(1) by (simp_all add: stream_wf_def)
  then have "stream_wf (advance (put_bit b bs))" if "bit_pos bs < 8 * buf_size bs"
    using that Cons.prems(1) by (simp add: stream_wf_def)
  then show ?case
    using Cons.IH [of "advance (put_bit b bs)"] Cons.prems p not_full [OF Cons.prems(1)]
    by (auto simp: write_bits_Cons simp del: write_bits.simps)
qed (simp add: stream_wf_def)

section \<open>The code as a specification\<close>

definition value_bits :: "i16 \<Rightarrow> bool list" where
  "value_bits v = map (\<lambda>i. bit v (15 - i)) [0..<16]"

definition symbol_bits :: "int \<Rightarrow> bool list" where
  "symbol_bits s = (case find_code (word_of_int s) of
     Some e \<Rightarrow> entry_bits e
   | None \<Rightarrow> replicate 7 True @ value_bits (word_of_int s))"

definition code_of :: "int list \<Rightarrow> bool list" where
  "code_of ss = concat (map symbol_bits ss)"

definition escape_entry :: huffmanCode_t where
  "escape_entry = \<lparr>symbol = ESCAPE_SYMBOL, code_val = 0x007F, code_len = 7\<rparr>"

lemma find_escape: "find_code ESCAPE_SYMBOL = Some escape_entry"
  by (simp add: find_code_def PdM_Static_Table_def ESCAPE_SYMBOL_def escape_entry_def)

lemma upts: "[0..<1] = [0::nat]" "[0..<3] = [0, 1, 2::nat]" "[0..<4] = [0, 1, 2, 3::nat]" "[0..<5] = [0, 1, 2, 3, 4::nat]"
  "[0..<6] = [0, 1, 2, 3, 4, 5::nat]" "[0..<7] = [0, 1, 2, 3, 4, 5, 6::nat]" "[0..<8] = [0, 1, 2, 3, 4, 5, 6, 7::nat]"
  by (simp_all add: upt_rec)

lemma replicate_num: "replicate (numeral v) x = x # replicate (pred_numeral v) x"
  by (simp add: numeral_eq_Suc)

lemma escape_bits: "entry_bits escape_entry = replicate 7 True"
  by (simp add: entry_bits_def escape_entry_def upts code_bit_def replicate_num)

lemma entry_bits_table: "map entry_bits PdM_Static_Table =
  [[False], [True, False, False], [True, False, True], [True, True, False, False], [True, True, False, True]] @
  map (\<lambda>(n, b). replicate n True @ [False, b]) [(3, False), (3, True), (4, False), (4, True), (5, False), (5, True), (6, False), (6, True)]
  @ [replicate 7 True]"
  by (simp add: PdM_Static_Table_def entry_bits_def upts code_bit_def replicate_num)

definition child :: "bool \<Rightarrow> huffmanNode_t \<Rightarrow> huffmanNode_t" where
  "child b t = (if \<not> b then left_node t else right_node t)"

text \<open>The path \<^term>\<open>p\<close> goes through internal nodes only and ends in a node with the symbol \<^term>\<open>s\<close>.\<close>

fun leads :: "huffmanNode_t \<Rightarrow> bool list \<Rightarrow> i16 \<Rightarrow> bool" where
  "leads t [] s = False"
| "leads t (b # p) s =
     (child b t \<noteq> NoNode \<and> (if p = [] then node_symbol (child b t) = s
       else node_symbol (child b t) = INTERNAL_SYMBOL \<and> leads (child b t) p s))"

text \<open>Every internal node has both children.\<close>

primrec full_tree :: "huffmanNode_t \<Rightarrow> bool" where
  "full_tree NoNode = False"
| "full_tree (Node s l r) = (if s = INTERNAL_SYMBOL then full_tree l \<and> full_tree r else True)"

lemma fold_table: "fold (\<lambda>e. insert_code (entry_bits e) (symbol e)) es t
   = fold (\<lambda>(p, s). insert_code p s) (zip (map entry_bits es) (map symbol es)) t"
  by (induction es arbitrary: t) simp_all

lemma build_tree_eq: "build_decoding_tree True =
  fold (\<lambda>(p, s). insert_code p s) (zip (map entry_bits PdM_Static_Table) (map symbol PdM_Static_Table))
   (Node INTERNAL_SYMBOL NoNode NoNode)"
  by (simp add: build_decoding_tree_def fold_table)

lemma build_tree_complete: "full_tree (build_decoding_tree True)"
  unfolding build_tree_eq entry_bits_table
  by (simp add: PdM_Static_Table_def replicate_num make_node_def INTERNAL_SYMBOL_def ESCAPE_SYMBOL_def)

lemma build_tree_leads: "list_all2 (leads (build_decoding_tree True)) (map entry_bits PdM_Static_Table) (map symbol PdM_Static_Table)"
  unfolding build_tree_eq entry_bits_table
  by (simp add: PdM_Static_Table_def replicate_num make_node_def INTERNAL_SYMBOL_def ESCAPE_SYMBOL_def child_def)

section \<open>Codes of symbols\<close>

lemma find_code_table: "find_code s = Some e \<Longrightarrow> e \<in> set PdM_Static_Table \<and> symbol e = s"
  by (auto simp: find_code_def find_Some_iff)

lemma table_lengths: "e \<in> set PdM_Static_Table \<Longrightarrow> 0 < code_len e \<and> code_len e \<le> 8"
  by (auto simp: PdM_Static_Table_def)

lemma length_entry_bits [simp]: "length (entry_bits e) = code_len e"
  by (simp add: entry_bits_def)

lemma length_value_bits [simp]: "length (value_bits v) = 16"
  by (simp add: value_bits_def)

lemma symbol_bits_length: "0 < length (symbol_bits s) \<and> length (symbol_bits s) \<le> 23"
  by (auto simp: symbol_bits_def length_greater_0_conv [symmetric] simp del: length_greater_0_conv
      split: option.split dest!: find_code_table table_lengths)

lemma code_of_simps [simp]: "code_of [] = []" "code_of (s # ss) = symbol_bits s @ code_of ss"
  "code_of (xs @ ys) = code_of xs @ code_of ys"
  by (simp_all add: code_of_def)

lemma length_code_of: "length (code_of ss) \<le> 23 * length ss"
proof (induction ss)
  case (Cons s ss)
  then show ?case using symbol_bits_length [of s] by simp
qed simp

lemma write_raw: "write_code_value bs v RAW_SYMBOL_BITS = write_bits (value_bits v) bs"
  by (simp add: write_code_value_def value_bits_def RAW_SYMBOL_BITS_def code_bit_eq fun_eq_iff
      cong: map_cong)

lemma write_entry: "write_code_value bs (code_val e) (code_len e) = write_bits (entry_bits e) bs"
  by (simp add: write_code_value_def entry_bits_def)

section \<open>The encoder implements the code\<close>

lemma write_bits_append: "write_bits (ps @ qs) bs =
   (case write_bits ps bs of (True, bs') \<Rightarrow> write_bits qs bs' | r \<Rightarrow> r)"
  by (induction ps bs rule: write_bits.induct) (simp_all add: Let_def)

text \<open>With a pointer for the error code, one round writes the bits of its symbol or ends the loop.\<close>

lemma encode_loop_step:
  "write_bits (symbol_bits s) bs = (True, bs') \<Longrightarrow> encode_loop True escape_entry (s # rest) tot bs
     = encode_loop True escape_entry rest (tot + of_nat (length (symbol_bits s))) bs'"
  "write_bits (symbol_bits s) bs = (False, bs') \<Longrightarrow> fst (snd (encode_loop True escape_entry (s # rest) tot bs)) = - 1"
proof -
  have e: "write_code_value bs (code_val escape_entry) (code_len escape_entry) = write_bits (replicate 7 True) bs" for bs
    by (simp add: write_entry escape_bits)
  have l: "code_len escape_entry = 7" by (simp add: escape_entry_def)
  show "encode_loop True escape_entry (s # rest) tot bs
     = encode_loop True escape_entry rest (tot + of_nat (length (symbol_bits s))) bs'"
    if "write_bits (symbol_bits s) bs = (True, bs')"
    using that e l write_raw by (auto simp: symbol_bits_def write_bits_append write_entry RAW_SYMBOL_BITS_def Let_def add.commute
        split: prod.splits bool.splits option.splits)
  show "fst (snd (encode_loop True escape_entry (s # rest) tot bs)) = - 1"
    if "write_bits (symbol_bits s) bs = (False, bs')"
    using that e write_raw by (auto simp: symbol_bits_def write_bits_append write_entry RAW_SYMBOL_BITS_def Let_def
        split: prod.splits bool.splits option.splits)
qed

lemma encode_loop_fits:
  assumes "stream_wf bs" "stream_clean bs" "bit_pos bs + length (code_of ss) \<le> 8 * buf_size bs"
  shows "\<exists>bs'. encode_loop True escape_entry ss tot bs = (tot + of_nat (length (code_of ss)), 0, bs')
    \<and> stream_wf bs' \<and> stream_clean bs' \<and> buf_size bs' = buf_size bs
    \<and> written bs' = written bs @ code_of ss \<and> bit_pos bs' = bit_pos bs + length (code_of ss)"
  using assms
proof (induction ss arbitrary: bs tot)
  case (Cons s ss)
  obtain bs1 where 1: "write_bits (symbol_bits s) bs = (True, bs1)" "stream_wf bs1" "stream_clean bs1"
    "buf_size bs1 = buf_size bs" "written bs1 = written bs @ symbol_bits s"
    "bit_pos bs1 = bit_pos bs + length (symbol_bits s)"
    using write_bits_fits [of bs "symbol_bits s"] Cons.prems by auto
  then have "bit_pos bs1 + length (code_of ss) \<le> 8 * buf_size bs1" using Cons.prems(3) by simp
  from Cons.IH [OF 1(2,3) this, of "tot + of_nat (length (symbol_bits s))"] 1
  show ?case by (simp add: encode_loop_step(1) add.assoc del: encode_loop.simps)
qed simp

lemma encode_loop_full:
  assumes "stream_wf bs" "stream_clean bs" "bit_pos bs + length (code_of ss) > 8 * buf_size bs"
  shows "fst (snd (encode_loop True escape_entry ss tot bs)) = - 1"
  using assms
proof (induction ss arbitrary: bs tot)
  case (Cons s ss)
  show ?case
  proof (cases "bit_pos bs + length (symbol_bits s) \<le> 8 * buf_size bs")
    case True
    obtain bs1 where 1: "write_bits (symbol_bits s) bs = (True, bs1)" "stream_wf bs1" "stream_clean bs1"
      "buf_size bs1 = buf_size bs" "bit_pos bs1 = bit_pos bs + length (symbol_bits s)"
      using write_bits_fits [of bs "symbol_bits s"] Cons.prems True by auto
    then have "8 * buf_size bs1 < bit_pos bs1 + length (code_of ss)" using Cons.prems(3) by simp
    from Cons.IH [OF 1(2,3) this] 1(1) show ?thesis by (simp add: encode_loop_step(1) del: encode_loop.simps)
  next
    case False
    then obtain bs1 where "write_bits (symbol_bits s) bs = (False, bs1)"
      using write_bits_full [OF Cons.prems(1), of "symbol_bits s"] by (cases "write_bits (symbol_bits s) bs") auto
    then show ?thesis by (rule encode_loop_step(2))
  qed
qed (simp add: stream_wf_def)

lemma check_loop_eq: "check_loop 7 ss tot = tot + of_nat (length (code_of ss))"
proof (induction ss arbitrary: tot)
  case (Cons s ss)
  show ?case
    by (cases "find_code (word_of_int s)")
      (simp_all add: Cons.IH symbol_bits_def RAW_SYMBOL_BITS_def algebra_simps)
qed simp

section \<open>Reading codes\<close>

lemma read_bit_some:
  assumes "stream_wf bs" "unread bs = b # rest"
  shows "read_bit bs = (Some b, advance bs)" "stream_wf (advance bs)" "unread (advance bs) = rest"
  using read_bit_spec [OF assms(1)] assms(2) by simp_all

lemma read_bit_none: "stream_wf bs \<Longrightarrow> unread bs = [] \<Longrightarrow> read_bit bs = (None, bs)"
  using read_bit_spec(1) by simp

lemma read_raw_loop_spec:
  fixes v s :: i16
  assumes "stream_wf bs" "unread bs = map (\<lambda>i. bit v (15 - i)) [k..<16] @ rest" "k \<le> 16"
    "\<And>j. bit s j \<longleftrightarrow> 16 - k \<le> j \<and> bit v j"
  shows "\<exists>bs'. read_raw_loop [k..<16] s bs = (Some v, bs') \<and> stream_wf bs' \<and> unread bs' = rest"
  using assms
proof (induction "16 - k" arbitrary: k s bs)
  case 0
  then have "s = v" by (intro bit_word_eqI) simp
  then show ?case using 0 by simp
next
  case (Suc n)
  then have k: "k < 16" by simp
  then have u: "[k..<16] = k # [Suc k..<16]" by (simp add: upt_conv_Cons)
  then have b: "unread bs = bit v (15 - k) # map (\<lambda>i. bit v (15 - i)) [Suc k..<16] @ rest" using Suc.prems(2) by simp
  note r = read_bit_some [OF Suc.prems(1) b]
  let ?s = "s OR push_bit (15 - k) (of_bool (bit v (15 - k)))"
  have s: "bit ?s j \<longleftrightarrow> 16 - Suc k \<le> j \<and> bit v j" for j
    using Suc.prems(4) [of j] k bit_imp_le_length [of v j]
    by (cases "j = 15 - k") (auto simp: bit_simps)
  from Suc.hyps(1) [OF _ r(2,3) _ s] k Suc.hyps(2)
  show ?case unfolding u by (simp add: r(1) RAW_SYMBOL_BITS_def)
qed

lemma read_raw_symbol_spec:
  assumes "stream_wf bs" "unread bs = value_bits v @ rest"
  shows "\<exists>bs'. read_raw_symbol bs = (Some v, bs') \<and> stream_wf bs' \<and> unread bs' = rest"
  using read_raw_loop_spec [OF assms(1), of v 0 rest 0] assms(2) bit_imp_le_length [of v]
  by (force simp: read_raw_symbol_def RAW_SYMBOL_BITS_def value_bits_def)

text \<open>What the decoder does when the walk reaches a symbol.\<close>

definition emit :: "nat \<Rightarrow> huffmanNode_t \<Rightarrow> i16 \<Rightarrow> int list \<Rightarrow> nat \<Rightarrow> huffmanBitstreamBuf_t
    \<Rightarrow> (int list \<times> int \<times> huffmanBitstreamBuf_t) option" where
  "emit fuel root s out m bs =
     (if s = ESCAPE_SYMBOL
      then case read_raw_symbol bs of
             (None, bs) \<Rightarrow> Some (out, - 1, bs)
           | (Some v, bs) \<Rightarrow> decode_loop fuel root root (out @ [sint v]) m bs
      else decode_loop fuel root root (out @ [sint s]) m bs)"

lemma decode_loop_step:
  assumes "length out < m" "stream_wf bs" "unread bs = b # rest" "child b cur \<noteq> NoNode"
  shows "decode_loop (Suc fuel) root cur out m bs =
    (if node_symbol (child b cur) \<noteq> INTERNAL_SYMBOL then emit fuel root (node_symbol (child b cur)) out m (advance bs)
     else decode_loop fuel root (child b cur) out m (advance bs))"
  using assms read_bit_some [OF assms(2,3)] by (simp add: child_def emit_def)

lemma decode_leads:
  assumes "leads cur p s" "s \<noteq> INTERNAL_SYMBOL" "stream_wf bs" "unread bs = p @ rest" "length (unread bs) < fuel" "length out < m"
  shows "\<exists>fuel' bs'. decode_loop fuel root cur out m bs = emit fuel' root s out m bs' \<and> stream_wf bs' \<and> unread bs' = rest
    \<and> length rest < fuel'"
  using assms
proof (induction p arbitrary: cur bs fuel)
  case (Cons b p)
  obtain fuel' where f: "fuel = Suc fuel'" using Cons.prems(5) by (cases fuel) auto
  have u: "unread bs = b # (p @ rest)" using Cons.prems(4) by simp
  have c: "child b cur \<noteq> NoNode" using Cons.prems(1) by simp
  note d = decode_loop_step [OF Cons.prems(6,3) u c, of fuel' root] and r = read_bit_some [OF Cons.prems(3) u]
  show ?case
  proof (cases "p = []")
    case True
    then have "decode_loop fuel root cur out m bs = emit fuel' root s out m (advance bs)"
      using d f Cons.prems(1,2) by simp
    then show ?thesis using r True Cons.prems(5) f u by (auto simp del: length_unread)
  next
    case False
    then have "leads (child b cur) p s" "decode_loop fuel root cur out m bs = decode_loop fuel' root (child b cur) out m (advance bs)"
      using d f Cons.prems(1) by auto
    then show ?thesis
      using Cons.IH [of "child b cur" "advance bs" fuel'] Cons.prems r f u by (auto simp del: length_unread)
  qed
qed simp

abbreviation decoding_tree :: huffmanNode_t where
  "decoding_tree \<equiv> build_decoding_tree True"

lemma tree_leads: "find_code s = Some e \<Longrightarrow> leads decoding_tree (entry_bits e) s"
proof -
  assume "find_code s = Some e"
  then obtain i where i: "i < length PdM_Static_Table" "PdM_Static_Table ! i = e" "symbol e = s"
    using find_code_table [of s e] by (auto simp: in_set_conv_nth)
  then show ?thesis
    using build_tree_leads list_all2_nthD [OF build_tree_leads, of i] by auto
qed

text \<open>Symbols that the code can represent: 16 bits, and not one of the two reserved values.\<close>

definition symbol_ok :: "int \<Rightarrow> bool" where
  "symbol_ok s \<longleftrightarrow> - 32768 \<le> s \<and> s < 32767"

lemma symbol_ok_word: "symbol_ok s \<Longrightarrow> sint (word_of_int s :: i16) = s \<and> (word_of_int s :: i16) \<noteq> ESCAPE_SYMBOL"
proof -
  assume s: "symbol_ok s"
  then have "sint (word_of_int s :: i16) = s"
    by (simp add: symbol_ok_def sint_sbintrunc' signed_take_bit_int_eq_self)
  moreover have "sint ESCAPE_SYMBOL = 32767" by (simp add: ESCAPE_SYMBOL_def)
  ultimately show ?thesis using s by (auto simp: symbol_ok_def)
qed

lemma decode_symbol:
  assumes "symbol_ok s" "stream_wf bs" "unread bs = symbol_bits s @ rest" "length (unread bs) < fuel" "length out < m"
  shows "\<exists>fuel' bs'. decode_loop fuel decoding_tree decoding_tree out m bs = decode_loop fuel' decoding_tree decoding_tree (out @ [s]) m bs'
    \<and> stream_wf bs' \<and> unread bs' = rest \<and> length rest < fuel'"
proof (cases "find_code (word_of_int s :: i16)")
  case None
  have l: "leads decoding_tree (replicate 7 True) ESCAPE_SYMBOL" "ESCAPE_SYMBOL \<noteq> INTERNAL_SYMBOL"
    using tree_leads [OF find_escape] by (simp_all add: escape_bits ESCAPE_SYMBOL_def INTERNAL_SYMBOL_def)
  have u: "unread bs = replicate 7 True @ value_bits (word_of_int s) @ rest" using assms(3) None by (simp add: symbol_bits_def)
  obtain fuel' bs1 where 1: "decode_loop fuel decoding_tree decoding_tree out m bs = emit fuel' decoding_tree ESCAPE_SYMBOL out m bs1"
    "stream_wf bs1" "unread bs1 = value_bits (word_of_int s) @ rest" "length (value_bits (word_of_int s) @ rest) < fuel'"
    using decode_leads [OF l assms(2) u assms(4,5)] by blast
  obtain bs2 where 2: "read_raw_symbol bs1 = (Some (word_of_int s), bs2)" "stream_wf bs2" "unread bs2 = rest"
    using read_raw_symbol_spec [OF 1(2,3)] by blast
  then have "decode_loop fuel decoding_tree decoding_tree out m bs = decode_loop fuel' decoding_tree decoding_tree (out @ [s]) m bs2"
    using 1(1) symbol_ok_word [OF assms(1)] by (simp add: emit_def)
  moreover have "length rest < fuel'" using 1(4) by simp
  ultimately show ?thesis using 2(2,3) by blast
next
  case (Some e)
  have "(word_of_int s :: i16) \<noteq> INTERNAL_SYMBOL"
    using find_code_table [OF Some] by (auto simp: PdM_Static_Table_def INTERNAL_SYMBOL_def ESCAPE_SYMBOL_def)
  then show ?thesis
    using decode_leads [OF tree_leads [OF Some] _ assms(2) _ assms(4,5), of rest decoding_tree] assms(3) Some symbol_ok_word [OF assms(1)]
    by (auto simp: symbol_bits_def emit_def)
qed

lemma decode_loop_code:
  assumes "list_all symbol_ok ss" "stream_wf bs" "unread bs = code_of ss @ rest" "length (unread bs) < fuel" "m = length out + length ss"
  shows "\<exists>bs'. decode_loop fuel decoding_tree decoding_tree out m bs = Some (out @ ss, 0, bs')
    \<and> stream_wf bs' \<and> unread bs' = rest"
  using assms
proof (induction ss arbitrary: out bs fuel)
  case Nil
  then obtain f where "fuel = Suc f" by (cases fuel) auto
  then show ?case using Nil by simp
next
  case (Cons s ss)
  have u: "unread bs = symbol_bits s @ (code_of ss @ rest)" using Cons.prems(3) by simp
  obtain fuel' bs1 where 1: "decode_loop fuel decoding_tree decoding_tree out m bs = decode_loop fuel' decoding_tree decoding_tree (out @ [s]) m bs1"
    "stream_wf bs1" "unread bs1 = code_of ss @ rest" "length (code_of ss @ rest) < fuel'"
    using decode_symbol [OF _ Cons.prems(2) u Cons.prems(4), of out m] Cons.prems(1,5) by auto
  show ?case
    using Cons.IH [of bs1 fuel' "out @ [s]"] 1 Cons.prems(1,5) by (auto simp del: length_unread)
qed

text \<open>The loop ends on every stream; with the tree of the table no walk leaves the tree.\<close>

definition decode_safe :: "nat \<Rightarrow> int list \<times> int \<times> huffmanBitstreamBuf_t \<Rightarrow> bool" where
  "decode_safe m r = (case r of (out, e, bs) \<Rightarrow>
     (e = 0 \<and> length out = m \<or> e = - 1 \<and> length out < m) \<and> list_all (\<lambda>v. - 32768 \<le> v \<and> v \<le> 32767) out \<and> stream_wf bs)"

lemma read_raw_loop_wf: "stream_wf bs \<Longrightarrow> stream_wf (snd (read_raw_loop is s bs))
   \<and> length (unread (snd (read_raw_loop is s bs))) \<le> length (unread bs)"
proof (induction "is" arbitrary: s bs)
  case (Cons i "is")
  show ?case
  proof (cases "unread bs")
    case Nil
    then show ?thesis using read_bit_none [OF Cons.prems] Cons.prems by simp
  next
    case (Cons b rest)
    note r = read_bit_some [OF Cons.prems Cons]
    have "stream_wf (snd (read_raw_loop is s' (advance bs))) \<and> length (unread (snd (read_raw_loop is s' (advance bs)))) \<le> length rest" for s'
      using Cons.IH [OF r(2)] r(3) by (simp del: length_unread)
    then show ?thesis using r(1) Cons by (auto intro: le_SucI simp del: length_unread)
  qed
qed simp

lemma sint16: "- 32768 \<le> sint (v :: i16) \<and> sint v \<le> 32767"
  using sint_greater_eq [of v] sint_less [of v] by simp

lemma full_tree_child: "full_tree t \<Longrightarrow> node_symbol t = INTERNAL_SYMBOL \<Longrightarrow> full_tree (child b t) \<and> child b t \<noteq> NoNode"
  by (cases t; cases "child b t") (auto simp: child_def split: if_splits)

lemma decode_loop_safe:
  assumes "stream_wf bs" "length (unread bs) < fuel" "length out \<le> m" "list_all (\<lambda>v. - 32768 \<le> v \<and> v \<le> 32767) out"
    "full_tree cur" "node_symbol cur = INTERNAL_SYMBOL" "full_tree root" "node_symbol root = INTERNAL_SYMBOL"
  shows "\<exists>r. decode_loop fuel root cur out m bs = Some r \<and> decode_safe m r"
  using assms
proof (induction fuel arbitrary: bs cur out)
  case (Suc fuel)
  show ?case
  proof (cases "length out < m")
    case False
    then show ?thesis using Suc.prems by (simp add: decode_safe_def)
  next
    case True
    show ?thesis
    proof (cases "unread bs")
      case Nil
      then show ?thesis using True read_bit_none [OF Suc.prems(1)] Suc.prems(1,4) by (simp add: decode_safe_def)
    next
      case (Cons b rest)
      note r = read_bit_some [OF Suc.prems(1) Cons]
      have c: "full_tree (child b cur)" "child b cur \<noteq> NoNode" using full_tree_child Suc.prems(5,6) by blast+
      have l: "length rest < fuel" using Suc.prems(2) Cons by simp
      have IH: "\<exists>r. decode_loop fuel root root (out @ [sint v]) m bs' = Some r \<and> decode_safe m r"
        if "stream_wf bs'" "length (unread bs') \<le> length rest" for bs' and v :: i16
        using Suc.IH [OF that(1), of "out @ [sint v]" root] that(2) l True Suc.prems(4,7,8) sint16 [of v] by simp
      have e: "\<exists>r. emit fuel root s out m (advance bs) = Some r \<and> decode_safe m r" for s
        using IH [OF r(2)] r True Suc.prems(4) read_raw_loop_wf [OF r(2), of "[0..<RAW_SYMBOL_BITS]" 0] IH
        by (auto simp: emit_def read_raw_symbol_def decode_safe_def simp del: length_unread split: prod.split option.split)
      show ?thesis
        unfolding decode_loop_step [OF True Suc.prems(1) Cons c(2)]
        using e Suc.IH [OF r(2), of out "child b cur"] l r(3) c Suc.prems by simp
    qed
  qed
qed simp

section \<open>Properties\<close>

lemma of_nat_u32_less: "i < 2 ^ 32 \<Longrightarrow> j < 2 ^ 32 \<Longrightarrow> (of_nat i :: u32) < of_nat j \<longleftrightarrow> i < j"
  by (simp add: word_less_nat_alt unat_of_nat)

lemma encode_static_fits:
  assumes "stream_wf bs" "stream_clean bs" "bit_pos bs + length (code_of ss) \<le> 8 * buf_size bs"
  shows "\<exists>bs'. huffman_encode_static ss bs False True = (of_nat (length (code_of ss)), 0, bs')
    \<and> stream_wf bs' \<and> stream_clean bs' \<and> buf_size bs' = buf_size bs
    \<and> written bs' = written bs @ code_of ss \<and> bit_pos bs' = bit_pos bs + length (code_of ss)"
  using encode_loop_fits [OF assms, of 0] by (simp add: huffman_encode_static_def find_escape)

lemma encode_static_full:
  assumes "stream_wf bs" "stream_clean bs" "bit_pos bs + length (code_of ss) > 8 * buf_size bs"
  shows "fst (snd (huffman_encode_static ss bs False True)) = - 1"
  using encode_loop_full [OF assms, of 0] by (simp add: huffman_encode_static_def find_escape)

lemma encode_static_check: "huffman_encode_static ss bs True True =
   (of_nat (length (code_of ss)), if of_nat (length (code_of ss)) > (of_nat (buf_size bs * 8) :: u32) then - 1 else 0, bs)"
proof -
  have "code_len escape_entry = 7" by (simp add: escape_entry_def)
  then show ?thesis by (simp add: huffman_encode_static_def find_escape check_loop_eq Let_def)
qed

lemma decode_static_code:
  assumes "list_all symbol_ok ss" "stream_wf bs" "unread bs = code_of ss @ rest"
  shows "\<exists>bs'. huffman_decode_static bs decoding_tree (length ss) = Some (ss, 0, bs') \<and> stream_wf bs' \<and> unread bs' = rest"
  unfolding huffman_decode_static_def
  using decode_loop_code [OF assms, of "8 * buf_size bs + 1" "length ss" "[]"] assms(2) by simp

lemma build_tree_root: "node_symbol (build_decoding_tree True) = INTERNAL_SYMBOL"
  unfolding build_tree_eq entry_bits_table
  by (simp add: PdM_Static_Table_def replicate_num make_node_def)

definition empty_stream :: "nat \<Rightarrow> huffmanBitstreamBuf_t" where
  "empty_stream n = \<lparr>buffer = replicate n 0, buf_size = n, byte_index = 0, bit_offset = 0\<rparr>"

lemma all_bits_zero: "all_bits (replicate n 0) = replicate (8 * n) False"
proof (induction n)
  case (Suc n)
  have "byte_bits 0 = replicate 8 False" by (simp add: byte_bits_def map_replicate_const)
  then show ?case using Suc by (simp add: replicate_add [symmetric])
qed simp

lemma empty_stream_ok [simp]: "stream_wf (empty_stream n)" "stream_clean (empty_stream n)" "bit_pos (empty_stream n) = 0"
  "buf_size (empty_stream n) = n" "written (empty_stream n) = []"
  by (simp_all add: empty_stream_def stream_wf_def stream_clean_def bit_pos_def unread_def written_def all_bits_zero)

definition rewind :: "huffmanBitstreamBuf_t \<Rightarrow> huffmanBitstreamBuf_t" where
  "rewind bs = bs\<lparr>byte_index := 0, bit_offset := 0\<rparr>"

lemma rewind_unread:
  assumes "stream_wf bs"
  shows "stream_wf (rewind bs)" "unread (rewind bs) = written bs @ unread bs"
  using assms by (simp_all add: rewind_def stream_wf_def bit_pos_def unread_def written_def)

text \<open>
  C30: The encoder refines the code table.  On a clean stream it appends the codes of the symbols, in order, to
  what was written before, reports their total length and leaves the stream clean, when they fit; when they do
  not fit it reports -1.
\<close>

theorem huffman_encode_refines_code:
  assumes "stream_wf bs" "stream_clean bs"
  shows "(let (tot, ret, bs') = huffman_encode_static ss bs False True in
    if bit_pos bs + length (code_of ss) \<le> 8 * buf_size bs
    then ret = 0 \<and> tot = of_nat (length (code_of ss)) \<and> written bs' = written bs @ code_of ss
      \<and> stream_wf bs' \<and> stream_clean bs' \<and> buf_size bs' = buf_size bs
    else ret = - 1)"
  using encode_static_fits [OF assms, of ss] encode_static_full [OF assms, of ss] by (cases "huffman_encode_static ss bs False True") force

theorem huffman_encode_refines_code_witness:
  "let (tot, ret, bs') = huffman_encode_static [0, 7] (empty_stream 2) False True in
     if bit_pos (empty_stream 2) + length (code_of [0, 7]) \<le> 8 * buf_size (empty_stream 2)
     then ret = 0 \<and> tot = of_nat (length (code_of [0, 7])) \<and> written bs' = written (empty_stream 2) @ code_of [0, 7]
       \<and> stream_wf bs' \<and> stream_clean bs' \<and> buf_size bs' = buf_size (empty_stream 2)
     else ret = - 1"
  by (rule huffman_encode_refines_code) simp_all

text \<open>
  The check mode predicts the encoder.  At the start of an empty stream, and for fewer than 180 million
  symbols, it reports an error exactly when encoding would, and otherwise the number of bits that
  encoding writes; it does not touch the stream.
\<close>

theorem huffman_check_predicts_encode:
  assumes "stream_wf bs" "stream_clean bs" "bit_pos bs = 0" "23 * length ss < 2 ^ 32" "8 * buf_size bs < 2 ^ 32"
  shows "fst (snd (huffman_encode_static ss bs True True)) = fst (snd (huffman_encode_static ss bs False True))
    \<and> (fst (snd (huffman_encode_static ss bs False True)) = 0
         \<longrightarrow> fst (huffman_encode_static ss bs True True) = fst (huffman_encode_static ss bs False True))
    \<and> snd (snd (huffman_encode_static ss bs True True)) = bs"
proof -
  have "length (code_of ss) < 2 ^ 32" using length_code_of [of ss] assms(4) by simp
  then have "of_nat (length (code_of ss)) > (of_nat (buf_size bs * 8) :: u32) \<longleftrightarrow> length (code_of ss) > 8 * buf_size bs"
    using assms(5) of_nat_u32_less [of "buf_size bs * 8" "length (code_of ss)"] by (simp add: mult.commute)
  then show ?thesis
    using encode_static_fits [OF assms(1,2), of ss] encode_static_full [OF assms(1,2), of ss] assms(3)
    by (cases "length (code_of ss) \<le> 8 * buf_size bs") (auto simp: encode_static_check)
qed

theorem huffman_check_predicts_encode_witness:
  "fst (snd (huffman_encode_static [5, 400] (empty_stream 2) True True)) = fst (snd (huffman_encode_static [5, 400] (empty_stream 2) False True))"
  using huffman_check_predicts_encode [of "empty_stream 2" "[5, 400]"] by simp

text \<open>
  C29: Decoding inverts encoding.  Symbols of 16 bits other than the reserved 32767, encoded into an empty
  buffer that is large enough and read back from its start with the tree that is built from the same
  table, come back unchanged and without an error.
\<close>

theorem huffman_roundtrip:
  assumes "list_all symbol_ok ss" "length (code_of ss) \<le> 8 * n"
    "huffman_encode_static ss (empty_stream n) False True = (tot, ret, bs)"
  shows "ret = 0 \<and> (\<exists>bs'. huffman_decode_static (rewind bs) (build_decoding_tree True) (length ss) = Some (ss, 0, bs'))"
proof -
  have "ret = 0" "stream_wf bs" "written bs = code_of ss"
    using encode_static_fits [of "empty_stream n" ss] assms(2,3) by auto
  then show ?thesis
    using decode_static_code [OF assms(1), of "rewind bs" "unread bs"] rewind_unread by auto
qed

theorem huffman_roundtrip_witness:
  "\<exists>tot bs bs'. huffman_encode_static [0, 5, - 6, 300] (empty_stream 4) False True = (tot, 0, bs)
     \<and> huffman_decode_static (rewind bs) (build_decoding_tree True) 4 = Some ([0, 5, - 6, 300], 0, bs')"
proof -
  let ?ss = "[0, 5, - 6, 300 :: int]"
  have "list_all symbol_ok ?ss" "length (code_of ?ss) \<le> 8 * 4"
    by (simp_all add: symbol_ok_def symbol_bits_def find_code_def PdM_Static_Table_def ESCAPE_SYMBOL_def)
  moreover obtain tot ret bs where "huffman_encode_static ?ss (empty_stream 4) False True = (tot, ret, bs)"
    using prod_cases3 by blast
  ultimately show ?thesis using huffman_roundtrip [of ?ss 4 tot ret bs] by (simp add: eval_nat_numeral)
qed

text \<open>
  C31: The decoder is safe on every input.  Whatever bytes the stream holds, the decoder stops after at most one
  round per bit; it returns the requested number of symbols, or fewer and the error -1 when the stream
  ends first, and every symbol is in the range of 16-bit integers.  The error -2 does not
  occur, because every inner node of the tree that the table gives has two children.
\<close>

theorem huffman_decode_total:
  assumes "stream_wf bs"
  shows "\<exists>out ret bs'. huffman_decode_static bs (build_decoding_tree True) m = Some (out, ret, bs')
    \<and> (ret = 0 \<and> length out = m \<or> ret = - 1 \<and> length out < m)
    \<and> list_all (\<lambda>v. - 32768 \<le> v \<and> v \<le> 32767) out \<and> stream_wf bs'"
proof -
  have "\<exists>r. huffman_decode_static bs (build_decoding_tree True) m = Some r \<and> decode_safe m r"
    unfolding huffman_decode_static_def
    by (rule decode_loop_safe) (use assms build_tree_complete build_tree_root in simp_all)
  then show ?thesis by (auto simp: decode_safe_def)
qed

theorem huffman_decode_total_witness:
  "\<exists>out ret bs'. huffman_decode_static (empty_stream 1) (build_decoding_tree True) 9 = Some (out, ret, bs')
    \<and> (ret = 0 \<and> length out = 9 \<or> ret = - 1 \<and> length out < 9)
    \<and> list_all (\<lambda>v. - 32768 \<le> v \<and> v \<le> 32767) out \<and> stream_wf bs'"
  by (rule huffman_decode_total) simp

text \<open>The reserved symbol is found in the table and written as the bare escape code, so that the decoder takes the bits that follow as its value.\<close>

theorem escape_value_misread:
  assumes "stream_wf bs" "unread bs = code_of [32767] @ value_bits v @ rest"
  shows "\<exists>bs'. huffman_decode_static bs (build_decoding_tree True) 1 = Some ([sint v], 0, bs')"
proof -
  have l: "leads decoding_tree (entry_bits escape_entry) ESCAPE_SYMBOL" "ESCAPE_SYMBOL \<noteq> INTERNAL_SYMBOL"
    using tree_leads [OF find_escape] by (simp_all add: ESCAPE_SYMBOL_def INTERNAL_SYMBOL_def)
  have "(32767 :: i16) = ESCAPE_SYMBOL" by (simp add: ESCAPE_SYMBOL_def)
  then have u: "unread bs = entry_bits escape_entry @ value_bits v @ rest"
    using assms(2) find_escape by (simp add: symbol_bits_def)
  have fuel: "length (unread bs) < 8 * buf_size bs + 1" "length ([] :: int list) < 1" using assms(1) by simp_all
  obtain fuel' bs1 where 1: "huffman_decode_static bs decoding_tree 1 = emit fuel' decoding_tree ESCAPE_SYMBOL [] 1 bs1"
    "stream_wf bs1" "unread bs1 = value_bits v @ rest" "length (value_bits v @ rest) < fuel'"
    using decode_leads [OF l assms(1) u fuel] unfolding huffman_decode_static_def by blast
  obtain f where "fuel' = Suc f" using 1(4) by (cases fuel') auto
  then show ?thesis using read_raw_symbol_spec [OF 1(2,3)] 1(1) by (auto simp: emit_def)
qed

end
