(* ===== verification/Wave_Dwt.thy ===== *)
theory Wave_Dwt
  imports Prelude
begin

text \<open>
  The Haar transform of the waveform compression, \<^verbatim>\<open>src/DWT_Huffman/source/dwt.c\<close>: the transform and its
  inverse in place, with the block moves that keep approximations in front of details, and the
  quantisation with its threshold.

  The arrays of \<^verbatim>\<open>float\<close> hold whole numbers of at most 17 bits, because the input is 16-bit samples and every result is
  rounded.  Their sums, differences and halves are exact in single precision, so the model
  computes with integers; \<^term>\<open>c_round_div a b\<close> is \<^verbatim>\<open>round(a / b)\<close>, which rounds halves away from zero.  The
  step and the threshold of the quantisation are whole numbers in the code (5 and 200).  All
  indices stay below the number of samples, so the block moves stay in the array.
\<close>

section \<open>Arithmetic\<close>

definition c_round_div :: "int \<Rightarrow> int \<Rightarrow> int" where
  "c_round_div a b = sgn a * ((2 * \<bar>a\<bar> + b) div (2 * b))"

definition DWT_LEVELS :: nat where "DWT_LEVELS = 5"
definition DWT_QUANT_THRESHOLD :: int where "DWT_QUANT_THRESHOLD = 200"
definition DWT_QUANT_STEP :: int where "DWT_QUANT_STEP = 5"

section \<open>The transform\<close>

definition haar_step :: "nat \<Rightarrow> int list \<Rightarrow> int list" where
  "haar_step i data = (let A = c_round_div (data ! i + data ! (i + 1)) 2;
                           D = c_round_div (data ! i - data ! (i + 1)) 2 in
     ((memmove (i div 2 + 1) (i div 2) (i div 2) data)[i div 2 := A])[i + 1 := D])"

function haar_odd_loop :: "nat \<Rightarrow> nat \<Rightarrow> int list \<Rightarrow> int list" where
  "haar_odd_loop i current_n data =
     (if i + 1 < current_n then haar_odd_loop (i + 2) current_n (haar_step i data) else data)"
  by pat_completeness auto
termination by (relation "measure (\<lambda>(i, n, data). n - i)") auto

function haar_even_loop :: "nat \<Rightarrow> nat \<Rightarrow> int list \<Rightarrow> int list" where
  "haar_even_loop i current_n data =
     (if i < current_n then haar_even_loop (i + 2) current_n (haar_step i data) else data)"
  by pat_completeness auto
termination by (relation "measure (\<lambda>(i, n, data). n - i)") auto

declare haar_odd_loop.simps [simp del] haar_even_loop.simps [simp del]

fun haar_levels :: "nat list \<Rightarrow> nat \<Rightarrow> int list \<Rightarrow> int list" where
  "haar_levels [] n data = data"
| "haar_levels (l # ls) n data =
     (let step = 2 ^ l; current_n = n div step in
      if current_n < 2 then data
      else haar_levels ls n (if odd current_n then haar_odd_loop 0 current_n data else haar_even_loop 0 current_n data))"

definition haar_transform :: "int list \<Rightarrow> nat \<Rightarrow> nat \<Rightarrow> int list" where
  "haar_transform data n levels = haar_levels [0..<levels] n data"

section \<open>The inverse\<close>

definition inverse_haar_step :: "nat \<Rightarrow> nat \<Rightarrow> int list \<Rightarrow> int list" where
  "inverse_haar_step current_n i coeffs = (let A = coeffs ! (i * 2); D = coeffs ! (i + current_n div 2) in
     ((memmove (i * 2 + 2) (i * 2 + 1) (current_n div 2 - i - 1) coeffs)[i * 2 := A + D])[i * 2 + 1 := A - D])"

fun inverse_haar_levels :: "nat list \<Rightarrow> nat \<Rightarrow> int list \<Rightarrow> int list" where
  "inverse_haar_levels [] n coeffs = coeffs"
| "inverse_haar_levels (l # ls) n coeffs =
     (let step = 2 ^ l; current_n = n div step in
      if current_n < 2 then coeffs
      else inverse_haar_levels ls n (fold (inverse_haar_step current_n) [0..<current_n div 2] coeffs))"

definition inverse_haar_transform :: "int list \<Rightarrow> nat \<Rightarrow> nat \<Rightarrow> int list" where
  "inverse_haar_transform coeffs n levels = inverse_haar_levels (rev [0..<levels]) n coeffs"

section \<open>Quantisation\<close>

definition quantize_and_threshold :: "int list \<Rightarrow> nat \<Rightarrow> int \<Rightarrow> int \<Rightarrow> int list" where
  "quantize_and_threshold coeffs n threshold quant_step =
     (let coeffs = fold (\<lambda>i cs. if \<bar>cs ! i\<bar> < threshold then cs[i := 0] else cs) [n div 2 ^ DWT_LEVELS..<n] coeffs in
      fold (\<lambda>i cs. cs[i := c_round_div (cs ! i) quant_step]) [0..<n] coeffs)"

definition inverse_quantize :: "int list \<Rightarrow> nat \<Rightarrow> int \<Rightarrow> int list" where
  "inverse_quantize coeffs n quant_step = fold (\<lambda>i cs. cs[i := cs ! i * quant_step]) [0..<n] coeffs"

section \<open>The transform on lists, without an array\<close>

fun approx :: "int list \<Rightarrow> int list" where
  "approx (x # y # zs) = c_round_div (x + y) 2 # approx zs"
| "approx zs = []"

fun detail :: "int list \<Rightarrow> int list" where
  "detail (x # y # zs) = c_round_div (x - y) 2 # detail zs"
| "detail zs = []"

fun unpaired :: "int list \<Rightarrow> int list" where
  "unpaired (x # y # zs) = unpaired zs"
| "unpaired zs = zs"

primrec haar_spec :: "nat \<Rightarrow> int list \<Rightarrow> int list" where
  "haar_spec 0 xs = xs"
| "haar_spec (Suc l) xs = (if length xs < 2 then xs else haar_spec l (approx xs) @ detail xs @ unpaired xs)"

fun join :: "int list \<Rightarrow> int list \<Rightarrow> int list" where
  "join (a # as) (d # ds) = (a + d) # (a - d) # join as ds"
| "join as ds = []"

primrec inverse_spec :: "nat \<Rightarrow> int list \<Rightarrow> int list" where
  "inverse_spec 0 ys = ys"
| "inverse_spec (Suc l) ys = (let h = length ys div 2 in
     join (inverse_spec l (take h ys)) (take h (drop h ys)) @ drop (2 * h) ys)"

lemma length_approx [simp]: "length (approx xs) = length xs div 2"
  by (induction xs rule: approx.induct) auto

lemma length_detail [simp]: "length (detail xs) = length xs div 2"
  by (induction xs rule: detail.induct) auto

lemma length_unpaired [simp]: "length (unpaired xs) = length xs mod 2"
  by (induction xs rule: unpaired.induct) auto

lemma length_haar_spec [simp]: "length (haar_spec l xs) = length xs"
proof (induction l arbitrary: xs)
  case (Suc l)
  have "length xs div 2 + (length xs div 2 + length xs mod 2) = length xs" by presburger
  then show ?case using Suc by simp
qed simp

lemma length_join [simp]: "length as = length ds \<Longrightarrow> length (join as ds) = 2 * length as"
  by (induction as ds rule: join.induct) auto

lemma length_inverse_spec [simp]: "length (inverse_spec l ys) = length ys"
proof (induction l arbitrary: ys)
  case (Suc l)
  have "2 * (length ys div 2) \<le> length ys" by simp
  then have "length (take (length ys div 2) (drop (length ys div 2) ys)) = length ys div 2" by simp
  then show ?case using Suc by (simp add: Let_def)
qed simp

section \<open>The loops in place\<close>

lemma haar_step_parts:
  assumes "length as = k" "length ds = k"
  shows "haar_step (2 * k) (as @ ds @ x # y # zs) = (as @ [c_round_div (x + y) 2]) @ (ds @ [c_round_div (x - y) 2]) @ zs"
proof -
  have n: "(as @ ds @ x # y # zs) ! (2 * k) = x" "(as @ ds @ x # y # zs) ! (2 * k + 1) = y"
    using assms by (simp_all add: nth_append)
  obtain z where z: "take (k + 1) (as @ ds @ x # y # zs) = as @ [z]"
    using assms by (cases ds) simp_all
  have "memmove (k + 1) k k (as @ ds @ x # y # zs) = as @ [z] @ ds @ y # zs"
    unfolding memmove_def z using assms by simp
  then show ?thesis
    using assms unfolding haar_step_def n Let_def by (simp add: list_update_append)
qed

lemma haar_odd_loop_parts:
  assumes "length as = k" "length ds = k" "current_n = 2 * k + length zs"
  shows "haar_odd_loop (2 * k) current_n (as @ ds @ zs @ rest) = (as @ approx zs) @ (ds @ detail zs) @ unpaired zs @ rest"
  using assms
proof (induction zs arbitrary: k as ds rule: approx.induct)
  case (1 x y zs)
  have "haar_odd_loop (2 * Suc k) current_n ((as @ [c_round_div (x + y) 2]) @ (ds @ [c_round_div (x - y) 2]) @ zs @ rest)
     = ((as @ [c_round_div (x + y) 2]) @ approx zs) @ ((ds @ [c_round_div (x - y) 2]) @ detail zs) @ unpaired zs @ rest"
    by (rule "1.IH") (use "1.prems" in simp_all)
  then show ?case
    using haar_step_parts [OF "1.prems"(1,2), of x y "zs @ rest"] "1.prems"(3)
    by (subst haar_odd_loop.simps) simp
qed (simp_all add: haar_odd_loop.simps)

lemma haar_even_loop_eq: "even i \<Longrightarrow> even n \<Longrightarrow> haar_even_loop i n xs = haar_odd_loop i n xs"
proof (induction i n xs rule: haar_even_loop.induct)
  case (1 i n xs)
  then have "i < n \<longleftrightarrow> i + 1 < n" by presburger
  then show ?case using 1 by (subst haar_even_loop.simps, subst haar_odd_loop.simps) auto
qed

lemma haar_pass:
  assumes "length zs = current_n"
  shows "(if odd current_n then haar_odd_loop 0 current_n (zs @ rest) else haar_even_loop 0 current_n (zs @ rest))
    = approx zs @ detail zs @ unpaired zs @ rest"
  using haar_odd_loop_parts [of "[]" 0 "[]" current_n zs rest] assms by (simp add: haar_even_loop_eq)

lemma haar_levels_spec:
  assumes "length zs = n div 2 ^ l"
  shows "haar_levels [l..<l + k] n (zs @ rest) = haar_spec k zs @ rest"
  using assms
proof (induction k arbitrary: l zs rest)
  case (Suc k)
  have u: "[l..<l + Suc k] = l # [Suc l..<Suc l + k]" by (simp add: upt_conv_Cons)
  have "length (approx zs) = n div 2 ^ Suc l" using Suc.prems by (simp add: div_mult2_eq [symmetric] mult.commute)
  from Suc.IH [OF this, of "detail zs @ unpaired zs @ rest"]
  show ?case unfolding u using haar_pass [OF Suc.prems, of rest] Suc.prems by (simp add: Let_def del: upt_Suc)
qed simp

section \<open>The inverse in place\<close>

lemma inverse_step_parts:
  assumes "length os = 2 * i" "length as = current_n div 2 - i - 1" "i < current_n div 2"
  shows "inverse_haar_step current_n i (os @ a # as @ d # ds) = os @ (a + d) # (a - d) # as @ ds"
proof -
  let ?c = "os @ a # as @ d # ds"
  have n: "?c ! (i * 2) = a" "?c ! (i + current_n div 2) = d"
    using assms by (simp_all add: nth_append)
  obtain z where z: "take (i * 2 + 2) ?c = os @ [a, z]" using assms(1) by (cases as) simp_all
  have "memmove (i * 2 + 2) (i * 2 + 1) (current_n div 2 - i - 1) ?c = os @ [a, z] @ as @ ds"
    unfolding memmove_def z using assms by (simp add: Suc_diff_Suc [symmetric] del: Suc_diff_Suc)
  then show ?thesis
    using assms(1) unfolding inverse_haar_step_def n Let_def by (simp add: list_update_append mult.commute)
qed

lemma inverse_pass_parts:
  assumes "length os = 2 * i" "length as = h - i" "length ds = h - i" "h = current_n div 2" "i \<le> h"
  shows "fold (inverse_haar_step current_n) [i..<h] (os @ as @ ds @ rest) = os @ join as ds @ rest"
  using assms
proof (induction as ds arbitrary: os i rule: join.induct)
  case (1 a as d ds)
  then have u: "[i..<h] = i # [Suc i..<h]" by (simp add: upt_conv_Cons)
  have s: "inverse_haar_step current_n i (os @ a # as @ d # ds @ rest) = (os @ [a + d, a - d]) @ as @ ds @ rest"
    using inverse_step_parts [of os i as current_n a d "ds @ rest"] "1.prems" by simp
  have "fold (inverse_haar_step current_n) [Suc i..<h] ((os @ [a + d, a - d]) @ as @ ds @ rest)
     = (os @ [a + d, a - d]) @ join as ds @ rest"
    by (rule "1.IH") (use "1.prems" in simp_all)
  then show ?case unfolding u using s by simp
qed auto

abbreviation inverse_pass :: "nat \<Rightarrow> nat \<Rightarrow> int list \<Rightarrow> int list" where
  "inverse_pass n l \<equiv> fold (inverse_haar_step (n div 2 ^ l)) [0..<n div 2 ^ l div 2]"

lemma inverse_levels_fold: "\<forall>l \<in> set ls. 2 \<le> n div 2 ^ l \<Longrightarrow> inverse_haar_levels ls n cs = fold (inverse_pass n) ls cs"
  by (induction ls arbitrary: cs) (simp_all add: Let_def)

lemma inverse_fold_spec:
  assumes "length ys = n div 2 ^ l"
  shows "fold (inverse_pass n) (rev [l..<l + k]) (ys @ rest) = inverse_spec k ys @ rest"
  using assms
proof (induction k arbitrary: l ys rest)
  case (Suc k)
  have u: "rev [l..<l + Suc k] = rev [Suc l..<Suc l + k] @ [l]" by (simp add: upt_conv_Cons del: upt_Suc)
  define h where "h = length ys div 2"
  have "length (take h ys) = h" by (simp add: h_def)
  then have h: "h = n div 2 ^ l div 2" "length (take h ys) = n div 2 ^ Suc l"
    using Suc.prems by (simp_all add: h_def div_mult2_eq [symmetric] mult.commute)
  have y: "ys @ rest = take h ys @ (take h (drop h ys) @ drop (2 * h) ys @ rest)"
    by (metis append.assoc append_take_drop_id drop_drop mult_2)
  have "fold (inverse_pass n) (rev [Suc l..<Suc l + k]) (ys @ rest)
      = inverse_spec k (take h ys) @ take h (drop h ys) @ drop (2 * h) ys @ rest"
    unfolding y using Suc.IH [OF h(2), of "take h (drop h ys) @ drop (2 * h) ys @ rest"] by simp
  moreover have "inverse_pass n l (inverse_spec k (take h ys) @ take h (drop h ys) @ drop (2 * h) ys @ rest)
      = join (inverse_spec k (take h ys)) (take h (drop h ys)) @ drop (2 * h) ys @ rest"
    using inverse_pass_parts [of "[]" 0 "inverse_spec k (take h ys)" h "take h (drop h ys)" "n div 2 ^ l" "drop (2 * h) ys @ rest"] h(1)
    by (simp add: h_def)
  ultimately show ?case unfolding u by (simp add: h_def [symmetric] Let_def del: upt_Suc)
qed simp

lemma div_power_ge2: "(2::nat) ^ L \<le> n \<Longrightarrow> l < L \<Longrightarrow> 2 \<le> n div 2 ^ l"
proof -
  assume "2 ^ L \<le> n" "l < L"
  then have "2 * 2 ^ l \<le> n" using power_increasing [of "Suc l" L "2 :: nat"] by simp
  then show ?thesis by (simp add: less_eq_div_iff_mult_less_eq)
qed

lemma haar_transform_spec: "haar_transform xs (length xs) L = haar_spec L xs"
  using haar_levels_spec [of xs "length xs" 0 L "[]"] by (simp add: haar_transform_def)

lemma inverse_haar_transform_spec: "2 ^ L \<le> length ys \<Longrightarrow> inverse_haar_transform ys (length ys) L = inverse_spec L ys"
  using inverse_fold_spec [of ys "length ys" 0 L "[]"] div_power_ge2 [of L "length ys"]
  by (simp add: inverse_haar_transform_def inverse_levels_fold)

section \<open>The error of the round trip\<close>

abbreviation close :: "int \<Rightarrow> int list \<Rightarrow> int list \<Rightarrow> bool" where
  "close e \<equiv> list_all2 (\<lambda>x y. \<bar>x - y\<bar> \<le> e)"

lemma half_round: "2 * c_round_div z 2 = z \<or> 2 * c_round_div z 2 = z + sgn z"
proof -
  have "2 * ((2 * \<bar>z\<bar> + 2) div 4) = \<bar>z\<bar> \<or> 2 * ((2 * \<bar>z\<bar> + 2) div 4) = \<bar>z\<bar> + 1" by presburger
  then show ?thesis by (cases z "0 :: int" rule: linorder_cases) (auto simp: c_round_div_def)
qed

lemma pair_error: "\<bar>c_round_div (x + y) 2 + c_round_div (x - y) 2 - x\<bar> \<le> 1 \<and> \<bar>c_round_div (x + y) 2 - c_round_div (x - y) 2 - y\<bar> \<le> 1"
  using half_round [of "x + y"] half_round [of "x - y"] by (auto simp: sgn_if abs_le_iff split: if_splits)

lemma join_error:
  assumes "close a as (approx xs)" "close d ds (detail xs)" "close d us (unpaired xs)" "0 \<le> a"
  shows "close (a + d + 1) (join as ds @ us) xs"
  using assms
proof (induction xs arbitrary: as ds rule: approx.induct)
  case (1 x y zs)
  then obtain p as' q ds' where s: "as = p # as'" "ds = q # ds'" "\<bar>p - c_round_div (x + y) 2\<bar> \<le> a" "\<bar>q - c_round_div (x - y) 2\<bar> \<le> d"
    "close a as' (approx zs)" "close d ds' (detail zs)"
    by (auto simp: list_all2_Cons2)
  then have "\<bar>p + q - x\<bar> \<le> a + d + 1" "\<bar>p - q - y\<bar> \<le> a + d + 1" using pair_error [of x y] by linarith+
  then show ?case using "1.IH" [of as' ds'] s "1.prems" by simp
qed (auto simp: list_all2_Cons2)

lemma inverse_spec_error:
  assumes "2 ^ L \<le> length xs" "length ys = length xs" "0 \<le> a" "0 \<le> d"
    "close a (take (length xs div 2 ^ L) ys) (take (length xs div 2 ^ L) (haar_spec L xs))"
    "close d (drop (length xs div 2 ^ L) ys) (drop (length xs div 2 ^ L) (haar_spec L xs))"
  shows "close (a + int L * (d + 1)) (inverse_spec L ys) xs"
  using assms
proof (induction L arbitrary: xs ys)
  case (Suc L)
  define h k where "h = length xs div 2" and "k = length xs div 2 ^ Suc L"
  have "(1 :: nat) \<le> 2 ^ L" by simp
  then have h2: "\<not> length xs < 2" using Suc.prems(1) unfolding power_Suc by linarith
  have kh: "k = h div 2 ^ L" "k \<le> h" "2 ^ L \<le> h"
    using Suc.prems(1) by (auto simp: h_def k_def div_mult2_eq less_eq_div_iff_mult_less_eq mult.commute
        intro: order.trans [OF div_le_dividend])
  define as ds us where "as = take h ys" and "ds = take h (drop h ys)" and "us = drop (2 * h) ys"
  have y: "ys = as @ ds @ us" by (simp add: as_def ds_def us_def) (metis append_take_drop_id drop_drop mult_2)
  have l: "length as = h" "length ds = h" using Suc.prems(2) by (simp_all add: as_def ds_def h_def)
  have c: "close a (take k as) (take k (haar_spec L (approx xs)))"
    "close d (drop k as) (drop k (haar_spec L (approx xs)))" "close d (ds @ us) (detail xs @ unpaired xs)"
    using Suc.prems(5,6) h2 l kh(2) unfolding k_def [symmetric] y
    by (auto simp: h_def [symmetric] list_all2_append)
  have "close (a + int L * (d + 1)) (inverse_spec L as) (approx xs)"
    by (rule Suc.IH) (use c l kh Suc.prems(3,4) in \<open>simp_all add: h_def [symmetric]\<close>)
  moreover have "close d ds (detail xs)" "close d us (unpaired xs)"
    using c(3) l(2) by (simp_all add: list_all2_append h_def)
  ultimately have "close ((a + int L * (d + 1)) + d + 1) (join (inverse_spec L as) ds @ us) xs"
    by (rule join_error) (use Suc.prems(3,4) in simp)
  then show ?case
    using Suc.prems(2) by (simp add: Let_def h_def [symmetric] as_def ds_def us_def algebra_simps)
qed simp

section \<open>Quantisation\<close>

lemma fold_update_map:
  "n \<le> length cs \<Longrightarrow> a \<le> n \<Longrightarrow> fold (\<lambda>i cs. cs[i := f (cs ! i)]) [a..<n] cs = take a cs @ map f (take (n - a) (drop a cs)) @ drop n cs"
proof (induction n)
  case (Suc n)
  show ?case
  proof (cases "a = Suc n")
    case False
    then have a: "a \<le> n" using Suc.prems by simp
    define p where "p = take a cs @ map f (take (n - a) (drop a cs))"
    have l: "length p = n" using Suc.prems a by (simp add: p_def)
    have d: "drop n cs = cs ! n # drop (Suc n) cs" using Suc.prems by (simp add: Cons_nth_drop_Suc)
    have t: "take (Suc n - a) (drop a cs) = take (n - a) (drop a cs) @ [cs ! n]"
      using Suc.prems a by (simp add: Suc_diff_le take_Suc_conv_app_nth)
    have "fold (\<lambda>i cs. cs[i := f (cs ! i)]) [a..<Suc n] cs = (p @ drop n cs)[n := f ((p @ drop n cs) ! n)]"
      using Suc a by (simp add: p_def)
    also have "\<dots> = p @ f (cs ! n) # drop (Suc n) cs"
      using l unfolding d by (simp add: list_update_append nth_append)
    finally show ?thesis by (simp add: t p_def)
  qed (simp add: Suc.prems)
qed simp

definition clip :: "int \<Rightarrow> int \<Rightarrow> int" where
  "clip t c = (if \<bar>c\<bar> < t then 0 else c)"

lemma quantize_spec:
  assumes "length cs = n"
  shows "quantize_and_threshold cs n t q = map (\<lambda>c. c_round_div c q) (take (n div 2 ^ DWT_LEVELS) cs @ map (clip t) (drop (n div 2 ^ DWT_LEVELS) cs))"
proof -
  have "(\<lambda>i cs. if \<bar>cs ! i\<bar> < t then cs[i := 0] else cs) = (\<lambda>i cs. cs[i := clip t (cs ! i)])"
    by (auto simp: clip_def fun_eq_iff)
  then show ?thesis
    using assms fold_update_map [of n cs "n div 2 ^ DWT_LEVELS" "clip t"]
      fold_update_map [of n "take (n div 2 ^ DWT_LEVELS) cs @ map (clip t) (drop (n div 2 ^ DWT_LEVELS) cs)" 0 "\<lambda>c. c_round_div c q"]
    by (simp add: quantize_and_threshold_def)
qed

lemma inverse_quantize_spec: "inverse_quantize cs (length cs) q = map (\<lambda>c. c * q) cs"
  using fold_update_map [of "length cs" cs 0 "\<lambda>c. c * q"] by (simp add: inverse_quantize_def)

lemma round_error: "0 < q \<Longrightarrow> \<bar>c_round_div c q * q - c\<bar> \<le> q div 2"
proof -
  assume q: "0 < q"
  have "\<bar>((2 * m + q) div (2 * q)) * q - m\<bar> \<le> q div 2" if "0 \<le> m" for m
  proof -
    define k where "k = (2 * m + q) div (2 * q)"
    define r where "r = (2 * m + q) mod (2 * q)"
    have "2 * (q * k) + r = 2 * m + q" "0 \<le> r" "r < 2 * q"
      using q mult_div_mod_eq [of "2 * q" "2 * m + q"] by (simp_all add: k_def r_def mult.assoc)
    then have "2 * (k * q - m) \<le> q" "- q < 2 * (k * q - m)" by (simp_all add: mult.commute)
    moreover have "\<bar>w\<bar> \<le> q div 2" if "2 * w \<le> q" "- q < 2 * w" for w :: int using that by presburger
    ultimately show ?thesis unfolding k_def by blast
  qed
  from this [of "\<bar>c\<bar>"] show ?thesis using q
    by (cases c "0 :: int" rule: linorder_cases) (auto simp: c_round_div_def)
qed

lemma clip_error: "0 < q \<Longrightarrow> \<bar>c_round_div (clip t c) q * q - c\<bar> \<le> max (t - 1) (q div 2)"
  using round_error [of q c] by (auto simp: clip_def c_round_div_def)

text \<open>The range of the coefficients.\<close>

lemma c_round_half_bound: "\<bar>z\<bar> \<le> 2 * b \<Longrightarrow> \<bar>c_round_div z 2\<bar> \<le> b"
  using half_round [of z] by (auto simp: sgn_if split: if_splits)


lemma approx_detail_bound:
  "list_all (\<lambda>x. \<bar>x\<bar> \<le> b) xs \<Longrightarrow> list_all (\<lambda>x. \<bar>x\<bar> \<le> b) (approx xs) \<and> list_all (\<lambda>x. \<bar>x\<bar> \<le> b) (detail xs) \<and> list_all (\<lambda>x. \<bar>x\<bar> \<le> b) (unpaired xs)"
  by (induction xs rule: approx.induct) (auto intro!: c_round_half_bound)

lemma haar_spec_bound: "list_all (\<lambda>x. \<bar>x\<bar> \<le> b) xs \<Longrightarrow> list_all (\<lambda>x. \<bar>x\<bar> \<le> b) (haar_spec L xs)"
  by (induction L arbitrary: xs) (simp_all add: approx_detail_bound)

lemma c_round_div_bound: "0 < q \<Longrightarrow> \<bar>z\<bar> \<le> b * q \<Longrightarrow> \<bar>c_round_div z q\<bar> \<le> b"
proof -
  assume q: "0 < q" "\<bar>z\<bar> \<le> b * q"
  then have "2 * \<bar>z\<bar> + q < (b + 1) * (2 * q)" by (simp add: algebra_simps)
  moreover have "(b + 1) * (2 * q) \<le> k * (2 * q)" if "b + 1 \<le> k" for k
    using that q(1) by (intro mult_right_mono) simp_all
  moreover have "(2 * \<bar>z\<bar> + q) div (2 * q) * (2 * q) \<le> 2 * \<bar>z\<bar> + q"
    using q(1) minus_mod_eq_div_mult [of "2 * \<bar>z\<bar> + q" "2 * q"] pos_mod_sign [of "2 * q" "2 * \<bar>z\<bar> + q"] by linarith
  ultimately have "(2 * \<bar>z\<bar> + q) div (2 * q) < b + 1" by (meson leD leI order.trans)
  moreover have "0 \<le> (2 * \<bar>z\<bar> + q) div (2 * q)" using q(1) by (simp add: pos_imp_zdiv_nonneg_iff)
  ultimately show ?thesis by (cases z "0 :: int" rule: linorder_cases) (auto simp: c_round_div_def)
qed

text \<open>A coefficient list, quantised and restored, against the original one.\<close>

lemma quantize_close:
  fixes t :: int
  assumes "length cs = n" "0 < q"
  defines "k \<equiv> n div 2 ^ DWT_LEVELS"
  defines "ys \<equiv> inverse_quantize (quantize_and_threshold cs n t q) n q"
  shows "close (q div 2) (take k ys) (take k cs)" "close (max (t - 1) (q div 2)) (drop k ys) (drop k cs)" "length ys = n"
proof -
  have k: "k \<le> length cs" using assms(1) by (simp add: k_def)
  let ?z = "quantize_and_threshold cs n t q"
  have l: "length ?z = n" using assms(1) by (simp add: quantize_spec)
  then have "ys = map (\<lambda>c. c * q) ?z" using inverse_quantize_spec [of ?z q] by (simp add: ys_def)
  then have "ys = map (\<lambda>c. c_round_div c q * q) (take k cs) @ map (\<lambda>c. c_round_div (clip t c) q * q) (drop k cs)"
    unfolding quantize_spec [OF assms(1)] k_def by (simp add: comp_def)
  then show "close (q div 2) (take k ys) (take k cs)" "close (max (t - 1) (q div 2)) (drop k ys) (drop k cs)" "length ys = n"
    using k assms(1) round_error [OF assms(2)] clip_error [OF assms(2)]
    by (simp_all add: list_all2_conv_all_nth)
qed

section \<open>Properties\<close>

lemma dwt_pipeline_error:
  assumes "length xs = n" "2 ^ DWT_LEVELS \<le> n" "0 < q" "0 < t"
  shows "close (q div 2 + int DWT_LEVELS * (max (t - 1) (q div 2) + 1))
    (inverse_haar_transform (inverse_quantize (quantize_and_threshold (haar_transform xs n DWT_LEVELS) n t q) n q) n DWT_LEVELS) xs"
proof -
  define ys where "ys = inverse_quantize (quantize_and_threshold (haar_spec DWT_LEVELS xs) n t q) n q"
  have l: "length (haar_spec DWT_LEVELS xs) = n" using assms(1) by simp
  note c = quantize_close [OF l assms(3), of t, folded ys_def]
  have "close (q div 2 + int DWT_LEVELS * (max (t - 1) (q div 2) + 1)) (inverse_spec DWT_LEVELS ys) xs"
    by (rule inverse_spec_error) (use c assms in simp_all)
  then show ?thesis
    using haar_transform_spec [of xs DWT_LEVELS] inverse_haar_transform_spec [of DWT_LEVELS ys] assms c(3) by (simp add: ys_def)
qed

text \<open>
  C32: The transform in place is the Haar pyramid.  Level by level, the loop with its block moves replaces
  the current prefix by the rounded half sums of its pairs, followed by their rounded half differences and an
  unpaired last sample, and stops when fewer than two values are left.
\<close>

theorem haar_transform_refines_pyramid: "haar_transform xs (length xs) levels = haar_spec levels xs"
  by (rule haar_transform_spec)

text \<open>
  C33: The error of lossy compression is bounded.  For at least 32 samples, transforming, quantising with step \<^term>\<open>q\<close> and threshold
  \<^term>\<open>t\<close>, and undoing both, changes no sample by more than half a step plus, per level, one for the rounding and
  the larger of the largest discarded detail and half a step.
\<close>

theorem dwt_error_bound:
  assumes "length xs = n" "2 ^ DWT_LEVELS \<le> n" "0 < q" "0 < t" "i < n"
  shows "\<bar>inverse_haar_transform (inverse_quantize (quantize_and_threshold (haar_transform xs n DWT_LEVELS) n t q) n q) n DWT_LEVELS ! i - xs ! i\<bar>
    \<le> q div 2 + int DWT_LEVELS * (max (t - 1) (q div 2) + 1)"
  using dwt_pipeline_error [OF assms(1-4)] assms(1,5) by (simp add: list_all2_conv_all_nth)

theorem dwt_error_bound_witness:
  "\<bar>inverse_haar_transform (inverse_quantize (quantize_and_threshold (haar_transform (replicate 40 7) 40 DWT_LEVELS) 40 200 5) 40 5) 40 DWT_LEVELS ! 39
     - replicate 40 7 ! 39\<bar> \<le> 5 div 2 + int DWT_LEVELS * (max (200 - 1) (5 div 2) + 1)"
  by (rule dwt_error_bound) (simp_all add: DWT_LEVELS_def)

text \<open>
  The inverse undoes no level of a short waveform.  When the deepest level has fewer than two values, the loop
  ends before it has undone anything, although the transform did change the data at the levels above.
\<close>

theorem inverse_haar_short_unchanged:
  assumes "n < 2 ^ levels" "0 < levels"
  shows "inverse_haar_transform coeffs n levels = coeffs"
proof -
  obtain l where l: "levels = Suc l" using assms(2) by (cases levels) auto
  then have "n div 2 ^ l < 2" using assms(1) by (simp add: div_less_iff_less_mult)
  then show ?thesis using l by (simp add: inverse_haar_transform_def)
qed

theorem inverse_haar_short_unchanged_witness:
  "haar_transform [1000, 0] 2 DWT_LEVELS = [500, 500] \<and> inverse_haar_transform [500, 500] 2 DWT_LEVELS = [500, 500]"
proof -
  have "haar_transform [1000, 0] 2 DWT_LEVELS = [500, 500]"
    using haar_transform_spec [of "[1000, 0]" DWT_LEVELS] by (simp add: DWT_LEVELS_def numeral_eq_Suc c_round_div_def)
  then show ?thesis using inverse_haar_short_unchanged [of 2 DWT_LEVELS "[500, 500]"] by (simp add: DWT_LEVELS_def)
qed

end
