(* ===== verification/Wave_Snap.thy ===== *)
theory Wave_Snap
  imports Wave_Huffman Wave_Dwt
begin

text \<open>
  The compression and decompression of a waveform, \<^verbatim>\<open>main\<close> of \<^verbatim>\<open>src/DWT_Huffman/source/main.c\<close>: the samples are
  transformed and quantised, encoded 100 symbols at a time through a buffer of 1024 bytes whose
  last partial byte is carried over to the next chunk, decoded 100 symbols at a time with the
  buffer refilled in between, and transformed back.

  The contents of the allocated buffers before they are written are arguments.  A copy that leaves its
  arrays has no result in C; it is the outcome \<^verbatim>\<open>Crash\<close>.  The printed statistics are left out.
\<close>

section \<open>Outcomes and copies\<close>

datatype 'a outcome = Done 'a | Fail int | Crash

definition memcpy :: "nat \<Rightarrow> bytes \<Rightarrow> bytes \<Rightarrow> bytes option" where
  "memcpy dst src xs = (if dst + length src \<le> length xs then Some (take dst xs @ src @ drop (dst + length src) xs) else None)"

definition TMP_BUF_SIZE :: nat where "TMP_BUF_SIZE = 1024"
definition CHUNK :: nat where "CHUNK = 100"

section \<open>Compression\<close>

function check_chunks :: "int list \<Rightarrow> huffmanBitstreamBuf_t \<Rightarrow> u32 \<Rightarrow> u32 outcome" where
  "check_chunks data bs tot =
     (if data = [] then Done tot
      else let (bits, ret, bs) = huffman_encode_static (take CHUNK data) bs True True in
        if ret = 0 then check_chunks (drop CHUNK data) bs (tot + bits) else Fail (- 1))"
  by pat_completeness auto
termination by (relation "measure (\<lambda>(data, _). length data)") (auto simp: CHUNK_def)

text \<open>The bytes of a chunk that are copied to the output, and the buffer for the next chunk.\<close>

definition copy_len :: "u32 \<Rightarrow> u32 \<Rightarrow> nat" where
  "copy_len tot bits = unat bits div 8 + 1 + (if (tot mod 8 + bits) mod 8 \<noteq> 0 then 1 else 0)"

definition carry_over :: "huffmanBitstreamBuf_t \<Rightarrow> huffmanBitstreamBuf_t" where
  "carry_over bs = bs\<lparr>buffer := (buffer bs ! byte_index bs) # replicate (buf_size bs - 1) 0, byte_index := 0\<rparr>"

function encode_chunks :: "int list \<Rightarrow> huffmanBitstreamBuf_t \<Rightarrow> bytes \<Rightarrow> u32 \<Rightarrow> (bytes \<times> u32 \<times> huffmanBitstreamBuf_t) outcome" where
  "encode_chunks data bs encoded tot =
     (if data = [] then Done (encoded, tot, bs)
      else let (bits, ret, bs) = huffman_encode_static (take CHUNK data) bs False True in
        if ret \<noteq> 0 then Fail (- 1)
        else if copy_len tot bits > buf_size bs \<or> byte_index bs \<ge> buf_size bs then Crash
        else case memcpy (unat (tot div 8)) (take (copy_len tot bits) (buffer bs)) encoded of
          None \<Rightarrow> Crash
        | Some encoded \<Rightarrow> encode_chunks (drop CHUNK data) (carry_over bs) encoded (tot + bits))"
  by pat_completeness auto
termination by (relation "measure (\<lambda>(data, _). length data)") (auto simp: CHUNK_def)

declare check_chunks.simps [simp del] encode_chunks.simps [simp del]

section \<open>Decompression\<close>

text \<open>
  The buffer is refilled with as many bytes as were consumed, or with what is left of the stream.  The decoder
  ends on every stream, so that the case without a result does not arise.
\<close>

definition refill_len :: "huffmanBitstreamBuf_t \<Rightarrow> nat \<Rightarrow> nat \<Rightarrow> nat" where
  "refill_len bs stream_length stream_length_read =
     (if byte_index bs < stream_length - stream_length_read then byte_index bs else stream_length - stream_length_read)"

definition refill :: "huffmanBitstreamBuf_t \<Rightarrow> bytes \<Rightarrow> nat \<Rightarrow> nat \<Rightarrow> huffmanBitstreamBuf_t option" where
  "refill bs encoded stream_length_read len_bs =
     (let moved = memmove 0 (byte_index bs) (buf_size bs - byte_index bs) (buffer bs) in
      if stream_length_read + len_bs > length encoded then None
      else map_option (\<lambda>b. bs\<lparr>buffer := b, byte_index := 0\<rparr>)
        (memcpy (buf_size bs - byte_index bs) (take len_bs (drop stream_length_read encoded)) moved))"

function decode_chunks :: "nat \<Rightarrow> huffmanBitstreamBuf_t \<Rightarrow> huffmanNode_t \<Rightarrow> bytes \<Rightarrow> nat \<Rightarrow> nat \<Rightarrow> int list \<Rightarrow> int list outcome" where
  "decode_chunks n bs root encoded stream_length stream_length_read decoded =
     (if n = 0 then Done decoded
      else let len = (if CHUNK < n then CHUNK else n);
               len_bs = refill_len bs stream_length stream_length_read in
        case refill bs encoded stream_length_read len_bs of
          None \<Rightarrow> Crash
        | Some bs \<Rightarrow>
            (case huffman_decode_static bs root len of
               None \<Rightarrow> Crash
             | Some (out, ret, bs) \<Rightarrow>
                 if ret = 0
                 then if length out \<noteq> len then Fail (- 2)
                      else decode_chunks (n - len) bs root encoded stream_length (stream_length_read + len_bs) (decoded @ out)
                 else Fail (- 1)))"
  by pat_completeness auto
termination by (relation "measure (\<lambda>(n, _). n)") (auto simp: CHUNK_def)

declare decode_chunks.simps [simp del]

section \<open>The program\<close>

text \<open>
  The arguments are the samples, the initial contents of the two buffers, and whether the memory for the
  decoding tree can be allocated.  The result holds the recovered samples and the compressed size in bits.
\<close>

definition wave_main :: "int list \<Rightarrow> bytes \<Rightarrow> bytes \<Rightarrow> bool \<Rightarrow> (int list \<times> u32) outcome" where
  "wave_main original encoded_symbols tmp_buf mem_ok =
     (let n = length original;
          coeffs = quantize_and_threshold (haar_transform original n DWT_LEVELS) n DWT_QUANT_THRESHOLD DWT_QUANT_STEP;
          bs = \<lparr>buffer = tmp_buf, buf_size = TMP_BUF_SIZE, byte_index = 0, bit_offset = 0\<rparr> in
      case check_chunks coeffs bs 0 of
        Fail e \<Rightarrow> Fail e
      | Crash \<Rightarrow> Crash
      | Done _ \<Rightarrow>
        (case encode_chunks coeffs (bs\<lparr>buffer := replicate TMP_BUF_SIZE 0\<rparr>) encoded_symbols 0 of
           Fail e \<Rightarrow> Fail e
         | Crash \<Rightarrow> Crash
         | Done (encoded, tot, bs) \<Rightarrow>
             let root = build_decoding_tree mem_ok in
             if root = NoNode then Fail 1
             else let stream_length = unat (tot div 8) + (if tot mod 8 = 0 then 0 else 1) in
               (case decode_chunks n (bs\<lparr>buf_size := TMP_BUF_SIZE, bit_offset := 0, byte_index := TMP_BUF_SIZE\<rparr>)
                       root encoded stream_length 0 [] of
                  Fail e \<Rightarrow> Fail e
                | Crash \<Rightarrow> Crash
                | Done decoded \<Rightarrow>
                    Done (inverse_haar_transform (inverse_quantize decoded n DWT_QUANT_STEP) n DWT_LEVELS, tot))))"

section \<open>Encoding in chunks\<close>

lemma chunk_code_length: "length (code_of (take CHUNK data)) \<le> 2300"
  using length_code_of [of "take CHUNK data"] by (simp add: CHUNK_def)

text \<open>The check never fails: a chunk has at most 2300 bits.\<close>

lemma check_chunks_done: "buf_size bs = TMP_BUF_SIZE \<Longrightarrow> \<exists>tot'. check_chunks data bs tot = Done tot'"
proof (induction data bs tot rule: check_chunks.induct)
  case (1 data bs tot)
  have "\<not> (of_nat (length (code_of (take CHUNK data))) > (of_nat (buf_size bs * 8) :: u32))"
    using chunk_code_length [of data] of_nat_u32_less [of "buf_size bs * 8" "length (code_of (take CHUNK data))"] 1(2)
    by (simp add: TMP_BUF_SIZE_def)
  then show ?case
    using 1 by (subst check_chunks.simps) (simp add: encode_static_check)
qed

text \<open>
  Between chunks: the output holds the bits so far, and the buffer those of the last byte that is
  not yet full.
\<close>

definition enc_inv :: "bool list \<Rightarrow> huffmanBitstreamBuf_t \<Rightarrow> bytes \<Rightarrow> u32 \<Rightarrow> bool" where
  "enc_inv prev bs encoded tot \<longleftrightarrow> stream_wf bs \<and> stream_clean bs \<and> buf_size bs = TMP_BUF_SIZE \<and> byte_index bs = 0
     \<and> unat tot = length prev \<and> take (length prev) (all_bits encoded) = prev
     \<and> length prev \<le> 8 * length encoded \<and> written bs = drop (8 * (length prev div 8)) prev"

lemma carry_over_spec:
  assumes "stream_wf bs" "stream_clean bs" "byte_index bs < buf_size bs"
  shows "stream_wf (carry_over bs)" "stream_clean (carry_over bs)" "buf_size (carry_over bs) = buf_size bs"
    "byte_index (carry_over bs) = 0" "written (carry_over bs) = drop (8 * byte_index bs) (written bs)"
    "bit_pos (carry_over bs) = bit_offset bs"
proof -
  let ?b = "buffer bs ! byte_index bs"
  have o: "bit_offset bs < 8" "length (buffer bs) = buf_size bs" using assms(1) by (simp_all add: stream_wf_def)
  have d: "drop (8 * byte_index bs) (all_bits (buffer bs)) = byte_bits ?b @ all_bits (drop (Suc (byte_index bs)) (buffer bs))"
    using assms(3) o(2) by (simp add: drop_all_bits Cons_nth_drop_Suc [symmetric])
  have w: "drop (8 * byte_index bs) (written bs) = take (bit_offset bs) (byte_bits ?b)"
    using o(1) by (simp add: written_def bit_pos_def drop_take d)
  have u: "unread bs = drop (bit_offset bs) (byte_bits ?b) @ all_bits (drop (Suc (byte_index bs)) (buffer bs))"
    using o(1) d by (simp add: unread_def bit_pos_def) (metis add.commute drop_drop drop_append length_byte_bits less_imp_le_nat diff_is_0_eq drop_0)
  show "bit_pos (carry_over bs) = bit_offset bs" "buf_size (carry_over bs) = buf_size bs" "byte_index (carry_over bs) = 0"
    by (simp_all add: carry_over_def bit_pos_def)
  show "stream_wf (carry_over bs)" using o assms(3) by (simp add: stream_wf_def carry_over_def bit_pos_def)
  show "stream_clean (carry_over bs)" using assms(2) o(1) u
    by (auto simp: stream_clean_def unread_def carry_over_def bit_pos_def all_bits_zero)
  show "written (carry_over bs) = drop (8 * byte_index bs) (written bs)"
    using o(1) by (simp add: w) (simp add: written_def carry_over_def bit_pos_def)
qed


lemma mod8_add: "unat (tot :: u32) + unat bits < 2 ^ 32 \<Longrightarrow> (tot mod 8 + bits) mod 8 = 0 \<longleftrightarrow> (unat tot + unat bits) mod 8 = 0"
proof -
  assume a: "unat tot + unat bits < 2 ^ 32"
  have "unat (tot mod 8 + bits) = unat tot mod 8 + unat bits"
    using a by (subst unat_add_lem [THEN iffD1]) (auto simp: unat_mod intro: le_less_trans [OF add_right_mono [OF mod_less_eq_dividend]])
  then have "unat ((tot mod 8 + bits) mod 8) = (unat tot + unat bits) mod 8"
    by (simp add: unat_mod mod_add_left_eq)
  then show ?thesis by (metis unat_0 unat_eq_zero)
qed

text \<open>The copied bytes reach from the byte that holds the first new bit to beyond the last bit.\<close>

lemma copy_len_covers:
  assumes "unat (tot :: u32) + unat bits < 2 ^ 32"
  shows "unat tot mod 8 + unat bits \<le> 8 * copy_len tot bits" "copy_len tot bits \<le> unat bits div 8 + 2"
proof -
  have "t mod 8 + b \<le> 8 * (b div 8 + 1 + (if (t + b) mod 8 \<noteq> 0 then 1 else 0))" for t b :: nat
    by presburger
  then show "unat tot mod 8 + unat bits \<le> 8 * copy_len tot bits"
    unfolding copy_len_def mod8_add [OF assms] .
qed (simp add: copy_len_def)

lemma take_all_bits: "take (8 * k) (all_bits bs) = all_bits (take k bs)"
  by (metis append_take_drop_id drop_all_bits all_bits_simps(3) append_same_eq)

lemma encode_chunk_step:
  assumes i: "enc_inv prev bs encoded tot" and fits: "length prev + length (code_of ss) < 2 ^ 32" and ss: "length (code_of ss) \<le> 2300"
  shows "\<exists>bits bs'. huffman_encode_static ss bs False True = (bits, 0, bs') \<and> unat bits = length (code_of ss)
    \<and> copy_len tot bits \<le> buf_size bs' \<and> byte_index bs' < buf_size bs' \<and> length (buffer bs') = buf_size bs'
    \<and> (\<forall>encoded'. memcpy (unat (tot div 8)) (take (copy_len tot bits) (buffer bs')) encoded = Some encoded'
         \<longrightarrow> length encoded' = length encoded \<and> enc_inv (prev @ code_of ss) (carry_over bs') encoded' (tot + bits))"
proof -
  have b: "stream_wf bs" "stream_clean bs" "buf_size bs = TMP_BUF_SIZE" "byte_index bs = 0" "unat tot = length prev"
    "written bs = drop (8 * (length prev div 8)) prev"
    using i by (simp_all add: enc_inv_def)
  let ?c = "code_of ss" and ?t = "length prev"
  have p: "bit_pos bs = ?t mod 8"
    using length_written [OF b(1)] b(6) by (metis length_drop minus_mult_div_eq_mod)
  have cap: "bit_pos bs + length ?c \<le> 8 * buf_size bs" unfolding p using ss b(3) by (simp add: TMP_BUF_SIZE_def)
  obtain bits bs' where e: "huffman_encode_static ss bs False True = (bits, 0, bs')" "bits = of_nat (length ?c)"
    "stream_wf bs'" "stream_clean bs'" "buf_size bs' = TMP_BUF_SIZE" "written bs' = written bs @ ?c" "bit_pos bs' = ?t mod 8 + length ?c"
    using encode_static_fits [OF b(1,2) cap] b(3) p by auto
  have u: "unat bits = length ?c" using e(2) fits by (simp add: unat_of_nat)
  have ub: "unat tot + unat bits < 2 ^ 32" using fits b(5) u by simp
  note cl = copy_len_covers [OF ub]
  have l: "length (buffer bs') = buf_size bs'" using e(3) by (simp add: stream_wf_def)
  have k: "copy_len tot bits \<le> buf_size bs'" using cl(2) u ss e(5) by (simp add: TMP_BUF_SIZE_def)
  have bi: "byte_index bs' < buf_size bs'" using e(5,7) ss by (simp add: bit_pos_def TMP_BUF_SIZE_def)
  note co = carry_over_spec [OF e(3,4) bi]
  have idx: "(?t + length ?c) div 8 = ?t div 8 + byte_index bs'"
  proof -
    have "8 * byte_index bs' + bit_offset bs' = ?t mod 8 + length ?c" using e(7) by (simp add: bit_pos_def)
    then have "?t + length ?c = 8 * (?t div 8 + byte_index bs') + bit_offset bs'"
      by presburger
    moreover have "bit_offset bs' < 8" using e(3) by (simp add: stream_wf_def)
    ultimately show ?thesis by simp
  qed
  have "length encoded' = length encoded \<and> enc_inv (prev @ ?c) (carry_over bs') encoded' (tot + bits)"
    if m: "memcpy (unat (tot div 8)) (take (copy_len tot bits) (buffer bs')) encoded = Some encoded'" for encoded'
  proof -
    have d: "unat (tot div 8) = ?t div 8" using b(5) by (simp add: unat_div)
    have enc: "encoded' = take (?t div 8) encoded @ take (copy_len tot bits) (buffer bs') @ drop (?t div 8 + copy_len tot bits) encoded"
      and room: "?t div 8 + copy_len tot bits \<le> length encoded"
      using m k l unfolding memcpy_def d by (simp_all split: if_splits)
    have tot: "unat (tot + bits) = length (prev @ ?c)" using ub u b(5) by (simp add: unat_add_lem [THEN iffD1])
    have len: "length encoded' = length encoded" using room k l by (simp add: enc)
    have "take (8 * (?t div 8)) (take ?t (all_bits encoded)) = take (8 * (?t div 8)) prev"
      using i by (simp add: enc_inv_def)
    then have 1: "all_bits (take (?t div 8) encoded) = take (8 * (?t div 8)) prev"
      by (simp add: take_all_bits [symmetric] min_def)
    have 2: "take (bit_pos bs') (all_bits (take (copy_len tot bits) (buffer bs'))) = drop (8 * (?t div 8)) prev @ ?c"
      using e(6,7) cl(1) b(5,6) u by (simp add: written_def take_all_bits [symmetric] min_def)
    have n: "length (prev @ ?c) = 8 * (?t div 8) + bit_pos bs'" using e(7) mult_div_mod_eq [of 8 ?t] by simp
    have l8: "length (take (8 * (?t div 8)) prev) = 8 * (?t div 8)" by simp
    have le: "bit_pos bs' \<le> length (all_bits (take (copy_len tot bits) (buffer bs')))" using cl(1) e(7) b(5) u k l by simp
    have "take (length (prev @ ?c)) (all_bits encoded') = prev @ ?c"
      unfolding n enc all_bits_simps 1 take_append l8 using le by (simp add: 2 take_add)
    moreover have "length (prev @ ?c) \<le> 8 * length encoded'"
      unfolding n len using room le k l by simp
    moreover have "written (carry_over bs') = drop (8 * (length (prev @ ?c) div 8)) (prev @ ?c)"
      using co(5) e(6) b(6) idx by (simp add: drop_drop algebra_simps)
    ultimately show ?thesis using co e(5) len tot by (simp add: enc_inv_def)
  qed
  then show ?thesis using e(1) u k bi l by blast
qed


text \<open>All chunks: either the copy leaves the output array, which needs a code that nearly fills it, or the output holds the code.\<close>

lemma encode_chunks_spec:
  assumes "enc_inv prev bs encoded tot" "length prev + length (code_of data) < 2 ^ 32"
  shows "encode_chunks data bs encoded tot = Crash \<and> 8 * length encoded < length prev + length (code_of data) + 16
    \<or> (\<exists>encoded' tot' bs'. encode_chunks data bs encoded tot = Done (encoded', tot', bs')
        \<and> length encoded' = length encoded \<and> enc_inv (prev @ code_of data) bs' encoded' tot')"
  using assms
proof (induction data bs encoded tot arbitrary: prev rule: encode_chunks.induct)
  case (1 data bs encoded tot)
  show ?case
  proof (cases "data = []")
    case True
    then show ?thesis using "1.prems" by (subst (2) encode_chunks.simps) simp
  next
    case False
    let ?c = "code_of (take CHUNK data)"
    have split: "code_of data = ?c @ code_of (drop CHUNK data)"
      by (metis append_take_drop_id code_of_simps(3))
    obtain bits bs' where e: "huffman_encode_static (take CHUNK data) bs False True = (bits, 0, bs')" "unat bits = length ?c"
      "copy_len tot bits \<le> buf_size bs'" "byte_index bs' < buf_size bs'" "length (buffer bs') = buf_size bs'"
      and m: "\<And>encoded'. memcpy (unat (tot div 8)) (take (copy_len tot bits) (buffer bs')) encoded = Some encoded'
         \<Longrightarrow> length encoded' = length encoded \<and> enc_inv (prev @ ?c) (carry_over bs') encoded' (tot + bits)"
      using encode_chunk_step [OF "1.prems"(1) _ chunk_code_length, of data] "1.prems"(2) unfolding split by auto
    show ?thesis
    proof (cases "memcpy (unat (tot div 8)) (take (copy_len tot bits) (buffer bs')) encoded")
      case None
      have t: "unat tot = length prev" using "1.prems"(1) by (simp add: enc_inv_def)
      have "unat tot + unat bits < 2 ^ 32" using "1.prems"(2) t e(2) by (simp add: split)
      then have "length encoded < length prev div 8 + (length ?c div 8 + 2)"
        using None e(2,3,5) copy_len_covers(2) [of tot bits] t by (auto simp: memcpy_def unat_div split: if_splits)
      then have "8 * length encoded < length prev + length ?c + 16" by linarith
      then show ?thesis using None e False by (subst encode_chunks.simps) (simp add: split)
    next
      case (Some encoded')
      then have s: "encode_chunks data bs encoded tot = encode_chunks (drop CHUNK data) (carry_over bs') encoded' (tot + bits)"
        using e False by (subst encode_chunks.simps) simp
      show ?thesis
        using "1.IH" [OF False e(1) [symmetric] refl refl _ _ Some, of "prev @ ?c"] m [OF Some] e "1.prems"(2)
        unfolding s by (simp add: split add.assoc)
    qed
  qed
qed

section \<open>Decoding in chunks\<close>

text \<open>
  Between chunks: the valid part of the buffer, from the read position on, and the part of the stream that was not yet
  read are the bits still to be decoded and some padding.
\<close>

definition dec_inv :: "bool list \<Rightarrow> huffmanBitstreamBuf_t \<Rightarrow> bytes \<Rightarrow> nat \<Rightarrow> nat \<Rightarrow> bool" where
  "dec_inv todo bs encoded sl rd \<longleftrightarrow> stream_wf bs \<and> buf_size bs = TMP_BUF_SIZE \<and> sl \<le> length encoded \<and> rd \<le> sl
     \<and> (\<exists>v pad. v \<le> TMP_BUF_SIZE \<and> bit_pos bs \<le> 8 * v \<and> (v = TMP_BUF_SIZE \<or> rd = sl)
          \<and> drop (bit_pos bs) (all_bits (take v (buffer bs))) @ all_bits (drop rd (take sl encoded)) = todo @ pad)"

lemma refill_spec:
  assumes "dec_inv todo bs encoded sl rd"
  shows "\<exists>bs'. refill bs encoded rd (refill_len bs sl rd) = Some bs' \<and> dec_inv todo bs' encoded sl (rd + refill_len bs sl rd)
    \<and> bit_pos bs' < 8"
proof -
  obtain v pad where b: "stream_wf bs" "buf_size bs = TMP_BUF_SIZE" "sl \<le> length encoded" "rd \<le> sl" "v \<le> TMP_BUF_SIZE"
    "bit_pos bs \<le> 8 * v" "v = TMP_BUF_SIZE \<or> rd = sl"
    "drop (bit_pos bs) (all_bits (take v (buffer bs))) @ all_bits (drop rd (take sl encoded)) = todo @ pad"
    using assms unfolding dec_inv_def by blast
  define k where "k = byte_index bs"
  define len_bs where "len_bs = refill_len bs sl rd"
  define X where "X = take len_bs (drop rd encoded)"
  have o: "bit_offset bs < 8" "length (buffer bs) = TMP_BUF_SIZE" "bit_pos bs = 8 * k + bit_offset bs"
    using b(1,2) by (simp_all add: stream_wf_def bit_pos_def k_def)
  have kv: "k \<le> v" using b(6) o(3) by simp
  have lb: "len_bs \<le> k" "rd + len_bs \<le> sl" "len_bs = k \<or> rd + len_bs = sl"
    using b(4) by (auto simp: len_bs_def refill_len_def k_def)
  have lX: "length X = len_bs" using lb(2) b(3) by (simp add: X_def)
  define moved where "moved = memmove 0 k (TMP_BUF_SIZE - k) (buffer bs)"
  have mv: "moved = drop k (buffer bs) @ drop (TMP_BUF_SIZE - k) (buffer bs)" using o(2) by (simp add: moved_def memmove_def)
  define buf where "buf = drop k (buffer bs) @ X @ drop (TMP_BUF_SIZE - k + len_bs) moved"
  have lm: "length moved = TMP_BUF_SIZE" using kv b(5) o(2) by (simp add: mv)
  have lbuf: "length buf = TMP_BUF_SIZE" using kv b(5) o(2) lX lb(1) lm by (simp add: buf_def)
  define bs' where "bs' = bs\<lparr>buffer := buf, byte_index := 0\<rparr>"
  have r: "refill bs encoded rd len_bs = Some bs'"
    using lb b(2,3,5) kv lX lm o(2) unfolding refill_def k_def [symmetric] b(2) moved_def [symmetric] X_def [symmetric] Let_def memcpy_def
    by (simp add: bs'_def buf_def) (simp add: mv)
  have p: "bit_pos bs' = bit_offset bs" by (simp add: bs'_def bit_pos_def)
  have wf: "stream_wf bs'" using b(2) o lbuf by (simp add: stream_wf_def p) (simp add: bs'_def TMP_BUF_SIZE_def)
  have X2: "X @ drop (rd + len_bs) (take sl encoded) = drop rd (take sl encoded)"
  proof -
    have "X = take len_bs (drop rd (take sl encoded))" using lb(2) by (simp add: X_def drop_take min_def)
    then show ?thesis by (metis append_take_drop_id drop_drop add.commute)
  qed
  define v' where "v' = (if v = TMP_BUF_SIZE then TMP_BUF_SIZE - k + len_bs else v - k)"
  have v': "v' \<le> TMP_BUF_SIZE" "v' = TMP_BUF_SIZE \<or> rd + len_bs = sl" "bit_offset bs \<le> 8 * v'"
    using b(5,6,7) kv lb o(3) by (auto simp: v'_def)
  have tk: "take v' buf @ drop (rd + len_bs) (take sl encoded) = drop k (take v (buffer bs)) @ drop rd (take sl encoded)"
  proof (cases "v = TMP_BUF_SIZE")
    case True
    then have "take v' buf = drop k (buffer bs) @ X" using o(2) lX by (simp add: v'_def buf_def)
    then show ?thesis using True o(2) X2 by simp
  next
    case False
    then have "rd = sl" "v' = v - k" "X = []" using b(7) lb lX by (auto simp: v'_def)
    moreover have "take (v - k) buf = drop k (take v (buffer bs))"
      using kv b(5) o(2) by (simp add: buf_def drop_take)
    ultimately show ?thesis by simp
  qed
  have ab: "all_bits (take v' buf) @ all_bits (drop (rd + len_bs) (take sl encoded))
      = drop (8 * k) (all_bits (take v (buffer bs))) @ all_bits (drop rd (take sl encoded))"
    using arg_cong [OF tk, of all_bits] by (simp add: drop_all_bits)
  have "drop (bit_offset bs) (all_bits (take v' buf)) @ all_bits (drop (rd + len_bs) (take sl encoded)) = todo @ pad"
    using arg_cong [OF ab, of "drop (bit_offset bs)"] v'(1,3) lbuf b(5,6,8) o by (simp add: add.commute)
  then have "dec_inv todo bs' encoded sl (rd + len_bs)"
    unfolding dec_inv_def p using wf b(2,3) lb(2) v'
    by (intro conjI exI [of _ v'] exI [of _ pad]) (simp_all add: bs'_def)
  then show ?thesis using r o(1) p unfolding len_bs_def by auto
qed

lemma read_raw_loop_keeps: "read_raw_loop is s bs = (r, bs') \<Longrightarrow> buffer bs' = buffer bs \<and> buf_size bs' = buf_size bs"
  by (induction "is" s bs rule: read_raw_loop.induct) (auto simp: read_bit_def split: prod.splits option.splits if_splits)

lemma decode_loop_keeps: "decode_loop fuel root cur out m bs = Some (out', r, bs') \<Longrightarrow> buffer bs' = buffer bs \<and> buf_size bs' = buf_size bs"
proof (induction fuel arbitrary: cur out bs)
  case (Suc fuel)
  have b: "buffer bs1 = buffer bs \<and> buf_size bs1 = buf_size bs" if "read_bit bs = (x, bs1)" for x bs1
    using that by (auto simp: read_bit_def split: if_splits)
  show ?case
    using Suc.prems
    by (auto simp: Let_def read_raw_symbol_def split: if_splits prod.splits option.splits
        dest!: Suc.IH b read_raw_loop_keeps)
qed simp

lemma append_prefix:
  assumes "xs @ ys = us @ vs" "length us \<le> length xs"
  shows "\<exists>zs. xs = us @ zs \<and> zs @ ys = vs"
  using assms by (auto simp: append_eq_append_conv2)

lemma decode_chunk_step:
  assumes "dec_inv (code_of ss @ todo) bs encoded sl rd" "bit_pos bs < 8" "length (code_of ss) \<le> 2300" "list_all symbol_ok ss"
  shows "\<exists>bs'. huffman_decode_static bs decoding_tree (length ss) = Some (ss, 0, bs') \<and> dec_inv todo bs' encoded sl rd"
proof -
  let ?c = "code_of ss"
  obtain v pad where b: "stream_wf bs" "buf_size bs = TMP_BUF_SIZE" "sl \<le> length encoded" "rd \<le> sl" "v \<le> TMP_BUF_SIZE"
    "bit_pos bs \<le> 8 * v" "v = TMP_BUF_SIZE \<or> rd = sl"
    "drop (bit_pos bs) (all_bits (take v (buffer bs))) @ all_bits (drop rd (take sl encoded)) = (?c @ todo) @ pad"
    using assms(1) unfolding dec_inv_def by blast
  let ?D = "drop (bit_pos bs) (all_bits (take v (buffer bs)))" and ?E = "all_bits (drop rd (take sl encoded))"
  have lb: "length (buffer bs) = TMP_BUF_SIZE" using b(1,2) by (simp add: stream_wf_def)
  have lD: "length ?D = 8 * v - bit_pos bs" using lb b(5) by simp
  have "length ?c \<le> length ?D"
  proof (cases "v = TMP_BUF_SIZE")
    case False
    then have "?D = ?c @ todo @ pad" using b(3,7,8) by simp
    then show ?thesis by (metis length_append le_add1)
  qed (use lD assms(2,3) in \<open>simp add: TMP_BUF_SIZE_def\<close>)
  then obtain D where D: "?D = ?c @ D" "D @ ?E = todo @ pad"
    using append_prefix [OF b(8) [unfolded append_assoc]] by blast
  have "unread bs = ?D @ all_bits (drop v (buffer bs))"
  proof -
    have "all_bits (buffer bs) = all_bits (take v (buffer bs)) @ all_bits (drop v (buffer bs))"
      by (metis all_bits_simps(3) append_take_drop_id)
    then show ?thesis using b(5,6) lb by (simp add: unread_def)
  qed
  then have u: "unread bs = ?c @ (D @ all_bits (drop v (buffer bs)))" using D(1) by simp
  then obtain bs' where d: "huffman_decode_static bs decoding_tree (length ss) = Some (ss, 0, bs')" "stream_wf bs'"
    "unread bs' = D @ all_bits (drop v (buffer bs))"
    using decode_static_code [OF assms(4) b(1)] by blast
  have k: "buffer bs' = buffer bs" "buf_size bs' = buf_size bs"
    using decode_loop_keeps d(1) unfolding huffman_decode_static_def by blast+
  have lc: "bit_pos bs + length ?c \<le> 8 * buf_size bs" using \<open>length ?c \<le> length ?D\<close> b(2,5,6) unfolding lD by simp
  have pe: "bit_pos bs' \<le> 8 * buf_size bs'" using d(2) by (simp add: stream_wf_def)
  have "length (unread bs) = length ?c + length (unread bs')" using u d(3) by simp
  then have p: "bit_pos bs' = bit_pos bs + length ?c"
    using length_unread [OF b(1)] length_unread [OF d(2)] k(2) pe lc by linarith
  have "drop (bit_pos bs') (all_bits (take v (buffer bs'))) = D"
    using arg_cong [OF D(1), of "drop (length ?c)"] unfolding p k by (simp add: add.commute)
  then have "dec_inv todo bs' encoded sl rd"
    unfolding dec_inv_def using d(2) k b p D lD \<open>length ?c \<le> length ?D\<close>
    by (intro conjI exI [of _ v] exI [of _ pad]) simp_all
  then show ?thesis using d(1) by blast
qed


lemma decode_chunks_spec:
  assumes "dec_inv (code_of ss) bs encoded sl rd" "list_all symbol_ok ss"
  shows "decode_chunks (length ss) bs decoding_tree encoded sl rd decoded = Done (decoded @ ss)"
  using assms
proof (induction "length ss" arbitrary: ss bs rd decoded rule: less_induct)
  case less
  show ?case
  proof (cases "ss = []")
    case False
    let ?h = "take CHUNK ss" and ?t = "drop CHUNK ss"
    have h: "length ?h = (if CHUNK < length ss then CHUNK else length ss)" "length ss - length ?h = length ?t" "length ?t < length ss"
      "length (code_of ?h) \<le> 2300" "list_all symbol_ok ?h" "list_all symbol_ok ?t"
      using chunk_code_length [of ss] less.prems(2) False by (auto simp: CHUNK_def list_all_iff dest: in_set_takeD in_set_dropD)
    have c: "code_of ss = code_of ?h @ code_of ?t" by (metis append_take_drop_id code_of_simps(3))
    obtain bs1 where 1: "refill bs encoded rd (refill_len bs sl rd) = Some bs1"
      "dec_inv (code_of ss) bs1 encoded sl (rd + refill_len bs sl rd)" "bit_pos bs1 < 8"
      using refill_spec [OF less.prems(1)] by blast
    obtain bs2 where 2: "huffman_decode_static bs1 decoding_tree (length ?h) = Some (?h, 0, bs2)"
      "dec_inv (code_of ?t) bs2 encoded sl (rd + refill_len bs sl rd)"
      using decode_chunk_step [OF 1(2) [unfolded c] 1(3) h(4,5)] by blast
    have "decode_chunks (length ss) bs decoding_tree encoded sl rd decoded
       = decode_chunks (length ?t) bs2 decoding_tree encoded sl (rd + refill_len bs sl rd) (decoded @ ?h)"
      using False 1(1) 2(1) h(2) by (subst decode_chunks.simps) (simp add: Let_def h(1) [symmetric] del: length_take)
    then show ?thesis using less.hyps [OF h(3) 2(2) h(6)] by simp
  qed (simp add: decode_chunks.simps)
qed

section \<open>The whole program\<close>

abbreviation wave_coeffs :: "int list \<Rightarrow> int list" where
  "wave_coeffs xs \<equiv> quantize_and_threshold (haar_transform xs (length xs) DWT_LEVELS) (length xs) DWT_QUANT_THRESHOLD DWT_QUANT_STEP"

lemma wave_coeffs_ok:
  assumes "list_all (\<lambda>x. - 32768 \<le> x \<and> x \<le> 32767) xs"
  shows "list_all symbol_ok (wave_coeffs xs)" "length (wave_coeffs xs) = length xs"
proof -
  have "list_all (\<lambda>x. \<bar>x\<bar> \<le> 32768) xs" using assms by (auto simp: list_all_iff)
  then have h: "list_all (\<lambda>x. \<bar>x\<bar> \<le> 32768) (haar_spec DWT_LEVELS xs)" by (rule haar_spec_bound)
  have b: "symbol_ok (c_round_div z 5)" if "\<bar>z\<bar> \<le> 32768" for z
    using c_round_div_bound [of 5 z 6554] that unfolding symbol_ok_def by linarith
  have c: "wave_coeffs xs = map (\<lambda>c. c_round_div c 5) (take (length xs div 2 ^ DWT_LEVELS) (haar_spec DWT_LEVELS xs)
      @ map (clip 200) (drop (length xs div 2 ^ DWT_LEVELS) (haar_spec DWT_LEVELS xs)))"
    using quantize_spec [of "haar_spec DWT_LEVELS xs" "length xs" DWT_QUANT_THRESHOLD DWT_QUANT_STEP]
    by (simp add: haar_transform_spec DWT_QUANT_THRESHOLD_def DWT_QUANT_STEP_def)
  show "list_all symbol_ok (wave_coeffs xs)"
    unfolding c using h b by (auto simp: list_all_iff clip_def dest: in_set_takeD in_set_dropD)
  show "length (wave_coeffs xs) = length xs" unfolding c by simp
qed

lemma enc_inv_start: "enc_inv [] (empty_stream TMP_BUF_SIZE) encoded 0"
  by (simp add: enc_inv_def empty_stream_def [of TMP_BUF_SIZE, symmetric]) (simp add: empty_stream_def)

text \<open>The stream length in bytes covers the code, so that decoding starts with all of it ahead.\<close>

lemma dec_inv_start:
  assumes "enc_inv code bs encoded tot"
  shows "dec_inv code (bs\<lparr>buf_size := TMP_BUF_SIZE, bit_offset := 0, byte_index := TMP_BUF_SIZE\<rparr>) encoded
    (unat (tot div 8) + (if tot mod 8 = 0 then 0 else 1)) 0"
proof -
  let ?sl = "unat (tot div 8) + (if tot mod 8 = 0 then 0 else 1)"
  have e: "stream_wf bs" "buf_size bs = TMP_BUF_SIZE" "unat tot = length code" "take (length code) (all_bits encoded) = code"
    "length code \<le> 8 * length encoded"
    using assms by (simp_all add: enc_inv_def)
  have "tot mod 8 = 0 \<longleftrightarrow> length code mod 8 = 0"
    using e(3) unat_mod [of tot 8] unat_eq_zero [of "tot mod 8"] by simp
  then have sl: "?sl = length code div 8 + (if length code mod 8 = 0 then 0 else 1)" using e(3) by (simp add: unat_div)
  have s: "?sl \<le> length encoded" "length code \<le> 8 * ?sl" unfolding sl using e(5) by presburger+
  have "all_bits (take ?sl encoded) = code @ drop (length code) (take (8 * ?sl) (all_bits encoded))"
    unfolding take_all_bits [symmetric]
    using append_take_drop_id [of "length code" "take (8 * ?sl) (all_bits encoded)", symmetric] e(4) s(2)
    by (simp only: take_take min.absorb1)
  then show ?thesis
    using e(1,2) s(1) unfolding dec_inv_def
    by (intro conjI exI [of _ TMP_BUF_SIZE] exI) (simp_all add: stream_wf_def bit_pos_def)
qed


lemma wave_main_encode:
  "wave_main xs junk tmp mem_ok =
     (case encode_chunks (wave_coeffs xs) (empty_stream TMP_BUF_SIZE) junk 0 of
        Fail e \<Rightarrow> Fail e
      | Crash \<Rightarrow> Crash
      | Done (encoded, tot, bs) \<Rightarrow>
          if build_decoding_tree mem_ok = NoNode then Fail 1
          else (case decode_chunks (length xs) (bs\<lparr>buf_size := TMP_BUF_SIZE, bit_offset := 0, byte_index := TMP_BUF_SIZE\<rparr>)
                  (build_decoding_tree mem_ok) encoded (unat (tot div 8) + (if tot mod 8 = 0 then 0 else 1)) 0 [] of
                  Fail e \<Rightarrow> Fail e
                | Crash \<Rightarrow> Crash
                | Done decoded \<Rightarrow> Done (inverse_haar_transform (inverse_quantize decoded (length xs) DWT_QUANT_STEP) (length xs) DWT_LEVELS, tot)))"
proof -
  let ?bs = "\<lparr>buffer = tmp, buf_size = TMP_BUF_SIZE, byte_index = 0, bit_offset = 0\<rparr>"
  obtain t where t: "check_chunks (wave_coeffs xs) ?bs 0 = Done t" using check_chunks_done [of ?bs "wave_coeffs xs" 0] by auto
  have e: "?bs\<lparr>buffer := replicate TMP_BUF_SIZE 0\<rparr> = empty_stream TMP_BUF_SIZE" by (simp add: empty_stream_def)
  show ?thesis unfolding wave_main_def Let_def t e by (simp cong: outcome.case_cong)
qed

lemma decoding_tree_built: "decoding_tree \<noteq> NoNode"
  using build_tree_complete by (cases decoding_tree) simp_all

text \<open>
  C9: Compression and decompression succeed and lose little.  For a waveform of at least 32 samples of 16 bits whose
  code leaves two bytes of the output buffer free (and whose bits a 32-bit counter can count), the program ends
  without an error, the number of bits it reports is the length of the code of the quantised coefficients, and it recovers
  as many samples, each differing from the original one by at most 1002.
\<close>

theorem wave_main_recovers:
  assumes "list_all (\<lambda>x. - 32768 \<le> x \<and> x \<le> 32767) xs" "32 \<le> length xs" "23 * length xs < 2 ^ 32"
    "length junk = 2 * length xs" "length (code_of (wave_coeffs xs)) + 16 \<le> 16 * length xs"
  shows "\<exists>ys tot. wave_main xs junk tmp True = Done (ys, tot) \<and> unat tot = length (code_of (wave_coeffs xs))
    \<and> list_all2 (\<lambda>y x. \<bar>y - x\<bar> \<le> 1002) ys xs"
proof -
  let ?q = "wave_coeffs xs"
  have q: "list_all symbol_ok ?q" "length ?q = length xs" using wave_coeffs_ok [OF assms(1)] by auto
  have c: "length ([] :: bool list) + length (code_of ?q) < 2 ^ 32" using length_code_of [of ?q] q(2) assms(3) by simp
  obtain encoded tot bs where e: "encode_chunks ?q (empty_stream TMP_BUF_SIZE) junk 0 = Done (encoded, tot, bs)"
    "enc_inv (code_of ?q) bs encoded tot"
    using encode_chunks_spec [OF enc_inv_start c, of junk] assms(4,5) by auto
  note d = decode_chunks_spec [OF dec_inv_start [OF e(2)] q(1), of "[]", unfolded q(2)]
  have "wave_main xs junk tmp True =
      Done (inverse_haar_transform (inverse_quantize ?q (length xs) DWT_QUANT_STEP) (length xs) DWT_LEVELS, tot)"
    unfolding wave_main_encode e(1) using d decoding_tree_built by simp
  moreover have "unat tot = length (code_of ?q)" using e(2) by (simp add: enc_inv_def)
  moreover have "close 1002 (inverse_haar_transform (inverse_quantize ?q (length xs) DWT_QUANT_STEP) (length xs) DWT_LEVELS) xs"
    using dwt_pipeline_error [of xs "length xs" DWT_QUANT_STEP DWT_QUANT_THRESHOLD] assms(2)
    by (simp add: DWT_LEVELS_def DWT_QUANT_STEP_def DWT_QUANT_THRESHOLD_def)
  ultimately show ?thesis by blast
qed

lemma silent_wave_code: "length (code_of (wave_coeffs (replicate n 0))) = n"
proof -
  have "list_all (\<lambda>x. \<bar>x\<bar> \<le> 0) (haar_spec DWT_LEVELS (replicate n 0))" by (rule haar_spec_bound) (simp add: list_all_iff)
  then have "haar_spec DWT_LEVELS (replicate n 0) = replicate n 0"
    by (intro replicate_eqI) (auto simp: list_all_iff)
  then have "wave_coeffs (replicate n 0) = replicate n 0"
    using haar_transform_spec [of "replicate n 0" DWT_LEVELS]
    by (simp add: quantize_spec clip_def c_round_div_def DWT_QUANT_THRESHOLD_def DWT_QUANT_STEP_def replicate_add [symmetric])
  moreover have "length (code_of (replicate n 0)) = n"
    by (induction n) (simp_all add: symbol_bits_def find_code_def PdM_Static_Table_def)
  ultimately show ?thesis by simp
qed

theorem wave_main_recovers_witness:
  "\<exists>ys tot. wave_main (replicate 40 0) (replicate 80 0) [] True = Done (ys, tot) \<and> unat tot = length (code_of (wave_coeffs (replicate 40 0)))
    \<and> list_all2 (\<lambda>y x. \<bar>y - x\<bar> \<le> 1002) ys (replicate 40 0)"
  by (rule wave_main_recovers) (simp_all add: list_all_iff silent_wave_code del: length_replicate, simp_all)

text \<open>
  The output buffer can overflow.  It has two bytes per sample, and only the size of one chunk is checked before
  encoding, so that a waveform whose code needs more than 16 bits per sample is written past the end of the buffer.
\<close>

theorem wave_main_overflows:
  assumes "length junk = 2 * length xs" "23 * length (wave_coeffs xs) < 2 ^ 32" "16 * length xs < length (code_of (wave_coeffs xs))"
  shows "wave_main xs junk tmp mem_ok = Crash"
proof -
  have c: "length ([] :: bool list) + length (code_of (wave_coeffs xs)) < 2 ^ 32" using length_code_of [of "wave_coeffs xs"] assms(2) by simp
  have "encode_chunks (wave_coeffs xs) (empty_stream TMP_BUF_SIZE) junk 0 = Crash"
    using encode_chunks_spec [OF enc_inv_start c, of junk] assms(1,3) by (auto simp: enc_inv_def)
  then show ?thesis unfolding wave_main_encode by simp
qed

theorem wave_main_overflows_witness: "wave_main [1000, 0] (replicate 4 0) [] True = Crash"
proof (rule wave_main_overflows)
  have h: "haar_transform [1000, 0] 2 DWT_LEVELS = [500, 500]"
    using haar_transform_spec [of "[1000, 0]" DWT_LEVELS] by (simp add: DWT_LEVELS_def numeral_eq_Suc c_round_div_def)
  have "quantize_and_threshold [500, 500] 2 DWT_QUANT_THRESHOLD DWT_QUANT_STEP = [100, 100]"
    by (subst quantize_spec) (simp_all add: DWT_LEVELS_def DWT_QUANT_THRESHOLD_def DWT_QUANT_STEP_def clip_def c_round_div_def)
  moreover have "length [1000, 0 :: int] = 2" by simp
  ultimately have c: "wave_coeffs [1000, 0] = [100, 100]" using h by (simp only:)
  show "length (replicate 4 0) = 2 * length [1000, 0 :: int]" by simp
  show "23 * length (wave_coeffs [1000, 0]) < 2 ^ 32" unfolding c by simp
  show "16 * length [1000, 0 :: int] < length (code_of (wave_coeffs [1000, 0]))"
    unfolding c by (simp add: symbol_bits_def find_code_def PdM_Static_Table_def ESCAPE_SYMBOL_def)
qed

end
