(* ===== verification/Ell_Queue.thy ===== *)
theory Ell_Queue
  imports Prelude "HOL-Library.Monad_Syntax"
begin

text \<open>
  The linked queue \<^verbatim>\<open>l_queue\<close> of \<^verbatim>\<open>src/bluez-5.66/ell/queue.c\<close>, which the gateway uses for all its queues, on an explicit
  store of entries, and its refinement of lists.

  A pointer is an optional address.  \<^verbatim>\<open>l_new\<close> never fails (it aborts the program instead); the address it returns is an
  argument of the operations that allocate, assumed to be free where that matters.  Reading or
  writing an entry that is not allocated has no result, and neither has a loop that does not end: both are
  \<^term>\<open>None\<close>, so that the lemmas below also show that no operation follows a bad pointer or
  runs forever.  A callback may change the state behind \<^verbatim>\<open>data\<close> and \<^verbatim>\<open>user_data\<close>; it is a function on a
  state of its own, which the operations pass through.
\<close>

section \<open>Entries, queues and the store\<close>

type_synonym ptr = "nat option"

record 'a l_queue_entry =
  entry_data :: 'a
  entry_next :: ptr

type_synonym 'a store = "nat \<Rightarrow> 'a l_queue_entry option"

record l_queue =
  head :: ptr
  tail :: ptr
  entries :: u32

definition set_next :: "nat \<Rightarrow> ptr \<Rightarrow> 'a store \<Rightarrow> 'a store option" where
  "set_next a p h = do { e \<leftarrow> h a; Some (h(a \<mapsto> e\<lparr>entry_next := p\<rparr>)) }"

definition l_free :: "nat \<Rightarrow> 'a store \<Rightarrow> 'a store" where
  "l_free a h = h(a := None)"

section \<open>Operations at the ends\<close>

definition l_queue_new :: l_queue where
  "l_queue_new = \<lparr>head = None, tail = None, entries = 0\<rparr>"

definition l_queue_push_tail :: "nat \<Rightarrow> 'a \<Rightarrow> 'a store \<Rightarrow> l_queue option \<Rightarrow> (bool \<times> 'a store \<times> l_queue option) option" where
  "l_queue_push_tail new data h queue =
     (case queue of
        None \<Rightarrow> Some (False, h, None)
      | Some q \<Rightarrow> do {
          let h = h(new \<mapsto> \<lparr>entry_data = data, entry_next = None\<rparr>);
          h \<leftarrow> (case tail q of Some t \<Rightarrow> set_next t (Some new) h | None \<Rightarrow> Some h);
          let q = q\<lparr>tail := Some new\<rparr>;
          let q = (if head q = None then q\<lparr>head := Some new\<rparr> else q);
          Some (True, h, Some (q\<lparr>entries := entries q + 1\<rparr>)) })"

definition l_queue_push_head :: "nat \<Rightarrow> 'a \<Rightarrow> 'a store \<Rightarrow> l_queue option \<Rightarrow> (bool \<times> 'a store \<times> l_queue option) option" where
  "l_queue_push_head new data h queue =
     (case queue of
        None \<Rightarrow> Some (False, h, None)
      | Some q \<Rightarrow>
          let h = h(new \<mapsto> \<lparr>entry_data = data, entry_next = head q\<rparr>);
              q = q\<lparr>head := Some new\<rparr>;
              q = (if tail q = None then q\<lparr>tail := Some new\<rparr> else q)
          in Some (True, h, Some (q\<lparr>entries := entries q + 1\<rparr>)))"

definition l_queue_pop_head :: "'a store \<Rightarrow> l_queue option \<Rightarrow> ('a option \<times> 'a store \<times> l_queue option) option" where
  "l_queue_pop_head h queue =
     (case queue of
        None \<Rightarrow> Some (None, h, None)
      | Some q \<Rightarrow>
          (case head q of
             None \<Rightarrow> Some (None, h, Some q)
           | Some a \<Rightarrow> do {
               e \<leftarrow> h a;
               let q = (if entry_next e = None then q\<lparr>head := None, tail := None\<rparr> else q\<lparr>head := entry_next e\<rparr>);
               Some (Some (entry_data e), l_free a h, Some (q\<lparr>entries := entries q - 1\<rparr>)) }))"

definition l_queue_peek_head :: "'a store \<Rightarrow> l_queue option \<Rightarrow> 'a option option" where
  "l_queue_peek_head h queue =
     (case queue of
        None \<Rightarrow> Some None
      | Some q \<Rightarrow> (case head q of None \<Rightarrow> Some None | Some a \<Rightarrow> do { e \<leftarrow> h a; Some (Some (entry_data e)) }))"

definition l_queue_peek_tail :: "'a store \<Rightarrow> l_queue option \<Rightarrow> 'a option option" where
  "l_queue_peek_tail h queue =
     (case queue of
        None \<Rightarrow> Some None
      | Some q \<Rightarrow> (case tail q of None \<Rightarrow> Some None | Some a \<Rightarrow> do { e \<leftarrow> h a; Some (Some (entry_data e)) }))"

definition l_queue_length :: "l_queue option \<Rightarrow> u32" where
  "l_queue_length queue = (case queue of None \<Rightarrow> 0 | Some q \<Rightarrow> entries q)"

definition l_queue_isempty :: "l_queue option \<Rightarrow> bool" where
  "l_queue_isempty queue = (case queue of None \<Rightarrow> True | Some q \<Rightarrow> entries q = 0)"

definition l_queue_get_entries :: "l_queue option \<Rightarrow> ptr" where
  "l_queue_get_entries queue = (case queue of None \<Rightarrow> None | Some q \<Rightarrow> head q)"

section \<open>Traversals\<close>

partial_function (option) foreach_loop :: "('a \<Rightarrow> 's \<Rightarrow> 's) \<Rightarrow> ptr \<Rightarrow> 'a store \<Rightarrow> 's \<Rightarrow> 's option" where
  "foreach_loop f p h s =
     (case p of None \<Rightarrow> Some s | Some a \<Rightarrow> do { e \<leftarrow> h a; foreach_loop f (entry_next e) h (f (entry_data e) s) })"

definition l_queue_foreach :: "('a \<Rightarrow> 's \<Rightarrow> 's) \<Rightarrow> 'a store \<Rightarrow> l_queue option \<Rightarrow> 's \<Rightarrow> 's option" where
  "l_queue_foreach f h queue s = (case queue of None \<Rightarrow> Some s | Some q \<Rightarrow> foreach_loop f (head q) h s)"

partial_function (option) find_loop :: "('a \<Rightarrow> 's \<Rightarrow> bool \<times> 's) \<Rightarrow> ptr \<Rightarrow> 'a store \<Rightarrow> 's \<Rightarrow> ('a option \<times> 's) option" where
  "find_loop f p h s =
     (case p of
        None \<Rightarrow> Some (None, s)
      | Some a \<Rightarrow> do {
          e \<leftarrow> h a;
          let (b, s) = f (entry_data e) s;
          if b then Some (Some (entry_data e), s) else find_loop f (entry_next e) h s })"

definition l_queue_find :: "('a \<Rightarrow> 's \<Rightarrow> bool \<times> 's) \<Rightarrow> 'a store \<Rightarrow> l_queue option \<Rightarrow> 's \<Rightarrow> ('a option \<times> 's) option" where
  "l_queue_find f h queue s = (case queue of None \<Rightarrow> Some (None, s) | Some q \<Rightarrow> find_loop f (head q) h s)"

text \<open>Unlinking an entry: \<^term>\<open>prev\<close> is the entry before it, if any.\<close>

definition unlink :: "ptr \<Rightarrow> 'a l_queue_entry \<Rightarrow> 'a store \<Rightarrow> l_queue \<Rightarrow> ('a store \<times> l_queue) option" where
  "unlink prev e h q = do {
     (h, q) \<leftarrow> (case prev of
        Some b \<Rightarrow> do { h \<leftarrow> set_next b (entry_next e) h; Some (h, q) }
      | None \<Rightarrow> Some (h, q\<lparr>head := entry_next e\<rparr>));
     Some (h, if entry_next e = None then q\<lparr>tail := prev\<rparr> else q) }"

partial_function (option) foreach_remove_loop ::
    "('a \<Rightarrow> 's \<Rightarrow> bool \<times> 's) \<Rightarrow> ptr \<Rightarrow> ptr \<Rightarrow> u32 \<Rightarrow> 'a store \<Rightarrow> l_queue \<Rightarrow> 's \<Rightarrow> (u32 \<times> 'a store \<times> l_queue \<times> 's) option" where
  "foreach_remove_loop f prev p count h q s =
     (case p of
        None \<Rightarrow> Some (count, h, q, s)
      | Some a \<Rightarrow> do {
          e \<leftarrow> h a;
          let (b, s) = f (entry_data e) s;
          if b
          then do { (h, q) \<leftarrow> unlink prev e h q;
                    foreach_remove_loop f prev (entry_next e) (count + 1) (l_free a h) q s }
          else foreach_remove_loop f (Some a) (entry_next e) count h q s })"

definition l_queue_foreach_remove ::
    "('a \<Rightarrow> 's \<Rightarrow> bool \<times> 's) \<Rightarrow> 'a store \<Rightarrow> l_queue option \<Rightarrow> 's \<Rightarrow> (u32 \<times> 'a store \<times> l_queue option \<times> 's) option" where
  "l_queue_foreach_remove f h queue s =
     (case queue of
        None \<Rightarrow> Some (0, h, None, s)
      | Some q \<Rightarrow> do {
          (count, h, q, s) \<leftarrow> foreach_remove_loop f None (head q) 0 h q s;
          Some (count, h, Some (q\<lparr>entries := entries q - count\<rparr>), s) })"

partial_function (option) remove_if_loop ::
    "('a \<Rightarrow> 's \<Rightarrow> bool \<times> 's) \<Rightarrow> ptr \<Rightarrow> ptr \<Rightarrow> 'a store \<Rightarrow> l_queue \<Rightarrow> 's \<Rightarrow> ('a option \<times> 'a store \<times> l_queue \<times> 's) option" where
  "remove_if_loop f prev p h q s =
     (case p of
        None \<Rightarrow> Some (None, h, q, s)
      | Some a \<Rightarrow> do {
          e \<leftarrow> h a;
          let (b, s) = f (entry_data e) s;
          if b
          then do { (h, q) \<leftarrow> unlink prev e h q;
                    Some (Some (entry_data e), l_free a h, q\<lparr>entries := entries q - 1\<rparr>, s) }
          else remove_if_loop f (Some a) (entry_next e) h q s })"

definition l_queue_remove_if ::
    "('a \<Rightarrow> 's \<Rightarrow> bool \<times> 's) \<Rightarrow> 'a store \<Rightarrow> l_queue option \<Rightarrow> 's \<Rightarrow> ('a option \<times> 'a store \<times> l_queue option \<times> 's) option" where
  "l_queue_remove_if f h queue s =
     (case queue of
        None \<Rightarrow> Some (None, h, None, s)
      | Some q \<Rightarrow> do { (r, h, q, s) \<leftarrow> remove_if_loop f None (head q) h q s; Some (r, h, Some q, s) })"

partial_function (option) remove_loop :: "'a \<Rightarrow> ptr \<Rightarrow> ptr \<Rightarrow> 'a store \<Rightarrow> l_queue \<Rightarrow> (bool \<times> 'a store \<times> l_queue) option" where
  "remove_loop data prev p h q =
     (case p of
        None \<Rightarrow> Some (False, h, q)
      | Some a \<Rightarrow> do {
          e \<leftarrow> h a;
          if entry_data e \<noteq> data then remove_loop data (Some a) (entry_next e) h q
          else do { (h, q) \<leftarrow> unlink prev e h q;
                    Some (True, l_free a h, q\<lparr>entries := entries q - 1\<rparr>) } })"

definition l_queue_remove :: "'a \<Rightarrow> 'a store \<Rightarrow> l_queue option \<Rightarrow> (bool \<times> 'a store \<times> l_queue option) option" where
  "l_queue_remove data h queue =
     (case queue of
        None \<Rightarrow> Some (False, h, None)
      | Some q \<Rightarrow> do { (r, h, q) \<leftarrow> remove_loop data None (head q) h q; Some (r, h, Some q) })"

partial_function (option) insert_loop ::
    "('a \<Rightarrow> 'a \<Rightarrow> int) \<Rightarrow> nat \<Rightarrow> 'a \<Rightarrow> ptr \<Rightarrow> ptr \<Rightarrow> 'a store \<Rightarrow> l_queue \<Rightarrow> ('a store \<times> l_queue) option" where
  "insert_loop cmp new data prev p h q =
     (case p of
        None \<Rightarrow> do { t \<leftarrow> tail q; h \<leftarrow> set_next t (Some new) h; Some (h, q\<lparr>tail := Some new\<rparr>) }
      | Some a \<Rightarrow> do {
          e \<leftarrow> h a;
          if cmp data (entry_data e) \<ge> 0 then insert_loop cmp new data (Some a) (entry_next e) h q
          else (case prev of
                  None \<Rightarrow> do { h \<leftarrow> set_next new (head q) h; Some (h, q\<lparr>head := Some new\<rparr>) }
                | Some b \<Rightarrow> do { h \<leftarrow> set_next new (Some a) h; h \<leftarrow> set_next b (Some new) h; Some (h, q) }) })"

definition l_queue_insert :: "('a \<Rightarrow> 'a \<Rightarrow> int) \<Rightarrow> nat \<Rightarrow> 'a \<Rightarrow> 'a store \<Rightarrow> l_queue option \<Rightarrow> (bool \<times> 'a store \<times> l_queue option) option" where
  "l_queue_insert cmp new data h queue =
     (case queue of
        None \<Rightarrow> Some (False, h, None)
      | Some q \<Rightarrow> do {
          let h = h(new \<mapsto> \<lparr>entry_data = data, entry_next = None\<rparr>);
          (h, q) \<leftarrow> (if head q = None then Some (h, q\<lparr>head := Some new, tail := Some new\<rparr>)
                     else insert_loop cmp new data None (head q) h q);
          Some (True, h, Some (q\<lparr>entries := entries q + 1\<rparr>)) })"

partial_function (option) reverse_loop :: "ptr \<Rightarrow> ptr \<Rightarrow> 'a store \<Rightarrow> (ptr \<times> 'a store) option" where
  "reverse_loop prev p h =
     (case p of
        None \<Rightarrow> Some (prev, h)
      | Some a \<Rightarrow> do { e \<leftarrow> h a; h \<leftarrow> set_next a prev h; reverse_loop (Some a) (entry_next e) h })"

definition l_queue_reverse :: "'a store \<Rightarrow> l_queue option \<Rightarrow> (bool \<times> 'a store \<times> l_queue option) option" where
  "l_queue_reverse h queue =
     (case queue of
        None \<Rightarrow> Some (False, h, None)
      | Some q \<Rightarrow> do {
          (prev, h) \<leftarrow> reverse_loop None (head q) h;
          Some (True, h, Some (q\<lparr>tail := head q, head := prev\<rparr>)) })"

partial_function (option) clear_loop :: "('a \<Rightarrow> 's \<Rightarrow> 's) \<Rightarrow> ptr \<Rightarrow> 'a store \<Rightarrow> 's \<Rightarrow> ('a store \<times> 's) option" where
  "clear_loop destroy p h s =
     (case p of
        None \<Rightarrow> Some (h, s)
      | Some a \<Rightarrow> do { e \<leftarrow> h a; clear_loop destroy (entry_next e) (l_free a h) (destroy (entry_data e) s) })"

definition l_queue_clear :: "('a \<Rightarrow> 's \<Rightarrow> 's) \<Rightarrow> 'a store \<Rightarrow> l_queue option \<Rightarrow> 's \<Rightarrow> ('a store \<times> l_queue option \<times> 's) option" where
  "l_queue_clear destroy h queue s =
     (case queue of
        None \<Rightarrow> Some (h, None, s)
      | Some q \<Rightarrow> do {
          (h, s) \<leftarrow> clear_loop destroy (head q) h s;
          Some (h, Some (q\<lparr>head := None, tail := None, entries := 0\<rparr>), s) })"

text \<open>The queue itself is freed as well; what is left is the store and the state of the callback.\<close>

definition l_queue_destroy :: "('a \<Rightarrow> 's \<Rightarrow> 's) \<Rightarrow> 'a store \<Rightarrow> l_queue option \<Rightarrow> 's \<Rightarrow> ('a store \<times> 's) option" where
  "l_queue_destroy destroy h queue s = do { (h, queue, s) \<leftarrow> l_queue_clear destroy h queue s; Some (h, s) }"

section \<open>Abstraction to lists\<close>

text \<open>A segment of the store: the entries \<^term>\<open>cs\<close>, with their addresses, linked from \<^term>\<open>p\<close> to \<^term>\<open>r\<close>.\<close>

primrec seg :: "'a store \<Rightarrow> ptr \<Rightarrow> (nat \<times> 'a) list \<Rightarrow> ptr \<Rightarrow> bool" where
  "seg h p [] r \<longleftrightarrow> p = r"
| "seg h p (c # cs) r \<longleftrightarrow> p = Some (fst c) \<and>
     (\<exists>n. h (fst c) = Some \<lparr>entry_data = snd c, entry_next = n\<rparr> \<and> seg h n cs r)"

abbreviation addrs :: "(nat \<times> 'a) list \<Rightarrow> nat set" where
  "addrs cs \<equiv> fst ` set cs"

definition last_ptr :: "(nat \<times> 'a) list \<Rightarrow> ptr" where
  "last_ptr cs = (if cs = [] then None else Some (fst (last cs)))"

definition queue_rep :: "'a store \<Rightarrow> l_queue \<Rightarrow> (nat \<times> 'a) list \<Rightarrow> bool" where
  "queue_rep h q cs \<longleftrightarrow> distinct (map fst cs) \<and> seg h (head q) cs None \<and> tail q = last_ptr cs \<and> entries q = of_nat (length cs)"

text \<open>Outside the given addresses the store is unchanged.\<close>

definition frame :: "nat set \<Rightarrow> 'a store \<Rightarrow> 'a store \<Rightarrow> bool" where
  "frame A h h' \<longleftrightarrow> (\<forall>a. a \<notin> A \<longrightarrow> h' a = h a)"

lemma frame_refl [simp]: "frame A h h"
  by (simp add: frame_def)

lemma frame_upd [simp]: "a \<in> A \<Longrightarrow> frame A h (h'(a := v)) = frame A h h'"
  by (auto simp: frame_def)

lemma last_ptr_simps [simp]: "last_ptr [] = None" "last_ptr (cs @ [c]) = Some (fst c)" "last_ptr (cs @ c # ds) = last_ptr (c # ds)"
  "last_ptr [c] = Some (fst c)" "last_ptr (c # d # ds) = last_ptr (d # ds)" "last_ptr (c # ds) \<noteq> None"
  by (simp_all add: last_ptr_def)

lemma last_ptr_append: "last_ptr (cs @ ds) = (if ds = [] then last_ptr cs else last_ptr ds)"
  by (simp add: last_ptr_def)

lemma last_ptr_Cons: "last_ptr (c # cs) = (if cs = [] then Some (fst c) else last_ptr cs)"
  by (simp add: last_ptr_def)

lemma seg_append [simp]: "seg h p (cs @ ds) r \<longleftrightarrow> (\<exists>m. seg h p cs m \<and> seg h m ds r)"
  by (induction cs arbitrary: p) auto

lemma seg_upd [simp]: "a \<notin> addrs cs \<Longrightarrow> seg (h(a := v)) p cs r = seg h p cs r"
  by (induction cs arbitrary: p) auto

lemma seg_frame: "frame A h h' \<Longrightarrow> A \<inter> addrs cs = {} \<Longrightarrow> seg h' p cs r = seg h p cs r"
  by (induction cs arbitrary: p) (auto simp: frame_def)

lemma seg_None [simp]: "seg h None cs None \<longleftrightarrow> cs = []"
  by (cases cs) auto

lemma seg_NoneE: "seg h p cs None \<Longrightarrow> p = None \<longleftrightarrow> cs = []"
  by (cases cs) auto

lemma l_free_simps [simp]: "l_free a h = h(a := None)"
  by (simp add: l_free_def)

text \<open>Redirecting the last entry of a segment.\<close>

lemma set_next_last:
  assumes "seg h p (cs @ [c]) r" "distinct (map fst (cs @ [c]))"
  shows "\<exists>h'. set_next (fst c) r' h = Some h' \<and> seg h' p (cs @ [c]) r' \<and> frame {fst c} h h'"
proof -
  obtain n where "h (fst c) = Some \<lparr>entry_data = snd c, entry_next = n\<rparr>" using assms(1) by auto
  moreover have "fst c \<notin> addrs cs" using assms(2) by auto
  ultimately show ?thesis using assms(1) by (auto simp: set_next_def)
qed

lemma queue_rep_new: "queue_rep h l_queue_new []"
  by (simp add: queue_rep_def l_queue_new_def)

lemma push_tail_rep:
  assumes "queue_rep h q cs" "new \<notin> addrs cs"
  shows "\<exists>h' q'. l_queue_push_tail new x h (Some q) = Some (True, h', Some q') \<and> queue_rep h' q' (cs @ [(new, x)])
    \<and> frame (insert new (addrs cs)) h h'"
proof (cases cs rule: rev_cases)
  case Nil
  then show ?thesis using assms by (auto simp: queue_rep_def l_queue_push_tail_def)
next
  case (snoc ds c)
  let ?h = "h(new \<mapsto> \<lparr>entry_data = x, entry_next = None\<rparr>)"
  have s: "seg ?h (head q) (ds @ [c]) None" "distinct (map fst (ds @ [c]))" "tail q = Some (fst c)" "head q \<noteq> None"
    using assms unfolding queue_rep_def snoc by (auto simp del: seg_append dest: seg_NoneE)
  obtain h' where h': "set_next (fst c) (Some new) ?h = Some h'" "seg h' (head q) (ds @ [c]) (Some new)" "frame {fst c} ?h h'"
    using set_next_last [OF s(1,2)] by blast
  moreover have "h' new = Some \<lparr>entry_data = x, entry_next = None\<rparr>" using h'(3) assms(2) snoc by (auto simp: frame_def)
  ultimately show ?thesis
    using s assms unfolding snoc queue_rep_def by (auto simp: l_queue_push_tail_def frame_def)
qed

lemma push_head_rep:
  assumes "queue_rep h q cs" "new \<notin> addrs cs"
  shows "\<exists>h' q'. l_queue_push_head new x h (Some q) = Some (True, h', Some q') \<and> queue_rep h' q' ((new, x) # cs)
    \<and> frame {new} h h'"
  using assms by (cases cs) (auto simp: queue_rep_def l_queue_push_head_def)

lemma pop_head_rep:
  "queue_rep h q [] \<Longrightarrow> l_queue_pop_head h (Some q) = Some (None, h, Some q)"
  "queue_rep h q ((a, x) # cs) \<Longrightarrow> \<exists>q'. l_queue_pop_head h (Some q) = Some (Some x, h(a := None), Some q') \<and> queue_rep (h(a := None)) q' cs"
proof -
  show "l_queue_pop_head h (Some q) = Some (None, h, Some q)" if "queue_rep h q []"
    using that by (auto simp: queue_rep_def l_queue_pop_head_def)
  show "\<exists>q'. l_queue_pop_head h (Some q) = Some (Some x, h(a := None), Some q') \<and> queue_rep (h(a := None)) q' cs"
    if "queue_rep h q ((a, x) # cs)"
    using that by (cases cs) (auto simp: queue_rep_def l_queue_pop_head_def)
qed

lemma peek_rep: "queue_rep h q cs \<Longrightarrow> l_queue_peek_head h (Some q) = Some (if cs = [] then None else Some (snd (hd cs)))"
  "queue_rep h q cs \<Longrightarrow> l_queue_peek_tail h (Some q) = Some (if cs = [] then None else Some (snd (last cs)))"
proof -
  assume r: "queue_rep h q cs"
  then show "l_queue_peek_head h (Some q) = Some (if cs = [] then None else Some (snd (hd cs)))"
    by (cases cs) (auto simp: queue_rep_def l_queue_peek_head_def)
  show "l_queue_peek_tail h (Some q) = Some (if cs = [] then None else Some (snd (last cs)))"
    using r by (cases cs rule: rev_cases) (auto simp: queue_rep_def l_queue_peek_tail_def)
qed

lemma length_rep: "queue_rep h q cs \<Longrightarrow> l_queue_length (Some q) = of_nat (length cs)"
  "queue_rep h q cs \<Longrightarrow> length cs < 2 ^ 32 \<Longrightarrow> l_queue_isempty (Some q) \<longleftrightarrow> cs = []"
  by (auto simp: queue_rep_def l_queue_length_def l_queue_isempty_def word_of_nat_eq_0_iff dest: nat_dvd_not_less)

section \<open>Traversals\<close>

lemma foreach_loop_seg: "seg h p cs None \<Longrightarrow> foreach_loop f p h s = Some (fold f (map snd cs) s)"
  by (induction cs arbitrary: p s) (auto simp: foreach_loop.simps)

lemma foreach_rep: "queue_rep h q cs \<Longrightarrow> l_queue_foreach f h (Some q) s = Some (fold f (map snd cs) s)"
  by (simp add: l_queue_foreach_def queue_rep_def foreach_loop_seg)

primrec find_spec :: "('a \<Rightarrow> 's \<Rightarrow> bool \<times> 's) \<Rightarrow> 'a list \<Rightarrow> 's \<Rightarrow> 'a option \<times> 's" where
  "find_spec f [] s = (None, s)"
| "find_spec f (x # xs) s = (let (b, s') = f x s in if b then (Some x, s') else find_spec f xs s')"

lemma find_loop_seg: "seg h p cs None \<Longrightarrow> find_loop f p h s = Some (find_spec f (map snd cs) s)"
  by (induction cs arbitrary: p s) (auto simp: find_loop.simps split: prod.split)

lemma find_rep: "queue_rep h q cs \<Longrightarrow> l_queue_find f h (Some q) s = Some (find_spec f (map snd cs) s)"
  by (simp add: l_queue_find_def queue_rep_def find_loop_seg)

text \<open>
  A queue that is being traversed: the entries \<^term>\<open>ds\<close> are behind, and \<^term>\<open>cs\<close> ahead, of the entry pointer \<^term>\<open>p\<close>.
\<close>

definition mid_rep :: "'a store \<Rightarrow> l_queue \<Rightarrow> (nat \<times> 'a) list \<Rightarrow> ptr \<Rightarrow> (nat \<times> 'a) list \<Rightarrow> bool" where
  "mid_rep h q ds p cs \<longleftrightarrow> distinct (map fst (ds @ cs)) \<and> seg h (head q) ds p \<and> seg h p cs None \<and> tail q = last_ptr (ds @ cs)"

lemma mid_rep_start: "queue_rep h q cs \<Longrightarrow> mid_rep h q [] (head q) cs"
  by (simp add: mid_rep_def queue_rep_def)

lemma mid_rep_end: "mid_rep h q ds p [] \<Longrightarrow> entries q = of_nat (length ds) \<Longrightarrow> queue_rep h q ds"
  by (auto simp: mid_rep_def queue_rep_def)

lemma mid_rep_skip: "mid_rep h q ds (Some a) ((a, x) # cs) \<Longrightarrow> h a = Some e \<Longrightarrow> mid_rep h q (ds @ [(a, x)]) (entry_next e) cs"
  by (auto simp: mid_rep_def)

lemma mid_rep_entry: "mid_rep h q ds p ((a, x) # cs) \<Longrightarrow> p = Some a \<and> (\<exists>n. h a = Some \<lparr>entry_data = x, entry_next = n\<rparr>)"
  by (auto simp: mid_rep_def)

lemma mid_rep_unlink:
  assumes "mid_rep h q ds p ((a, x) # cs)" "h a = Some e"
  shows "\<exists>h' q'. unlink (last_ptr ds) e h q = Some (h', q') \<and> mid_rep (h'(a := None)) q' ds (entry_next e) cs \<and> h' a = Some e
    \<and> entries q' = entries q \<and> frame (addrs ds) h h'"
proof (cases ds rule: rev_cases)
  case Nil
  then show ?thesis
    using assms by (cases cs) (auto simp: mid_rep_def unlink_def)
next
  case (snoc ds' d)
  have m: "distinct (map fst ds)" "seg h (head q) (ds' @ [d]) (Some a)" "seg h (entry_next e) cs None" "tail q = last_ptr (ds @ (a, x) # cs)"
    "a \<notin> addrs ds" "a \<notin> addrs cs" "addrs ds \<inter> addrs cs = {}"
    using assms unfolding mid_rep_def snoc by auto
  obtain h' where h': "set_next (fst d) (entry_next e) h = Some h'" "seg h' (head q) (ds' @ [d]) (entry_next e)" "frame {fst d} h h'"
    using set_next_last [OF m(2)] m(1) snoc by auto
  have f: "seg h' (entry_next e) cs None" "h' a = Some e"
    using h'(3) m(3,5,7) assms(2) snoc by (auto simp: seg_frame [OF h'(3)]) (simp add: frame_def)
  have n: "entry_next e = None \<longleftrightarrow> cs = []" using m(3) by (rule seg_NoneE)
  define q' where "q' = (if entry_next e = None then q\<lparr>tail := last_ptr ds\<rparr> else q)"
  have u: "unlink (last_ptr ds) e h q = Some (h', q')" using h'(1) snoc by (simp add: unlink_def q'_def)
  moreover have "mid_rep (h'(a := None)) q' ds (entry_next e) cs"
    using h'(2) f m n assms(1) unfolding mid_rep_def q'_def snoc [symmetric]
    by (auto simp: last_ptr_append last_ptr_Cons)
  moreover have "frame (addrs ds) h h'" using h'(3) snoc by (auto simp: frame_def)
  ultimately show ?thesis using f(2) by (auto simp: q'_def)
qed

primrec remove_spec :: "('a \<Rightarrow> 's \<Rightarrow> bool \<times> 's) \<Rightarrow> (nat \<times> 'a) list \<Rightarrow> 's \<Rightarrow> (nat \<times> 'a) list \<times> 's" where
  "remove_spec f [] s = ([], s)"
| "remove_spec f (c # cs) s = (let (b, s') = f (snd c) s; (ks, s'') = remove_spec f cs s' in (if b then ks else c # ks, s''))"

lemma remove_spec_sub: "remove_spec f cs s = (ks, s') \<Longrightarrow> set ks \<subseteq> set cs \<and> (distinct (map fst cs) \<longrightarrow> distinct (map fst ks)) \<and> length ks \<le> length cs"
proof (induction cs arbitrary: s ks s')
  case (Cons c cs)
  obtain b s1 where f: "f (snd c) s = (b, s1)" by fastforce
  obtain ks1 where r: "remove_spec f cs s1 = (ks1, s')" "ks = (if b then ks1 else c # ks1)"
    using Cons.prems f by (auto split: prod.splits if_splits)
  show ?case using Cons.IH [OF r(1)] r(2) by (auto split: if_splits)
qed simp

lemma foreach_remove_step:
  "h a = Some e \<Longrightarrow> f (entry_data e) s = (b, s1) \<Longrightarrow> foreach_remove_loop f prev (Some a) n h q s =
     (if b then do { (h, q) \<leftarrow> unlink prev e h q; foreach_remove_loop f prev (entry_next e) (n + 1) (h(a := None)) q s1 }
      else foreach_remove_loop f (Some a) (entry_next e) n h q s1)"
  by (subst foreach_remove_loop.simps) simp

lemma foreach_remove_loop_spec:
  assumes "mid_rep h q ds p cs" "remove_spec f cs s = (ks, s')"
  shows "\<exists>h' q'. foreach_remove_loop f (last_ptr ds) p n h q s = Some (n + of_nat (length cs - length ks), h', q', s')
    \<and> mid_rep h' q' (ds @ ks) None [] \<and> entries q' = entries q
    \<and> frame (addrs ds \<union> addrs cs) h h' \<and> (\<forall>a \<in> addrs cs - addrs ks. h' a = None)"
  using assms
proof (induction cs arbitrary: h q ds p s ks n)
  case Nil
  then have p: "p = None" by (simp add: mid_rep_def)
  show ?case using Nil by (simp add: foreach_remove_loop.simps p)
next
  case (Cons c cs)
  obtain a x where c: "c = (a, x)" by fastforce
  obtain m where p: "p = Some a" "h a = Some \<lparr>entry_data = x, entry_next = m\<rparr>" using mid_rep_entry [OF Cons.prems(1) [unfolded c]] by auto
  obtain b s1 where f: "f x s = (b, s1)" by fastforce
  obtain ks1 where r: "remove_spec f cs s1 = (ks1, s')" "ks = (if b then ks1 else c # ks1)"
    using Cons.prems(2) f c by (auto split: prod.splits if_splits)
  note sub = remove_spec_sub [OF r(1)]
  have d: "a \<notin> addrs ds" "a \<notin> addrs cs" using Cons.prems(1) c by (auto simp: mid_rep_def)
  show ?case
  proof (cases b)
    case True
    obtain h1 q1 where u: "unlink (last_ptr ds) \<lparr>entry_data = x, entry_next = m\<rparr> h q = Some (h1, q1)"
      "mid_rep (h1(a := None)) q1 ds m cs" "entries q1 = entries q" "frame (addrs ds) h h1"
      using mid_rep_unlink [OF Cons.prems(1) [unfolded c] p(2)] by auto
    obtain h' q' where l: "foreach_remove_loop f (last_ptr ds) m (n + 1) (h1(a := None)) q1 s1 = Some (n + 1 + of_nat (length cs - length ks1), h', q', s')"
      "mid_rep h' q' (ds @ ks1) None []" "entries q' = entries q1" "frame (addrs ds \<union> addrs cs) (h1(a := None)) h'" "\<forall>a \<in> addrs cs - addrs ks1. h' a = None"
      using Cons.IH [OF u(2) r(1)] by blast
    have "foreach_remove_loop f (last_ptr ds) p n h q s = Some (n + of_nat (length (c # cs) - length ks), h', q', s')"
      using l(1) u(1) p f True r(2) sub by (simp add: foreach_remove_step Suc_diff_le add.assoc)
    moreover have "h' a = None" using l(4) d by (simp add: frame_def)
    moreover have "frame (addrs ds \<union> addrs (c # cs)) h h'" using l(4) u(4) c by (auto simp: frame_def)
    ultimately show ?thesis using l u(3) True r(2) c by auto
  next
    case False
    have mr: "mid_rep h q (ds @ [(a, x)]) m cs" using mid_rep_skip [of h q ds a x cs] Cons.prems(1) c p by fastforce
    obtain h' q' where l: "foreach_remove_loop f (Some a) m n h q s1 = Some (n + of_nat (length cs - length ks1), h', q', s')"
      "mid_rep h' q' ((ds @ [(a, x)]) @ ks1) None []" "entries q' = entries q" "frame (addrs (ds @ [(a, x)]) \<union> addrs cs) h h'" "\<forall>a \<in> addrs cs - addrs ks1. h' a = None"
      using Cons.IH [OF mr r(1), of n] by auto
    have "foreach_remove_loop f (last_ptr ds) p n h q s = Some (n + of_nat (length (c # cs) - length ks), h', q', s')"
      using l(1) p f False r(2) by (simp add: foreach_remove_step)
    then show ?thesis using l False r(2) c by auto
  qed
qed

lemma foreach_remove_rep:
  assumes "queue_rep h q cs" "remove_spec f cs s = (ks, s')"
  shows "\<exists>h' q'. l_queue_foreach_remove f h (Some q) s = Some (of_nat (length cs - length ks), h', Some q', s') \<and> queue_rep h' q' ks
    \<and> frame (addrs cs) h h' \<and> (\<forall>a \<in> addrs cs - addrs ks. h' a = None)"
proof -
  obtain h' q' where l: "foreach_remove_loop f None (head q) 0 h q s = Some (of_nat (length cs - length ks), h', q', s')"
    "mid_rep h' q' ks None []" "entries q' = entries q" "frame (addrs cs) h h'" "\<forall>a \<in> addrs cs - addrs ks. h' a = None"
    using foreach_remove_loop_spec [OF mid_rep_start [OF assms(1)] assms(2), of 0] by auto
  have "entries q - of_nat (length cs - length ks) = of_nat (length ks)"
    using assms(1) remove_spec_sub [OF assms(2)] by (simp add: queue_rep_def of_nat_diff)
  then have "queue_rep h' (q'\<lparr>entries := entries q' - of_nat (length cs - length ks)\<rparr>) ks"
    using l(2,3) by (simp add: mid_rep_def queue_rep_def)
  then show ?thesis using l by (simp add: l_queue_foreach_remove_def)
qed

text \<open>Removing the first entry that matches.\<close>

primrec remove_first :: "('a \<Rightarrow> 's \<Rightarrow> bool \<times> 's) \<Rightarrow> (nat \<times> 'a) list \<Rightarrow> 's \<Rightarrow> (nat \<times> 'a) list" where
  "remove_first f [] s = []"
| "remove_first f (c # cs) s = (let (b, s') = f (snd c) s in if b then cs else c # remove_first f cs s')"

lemma remove_if_step:
  "h a = Some e \<Longrightarrow> f (entry_data e) s = (b, s1) \<Longrightarrow> remove_if_loop f prev (Some a) h q s =
     (if b then do { (h, q) \<leftarrow> unlink prev e h q; Some (Some (entry_data e), h(a := None), q\<lparr>entries := entries q - 1\<rparr>, s1) }
      else remove_if_loop f (Some a) (entry_next e) h q s1)"
  by (subst remove_if_loop.simps) simp

lemma remove_if_loop_spec:
  assumes "mid_rep h q ds p cs" "find_spec f (map snd cs) s = (r, s')" "entries q = of_nat (length (ds @ cs))"
  shows "\<exists>h' q'. remove_if_loop f (last_ptr ds) p h q s = Some (r, h', q', s') \<and> queue_rep h' q' (ds @ remove_first f cs s)
    \<and> frame (addrs ds \<union> addrs cs) h h' \<and> (\<forall>a \<in> addrs cs - addrs (remove_first f cs s). h' a = None)"
  using assms
proof (induction cs arbitrary: h q ds p s)
  case Nil
  then show ?case by (auto simp: remove_if_loop.simps mid_rep_def queue_rep_def)
next
  case (Cons c cs)
  obtain a x where c: "c = (a, x)" by fastforce
  obtain m where p: "p = Some a" "h a = Some \<lparr>entry_data = x, entry_next = m\<rparr>" using mid_rep_entry [OF Cons.prems(1) [unfolded c]] by auto
  obtain b s1 where f: "f x s = (b, s1)" by fastforce
  show ?case
  proof (cases b)
    case True
    obtain h1 q1 where u: "unlink (last_ptr ds) \<lparr>entry_data = x, entry_next = m\<rparr> h q = Some (h1, q1)"
      "mid_rep (h1(a := None)) q1 ds m cs" "entries q1 = entries q" "frame (addrs ds) h h1"
      using mid_rep_unlink [OF Cons.prems(1) [unfolded c] p(2)] by auto
    have "queue_rep (h1(a := None)) (q1\<lparr>entries := entries q1 - 1\<rparr>) (ds @ cs)"
      using u(2,3) Cons.prems(3) by (auto simp: mid_rep_def queue_rep_def)
    moreover have "r = Some x" "s' = s1" using Cons.prems(2) f True c by auto
    moreover have "frame (addrs ds \<union> addrs (c # cs)) h (h1(a := None))" using u(4) c by (auto simp: frame_def)
    ultimately show ?thesis
      using u(1) p f True c by (simp add: remove_if_step) blast
  next
    case False
    have mr: "mid_rep h q (ds @ [(a, x)]) m cs" using mid_rep_skip [of h q ds a x cs] Cons.prems(1) c p by fastforce
    have e: "entries q = of_nat (length ((ds @ [(a, x)]) @ cs))" using Cons.prems(3) c by simp
    have fs: "find_spec f (map snd cs) s1 = (r, s')" using Cons.prems(2) f False c by simp
    obtain h' q' where l: "remove_if_loop f (Some a) m h q s1 = Some (r, h', q', s')" "queue_rep h' q' ((ds @ [(a, x)]) @ remove_first f cs s1)"
      "frame (addrs (ds @ [(a, x)]) \<union> addrs cs) h h'" "\<forall>a \<in> addrs cs - addrs (remove_first f cs s1). h' a = None"
      using Cons.IH [OF mr fs e] by auto
    then show ?thesis using p f False c by (auto simp: remove_if_step)
  qed
qed

lemma remove_if_rep:
  assumes "queue_rep h q cs" "find_spec f (map snd cs) s = (r, s')"
  shows "\<exists>h' q'. l_queue_remove_if f h (Some q) s = Some (r, h', Some q', s') \<and> queue_rep h' q' (remove_first f cs s) \<and> frame (addrs cs) h h'
    \<and> (\<forall>a \<in> addrs cs - addrs (remove_first f cs s). h' a = None)"
proof -
  have "entries q = of_nat (length ([] @ cs))" using assms(1) by (simp add: queue_rep_def)
  from remove_if_loop_spec [OF mid_rep_start [OF assms(1)] assms(2) this] show ?thesis
    by (auto simp: l_queue_remove_if_def)
qed

text \<open>Removing a given datum is removing the first entry that has it.\<close>

lemma remove_loop_eq:
  "mid_rep h q ds p cs \<Longrightarrow> remove_loop x (last_ptr ds) p h q
     = map_option (\<lambda>(r, h, q, s). (r \<noteq> None, h, q)) (remove_if_loop (\<lambda>y s. (y = x, s)) (last_ptr ds) p h q ())"
proof (induction cs arbitrary: ds p)
  case Nil
  then have "p = None" by (simp add: mid_rep_def)
  then show ?case by (simp add: remove_loop.simps remove_if_loop.simps)
next
  case (Cons c cs)
  obtain a y where c: "c = (a, y)" by fastforce
  obtain m where p: "p = Some a" "h a = Some \<lparr>entry_data = y, entry_next = m\<rparr>" using mid_rep_entry [OF Cons.prems(1) [unfolded c]] by auto
  have mr: "mid_rep h q (ds @ [(a, y)]) m cs" using mid_rep_skip [of h q ds a y cs] Cons.prems(1) c p by fastforce
  show ?case
    unfolding p(1) using Cons.IH [OF mr] p(2)
    by (subst remove_loop.simps, subst remove_if_loop.simps) (auto split: prod.split bind_splits)
qed

lemma find_eq: "find_spec (\<lambda>y s. (y = x, s)) xs s = (if x \<in> set xs then Some x else None, s)"
  by (induction xs) auto

lemma remove_first_eq: "map snd (remove_first (\<lambda>y s. (y = x, s)) cs s) = remove1 x (map snd cs)"
  by (induction cs) auto

lemma remove_rep:
  assumes "queue_rep h q cs"
  shows "\<exists>h' q' ks. l_queue_remove x h (Some q) = Some (x \<in> snd ` set cs, h', Some q') \<and> queue_rep h' q' ks \<and> frame (addrs cs) h h'
    \<and> map snd ks = remove1 x (map snd cs)"
proof -
  let ?f = "\<lambda>y s. (y = x, s :: unit)"
  obtain h' q' where l: "l_queue_remove_if ?f h (Some q) () = Some (if x \<in> set (map snd cs) then Some x else None, h', Some q', ())"
    "queue_rep h' q' (remove_first ?f cs ())" "frame (addrs cs) h h'"
    using remove_if_rep [OF assms find_eq, of x "()"] by auto
  have "l_queue_remove x h (Some q) = Some (x \<in> snd ` set cs, h', Some q')"
    using l(1) remove_loop_eq [OF mid_rep_start [OF assms], of x] by (auto simp: l_queue_remove_def l_queue_remove_if_def bind_eq_Some_conv split: if_splits)
  then show ?thesis using l(2,3) remove_first_eq [of x cs "()"] by blast
qed

section \<open>Insertion, reversal, destruction\<close>

lemma insert_loop_step:
  "h a = Some e \<Longrightarrow> insert_loop cmp new x prev (Some a) h q =
     (if cmp x (entry_data e) \<ge> 0 then insert_loop cmp new x (Some a) (entry_next e) h q
      else (case prev of
              None \<Rightarrow> do { h \<leftarrow> set_next new (head q) h; Some (h, q\<lparr>head := Some new\<rparr>) }
            | Some b \<Rightarrow> do { h \<leftarrow> set_next new (Some a) h; h \<leftarrow> set_next b (Some new) h; Some (h, q) }))"
  by (subst insert_loop.simps) simp

lemma insert_loop_spec:
  fixes cmp :: "'a \<Rightarrow> 'a \<Rightarrow> int"
  assumes "mid_rep h q ds p cs" "new \<notin> addrs (ds @ cs)" "h new = Some \<lparr>entry_data = x, entry_next = None\<rparr>" "ds @ cs \<noteq> []"
  defines "ks \<equiv> takeWhile (\<lambda>c. 0 \<le> cmp x (snd c)) cs @ (new, x) # dropWhile (\<lambda>c. 0 \<le> cmp x (snd c)) cs"
  shows "\<exists>h' q'. insert_loop cmp new x (last_ptr ds) p h q = Some (h', q') \<and> mid_rep h' q' (ds @ ks) None [] \<and> entries q' = entries q
    \<and> frame (insert new (addrs (ds @ cs))) h h'"
  using assms(1-4) unfolding ks_def
proof (induction cs arbitrary: ds p)
  case Nil
  then obtain ds' d where ds: "ds = ds' @ [d]" by (metis append_Nil2 rev_exhaust)
  have p: "p = None" "tail q = Some (fst d)" "seg h (head q) (ds' @ [d]) None" "distinct (map fst (ds' @ [d]))" using Nil ds by (auto simp: mid_rep_def)
  obtain h' where h': "set_next (fst d) (Some new) h = Some h'" "seg h' (head q) (ds' @ [d]) (Some new)" "frame {fst d} h h'"
    using set_next_last [OF p(3,4)] by blast
  have "h' new = h new" using h'(3) Nil.prems(2) ds by (auto simp: frame_def)
  then have "mid_rep h' (q\<lparr>tail := Some new\<rparr>) (ds @ [(new, x)]) None []"
    using h'(2) Nil.prems(1-3) ds by (auto simp: mid_rep_def)
  moreover have "frame (insert new (addrs ds)) h h'" using h'(3) ds by (auto simp: frame_def)
  ultimately show ?case using h'(1) p by (simp add: insert_loop.simps)
next
  case (Cons c cs)
  obtain a y where c: "c = (a, y)" by fastforce
  obtain m where p: "p = Some a" "h a = Some \<lparr>entry_data = y, entry_next = m\<rparr>" using mid_rep_entry [OF Cons.prems(1) [unfolded c]] by auto
  show ?case
  proof (cases "0 \<le> cmp x y")
    case True
    have mr: "mid_rep h q (ds @ [(a, y)]) m cs" using mid_rep_skip [of h q ds a y cs] Cons.prems(1) c p by fastforce
    show ?thesis
      using Cons.IH [OF mr] Cons.prems(2,3) True p c by (auto simp: insert_loop_step insert_commute)
  next
    case False
    show ?thesis
    proof (cases ds rule: rev_cases)
      case Nil
      then show ?thesis
        using Cons.prems False p c by (auto simp: insert_loop_step set_next_def mid_rep_def)
    next
      case (snoc ds' d)
      let ?h = "h(new \<mapsto> \<lparr>entry_data = x, entry_next = Some a\<rparr>)"
      have s: "seg ?h (head q) (ds' @ [d]) (Some a)" "distinct (map fst (ds' @ [d]))" "seg ?h (Some a) (c # cs) None"
        using Cons.prems(1,2) p unfolding mid_rep_def snoc by (auto simp: c image_Un)
      obtain h' where h': "set_next (fst d) (Some new) ?h = Some h'" "seg h' (head q) (ds' @ [d]) (Some new)" "frame {fst d} ?h h'"
        using set_next_last [OF s(1,2)] by blast
      have "seg h' (Some a) (c # cs) None"
        using s(3) Cons.prems(1) snoc by (subst seg_frame [OF h'(3)]) (auto simp: mid_rep_def)
      moreover have "h' new = Some \<lparr>entry_data = x, entry_next = Some a\<rparr>" using h'(3) Cons.prems(2) snoc by (auto simp: frame_def)
      ultimately have "mid_rep h' q (ds @ (new, x) # c # cs) None []"
        using h'(2) Cons.prems(1,2) snoc by (auto simp: mid_rep_def)
      moreover have "frame (insert new (addrs (ds @ c # cs))) h h'" using h'(3) snoc by (auto simp: frame_def)
      ultimately show ?thesis
        using h'(1) Cons.prems(3) False p c snoc by (auto simp: insert_loop_step set_next_def bind_eq_Some_conv)
    qed
  qed
qed

lemma insert_rep:
  fixes cmp :: "'a \<Rightarrow> 'a \<Rightarrow> int" and x :: 'a
  assumes "queue_rep h q cs" "new \<notin> addrs cs"
  defines "ks \<equiv> takeWhile (\<lambda>c. 0 \<le> cmp x (snd c)) cs @ (new, x) # dropWhile (\<lambda>c. 0 \<le> cmp x (snd c)) cs"
  shows "\<exists>h' q'. l_queue_insert cmp new x h (Some q) = Some (True, h', Some q') \<and> queue_rep h' q' ks \<and> frame (insert new (addrs cs)) h h'"
proof (cases "cs = []")
  case True
  then show ?thesis using assms(1) by (auto simp: queue_rep_def l_queue_insert_def ks_def)
next
  case False
  let ?h = "h(new \<mapsto> \<lparr>entry_data = x, entry_next = None\<rparr>)"
  have m: "mid_rep ?h q [] (head q) cs" using mid_rep_start [OF assms(1)] assms(2) by (simp add: mid_rep_def)
  obtain h' q' where l: "insert_loop cmp new x None (head q) ?h q = Some (h', q')" "mid_rep h' q' ks None []" "entries q' = entries q"
    "frame (insert new (addrs cs)) ?h h'"
    using insert_loop_spec [OF m, of new x cmp] assms(2) False by (auto simp: ks_def)
  have "length ks = Suc (length cs)"
    unfolding ks_def by (metis append_Cons append_assoc length_Cons length_append add_Suc_right takeWhile_dropWhile_id)
  then have "queue_rep h' (q'\<lparr>entries := entries q' + 1\<rparr>) ks"
    using l(2,3) assms(1) by (simp add: mid_rep_def queue_rep_def)
  moreover have "head q \<noteq> None" using assms(1) False by (auto simp: queue_rep_def dest: seg_NoneE)
  moreover have "frame (insert new (addrs cs)) h h'" using l(4) by (auto simp: frame_def)
  ultimately show ?thesis using l(1) by (auto simp: l_queue_insert_def)
qed

lemma reverse_loop_seg:
  assumes "seg h p cs None" "seg h prev ds None" "distinct (map fst (ds @ cs))"
  shows "\<exists>p' h'. reverse_loop prev p h = Some (p', h') \<and> seg h' p' (rev cs @ ds) None \<and> frame (addrs cs) h h'"
  using assms
proof (induction cs arbitrary: h p prev ds)
  case Nil
  then show ?case by (simp add: reverse_loop.simps)
next
  case (Cons c cs)
  obtain n where p: "p = Some (fst c)" "h (fst c) = Some \<lparr>entry_data = snd c, entry_next = n\<rparr>" "seg h n cs None" using Cons.prems(1) by auto
  let ?h = "h(fst c \<mapsto> \<lparr>entry_data = snd c, entry_next = prev\<rparr>)"
  have "seg ?h n cs None" "seg ?h (Some (fst c)) (c # ds) None" "distinct (map fst ((c # ds) @ cs))"
    using Cons.prems p by auto
  from Cons.IH [OF this] obtain p' h' where "reverse_loop (Some (fst c)) n ?h = Some (p', h')" "seg h' p' (rev cs @ c # ds) None" "frame (addrs cs) ?h h'"
    by blast
  then show ?case
    using p by (subst reverse_loop.simps) (auto simp: set_next_def frame_def)
qed

lemma reverse_rep:
  assumes "queue_rep h q cs"
  shows "\<exists>h' q'. l_queue_reverse h (Some q) = Some (True, h', Some q') \<and> queue_rep h' q' (rev cs) \<and> frame (addrs cs) h h'"
proof -
  obtain p' h' where l: "reverse_loop None (head q) h = Some (p', h')" "seg h' p' (rev cs) None" "frame (addrs cs) h h'"
    using reverse_loop_seg [of h "head q" cs None "[]"] assms by (auto simp: queue_rep_def)
  have "head q = last_ptr (rev cs)" using assms by (cases cs) (auto simp: queue_rep_def)
  then have "queue_rep h' (q\<lparr>tail := head q, head := p'\<rparr>) (rev cs)"
    using l(2) assms by (simp add: queue_rep_def rev_map [symmetric])
  then show ?thesis using l by (simp add: l_queue_reverse_def)
qed

lemma clear_loop_seg:
  assumes "seg h p cs None" "distinct (map fst cs)"
  shows "clear_loop f p h s = Some (\<lambda>a. if a \<in> addrs cs then None else h a, fold f (map snd cs) s)"
  using assms
proof (induction cs arbitrary: h p s)
  case Nil
  then show ?case by (simp add: clear_loop.simps)
next
  case (Cons c cs)
  obtain n where p: "p = Some (fst c)" "h (fst c) = Some \<lparr>entry_data = snd c, entry_next = n\<rparr>" "seg h n cs None" using Cons.prems(1) by auto
  have "seg (h(fst c := None)) n cs None" "distinct (map fst cs)" using Cons.prems p by auto
  from Cons.IH [OF this, of "f (snd c) s"] show ?case
    using p by (subst clear_loop.simps) (simp del: fun_upd_apply, simp add: fun_eq_iff)
qed

lemma clear_rep:
  assumes "queue_rep h q cs"
  shows "\<exists>h' q'. l_queue_clear f h (Some q) s = Some (h', Some q', fold f (map snd cs) s) \<and> queue_rep h' q' []
    \<and> frame (addrs cs) h h' \<and> (\<forall>a \<in> addrs cs. h' a = None)"
  using clear_loop_seg [of h "head q" cs f s] assms by (auto simp: l_queue_clear_def queue_rep_def frame_def)

section \<open>Queues as first-in-first-out channels\<close>

text \<open>
  What a client of a queue relies on.  A state represents a list; putting at a fresh place appends to it, getting takes its first
  element, and says so when there is none.
\<close>

datatype ('p, 'a) event = Put 'p 'a | Get

fun run_events :: "('p \<Rightarrow> 'a \<Rightarrow> 's \<Rightarrow> 's option) \<Rightarrow> ('s \<Rightarrow> ('a option \<times> 's) option) \<Rightarrow> ('p, 'a) event list \<Rightarrow> 's \<Rightarrow> ('a list \<times> 's) option" where
  "run_events put get [] s = Some ([], s)"
| "run_events put get (Put p x # es) s = do { s \<leftarrow> put p x s; run_events put get es s }"
| "run_events put get (Get # es) s = do {
     (r, s) \<leftarrow> get s;
     (out, s) \<leftarrow> run_events put get es s;
     Some (case r of None \<Rightarrow> out | Some x \<Rightarrow> x # out, s) }"

text \<open>Every place is fresh when it is used.\<close>

fun fresh_events :: "('s \<Rightarrow> 'p \<Rightarrow> bool) \<Rightarrow> ('p \<Rightarrow> 'a \<Rightarrow> 's \<Rightarrow> 's option) \<Rightarrow> ('s \<Rightarrow> ('a option \<times> 's) option) \<Rightarrow> ('p, 'a) event list \<Rightarrow> 's \<Rightarrow> bool" where
  "fresh_events fresh put get [] s \<longleftrightarrow> True"
| "fresh_events fresh put get (Put p x # es) s \<longleftrightarrow> fresh s p \<and> (case put p x s of None \<Rightarrow> True | Some s' \<Rightarrow> fresh_events fresh put get es s')"
| "fresh_events fresh put get (Get # es) s \<longleftrightarrow> (case get s of None \<Rightarrow> True | Some (r, s') \<Rightarrow> fresh_events fresh put get es s')"

fun puts :: "('p, 'a) event list \<Rightarrow> 'a list" where
  "puts [] = []"
| "puts (Put p x # es) = x # puts es"
| "puts (Get # es) = puts es"

locale fifo =
  fixes rep :: "'s \<Rightarrow> 'a list \<Rightarrow> bool"
    and fresh :: "'s \<Rightarrow> 'p \<Rightarrow> bool"
    and put :: "'p \<Rightarrow> 'a \<Rightarrow> 's \<Rightarrow> 's option"
    and get :: "'s \<Rightarrow> ('a option \<times> 's) option"
  assumes put_law: "rep s xs \<Longrightarrow> fresh s p \<Longrightarrow> \<exists>s'. put p x s = Some s' \<and> rep s' (xs @ [x])"
    and get_law: "rep s (x # xs) \<Longrightarrow> \<exists>s'. get s = Some (Some x, s') \<and> rep s' xs"
    and get_empty: "rep s [] \<Longrightarrow> get s = Some (None, s)"
begin

text \<open>Whatever is put and got, what comes out is what went in, in the same order, up to what is still inside.\<close>

lemma run_in_order:
  assumes "rep s xs" "fresh_events fresh put get es s"
  shows "\<exists>out s' rest. run_events put get es s = Some (out, s') \<and> rep s' rest \<and> xs @ puts es = out @ rest"
  using assms
proof (induction es arbitrary: s xs)
  case (Cons e es)
  show ?case
  proof (cases e)
    case (Put p x)
    obtain s1 where s1: "put p x s = Some s1" "rep s1 (xs @ [x])" using put_law Cons.prems Put by fastforce
    have "fresh_events fresh put get es s1" using Cons.prems(2) Put s1(1) by simp
    from Cons.IH [OF s1(2) this] show ?thesis using Put s1(1) by simp
  next
    case Get
    show ?thesis
    proof (cases xs)
      case Nil
      then show ?thesis using Cons.IH [of s xs] Cons.prems Get get_empty [of s] by auto
    next
      case (Cons x ys)
      then obtain s1 where s1: "get s = Some (Some x, s1)" "rep s1 ys" using get_law Cons.prems by blast
      have "fresh_events fresh put get es s1" using Cons.prems(2) Get s1(1) by simp
      from Cons.IH [OF s1(2) this] show ?thesis using Get s1(1) Cons by auto
    qed
  qed
qed simp

end

text \<open>The linked queue is such a channel.\<close>

definition queue_is :: "'a store \<times> l_queue \<Rightarrow> 'a list \<Rightarrow> bool" where
  "queue_is s xs \<longleftrightarrow> (\<exists>cs. queue_rep (fst s) (snd s) cs \<and> map snd cs = xs)"

definition free_in :: "'a store \<times> l_queue \<Rightarrow> nat \<Rightarrow> bool" where
  "free_in s p \<longleftrightarrow> fst s p = None"

definition put_tail :: "nat \<Rightarrow> 'a \<Rightarrow> 'a store \<times> l_queue \<Rightarrow> ('a store \<times> l_queue) option" where
  "put_tail p x s = (case l_queue_push_tail p x (fst s) (Some (snd s)) of Some (r, h, Some q) \<Rightarrow> Some (h, q) | _ \<Rightarrow> None)"

definition get_head :: "'a store \<times> l_queue \<Rightarrow> ('a option \<times> 'a store \<times> l_queue) option" where
  "get_head s = (case l_queue_pop_head (fst s) (Some (snd s)) of Some (r, h, Some q) \<Rightarrow> Some (r, h, q) | _ \<Rightarrow> None)"

lemma seg_allocated: "seg h p cs r \<Longrightarrow> h a = None \<Longrightarrow> a \<notin> addrs cs"
  by (induction cs arbitrary: p) auto

lemma rep_allocated: "queue_rep h q cs \<Longrightarrow> h a = None \<Longrightarrow> a \<notin> addrs cs"
  by (auto simp: queue_rep_def dest: seg_allocated)

interpretation ell: fifo queue_is free_in put_tail get_head
proof unfold_locales
  show "\<exists>s'. put_tail p x s = Some s' \<and> queue_is s' (xs @ [x])" if r: "queue_is s xs" "free_in s p" for s :: "'a store \<times> l_queue" and xs p x
  proof -
    obtain cs where c: "queue_rep (fst s) (snd s) cs" "map snd cs = xs" using r(1) by (auto simp: queue_is_def)
    then show ?thesis
      using push_tail_rep [OF c(1) rep_allocated [OF c(1)], of p x] r(2)
      by (auto simp: put_tail_def queue_is_def free_in_def intro!: exI [of _ "cs @ [(p, x)]"])
  qed
  show "\<exists>s'. get_head s = Some (Some x, s') \<and> queue_is s' xs" if r: "queue_is s (x # xs)" for s :: "'a store \<times> l_queue" and x xs
  proof -
    obtain a cs where "queue_rep (fst s) (snd s) ((a, x) # cs)" "map snd cs = xs" using r by (auto simp: queue_is_def)
    then show ?thesis using pop_head_rep(2) by (fastforce simp: get_head_def queue_is_def)
  qed
  show "get_head s = Some (None, s)" if "queue_is s []" for s :: "'a store \<times> l_queue"
    using that pop_head_rep(1) [of "fst s" "snd s"] by (auto simp: get_head_def queue_is_def)
qed

section \<open>Properties\<close>

text \<open>
  C34: The linked queue refines lists under removal.  Removing the entries that a callback selects visits every entry once and in
  order, unlinks exactly the selected ones whatever their position (the first, the last, neighbours, all of them),
  frees their memory and no other, and keeps the head, the tail and the count right.
\<close>

theorem l_queue_foreach_remove_refines:
  assumes "queue_rep h q cs" "remove_spec f cs s = (ks, s')"
  shows "\<exists>h' q'. l_queue_foreach_remove f h (Some q) s = Some (of_nat (length cs - length ks), h', Some q', s') \<and> queue_rep h' q' ks
    \<and> frame (addrs cs) h h' \<and> (\<forall>a \<in> addrs cs - addrs ks. h' a = None)"
  using assms by (rule foreach_remove_rep)

definition sample_store :: "nat store" where
  "sample_store = [10 \<mapsto> \<lparr>entry_data = 1, entry_next = Some 20\<rparr>, 20 \<mapsto> \<lparr>entry_data = 2, entry_next = Some 30\<rparr>, 30 \<mapsto> \<lparr>entry_data = 3, entry_next = None\<rparr>]"

definition sample_queue :: l_queue where
  "sample_queue = \<lparr>head = Some 10, tail = Some 30, entries = 3\<rparr>"

lemma sample_rep: "queue_rep sample_store sample_queue [(10, 1), (20, 2), (30, 3)]"
  by (simp add: queue_rep_def sample_store_def sample_queue_def last_ptr_def)

theorem l_queue_foreach_remove_refines_witness:
  "\<exists>h' q'. l_queue_foreach_remove (\<lambda>x s. (x \<noteq> 2, s + x)) sample_store (Some sample_queue) 0 = Some (2, h', Some q', 6) \<and> queue_rep h' q' [(20, 2)]"
  using l_queue_foreach_remove_refines [OF sample_rep, of "\<lambda>x s. (x \<noteq> 2, s + x)" 0 "[(20, 2)]" 6] by auto

text \<open>
  C35: The linked queue is first in, first out.  Any sequence of pushes at the tail, at addresses that are free, and pops at the head
  runs without following a bad pointer; the popped data are the pushed ones in the same order, up to those still in the queue.
\<close>

theorem l_queue_first_in_first_out:
  assumes "queue_rep h q cs" "fresh_events free_in put_tail get_head es (h, q)"
  shows "\<exists>out h' q' rest. run_events put_tail get_head es (h, q) = Some (out, h', q') \<and> queue_is (h', q') rest
    \<and> map snd cs @ puts es = out @ rest"
proof -
  have "queue_is (h, q) (map snd cs)" using assms(1) by (auto simp: queue_is_def)
  from ell.run_in_order [OF this assms(2)] show ?thesis by auto
qed

theorem l_queue_first_in_first_out_witness:
  "\<exists>out h' q' rest. run_events put_tail get_head [Put 40 7, Get, Get, Put 10 8] (sample_store, sample_queue) = Some (out, h', q')
     \<and> queue_is (h', q') rest \<and> [1, 2, 3, 7, 8] = out @ rest"
proof -
  have "fresh_events free_in put_tail get_head [Put 40 7, Get, Get, Put 10 8] (sample_store, sample_queue)"
    by (simp add: free_in_def put_tail_def get_head_def l_queue_push_tail_def l_queue_pop_head_def sample_store_def sample_queue_def set_next_def)
  from l_queue_first_in_first_out [OF sample_rep this] show ?thesis by simp
qed

text \<open>
  Reversing a queue in place reverses the list it stands for, exchanges its ends and touches no entry of another queue.
\<close>

theorem l_queue_reverse_refines:
  assumes "queue_rep h q cs"
  shows "\<exists>h' q'. l_queue_reverse h (Some q) = Some (True, h', Some q') \<and> queue_rep h' q' (rev cs) \<and> frame (addrs cs) h h'"
  using assms by (rule reverse_rep)

theorem l_queue_reverse_refines_witness:
  "\<exists>h' q'. l_queue_reverse sample_store (Some sample_queue) = Some (True, h', Some q') \<and> queue_rep h' q' [(30, 3), (20, 2), (10, 1)]"
  using l_queue_reverse_refines [OF sample_rep] by auto

end
