(* ===== verification/Waiting_Queue.thy ===== *)
theory Waiting_Queue
  imports Ell_Queue
begin

text \<open>
  The waiting queue through which the threads of the gateway pass messages, \<^verbatim>\<open>src/skf_gw/source/src/app_waiting_queue.c\<close>: a linked
  queue of data units, a semaphore that counts them and a mutex.

  What runs under the mutex is one step.  Taking a message is two steps, because the semaphore is taken before the
  mutex; between them other threads may post and take.  The memory of a data unit belongs to the queue entry
  that holds it, so that a unit is a value here; \<^verbatim>\<open>l_malloc\<close> does not fail.
\<close>

section \<open>Operations\<close>

record data_unit =
  unit_len :: nat
  pt_buf :: bytes

text \<open>The controller, with the store that its queue lives in.\<close>

record waiting_queue_controller =
  heap :: "data_unit store"
  pt_data_queue :: "l_queue option"
  sem_data_num :: nat

text \<open>
  Initialisation: \<^term>\<open>mtx_ok\<close> and \<^term>\<open>sem_ok\<close> say whether the mutex and the semaphore can be created.  After a failure the queue is
  destroyed, and the controller must not be used.
\<close>

definition app_wq_init_ctr :: "bool \<Rightarrow> bool \<Rightarrow> waiting_queue_controller option \<Rightarrow> app_state_t \<times> waiting_queue_controller option" where
  "app_wq_init_ctr mtx_ok sem_ok ctr =
     (case ctr of
        None \<Rightarrow> (ST_ERR, None)
      | Some c \<Rightarrow>
          let c = c\<lparr>pt_data_queue := Some l_queue_new\<rparr> in
          if \<not> mtx_ok \<or> \<not> sem_ok
          then (ST_ERR, case l_queue_destroy (\<lambda>u s. s) (heap c) (pt_data_queue c) () of
                          Some (h, s) \<Rightarrow> Some (c\<lparr>heap := h\<rparr>) | None \<Rightarrow> None)
          else (ST_OK, Some (c\<lparr>sem_data_num := 0\<rparr>)))"

text \<open>
  Posting: the data are copied into a new unit, which is put at the end of the queue under the mutex together
  with raising the semaphore; \<^term>\<open>new\<close> is the address of the new queue entry.
\<close>

definition app_wq_post_to_waiting_queue ::
    "nat \<Rightarrow> waiting_queue_controller option \<Rightarrow> bytes option \<Rightarrow> nat \<Rightarrow> (app_state_t \<times> waiting_queue_controller option) option" where
  "app_wq_post_to_waiting_queue new ctr dtbuf kplen =
     (case (ctr, dtbuf) of
        (Some c, Some buf) \<Rightarrow>
          if kplen = 0 then Some (ST_ERR, ctr)
          else do {
            let unit = \<lparr>unit_len = kplen, pt_buf = take kplen buf\<rparr>;
            (r, h, queue) \<leftarrow> l_queue_push_tail new unit (heap c) (pt_data_queue c);
            Some (ST_OK, Some (c\<lparr>heap := h, pt_data_queue := queue, sem_data_num := sem_data_num c + 1\<rparr>)) }
      | _ \<Rightarrow> Some (ST_ERR, ctr))"

text \<open>
  The two steps of waiting.  The first one blocks while the semaphore is zero, unless a signal handler interrupts it: the code ignores the
  result of \<^verbatim>\<open>sem_wait\<close> (the handlers are installed without \<^verbatim>\<open>SA_RESTART\<close>), so that the thread goes on and has taken nothing from
  the semaphore.  Then the queue may be empty, and the thread gets no unit.
\<close>

definition wq_sem_wait :: "bool \<Rightarrow> waiting_queue_controller \<Rightarrow> waiting_queue_controller option" where
  "wq_sem_wait interrupted c =
     (if interrupted then Some c
      else if sem_data_num c = 0 then None else Some (c\<lparr>sem_data_num := sem_data_num c - 1\<rparr>))"

definition wq_pop :: "waiting_queue_controller \<Rightarrow> (data_unit option \<times> waiting_queue_controller) option" where
  "wq_pop c = do {
     (r, h, queue) \<leftarrow> l_queue_pop_head (heap c) (pt_data_queue c);
     Some (r, c\<lparr>heap := h, pt_data_queue := queue\<rparr>) }"

text \<open>Waiting without interference; a blocked call has no result.\<close>

definition app_wq_wait_for_data_trans_queue ::
    "bool \<Rightarrow> waiting_queue_controller option \<Rightarrow> (data_unit option \<times> waiting_queue_controller option) option" where
  "app_wq_wait_for_data_trans_queue interrupted ctr =
     (case ctr of
        None \<Rightarrow> Some (None, None)
      | Some c \<Rightarrow> do { c \<leftarrow> wq_sem_wait interrupted c; (r, c) \<leftarrow> wq_pop c; Some (r, Some c) })"

text \<open>Releasing a unit frees its buffer and the unit; the state is the list of the units that were freed.\<close>

definition app_wq_release_data_unit :: "data_unit \<Rightarrow> data_unit list \<Rightarrow> data_unit list" where
  "app_wq_release_data_unit u freed = freed @ [u]"

definition app_wq_destroy_ctr :: "waiting_queue_controller option \<Rightarrow> data_unit list \<Rightarrow> (data_unit store \<times> data_unit list) option" where
  "app_wq_destroy_ctr ctr freed =
     (case ctr of
        None \<Rightarrow> None
      | Some c \<Rightarrow> l_queue_destroy app_wq_release_data_unit (heap c) (pt_data_queue c) freed)"

section \<open>Threads\<close>

text \<open>
  The system: the controller and the number of threads that have passed the semaphore and not yet taken their unit.
  A step is labelled with what it posts or takes.
\<close>

record wq_system =
  controller :: waiting_queue_controller
  passed :: nat

datatype wq_label = Posted data_unit | Passed | Interrupted | Took "data_unit option"

inductive wq_step :: "wq_system \<Rightarrow> wq_label \<Rightarrow> wq_system \<Rightarrow> bool" where
  post: "heap (controller s) new = None \<Longrightarrow> n \<noteq> 0 \<Longrightarrow>
    app_wq_post_to_waiting_queue new (Some (controller s)) (Some buf) n = Some (ST_OK, Some c) \<Longrightarrow>
    wq_step s (Posted \<lparr>unit_len = n, pt_buf = take n buf\<rparr>) (s\<lparr>controller := c\<rparr>)"
| sem: "wq_sem_wait False (controller s) = Some c \<Longrightarrow> wq_step s Passed (s\<lparr>controller := c, passed := passed s + 1\<rparr>)"
| intr: "wq_sem_wait True (controller s) = Some c \<Longrightarrow> wq_step s Interrupted (s\<lparr>controller := c, passed := passed s + 1\<rparr>)"
| take: "passed s > 0 \<Longrightarrow> wq_pop (controller s) = Some (r, c) \<Longrightarrow>
    wq_step s (Took r) (s\<lparr>controller := c, passed := passed s - 1\<rparr>)"

inductive_cases wq_stepE: "wq_step s l s'"

inductive wq_run :: "wq_system \<Rightarrow> wq_label list \<Rightarrow> wq_system \<Rightarrow> bool" where
  start: "wq_run s [] s"
| step: "wq_run s ls s' \<Longrightarrow> wq_step s' l s'' \<Longrightarrow> wq_run s (ls @ [l]) s''"

definition wq_initial :: "wq_system \<Rightarrow> bool" where
  "wq_initial s \<longleftrightarrow> passed s = 0 \<and> sem_data_num (controller s) = 0 \<and> pt_data_queue (controller s) = Some l_queue_new"

primrec posted :: "wq_label list \<Rightarrow> data_unit list" where
  "posted [] = []"
| "posted (l # ls) = (case l of Posted u \<Rightarrow> u # posted ls | _ \<Rightarrow> posted ls)"

text \<open>The units that were taken, and the waits that were interrupted or ended without a unit.\<close>

primrec taken_units :: "wq_label list \<Rightarrow> data_unit list" where
  "taken_units [] = []"
| "taken_units (l # ls) = (case l of Took (Some u) \<Rightarrow> u # taken_units ls | _ \<Rightarrow> taken_units ls)"

definition interruptions :: "wq_label list \<Rightarrow> nat" where
  "interruptions ls = length (filter (\<lambda>l. l = Interrupted) ls)"

definition nulls :: "wq_label list \<Rightarrow> nat" where
  "nulls ls = length (filter (\<lambda>l. l = Took None) ls)"

section \<open>The invariant\<close>

text \<open>
  Every unit in the queue is accounted for: by the semaphore, or by a thread that is about to take it.  What these count beyond the units
  comes from interrupted waits.
\<close>

definition wq_inv :: "wq_system \<Rightarrow> data_unit list \<Rightarrow> nat \<Rightarrow> bool" where
  "wq_inv s us surplus \<longleftrightarrow> (\<exists>q. pt_data_queue (controller s) = Some q \<and> queue_is (heap (controller s), q) us)
     \<and> sem_data_num (controller s) + passed s = length us + surplus"

lemma posted_append [simp]: "posted (ls @ ms) = posted ls @ posted ms"
  by (induction ls) (auto split: wq_label.split)

lemma taken_append [simp]: "taken_units (ls @ ms) = taken_units ls @ taken_units ms"
  by (induction ls) (auto split: wq_label.split option.split)

lemma counts_append [simp]: "interruptions (ls @ ms) = interruptions ls + interruptions ms" "nulls (ls @ ms) = nulls ls + nulls ms"
  by (simp_all add: interruptions_def nulls_def)

lemma counts_step [simp]: "interruptions [l] = (if l = Interrupted then 1 else 0)" "nulls [l] = (if l = Took None then 1 else 0)"
  "interruptions [] = 0" "nulls [] = 0"
  by (simp_all add: interruptions_def nulls_def)

lemma wq_initial_inv: "wq_initial s \<Longrightarrow> wq_inv s [] 0"
  by (auto simp: wq_initial_def wq_inv_def queue_is_def queue_rep_new)

lemma wq_post_inv:
  assumes "wq_inv s us k" "heap (controller s) new = None" "n \<noteq> 0"
  shows "\<exists>c. app_wq_post_to_waiting_queue new (Some (controller s)) (Some buf) n = Some (ST_OK, Some c)
    \<and> wq_inv (s\<lparr>controller := c\<rparr>) (us @ [\<lparr>unit_len = n, pt_buf = take n buf\<rparr>]) k"
proof -
  let ?u = "\<lparr>unit_len = n, pt_buf = take n buf\<rparr>"
  obtain q where q: "pt_data_queue (controller s) = Some q" "queue_is (heap (controller s), q) us"
    using assms(1) by (auto simp: wq_inv_def)
  obtain s' where "put_tail new ?u (heap (controller s), q) = Some s'" "queue_is s' (us @ [?u])"
    using ell.put_law [OF q(2), of new ?u] assms(2) by (auto simp: free_in_def)
  then obtain r h' q' where p: "l_queue_push_tail new ?u (heap (controller s)) (Some q) = Some (r, h', Some q')" "queue_is (h', q') (us @ [?u])"
    by (auto simp: put_tail_def split: option.splits prod.splits)
  then show ?thesis
    using assms(1,3) q(1) by (simp add: app_wq_post_to_waiting_queue_def wq_inv_def)
qed

lemma wq_sem_inv:
  assumes "wq_inv s us k" "wq_sem_wait interrupted (controller s) = Some c"
  shows "wq_inv (s\<lparr>controller := c, passed := passed s + 1\<rparr>) us (if interrupted then k + 1 else k)"
  using assms by (auto simp: wq_sem_wait_def wq_inv_def split: if_splits)

lemma wq_pop_inv:
  assumes "wq_inv s us k" "passed s > 0"
  shows "\<exists>c. wq_pop (controller s) = Some (if us = [] then None else Some (hd us), c)
    \<and> wq_inv (s\<lparr>controller := c, passed := passed s - 1\<rparr>) (tl us) (if us = [] then k - 1 else k) \<and> (us = [] \<longrightarrow> 0 < k)"
proof -
  obtain q where q: "pt_data_queue (controller s) = Some q" "queue_is (heap (controller s), q) us"
    "sem_data_num (controller s) + passed s = length us + k" using assms(1) by (auto simp: wq_inv_def)
  have "\<exists>h' q'. get_head (heap (controller s), q) = Some (if us = [] then None else Some (hd us), h', q') \<and> queue_is (h', q') (tl us)"
    using ell.get_law ell.get_empty q(2) by (cases us) fastforce+
  then obtain h' q' where g: "get_head (heap (controller s), q) = Some (if us = [] then None else Some (hd us), h', q')" "queue_is (h', q') (tl us)"
    by blast
  then have "l_queue_pop_head (heap (controller s)) (Some q) = Some (if us = [] then None else Some (hd us), h', Some q')"
    by (simp add: get_head_def split: option.splits prod.splits)
  then show ?thesis using q assms(2) g(2) by (cases us) (auto simp: wq_pop_def wq_inv_def)
qed

lemma wq_step_inv:
  assumes "wq_inv s us k" "wq_step s l s'"
  shows "\<exists>us' k'. wq_inv s' us' k' \<and> us @ posted [l] = taken_units [l] @ us' \<and> k + interruptions [l] = k' + nulls [l]"
  using assms(2)
proof cases
  case (post new n buf c)
  then show ?thesis using wq_post_inv [OF assms(1) post(3,4), of buf] by auto
next
  case (sem c)
  then show ?thesis using wq_sem_inv [OF assms(1)] by fastforce
next
  case (intr c)
  then show ?thesis using wq_sem_inv [OF assms(1)] by fastforce
next
  case (take r c)
  then show ?thesis using wq_pop_inv [OF assms(1) take(3)] by (cases us) auto
qed

lemma wq_run_inv:
  assumes "wq_run s ls s'" "wq_initial s"
  shows "\<exists>us k. wq_inv s' us k \<and> posted ls = taken_units ls @ us \<and> interruptions ls = k + nulls ls"
  using assms
proof (induction rule: wq_run.induct)
  case (start s)
  then show ?case using wq_initial_inv by fastforce
next
  case (step s ls s' l s'')
  then obtain us k where us: "wq_inv s' us k" "posted ls = taken_units ls @ us" "interruptions ls = k + nulls ls" by blast
  obtain us' k' where "wq_inv s'' us' k'" "us @ posted [l] = taken_units [l] @ us'" "k + interruptions [l] = k' + nulls [l]"
    using wq_step_inv [OF us(1) step.hyps(2)] by blast
  then show ?case using us by (intro exI [of _ us'] exI [of _ k']) (auto simp del: posted.simps taken_units.simps counts_step)
qed

section \<open>Properties\<close>

text \<open>
  C10: Messages are neither lost, duplicated nor reordered between threads.  In every interleaving of posting and waiting
  threads, starting from an initialised queue, and whichever waits a signal interrupts, the units taken so far, followed by those still in
  the queue, are exactly the units posted, in order.  The semaphore and the threads past it together count at least the units in the queue;
  what they count more is the number of interrupted waits that have not yet made a thread come back with a null pointer, so that there are
  no more null pointers than interruptions.
\<close>

theorem waiting_queue_delivers:
  assumes "wq_run s ls s'" "wq_initial s"
  shows "\<exists>q us. pt_data_queue (controller s') = Some q \<and> queue_is (heap (controller s'), q) us
    \<and> posted ls = taken_units ls @ us
    \<and> sem_data_num (controller s') + passed s' + nulls ls = length us + interruptions ls \<and> nulls ls \<le> interruptions ls"
  using wq_run_inv [OF assms] by (auto simp: wq_inv_def)

definition idle_system :: wq_system where
  "idle_system = \<lparr>controller = \<lparr>heap = Map.empty, pt_data_queue = Some l_queue_new, sem_data_num = 0\<rparr>, passed = 0\<rparr>"

lemma idle_initial: "wq_initial idle_system"
  by (simp add: wq_initial_def idle_system_def)

theorem waiting_queue_delivers_witness:
  "\<exists>s' q us. wq_run idle_system [Posted \<lparr>unit_len = 2, pt_buf = [1, 2]\<rparr>] s' \<and> pt_data_queue (controller s') = Some q
     \<and> queue_is (heap (controller s'), q) us \<and> us = [\<lparr>unit_len = 2, pt_buf = [1, 2]\<rparr>]"
proof -
  obtain c where c: "app_wq_post_to_waiting_queue 5 (Some (controller idle_system)) (Some [1, 2, 3]) 2 = Some (ST_OK, Some c)"
    using wq_post_inv [OF wq_initial_inv [OF idle_initial], of 5 2 "[1, 2, 3]"] by (auto simp: idle_system_def)
  have "wq_step idle_system (Posted \<lparr>unit_len = 2, pt_buf = take 2 [1, 2, 3]\<rparr>) (idle_system\<lparr>controller := c\<rparr>)"
    by (rule wq_step.post [OF _ _ c]) (simp_all add: idle_system_def)
  then have r: "wq_run idle_system [Posted \<lparr>unit_len = 2, pt_buf = [1, 2]\<rparr>] (idle_system\<lparr>controller := c\<rparr>)"
    using wq_run.step [OF wq_run.start] by fastforce
  from waiting_queue_delivers [OF r idle_initial] show ?thesis using r by fastforce
qed

text \<open>
  C36: A waiting thread gets its message.  In every reachable state with a unit that no thread is about to take, the semaphore can be passed, and
  a thread past it takes the oldest unit, or a null pointer when there is none; without interrupted waits a thread can pass the semaphore
  only when there is a unit for it, so that it blocks exactly when there is nothing for it.
\<close>

theorem waiting_queue_progress:
  assumes "wq_run s ls s'" "wq_initial s" "n = length (taken_units ls)"
  shows "(n + passed s' < length (posted ls) \<longrightarrow> (\<exists>t. wq_step s' Passed t))
    \<and> (0 < passed s' \<longrightarrow> (\<exists>t. wq_step s' (Took (if n < length (posted ls) then Some (posted ls ! n) else None)) t))
    \<and> (interruptions ls = 0 \<longrightarrow> ((\<exists>t. wq_step s' Passed t) \<longleftrightarrow> n + passed s' < length (posted ls)))"
proof -
  obtain us k where us: "wq_inv s' us k" "posted ls = taken_units ls @ us" "interruptions ls = k + nulls ls" using wq_run_inv [OF assms(1,2)] by blast
  have n: "length (posted ls) = n + length us" "posted ls ! n = hd us" if "us \<noteq> []" using us(2) assms(3) that by (simp_all add: hd_conv_nth nth_append)
  have m: "length (posted ls) = n + length us" using us(2) assms(3) by simp
  have s: "sem_data_num (controller s') + passed s' = length us + k" using us(1) by (simp add: wq_inv_def)
  have "(\<exists>t. wq_step s' Passed t) \<longleftrightarrow> wq_sem_wait False (controller s') \<noteq> None"
    by (auto elim: wq_stepE intro: wq_step.sem)
  also have "\<dots> \<longleftrightarrow> sem_data_num (controller s') \<noteq> 0" by (simp add: wq_sem_wait_def)
  finally have 1: "(\<exists>t. wq_step s' Passed t) \<longleftrightarrow> sem_data_num (controller s') \<noteq> 0" .
  have 2: "\<exists>t. wq_step s' (Took (if n < length (posted ls) then Some (posted ls ! n) else None)) t" if p: "0 < passed s'"
  proof -
    obtain c where "wq_pop (controller s') = Some (if us = [] then None else Some (hd us), c)" using wq_pop_inv [OF us(1) p] by blast
    then show ?thesis using wq_step.take [OF p] m n(2) by (cases us) auto
  qed
  show ?thesis using 1 2 s m us(3) by auto
qed

theorem waiting_queue_progress_witness: "\<not> (\<exists>t. wq_step idle_system Passed t)"
  using waiting_queue_progress [OF wq_run.start idle_initial] by (simp add: idle_system_def)

text \<open>
  One interrupted wait is enough to give a thread a null pointer.  When a message has come in the meantime, the thread takes it without its
  count, and the count that is left later wakes a thread for nothing.
\<close>

lemma interrupted_wait_gets_null:
  "\<exists>t u. wq_step idle_system Interrupted t \<and> wq_step t (Took None) u"
proof -
  let ?t = "idle_system\<lparr>passed := 1\<rparr>"
  have t: "wq_step idle_system Interrupted ?t"
    using wq_step.intr [of idle_system "controller idle_system"] by (simp add: wq_sem_wait_def idle_system_def)
  obtain us k where us: "wq_inv ?t us k" "posted [Interrupted] = taken_units [Interrupted] @ us"
    using wq_run_inv [OF wq_run.step [OF wq_run.start t] idle_initial] by auto
  then obtain c where "wq_pop (controller ?t) = Some (None, c)" using wq_pop_inv [OF us(1)] by auto
  then show ?thesis using t wq_step.take [of ?t None c] by auto
qed

text \<open>Destroying the controller releases every unit that is left, once, and frees the entries of the queue.\<close>

lemma app_wq_destroy_ctr_releases:
  assumes "pt_data_queue c = Some q" "queue_rep (heap c) q cs"
  shows "\<exists>h. app_wq_destroy_ctr (Some c) freed = Some (h, freed @ map snd cs) \<and> (\<forall>a \<in> addrs cs. h a = None)"
proof -
  have "fold app_wq_release_data_unit us freed = freed @ us" for us
    by (induction us arbitrary: freed) (simp_all add: app_wq_release_data_unit_def)
  then show ?thesis
    using clear_rep [OF assms(2), of app_wq_release_data_unit freed] assms(1) by (auto simp: app_wq_destroy_ctr_def l_queue_destroy_def)
qed

end
