(* ===== verification/Froto_Reply.thy ===== *)
theory Froto_Reply
  imports Ell_Queue
begin

text \<open>
  The expected replies of the Froto protocol, \<^verbatim>\<open>src/skf_gw/source/src/general/froto/app_froto_new.c\<close>: a thread that sends a request registers
  the reply it expects, waits on a condition variable and unregisters; the receiving thread hands each
  message to the registration that matches it.

  The registrations live in a memory of their own, addressed by the pointers that the linked queue
  holds, because the queue and the waiting thread share them.  Each operation holds the mutex of the queue
  for all of its work, so that it is one step.  The queue of messages of a registration is the list it stands for; a
  null pointer there has no messages, like an empty queue.  Condition variables are addresses with a flag \<^verbatim>\<open>is_op_done\<close>.
  Decoding the protocol buffers is not part of this theory: a message arrives with its header.
\<close>

section \<open>State\<close>

record reply_ack_t =
  pt_cond_var :: nat
  pt_peer_str :: bytes
  ExpPrimitive :: int
  ExpMsgType :: int
  ExpLongPktId :: u32
  totalBlock :: u32
  currentBlock :: u32
  checkSeqNo :: bool
  ExpSeqNo :: u32
  SeqNo :: u32
  replyAck :: "u32 list"
  replyAckLen :: nat
  replyMsgQueue :: "bytes list"

type_synonym ack_mem = "nat \<Rightarrow> reply_ack_t option"

record froto =
  acks :: ack_mem
  entries_store :: "nat store"
  reply_ack_queue :: "l_queue option"
  is_op_done :: "nat \<Rightarrow> bool"
  singleChannelConcurrentCnt :: u32

definition FROTO_MAX_CONCURRENT_NUM_REPLY_ACK :: u32 where "FROTO_MAX_CONCURRENT_NUM_REPLY_ACK = 40"
definition FROTO_MAX_SINGLE_CHANNEL_CONCURRENT_NUM_REPLY_ACK :: u32 where "FROTO_MAX_SINGLE_CHANNEL_CONCURRENT_NUM_REPLY_ACK = 10"

definition app_froto_n_init :: "bool \<Rightarrow> froto \<Rightarrow> bool \<times> froto" where
  "app_froto_n_init mtx_ok st = (if \<not> mtx_ok then (False, st) else (True, st\<lparr>reply_ack_queue := Some l_queue_new\<rparr>))"

section \<open>Registration\<close>

text \<open>The callbacks; a pointer without a registration behind it matches nothing (the invariant below rules it out).\<close>

definition q_match_addr :: "ack_mem \<Rightarrow> bytes \<Rightarrow> nat \<Rightarrow> u32 \<Rightarrow> u32" where
  "q_match_addr mem peer p cnt =
     (case mem p of
        None \<Rightarrow> cnt
      | Some pta \<Rightarrow> if length (pt_peer_str pta) = length peer \<and> pt_peer_str pta = peer then cnt + 1 else cnt)"

text \<open>
  Registering: \<^term>\<open>ra\<close> and \<^term>\<open>new\<close> are the addresses of the new registration and of its queue entry; \<^term>\<open>mtx_ok\<close> says whether its
  mutex can be created, without which the registration is returned as failed and its memory kept.
\<close>

definition new_ack :: "nat \<Rightarrow> bytes \<Rightarrow> int \<Rightarrow> int \<Rightarrow> bool \<Rightarrow> u32 \<Rightarrow> u32 \<Rightarrow> reply_ack_t" where
  "new_ack cond peer prim mtype chk expseq seq =
     \<lparr>pt_cond_var = cond, pt_peer_str = peer, ExpPrimitive = prim, ExpMsgType = mtype, ExpLongPktId = 0, totalBlock = 0,
      currentBlock = 0, checkSeqNo = chk, ExpSeqNo = expseq, SeqNo = seq, replyAck = [], replyAckLen = 0, replyMsgQueue = []\<rparr>"

definition registerReplyAck ::
    "nat \<Rightarrow> nat \<Rightarrow> bool \<Rightarrow> nat option \<Rightarrow> bytes option \<Rightarrow> int \<Rightarrow> int \<Rightarrow> bool \<Rightarrow> u32 \<Rightarrow> u32 \<Rightarrow> froto \<Rightarrow> (bool \<times> nat option \<times> froto) option" where
  "registerReplyAck ra new mtx_ok cond peer prim mtype chk expseq seq st =
     (case (cond, peer) of
        (Some cv, Some str) \<Rightarrow>
          if str = [] then Some (False, None, st)
          else let ack = new_ack cv str prim mtype chk expseq seq in
            if \<not> mtx_ok then Some (False, None, st\<lparr>acks := (acks st)(ra \<mapsto> ack)\<rparr>)
            else do {
              cnt \<leftarrow> l_queue_foreach (q_match_addr (acks st) str) (entries_store st) (reply_ack_queue st) 0;
              let st = st\<lparr>singleChannelConcurrentCnt := cnt\<rparr>;
              if cnt \<ge> FROTO_MAX_SINGLE_CHANNEL_CONCURRENT_NUM_REPLY_ACK then Some (False, None, st)
              else if l_queue_length (reply_ack_queue st) \<ge> FROTO_MAX_CONCURRENT_NUM_REPLY_ACK then Some (False, None, st)
              else do {
                (r, h, queue) \<leftarrow> l_queue_push_tail new ra (entries_store st) (reply_ack_queue st);
                Some (True, Some ra, st\<lparr>acks := (acks st)(ra \<mapsto> ack), entries_store := h, reply_ack_queue := queue\<rparr>) } }
      | _ \<Rightarrow> Some (False, None, st))"

text \<open>The callbacks that remove a registration free it, with its messages.\<close>

definition q_match_reply_ack :: "reply_ack_t \<Rightarrow> nat \<Rightarrow> ack_mem \<Rightarrow> bool \<times> ack_mem" where
  "q_match_reply_ack ptb p mem =
     (case mem p of
        None \<Rightarrow> (False, mem)
      | Some pta \<Rightarrow>
          if ExpMsgType pta = ExpMsgType ptb \<and> ExpPrimitive pta = ExpPrimitive ptb \<and> ExpSeqNo pta = ExpSeqNo ptb \<and> SeqNo pta = SeqNo ptb
             \<and> checkSeqNo pta = checkSeqNo ptb \<and> length (pt_peer_str pta) = length (pt_peer_str ptb) \<and> pt_cond_var pta = pt_cond_var ptb
             \<and> pt_peer_str pta = pt_peer_str ptb
          then (True, mem(p := None)) else (False, mem))"

definition q_match_reply_ack_gabage_clean :: "bytes \<Rightarrow> nat \<Rightarrow> ack_mem \<Rightarrow> bool \<times> ack_mem" where
  "q_match_reply_ack_gabage_clean peer p mem =
     (case mem p of
        None \<Rightarrow> (False, mem)
      | Some pta \<Rightarrow>
          if length (pt_peer_str pta) = length peer \<and> pt_peer_str pta = peer then (True, mem(p := None)) else (False, mem))"

definition unregisterReplyAck ::
    "nat option \<Rightarrow> bytes option \<Rightarrow> int \<Rightarrow> int \<Rightarrow> bool \<Rightarrow> u32 \<Rightarrow> u32 \<Rightarrow> froto \<Rightarrow> (bool \<times> froto) option" where
  "unregisterReplyAck cond peer prim mtype chk expseq seq st =
     (case (cond, peer) of
        (Some cv, Some str) \<Rightarrow>
          if str = [] then Some (False, st)
          else do {
            (n, h, queue, mem) \<leftarrow> l_queue_foreach_remove (q_match_reply_ack (new_ack cv str prim mtype chk expseq seq))
                                    (entries_store st) (reply_ack_queue st) (acks st);
            Some (True, st\<lparr>acks := mem, entries_store := h, reply_ack_queue := queue, singleChannelConcurrentCnt := 0\<rparr>) }
      | _ \<Rightarrow> Some (False, st))"

definition app_froto_gabage_clean :: "bytes option \<Rightarrow> froto \<Rightarrow> (bool \<times> froto) option" where
  "app_froto_gabage_clean peer st =
     (case peer of
        Some str \<Rightarrow>
          if str = [] then Some (False, st)
          else do {
            (n, h, queue, mem) \<leftarrow> l_queue_foreach_remove (q_match_reply_ack_gabage_clean str) (entries_store st) (reply_ack_queue st) (acks st);
            Some (True, st\<lparr>acks := mem, entries_store := h, reply_ack_queue := queue, singleChannelConcurrentCnt := 0\<rparr>) }
      | None \<Rightarrow> Some (False, st))"

section \<open>Matching a message\<close>

text \<open>
  The acknowledged numbers are an array of 32-bit values in little-endian memory.  Removing the number at position \<^term>\<open>i\<close> moves as many
  bytes as there are numbers behind it.
\<close>

definition to_le32 :: "u32 \<Rightarrow> bytes" where
  "to_le32 w = [ucast w, ucast (drop_bit 8 w), ucast (drop_bit 16 w), ucast (drop_bit 24 w)]"

fun from_le32 :: "bytes \<Rightarrow> u32 list" where
  "from_le32 (a # b # c # d # bs) = (ucast a OR push_bit 8 (ucast b) OR push_bit 16 (ucast c) OR push_bit 24 (ucast d)) # from_le32 bs"
| "from_le32 bs = []"

definition drop_acked :: "nat \<Rightarrow> nat \<Rightarrow> u32 list \<Rightarrow> u32 list" where
  "drop_acked i len xs =
     (if i = len - 1 then xs
      else from_le32 (memmove (4 * i) (4 * (i + 1)) (len - i - 1) (concat (map to_le32 xs))))"

text \<open>The position of the first acknowledged number that equals the given one.\<close>

fun find_acked :: "nat \<Rightarrow> nat \<Rightarrow> u32 list \<Rightarrow> u32 \<Rightarrow> nat option" where
  "find_acked i 0 xs s = None"
| "find_acked i (Suc n) xs s = (if xs ! i = s then Some i else find_acked (i + 1) n xs s)"

definition update_blocks :: "reply_ack_t \<Rightarrow> reply_ack_t \<Rightarrow> reply_ack_t" where
  "update_blocks ptb pta = pta\<lparr>currentBlock := currentBlock ptb, totalBlock := totalBlock ptb\<rparr>"

text \<open>The callback of the search: it may change the registration \<^verbatim>\<open>pta\<close> and the descriptor \<^verbatim>\<open>ptb\<close> of the message.\<close>

definition q_match_reply_ack_except_cond_var :: "nat \<Rightarrow> ack_mem \<times> reply_ack_t \<Rightarrow> bool \<times> ack_mem \<times> reply_ack_t" where
  "q_match_reply_ack_except_cond_var p s =
     (case s of (mem, ptb) \<Rightarrow>
       (case mem p of
          None \<Rightarrow> (False, mem, ptb)
        | Some pta \<Rightarrow>
            if ExpMsgType pta = ExpMsgType ptb \<and> ExpPrimitive pta = ExpPrimitive ptb
               \<and> length (pt_peer_str pta) = length (pt_peer_str ptb) \<and> pt_peer_str pta = pt_peer_str ptb
            then
              let split = (\<lambda>pta. if totalBlock ptb > 1 then update_blocks ptb (pta\<lparr>ExpLongPktId := ExpLongPktId ptb\<rparr>) else pta);
                  fall = (if ExpLongPktId pta = ExpLongPktId ptb then mem(p \<mapsto> update_blocks ptb pta) else mem)
              in if checkSeqNo pta
                 then if ExpSeqNo pta = ExpSeqNo ptb then (True, mem(p \<mapsto> split pta), ptb) else (False, fall, ptb)
                 else (case find_acked 0 (replyAckLen ptb) (replyAck ptb) (SeqNo pta) of
                         Some i \<Rightarrow> (True, mem(p \<mapsto> split pta),
                                    ptb\<lparr>replyAck := drop_acked i (replyAckLen ptb) (replyAck ptb), replyAckLen := replyAckLen ptb - 1\<rparr>)
                       | None \<Rightarrow> (False, fall, ptb))
            else (False, mem, ptb)))"

section \<open>Delivery\<close>

text \<open>
  One search under the mutex: the waiting thread of the registration that is found is woken, if the mutex of its condition
  variable is free (\<^term>\<open>lock_ok\<close>).  The first search also hands over the message.
\<close>

definition froto_search :: "reply_ack_t \<Rightarrow> froto \<Rightarrow> (nat option \<times> reply_ack_t \<times> froto) option" where
  "froto_search ptb st = do {
     (found, mem, ptb) \<leftarrow> l_queue_find q_match_reply_ack_except_cond_var (entries_store st) (reply_ack_queue st) (acks st, ptb);
     Some (found, ptb, st\<lparr>acks := mem, singleChannelConcurrentCnt := 0\<rparr>) }"

definition froto_signal :: "bool \<Rightarrow> nat \<Rightarrow> froto \<Rightarrow> froto option" where
  "froto_signal lock_ok p st = do {
     ack \<leftarrow> acks st p;
     Some (if lock_ok then st\<lparr>is_op_done := (is_op_done st)(pt_cond_var ack := True)\<rparr> else st) }"

definition froto_deliver_first :: "bool \<Rightarrow> reply_ack_t \<Rightarrow> bytes \<Rightarrow> froto \<Rightarrow> (nat option \<times> reply_ack_t \<times> froto) option" where
  "froto_deliver_first lock_ok ptb msg st = do {
     (found, ptb, st) \<leftarrow> froto_search ptb st;
     (case found of
        None \<Rightarrow> Some (None, ptb, st)
      | Some p \<Rightarrow> do {
          ack \<leftarrow> acks st p;
          st \<leftarrow> froto_signal lock_ok p (st\<lparr>acks := (acks st)(p \<mapsto> ack\<lparr>replyMsgQueue := replyMsgQueue ack @ [msg]\<rparr>)\<rparr>);
          Some (Some p, ptb, st) }) }"

definition froto_deliver_again :: "bool \<Rightarrow> reply_ack_t \<Rightarrow> froto \<Rightarrow> (nat option \<times> reply_ack_t \<times> froto) option" where
  "froto_deliver_again lock_ok ptb st = do {
     (found, ptb, st) \<leftarrow> froto_search ptb st;
     (case found of
        None \<Rightarrow> Some (None, ptb, st)
      | Some p \<Rightarrow> do { st \<leftarrow> froto_signal lock_ok p st; Some (Some p, ptb, st) }) }"

section \<open>Sending with a reply\<close>

definition app_froto_n_simple_send :: "(bytes \<Rightarrow> bool) option \<Rightarrow> bytes option \<Rightarrow> bool" where
  "app_froto_n_simple_send send encoded =
     (case (encoded, send) of (Some buf, Some f) \<Rightarrow> buf \<noteq> [] \<and> f buf | _ \<Rightarrow> False)"

text \<open>
  What the caller passes: the condition variable, the peer and the reply it expects.
\<close>

record request =
  rq_cond :: nat
  rq_peer :: bytes
  rq_primitive :: int
  rq_type :: int
  rq_check :: bool
  rq_expseq :: u32
  rq_seq :: u32

definition unregister_request :: "request \<Rightarrow> froto \<Rightarrow> froto option" where
  "unregister_request rq st = do {
     (r, st) \<leftarrow> unregisterReplyAck (Some (rq_cond rq)) (Some (rq_peer rq)) (rq_primitive rq) (rq_type rq) (rq_check rq) (rq_expseq rq) (rq_seq rq) st;
     Some st }"

text \<open>
  The first part, up to the wait, of sending with one reply and of the first half of sending with several: the
  guards, the registration and the sending.  The result is the address of the registration if the caller goes on to wait.
\<close>

definition send_and_register ::
    "nat \<Rightarrow> nat \<Rightarrow> bool \<Rightarrow> bool \<Rightarrow> (bytes \<Rightarrow> bool) option \<Rightarrow> bytes option \<Rightarrow> request \<Rightarrow> froto \<Rightarrow> (nat option \<times> froto) option" where
  "send_and_register ra new mtx_ok cond_ok send encoded rq st =
     (case (encoded, send) of
        (Some buf, Some f) \<Rightarrow>
          if buf = [] \<or> rq_peer rq = [] \<or> \<not> cond_ok then Some (None, st)
          else do {
            let st = st\<lparr>is_op_done := (is_op_done st)(rq_cond rq := False)\<rparr>;
            (ok, reg, st) \<leftarrow> registerReplyAck ra new mtx_ok (Some (rq_cond rq)) (Some (rq_peer rq)) (rq_primitive rq) (rq_type rq)
                               (rq_check rq) (rq_expseq rq) (rq_seq rq) st;
            if \<not> ok then Some (None, st)
            else if \<not> f buf then do { st \<leftarrow> unregister_request rq st; Some (None, st) }
            else Some (reg, st) }
      | _ \<Rightarrow> Some (None, st))"

text \<open>Taking the first message of a registration into a buffer of the given size; the message is taken even when it does not fit.\<close>

definition take_message :: "nat \<Rightarrow> nat option \<Rightarrow> froto \<Rightarrow> (bytes option \<times> froto) option" where
  "take_message ra room st = do {
     ack \<leftarrow> acks st ra;
     (case replyMsgQueue ack of
        [] \<Rightarrow> Some (None, st)
      | msg # rest \<Rightarrow>
          Some (case room of None \<Rightarrow> None | Some n \<Rightarrow> if length msg \<le> n then Some msg else None,
                st\<lparr>acks := (acks st)(ra \<mapsto> ack\<lparr>replyMsgQueue := rest\<rparr>)\<rparr>)) }"

text \<open>
  The part after the wait.  The wait ends when the flag is set or the time is over; it has no result before.  With one
  reply expected, the message is taken only if it is the only one.
\<close>

definition send_with_reply_finish :: "bool \<Rightarrow> nat \<Rightarrow> nat option \<Rightarrow> request \<Rightarrow> froto \<Rightarrow> (bool \<times> bytes option \<times> froto) option" where
  "send_with_reply_finish timed_out ra room rq st =
     (if \<not> timed_out \<and> \<not> is_op_done st (rq_cond rq) then None
      else do {
        (msg, st) \<leftarrow> (if is_op_done st (rq_cond rq)
                      then do { ack \<leftarrow> acks st ra; if length (replyMsgQueue ack) = 1 then take_message ra room st else Some (None, st) }
                      else Some (None, st));
        st \<leftarrow> unregister_request rq st;
        Some (\<not> timed_out, msg, st) })"

definition first_half_finish :: "bool \<Rightarrow> nat \<Rightarrow> nat option \<Rightarrow> request \<Rightarrow> froto \<Rightarrow> (bool \<times> bytes option \<times> froto) option" where
  "first_half_finish timed_out ra room rq st =
     (if \<not> timed_out \<and> \<not> is_op_done st (rq_cond rq) then None
      else if is_op_done st (rq_cond rq)
      then do { (msg, st) \<leftarrow> take_message ra room st; Some (\<not> timed_out, msg, st) }
      else do { st \<leftarrow> unregister_request rq st; Some (\<not> timed_out, None, st) })"

text \<open>
  The second half: a message that is already there and fits is returned at once (\<^term>\<open>Inl\<close>); otherwise the flag is
  reset and the caller waits (\<^term>\<open>Inr\<close>).
\<close>

definition second_half_begin :: "nat \<Rightarrow> nat option \<Rightarrow> request \<Rightarrow> froto \<Rightarrow> ((bool \<times> bytes \<times> froto) + froto) option" where
  "second_half_begin ra room rq st = do {
     (msg, st) \<leftarrow> take_message ra room st;
     Some (case msg of
             Some m \<Rightarrow> Inl (True, m, st)
           | None \<Rightarrow> Inr (st\<lparr>is_op_done := (is_op_done st)(rq_cond rq := False)\<rparr>)) }"

definition second_half_finish :: "bool \<Rightarrow> bool \<Rightarrow> nat \<Rightarrow> nat option \<Rightarrow> request \<Rightarrow> froto \<Rightarrow> (bool \<times> bytes option \<times> froto) option" where
  "second_half_finish last_one timed_out ra room rq st =
     (if \<not> timed_out \<and> \<not> is_op_done st (rq_cond rq) then None
      else do {
        (msg, st) \<leftarrow> (if is_op_done st (rq_cond rq) then take_message ra room st else Some (None, st));
        st \<leftarrow> (if last_one \<or> \<not> is_op_done st (rq_cond rq) then unregister_request rq st else Some st);
        Some (\<not> timed_out, msg, st) })"

section \<open>The invariant\<close>

definition peer_count :: "ack_mem \<Rightarrow> bytes \<Rightarrow> nat list \<Rightarrow> nat" where
  "peer_count mem peer ps = length (filter (\<lambda>p. map_option pt_peer_str (mem p) = Some peer) ps)"

text \<open>
  The queue stands for the list \<^term>\<open>ps\<close> of registrations: all different, all allocated, and within the limits.
\<close>

definition froto_inv :: "froto \<Rightarrow> nat list \<Rightarrow> bool" where
  "froto_inv st ps \<longleftrightarrow> (\<exists>q. reply_ack_queue st = Some q \<and> queue_is (entries_store st, q) ps) \<and> distinct ps
     \<and> (\<forall>p \<in> set ps. acks st p \<noteq> None) \<and> length ps \<le> 40 \<and> (\<forall>peer. peer_count (acks st) peer ps \<le> 10)"

lemma froto_inv_queue:
  assumes "froto_inv st ps"
  obtains q cs where "reply_ack_queue st = Some q" "queue_rep (entries_store st) q cs" "map snd cs = ps"
  using assms by (auto simp: froto_inv_def queue_is_def)

lemma count_addr: "fold (q_match_addr mem peer) ps n = n + of_nat (peer_count mem peer ps)"
  by (induction ps arbitrary: n) (auto simp: q_match_addr_def peer_count_def split: option.splits)

lemma peer_count_le: "peer_count mem peer ps \<le> length ps"
  by (simp add: peer_count_def)

lemma peer_count_append [simp]: "peer_count mem peer (ps @ qs) = peer_count mem peer ps + peer_count mem peer qs"
  by (simp add: peer_count_def)

lemma peer_count_cong: "(\<And>p. p \<in> set ps \<Longrightarrow> map_option pt_peer_str (mem p) = map_option pt_peer_str (mem' p)) \<Longrightarrow> peer_count mem peer ps = peer_count mem' peer ps"
  unfolding peer_count_def by (metis (mono_tags, lifting) filter_cong)

lemma of_nat_u32_ge: "n \<le> 40 \<Longrightarrow> (of_nat n :: u32) \<ge> 10 \<longleftrightarrow> n \<ge> 10" "n \<le> 40 \<Longrightarrow> (of_nat n :: u32) \<ge> 40 \<longleftrightarrow> n \<ge> 40"
  by (simp_all add: word_le_nat_alt unat_of_nat)

text \<open>Registration succeeds exactly below both limits.\<close>

lemma register_spec:
  assumes "froto_inv st ps" "entries_store st new = None" "ra \<notin> set ps" "peer \<noteq> []"
  shows "\<exists>st'. registerReplyAck ra new True (Some cv) (Some peer) prim mtype chk expseq seq st =
      Some (peer_count (acks st) peer ps < 10 \<and> length ps < 40, if peer_count (acks st) peer ps < 10 \<and> length ps < 40 then Some ra else None, st')
    \<and> is_op_done st' = is_op_done st
    \<and> (if peer_count (acks st) peer ps < 10 \<and> length ps < 40
       then froto_inv st' (ps @ [ra]) \<and> acks st' = (acks st)(ra \<mapsto> new_ack cv peer prim mtype chk expseq seq)
       else froto_inv st' ps \<and> acks st' = acks st)"
proof -
  obtain q cs where q: "reply_ack_queue st = Some q" "queue_rep (entries_store st) q cs" "map snd cs = ps"
    using assms(1) by (rule froto_inv_queue)
  have l: "length ps \<le> 40" "length cs = length ps" using assms(1) q(3) by (auto simp: froto_inv_def)
  have c: "peer_count (acks st) peer ps \<le> 40" using peer_count_le [of "acks st" peer ps] l(1) by linarith
  have f: "l_queue_foreach (q_match_addr (acks st) peer) (entries_store st) (Some q) 0 = Some (of_nat (peer_count (acks st) peer ps))"
    using foreach_rep [OF q(2), of "q_match_addr (acks st) peer" 0] q(3) by (simp add: count_addr)
  have len: "l_queue_length (Some q) = of_nat (length ps)" using length_rep(1) [OF q(2)] l(2) by simp
  obtain h' q' where p: "l_queue_push_tail new ra (entries_store st) (Some q) = Some (True, h', Some q')" "queue_rep h' q' (cs @ [(new, ra)])"
    using push_tail_rep [OF q(2) rep_allocated [OF q(2) assms(2)], of ra] by blast
  have q': "queue_is (h', q') (ps @ [ra])" using p(2) q(3) by (auto simp: queue_is_def intro!: exI [of _ "cs @ [(new, ra)]"])
  let ?mem = "(acks st)(ra \<mapsto> new_ack cv peer prim mtype chk expseq seq)"
  have pc: "peer_count ?mem pr ps = peer_count (acks st) pr ps" for pr
    using assms(3) by (intro peer_count_cong) auto
  have one: "peer_count ?mem pr [ra] = (if pr = peer then 1 else 0)" for pr by (auto simp: peer_count_def new_ack_def)
  show ?thesis
    using assms q(1) l c f len p(1) q' pc one
    unfolding registerReplyAck_def froto_inv_def
    by (auto simp: of_nat_u32_ge FROTO_MAX_SINGLE_CHANNEL_CONCURRENT_NUM_REPLY_ACK_def FROTO_MAX_CONCURRENT_NUM_REPLY_ACK_def Let_def)
qed


text \<open>Removing registrations that satisfy a condition.\<close>

definition sweep :: "(reply_ack_t \<Rightarrow> bool) \<Rightarrow> nat \<Rightarrow> ack_mem \<Rightarrow> bool \<times> ack_mem" where
  "sweep P p mem = (case mem p of None \<Rightarrow> (False, mem) | Some a \<Rightarrow> if P a then (True, mem(p := None)) else (False, mem))"

definition hit :: "(reply_ack_t \<Rightarrow> bool) \<Rightarrow> ack_mem \<Rightarrow> nat \<Rightarrow> bool" where
  "hit P mem p = (case mem p of None \<Rightarrow> False | Some a \<Rightarrow> P a)"

definition same_request :: "reply_ack_t \<Rightarrow> reply_ack_t \<Rightarrow> bool" where
  "same_request b a \<longleftrightarrow> ExpMsgType a = ExpMsgType b \<and> ExpPrimitive a = ExpPrimitive b \<and> ExpSeqNo a = ExpSeqNo b \<and> SeqNo a = SeqNo b
     \<and> checkSeqNo a = checkSeqNo b \<and> pt_cond_var a = pt_cond_var b \<and> pt_peer_str a = pt_peer_str b"

lemma match_is_sweep: "q_match_reply_ack b = sweep (same_request b)"
  by (auto simp: fun_eq_iff q_match_reply_ack_def sweep_def same_request_def split: option.split)

lemma clean_is_sweep: "q_match_reply_ack_gabage_clean peer = sweep (\<lambda>a. pt_peer_str a = peer)"
  by (auto simp: fun_eq_iff q_match_reply_ack_gabage_clean_def sweep_def split: option.split)

lemma remove_sweep:
  "distinct (map snd cs) \<Longrightarrow> remove_spec (sweep P) cs mem
     = (filter (\<lambda>c. \<not> hit P mem (snd c)) cs, \<lambda>p. if p \<in> snd ` set cs \<and> hit P mem p then None else mem p)"
proof (induction cs arbitrary: mem)
  case (Cons c cs)
  have h: "hit P (mem(snd c := None)) p = hit P mem p" if "p \<in> snd ` set cs" for p
  proof -
    have "snd c \<notin> snd ` set cs" using Cons.prems by simp
    then have "p \<noteq> snd c" using that by blast
    then show ?thesis by (simp add: hit_def)
  qed
  have "remove_spec (sweep P) cs (mem(snd c := None)) = (filter (\<lambda>c. \<not> hit P mem (snd c)) cs,
      \<lambda>p. if p \<in> snd ` set cs \<and> hit P mem p then None else (mem(snd c := None)) p)"
  proof -
    have "filter (\<lambda>x. \<not> hit P (mem(snd c := None)) (snd x)) cs = filter (\<lambda>x. \<not> hit P mem (snd x)) cs"
      using h by (intro filter_cong) auto
    moreover have "(\<lambda>p. if p \<in> snd ` set cs \<and> hit P (mem(snd c := None)) p then None else (mem(snd c := None)) p)
        = (\<lambda>p. if p \<in> snd ` set cs \<and> hit P mem p then None else (mem(snd c := None)) p)"
      by (rule ext) (simp add: h cong: conj_cong del: fun_upd_apply)
    ultimately show ?thesis using Cons by (simp only: list.map distinct.simps)
  qed
  note removed = this
  have sv: "sweep P (snd c) mem = (if hit P mem (snd c) then (True, mem(snd c := None)) else (False, mem))"
    by (simp add: sweep_def hit_def split: option.split)
  have d: "distinct (map snd cs)" using Cons.prems by simp
  show ?case
  proof (cases "hit P mem (snd c)")
    case True
    then show ?thesis using removed by (auto simp: sv fun_eq_iff simp del: fun_upd_apply) auto
  next
    case False
    then show ?thesis using Cons.IH [OF d, of mem] by (auto simp: sv fun_eq_iff)
  qed
qed simp

lemma sweep_queue:
  assumes "froto_inv st ps" "reply_ack_queue st = Some q"
  shows "\<exists>n h' q'. l_queue_foreach_remove (sweep P) (entries_store st) (Some q) (acks st)
      = Some (n, h', Some q', \<lambda>p. if p \<in> set ps \<and> hit P (acks st) p then None else acks st p)
    \<and> queue_is (h', q') (filter (\<lambda>p. \<not> hit P (acks st) p) ps)"
proof -
  obtain cs where q: "queue_rep (entries_store st) q cs" "map snd cs = ps"
    using assms by (auto simp: froto_inv_def queue_is_def)
  have "distinct (map snd cs)" using assms(1) q(2) by (simp add: froto_inv_def)
  from foreach_remove_rep [OF q(1) remove_sweep [OF this]] obtain h' q' where
    "l_queue_foreach_remove (sweep P) (entries_store st) (Some q) (acks st) =
       Some (of_nat (length cs - length (filter (\<lambda>c. \<not> hit P (acks st) (snd c)) cs)), h', Some q', \<lambda>p. if p \<in> snd ` set cs \<and> hit P (acks st) p then None else acks st p)"
    "queue_rep h' q' (filter (\<lambda>c. \<not> hit P (acks st) (snd c)) cs)" by blast
  moreover have "map snd (filter (\<lambda>c. \<not> hit P (acks st) (snd c)) cs) = filter (\<lambda>p. \<not> hit P (acks st) p) ps"
    unfolding q(2) [symmetric] by (simp add: filter_map comp_def)
  moreover have "snd ` set cs = set ps" using q(2) by (metis image_set)
  ultimately show ?thesis by (auto simp: queue_is_def)
qed

text \<open>The memory and the queue after such a removal.\<close>

definition swept :: "(reply_ack_t \<Rightarrow> bool) \<Rightarrow> nat list \<Rightarrow> ack_mem \<Rightarrow> ack_mem" where
  "swept P ps mem = (\<lambda>p. if p \<in> set ps \<and> hit P mem p then None else mem p)"

lemma swept_inv:
  assumes "froto_inv st ps" "queue_is (h', q') (filter (\<lambda>p. \<not> hit P (acks st) p) ps)"
  shows "froto_inv (st\<lparr>acks := swept P ps (acks st), entries_store := h', reply_ack_queue := Some q', singleChannelConcurrentCnt := c\<rparr>)
    (filter (\<lambda>p. \<not> hit P (acks st) p) ps)"
proof -
  have "peer_count (swept P ps (acks st)) peer (filter (\<lambda>p. \<not> hit P (acks st) p) ps) = peer_count (acks st) peer (filter (\<lambda>p. \<not> hit P (acks st) p) ps)" for peer
    by (rule peer_count_cong) (simp add: swept_def)
  moreover have "peer_count m peer (filter R xs) \<le> peer_count m peer xs" for m peer R xs
    by (induction xs) (auto simp: peer_count_def)
  ultimately have "peer_count (swept P ps (acks st)) peer (filter (\<lambda>p. \<not> hit P (acks st) p) ps) \<le> 10" for peer
    using assms(1) unfolding froto_inv_def by (metis order.trans)
  moreover have "length (filter (\<lambda>p. \<not> hit P (acks st) p) ps) \<le> 40"
    using assms(1) length_filter_le [of _ ps] unfolding froto_inv_def by (metis order.trans)
  ultimately show ?thesis
    using assms unfolding froto_inv_def by (simp add: swept_def)
qed

lemma unregister_spec:
  fixes cv :: nat and prim mtype :: int and chk :: bool and expseq seq :: u32
  assumes "froto_inv st ps" "peer \<noteq> []"
  defines "P \<equiv> same_request (new_ack cv peer prim mtype chk expseq seq)"
  shows "\<exists>st'. unregisterReplyAck (Some cv) (Some peer) prim mtype chk expseq seq st = Some (True, st')
    \<and> froto_inv st' (filter (\<lambda>p. \<not> hit P (acks st) p) ps) \<and> acks st' = swept P ps (acks st) \<and> is_op_done st' = is_op_done st"
proof -
  obtain q where q: "reply_ack_queue st = Some q" using assms(1) by (auto simp: froto_inv_def)
  obtain n h' q' where r: "l_queue_foreach_remove (sweep P) (entries_store st) (Some q) (acks st) = Some (n, h', Some q', swept P ps (acks st))"
    "queue_is (h', q') (filter (\<lambda>p. \<not> hit P (acks st) p) ps)"
    using sweep_queue [OF assms(1) q, of P] unfolding swept_def by blast
  show ?thesis
    using r(1) swept_inv [OF assms(1) r(2), of 0] assms(2) q by (simp add: unregisterReplyAck_def match_is_sweep P_def [symmetric])
qed

lemma clean_spec:
  assumes "froto_inv st ps" "peer \<noteq> []"
  defines "P \<equiv> (\<lambda>a. pt_peer_str a = peer)"
  shows "\<exists>st'. app_froto_gabage_clean (Some peer) st = Some (True, st')
    \<and> froto_inv st' (filter (\<lambda>p. \<not> hit P (acks st) p) ps) \<and> acks st' = swept P ps (acks st)"
proof -
  obtain q where q: "reply_ack_queue st = Some q" using assms(1) by (auto simp: froto_inv_def)
  obtain n h' q' where r: "l_queue_foreach_remove (sweep P) (entries_store st) (Some q) (acks st) = Some (n, h', Some q', swept P ps (acks st))"
    "queue_is (h', q') (filter (\<lambda>p. \<not> hit P (acks st) p) ps)"
    using sweep_queue [OF assms(1) q, of P] unfolding swept_def by blast
  show ?thesis
    using r(1) swept_inv [OF assms(1) r(2), of 0] assms(2) q by (simp add: app_froto_gabage_clean_def clean_is_sweep P_def [symmetric])
qed


text \<open>Searching: what a message matches, and what the search leaves as it was.\<close>

definition matches :: "reply_ack_t \<Rightarrow> reply_ack_t \<Rightarrow> bool" where
  "matches ptb a \<longleftrightarrow> ExpMsgType a = ExpMsgType ptb \<and> ExpPrimitive a = ExpPrimitive ptb \<and> pt_peer_str a = pt_peer_str ptb
     \<and> (if checkSeqNo a then ExpSeqNo a = ExpSeqNo ptb else SeqNo a \<in> set (take (replyAckLen ptb) (replyAck ptb)))"

definition strip :: "reply_ack_t \<Rightarrow> reply_ack_t" where
  "strip a = a\<lparr>ExpLongPktId := 0, totalBlock := 0, currentBlock := 0\<rparr>"

definition same_acks :: "ack_mem \<Rightarrow> ack_mem \<Rightarrow> bool" where
  "same_acks mem mem' \<longleftrightarrow> (\<forall>p. map_option strip (mem' p) = map_option strip (mem p))"

lemma strip_update [simp]: "strip (update_blocks b a) = strip a" "strip (a\<lparr>ExpLongPktId := l\<rparr>) = strip a"
  by (simp_all add: strip_def update_blocks_def)

lemma strip_fields: "strip a = strip b \<Longrightarrow> pt_peer_str a = pt_peer_str b \<and> matches ptb a = matches ptb b \<and> replyMsgQueue a = replyMsgQueue b
   \<and> pt_cond_var a = pt_cond_var b \<and> checkSeqNo a = checkSeqNo b"
  by (cases a; cases b) (simp add: strip_def matches_def)

lemma same_acks_trans: "same_acks m m' \<Longrightarrow> same_acks m' m'' \<Longrightarrow> same_acks m m''"
  by (simp add: same_acks_def)

lemma same_acks_refl [simp]: "same_acks m m"
  by (simp add: same_acks_def)

lemma same_acks_upd: "m p = Some a \<Longrightarrow> strip a' = strip a \<Longrightarrow> same_acks m (m(p \<mapsto> a'))"
  by (simp add: same_acks_def)

lemma same_acks_at: "same_acks m m' \<Longrightarrow> m p = Some a \<Longrightarrow> \<exists>a'. m' p = Some a' \<and> strip a' = strip a"
  by (auto simp: same_acks_def dest!: spec [of _ p])

lemma same_acks_hit: "same_acks m m' \<Longrightarrow> hit (matches ptb) m' p = hit (matches ptb) m p"
  by (auto simp: same_acks_def hit_def split: option.splits dest!: spec [of _ p] dest: strip_fields)

lemma same_acks_peer: "same_acks m m' \<Longrightarrow> map_option pt_peer_str (m' p) = map_option pt_peer_str (m p)"
  by (cases "m p"; cases "m' p") (auto simp: same_acks_def dest!: spec [of _ p] dest: strip_fields)

lemma find_acked_spec: "i + n \<le> length xs \<Longrightarrow> find_acked i n xs s = None \<longleftrightarrow> s \<notin> set (take n (drop i xs))"
proof (induction i n xs s rule: find_acked.induct)
  case (2 i n xs s)
  have "drop i xs = xs ! i # drop (Suc i) xs" using 2(2) by (simp add: Cons_nth_drop_Suc)
  then show ?case using 2 by auto
qed simp

lemma match_step:
  assumes "q_match_reply_ack_except_cond_var p (mem, ptb) = (b, mem', ptb')" "replyAckLen ptb \<le> length (replyAck ptb)"
  shows "b = hit (matches ptb) mem p" "same_acks mem mem'" "\<not> b \<or> map_option checkSeqNo (mem p) = Some True \<Longrightarrow> ptb' = ptb"
proof -
  have f: "find_acked 0 (replyAckLen ptb) (replyAck ptb) s = None \<longleftrightarrow> s \<notin> set (take (replyAckLen ptb) (replyAck ptb))" for s
    using find_acked_spec [of 0 "replyAckLen ptb" "replyAck ptb" s] assms(2) by simp
  have f2: "s \<in> set (take (replyAckLen ptb) (replyAck ptb))" if "find_acked 0 (replyAckLen ptb) (replyAck ptb) s = Some i" for s i
    using that f [of s] by simp
  show "b = hit (matches ptb) mem p"
    using assms(1) f by (auto intro: f2 simp: q_match_reply_ack_except_cond_var_def hit_def matches_def Let_def split: option.splits if_splits)
  show "same_acks mem mem'"
    using assms(1) by (auto simp: q_match_reply_ack_except_cond_var_def Let_def same_acks_upd split: option.splits if_splits)
  show "ptb' = ptb" if "\<not> b \<or> map_option checkSeqNo (mem p) = Some True"
    using assms(1) that by (auto simp: q_match_reply_ack_except_cond_var_def Let_def split: option.splits if_splits)
qed

lemma find_first:
  assumes "find_spec q_match_reply_ack_except_cond_var ps (mem, ptb) = (found, mem', ptb')" "replyAckLen ptb \<le> length (replyAck ptb)"
  shows "found = List.find (hit (matches ptb) mem) ps \<and> same_acks mem mem'
    \<and> (\<forall>p. found = Some p \<longrightarrow> map_option checkSeqNo (mem p) = Some True \<longrightarrow> ptb' = ptb)"
  using assms
proof (induction ps arbitrary: mem)
  case (Cons p ps)
  obtain b mem1 ptb1 where m: "q_match_reply_ack_except_cond_var p (mem, ptb) = (b, mem1, ptb1)" using prod_cases3 by blast
  note s = match_step [OF m Cons.prems(2)]
  show ?case
  proof (cases b)
    case True
    then show ?thesis using Cons.prems(1) m s by auto
  next
    case False
    then have "find_spec q_match_reply_ack_except_cond_var ps (mem1, ptb) = (found, mem', ptb')" using Cons.prems(1) m s(3) by simp
    note IH = Cons.IH [OF this Cons.prems(2)]
    have "hit (matches ptb) mem1 = hit (matches ptb) mem" using same_acks_hit [OF s(2)] by (simp add: fun_eq_iff)
    moreover have "map_option checkSeqNo (mem1 x) = map_option checkSeqNo (mem x)" for x
      using s(2) by (cases "mem x"; cases "mem1 x") (auto simp: same_acks_def dest!: spec [of _ x] dest: strip_fields)
    ultimately show ?thesis using IH False s(1) same_acks_trans [OF s(2)] by auto
  qed
qed simp

lemma same_acks_inv:
  assumes "froto_inv st ps" "same_acks (acks st) mem"
  shows "froto_inv (st\<lparr>acks := mem, singleChannelConcurrentCnt := c\<rparr>) ps"
proof -
  have "peer_count mem peer ps = peer_count (acks st) peer ps" for peer
    by (rule peer_count_cong) (simp add: same_acks_peer [OF assms(2)])
  moreover have "mem p \<noteq> None" if "acks st p \<noteq> None" for p
    using that same_acks_at [OF assms(2)] by auto
  ultimately show ?thesis using assms(1) by (simp add: froto_inv_def)
qed

lemma search_spec:
  assumes "froto_inv st ps" "replyAckLen ptb \<le> length (replyAck ptb)"
  shows "\<exists>ptb' st'. froto_search ptb st = Some (List.find (hit (matches ptb) (acks st)) ps, ptb', st')
    \<and> froto_inv st' ps \<and> same_acks (acks st) (acks st') \<and> is_op_done st' = is_op_done st
    \<and> (\<forall>p. List.find (hit (matches ptb) (acks st)) ps = Some p \<longrightarrow> map_option checkSeqNo (acks st p) = Some True \<longrightarrow> ptb' = ptb)"
proof -
  obtain q cs where q: "reply_ack_queue st = Some q" "queue_rep (entries_store st) q cs" "map snd cs = ps"
    using assms(1) by (rule froto_inv_queue)
  obtain found mem' ptb' where f: "find_spec q_match_reply_ack_except_cond_var ps (acks st, ptb) = (found, mem', ptb')" using prod_cases3 by blast
  note s = find_first [OF f assms(2)]
  have "froto_search ptb st = Some (found, ptb', st\<lparr>acks := mem', singleChannelConcurrentCnt := 0\<rparr>)"
    using find_rep [OF q(2), of q_match_reply_ack_except_cond_var "(acks st, ptb)"] f q(1,3) by (simp add: froto_search_def)
  then show ?thesis using s same_acks_inv [OF assms(1), of mem' 0] by auto
qed


text \<open>Delivery: the message and the signal go to the registration that was found.\<close>

lemma deliver_again_spec:
  assumes "froto_inv st ps" "replyAckLen ptb \<le> length (replyAck ptb)"
  shows "\<exists>ptb' st'. froto_deliver_again lock_ok ptb st = Some (List.find (hit (matches ptb) (acks st)) ps, ptb', st')
    \<and> froto_inv st' ps \<and> same_acks (acks st) (acks st')
    \<and> (\<forall>p. List.find (hit (matches ptb) (acks st)) ps = Some p \<longrightarrow> map_option checkSeqNo (acks st p) = Some True \<longrightarrow> ptb' = ptb)"
proof -
  obtain ptb' st' where s: "froto_search ptb st = Some (List.find (hit (matches ptb) (acks st)) ps, ptb', st')" "froto_inv st' ps"
    "same_acks (acks st) (acks st')"
    "\<forall>p. List.find (hit (matches ptb) (acks st)) ps = Some p \<longrightarrow> map_option checkSeqNo (acks st p) = Some True \<longrightarrow> ptb' = ptb"
    using search_spec [OF assms] by blast
  show ?thesis
  proof (cases "List.find (hit (matches ptb) (acks st)) ps")
    case None
    then show ?thesis using s by (simp add: froto_deliver_again_def)
  next
    case (Some p)
    then obtain a where "acks st p = Some a" by (auto simp: find_Some_iff hit_def split: option.splits)
    then obtain a' where "acks st' p = Some a'" using same_acks_at [OF s(3)] by blast
    then show ?thesis using s Some by (auto simp: froto_deliver_again_def froto_signal_def froto_inv_def)
  qed
qed

lemma deliver_first_spec:
  assumes "froto_inv st ps" "replyAckLen ptb \<le> length (replyAck ptb)"
  shows "\<exists>ptb' st'. froto_deliver_first lock_ok ptb msg st = Some (List.find (hit (matches ptb) (acks st)) ps, ptb', st')
    \<and> froto_inv st' ps
    \<and> (\<forall>p. map_option replyMsgQueue (acks st' p) = map_option (\<lambda>a. if List.find (hit (matches ptb) (acks st)) ps = Some p
         then replyMsgQueue a @ [msg] else replyMsgQueue a) (acks st p))
    \<and> (\<forall>p a. List.find (hit (matches ptb) (acks st)) ps = Some p \<longrightarrow> acks st p = Some a \<longrightarrow> lock_ok \<longrightarrow> is_op_done st' (pt_cond_var a))"
proof -
  obtain ptb' st' where s: "froto_search ptb st = Some (List.find (hit (matches ptb) (acks st)) ps, ptb', st')" "froto_inv st' ps"
    "same_acks (acks st) (acks st')" "is_op_done st' = is_op_done st"
    using search_spec [OF assms] by blast
  have m: "map_option replyMsgQueue (acks st' p) = map_option replyMsgQueue (acks st p)" for p
    using s(3) by (cases "acks st p"; cases "acks st' p") (auto simp: same_acks_def dest!: spec [of _ p] dest: strip_fields)
  show ?thesis
  proof (cases "List.find (hit (matches ptb) (acks st)) ps")
    case None
    then show ?thesis using s m by (simp add: froto_deliver_first_def)
  next
    case (Some p)
    then obtain a where a: "acks st p = Some a" by (auto simp: find_Some_iff hit_def split: option.splits)
    then obtain a' where a': "acks st' p = Some a'" "strip a' = strip a" using same_acks_at [OF s(3)] by blast
    have k: "pt_cond_var a' = pt_cond_var a" "replyMsgQueue a' = replyMsgQueue a" using strip_fields [OF a'(2)] by auto
    let ?mem = "(acks st')(p \<mapsto> a'\<lparr>replyMsgQueue := replyMsgQueue a' @ [msg]\<rparr>)"
    have "peer_count ?mem peer ps = peer_count (acks st') peer ps" for peer by (rule peer_count_cong) (simp add: a'(1))
    then have inv: "froto_inv (st'\<lparr>acks := ?mem, is_op_done := d\<rparr>) ps" "froto_inv (st'\<lparr>acks := ?mem\<rparr>) ps" for d
      using s(2) by (auto simp: froto_inv_def)
    show ?thesis
      using s(1) Some a a' k inv m
      by (cases lock_ok) (auto simp: froto_deliver_first_def froto_signal_def)
  qed
qed

lemma take_message_inv:
  assumes "froto_inv st ps" "acks st ra = Some a"
  shows "\<exists>st'. take_message ra room st = Some (case replyMsgQueue a of [] \<Rightarrow> None | m # ms \<Rightarrow> (case room of None \<Rightarrow> None | Some n \<Rightarrow> if length m \<le> n then Some m else None), st')
    \<and> froto_inv st' ps \<and> reply_ack_queue st' = reply_ack_queue st \<and> entries_store st' = entries_store st \<and> is_op_done st' = is_op_done st
    \<and> acks st' = (acks st)(ra \<mapsto> a\<lparr>replyMsgQueue := tl (replyMsgQueue a)\<rparr>)"
proof (cases "replyMsgQueue a")
  case Nil
  moreover have "a\<lparr>replyMsgQueue := []\<rparr> = a" using Nil by simp
  ultimately show ?thesis using assms by (auto simp: take_message_def fun_upd_idem)
next
  case (Cons m ms)
  let ?mem = "(acks st)(ra \<mapsto> a\<lparr>replyMsgQueue := ms\<rparr>)"
  have "peer_count ?mem peer ps = peer_count (acks st) peer ps" for peer by (rule peer_count_cong) (simp add: assms(2))
  then have "froto_inv (st\<lparr>acks := ?mem\<rparr>) ps" using assms by (auto simp: froto_inv_def)
  then show ?thesis using assms Cons by (simp add: take_message_def)
qed

section \<open>The system\<close>

text \<open>
  Every step takes the mutex once: threads register and unregister, read their messages and reset their flags,
  connections are cleaned up, and the receiver delivers.  New objects are put at free addresses.
\<close>

inductive froto_step :: "froto \<Rightarrow> froto \<Rightarrow> bool" where
  register: "entries_store st new = None \<Longrightarrow> acks st ra = None \<Longrightarrow>
    registerReplyAck ra new mtx_ok cond peer prim mtype chk expseq seq st = Some (ok, reg, st') \<Longrightarrow> froto_step st st'"
| unregister: "unregisterReplyAck cond peer prim mtype chk expseq seq st = Some (ok, st') \<Longrightarrow> froto_step st st'"
| clean: "app_froto_gabage_clean peer st = Some (ok, st') \<Longrightarrow> froto_step st st'"
| deliver: "replyAckLen ptb \<le> length (replyAck ptb) \<Longrightarrow> froto_deliver_first lock_ok ptb msg st = Some (found, ptb', st') \<Longrightarrow> froto_step st st'"
| again: "replyAckLen ptb \<le> length (replyAck ptb) \<Longrightarrow> froto_deliver_again lock_ok ptb st = Some (found, ptb', st') \<Longrightarrow> froto_step st st'"
| "take": "take_message ra room st = Some (msg, st') \<Longrightarrow> froto_step st st'"
| flag: "froto_step st (st\<lparr>is_op_done := (is_op_done st)(cv := v)\<rparr>)"

lemma register_inv:
  assumes "froto_inv st ps" "entries_store st new = None" "acks st ra = None"
    "registerReplyAck ra new mtx_ok cond peer prim mtype chk expseq seq st = Some (ok, reg, st')"
  shows "\<exists>ps'. froto_inv st' ps'"
proof (cases "cond = None \<or> peer = None \<or> peer = Some []")
  case True
  then have "st' = st" using assms(4) by (auto simp: registerReplyAck_def split: option.splits)
  then show ?thesis using assms(1) by blast
next
  case False
  then obtain cv str where c: "cond = Some cv" "peer = Some str" "str \<noteq> []" by auto
  have ra: "ra \<notin> set ps" using assms(1,3) by (auto simp: froto_inv_def)
  show ?thesis
  proof (cases mtx_ok)
    case True
    then show ?thesis
      using register_spec [OF assms(1,2) ra c(3), of cv prim mtype chk expseq seq] assms(4) c by (auto split: if_splits)
  next
    case False
    let ?mem = "(acks st)(ra \<mapsto> new_ack cv str prim mtype chk expseq seq)"
    have "peer_count ?mem pr ps = peer_count (acks st) pr ps" for pr using ra by (intro peer_count_cong) auto
    then have "froto_inv (st\<lparr>acks := ?mem\<rparr>) ps" using assms(1) ra by (auto simp: froto_inv_def)
    then show ?thesis using assms(4) c False by (auto simp: registerReplyAck_def)
  qed
qed

lemma froto_step_inv: "froto_step st st' \<Longrightarrow> froto_inv st ps \<Longrightarrow> \<exists>ps'. froto_inv st' ps'"
proof (induction rule: froto_step.induct)
  case (register st new ra mtx_ok cond peer prim mtype chk expseq seq ok reg st')
  then show ?case using register_inv by blast
next
  case (unregister cond peer prim mtype chk expseq seq st ok st')
  show ?case
  proof (cases "cond = None \<or> peer = None \<or> peer = Some []")
    case True
    then have "st' = st" using unregister(1) by (auto simp: unregisterReplyAck_def split: option.splits)
    then show ?thesis using unregister(2) by blast
  next
    case False
    then obtain cv str where c: "cond = Some cv" "peer = Some str" "str \<noteq> []" by auto
    then show ?thesis
      using unregister_spec [OF unregister(2) c(3), of cv prim mtype chk expseq seq] unregister(1) by auto
  qed
next
  case (clean peer st ok st')
  show ?case
  proof (cases "peer = None \<or> peer = Some []")
    case True
    then have "st' = st" using clean(1) by (auto simp: app_froto_gabage_clean_def)
    then show ?thesis using clean(2) by blast
  next
    case False
    then obtain str where c: "peer = Some str" "str \<noteq> []" by auto
    then show ?thesis using clean_spec [OF clean(2) c(2)] clean(1) by auto
  qed
next
  case (deliver ptb lock_ok msg st found ptb' st')
  then show ?case using deliver_first_spec [OF deliver(3,1), of lock_ok msg] by auto
next
  case (again ptb lock_ok st found ptb' st')
  then show ?case using deliver_again_spec [OF again(3,1), of lock_ok] by auto
next
  case (take ra room st msg st')
  then obtain a where a: "acks st ra = Some a" by (auto simp: take_message_def split: bind_splits)
  then show ?case using take_message_inv [OF take(2) a, of room] take(1) by auto
next
  case (flag st cv v)
  then show ?case by (auto simp: froto_inv_def)
qed


lemma froto_init_inv: "app_froto_n_init True st = (ok, st') \<Longrightarrow> froto_inv st' []"
  by (auto simp: app_froto_n_init_def froto_inv_def queue_is_def queue_rep_new peer_count_def)

lemma froto_reach_inv: "froto_step\<^sup>*\<^sup>* st st' \<Longrightarrow> froto_inv st ps \<Longrightarrow> \<exists>ps'. froto_inv st' ps'"
proof (induction rule: rtranclp_induct)
  case (step y z)
  then show ?case using froto_step_inv by blast
qed blast

definition request_key :: "request \<Rightarrow> reply_ack_t" where
  "request_key rq = new_ack (rq_cond rq) (rq_peer rq) (rq_primitive rq) (rq_type rq) (rq_check rq) (rq_expseq rq) (rq_seq rq)"

lemma unregister_own:
  assumes "froto_inv st ps" "rq_peer rq \<noteq> []" "ra \<in> set ps" "\<And>p. p \<in> set ps \<Longrightarrow> hit (same_request (request_key rq)) (acks st) p \<longleftrightarrow> p = ra"
  shows "\<exists>st'. unregister_request rq st = Some st' \<and> froto_inv st' (remove1 ra ps) \<and> acks st' = (acks st)(ra := None) \<and> is_op_done st' = is_op_done st"
proof -
  let ?P = "same_request (request_key rq)"
  have "filter (\<lambda>p. \<not> hit ?P (acks st) p) ps = filter (\<lambda>p. ra \<noteq> p) ps" using assms(4) by (intro filter_cong) auto
  also have "\<dots> = remove1 ra ps" using assms(1) by (simp add: froto_inv_def distinct_remove1_removeAll removeAll_filter_not_eq)
  finally have f: "filter (\<lambda>p. \<not> hit ?P (acks st) p) ps = remove1 ra ps" .
  have "swept ?P ps (acks st) = (acks st)(ra := None)" using assms(3,4) by (auto simp: swept_def fun_eq_iff)
  then show ?thesis
    using unregister_spec [OF assms(1,2), of "rq_cond rq" "rq_primitive rq" "rq_type rq" "rq_check rq" "rq_expseq rq" "rq_seq rq"] f
    by (auto simp: unregister_request_def request_key_def)
qed

lemma hit_same_request_upd:
  "acks st ra = Some a \<Longrightarrow> hit (same_request k) ((acks st)(ra \<mapsto> a\<lparr>replyMsgQueue := ms\<rparr>)) p = hit (same_request k) (acks st) p"
  by (auto simp: hit_def same_request_def)

text \<open>A state with one registration, for the examples.\<close>

definition sample_request :: request where
  "sample_request = \<lparr>rq_cond = 7, rq_peer = [1, 2], rq_primitive = 3, rq_type = 4, rq_check = True, rq_expseq = 9, rq_seq = 8\<rparr>"

definition sample_froto :: froto where
  "sample_froto = \<lparr>acks = [100 \<mapsto> (request_key sample_request)\<lparr>replyMsgQueue := [[5, 6]]\<rparr>], entries_store = [200 \<mapsto> \<lparr>entry_data = 100, entry_next = None\<rparr>],
     reply_ack_queue = Some \<lparr>head = Some 200, tail = Some 200, entries = 1\<rparr>, is_op_done = (\<lambda>_. True), singleChannelConcurrentCnt = 0\<rparr>"

lemma sample_froto_inv: "froto_inv sample_froto [100]"
proof -
  have "peer_count m peer [100] \<le> 10" for m peer using peer_count_le [of m peer "[100]"] by simp
  moreover have "queue_is (entries_store sample_froto, \<lparr>head = Some 200, tail = Some 200, entries = 1\<rparr>) [100]"
    by (auto simp: queue_is_def queue_rep_def sample_froto_def last_ptr_def intro!: exI [of _ "[(200, 100)]"])
  ultimately show ?thesis by (simp add: froto_inv_def sample_froto_def)
qed

section \<open>Properties\<close>

text \<open>
  C24: The registrations stay well-formed and bounded.  From initialisation on, whatever the threads do, the linked queue
  holds different registrations that are all allocated, at most 40 in total and at most 10 for any peer; a
  registration is freed only when it leaves the queue.
\<close>

theorem froto_registrations_bounded:
  assumes "app_froto_n_init True st0 = (ok, st1)" "froto_step\<^sup>*\<^sup>* st1 st"
  shows "\<exists>q ps. reply_ack_queue st = Some q \<and> queue_is (entries_store st, q) ps \<and> distinct ps
    \<and> (\<forall>p \<in> set ps. acks st p \<noteq> None) \<and> length ps \<le> 40 \<and> (\<forall>peer. peer_count (acks st) peer ps \<le> 10)"
proof -
  obtain ps where "froto_inv st ps" using froto_reach_inv [OF assms(2) froto_init_inv [OF assms(1)]] by blast
  then show ?thesis unfolding froto_inv_def by blast
qed

definition no_froto :: froto where
  "no_froto = \<lparr>acks = Map.empty, entries_store = Map.empty, reply_ack_queue = None, is_op_done = (\<lambda>_. False), singleChannelConcurrentCnt = 0\<rparr>"

theorem froto_registrations_bounded_witness:
  "\<exists>q ps. reply_ack_queue (snd (app_froto_n_init True no_froto)) = Some q
    \<and> queue_is (entries_store (snd (app_froto_n_init True no_froto)), q) ps \<and> length ps \<le> 40"
  using froto_registrations_bounded [of no_froto True "snd (app_froto_n_init True no_froto)" "snd (app_froto_n_init True no_froto)"]
  by (auto simp: app_froto_n_init_def)

text \<open>
  A message goes to the first registration that matches it.  The receiver appends the message to the queue of the
  oldest registration with the peer, primitive and type of the message and with its sequence number or, if the registration does not check
  it, with a request that the message acknowledges; it changes no other queue of messages and keeps all registrations.  If
  the mutex of the condition variable is free, the waiting thread is signalled.
\<close>

theorem froto_message_to_first_match:
  assumes "froto_inv st ps" "replyAckLen ptb \<le> length (replyAck ptb)"
  shows "\<exists>ptb' st'. froto_deliver_first lock_ok ptb msg st = Some (List.find (hit (matches ptb) (acks st)) ps, ptb', st')
    \<and> froto_inv st' ps
    \<and> (\<forall>p. map_option replyMsgQueue (acks st' p) = map_option (\<lambda>a. if List.find (hit (matches ptb) (acks st)) ps = Some p
         then replyMsgQueue a @ [msg] else replyMsgQueue a) (acks st p))
    \<and> (\<forall>p a. List.find (hit (matches ptb) (acks st)) ps = Some p \<longrightarrow> acks st p = Some a \<longrightarrow> lock_ok \<longrightarrow> is_op_done st' (pt_cond_var a))"
  by (rule deliver_first_spec [OF assms])

theorem froto_message_to_first_match_witness:
  "\<exists>ptb' st'. froto_deliver_first True ((request_key sample_request)\<lparr>ExpSeqNo := 9\<rparr>) [1] sample_froto = Some (Some 100, ptb', st')
     \<and> froto_inv st' [100] \<and> map_option replyMsgQueue (acks st' 100) = Some [[5, 6], [1]]"
proof -
  let ?m = "(request_key sample_request)\<lparr>ExpSeqNo := 9\<rparr>"
  have f: "List.find (hit (matches ?m) (acks sample_froto)) [100] = Some 100"
    by (simp add: hit_def matches_def sample_froto_def request_key_def sample_request_def new_ack_def)
  have "replyAckLen ?m \<le> length (replyAck ?m)" by (simp add: request_key_def new_ack_def)
  from froto_message_to_first_match [OF sample_froto_inv this, of True "[1]"] obtain ptb' st' where
    d: "froto_deliver_first True ?m [1] sample_froto = Some (Some 100, ptb', st')" "froto_inv st' [100]"
    and q: "\<And>p. map_option replyMsgQueue (acks st' p) = map_option (\<lambda>a. if Some 100 = Some p then replyMsgQueue a @ [[1]] else replyMsgQueue a) (acks sample_froto p)"
    unfolding f by blast
  have "map_option replyMsgQueue (acks st' 100) = Some [[5, 6], [1]]" using q [of 100] by (simp add: sample_froto_def)
  then show ?thesis using d by blast
qed

text \<open>
  When the wait is over, the call removes and frees its own registration, whatever it returns.
\<close>

lemma send_with_reply_end:
  assumes "froto_inv st ps" "rq_peer rq \<noteq> []" "ra \<in> set ps" "acks st ra = Some a"
    "\<And>p. p \<in> set ps \<Longrightarrow> hit (same_request (request_key rq)) (acks st) p \<longleftrightarrow> p = ra"
    "timed_out \<or> is_op_done st (rq_cond rq)"
  shows "\<exists>st'. send_with_reply_finish timed_out ra (Some n) rq st =
      Some (\<not> timed_out, (case replyMsgQueue a of [m] \<Rightarrow> if is_op_done st (rq_cond rq) \<and> length m \<le> n then Some m else None | _ \<Rightarrow> None), st')
    \<and> froto_inv st' (remove1 ra ps) \<and> acks st' ra = None \<and> (\<forall>p. p \<noteq> ra \<longrightarrow> acks st' p = acks st p)"
proof (cases "is_op_done st (rq_cond rq) \<and> length (replyMsgQueue a) = 1")
  case True
  then obtain m where m: "replyMsgQueue a = [m]" by (cases "replyMsgQueue a") auto
  obtain st1 where st1: "take_message ra (Some n) st = Some (if length m \<le> n then Some m else None, st1)" "froto_inv st1 ps"
    "acks st1 = (acks st)(ra \<mapsto> a\<lparr>replyMsgQueue := []\<rparr>)"
    using take_message_inv [OF assms(1,4), of "Some n"] m by auto
  obtain st2 where "unregister_request rq st1 = Some st2" "froto_inv st2 (remove1 ra ps)" "acks st2 = (acks st1)(ra := None)"
    using unregister_own [OF st1(2) assms(2,3)] assms(5) hit_same_request_upd [OF assms(4)] st1(3) by auto
  then show ?thesis using st1 True m assms(4) by (auto simp: send_with_reply_finish_def)
next
  case False
  obtain st2 where u: "unregister_request rq st = Some st2" "froto_inv st2 (remove1 ra ps)" "acks st2 = (acks st)(ra := None)"
    using unregister_own [OF assms(1,2,3,5)] by auto
  have r: "(case replyMsgQueue a of [m] \<Rightarrow> if is_op_done st (rq_cond rq) \<and> length m \<le> n then Some m else None | _ \<Rightarrow> None) = None"
    using False by (auto split: list.splits)
  show ?thesis unfolding r using u False assms(4,6) by (auto simp: send_with_reply_finish_def)
qed

text \<open>
  C37: Sending with one reply leaves no registration behind.  When the wait is over, by a reply or by the time limit, the call removes
  and frees its own registration and no other, provided that no second one waits for the same reply on the same condition
  variable.  If at most one message came and it fits the buffer, the result is true unless the time was over, and the message is returned
  if it was signalled.
\<close>

theorem send_with_reply_cleans_up:
  assumes "froto_inv st ps" "rq_peer rq \<noteq> []" "ra \<in> set ps" "acks st ra = Some a"
    "\<And>p. p \<in> set ps \<Longrightarrow> hit (same_request (request_key rq)) (acks st) p \<longleftrightarrow> p = ra"
    "timed_out \<or> is_op_done st (rq_cond rq)" "replyMsgQueue a = [] \<or> (\<exists>m. replyMsgQueue a = [m] \<and> length m \<le> n)"
  shows "\<exists>st'. send_with_reply_finish timed_out ra (Some n) rq st =
      Some (\<not> timed_out, (if is_op_done st (rq_cond rq) \<and> replyMsgQueue a \<noteq> [] then Some (hd (replyMsgQueue a)) else None), st')
    \<and> froto_inv st' (remove1 ra ps) \<and> acks st' ra = None \<and> (\<forall>p. p \<noteq> ra \<longrightarrow> acks st' p = acks st p)"
  using send_with_reply_end [OF assms(1-6), of n] assms(7) by auto

theorem send_with_reply_cleans_up_witness:
  "\<exists>st'. send_with_reply_finish False 100 (Some 10) sample_request sample_froto = Some (True, Some [5, 6], st') \<and> froto_inv st' [] \<and> acks st' 100 = None"
proof -
  have h: "hit (same_request (request_key sample_request)) (acks sample_froto) p \<longleftrightarrow> p = 100" for p
    by (simp add: hit_def same_request_def sample_froto_def)
  have a: "acks sample_froto 100 = Some ((request_key sample_request)\<lparr>replyMsgQueue := [[5, 6]]\<rparr>)" by (simp add: sample_froto_def)
  have "rq_peer sample_request \<noteq> []" "is_op_done sample_froto (rq_cond sample_request)" by (simp_all add: sample_request_def sample_froto_def)
  then show ?thesis
    using send_with_reply_cleans_up [OF sample_froto_inv _ _ a h, of False 10] by auto
qed

text \<open>
  A reply that is longer than the buffer is lost without an error: the routine returns true with no message, where its comment promises
  false.
\<close>

lemma long_reply_returns_true:
  assumes "froto_inv st ps" "rq_peer rq \<noteq> []" "ra \<in> set ps" "acks st ra = Some a"
    "\<And>p. p \<in> set ps \<Longrightarrow> hit (same_request (request_key rq)) (acks st) p \<longleftrightarrow> p = ra"
    "is_op_done st (rq_cond rq)" "replyMsgQueue a = [m]" "n < length m"
  shows "\<exists>st'. send_with_reply_finish False ra (Some n) rq st = Some (True, None, st')"
  using send_with_reply_end [OF assms(1-5), of False n] assms(6-8) by auto


text \<open>
  A last reply that is already there leaves its registration behind.  When the second half of sending with several replies finds
  a message that fits, it returns at once; the registration stays, even if the caller said that this is the last one, and
  counts against the limits until the connection is cleaned up.
\<close>

theorem second_half_keeps_registration:
  assumes "froto_inv st ps" "ra \<in> set ps" "acks st ra = Some a" "replyMsgQueue a = m # ms" "length m \<le> n"
  shows "\<exists>st'. second_half_begin ra (Some n) rq st = Some (Inl (True, m, st')) \<and> froto_inv st' ps
    \<and> peer_count (acks st') peer ps = peer_count (acks st) peer ps"
proof -
  obtain st' where "take_message ra (Some n) st = Some (Some m, st')" "froto_inv st' ps" "acks st' = (acks st)(ra \<mapsto> a\<lparr>replyMsgQueue := ms\<rparr>)"
    using take_message_inv [OF assms(1,3), of "Some n"] assms(4,5) by auto
  moreover from this(3) have "peer_count (acks st') peer ps = peer_count (acks st) peer ps"
    using assms(3) by (intro peer_count_cong) auto
  ultimately show ?thesis by (simp add: second_half_begin_def)
qed

theorem second_half_keeps_registration_witness:
  "\<exists>st'. second_half_begin 100 (Some 2) sample_request sample_froto = Some (Inl (True, [5, 6], st')) \<and> froto_inv st' [100]"
  using second_half_keeps_registration [OF sample_froto_inv, of 100 "(request_key sample_request)\<lparr>replyMsgQueue := [[5, 6]]\<rparr>" "[5, 6]" "[]" 2 sample_request "[]"]
  by (auto simp: sample_froto_def)

text \<open>
  Removing an acknowledged number moves a count of bytes where it should move a count of numbers: of the numbers behind the removed one, only the first
  few bytes move up.  After removing the first of three, the last one is beyond the new length and is never matched.
\<close>

lemma from_to_le32: "from_le32 (to_le32 w @ bs) = w # from_le32 bs"
proof -
  have "ucast (ucast w :: u8) OR push_bit 8 (ucast (ucast (drop_bit 8 w) :: u8)) OR push_bit 16 (ucast (ucast (drop_bit 16 w) :: u8))
     OR push_bit 24 (ucast (ucast (drop_bit 24 w) :: u8)) = w" (is "?l = w")
  proof (rule bit_word_eqI)
    fix n :: nat assume "n < LENGTH(32)"
    then consider "n < 8" | "8 \<le> n \<and> n < 16" | "16 \<le> n \<and> n < 24" | "24 \<le> n \<and> n < 32" by fastforce
    then show "bit ?l n = bit w n"
      by cases (auto simp: bit_simps)
  qed
  then show ?thesis by (simp add: to_le32_def)
qed

lemma drop_acked_loses_last: "\<exists>x. drop_acked 0 3 [a, b, c] = [x, b, c]"
proof -
  have s: "take 2 (to_le32 b) @ drop 2 (to_le32 a) = [ucast b, ucast (drop_bit 8 b), ucast (drop_bit 16 a), ucast (drop_bit 24 a)]"
    by (simp add: to_le32_def)
  have m: "memmove 0 4 2 (to_le32 a @ to_le32 b @ to_le32 c) = (take 2 (to_le32 b) @ drop 2 (to_le32 a)) @ to_le32 b @ to_le32 c @ []"
    by (simp add: memmove_def to_le32_def)
  have "from_le32 (memmove 0 4 2 (to_le32 a @ to_le32 b @ to_le32 c)) =
      (ucast (ucast b :: u8) OR push_bit 8 (ucast (ucast (drop_bit 8 b) :: u8)) OR push_bit 16 (ucast (ucast (drop_bit 16 a) :: u8))
        OR push_bit 24 (ucast (ucast (drop_bit 24 a) :: u8))) # from_le32 (to_le32 b @ to_le32 c @ [])"
    unfolding m s by simp
  then show ?thesis using from_to_le32 [of b "to_le32 c"] from_to_le32 [of c "[]"] by (simp add: drop_acked_def)
qed

text \<open>
  The receiver repeats its search until nothing is found.  A registration that checks the sequence number is found again every time, so that the
  loop goes on until the waiting thread has unregistered.
\<close>

lemma deliver_again_repeats:
  assumes "froto_inv st ps" "replyAckLen ptb \<le> length (replyAck ptb)" "List.find (hit (matches ptb) (acks st)) ps = Some p"
    "map_option checkSeqNo (acks st p) = Some True"
  shows "\<exists>st'. froto_deliver_again lock_ok ptb st = Some (Some p, ptb, st') \<and> froto_inv st' ps
    \<and> List.find (hit (matches ptb) (acks st')) ps = Some p \<and> map_option checkSeqNo (acks st' p) = Some True"
proof -
  obtain st' where s: "froto_deliver_again lock_ok ptb st = Some (Some p, ptb, st')" "froto_inv st' ps" "same_acks (acks st) (acks st')"
    using deliver_again_spec [OF assms(1,2), of lock_ok] assms(3,4) by auto
  have "hit (matches ptb) (acks st') = hit (matches ptb) (acks st)" using same_acks_hit [OF s(3)] by (simp add: fun_eq_iff)
  moreover have "map_option checkSeqNo (acks st' p) = Some True"
  proof -
    obtain a where a: "acks st p = Some a" "checkSeqNo a" using assms(4) by auto
    obtain a' where "acks st' p = Some a'" "strip a' = strip a" using same_acks_at [OF s(3) a(1)] by blast
    then show ?thesis using a(2) strip_fields [of a' a] by simp
  qed
  ultimately show ?thesis using s assms(3) by simp
qed

end
