(* ===== verification/Crc_Serial.thy ===== *)
theory Crc_Serial
  imports Prelude
begin

text \<open>
  Cyclic redundancy checks as the specifications give them: a register is shifted to the right bit by bit,
  and the polynomial is fed back whenever the bit shifted out is set.  The locale of a reflected
  check holds for every polynomial whose highest bit is set; the table-driven routines of the
  repository are compared with it in the theories that model them.
\<close>

section \<open>The bit-serial reference\<close>

definition crc_bit :: "'a::len word \<Rightarrow> 'a word \<Rightarrow> 'a word" where
  "crc_bit poly r = (if bit r 0 then drop_bit 1 r XOR poly else drop_bit 1 r)"

definition crc_byte :: "'a::len word \<Rightarrow> 'a word \<Rightarrow> u8 \<Rightarrow> 'a word" where
  "crc_byte poly r b = (crc_bit poly ^^ 8) (r XOR ucast b)"

definition crc_serial :: "'a::len word \<Rightarrow> 'a word \<Rightarrow> bytes \<Rightarrow> 'a word" where
  "crc_serial poly init bs = foldl (crc_byte poly) init bs"

section \<open>Tables of linear functions\<close>

lemma of_nat_add_xor:
  "k < LENGTH('a) \<Longrightarrow> j < 2 ^ k \<Longrightarrow> (of_nat (2 ^ k + j) :: 'a::len word) = of_nat (2 ^ k) XOR of_nat j"
proof -
  assume k: "k < LENGTH('a)" and j: "j < 2 ^ k"
  have nb: "\<not> bit j n" if "k \<le> n" for n
  proof -
    have "j < 2 ^ n" using j that by (meson le_trans not_less power_increasing one_le_numeral)
    then show ?thesis by (simp add: bit_iff_odd)
  qed
  have "(of_nat (2 ^ k + j) :: 'a word) = of_nat (2 ^ k) + of_nat j" by simp
  also have "\<dots> = of_nat (2 ^ k) OR of_nat j"
    by (rule disjunctive_add) (auto simp: bit_simps nb)
  also have "\<dots> = of_nat (2 ^ k) XOR of_nat j"
    by (rule bit_word_eqI) (auto simp: bit_simps nb)
  finally show ?thesis .
qed

lemma map_doubling:
  fixes g :: "nat \<Rightarrow> 'a::len word"
  assumes "\<And>j. j < 2 ^ k \<Longrightarrow> g (2 ^ k + j) = g (2 ^ k) XOR g j"
  shows "map g [0..<2 ^ Suc k] = map g [0..<2 ^ k] @ map (\<lambda>t. g (2 ^ k) XOR t) (map g [0..<2 ^ k])"
proof -
  have "[0..<2 ^ Suc k] = [0..<2 ^ k] @ map (\<lambda>j. 2 ^ k + j) [0..<2 ^ k]"
    using upt_add_eq_append [of 0 "2 ^ k" "2 ^ k"] by (simp add: mult_2 map_add_upt add.commute)
  then show ?thesis using assms by simp
qed

text \<open>All sums of a list of words, the first word changing slowest.\<close>

fun span :: "'a::len word list \<Rightarrow> 'a word list" where
  "span [] = [0]"
| "span (b # bs) = span bs @ map (\<lambda>t. b XOR t) (span bs)"

lemma map_span:
  fixes g :: "nat \<Rightarrow> 'a::len word"
  assumes "g 0 = 0" "\<And>i j. i < k \<Longrightarrow> j < 2 ^ i \<Longrightarrow> g (2 ^ i + j) = g (2 ^ i) XOR g j"
  shows "map g [0..<2 ^ k] = span (map (\<lambda>i. g (2 ^ i)) (rev [0..<k]))"
  using assms(2)
proof (induction k)
  case 0
  then show ?case by (simp add: assms(1))
next
  case (Suc k)
  then have "map g [0..<2 ^ Suc k] = map g [0..<2 ^ k] @ map (\<lambda>t. g (2 ^ k) XOR t) (map g [0..<2 ^ k])"
    by (intro map_doubling) simp
  with Suc show ?case by simp
qed

lemma upt8: "rev [0..<8] = [7, 6, 5, 4, 3, 2, 1, 0::nat]"
  by code_simp

section \<open>Reflected checks\<close>

lemma crc_bit_xor: "crc_bit p (r XOR s) = crc_bit p r XOR crc_bit p s"
  unfolding crc_bit_def
  by (rule bit_word_eqI) (auto simp: bit_simps)

lemma crc_bits_xor: "(crc_bit p ^^ n) (r XOR s) = (crc_bit p ^^ n) r XOR (crc_bit p ^^ n) s"
  by (induction n) (simp_all add: crc_bit_xor)

lemma crc_bits_0 [simp]: "(crc_bit p ^^ n) 0 = 0"
  by (induction n) (simp_all add: crc_bit_def)

locale reflected_crc =
  fixes poly :: "'a::len word"
  assumes top: "bit poly (LENGTH('a) - 1)" and wide: "8 \<le> LENGTH('a)"
begin

lemma crc_bit_inject: "crc_bit poly r = crc_bit poly s \<Longrightarrow> r = s"
proof -
  assume eq: "crc_bit poly r = crc_bit poly s"
  have out: "bit (crc_bit poly w) (LENGTH('a) - 1) = bit w 0" for w
    using top wide by (auto simp: crc_bit_def bit_simps dest: bit_imp_le_length)
  have z: "bit r 0 = bit s 0"
    using eq out by metis
  then have "drop_bit 1 r = drop_bit 1 s"
    using eq by (simp add: crc_bit_def split: if_splits)
  then have "bit r (Suc n) = bit s (Suc n)" for n
    by (metis bit_drop_bit_eq comp_apply plus_1_eq_Suc)
  with z have "bit r n = bit s n" for n
    by (cases n) auto
  then show "r = s"
    by (auto intro: bit_word_eqI)
qed

lemma crc_bits_inject: "(crc_bit poly ^^ n) r = (crc_bit poly ^^ n) s \<Longrightarrow> r = s"
  by (induction n) (auto dest: crc_bit_inject)

lemma crc_byte_inject_reg: "crc_byte poly r b = crc_byte poly s b \<Longrightarrow> r = s"
  unfolding crc_byte_def by (metis crc_bits_inject xor_cancel_right)

lemma crc_byte_inject_byte: "crc_byte poly r b = crc_byte poly r c \<Longrightarrow> b = c"
proof -
  assume "crc_byte poly r b = crc_byte poly r c"
  then have "(ucast b :: 'a word) = ucast c"
    unfolding crc_byte_def by (metis crc_bits_inject xor_cancel_left)
  then have "bit (ucast b :: 'a word) n = bit (ucast c :: 'a word) n" for n by simp
  then have "n < 8 \<Longrightarrow> bit b n = bit c n" for n
    using wide by (simp add: bit_simps) (metis le_trans less_le_trans)
  then show "b = c"
    by (auto intro: bit_word_eqI)
qed

lemma crc_fold_inject: "foldl (crc_byte poly) r bs = foldl (crc_byte poly) s bs \<Longrightarrow> r = s"
  by (induction bs arbitrary: r s) (auto dest: crc_byte_inject_reg)

text \<open>A check detects the change of a single byte.\<close>

lemma crc_detects_byte:
  assumes "i < length bs" "bs ! i \<noteq> b"
  shows "crc_serial poly init (bs[i := b]) \<noteq> crc_serial poly init bs"
proof
  assume eq: "crc_serial poly init (bs[i := b]) = crc_serial poly init bs"
  let ?r = "foldl (crc_byte poly) init (take i bs)"
  have "foldl (crc_byte poly) (crc_byte poly ?r b) (drop (Suc i) bs) = foldl (crc_byte poly) (crc_byte poly ?r (bs ! i)) (drop (Suc i) bs)"
    using eq assms(1) unfolding crc_serial_def
    by (subst (asm) (2) id_take_nth_drop [OF assms(1)]) (simp add: upd_conv_take_nth_drop)
  then show False using assms(2) by (metis crc_byte_inject_byte crc_fold_inject)
qed

text \<open>Eight steps shift out the low byte, which selects the table entry.\<close>

lemma crc_bits_high: "n \<le> 8 \<Longrightarrow> (\<And>i. i < n \<Longrightarrow> \<not> bit r i) \<Longrightarrow> (crc_bit poly ^^ n) r = drop_bit n r"
proof (induction n)
  case (Suc n)
  then have "\<not> bit (drop_bit n r) 0" by (simp add: bit_simps)
  then show ?case using Suc by (simp add: crc_bit_def drop_bit_drop_bit)
qed simp

lemma crc_byte_table: "crc_byte poly r b = (crc_bit poly ^^ 8) ((r XOR ucast b) AND 0xFF) XOR drop_bit 8 r"
proof -
  have m: "(0xFF :: 'a word) = mask 8" by (simp add: mask_eq_exp_minus_1)
  have "r XOR ucast b = ((r XOR ucast b) AND 0xFF) XOR ((r XOR ucast b) AND NOT 0xFF)"
    unfolding m by (rule bit_word_eqI) (auto simp: bit_simps)
  moreover have "(crc_bit poly ^^ 8) ((r XOR ucast b) AND NOT 0xFF) = drop_bit 8 ((r XOR ucast b) AND NOT 0xFF)"
    unfolding m by (rule crc_bits_high) (auto simp: bit_simps)
  moreover have "drop_bit 8 ((r XOR ucast b) AND NOT 0xFF) = drop_bit 8 r"
    unfolding m by (rule bit_word_eqI) (auto simp: bit_simps dest: bit_imp_le_length)
  ultimately show ?thesis
    unfolding crc_byte_def by (metis crc_bits_xor)
qed

lemma crc_table_span:
  "map (\<lambda>i. (crc_bit poly ^^ 8) (of_nat i)) [0..<256] = span (map (\<lambda>i. (crc_bit poly ^^ 8) (of_nat (2 ^ i))) (rev [0..<8]))"
proof -
  have "(crc_bit poly ^^ 8) (of_nat (2 ^ i + j)) = (crc_bit poly ^^ 8) (of_nat (2 ^ i)) XOR (crc_bit poly ^^ 8) (of_nat j)"
    if "i < 8" "j < 2 ^ i" for i j
    using of_nat_add_xor [where ?'a = 'a, of i j] that wide by (simp add: crc_bits_xor)
  then have "map (\<lambda>i. (crc_bit poly ^^ 8) (of_nat i)) [0..<2 ^ 8] = span (map (\<lambda>i. (crc_bit poly ^^ 8) (of_nat (2 ^ i))) (rev [0..<8]))"
    by (intro map_span) simp_all
  then show ?thesis by simp
qed

lemma crc_table_nth:
  assumes "table = span (map (\<lambda>i. (crc_bit poly ^^ 8) (of_nat (2 ^ i))) (rev [0..<8]))" "i < 256"
  shows "table ! i = (crc_bit poly ^^ 8) (of_nat i)"
  unfolding assms(1) crc_table_span [symmetric] using assms(2) by (simp del: upt_rec_numeral)

end

end
