(* ===== verification/Float32.thy ===== *)
theory Float32
  imports Complex_Main
begin

text \<open>
  Single-precision arithmetic as the gateway's processor does it: the result of an operation is the exact result, rounded
  to the nearest number with 24 significant bits, to the even one of two nearest.  Numbers are
  rationals; infinities and NaNs do not occur in the code that is modelled, and neither does a fused multiplication and addition.
\<close>

definition fexp :: "rat \<Rightarrow> int" where
  "fexp x = (case List.find (\<lambda>e. \<bar>x\<bar> < 2 powi (e + 1)) [- 126..127] of Some e \<Rightarrow> e | None \<Rightarrow> 127)"

definition round_even :: "rat \<Rightarrow> int" where
  "round_even x = (let n = \<lfloor>x\<rfloor>; d = x - of_int n in
     if d < 1 / 2 then n else if 1 / 2 < d then n + 1 else if even n then n else n + 1)"

definition rnd32 :: "rat \<Rightarrow> rat" where
  "rnd32 x = (let u = 2 powi (fexp x - 23) in of_int (round_even (x / u)) * u)"

lemma round_even_int [simp]: "round_even (of_int k) = k"
  by (simp add: round_even_def)

lemma round_even_err: "\<bar>of_int (round_even x) - x\<bar> \<le> 1 / 2"
proof -
  have "of_int \<lfloor>x\<rfloor> \<le> x" "x < of_int \<lfloor>x\<rfloor> + 1" by linarith+
  then show ?thesis by (simp add: round_even_def Let_def)
qed

lemma find_upto:
  fixes P :: "int \<Rightarrow> bool"
  assumes "\<And>i j. i \<le> j \<Longrightarrow> P i \<Longrightarrow> P j" "a \<le> b" "P b"
  shows "\<exists>e. List.find P [a..b] = Some e \<and> a \<le> e \<and> e \<le> b \<and> P e \<and> (a < e \<longrightarrow> \<not> P (e - 1))"
proof -
  obtain e where e: "List.find P [a..b] = Some e"
    using assms(2,3) by (cases "List.find P [a..b]") (auto simp: find_None_iff)
  then obtain i where i: "i < length [a..b]" "P ([a..b] ! i)" "e = [a..b] ! i" "\<And>j. j < i \<Longrightarrow> \<not> P ([a..b] ! j)"
    by (auto simp: find_Some_iff)
  then have "e = a + int i" by (simp add: nth_upto)
  moreover have "\<not> P (e - 1)" if "a < e"
    using i(1) i(4) [of "i - 1"] calculation that by (cases i) (simp_all add: nth_upto)
  ultimately show ?thesis using e i by auto
qed

lemma fexp_find:
  assumes "\<bar>x\<bar> < 2 powi 128"
  shows "\<bar>x\<bar> < 2 powi (fexp x + 1) \<and> - 126 \<le> fexp x \<and> (- 126 < fexp x \<longrightarrow> 2 powi (fexp x) \<le> \<bar>x\<bar>)"
proof -
  have "\<exists>e. List.find (\<lambda>e. \<bar>x\<bar> < 2 powi (e + 1)) [- 126..127] = Some e \<and> - 126 \<le> e \<and> e \<le> 127
    \<and> \<bar>x\<bar> < 2 powi (e + 1) \<and> (- 126 < e \<longrightarrow> \<not> \<bar>x\<bar> < 2 powi (e - 1 + 1))"
  proof (rule find_upto)
    show "\<bar>x\<bar> < 2 powi (j + 1)" if "i \<le> j" "\<bar>x\<bar> < 2 powi (i + 1)" for i j
      using that power_int_increasing [of "i + 1" "j + 1" "2 :: rat"] by linarith
  qed (use assms in auto)
  then show ?thesis unfolding fexp_def by (auto simp: not_less simp del: upto_rec_numeral)
qed

lemma fexp_le:
  assumes "\<bar>x\<bar> < 2 powi n" "- 126 < n" "n < 128"
  shows "fexp x < n"
proof (rule ccontr)
  assume n: "\<not> fexp x < n"
  have "(2 :: rat) powi n \<le> 2 powi 128" using assms(3) by (intro power_int_increasing) auto
  then have "2 powi (fexp x) \<le> \<bar>x\<bar>" using fexp_find [of x] assms n by linarith
  moreover have "(2 :: rat) powi n \<le> 2 powi (fexp x)" using n by (intro power_int_increasing) auto
  ultimately show False using assms(1) by linarith
qed

lemma fexp_eq:
  assumes "2 powi e \<le> \<bar>x\<bar>" "\<bar>x\<bar> < 2 powi (e + 1)" "- 126 \<le> e" "e < 127"
  shows "fexp x = e"
proof -
  have "fexp x < e + 1" using assms by (intro fexp_le) auto
  moreover have "(2 :: rat) powi (e + 1) \<le> 2 powi 128" using assms(4) by (intro power_int_increasing) auto
  then have "2 powi e < (2 :: rat) powi (fexp x + 1)" using fexp_find [of x] assms(1,2) by linarith
  then have "e < fexp x + 1"
    using power_int_increasing [of "fexp x + 1" e "2 :: rat"] by (metis not_less one_le_numeral)
  ultimately show ?thesis by simp
qed

lemma rnd32_abs_err: "\<bar>rnd32 x - x\<bar> \<le> 2 powi (fexp x - 23) / 2"
proof -
  let ?u = "2 powi (fexp x - 23) :: rat"
  have u: "0 < ?u" by simp
  have "rnd32 x - x = (of_int (round_even (x / ?u)) - x / ?u) * ?u"
    using u by (simp add: rnd32_def Let_def algebra_simps)
  then have "\<bar>rnd32 x - x\<bar> = \<bar>of_int (round_even (x / ?u)) - x / ?u\<bar> * ?u"
    using u by (simp add: abs_mult)
  also have "\<dots> \<le> 1 / 2 * ?u" using u by (intro mult_right_mono round_even_err) simp
  finally show ?thesis by simp
qed

lemma rnd32_err:
  assumes "2 powi (- 126) \<le> \<bar>x\<bar>" "\<bar>x\<bar> < 2 powi 128"
  shows "\<bar>rnd32 x - x\<bar> \<le> \<bar>x\<bar> / 2 ^ 24"
proof -
  have "2 powi (fexp x - 23) = 2 powi (fexp x) / (2 ^ 23 :: rat)"
    by (simp add: power_int_diff)
  then show ?thesis using rnd32_abs_err [of x] fexp_find [OF assms(2)] assms(1)
    by (cases "fexp x = - 126") auto
qed

lemma rnd32_err_below:
  assumes "\<bar>x\<bar> < 2 ^ n" "n < 128"
  shows "\<bar>rnd32 x - x\<bar> \<le> 2 ^ n / 2 ^ 25"
proof -
  have "fexp x < int n" using assms by (intro fexp_le) auto
  then have "(2 :: rat) powi (fexp x - 23) \<le> 2 powi (int n - 24)" by (intro power_int_increasing) auto
  also have "\<dots> = 2 ^ n / 2 ^ 24" by (simp add: power_int_diff)
  finally show ?thesis using rnd32_abs_err [of x] by simp
qed

text \<open>Small multiples of one sixteenth are not changed.\<close>

lemma rnd32_sixteenths:
  assumes "\<bar>k\<bar> < 2 ^ 20"
  shows "rnd32 (of_int k / 16) = of_int k / 16"
proof -
  let ?x = "of_int k / 16 :: rat" and ?e = "fexp (of_int k / 16)"
  have "\<bar>?x\<bar> < 2 powi 16"
    using assms by (simp add: abs_divide flip: of_int_abs)
  then have "?e < 16" by (rule fexp_le) auto
  then obtain m where "19 - ?e = int m" using zero_le_imp_eq_int [of "19 - ?e"] by auto
  then have m: "?e - 23 = - (int m + 4)" by simp
  have "(2 :: rat) powi (int m + 4) = 2 ^ m * 16" by (subst power_int_add) simp_all
  then have u: "(2 :: rat) powi (?e - 23) = inverse (2 ^ m * 16)" unfolding m power_int_minus by simp
  have "?x / 2 powi (?e - 23) = of_int (k * 2 ^ m)" unfolding u by (simp add: field_simps)
  then show ?thesis unfolding rnd32_def Let_def by (simp only: round_even_int u) (simp add: field_simps)
qed

end
