(* ===== verification/Hci_Adv.thy ===== *)
theory Hci_Adv
  imports Froto_Crc Float32 "HOL-Library.Monad_Syntax"
begin

text \<open>
  Advertisements of Insight-T temperature sensors, first part of \<^verbatim>\<open>src/skf_gw/source/src/ble/app_hci_evt_mgmt_new.c\<close>: the Bluetooth
  monitor copies a received report into a message and writes it with its checksum to a pipe; the reader checks
  the checksum, looks the sender up in the white list and decodes the advertising data.

  Reading outside an array, or writing past the end of one, has no result in C; it is the outcome \<^term>\<open>None\<close>.  Callers pass addresses of their
  own objects, so that pointers are not null.  Signed bytes are words of 8 bits, floats are rationals with the rounding of
  \<^verbatim>\<open>Float32\<close>.
\<close>

section \<open>Reports and the pipe\<close>

record msg_adv_report =
  event_type :: u8
  addr_type :: u8
  rpt_addr :: bytes
  rpt_rssi :: u8
  dtlen :: u8
  raw_pkt :: bytes

definition P_MSG_ADV_REPORT :: nat where "P_MSG_ADV_REPORT = 1"
definition RAW_PKT_SIZE :: nat where "RAW_PKT_SIZE = 0x30"

record pipe_msg =
  pm_type :: nat
  pm_report :: msg_adv_report
  pm_crc32 :: u32

record bt_hci_evt_le_adv_report =
  evt_event_type :: u8
  evt_addr_type :: u8
  evt_addr :: bytes
  evt_data_len :: u8
  evt_data :: bytes

text \<open>The signal strength is the byte behind the data.\<close>

definition app_hci_fill_adv_report_info :: "bt_hci_evt_le_adv_report \<Rightarrow> msg_adv_report option" where
  "app_hci_fill_adv_report_info e =
     (let n = min (unat (evt_data_len e)) RAW_PKT_SIZE in
      if unat (evt_data_len e) < length (evt_data e)
      then Some \<lparr>event_type = evt_event_type e, addr_type = evt_addr_type e, rpt_addr = evt_addr e,
                 rpt_rssi = evt_data e ! unat (evt_data_len e), dtlen = evt_data_len e,
                 raw_pkt = take n (evt_data e) @ replicate (RAW_PKT_SIZE - n) 0\<rparr>
      else None)"

text \<open>The memory of a report; all its members are bytes, so that there is no padding.\<close>

definition msg_bytes :: "msg_adv_report \<Rightarrow> bytes" where
  "msg_bytes r = [event_type r, addr_type r] @ rpt_addr r @ [rpt_rssi r, dtlen r] @ raw_pkt r"

definition app_hci_report_event :: "int \<Rightarrow> nat \<Rightarrow> msg_adv_report \<Rightarrow> bool \<Rightarrow> pipe_msg list \<Rightarrow> app_state_t \<times> pipe_msg list" where
  "app_hci_report_event kpfd mtype r write_ok pipe =
     (if kpfd < 0 then (ST_ERR, pipe)
      else if \<not> write_ok then (ST_ERR, pipe)
      else (ST_OK, pipe @ [\<lparr>pm_type = mtype, pm_report = r, pm_crc32 = util_froto_bullet_crc32 (msg_bytes r)\<rparr>]))"

definition is_pmsg_packet_valid :: "pipe_msg \<Rightarrow> bool" where
  "is_pmsg_packet_valid m \<longleftrightarrow> util_froto_bullet_crc32 (msg_bytes (pm_report m)) = pm_crc32 m"

section \<open>The white list\<close>

record bt_addr =
  nap :: u16
  uap :: u8
  lap :: u32

definition MAX_BT_WHITE_LIST :: nat where "MAX_BT_WHITE_LIST = 40"
definition zero_bt_addr :: bt_addr where "zero_bt_addr = \<lparr>nap = 0, uap = 0, lap = 0\<rparr>"

record white_list =
  bt_white_list :: "bt_addr list"
  nameId :: "u32 list"

definition app_hci_update_bt_white_list :: "bt_addr list option \<Rightarrow> u32 list \<Rightarrow> u8 \<Rightarrow> white_list \<Rightarrow> white_list option" where
  "app_hci_update_bt_white_list addrs ids kp_arr_sz w =
     (case addrs of
        None \<Rightarrow> Some w
      | Some as \<Rightarrow>
          let n = min (unat kp_arr_sz) MAX_BT_WHITE_LIST in
          if length as < n \<or> length ids < n then None
          else Some \<lparr>bt_white_list = take n as @ replicate (MAX_BT_WHITE_LIST - n) zero_bt_addr,
                     nameId = take n ids @ replicate (MAX_BT_WHITE_LIST - n) 0\<rparr>)"

text \<open>The bytes of a number in memory, and the address that is built from them.\<close>

definition mem16 :: "bool \<Rightarrow> u16 \<Rightarrow> bytes" where
  "mem16 big w = (if big then [hi8 w, lo8 w] else [lo8 w, hi8 w])"

definition mem32 :: "bool \<Rightarrow> u32 \<Rightarrow> bytes" where
  "mem32 big w = (let bs = [ucast w, ucast (drop_bit 8 w), ucast (drop_bit 16 w), ucast (drop_bit 24 w)] in if big then rev bs else bs)"

definition kp_mac_array :: "bool \<Rightarrow> bt_addr \<Rightarrow> bytes" where
  "kp_mac_array big a =
     (let n = mem16 big (nap a); l = mem32 big (lap a) in
      if big then [l ! 2, l ! 1, l ! 0, uap a, n ! 1, n ! 0]
      else [l ! 0, l ! 1, l ! 2, uap a, n ! 0, n ! 1])"

text \<open>The name of the first entry that matches.\<close>

definition does_hci_event_match_filter :: "bool \<Rightarrow> white_list \<Rightarrow> pipe_msg \<Rightarrow> u32 option" where
  "does_hci_event_match_filter big w m =
     (if pm_type m = P_MSG_ADV_REPORT
      then map_option snd (List.find (\<lambda>(a, n). kp_mac_array big a = rpt_addr (pm_report m)) (zip (bt_white_list w) (nameId w)))
      else None)"

section \<open>Advertising data\<close>

record sit_ad_packet =
  local_name :: bytes
  ad_nameId :: u32
  advcnt :: u8
  sensor_tpval :: u8
  vcc_adc :: u16
  vcc_val :: rat
  hw_version :: u8
  sw_version :: u8
  wire_bytes :: u16
  m_tempval :: rat

definition MAX_PKT_INFO :: nat where "MAX_PKT_INFO = 32"

definition zero_ad_packet :: sit_ad_packet where
  "zero_ad_packet = \<lparr>local_name = replicate MAX_PKT_INFO 0, ad_nameId = 0, advcnt = 0, sensor_tpval = 0, vcc_adc = 0, vcc_val = 0,
     hw_version = 0, sw_version = 0, wire_bytes = 0, m_tempval = 0\<rparr>"

text \<open>The literals of the code, as single-precision numbers.\<close>

definition SIT_VCC_GAIN :: rat where "SIT_VCC_GAIN = 13421773 / 17179869184"
definition SIT_MTEMP_GAIN :: rat where "SIT_MTEMP_GAIN = 1 / 16"
definition f_3_6 :: rat where "f_3_6 = 7549747 / 2097152"
definition f_50_0625 :: rat where "f_50_0625 = 801 / 16"
definition f_0_005 :: rat where "f_0_005 = 5368709 / 1073741824"
definition f_0_012 :: rat where "f_0_012 = 6442451 / 536870912"

definition vcc_of :: "u16 \<Rightarrow> rat" where
  "vcc_of adc = rnd32 (of_nat (unat adc) * SIT_VCC_GAIN)"

definition mtemp_of :: "u16 \<Rightarrow> rat" where
  "mtemp_of w = (let t = rnd32 (rnd32 (of_nat (unat w) * SIT_MTEMP_GAIN) - f_50_0625) in
     if t < 30 then rnd32 (t + rnd32 (rnd32 (t - 30) * f_0_005))
     else if 100 < t then rnd32 (t + rnd32 (rnd32 (100 - t) * f_0_012))
     else t)"

definition to_decode_eir_manufacture_data :: "sit_ad_packet \<Rightarrow> bytes \<Rightarrow> nat \<Rightarrow> bool \<times> sit_ad_packet" where
  "to_decode_eir_manufacture_data pkt d data_len =
     (if data_len \<noteq> 0x0C - 1 then (False, pkt)
      else if d ! 0 \<noteq> 0x0E \<or> d ! 1 \<noteq> 0x04 then (False, pkt)
      else if d ! 2 \<noteq> 0x8B then (False, pkt)
      else let pkt = pkt\<lparr>advcnt := d ! 3, sensor_tpval := d ! 4, vcc_adc := of_nat (unat (d ! 6) * 0xFF + unat (d ! 5))\<rparr>;
               pkt = pkt\<lparr>vcc_val := vcc_of (vcc_adc pkt)\<rparr> in
        if vcc_val pkt \<le> 0 \<or> f_3_6 \<le> vcc_val pkt then (False, pkt)
        else let pkt = pkt\<lparr>hw_version := d ! 7, sw_version := d ! 8, wire_bytes := of_nat (unat (d ! 10) * 0xFF + unat (d ! 9))\<rparr>;
                 pkt = pkt\<lparr>m_tempval := mtemp_of (wire_bytes pkt)\<rparr> in
          if m_tempval pkt < - 45 \<or> 150 < m_tempval pkt then (False, pkt)
          else (True, pkt))"

definition peek :: "bytes \<Rightarrow> nat \<Rightarrow> u8 option" where
  "peek xs i = (if i < length xs then Some (xs ! i) else None)"

definition bytes_at :: "bytes \<Rightarrow> nat \<Rightarrow> nat \<Rightarrow> bytes option" where
  "bytes_at xs i n = (if i + n \<le> length xs then Some (take n (drop i xs)) else None)"

text \<open>
  One field.  The types in the second list are recognised and not used; the data of any other type are printed.  A name is first copied
  into a local array of 239 bytes.
\<close>

definition eir_unused :: "u8 list" where
  "eir_unused = [0x01, 0x02, 0x03, 0x04, 0x05, 0x06, 0x07, 0x0a, 0x0d, 0x0e, 0x0f, 0x10, 0x11, 0x12, 0x14, 0x15, 0x16, 0x18, 0x17, 0x19,
     0x1d, 0x1e, 0x26, 0x3d, 0x2a, 0x29, 0x2b]"

definition eir_field :: "u8 \<Rightarrow> bytes \<Rightarrow> nat \<Rightarrow> nat \<Rightarrow> nat \<Rightarrow> sit_ad_packet \<Rightarrow> (bool \<times> nat \<times> sit_ad_packet) option" where
  "eir_field typ eir pos data_len kp_cnt pkt =
     (if typ \<in> set eir_unused then Some (True, kp_cnt, pkt)
      else if typ = 0x08 then do {
        d \<leftarrow> bytes_at eir pos data_len;
        if data_len > 239 then None else Some (True, kp_cnt, pkt) }
      else if typ = 0x09 then do {
        d \<leftarrow> bytes_at eir pos data_len;
        if data_len > 239 then None
        else if data_len < MAX_PKT_INFO
        then let nm = d @ drop data_len (local_name pkt) in
          Some (nm ! 0 = 0x53 \<and> nm ! 1 = 0x49 \<and> nm ! 2 = 0x54, kp_cnt + 1, pkt\<lparr>local_name := nm\<rparr>)
        else Some (False, kp_cnt, pkt) }
      else if typ = 0xFF then
        if data_len < 2 then Some (True, kp_cnt, pkt)
        else do {
          d \<leftarrow> bytes_at eir pos data_len;
          let (ok, pkt) = to_decode_eir_manufacture_data pkt d data_len;
          Some (ok, kp_cnt + 1, pkt) }
      else do { d \<leftarrow> bytes_at eir pos data_len; Some (True, kp_cnt, pkt) })"

text \<open>The loop over the fields: \<^term>\<open>len\<close> is the offset of the current one.\<close>

function eir_loop :: "bytes \<Rightarrow> nat \<Rightarrow> nat \<Rightarrow> nat \<Rightarrow> sit_ad_packet \<Rightarrow> (bool \<times> nat \<times> nat \<times> sit_ad_packet) option" where
  "eir_loop eir eir_len len kp_cnt pkt =
     (if len < eir_len - 1 then do {
        field_len \<leftarrow> peek eir len;
        if field_len = 0 then Some (True, len, kp_cnt, pkt)
        else if eir_len < len + unat field_len + 1 then Some (True, len, kp_cnt, pkt)
        else do {
          typ \<leftarrow> peek eir (len + 1);
          (ok, kp_cnt, pkt) \<leftarrow> eir_field typ eir (len + 2) (unat field_len - 1) kp_cnt pkt;
          if ok then eir_loop eir eir_len (len + unat field_len + 1) kp_cnt pkt
          else Some (False, len + unat field_len + 1, kp_cnt, pkt) } }
      else Some (True, len, kp_cnt, pkt))"
  by pat_completeness auto
termination by (relation "measure (\<lambda>(eir, eir_len, len, kp_cnt, pkt). eir_len - len)") auto

declare eir_loop.simps [simp del]

definition app_hci_decode_eir :: "bytes \<Rightarrow> nat \<Rightarrow> (bool \<times> sit_ad_packet) option" where
  "app_hci_decode_eir eir eir_len =
     (if eir_len = 0 then Some (False, zero_ad_packet)
      else do {
        (ok, len, kp_cnt, pkt) \<leftarrow> eir_loop eir eir_len 0 0 zero_ad_packet;
        next \<leftarrow> (if len < eir_len then peek eir len else Some 0);
        Some (ok \<and> kp_cnt = 2, pkt) })"


section \<open>Accepted measurements\<close>

lemma vcc_bounds:
  fixes a :: rat
  assumes "1 \<le> a" "a \<le> 65535"
  shows "\<bar>rnd32 (a * SIT_VCC_GAIN) - a * SIT_VCC_GAIN\<bar> \<le> a * SIT_VCC_GAIN / 2 ^ 24"
proof -
  have x: "1 / 2048 \<le> a * SIT_VCC_GAIN" "a * SIT_VCC_GAIN \<le> 128" using assms by (auto simp: SIT_VCC_GAIN_def)
  have "(2 :: rat) powi (- 126) \<le> 2 powi (- 11)" "(2 :: rat) powi 8 \<le> 2 powi 128"
    by (intro power_int_increasing; simp)+
  then have "2 powi (- 126) \<le> \<bar>a * SIT_VCC_GAIN\<bar>" "\<bar>a * SIT_VCC_GAIN\<bar> < 2 powi 128"
    using x by (auto simp: power_int_minus)
  then show ?thesis using rnd32_err [of "a * SIT_VCC_GAIN"] x by simp
qed

lemma vcc_4608: "f_3_6 \<le> rnd32 (4608 * SIT_VCC_GAIN)"
proof -
  have "fexp (4608 * SIT_VCC_GAIN) = 1" by (rule fexp_eq) (auto simp: SIT_VCC_GAIN_def)
  moreover have "round_even (120795957 / 8) = 15099495"
  proof -
    have "\<lfloor>120795957 / 8 :: rat\<rfloor> = 15099494" by (simp add: floor_eq_iff)
    then show ?thesis by (simp add: round_even_def)
  qed
  ultimately show ?thesis by (simp add: rnd32_def SIT_VCC_GAIN_def f_3_6_def power_int_minus)
qed

lemma vcc_range:
  fixes a :: rat
  assumes "1 \<le> a" "a \<le> 65535"
  shows "0 < rnd32 (a * SIT_VCC_GAIN)" "a \<le> 4607 \<Longrightarrow> rnd32 (a * SIT_VCC_GAIN) < f_3_6"
    "4609 \<le> a \<Longrightarrow> f_3_6 \<le> rnd32 (a * SIT_VCC_GAIN)"
  using vcc_bounds [OF assms] assms unfolding SIT_VCC_GAIN_def f_3_6_def abs_le_iff by - (simp; linarith)+

lemma vcc_accepted: "0 < vcc_of adc \<and> vcc_of adc < f_3_6 \<longleftrightarrow> 1 \<le> unat adc \<and> unat adc \<le> 4607"
proof -
  obtain n where n: "unat adc = n" "n \<le> 65535" using unat_u16_le by blast
  have r: "1 \<le> n \<Longrightarrow> 1 \<le> (of_nat n :: rat)" "(of_nat n :: rat) \<le> 65535" "n \<le> 4607 \<Longrightarrow> (of_nat n :: rat) \<le> 4607"
    "4609 \<le> n \<Longrightarrow> 4609 \<le> (of_nat n :: rat)"
    using n(2) of_nat_mono [of _ _, where 'a = rat] by (metis of_nat_1 of_nat_mono of_nat_numeral)+
  consider "n = 0" | "1 \<le> n" "n \<le> 4607" | "n = 4608" | "4609 \<le> n" by linarith
  then show ?thesis unfolding vcc_of_def n
  proof cases
    case 1
    then show "0 < rnd32 (of_nat n * SIT_VCC_GAIN) \<and> rnd32 (of_nat n * SIT_VCC_GAIN) < f_3_6 \<longleftrightarrow> 1 \<le> n \<and> n \<le> 4607"
      by (simp add: rnd32_def round_even_def)
  next
    case 2
    then show "0 < rnd32 (of_nat n * SIT_VCC_GAIN) \<and> rnd32 (of_nat n * SIT_VCC_GAIN) < f_3_6 \<longleftrightarrow> 1 \<le> n \<and> n \<le> 4607"
      using vcc_range [of "of_nat n"] r by simp
  next
    case 3
    then show "0 < rnd32 (of_nat n * SIT_VCC_GAIN) \<and> rnd32 (of_nat n * SIT_VCC_GAIN) < f_3_6 \<longleftrightarrow> 1 \<le> n \<and> n \<le> 4607"
      using vcc_4608 by simp
  next
    case 4
    then show "0 < rnd32 (of_nat n * SIT_VCC_GAIN) \<and> rnd32 (of_nat n * SIT_VCC_GAIN) < f_3_6 \<longleftrightarrow> 1 \<le> n \<and> n \<le> 4607"
      using vcc_range(3) [of "of_nat n"] r by (simp add: not_less)
  qed
qed

definition mtemp_exact :: "rat \<Rightarrow> rat" where
  "mtemp_exact t = (if t < 30 then t + (t - 30) * f_0_005 else if 100 < t then t + (100 - t) * f_0_012 else t)"

lemma rnd32_add_mult:
  assumes "\<bar>p\<bar> < 2048" "\<bar>t + p\<bar> < 4095"
  shows "\<bar>rnd32 (t + rnd32 p) - (t + p)\<bar> \<le> 1 / 4096"
proof -
  have p: "\<bar>rnd32 p - p\<bar> \<le> 1 / 8192" using assms rnd32_err_below [of p 12] by simp
  then have "\<bar>t + rnd32 p\<bar> < 2 ^ 12" using assms(2) unfolding abs_less_iff abs_le_iff by simp
  then have "\<bar>rnd32 (t + rnd32 p) - (t + rnd32 p)\<bar> \<le> 1 / 8192" using rnd32_err_below [of "t + rnd32 p" 12] by simp
  then show ?thesis using p unfolding abs_le_iff by simp
qed

lemma mtemp_error:
  assumes "unat w \<le> 65280"
  shows "\<bar>mtemp_of w - mtemp_exact ((of_nat (unat w) - 801) / 16)\<bar> \<le> 1 / 4096"
proof -
  obtain k where k: "of_nat (unat w) = (of_int k :: rat)" "0 \<le> k" "k \<le> 65280"
    using assms by (metis of_int_of_nat_eq of_nat_0_le_iff of_nat_mono of_nat_numeral)
  define t :: rat where "t = (of_int k - 801) / 16"
  have k16: "rnd32 (of_int k * (1 / 16)) = of_int k / 16" using rnd32_sixteenths [of k] k(2,3) by simp
  have e: "rnd32 (rnd32 (of_int k * (1 / 16)) - 801 / 16) = t"
    unfolding k16 using rnd32_sixteenths [of "k - 801"] k(2,3) by (simp add: t_def diff_divide_distrib)
  have e': "rnd32 (t - 30) = t - 30"
    using rnd32_sixteenths [of "k - 1281"] k(2,3) by (simp add: t_def diff_divide_distrib)
  have e'': "rnd32 (100 - t) = 100 - t"
    using rnd32_sixteenths [of "2401 - k"] k(2,3) by (simp add: t_def diff_divide_distrib)
  have "0 \<le> rat_of_int k" "rat_of_int k \<le> 65280" using k(2,3) by simp_all
  then have b: "- 51 \<le> t" "t \<le> 4030" unfolding t_def by simp_all
  then have "\<bar>(t - 30) * f_0_005\<bar> < 2048" "\<bar>t + (t - 30) * f_0_005\<bar> < 4095" if "t < 30"
    using that unfolding abs_less_iff by (simp_all add: f_0_005_def field_simps)
  moreover have "\<bar>(100 - t) * f_0_012\<bar> < 2048" "\<bar>t + (100 - t) * f_0_012\<bar> < 4095" if "100 < t"
    using that b unfolding abs_less_iff by (simp_all add: f_0_012_def field_simps)
  ultimately show ?thesis
    unfolding mtemp_of_def mtemp_exact_def k(1) f_50_0625_def SIT_MTEMP_GAIN_def Let_def e e' e'' t_def [symmetric]
    using rnd32_add_mult [of "(t - 30) * f_0_005" t] rnd32_add_mult [of "(100 - t) * f_0_012" t] by auto
qed

lemma mtemp_exact_range:
  fixes n :: rat
  shows "n \<le> 86 \<Longrightarrow> mtemp_exact ((n - 801) / 16) < - 45 - 1 / 4096"
    "87 \<le> n \<Longrightarrow> n \<le> 3210 \<Longrightarrow> - 45 + 1 / 4096 \<le> mtemp_exact ((n - 801) / 16) \<and> mtemp_exact ((n - 801) / 16) \<le> 150 - 1 / 4096"
    "3211 \<le> n \<Longrightarrow> 150 + 1 / 4096 < mtemp_exact ((n - 801) / 16)"
  by (simp_all add: mtemp_exact_def f_0_005_def f_0_012_def field_simps)

lemma rat_of_nat_le: "of_nat n \<le> (numeral m :: rat) \<longleftrightarrow> n \<le> numeral m" "(numeral m :: rat) \<le> of_nat n \<longleftrightarrow> numeral m \<le> n"
  by (metis of_nat_le_iff of_nat_numeral)+

lemma mtemp_accepted:
  assumes "unat w \<le> 65280"
  shows "- 45 \<le> mtemp_of w \<and> mtemp_of w \<le> 150 \<longleftrightarrow> 87 \<le> unat w \<and> unat w \<le> 3210"
proof -
  obtain n where n: "unat w = n" by blast
  define x where "x = mtemp_exact ((of_nat n - 801) / 16)"
  have x: "mtemp_of w - x \<le> 1 / 4096" "x - mtemp_of w \<le> 1 / 4096"
    using mtemp_error [OF assms] unfolding abs_le_iff n x_def by auto
  note r = mtemp_exact_range [of "of_nat n", folded x_def, unfolded rat_of_nat_le]
  consider "n \<le> 86" | "87 \<le> n" "n \<le> 3210" | "3211 \<le> n" by linarith
  then show ?thesis unfolding n
  proof cases
    case 1
    then show "- 45 \<le> mtemp_of w \<and> mtemp_of w \<le> 150 \<longleftrightarrow> 87 \<le> n \<and> n \<le> 3210" using x r(1) by linarith
  next
    case 2
    then show "- 45 \<le> mtemp_of w \<and> mtemp_of w \<le> 150 \<longleftrightarrow> 87 \<le> n \<and> n \<le> 3210" using x r(2) by linarith
  next
    case 3
    then show "- 45 \<le> mtemp_of w \<and> mtemp_of w \<le> 150 \<longleftrightarrow> 87 \<le> n \<and> n \<le> 3210" using x r(3) by linarith
  qed
qed

lemma mul255_u16:
  fixes h l :: u8
  shows "unat (of_nat (unat h * 0xFF + unat l) :: u16) = unat h * 0xFF + unat l" "unat h * 0xFF + unat l \<le> 65280"
proof -
  show "unat h * 0xFF + unat l \<le> 65280" using unat_u8_le [of h] unat_u8_le [of l] by linarith
  then show "unat (of_nat (unat h * 0xFF + unat l) :: u16) = unat h * 0xFF + unat l" by (intro unat_of_nat_u16) linarith
qed

text \<open>
  C23: Manufacturer data are accepted iff they have the layout of an Insight-T sensor and both measurements are in range; then what is
  stored are the bytes of the data, a voltage above 0 and below 3.6 V and a board temperature of -45 to 150 degrees.
\<close>

theorem manufacture_data_accepted:
  "(fst (to_decode_eir_manufacture_data pkt d n) \<longleftrightarrow>
     n = 11 \<and> d ! 0 = 0x0E \<and> d ! 1 = 0x04 \<and> d ! 2 = 0x8B
     \<and> 1 \<le> unat (d ! 6) * 255 + unat (d ! 5) \<and> unat (d ! 6) * 255 + unat (d ! 5) \<le> 4607
     \<and> 87 \<le> unat (d ! 10) * 255 + unat (d ! 9) \<and> unat (d ! 10) * 255 + unat (d ! 9) \<le> 3210)
   \<and> (fst (to_decode_eir_manufacture_data pkt d n) \<longrightarrow>
     (let p = snd (to_decode_eir_manufacture_data pkt d n) in
      advcnt p = d ! 3 \<and> sensor_tpval p = d ! 4 \<and> hw_version p = d ! 7 \<and> sw_version p = d ! 8
      \<and> 0 < vcc_val p \<and> vcc_val p < f_3_6 \<and> - 45 \<le> m_tempval p \<and> m_tempval p \<le> 150
      \<and> local_name p = local_name pkt \<and> ad_nameId p = ad_nameId pkt))"
proof
  show "fst (to_decode_eir_manufacture_data pkt d n) \<longleftrightarrow>
     n = 11 \<and> d ! 0 = 0x0E \<and> d ! 1 = 0x04 \<and> d ! 2 = 0x8B
     \<and> 1 \<le> unat (d ! 6) * 255 + unat (d ! 5) \<and> unat (d ! 6) * 255 + unat (d ! 5) \<le> 4607
     \<and> 87 \<le> unat (d ! 10) * 255 + unat (d ! 9) \<and> unat (d ! 10) * 255 + unat (d ! 9) \<le> 3210"
    using vcc_accepted [of "of_nat (unat (d ! 6) * 0xFF + unat (d ! 5))", unfolded mul255_u16(1)]
      mtemp_accepted [of "of_nat (unat (d ! 10) * 0xFF + unat (d ! 9))", unfolded mul255_u16(1), OF mul255_u16(2)]
    by (auto simp: to_decode_eir_manufacture_data_def Let_def)
qed (auto simp: to_decode_eir_manufacture_data_def Let_def not_le not_less split: if_splits)

theorem manufacture_data_accepted_witness:
  "0 < vcc_val (snd (to_decode_eir_manufacture_data zero_ad_packet [0x0E, 0x04, 0x8B, 1, 22, 0, 0x0F, 3, 4, 0x65, 4] 11))"
  using manufacture_data_accepted [of zero_ad_packet "[0x0E, 0x04, 0x8B, 1, 22, 0, 0x0F, 3, 4, 0x65, 4]" 11] by (simp add: Let_def)

section \<open>No read outside the received data\<close>

lemma bytes_at_within: "i + n \<le> length xs \<Longrightarrow> bytes_at xs i n = Some (take n (drop i xs))"
  by (simp add: bytes_at_def)

lemma eir_field_within:
  assumes "pos + n \<le> length eir" "n \<le> 239"
  shows "\<exists>ok c p. eir_field typ eir pos n kp_cnt pkt = Some (ok, c, p)"
  using assms by (auto simp: eir_field_def bytes_at_within Let_def split: prod.split)

lemma eir_loop_within:
  assumes "eir_len \<le> length eir" "eir_len \<le> 240"
  shows "\<exists>ok len' c p. eir_loop eir eir_len len kp_cnt pkt = Some (ok, len', c, p) \<and> (len \<le> eir_len \<longrightarrow> len' \<le> eir_len)"
  using assms
proof (induction eir eir_len len kp_cnt pkt rule: eir_loop.induct)
  case (1 eir eir_len len kp_cnt pkt)
  show ?case
  proof (cases "len < eir_len - 1 \<and> eir ! len \<noteq> 0 \<and> len + unat (eir ! len) + 1 \<le> eir_len")
    case True
    then have l: "peek eir len = Some (eir ! len)" "peek eir (len + 1) = Some (eir ! (len + 1))" "0 < unat (eir ! len)"
      using 1 by (auto simp: peek_def unat_gt_0)
    obtain ok c p where "eir_field (eir ! (len + 1)) eir (len + 2) (unat (eir ! len) - 1) kp_cnt pkt = Some (ok, c, p)"
      using eir_field_within [of "len + 2" "unat (eir ! len) - 1" eir] True l(3) 1 by fastforce
    then show ?thesis using 1 True l by (subst eir_loop.simps) auto
  next
    case False
    then show ?thesis using 1 by (subst eir_loop.simps) (auto simp: peek_def)
  qed
qed

text \<open>
  C20: The report of an advertisement of at most 48 bytes is decoded without a read outside its data.
\<close>

theorem report_decodes_within:
  assumes "app_hci_fill_adv_report_info e = Some r" "unat (evt_data_len e) \<le> 48"
  shows "\<exists>ok pkt. app_hci_decode_eir (raw_pkt r) (unat (dtlen r)) = Some (ok, pkt)"
proof -
  have r: "length (raw_pkt r) = 48" "dtlen r = evt_data_len e"
    using assms by (auto simp: app_hci_fill_adv_report_info_def Let_def RAW_PKT_SIZE_def split: if_splits)
  obtain ok len c p where "eir_loop (raw_pkt r) (unat (dtlen r)) 0 0 zero_ad_packet = Some (ok, len, c, p)"
    using eir_loop_within [of "unat (dtlen r)" "raw_pkt r"] r assms(2) by fastforce
  then show ?thesis using r assms(2) by (auto simp: app_hci_decode_eir_def peek_def)
qed

theorem report_decodes_within_witness:
  "\<exists>ok pkt. app_hci_decode_eir ([2, 1, 6] @ replicate 45 0) 3 = Some (ok, pkt)"
  using report_decodes_within [of "\<lparr>evt_event_type = 0, evt_addr_type = 0, evt_addr = replicate 6 0, evt_data_len = 3, evt_data = [2, 1, 6, 0xC0]\<rparr>"]
  by (simp add: app_hci_fill_adv_report_info_def Let_def RAW_PKT_SIZE_def)

text \<open>
  The stored length is not limited to the 48 bytes of the stored copy: with a length of 50 or more, the copy is read past its end.
\<close>

lemma eir_loop_ones:
  assumes "k \<le> 24" "50 \<le> n"
  shows "eir_loop (replicate 48 1) n (48 - 2 * k) kp_cnt pkt = None"
  using assms
proof (induction k)
  case 0
  then show ?case by (subst eir_loop.simps) (simp add: peek_def)
next
  case (Suc k)
  then have "48 - 2 * Suc k + 1 + 1 = 48 - 2 * k" by simp
  then show ?case using Suc by (subst eir_loop.simps) (auto simp: peek_def eir_field_def eir_unused_def)
qed

theorem long_report_overread:
  assumes "50 \<le> n"
  shows "app_hci_decode_eir (replicate 48 1) n = None"
  using eir_loop_ones [of 24 n] assms by (simp add: app_hci_decode_eir_def)

section \<open>A sensor's advertisement\<close>

text \<open>
  Flags, a complete name that starts with SIT, and manufacturer data; the rest of the 48 bytes is zero.
\<close>

definition sit_mdata :: "u8 \<Rightarrow> u8 \<Rightarrow> u16 \<Rightarrow> u8 \<Rightarrow> u8 \<Rightarrow> u16 \<Rightarrow> bytes" where
  "sit_mdata cnt tp adc hw sw wire = [0x0E, 0x04, 0x8B, cnt, tp, lo8 adc, hi8 adc, hw, sw, lo8 wire, hi8 wire]"

definition sit_adv :: "bytes \<Rightarrow> bytes \<Rightarrow> bytes" where
  "sit_adv nm md = [2, 0x01, 0x06, of_nat (length nm + 1), 0x09] @ nm @ [12, 0xFF] @ md"

lemma nth_skip: "i \<ge> length xs \<Longrightarrow> (xs @ ys) ! i = ys ! (i - length xs)"
  by (simp add: nth_append)

lemma eir_used [simp]: "0x09 \<notin> set eir_unused" "0xFF \<notin> set eir_unused"
  by code_simp+

lemma eir_types: "(0xFF :: u8) \<noteq> 0x08" "(0xFF :: u8) \<noteq> 0x09"
  by code_simp+

lemma eir_field_mdata: "bytes_at eir pos 11 = Some d \<Longrightarrow> eir_field 0xFF eir pos 11 c p =
    Some (fst (to_decode_eir_manufacture_data p d 11), c + 1, snd (to_decode_eir_manufacture_data p d 11))"
  unfolding eir_field_def by (simp only: eir_types eir_used if_False) (simp add: case_prod_beta)

lemma eir_loop_step:
  assumes "eir = pre @ [n, typ] @ d @ post" "length pre = len" "n = of_nat (length d + 1)" "length d < 255"
    "len + length d + 2 \<le> eir_len" "eir_field typ eir (len + 2) (length d) kp_cnt pkt = Some (True, c, p)"
  shows "eir_loop eir eir_len len kp_cnt pkt = eir_loop eir eir_len (len + length d + 2) c p"
proof -
  have n: "unat n = length d + 1" unfolding assms(3) using assms(4) by (intro unat_of_nat_u8) simp
  then have "n \<noteq> 0" by force
  have "eir ! len = n" "eir ! (len + 1) = typ" "len + 1 < length eir" using assms(1,2) by (auto simp: nth_append)
  moreover have "len < eir_len - 1" using assms(5) by simp
  ultimately show ?thesis using n \<open>n \<noteq> 0\<close> assms(5,6) by (subst eir_loop.simps) (simp add: peek_def)
qed

lemma raw255: "unat (hi8 v) * 255 + unat (lo8 v) = unat v - unat v div 256" for v :: u16
proof -
  have "unat v = 256 * unat (hi8 v) + unat (lo8 v)" using unat_mk16 [of "hi8 v" "lo8 v"] by simp
  moreover have "unat v div 256 = unat (hi8 v)" unfolding calculation by simp
  ultimately show ?thesis by simp
qed

lemma manufacture_data_decoded:
  assumes "1 \<le> unat adc - unat adc div 256" "unat adc - unat adc div 256 \<le> 4607"
    "87 \<le> unat wire - unat wire div 256" "unat wire - unat wire div 256 \<le> 3210"
  shows "to_decode_eir_manufacture_data pkt (sit_mdata cnt tp adc hw sw wire) 11 =
    (True, pkt\<lparr>advcnt := cnt, sensor_tpval := tp, vcc_adc := of_nat (unat adc - unat adc div 256),
       vcc_val := vcc_of (of_nat (unat adc - unat adc div 256)), hw_version := hw, sw_version := sw,
       wire_bytes := of_nat (unat wire - unat wire div 256), m_tempval := mtemp_of (of_nat (unat wire - unat wire div 256))\<rparr>)"
proof -
  have "unat (of_nat (unat v - unat v div 256) :: u16) = unat v - unat v div 256" for v :: u16
    using unat_u16_lt [of v] by (intro unat_of_nat_u16) linarith
  then show ?thesis
    using assms vcc_accepted [of "of_nat (unat adc - unat adc div 256)"] mtemp_accepted [of "of_nat (unat wire - unat wire div 256)"]
    by (simp add: to_decode_eir_manufacture_data_def sit_mdata_def Let_def raw255 not_less not_le)
qed

lemma sit_adv_decodes:
  assumes "take 3 nm = [0x53, 0x49, 0x54]" "length nm \<le> 30"
    and "1 \<le> unat adc - unat adc div 256" "unat adc - unat adc div 256 \<le> 4607"
    and "87 \<le> unat wire - unat wire div 256" "unat wire - unat wire div 256 \<le> 3210"
    and "adv = sit_adv nm (sit_mdata cnt tp adc hw sw wire)"
  shows "app_hci_decode_eir (adv @ replicate (48 - length adv) 0) (length adv) =
    Some (True, \<lparr>local_name = nm @ replicate (32 - length nm) 0, ad_nameId = 0, advcnt = cnt, sensor_tpval = tp,
      vcc_adc = of_nat (unat adc - unat adc div 256), vcc_val = vcc_of (of_nat (unat adc - unat adc div 256)), hw_version = hw, sw_version = sw,
      wire_bytes = of_nat (unat wire - unat wire div 256), m_tempval = mtemp_of (of_nat (unat wire - unat wire div 256))\<rparr>)"
proof -
  let ?md = "sit_mdata cnt tp adc hw sw wire" and ?pad = "replicate (48 - length adv) (0 :: u8)"
  let ?eir = "adv @ ?pad" and ?n = "length adv" and ?l = "length nm"
  let ?p = "zero_ad_packet\<lparr>local_name := nm @ replicate (32 - length nm) 0\<rparr>"
  have md: "length ?md = 11" by (simp add: sit_mdata_def)
  then have n: "?n = 18 + ?l" using assms(7) by (simp add: sit_adv_def)
  have nm: "3 \<le> ?l" "nm ! 0 = 0x53" "nm ! 1 = 0x49" "nm ! 2 = 0x54"
  proof -
    have "nm = [0x53, 0x49, 0x54] @ drop 3 nm" using append_take_drop_id [of 3 nm] assms(1) by metis
    then obtain ys where "nm = [0x53, 0x49, 0x54] @ ys" by blast
    then show "3 \<le> ?l" "nm ! 0 = 0x53" "nm ! 1 = 0x49" "nm ! 2 = 0x54" by simp_all
  qed
  have e: "?eir = [] @ [2, 1] @ [6] @ [of_nat (?l + 1), 9] @ nm @ [12, 0xFF] @ ?md @ ?pad"
    "?eir = [2, 1, 6] @ [of_nat (?l + 1), 9] @ nm @ [12, 0xFF] @ ?md @ ?pad"
    "?eir = ([2, 1, 6, of_nat (?l + 1), 9] @ nm) @ [12, 0xFF] @ ?md @ ?pad"
    using assms(7) by (simp_all add: sit_adv_def)
  have "eir_loop ?eir ?n 0 0 zero_ad_packet = eir_loop ?eir ?n 3 0 zero_ad_packet"
    using eir_loop_step [OF e(1), of 0 ?n 0 zero_ad_packet 0 zero_ad_packet] n
    by (simp add: eir_field_def eir_unused_def flip: numeral_3_eq_3)
  also have "\<dots> = eir_loop ?eir ?n (3 + ?l + 2) 1 ?p"
  proof -
    have "bytes_at ?eir 5 ?l = Some nm" by (simp add: bytes_at_def e(2))
    then have f: "eir_field 9 ?eir (3 + 2) ?l 0 zero_ad_packet = Some (True, 1, ?p)"
      using nm assms(2) by (auto simp: eir_field_def zero_ad_packet_def MAX_PKT_INFO_def nth_append Let_def)
    show ?thesis by (rule eir_loop_step [OF e(2) _ _ _ _ f]) (use n assms(2) in simp_all)
  qed
  also have "\<dots> = eir_loop ?eir ?n (5 + ?l + length ?md + 2) 2 (snd (to_decode_eir_manufacture_data ?p ?md 11))"
  proof -
    have "drop (length ([2, 1, 6, of_nat (?l + 1), 9] @ nm @ [12, 0xFF])) ?eir = ?md @ ?pad" by (subst e(3)) simp
    then have "bytes_at ?eir (7 + ?l) 11 = Some ?md" using md n by (simp add: bytes_at_def numeral_eq_Suc)
    then have f: "eir_field 0xFF ?eir (5 + ?l + 2) (length ?md) 1 ?p = Some (True, 2, snd (to_decode_eir_manufacture_data ?p ?md 11))"
      using manufacture_data_decoded [OF assms(3-6)] by (simp add: eir_field_mdata md add.commute)
    have "eir_loop ?eir ?n (5 + ?l) 1 ?p = eir_loop ?eir ?n (5 + ?l + length ?md + 2) 2 (snd (to_decode_eir_manufacture_data ?p ?md 11))"
      by (rule eir_loop_step [OF e(3) _ _ _ _ f]) (use n assms(2) md in simp_all)
    then show ?thesis by (simp add: add.commute)
  qed
  also have "\<dots> = Some (True, ?n, 2, snd (to_decode_eir_manufacture_data ?p ?md 11))"
    using n md by (subst eir_loop.simps) simp
  finally show ?thesis
    unfolding manufacture_data_decoded [OF assms(3-6)] using n by (simp add: app_hci_decode_eir_def zero_ad_packet_def)
qed

text \<open>
  C19: A sensor's advertisement in range is accepted, and its name, counter, temperature and versions are decoded as it carries them; but
  each of the two 16-bit raw values, voltage and board temperature, comes out smaller than the sensor sent it by its high byte, because the code
  joins the two bytes with the factor 0xFF: 0x0F00, which is 3840, becomes 3825.
\<close>

theorem sensor_advertisement_decoded:
  assumes "take 3 nm = [0x53, 0x49, 0x54]" "length nm \<le> 30"
    and "1 \<le> unat adc - unat adc div 256" "unat adc - unat adc div 256 \<le> 4607"
    and "87 \<le> unat wire - unat wire div 256" "unat wire - unat wire div 256 \<le> 3210"
    and "adv = sit_adv nm (sit_mdata cnt tp adc hw sw wire)"
  shows "app_hci_decode_eir (adv @ replicate (48 - length adv) 0) (length adv) =
    Some (True, \<lparr>local_name = nm @ replicate (32 - length nm) 0, ad_nameId = 0, advcnt = cnt, sensor_tpval = tp,
      vcc_adc = of_nat (unat adc - unat adc div 256), vcc_val = vcc_of (of_nat (unat adc - unat adc div 256)), hw_version = hw, sw_version = sw,
      wire_bytes = of_nat (unat wire - unat wire div 256), m_tempval = mtemp_of (of_nat (unat wire - unat wire div 256))\<rparr>)"
  using sit_adv_decodes [OF assms] .

theorem sensor_advertisement_decoded_witness:
  "app_hci_decode_eir (sit_adv [0x53, 0x49, 0x54] (sit_mdata 1 22 0x0F00 3 4 0x0465) @ replicate 27 0) 21 =
    Some (True, \<lparr>local_name = [0x53, 0x49, 0x54] @ replicate 29 0, ad_nameId = 0, advcnt = 1, sensor_tpval = 22,
      vcc_adc = 3825, vcc_val = vcc_of 3825, hw_version = 3, sw_version = 4, wire_bytes = 1121, m_tempval = mtemp_of 1121\<rparr>)"
proof -
  have "length (sit_adv [0x53, 0x49, 0x54] (sit_mdata 1 22 0x0F00 3 4 0x0465)) = 21" by (simp add: sit_adv_def sit_mdata_def)
  then show ?thesis
    using sensor_advertisement_decoded [OF _ _ _ _ _ _ refl, of "[0x53, 0x49, 0x54]" "0x0F00" "0x0465" 1 22 3 4] by simp
qed

text \<open>Raw values with the bytes 0xFF, 0x00 and 0x00, 0x01 (low byte first) are not distinguished.\<close>

theorem raw_values_collide:
  "to_decode_eir_manufacture_data pkt (sit_mdata cnt tp 0x00FF hw sw wire) 11 = to_decode_eir_manufacture_data pkt (sit_mdata cnt tp 0x0100 hw sw wire) 11"
  by (simp add: to_decode_eir_manufacture_data_def sit_mdata_def Let_def hi8_def lo8_def)

section \<open>Messages of the pipe\<close>

text \<open>
  A report is written with a checksum that the reader accepts, and a message with the same checksum and one changed byte of the
  report is rejected.
\<close>

theorem pipe_message_corruption_detected:
  assumes "0 \<le> kpfd" "app_hci_report_event kpfd t r True pipe = (st, pipe')"
  shows "st = ST_OK \<and> (\<exists>m. pipe' = pipe @ [m] \<and> pm_report m = r \<and> is_pmsg_packet_valid m
    \<and> (\<forall>m' i b. pm_crc32 m' = pm_crc32 m \<and> i < length (msg_bytes r) \<and> b \<noteq> msg_bytes r ! i \<and> msg_bytes (pm_report m') = (msg_bytes r)[i := b]
          \<longrightarrow> \<not> is_pmsg_packet_valid m'))"
proof -
  have "\<not> is_pmsg_packet_valid m'"
    if "pm_crc32 m' = util_froto_bullet_crc32 (msg_bytes r)" "i < length (msg_bytes r)" "b \<noteq> msg_bytes r ! i"
      "msg_bytes (pm_report m') = (msg_bytes r)[i := b]" for m' i b
    using crc32_detects_byte [of i "msg_bytes r" b] that by (simp add: is_pmsg_packet_valid_def)
  then show ?thesis using assms by (auto simp: app_hci_report_event_def is_pmsg_packet_valid_def)
qed

section \<open>The filter\<close>

lemma find_zip_None:
  assumes "length xs \<le> length ys"
  shows "List.find (\<lambda>(a, n). P a) (zip xs ys) = None \<longleftrightarrow> (\<forall>a\<in>set xs. \<not> P a)"
proof -
  have "set (map fst (zip xs ys)) = set xs" using assms by (simp add: map_fst_zip_take)
  then show ?thesis by (force simp: find_None_iff)
qed

lemma kp_mac_le: "kp_mac_array False a = [ucast (lap a), ucast (drop_bit 8 (lap a)), ucast (drop_bit 16 (lap a)), uap a, lo8 (nap a), hi8 (nap a)]"
  by (simp add: kp_mac_array_def mem16_def mem32_def Let_def)

text \<open>
  On a little-endian machine, after the white list was set to fewer than 40 addresses, a report passes the filter iff its sender's
  address, low byte first, is one of them, or is the zero address.
\<close>

theorem filter_matches_white_list:
  assumes "app_hci_update_bt_white_list (Some as) ids k w = Some w'" "length as = unat k" "unat k < 40"
  shows "does_hci_event_match_filter False w' m \<noteq> None \<longleftrightarrow>
    pm_type m = P_MSG_ADV_REPORT \<and> (rpt_addr (pm_report m) = [0, 0, 0, 0, 0, 0] \<or>
      (\<exists>a \<in> set as. rpt_addr (pm_report m) =
         [ucast (lap a), ucast (drop_bit 8 (lap a)), ucast (drop_bit 16 (lap a)), uap a, lo8 (nap a), hi8 (nap a)]))"
proof -
  have w: "bt_white_list w' = as @ replicate (40 - unat k) zero_bt_addr" "length (nameId w') = 40"
    using assms by (auto simp: app_hci_update_bt_white_list_def Let_def MAX_BT_WHITE_LIST_def split: if_splits)
  then have "set (bt_white_list w') = insert zero_bt_addr (set as)" "length (bt_white_list w') \<le> length (nameId w')"
    using assms by auto
  then have "(\<exists>y. List.find (\<lambda>(a, n). kp_mac_array False a = x) (zip (bt_white_list w') (nameId w')) = Some y) \<longleftrightarrow>
      kp_mac_array False zero_bt_addr = x \<or> (\<exists>a\<in>set as. kp_mac_array False a = x)" for x
    using find_zip_None [of "bt_white_list w'" "nameId w'" "\<lambda>a. kp_mac_array False a = x"] by auto
  moreover have "does_hci_event_match_filter False w' m \<noteq> None \<longleftrightarrow> pm_type m = P_MSG_ADV_REPORT \<and>
      (\<exists>y. List.find (\<lambda>(a, n). kp_mac_array False a = rpt_addr (pm_report m)) (zip (bt_white_list w') (nameId w')) = Some y)"
    by (auto simp: does_hci_event_match_filter_def)
  moreover have "kp_mac_array False zero_bt_addr = [0, 0, 0, 0, 0, 0]" by (simp add: kp_mac_le zero_bt_addr_def)
  ultimately show ?thesis unfolding kp_mac_le [symmetric] by (simp add: eq_commute [of "rpt_addr (pm_report m)"])
qed

theorem filter_matches_white_list_witness:
  "does_hci_event_match_filter False \<lparr>bt_white_list = \<lparr>nap = 0x0102, uap = 3, lap = 0x040506\<rparr> # replicate 39 zero_bt_addr, nameId = 7 # replicate 39 0\<rparr>
     \<lparr>pm_type = P_MSG_ADV_REPORT, pm_report = \<lparr>event_type = 0, addr_type = 0, rpt_addr = [6, 5, 4, 3, 2, 1], rpt_rssi = 0, dtlen = 0, raw_pkt = []\<rparr>,
       pm_crc32 = 0\<rparr> \<noteq> None"
  using filter_matches_white_list [of "[\<lparr>nap = 0x0102, uap = 3, lap = 0x040506\<rparr>]" "[7]" 1 "\<lparr>bt_white_list = [], nameId = []\<rparr>"
    "\<lparr>bt_white_list = \<lparr>nap = 0x0102, uap = 3, lap = 0x040506\<rparr> # replicate 39 zero_bt_addr, nameId = 7 # replicate 39 0\<rparr>"
    "\<lparr>pm_type = P_MSG_ADV_REPORT, pm_report = \<lparr>event_type = 0, addr_type = 0, rpt_addr = [6, 5, 4, 3, 2, 1], rpt_rssi = 0, dtlen = 0, raw_pkt = []\<rparr>,
       pm_crc32 = 0\<rparr>"]
  by (simp add: app_hci_update_bt_white_list_def Let_def MAX_BT_WHITE_LIST_def hi8_def lo8_def)

theorem pipe_message_corruption_detected_witness:
  "\<exists>m. is_pmsg_packet_valid m \<and> pm_report m = \<lparr>event_type = 0, addr_type = 0, rpt_addr = [6, 5, 4, 3, 2, 1], rpt_rssi = 0, dtlen = 0, raw_pkt = []\<rparr>"
  using pipe_message_corruption_detected [of 3 1 "\<lparr>event_type = 0, addr_type = 0, rpt_addr = [6, 5, 4, 3, 2, 1], rpt_rssi = 0, dtlen = 0, raw_pkt = []\<rparr>" "[]"]
  by (auto simp: app_hci_report_event_def)

end
