(* ===== verification/Hci_Save.thy ===== *)
theory Hci_Save
  imports Hci_Adv
begin

text \<open>
  Advertisements of Insight-T temperature sensors, second part of \<^verbatim>\<open>src/skf_gw/source/src/ble/app_hci_evt_mgmt_new.c\<close>, and the
  writing of their values to the database process, \<^verbatim>\<open>src/skf_gw/source/src/general/app_db.c\<close>.  The latest packet of every sensor is kept
  in a first queue until the sensor has been silent for two seconds; then it is moved to a second queue, and from there its four values are sent one
  after the other.

  Both queues own their packets and are lists of packets here; the linked queue that implements them is the subject of
  \<^verbatim>\<open>Ell_Queue\<close>.  \<^verbatim>\<open>l_malloc\<close> ends the program when there is no memory, and so neither allocation nor putting into
  a queue fails.  What the operating system decides is input: the time of every call of \<^verbatim>\<open>time\<close> and
  the success of every \<^verbatim>\<open>msgsnd\<close>.
\<close>

section \<open>Packets and rows of the sensor data table\<close>

type_synonym u64 = "64 word"

record sit_dtpacket =
  tstamp :: u64
  dp_event_type :: u8
  dp_addr_type :: u8
  dp_addr :: bytes
  dp_rssi :: u8
  ad_data :: sit_ad_packet

datatype sit_data_type = SIT_DT_MTEMP | SIT_DT_ETEMP | SIT_DT_RSSI | SIT_DT_VCC

text \<open>A value of a row; the union holds the member that was written last.\<close>

datatype gw_value = Data_char bytes | Data_float rat | Data_int8 u8 | Data_uint32 u32 | Data_uint64 u64

type_synonym gw_pro_data_t = "u32 \<times> gw_value"

text \<open>C strings: the bytes before the first zero.  The upper-case hexadecimal digits of a byte.\<close>

definition c_string :: "bytes \<Rightarrow> bytes" where
  "c_string = takeWhile (\<lambda>b. b \<noteq> 0)"

definition ascii :: "string \<Rightarrow> bytes" where
  "ascii = map of_char"

definition upper_digit :: "nat \<Rightarrow> u8" where
  "upper_digit n = of_nat (if n < 10 then 48 + n else 55 + n)"

definition hex_pair :: "u8 \<Rightarrow> bytes" where
  "hex_pair b = [upper_digit (unat b div 16), upper_digit (unat b mod 16)]"

definition sit_measurement_type :: "sit_data_type \<Rightarrow> u32" where
  "sit_measurement_type t = (case t of SIT_DT_MTEMP \<Rightarrow> 21 | SIT_DT_ETEMP \<Rightarrow> 13 | SIT_DT_RSSI \<Rightarrow> 42 | SIT_DT_VCC \<Rightarrow> 29)"

definition sit_unit :: "sit_data_type \<Rightarrow> u32" where
  "sit_unit t = (case t of SIT_DT_MTEMP \<Rightarrow> 4 | SIT_DT_ETEMP \<Rightarrow> 4 | SIT_DT_RSSI \<Rightarrow> 21 | SIT_DT_VCC \<Rightarrow> 5)"

definition sit_format :: "sit_data_type \<Rightarrow> u32" where
  "sit_format t = (case t of SIT_DT_MTEMP \<Rightarrow> 7 | SIT_DT_ETEMP \<Rightarrow> 6 | SIT_DT_RSSI \<Rightarrow> 6 | SIT_DT_VCC \<Rightarrow> 7)"

definition sit_value :: "sit_dtpacket \<Rightarrow> sit_data_type \<Rightarrow> gw_value" where
  "sit_value p t = (case t of
     SIT_DT_MTEMP \<Rightarrow> Data_float (m_tempval (ad_data p)) | SIT_DT_ETEMP \<Rightarrow> Data_int8 (sensor_tpval (ad_data p))
   | SIT_DT_RSSI \<Rightarrow> Data_int8 (dp_rssi p) | SIT_DT_VCC \<Rightarrow> Data_float (vcc_val (ad_data p)))"

definition to_fill_dtunit_array_for_sensordata_writing_sit :: "sit_dtpacket \<Rightarrow> sit_data_type \<Rightarrow> gw_pro_data_t list" where
  "to_fill_dtunit_array_for_sensordata_writing_sit p t =
     [(2, Data_uint32 (ad_nameId (ad_data p))),
      (3, Data_char (c_string (local_name (ad_data p)))),
      (4, Data_char (concat (map hex_pair (dp_addr p)))),
      (5, Data_char (ascii ''Insight-T'')),
      (6, Data_char (ascii ''SKF'')),
      (7, Data_uint32 (ucast (advcnt (ad_data p)))),
      (8, Data_uint64 (tstamp p)),
      (9, Data_uint64 (tstamp p)),
      (10, Data_uint32 0),
      (11, Data_uint32 (sit_measurement_type t)),
      (12, Data_char (ascii ''Digit'')),
      (13, Data_uint32 0),
      (14, Data_uint32 (sit_unit t)),
      (15, Data_uint32 1),
      (16, Data_uint32 1),
      (17, Data_uint32 0),
      (18, Data_uint32 (sit_format t)),
      (19, Data_uint32 0),
      (20, Data_uint32 0),
      (21, sit_value p t),
      (22, Data_float 0),
      (23, Data_uint32 7),
      (24, Data_uint32 0)]"

text \<open>The columns of the table; a message leaves out the first and the last.\<close>

definition SensorData :: "string list" where
  "SensorData = [''SequenceNumber'', ''nameId'', ''BLESensorName'', ''macAddr'', ''type'', ''manufacturer'', ''measureseqno'', ''sampletime'',
     ''ReceivedTimestamp'', ''measurement'', ''DataType'', ''Format'', ''range'', ''unit'', ''measurelengthsample'', ''totaldatalengthsample'',
     ''dimension'', ''dataformat'', ''sampleperiods'', ''encryp'', ''value'', ''sample_rate'', ''product'', ''sensor'', ''Sent'']"

section \<open>Commands to the database process\<close>

record update_command =
  msg_from :: nat
  msgTimestamp_s :: u64
  seqNo :: u32
  current_package :: u32
  total_package :: u32
  comRespFg :: u8
  command_code :: u8
  commandId :: u32
  table_idx :: u32
  itemIdx :: u32
  dataNum :: u32
  updateData :: "gw_pro_data_t list"

definition CMD_ID_CNT_INITIALIZER :: u32 where "CMD_ID_CNT_INITIALIZER = 10"
definition CMD_ID_CNT_MAX :: u32 where "CMD_ID_CNT_MAX = 0xFFFFFFFF"

definition app_db_allocate_ipc_seqno :: "u32 \<Rightarrow> u32 \<times> u32" where
  "app_db_allocate_ipc_seqno cnt =
     (let cnt = (if cnt < CMD_ID_CNT_INITIALIZER \<or> CMD_ID_CNT_MAX \<le> cnt then CMD_ID_CNT_INITIALIZER else cnt) in (cnt, cnt + 1))"

text \<open>
  The link to the database process: the counter, the messages sent, and what the system will answer: the time of
  the next messages and whether the message queue takes them.  A message for which there is no answer is not taken.
\<close>

record db_link =
  command_id_cnt :: u32
  sent :: "update_command list"
  answers :: "(u64 \<times> bool) list"

definition next_answer :: "db_link \<Rightarrow> u64 \<times> bool" where
  "next_answer k = (case answers k of [] \<Rightarrow> (0, False) | a # as \<Rightarrow> a)"

definition app_db_deliver_sensordata_sit_to_db_noblock :: "sit_dtpacket \<Rightarrow> sit_data_type \<Rightarrow> db_link \<Rightarrow> app_state_t \<times> db_link" where
  "app_db_deliver_sensordata_sit_to_db_noblock p t k =
     (let dtunit = to_fill_dtunit_array_for_sensordata_writing_sit p t;
          (seqno, cnt) = app_db_allocate_ipc_seqno (command_id_cnt k);
          n = length SensorData - 2;
          (now, ok) = next_answer k;
          msg = \<lparr>msg_from = 0, msgTimestamp_s = now, seqNo = seqno, current_package = 1, total_package = 1, comRespFg = 1, command_code = 0, commandId = seqno,
                 table_idx = 4, itemIdx = 0, dataNum = of_nat n, updateData = map (\<lambda>i. dtunit ! (i mod 100)) [0..<n]\<rparr>;
          k = k\<lparr>command_id_cnt := cnt, answers := tl (answers k)\<rparr> in
      if \<not> ok then (ST_ERR, k) else (ST_OK, k\<lparr>sent := sent k @ [msg]\<rparr>))"

section \<open>The queues\<close>

record saving_controller =
  pt_queue :: "sit_dtpacket list"
  pt_waiting_queue :: "sit_dtpacket list"
  allowed :: white_list
  hld_dtpkt_to_written :: "sit_dtpacket option"
  hld_process_idx :: u8
  link :: db_link

text \<open>Initialisation answers \<^term>\<open>False\<close> on every path; \<^term>\<open>mtx_ok\<close> says whether the mutex can be created.\<close>

definition app_hci_init_dtpacket_saving_ctr :: "bool \<Rightarrow> saving_controller \<Rightarrow> bool \<times> saving_controller" where
  "app_hci_init_dtpacket_saving_ctr mtx_ok c =
     (let c = c\<lparr>pt_queue := [], pt_waiting_queue := []\<rparr> in if \<not> mtx_ok then (False, c) else (False, c))"

definition q_match_sit_dtpacket :: "sit_dtpacket \<Rightarrow> bytes \<Rightarrow> bool" where
  "q_match_sit_dtpacket p a \<longleftrightarrow> dp_addr p = a"

fun update_first :: "('a \<Rightarrow> bool) \<Rightarrow> 'a \<Rightarrow> 'a list \<Rightarrow> 'a list" where
  "update_first P v [] = []"
| "update_first P v (x # xs) = (if P x then v # xs else x # update_first P v xs)"

definition new_dtpacket :: "u64 \<Rightarrow> msg_adv_report \<Rightarrow> sit_ad_packet \<Rightarrow> sit_dtpacket" where
  "new_dtpacket now r ad = \<lparr>tstamp = now, dp_event_type = event_type r, dp_addr_type = addr_type r, dp_addr = rev (rpt_addr r),
     dp_rssi = rpt_rssi r, ad_data = ad\<rparr>"

definition app_hci_append_dtpacket :: "u64 \<Rightarrow> msg_adv_report \<Rightarrow> sit_ad_packet \<Rightarrow> saving_controller \<Rightarrow> app_state_t \<times> saving_controller" where
  "app_hci_append_dtpacket now r ad c =
     (let kp_btaddr = rev (rpt_addr r); p = new_dtpacket now r ad; f = (\<lambda>p. q_match_sit_dtpacket p kp_btaddr) in
      case List.find f (pt_queue c) of
        Some _ \<Rightarrow> (ST_OK, c\<lparr>pt_queue := update_first f p (pt_queue c)\<rparr>)
      | None \<Rightarrow> (ST_OK, c\<lparr>pt_queue := pt_queue c @ [p]\<rparr>))"

text \<open>A time of zero is taken for a missing parameter.\<close>

definition SIT_ADV_WAITTING_GAP :: u64 where "SIT_ADV_WAITTING_GAP = 2"

definition q_match_remove_adv_dataunit :: "u32 \<Rightarrow> sit_dtpacket \<Rightarrow> bool" where
  "q_match_remove_adv_dataunit kp_tstamp p \<longleftrightarrow> \<not> (kp_tstamp = 0 \<or> ucast kp_tstamp - tstamp p < SIT_ADV_WAITTING_GAP)"

text \<open>The first loop: every packet that matches is taken from the first queue and put into the second one, unless that is full.\<close>

function move_loop :: "u32 \<Rightarrow> sit_dtpacket list \<Rightarrow> sit_dtpacket list \<Rightarrow> sit_dtpacket list \<times> sit_dtpacket list" where
  "move_loop now q w =
     (case List.extract (q_match_remove_adv_dataunit now) q of
        None \<Rightarrow> (q, w)
      | Some (ys, p, zs) \<Rightarrow> if length w > 0x100 then move_loop now (ys @ zs) w else move_loop now (ys @ zs) (w @ [p]))"
  by pat_completeness auto
termination by (relation "measure (\<lambda>(now, q, w). length q)") (auto dest!: extract_SomeE)

declare move_loop.simps [simp del]

text \<open>The stages of one packet from the current one on: the index that failed, if any.\<close>

fun deliver_from :: "sit_dtpacket \<Rightarrow> (u8 \<times> sit_data_type) list \<Rightarrow> db_link \<Rightarrow> u8 option \<times> db_link" where
  "deliver_from p [] k = (None, k)"
| "deliver_from p ((i, t) # ts) k =
     (case app_db_deliver_sensordata_sit_to_db_noblock p t k of
        (ST_OK, k) \<Rightarrow> deliver_from p ts k
      | (ST_ERR, k) \<Rightarrow> (Some i, k))"

definition sit_stages :: "(u8 \<times> sit_data_type) list" where
  "sit_stages = [(0, SIT_DT_MTEMP), (1, SIT_DT_ETEMP), (2, SIT_DT_RSSI), (3, SIT_DT_VCC)]"

function write_loop :: "sit_dtpacket option \<Rightarrow> u8 \<Rightarrow> sit_dtpacket list \<Rightarrow> db_link \<Rightarrow> app_state_t \<times> sit_dtpacket option \<times> u8 \<times> sit_dtpacket list \<times> db_link" where
  "write_loop None idx w k = (ST_OK, None, idx, w, k)"
| "write_loop (Some p) idx w k =
     (if unat idx \<le> 3
      then case deliver_from p (drop (unat idx) sit_stages) k of
          (Some i, k) \<Rightarrow> (ST_ERR, Some p, i, w, k)
        | (None, k) \<Rightarrow> (case w of [] \<Rightarrow> write_loop None 0 [] k | p # w \<Rightarrow> write_loop (Some p) 0 w k)
      else write_loop None 0 w k)"
  by pat_completeness auto
termination by (relation "measure (\<lambda>(h, idx, w, k). length w + (if h = None then 0 else 1))") auto

declare write_loop.simps(2) [simp del]

definition app_hci_save_sit_adv_data_all :: "u64 \<Rightarrow> saving_controller \<Rightarrow> app_state_t \<times> saving_controller" where
  "app_hci_save_sit_adv_data_all now c =
     (let (q, w) = move_loop (ucast now) (pt_queue c) (pt_waiting_queue c);
          c = c\<lparr>pt_queue := q, pt_waiting_queue := w\<rparr> in
      if hld_dtpkt_to_written c = None \<and> w = [] then (ST_ERR, c)
      else let c = (if hld_dtpkt_to_written c = None
                    then c\<lparr>hld_dtpkt_to_written := Some (hd w), pt_waiting_queue := tl w, hld_process_idx := 0\<rparr> else c);
               (r, h, idx, w, k) = write_loop (hld_dtpkt_to_written c) (hld_process_idx c) (pt_waiting_queue c) (link c) in
        (r, c\<lparr>hld_dtpkt_to_written := h, hld_process_idx := idx, pt_waiting_queue := w, link := k\<rparr>))"

section \<open>The thread\<close>

text \<open>
  One turn of the thread: the message that was read, if a whole one was, and the answers of the system to the two passes over the queues and
  the packet between them.  A read outside an array has no result.  Between the turns another thread may set the white list.
\<close>

record turn_input =
  received :: "pipe_msg option"
  time1 :: u64
  answers1 :: "(u64 \<times> bool) list"
  time2 :: u64
  time3 :: u64
  answers3 :: "(u64 \<times> bool) list"

definition save_pass :: "u64 \<Rightarrow> (u64 \<times> bool) list \<Rightarrow> saving_controller \<Rightarrow> saving_controller" where
  "save_pass now as c = snd (app_hci_save_sit_adv_data_all now (c\<lparr>link := (link c)\<lparr>answers := as\<rparr>\<rparr>))"

definition thandler_hci_event_turn :: "bool \<Rightarrow> turn_input \<Rightarrow> saving_controller \<Rightarrow> saving_controller option" where
  "thandler_hci_event_turn big i c =
     (case received i of
        None \<Rightarrow> Some c
      | Some m \<Rightarrow>
          let c = save_pass (time1 i) (answers1 i) c in
          if \<not> is_pmsg_packet_valid m then Some c
          else case does_hci_event_match_filter big (allowed c) m of
              None \<Rightarrow> Some c
            | Some name \<Rightarrow> do {
                (ok, ad) \<leftarrow> app_hci_decode_eir (raw_pkt (pm_report m)) (unat (dtlen (pm_report m)));
                if \<not> ok then Some c
                else Some (save_pass (time3 i) (answers3 i) (snd (app_hci_append_dtpacket (time2 i) (pm_report m) (ad\<lparr>ad_nameId := name\<rparr>) c))) })"

inductive hci_step :: "bool \<Rightarrow> saving_controller \<Rightarrow> saving_controller \<Rightarrow> bool" for big where
  turn: "thandler_hci_event_turn big i c = Some c' \<Longrightarrow> hci_step big c c'"
| allow: "app_hci_update_bt_white_list addrs ids n (allowed c) = Some w \<Longrightarrow> hci_step big c (c\<lparr>allowed := w\<rparr>)"

inductive_cases hci_stepE: "hci_step big c c'"

section \<open>Rows\<close>

lemma rows_length [simp]: "length (to_fill_dtunit_array_for_sensordata_writing_sit p t) = 23"
  by (simp add: to_fill_dtunit_array_for_sensordata_writing_sit_def)

lemma map_nth_mod: "length xs = n \<Longrightarrow> n \<le> m \<Longrightarrow> map (\<lambda>i. xs ! (i mod m)) [0..<n] = xs"
  by (rule nth_equalityI) auto

lemma columns: "length SensorData = 25"
  by (simp add: SensorData_def)

definition rows :: "db_link \<Rightarrow> gw_pro_data_t list list" where
  "rows k = map updateData (sent k)"

lemma deliver_ok:
  assumes "app_db_deliver_sensordata_sit_to_db_noblock p t k = (r, k')"
  shows "rows k' = rows k @ (if r = ST_OK then [to_fill_dtunit_array_for_sensordata_writing_sit p t] else [])"
    "r = ST_OK \<longleftrightarrow> snd (next_answer k)" "answers k' = tl (answers k)"
  using assms
  by (auto simp: app_db_deliver_sensordata_sit_to_db_noblock_def Let_def rows_def columns map_nth_mod split: prod.splits if_splits)

section \<open>Moving packets to the waiting queue\<close>

lemma move_loop_eq:
  "move_loop now q w = (filter (\<lambda>p. \<not> q_match_remove_adv_dataunit now p) q, w @ take (257 - length w) (filter (q_match_remove_adv_dataunit now) q))"
proof (induction now q w rule: move_loop.induct)
  case (1 now q w)
  show ?case
  proof (cases "List.extract (q_match_remove_adv_dataunit now) q")
    case None
    then have "filter (q_match_remove_adv_dataunit now) q = []" "filter (\<lambda>p. \<not> q_match_remove_adv_dataunit now p) q = q"
      by (auto simp: extract_None_iff filter_empty_conv filter_id_conv)
    then show ?thesis using None by (subst move_loop.simps) simp
  next
    case (Some a)
    obtain ys p zs where a: "a = (ys, p, zs)" by (cases a)
    have q: "q = ys @ p # zs" "q_match_remove_adv_dataunit now p" "filter (q_match_remove_adv_dataunit now) ys = []"
      using extract_SomeE [OF Some [unfolded a]] by (auto simp: filter_empty_conv)
    show ?thesis
    proof (cases "length w > 0x100")
      case True
      then show ?thesis using 1(1) [OF Some a [symmetric] refl True] q Some a by (subst move_loop.simps) simp
    next
      case False
      then have "257 - length w = Suc (257 - length (w @ [p]))" by simp
      then show ?thesis using 1(2) [OF Some a [symmetric] refl False] q Some a False by (subst move_loop.simps) simp
    qed
  qed
qed

section \<open>Sending the rows\<close>

text \<open>What has still to be sent: the rest of the packet in progress and the four rows of each waiting one.\<close>

definition rows_from :: "sit_dtpacket \<Rightarrow> nat \<Rightarrow> gw_pro_data_t list list" where
  "rows_from p i = map (\<lambda>(j, t). to_fill_dtunit_array_for_sensordata_writing_sit p t) (drop i sit_stages)"

definition pending :: "sit_dtpacket option \<Rightarrow> u8 \<Rightarrow> sit_dtpacket list \<Rightarrow> gw_pro_data_t list list" where
  "pending h idx w = (case h of None \<Rightarrow> [] | Some p \<Rightarrow> rows_from p (unat idx)) @ concat (map (\<lambda>p. rows_from p 0) w)"

lemma deliver_from_None:
  "deliver_from p ts k = (None, k') \<Longrightarrow> rows k' = rows k @ map (\<lambda>(j, t). to_fill_dtunit_array_for_sensordata_writing_sit p t) ts"
proof (induction p ts k rule: deliver_from.induct)
  case (2 p i t ts k)
  obtain x k1 where d: "app_db_deliver_sensordata_sit_to_db_noblock p t k = (x, k1)" by fastforce
  then show ?case using 2 deliver_ok(1) [OF d] by (cases x) auto
qed simp

lemma deliver_from_Some:
  "deliver_from p ts k = (Some j, k') \<Longrightarrow>
     \<exists>us t vs. ts = us @ (j, t) # vs \<and> rows k' = rows k @ map (\<lambda>(j, t). to_fill_dtunit_array_for_sensordata_writing_sit p t) us"
proof (induction p ts k rule: deliver_from.induct)
  case (2 p i t ts k)
  obtain x k1 where d: "app_db_deliver_sensordata_sit_to_db_noblock p t k = (x, k1)" by fastforce
  show ?case
  proof (cases x)
    case ST_OK
    then have "deliver_from p ts k1 = (Some j, k')" using 2(2) d by simp
    then obtain us t' vs where "ts = us @ (j, t') # vs"
      "rows k' = rows k1 @ map (\<lambda>(j, t). to_fill_dtunit_array_for_sensordata_writing_sit p t) us" using 2(1) [OF d [symmetric] ST_OK] by blast
    then have "(i, t) # ts = ((i, t) # us) @ (j, t') # vs"
      "rows k' = rows k @ map (\<lambda>(j, t). to_fill_dtunit_array_for_sensordata_writing_sit p t) ((i, t) # us)"
      using deliver_ok(1) [OF d] ST_OK by simp_all
    then show ?thesis by blast
  next
    case ST_ERR
    then have "(i, t) # ts = [] @ (j, t) # ts" "rows k' = rows k" using 2(2) d deliver_ok(1) [OF d] by auto
    then show ?thesis by (metis append_Nil2 list.simps(8))
  qed
qed simp

lemma stage_index:
  assumes "drop i sit_stages = us @ (j, t) # vs"
  shows "unat j \<le> 3 \<and> drop (unat j) sit_stages = (j, t) # vs"
proof -
  have "sit_stages = (take i sit_stages @ us) @ (j, t) # vs" using assms append_take_drop_id [of i sit_stages] by simp
  then obtain n where n: "n < length sit_stages" "sit_stages ! n = (j, t)" "drop n sit_stages = (j, t) # vs"
    by (metis append_eq_conv_conj length_append length_Cons less_add_same_cancel1 nth_append_length zero_less_Suc)
  then have "n \<in> {0, 1, 2, 3}" by (auto simp: sit_stages_def)
  then show ?thesis using n by (auto simp: sit_stages_def)
qed

lemma write_loop_conserves:
  assumes "write_loop h idx w k = (r, h', idx', w', k')" "unat idx \<le> 3"
  shows "rows k' @ pending h' idx' w' = rows k @ pending h idx w \<and> unat idx' \<le> 3"
  using assms
proof (induction h idx w k rule: write_loop.induct)
  case (2 p idx w k)
  obtain x k1 where d: "deliver_from p (drop (unat idx) sit_stages) k = (x, k1)" by fastforce
  show ?case
  proof (cases x)
    case None
    then have "rows k1 = rows k @ rows_from p (unat idx)" using deliver_from_None d by (simp add: rows_from_def)
    then show ?thesis using 2 d None
      by (auto simp: write_loop.simps(2) pending_def split: list.splits)
  next
    case (Some j)
    then obtain us t vs where u: "drop (unat idx) sit_stages = us @ (j, t) # vs"
      "rows k1 = rows k @ map (\<lambda>(j, t). to_fill_dtunit_array_for_sensordata_writing_sit p t) us"
      using deliver_from_Some d by metis
    then have "rows k1 @ rows_from p (unat j) = rows k @ rows_from p (unat idx)"
      using stage_index [OF u(1)] by (simp add: rows_from_def)
    then show ?thesis using 2 d Some stage_index [OF u(1)] by (auto simp: write_loop.simps(2) pending_def)
  qed
qed simp

lemma write_loop_ok:
  assumes "write_loop h idx w k = (r, h', idx', w', k')" "h = None \<longrightarrow> w = []" "unat idx \<le> 3"
  shows "(r = ST_OK \<longrightarrow> h' = None \<and> w' = []) \<and> length w' \<le> length w \<and> set w' \<subseteq> set w \<and> set_option h' \<subseteq> set_option h \<union> set w"
  using assms
proof (induction h idx w k rule: write_loop.induct)
  case (2 p idx w k)
  obtain x k1 where d: "deliver_from p (drop (unat idx) sit_stages) k = (x, k1)" by fastforce
  show ?case
  proof (cases x)
    case None
    note ih = 2(2) [OF 2(6) d [symmetric] None]
    show ?thesis
    proof (cases w)
      case Nil
      then show ?thesis using 2(4,6) d None by (simp add: write_loop.simps(2))
    next
      case (Cons p' w1)
      then have "write_loop (Some p') 0 w1 k1 = (r, h', idx', w', k')" using 2(4,6) d None by (simp add: write_loop.simps(2))
      then show ?thesis using ih [OF Cons] Cons by auto
    qed
  next
    case (Some j)
    then show ?thesis using 2(4,6) d by (auto simp: write_loop.simps(2))
  qed
qed simp

lemma deliver_from_all_taken:
  assumes "length ts \<le> length (answers k)" "\<forall>a\<in>set (answers k). snd a"
  shows "\<exists>k'. deliver_from p ts k = (None, k') \<and> answers k' = drop (length ts) (answers k)"
  using assms
proof (induction p ts k rule: deliver_from.induct)
  case (2 p i t ts k)
  obtain x k1 where d: "app_db_deliver_sensordata_sit_to_db_noblock p t k = (x, k1)" by fastforce
  obtain a as where a: "answers k = a # as" using 2(2) by (cases "answers k") auto
  then have "x = ST_OK" using deliver_ok(2) [OF d] 2(3) by (simp add: next_answer_def)
  then show ?case using 2(1) [OF d [symmetric]] 2(2,3) deliver_ok(3) [OF d] d a by auto
qed simp

lemma stages_length [simp]: "length sit_stages = 4"
  by (simp add: sit_stages_def)

lemma write_loop_all_taken:
  assumes "4 * (length w + 1) \<le> length (answers k)" "\<forall>a\<in>set (answers k). snd a" "unat idx \<le> 3"
  shows "fst (write_loop (Some p) idx w k) = ST_OK"
  using assms
proof (induction w arbitrary: p idx k)
  case Nil
  then have "length (drop (unat idx) sit_stages) \<le> length (answers k)" by simp
  from deliver_from_all_taken [OF this Nil(2), of p] show ?case using Nil by (auto simp: write_loop.simps(2))
next
  case (Cons p' w)
  then have "length (drop (unat idx) sit_stages) \<le> length (answers k)" by simp
  from deliver_from_all_taken [OF this Cons(3), of p]
  obtain k' where k: "deliver_from p (drop (unat idx) sit_stages) k = (None, k')" "answers k' = drop (4 - unat idx) (answers k)" by auto
  have "4 * (length w + 1) \<le> length (answers k')" "\<forall>a\<in>set (answers k'). snd a"
    using k(2) Cons by (auto dest: in_set_dropD)
  then have "fst (write_loop (Some p') 0 w k') = ST_OK" by (intro Cons(1)) simp_all
  moreover have "write_loop (Some p) idx (p' # w) k = write_loop (Some p') 0 w k'"
    by (subst write_loop.simps(2)) (use Cons(4) k(1) in simp)
  ultimately show ?case by simp
qed

section \<open>Passes over the queues\<close>

text \<open>The rows that a controller still has to send, and the packets that a pass takes over from the first queue.\<close>

definition pending_rows :: "saving_controller \<Rightarrow> gw_pro_data_t list list" where
  "pending_rows c = pending (hld_dtpkt_to_written c) (hld_process_idx c) (pt_waiting_queue c)"

definition taken_over :: "u64 \<Rightarrow> saving_controller \<Rightarrow> sit_dtpacket list" where
  "taken_over now c = take (257 - length (pt_waiting_queue c)) (filter (q_match_remove_adv_dataunit (ucast now)) (pt_queue c))"

lemma save_pass_queues:
  assumes "app_hci_save_sit_adv_data_all now c = (r, c')" "unat (hld_process_idx c) \<le> 3"
  shows "rows (link c') @ pending_rows c' = rows (link c) @ pending_rows c @ concat (map (\<lambda>p. rows_from p 0) (taken_over now c))
    \<and> unat (hld_process_idx c') \<le> 3
    \<and> pt_queue c' = filter (\<lambda>p. \<not> q_match_remove_adv_dataunit (ucast now) p) (pt_queue c)
    \<and> length (pt_waiting_queue c') \<le> length (pt_waiting_queue c @ taken_over now c)
    \<and> set (pt_waiting_queue c') \<union> set_option (hld_dtpkt_to_written c') \<subseteq> set_option (hld_dtpkt_to_written c) \<union> set (pt_waiting_queue c @ taken_over now c)
    \<and> allowed c' = allowed c
    \<and> (4 * (length (pt_waiting_queue c @ taken_over now c) + (if hld_dtpkt_to_written c = None then 0 else 1)) \<le> length (answers (link c)) \<and> (\<forall>a\<in>set (answers (link c)). snd a)
        \<longrightarrow> pending_rows c' = [])"
proof -
  define W where "W = pt_waiting_queue c @ taken_over now c"
  let ?w = W and ?h = "hld_dtpkt_to_written c"
  define h idx w where "h = (if ?h = None then Some (hd ?w) else ?h)" "idx = (if ?h = None then 0 else hld_process_idx c)"
    "w = (if ?h = None then tl ?w else ?w)"
  show ?thesis
  proof (cases "?h = None \<and> ?w = []")
    case True
    then show ?thesis using assms by (auto simp: app_hci_save_sit_adv_data_all_def move_loop_eq taken_over_def pending_rows_def pending_def W_def)
  next
    case False
    obtain r' h' idx' w' k' where l: "write_loop h idx w (link c) = (r', h', idx', w', k')" by (metis prod_cases5)
    have "pending h idx w = pending ?h (hld_process_idx c) W"
      using False by (cases ?h; cases W) (auto simp: pending_def h_idx_w_def)
    then have p: "pending h idx w = pending_rows c @ concat (map (\<lambda>p. rows_from p 0) (taken_over now c))"
      by (simp add: pending_rows_def pending_def W_def)
    have m: "move_loop (ucast now) (pt_queue c) (pt_waiting_queue c) = (filter (\<lambda>p. \<not> q_match_remove_adv_dataunit (ucast now) p) (pt_queue c), W)"
      by (simp add: move_loop_eq W_def taken_over_def)
    have "r = r' \<and> c' = c\<lparr>pt_queue := filter (\<lambda>p. \<not> q_match_remove_adv_dataunit (ucast now) p) (pt_queue c), hld_dtpkt_to_written := h',
      hld_process_idx := idx', pt_waiting_queue := w', link := k'\<rparr>"
    proof (cases ?h)
      case None
      then have "write_loop (Some (hd W)) 0 (tl W) (link c) = (r', h', idx', w', k')" using l by (simp add: h_idx_w_def)
      then show ?thesis using assms(1) False None m by (simp add: app_hci_save_sit_adv_data_all_def Let_def)
    next
      case (Some p)
      then have "write_loop (Some p) (hld_process_idx c) W (link c) = (r', h', idx', w', k')" using l by (simp add: h_idx_w_def)
      then show ?thesis using assms(1) Some m by (simp add: app_hci_save_sit_adv_data_all_def Let_def)
    qed
    moreover have "unat idx \<le> 3" "h \<noteq> None" using assms(2) False by (auto simp: h_idx_w_def)
    moreover have "length w \<le> length ?w" "set w \<union> set_option h \<subseteq> set ?w \<union> set_option ?h"
      using False by (auto simp: h_idx_w_def dest: list.set_sel)
    moreover have "r' = ST_OK" if "4 * (length W + (if ?h = None then 0 else 1)) \<le> length (answers (link c))" "\<forall>a\<in>set (answers (link c)). snd a"
    proof -
      obtain x where "h = Some x" using calculation(3) by auto
      moreover have "length w + 1 \<le> length W + (if ?h = None then 0 else 1)" using False by (cases W) (auto simp: h_idx_w_def)
      then have "4 * (length w + 1) \<le> 4 * (length W + (if ?h = None then 0 else 1))" by (rule mult_le_mono2)
      then have "4 * (length w + 1) \<le> length (answers (link c))" using that(1) by (rule le_trans)
      ultimately show ?thesis using write_loop_all_taken [of w "link c" idx x] that(2) \<open>unat idx \<le> 3\<close> l by simp
    qed
    ultimately have a: "r = ST_OK \<longrightarrow> h' = None \<and> w' = []" "length w' \<le> length W" "set w' \<union> set_option h' \<subseteq> set_option ?h \<union> set W"
        "4 * (length W + (if ?h = None then 0 else 1)) \<le> length (answers (link c)) \<and> (\<forall>a\<in>set (answers (link c)). snd a) \<longrightarrow> r = ST_OK"
      and b: "c' = c\<lparr>pt_queue := filter (\<lambda>p. \<not> q_match_remove_adv_dataunit (ucast now) p) (pt_queue c), hld_dtpkt_to_written := h',
        hld_process_idx := idx', pt_waiting_queue := w', link := k'\<rparr>" and d: "unat idx \<le> 3"
      using write_loop_ok [OF l] by (blast, fastforce, blast, blast, blast, blast)
    have "rows k' @ pending h' idx' w' = rows (link c) @ pending_rows c @ concat (map (\<lambda>p. rows_from p 0) (taken_over now c)) \<and> unat idx' \<le> 3"
      using write_loop_conserves [OF l d] p by simp
    then show ?thesis using a unfolding b W_def [symmetric] by (simp add: pending_rows_def) (simp add: pending_def)
  qed
qed

section \<open>Invariant of the controller\<close>

definition name_terminated :: "sit_ad_packet \<Rightarrow> bool" where
  "name_terminated p \<longleftrightarrow> length (local_name p) = 32 \<and> local_name p ! 31 = 0"

lemma decode_manufacture_name: "local_name (snd (to_decode_eir_manufacture_data p d n)) = local_name p"
  by (simp add: to_decode_eir_manufacture_data_def Let_def)

lemma eir_field_name:
  assumes "eir_field typ eir pos n c p = Some (ok, c', p')" "name_terminated p"
  shows "name_terminated p'"
proof (cases "typ = 0x09 \<and> n < MAX_PKT_INFO")
  case True
  then obtain d where "local_name p' = d @ drop n (local_name p)" "length d = n"
    using assms(1) by (fastforce simp: eir_field_def bytes_at_def Let_def split: if_splits)
  moreover have "n < 32" using True by (simp add: MAX_PKT_INFO_def)
  ultimately show ?thesis using assms(2) by (simp add: name_terminated_def nth_append)
next
  case False
  then show ?thesis using assms decode_manufacture_name [of p "take n (drop pos eir)" n]
    by (auto simp: eir_field_def bytes_at_def name_terminated_def split: if_splits prod.splits)
qed

lemma eir_loop_name:
  "eir_loop eir n len c p = Some (ok, len', c', p') \<Longrightarrow> name_terminated p \<Longrightarrow> name_terminated p'"
proof (induction eir n len c p rule: eir_loop.induct)
  case (1 eir n len c p)
  show ?case
  proof (cases "len < n - 1 \<and> len < length eir \<and> eir ! len \<noteq> 0 \<and> len + unat (eir ! len) + 1 \<le> n \<and> len + 1 < length eir")
    case True
    then obtain ok1 c1 p1 where f: "eir_field (eir ! (len + 1)) eir (len + 2) (unat (eir ! len) - 1) c p = Some (ok1, c1, p1)"
      using 1(2) by (subst (asm) eir_loop.simps) (auto simp: peek_def split: Option.bind_splits)
    then have "name_terminated p1" using eir_field_name 1(3) by blast
    then show ?thesis
      using 1(1) [of "eir ! len" "eir ! (len + 1)" "(ok1, c1, p1)" ok1 "(c1, p1)" c1 p1] 1(2) True f
      by (subst (asm) (2) eir_loop.simps) (auto simp: peek_def split: if_splits)
  next
    case False
    then show ?thesis using 1(2,3) by (subst (asm) eir_loop.simps) (auto simp: peek_def split: if_splits)
  qed
qed

lemma decode_eir_name: "app_hci_decode_eir eir n = Some (ok, p) \<Longrightarrow> name_terminated p"
  using eir_loop_name [of eir n 0 0 zero_ad_packet]
  by (auto simp: app_hci_decode_eir_def name_terminated_def zero_ad_packet_def MAX_PKT_INFO_def split: if_splits Option.bind_splits)

definition packet_ok :: "sit_dtpacket \<Rightarrow> bool" where
  "packet_ok p \<longleftrightarrow> name_terminated (ad_data p)"

definition hci_inv :: "saving_controller \<Rightarrow> bool" where
  "hci_inv c \<longleftrightarrow> distinct (map dp_addr (pt_queue c)) \<and> length (pt_waiting_queue c) \<le> 257 \<and> unat (hld_process_idx c) \<le> 3
     \<and> (\<forall>p \<in> set (pt_queue c) \<union> set (pt_waiting_queue c) \<union> set_option (hld_dtpkt_to_written c). packet_ok p)"

lemma save_pass_inv: "hci_inv c \<Longrightarrow> hci_inv (save_pass now as c) \<and> allowed (save_pass now as c) = allowed c"
proof -
  assume i: "hci_inv c"
  let ?c = "c\<lparr>link := (link c)\<lparr>answers := as\<rparr>\<rparr>"
  obtain r c' where s: "app_hci_save_sit_adv_data_all now ?c = (r, c')" by fastforce
  have i': "hci_inv ?c" using i by (simp add: hci_inv_def)
  then have l: "length (pt_waiting_queue ?c @ taken_over now ?c) \<le> 257"
  proof -
    have "length (taken_over now ?c) \<le> 257 - length (pt_waiting_queue ?c)" by (simp add: taken_over_def)
    moreover have "length (pt_waiting_queue ?c) \<le> 257" using i' by (simp add: hci_inv_def)
    ultimately show ?thesis by simp
  qed
  have t: "set (taken_over now ?c) \<subseteq> set (pt_queue ?c)" by (auto simp: taken_over_def dest: in_set_takeD)
  have "distinct (map dp_addr (filter P (pt_queue ?c)))" for P
    using i' by (simp add: hci_inv_def distinct_map_filter)
  then show ?thesis
    using save_pass_queues [OF s] i' l t s unfolding hci_inv_def save_pass_def
    by simp (blast dest: le_trans)
qed

lemma update_first_same: "(\<And>x. P x \<Longrightarrow> f x = f v) \<Longrightarrow> map f (update_first P v xs) = map f xs"
  by (induction xs) auto

lemma update_first_set: "set (update_first P v xs) \<subseteq> insert v (set xs)"
  by (induction xs) auto

lemma update_first_find: "P v \<Longrightarrow> \<exists>x\<in>set xs. P x \<Longrightarrow> List.find P (update_first P v xs) = Some v"
  by (induction xs) auto

lemma find_snoc: "List.find P xs = None \<Longrightarrow> P v \<Longrightarrow> List.find P (xs @ [v]) = Some v"
  by (induction xs) (auto split: if_splits)

lemma update_first_filter: "P v \<Longrightarrow> (\<And>x. P x \<Longrightarrow> \<not> Q x) \<Longrightarrow> filter Q (update_first P v xs) = filter Q xs"
  by (induction xs) auto

lemma append_dtpacket_inv:
  assumes "hci_inv c" "name_terminated ad"
  shows "hci_inv (snd (app_hci_append_dtpacket now r ad c)) \<and> allowed (snd (app_hci_append_dtpacket now r ad c)) = allowed c"
proof -
  let ?f = "\<lambda>p. q_match_sit_dtpacket p (rev (rpt_addr r))" and ?p = "new_dtpacket now r ad"
  have p: "packet_ok ?p" "dp_addr ?p = rev (rpt_addr r)" using assms(2) by (simp_all add: packet_ok_def new_dtpacket_def)
  have "map dp_addr (update_first ?f ?p (pt_queue c)) = map dp_addr (pt_queue c)"
    by (rule update_first_same) (simp add: q_match_sit_dtpacket_def p(2))
  then have u: "hci_inv (c\<lparr>pt_queue := update_first ?f ?p (pt_queue c)\<rparr>)"
    using assms(1) p(1) update_first_set [of ?f ?p "pt_queue c"] by (auto simp: hci_inv_def)
  have "hci_inv (c\<lparr>pt_queue := pt_queue c @ [?p]\<rparr>)" if "List.find ?f (pt_queue c) = None"
    using assms(1) p that by (auto simp: hci_inv_def find_None_iff q_match_sit_dtpacket_def)
  then show ?thesis using u by (auto simp: app_hci_append_dtpacket_def Let_def split: option.split)
qed

lemma name_terminated_id [simp]: "name_terminated (p\<lparr>ad_nameId := n\<rparr>) = name_terminated p"
  by (simp add: name_terminated_def)

lemma hci_turn_inv: "thandler_hci_event_turn big i c = Some c' \<Longrightarrow> hci_inv c \<Longrightarrow> hci_inv c'"
  unfolding thandler_hci_event_turn_def
  by (auto simp: Let_def save_pass_inv append_dtpacket_inv decode_eir_name split: option.splits if_splits Option.bind_splits
        intro!: save_pass_inv [THEN conjunct1] append_dtpacket_inv [THEN conjunct1])

definition hci_initial :: "saving_controller \<Rightarrow> bool" where
  "hci_initial c \<longleftrightarrow> pt_queue c = [] \<and> pt_waiting_queue c = [] \<and> hld_dtpkt_to_written c = None \<and> hld_process_idx c = 0"

inductive hci_reachable :: "bool \<Rightarrow> saving_controller \<Rightarrow> bool" for big where
  initial: "hci_initial c \<Longrightarrow> hci_reachable big c"
| step: "hci_reachable big c \<Longrightarrow> hci_step big c c' \<Longrightarrow> hci_reachable big c'"

lemma reachable_inv: "hci_reachable big c \<Longrightarrow> hci_inv c"
proof (induction rule: hci_reachable.induct)
  case (initial c)
  then show ?case by (simp add: hci_initial_def hci_inv_def)
next
  case (step c c')
  then show ?case using hci_turn_inv by (auto elim!: hci_stepE simp: hci_inv_def)
qed

section \<open>Properties\<close>

text \<open>
  C22: In every reachable state the first queue holds at most one packet of a sensor, at most 257 packets wait, and every
  name that is kept ends within its array.
\<close>

theorem hci_queues_bounded:
  assumes "hci_reachable big c"
  shows "distinct (map dp_addr (pt_queue c)) \<and> length (pt_waiting_queue c) \<le> 257
    \<and> (\<forall>p \<in> set (pt_queue c) \<union> set (pt_waiting_queue c) \<union> set_option (hld_dtpkt_to_written c).
          length (local_name (ad_data p)) = 32 \<and> local_name (ad_data p) ! 31 = 0)"
  using reachable_inv [OF assms] by (auto simp: hci_inv_def packet_ok_def name_terminated_def)

definition sample_controller :: saving_controller where
  "sample_controller = \<lparr>pt_queue = [], pt_waiting_queue = [], allowed = \<lparr>bt_white_list = [], nameId = []\<rparr>, hld_dtpkt_to_written = None,
     hld_process_idx = 0, link = \<lparr>command_id_cnt = 0, sent = [], answers = []\<rparr>\<rparr>"

lemma sample_reachable: "hci_reachable False sample_controller"
  by (rule hci_reachable.initial) (simp add: hci_initial_def sample_controller_def)

theorem hci_queues_bounded_witness: "length (pt_waiting_queue sample_controller) \<le> 257"
  using hci_queues_bounded [OF sample_reachable] by blast

text \<open>
  C18: Whatever the database process takes: a pass over the queues keeps the sequence of the rows sent followed by the rows still to be sent, and
  only adds the four rows of each packet it takes over, in order.  So no row is lost, repeated or sent out of order.
\<close>

theorem rows_sent_once_in_order:
  assumes "hci_reachable big c" "c' = save_pass now as c"
  shows "map updateData (sent (link c')) @ pending_rows c' =
    map updateData (sent (link c)) @ pending_rows c @
      concat (map (\<lambda>p. map (to_fill_dtunit_array_for_sensordata_writing_sit p) [SIT_DT_MTEMP, SIT_DT_ETEMP, SIT_DT_RSSI, SIT_DT_VCC])
        (take (257 - length (pt_waiting_queue c)) (filter (q_match_remove_adv_dataunit (ucast now)) (pt_queue c))))"
proof -
  let ?c = "c\<lparr>link := (link c)\<lparr>answers := as\<rparr>\<rparr>"
  obtain r where s: "app_hci_save_sit_adv_data_all now ?c = (r, c')" using assms(2) by (cases "app_hci_save_sit_adv_data_all now ?c") (simp add: save_pass_def)
  have "unat (hld_process_idx ?c) \<le> 3" using reachable_inv [OF assms(1)] by (simp add: hci_inv_def)
  from save_pass_queues [OF s this] have "rows (link c') @ pending_rows c' = rows (link ?c) @ pending_rows ?c @ concat (map (\<lambda>p. rows_from p 0) (taken_over now ?c))"
    by blast
  then show ?thesis by (simp add: rows_def pending_rows_def taken_over_def rows_from_def sit_stages_def)
qed

theorem rows_sent_once_in_order_witness:
  "\<exists>c'. map updateData (sent (link c')) @ pending_rows c' = []"
  using rows_sent_once_in_order [OF sample_reachable refl, of 5 "[]"]
  by (simp add: sample_controller_def pending_rows_def pending_def) blast

text \<open>When the message queue takes every message of a pass, nothing is left to be sent after it.\<close>

lemma save_pass_done:
  assumes "hci_inv c" "\<forall>a \<in> set as. snd a" "4 * (length (pt_waiting_queue c) + length (pt_queue c) + (if hld_dtpkt_to_written c = None then 0 else 1)) \<le> length as"
  shows "pending_rows (save_pass now as c) = []"
proof -
  let ?c = "c\<lparr>link := (link c)\<lparr>answers := as\<rparr>\<rparr>"
  obtain r c' where s: "app_hci_save_sit_adv_data_all now ?c = (r, c')" by fastforce
  have "length (taken_over now ?c) \<le> length (filter (q_match_remove_adv_dataunit (ucast now)) (pt_queue c))" by (simp add: taken_over_def)
  also have "\<dots> \<le> length (pt_queue c)" by simp
  finally have "4 * (length (pt_waiting_queue ?c @ taken_over now ?c) + (if hld_dtpkt_to_written ?c = None then 0 else 1)) \<le> length (answers (link ?c))"
    using assms(3) by (auto split: if_splits)
  moreover have "unat (hld_process_idx ?c) \<le> 3" using assms(1) by (simp add: hci_inv_def)
  ultimately show ?thesis using save_pass_queues [OF s] assms(2) s by (simp add: save_pass_def)
qed

theorem all_rows_sent_when_taken:
  assumes "hci_reachable big c" "\<forall>a \<in> set as. snd a" "4 * (length (pt_waiting_queue c) + length (pt_queue c) + (if hld_dtpkt_to_written c = None then 0 else 1)) \<le> length as"
  shows "pending_rows (save_pass now as c) = []"
  using save_pass_done [OF reachable_inv [OF assms(1)] assms(2,3)] .

theorem all_rows_sent_when_taken_witness:
  "pending_rows (save_pass 5 [] sample_controller) = []"
  using all_rows_sent_when_taken [OF sample_reachable, of "[]" 5] by (simp add: sample_controller_def)

text \<open>
  A report becomes the pending packet of its sensor; those of the other sensors stay as they are, and nothing else changes.
\<close>

theorem append_keeps_latest:
  fixes r :: msg_adv_report
  defines "a \<equiv> rev (rpt_addr r)"
  shows "\<exists>q. app_hci_append_dtpacket now r ad c = (ST_OK, c\<lparr>pt_queue := q\<rparr>)
    \<and> List.find (\<lambda>p. dp_addr p = a) q = Some (new_dtpacket now r ad)
    \<and> filter (\<lambda>p. dp_addr p \<noteq> a) q = filter (\<lambda>p. dp_addr p \<noteq> a) (pt_queue c)"
proof (cases "List.find (\<lambda>p. dp_addr p = a) (pt_queue c)")
  case None
  then have "List.find (\<lambda>p. dp_addr p = a) (pt_queue c @ [new_dtpacket now r ad]) = Some (new_dtpacket now r ad)"
    by (intro find_snoc) (simp_all add: new_dtpacket_def a_def)
  moreover have "filter (\<lambda>p. dp_addr p \<noteq> a) (pt_queue c @ [new_dtpacket now r ad]) = filter (\<lambda>p. dp_addr p \<noteq> a) (pt_queue c)"
    by (simp add: new_dtpacket_def a_def)
  moreover have "app_hci_append_dtpacket now r ad c = (ST_OK, c\<lparr>pt_queue := pt_queue c @ [new_dtpacket now r ad]\<rparr>)"
    using None by (simp add: app_hci_append_dtpacket_def Let_def q_match_sit_dtpacket_def a_def)
  ultimately show ?thesis by blast
next
  case (Some x)
  then have "\<exists>x\<in>set (pt_queue c). dp_addr x = a" by (auto simp: find_Some_iff)
  moreover have "dp_addr (new_dtpacket now r ad) = a" by (simp add: new_dtpacket_def a_def)
  ultimately have "List.find (\<lambda>p. dp_addr p = a) (update_first (\<lambda>p. dp_addr p = a) (new_dtpacket now r ad) (pt_queue c)) = Some (new_dtpacket now r ad)"
    "filter (\<lambda>p. dp_addr p \<noteq> a) (update_first (\<lambda>p. dp_addr p = a) (new_dtpacket now r ad) (pt_queue c)) = filter (\<lambda>p. dp_addr p \<noteq> a) (pt_queue c)"
    by (auto intro: update_first_find update_first_filter)
  moreover have "app_hci_append_dtpacket now r ad c = (ST_OK, c\<lparr>pt_queue := update_first (\<lambda>p. dp_addr p = a) (new_dtpacket now r ad) (pt_queue c)\<rparr>)"
    using Some by (simp add: app_hci_append_dtpacket_def Let_def q_match_sit_dtpacket_def a_def)
  ultimately show ?thesis by blast
qed

lemma save_pass_idle:
  assumes "filter (q_match_remove_adv_dataunit (ucast now)) (pt_queue c) = []" "pt_waiting_queue c = []" "hld_dtpkt_to_written c = None"
  shows "save_pass now as c = c\<lparr>link := (link c)\<lparr>answers := as\<rparr>\<rparr>"
proof -
  have "filter (\<lambda>p. \<not> q_match_remove_adv_dataunit (ucast now) p) (pt_queue c) = pt_queue c"
    using assms(1) by (auto simp: filter_empty_conv filter_id_conv)
  then show ?thesis using assms by (simp add: save_pass_def app_hci_save_sit_adv_data_all_def move_loop_eq)
qed

lemma ucast_32:
  fixes now :: u64
  assumes "now < 2 ^ 32"
  shows "ucast (ucast now :: u32) = now" "0 < now \<Longrightarrow> (ucast now :: u32) \<noteq> 0"
proof -
  have "unat now < 2 ^ 32" using assms by (simp add: word_less_nat_alt)
  then have "unat (ucast (ucast now :: u32) :: u64) = unat now"
    by (simp add: unsigned_ucast_eq unsigned_take_bit_eq take_bit_nat_eq_self)
  then show u: "ucast (ucast now :: u32) = now" by (rule word_unat_eq_iff [THEN iffD2])
  show "(ucast now :: u32) \<noteq> 0" if "0 < now"
  proof
    assume "(ucast now :: u32) = 0"
    then have "now = ucast (0 :: u32)" using u by simp
    then show False using that by simp
  qed
qed

text \<open>
  C11: From an advertisement to the database: when the thread receives a valid report of an allowed sensor that decodes, while nothing is pending, and a
  later pass at least two seconds after it finds room in the message queue, then the four rows of that report have been sent.
\<close>

theorem report_reaches_database:
  assumes "hci_reachable big c" "pt_queue c = []" "pt_waiting_queue c = []" "hld_dtpkt_to_written c = None"
    and "received i = Some m" "is_pmsg_packet_valid m" "does_hci_event_match_filter big (allowed c) m = Some name"
    and "app_hci_decode_eir (raw_pkt (pm_report m)) (unat (dtlen (pm_report m))) = Some (True, ad)"
    and "time3 i - time2 i < 2" "time3 i < 2 ^ 32"
    and "2 \<le> now - time2 i" "now < 2 ^ 32" "0 < now"
    and "thandler_hci_event_turn big i c = Some c'" "c'' = save_pass now (replicate 4 (now, True)) c'"
  shows "map updateData (sent (link c'')) = map updateData (sent (link c)) @
    map (to_fill_dtunit_array_for_sensordata_writing_sit (new_dtpacket (time2 i) (pm_report m) (ad\<lparr>ad_nameId := name\<rparr>)))
      [SIT_DT_MTEMP, SIT_DT_ETEMP, SIT_DT_RSSI, SIT_DT_VCC]"
proof -
  let ?p = "new_dtpacket (time2 i) (pm_report m) (ad\<lparr>ad_nameId := name\<rparr>)"
  have f: "filter (q_match_remove_adv_dataunit (ucast (time3 i))) [?p] = []" "filter (q_match_remove_adv_dataunit (ucast now)) [?p] = [?p]"
    using assms(9-13) ucast_32 [of now] ucast_32(1) [of "time3 i"]
    by (auto simp: q_match_remove_adv_dataunit_def new_dtpacket_def SIT_ADV_WAITTING_GAP_def not_less)
  let ?c1 = "c\<lparr>link := (link c)\<lparr>answers := answers1 i\<rparr>\<rparr>"
  have 1: "save_pass (time1 i) (answers1 i) c = ?c1" using assms(2-4) by (intro save_pass_idle) simp_all
  have 2: "app_hci_append_dtpacket (time2 i) (pm_report m) (ad\<lparr>ad_nameId := name\<rparr>) ?c1 = (ST_OK, ?c1\<lparr>pt_queue := [?p]\<rparr>)"
    using assms(2) by (simp add: app_hci_append_dtpacket_def Let_def)
  have 3: "save_pass (time3 i) (answers3 i) (?c1\<lparr>pt_queue := [?p]\<rparr>) = ?c1\<lparr>pt_queue := [?p], link := (link c)\<lparr>answers := answers3 i\<rparr>\<rparr>"
    using assms(3,4) f(1) save_pass_idle [of "time3 i" "?c1\<lparr>pt_queue := [?p]\<rparr>" "answers3 i"] by simp
  have c': "c' = ?c1\<lparr>pt_queue := [?p], link := (link c)\<lparr>answers := answers3 i\<rparr>\<rparr>"
    using assms(5-8,14) 1 2 3 by (simp add: thandler_hci_event_turn_def Let_def)
  have i': "hci_inv c'" using reachable_inv [OF assms(1)] hci_turn_inv [OF assms(14)] by blast
  have d: "pending_rows c'' = []"
    using save_pass_done [OF i', of "replicate 4 (now, True)" now] c' assms(3,4,15) by simp
  let ?c = "c'\<lparr>link := (link c')\<lparr>answers := replicate 4 (now, True)\<rparr>\<rparr>"
  obtain r where s: "app_hci_save_sit_adv_data_all now ?c = (r, c'')"
    using assms(15) by (cases "app_hci_save_sit_adv_data_all now ?c") (simp add: save_pass_def)
  have t: "taken_over now ?c = [?p]" using f(2) c' assms(3) by (simp add: taken_over_def)
  have "unat (hld_process_idx ?c) \<le> 3" using i' by (simp add: hci_inv_def)
  from save_pass_queues [OF s this]
  have "rows (link c'') @ pending_rows c'' = rows (link ?c) @ pending_rows ?c @ rows_from ?p 0" unfolding t by simp
  moreover have "pending_rows ?c = []" "rows (link ?c) = rows (link c)"
    using c' assms(3,4) by (simp_all add: pending_rows_def pending_def rows_def)
  ultimately show ?thesis unfolding d by (simp add: rows_def rows_from_def sit_stages_def)
qed

definition sample_report :: msg_adv_report where
  "sample_report = \<lparr>event_type = 0, addr_type = 0, rpt_addr = [6, 5, 4, 3, 2, 1], rpt_rssi = 0xC8, dtlen = 21,
     raw_pkt = sit_adv [0x53, 0x49, 0x54] (sit_mdata 1 22 0x0F00 3 4 0x0465) @ replicate 27 0\<rparr>"

definition sample_message :: pipe_msg where
  "sample_message = \<lparr>pm_type = P_MSG_ADV_REPORT, pm_report = sample_report, pm_crc32 = util_froto_bullet_crc32 (msg_bytes sample_report)\<rparr>"

definition sample_allowed :: saving_controller where
  "sample_allowed = sample_controller\<lparr>allowed := \<lparr>bt_white_list = [\<lparr>nap = 0x0102, uap = 3, lap = 0x040506\<rparr>], nameId = [7]\<rparr>\<rparr>"

definition sample_input :: turn_input where
  "sample_input = \<lparr>received = Some sample_message, time1 = 100, answers1 = [], time2 = 100, time3 = 101, answers3 = []\<rparr>"

lemma sample_decodes: "\<exists>ad. app_hci_decode_eir (raw_pkt sample_report) (unat (dtlen sample_report)) = Some (True, ad) \<and> advcnt ad = 1"
proof -
  have "length (sit_adv [0x53, 0x49, 0x54] (sit_mdata 1 22 0x0F00 3 4 0x0465)) = 21" by (simp add: sit_adv_def sit_mdata_def)
  then show ?thesis
    using sit_adv_decodes [OF _ _ _ _ _ _ refl, of "[0x53, 0x49, 0x54]" "0x0F00" "0x0465" 1 22 3 4] by (simp add: sample_report_def)
qed

theorem report_reaches_database_witness:
  "\<exists>ad c'. thandler_hci_event_turn False sample_input sample_allowed = Some c' \<and> advcnt ad = 1
    \<and> map updateData (sent (link (save_pass 102 (replicate 4 (102, True)) c'))) =
        map (to_fill_dtunit_array_for_sensordata_writing_sit (new_dtpacket 100 sample_report (ad\<lparr>ad_nameId := 7\<rparr>)))
          [SIT_DT_MTEMP, SIT_DT_ETEMP, SIT_DT_RSSI, SIT_DT_VCC]"
proof -
  obtain ad where d: "app_hci_decode_eir (raw_pkt sample_report) (unat (dtlen sample_report)) = Some (True, ad)" "advcnt ad = 1"
    using sample_decodes by blast
  have r: "hci_reachable False sample_allowed"
    by (rule hci_reachable.initial) (simp add: hci_initial_def sample_allowed_def sample_controller_def)
  have i: "received sample_input = Some sample_message" "is_pmsg_packet_valid sample_message" "pm_report sample_message = sample_report"
    by (simp_all add: sample_input_def sample_message_def is_pmsg_packet_valid_def)
  have f: "does_hci_event_match_filter False (allowed sample_allowed) sample_message = Some 7"
    by (simp add: does_hci_event_match_filter_def sample_allowed_def sample_message_def sample_report_def kp_mac_le hi8_def lo8_def)
  have a: "allowed (save_pass t as sample_allowed) = allowed sample_allowed" for t as
    using save_pass_inv [OF reachable_inv [OF r]] by simp
  obtain c' where t: "thandler_hci_event_turn False sample_input sample_allowed = Some c'"
    using i d f a by (simp add: thandler_hci_event_turn_def Let_def)
  show ?thesis
    using report_reaches_database [OF r _ _ _ i(1,2) f _ _ _ _ _ _ t refl, of ad 102] i d t
    by (auto simp: sample_allowed_def sample_controller_def sample_input_def)
qed

end
