(* ===== verification/Db_Op.thy ===== *)
theory Db_Op
  imports Hci_Save
begin

text \<open>
  Requests of the gateway's threads to the database process, \<^verbatim>\<open>src/skf_gw/source/src/general/app_db.c\<close>: a thread puts a waiting object into
  a queue, sends its command, and sleeps until the thread that receives the messages of the database process has found the
  object by the number of the command and filled in the response.

  What runs under a mutex is one step; the threads' steps interleave in any order.  Waiting objects have addresses, as the queue
  and the thread share them; the linked queue is the list of these addresses.  What a command asks (\<^typ>\<open>'q\<close>) and what the response says
  (\<^typ>\<open>'r\<close>) is left open; the database process is a function \<^term>\<open>answer\<close> from one to the other.  It may handle the commands in any order.
\<close>

section \<open>Waiting objects\<close>

datatype db_op_resp_event = EV_DB_OP_DEFAULT | EV_DB_OP_RESP_RECV | EV_DB_OP_TIMEOUT

record 'r dbop_resp_waiting =
  db_resp_event :: db_op_resp_event
  wo_command_id :: u32
  wo_command :: nat
  tim_val :: u32
  resp_info :: "'r option"

definition app_db_init_dbop_resp_waiting_obj :: "u32 \<Rightarrow> nat \<Rightarrow> u32 \<Rightarrow> 'r dbop_resp_waiting" where
  "app_db_init_dbop_resp_waiting_obj now kp_cmd kp_cmd_id =
     \<lparr>db_resp_event = EV_DB_OP_DEFAULT, wo_command_id = kp_cmd_id, wo_command = kp_cmd, tim_val = now, resp_info = None\<rparr>"

section \<open>The system\<close>

text \<open>
  Where a thread is: before it starts, with a number allocated, with its object in the queue and trying to send, waiting, or done with the response or
  with none, after a failure to send.
\<close>

datatype ('q, 'r) request_phase =
  Idle | Prepared u32 'q | Sending u32 nat 'q | Awaiting u32 nat 'q | Finished 'q "'r option"

record ('q, 'r) dbop_system =
  id_cnt :: u32
  objs :: "nat \<Rightarrow> 'r dbop_resp_waiting option"
  pt_dbop_resp_waiting_queue :: "nat list"
  g_msgsnd_err_cnt :: u8
  restarts :: nat
  to_db :: "(u32 \<times> 'q) list"
  from_db :: "(u32 \<times> 'r) list"
  threads :: "nat \<Rightarrow> ('q, 'r) request_phase"

definition set_thread :: "nat \<Rightarrow> ('q, 'r) request_phase \<Rightarrow> ('q, 'r) dbop_system \<Rightarrow> ('q, 'r) dbop_system" where
  "set_thread t p s = s\<lparr>threads := (threads s)(t := p)\<rparr>"

definition app_db_init_dbop_controller :: "('q, 'r) dbop_system" where
  "app_db_init_dbop_controller =
     \<lparr>id_cnt = CMD_ID_CNT_INITIALIZER, objs = (\<lambda>a. None), pt_dbop_resp_waiting_queue = [], g_msgsnd_err_cnt = 0, restarts = 0,
      to_db = [], from_db = [], threads = (\<lambda>t. Idle)\<rparr>"

definition app_db_put_dbop_waiting_obj_on_queue :: "nat \<Rightarrow> ('q, 'r) dbop_system \<Rightarrow> ('q, 'r) dbop_system" where
  "app_db_put_dbop_waiting_obj_on_queue a s = s\<lparr>pt_dbop_resp_waiting_queue := pt_dbop_resp_waiting_queue s @ [a]\<rparr>"

definition app_db_remove_dbop_waiting_obj_from_queue :: "nat \<Rightarrow> ('q, 'r) dbop_system \<Rightarrow> ('q, 'r) dbop_system" where
  "app_db_remove_dbop_waiting_obj_from_queue a s = s\<lparr>pt_dbop_resp_waiting_queue := remove1 a (pt_dbop_resp_waiting_queue s)\<rparr>"

definition queue_match_command_id :: "('q, 'r) dbop_system \<Rightarrow> u32 \<Rightarrow> nat \<Rightarrow> bool" where
  "queue_match_command_id s kp_cmd_id a \<longleftrightarrow> (case objs s a of None \<Rightarrow> False | Some w \<Rightarrow> wo_command_id w = kp_cmd_id)"

text \<open>Receiving a response: an object in the queue that has no memory any more would be used after it was freed; this has no result.\<close>

definition app_db_signal_and_pop_dbop_waiting_obj :: "u32 \<Rightarrow> 'r \<Rightarrow> ('q, 'r) dbop_system \<Rightarrow> ('q, 'r) dbop_system option" where
  "app_db_signal_and_pop_dbop_waiting_obj kp_cmd_id r s =
     (if \<exists>a \<in> set (pt_dbop_resp_waiting_queue s). objs s a = None then None
      else case List.extract (queue_match_command_id s kp_cmd_id) (pt_dbop_resp_waiting_queue s) of
        None \<Rightarrow> Some s
      | Some (xs, a, ys) \<Rightarrow>
          Some (s\<lparr>pt_dbop_resp_waiting_queue := xs @ ys,
                  objs := (objs s)(a := map_option (\<lambda>w. w\<lparr>resp_info := Some r, db_resp_event := EV_DB_OP_RESP_RECV\<rparr>) (objs s a))\<rparr>))"

section \<open>A request\<close>

text \<open>
  The parts of every blocking request: allocating the number and filling the command; creating the object and putting it into the queue; trying to send; and,
  after the response, freeing the object.
\<close>

definition request_prepare :: "nat \<Rightarrow> 'q \<Rightarrow> ('q, 'r) dbop_system \<Rightarrow> ('q, 'r) dbop_system" where
  "request_prepare t q s = (let (i, n) = app_db_allocate_ipc_seqno (id_cnt s) in set_thread t (Prepared i q) (s\<lparr>id_cnt := n\<rparr>))"

definition request_enqueue :: "nat \<Rightarrow> u32 \<Rightarrow> nat \<Rightarrow> u32 \<Rightarrow> nat \<Rightarrow> 'q \<Rightarrow> ('q, 'r) dbop_system \<Rightarrow> ('q, 'r) dbop_system" where
  "request_enqueue t now cmd i a q s =
     (let s = s\<lparr>objs := (objs s)(a \<mapsto> app_db_init_dbop_resp_waiting_obj now cmd i)\<rparr>;
          s = app_db_put_dbop_waiting_obj_on_queue a s in
      set_thread t (Sending i a q) (s\<lparr>g_msgsnd_err_cnt := 0\<rparr>))"

datatype msgsnd_result = Snd_ok | Snd_again | Snd_error

definition MSGSEND_ERR_CNT_MAX :: nat where "MSGSEND_ERR_CNT_MAX = 2000"

definition request_send :: "nat \<Rightarrow> msgsnd_result \<Rightarrow> u32 \<Rightarrow> nat \<Rightarrow> 'q \<Rightarrow> ('q, 'r) dbop_system \<Rightarrow> ('q, 'r) dbop_system" where
  "request_send t r i a q s =
     (case r of
        Snd_ok \<Rightarrow> set_thread t (Awaiting i a q) (s\<lparr>to_db := to_db s @ [(i, q)]\<rparr>)
      | Snd_again \<Rightarrow>
          s\<lparr>restarts := (if MSGSEND_ERR_CNT_MAX < unat (g_msgsnd_err_cnt s) then restarts s + 1 else restarts s),
            g_msgsnd_err_cnt := g_msgsnd_err_cnt s + 1\<rparr>
      | Snd_error \<Rightarrow>
          let s = app_db_remove_dbop_waiting_obj_from_queue a s in
          set_thread t (Finished q None) (s\<lparr>objs := (objs s)(a := None)\<rparr>))"

definition request_wait :: "nat \<Rightarrow> u32 \<Rightarrow> nat \<Rightarrow> 'q \<Rightarrow> ('q, 'r) dbop_system \<Rightarrow> ('q, 'r) dbop_system option" where
  "request_wait t i a q s =
     (case objs s a of
        None \<Rightarrow> None
      | Some w \<Rightarrow>
          case db_resp_event w of
            EV_DB_OP_DEFAULT \<Rightarrow> None
          | EV_DB_OP_RESP_RECV \<Rightarrow> Some (set_thread t (Finished q (resp_info w)) (s\<lparr>objs := (objs s)(a := None)\<rparr>))
          | EV_DB_OP_TIMEOUT \<Rightarrow> Some (set_thread t (Finished q None) (s\<lparr>objs := (objs s)(a := None)\<rparr>)))"

text \<open>
  The steps of the system.  A message that is sent without waiting, as those of \<^verbatim>\<open>Hci_Save\<close>, has no object.  The database process may answer
  the commands in any order.
\<close>

inductive db_step :: "('q \<Rightarrow> 'r) \<Rightarrow> nat \<Rightarrow> ('q, 'r) dbop_system \<Rightarrow> nat \<Rightarrow> ('q, 'r) dbop_system \<Rightarrow> bool" for answer where
  prepare: "threads s t = Idle \<Longrightarrow> db_step answer n s (n + 1) (request_prepare t q s)"
| enqueue: "threads s t = Prepared i q \<Longrightarrow> objs s a = None \<Longrightarrow> db_step answer n s n (request_enqueue t now cmd i a q s)"
| send: "threads s t = Sending i a q \<Longrightarrow> db_step answer n s n (request_send t r i a q s)"
| awake: "threads s t = Awaiting i a q \<Longrightarrow> request_wait t i a q s = Some s' \<Longrightarrow> db_step answer n s n s'"
| finish: "threads s t = Finished q r \<Longrightarrow> db_step answer n s n (set_thread t Idle s)"
| noblock: "app_db_allocate_ipc_seqno (id_cnt s) = (i, c) \<Longrightarrow> db_step answer n s (n + 1) (s\<lparr>id_cnt := c, to_db := to_db s @ [(i, q)]\<rparr>)"
| serve: "to_db s = xs @ (i, q) # ys \<Longrightarrow> db_step answer n s n (s\<lparr>to_db := xs @ ys, from_db := from_db s @ [(i, answer q)]\<rparr>)"
| receive: "from_db s = (i, r) # rs \<Longrightarrow> app_db_signal_and_pop_dbop_waiting_obj i r (s\<lparr>from_db := rs\<rparr>) = Some s' \<Longrightarrow> db_step answer n s n s'"

text \<open>Reachable states, with the number of command numbers that have been allocated.\<close>

inductive db_reachable :: "('q \<Rightarrow> 'r) \<Rightarrow> nat \<Rightarrow> ('q, 'r) dbop_system \<Rightarrow> bool" for answer where
  start: "db_reachable answer 0 app_db_init_dbop_controller"
| step: "db_reachable answer n s \<Longrightarrow> db_step answer n s n' s' \<Longrightarrow> db_reachable answer n' s'"

section \<open>Invariant\<close>

fun phase_id :: "('q, 'r) request_phase \<Rightarrow> u32 option" where
  "phase_id (Prepared i q) = Some i"
| "phase_id (Sending i a q) = Some i"
| "phase_id (Awaiting i a q) = Some i"
| "phase_id _ = None"

fun phase_obj :: "('q, 'r) request_phase \<Rightarrow> nat option" where
  "phase_obj (Sending i a q) = Some a"
| "phase_obj (Awaiting i a q) = Some a"
| "phase_obj _ = None"

definition msg_ids :: "('q, 'r) dbop_system \<Rightarrow> u32 list" where
  "msg_ids s = map fst (to_db s) @ map fst (from_db s)"

fun phase_ok :: "('q \<Rightarrow> 'r) \<Rightarrow> ('q, 'r) dbop_system \<Rightarrow> ('q, 'r) request_phase \<Rightarrow> bool" where
  "phase_ok answer s Idle \<longleftrightarrow> True"
| "phase_ok answer s (Prepared i q) \<longleftrightarrow> i \<notin> set (msg_ids s)"
| "phase_ok answer s (Sending i a q) \<longleftrightarrow> i \<notin> set (msg_ids s) \<and> a \<in> set (pt_dbop_resp_waiting_queue s)
     \<and> (\<exists>w. objs s a = Some w \<and> wo_command_id w = i \<and> db_resp_event w = EV_DB_OP_DEFAULT)"
| "phase_ok answer s (Awaiting i a q) \<longleftrightarrow>
     (\<exists>w. objs s a = Some w \<and> wo_command_id w = i \<and>
        (db_resp_event w = EV_DB_OP_DEFAULT \<and> a \<in> set (pt_dbop_resp_waiting_queue s) \<and> ((i, q) \<in> set (to_db s) \<or> (i, answer q) \<in> set (from_db s))
       \<or> db_resp_event w = EV_DB_OP_RESP_RECV \<and> a \<notin> set (pt_dbop_resp_waiting_queue s) \<and> resp_info w = Some (answer q) \<and> i \<notin> set (msg_ids s)))"
| "phase_ok answer s (Finished q r) \<longleftrightarrow> r = None \<or> r = Some (answer q)"

definition db_inv :: "('q \<Rightarrow> 'r) \<Rightarrow> nat \<Rightarrow> ('q, 'r) dbop_system \<Rightarrow> bool" where
  "db_inv answer n s \<longleftrightarrow>
     unat (id_cnt s) = 10 + n
   \<and> (\<forall>t i. phase_id (threads s t) = Some i \<longrightarrow> unat i < 10 + n)
   \<and> (\<forall>i \<in> set (msg_ids s). unat i < 10 + n)
   \<and> distinct (msg_ids s)
   \<and> (\<forall>t t' i. phase_id (threads s t) = Some i \<and> phase_id (threads s t') = Some i \<longrightarrow> t = t')
   \<and> (\<forall>t t' a. phase_obj (threads s t) = Some a \<and> phase_obj (threads s t') = Some a \<longrightarrow> t = t')
   \<and> (\<forall>a. objs s a \<noteq> None \<longleftrightarrow> (\<exists>t. phase_obj (threads s t) = Some a))
   \<and> distinct (pt_dbop_resp_waiting_queue s)
   \<and> (\<forall>a \<in> set (pt_dbop_resp_waiting_queue s). \<exists>t. phase_obj (threads s t) = Some a)
   \<and> (\<forall>t. phase_ok answer s (threads s t))
   \<and> restarts s = 0"


lemma allocate_seqno:
  assumes "unat c = 10 + n" "n < 4294967285" "app_db_allocate_ipc_seqno c = (i, c')"
  shows "i = c" "unat c' = 10 + (n + 1)"
proof -
  have c: "\<not> c < CMD_ID_CNT_INITIALIZER" "\<not> CMD_ID_CNT_MAX \<le> c"
    using assms(1,2) by (auto simp: CMD_ID_CNT_INITIALIZER_def CMD_ID_CNT_MAX_def word_less_nat_alt word_le_nat_alt)
  then show "i = c" using assms(3) by (simp add: app_db_allocate_ipc_seqno_def)
  have "unat (c + 1) = unat c + 1" using assms(1,2) by (simp add: unat_word_ariths)
  have "c' = c + 1" using c assms(3) by (auto simp: app_db_allocate_ipc_seqno_def)
  with \<open>unat (c + 1) = unat c + 1\<close> show "unat c' = 10 + (n + 1)" using assms(1) by simp
qed

lemmas db_simps = set_thread_def msg_ids_def app_db_put_dbop_waiting_obj_on_queue_def app_db_remove_dbop_waiting_obj_from_queue_def
  app_db_init_dbop_resp_waiting_obj_def

lemma db_inv_start: "db_inv answer 0 app_db_init_dbop_controller"
  by (simp add: db_inv_def app_db_init_dbop_controller_def msg_ids_def CMD_ID_CNT_INITIALIZER_def)

lemma phase_ok_cong:
  assumes "msg_ids s' = msg_ids s" "set (to_db s') = set (to_db s)" "set (from_db s') = set (from_db s)"
    "pt_dbop_resp_waiting_queue s' = pt_dbop_resp_waiting_queue s" "\<And>a. phase_obj p = Some a \<Longrightarrow> objs s' a = objs s a"
  shows "phase_ok answer s' p = phase_ok answer s p"
  using assms by (cases p) auto

lemma fresh_id:
  assumes "db_inv answer n s" "app_db_allocate_ipc_seqno (id_cnt s) = (i, c)" "n < 4294967285"
  shows "unat i = 10 + n" "unat c = 10 + (n + 1)" "i \<notin> set (msg_ids s)" "\<And>t. phase_id (threads s t) \<noteq> Some i"
    "\<And>t i. phase_id (threads s t) = Some i \<Longrightarrow> unat i < 10 + (n + 1)" "\<And>i. i \<in> set (msg_ids s) \<Longrightarrow> unat i < 10 + (n + 1)"
proof -
  have inv: "unat (id_cnt s) = 10 + n" "\<And>t i. phase_id (threads s t) = Some i \<Longrightarrow> unat i < 10 + n" "\<And>i. i \<in> set (msg_ids s) \<Longrightarrow> unat i < 10 + n"
    using assms(1) by (simp_all add: db_inv_def)
  then show i: "unat i = 10 + n" "unat c = 10 + (n + 1)" using allocate_seqno [OF inv(1) assms(3,2)] by simp_all
  show "\<And>t i. phase_id (threads s t) = Some i \<Longrightarrow> unat i < 10 + (n + 1)" "\<And>i. i \<in> set (msg_ids s) \<Longrightarrow> unat i < 10 + (n + 1)"
    using inv(2,3) by fastforce+
  show "i \<notin> set (msg_ids s)" using inv(3) i(1) by (metis less_irrefl)
  show "phase_id (threads s t) \<noteq> Some i" for t using inv(2) i(1) by (metis less_irrefl)
qed

lemma prepare_inv:
  assumes "db_inv answer n s" "threads s t = Idle" "n < 4294967285"
  shows "db_inv answer (n + 1) (request_prepare t q s)"
proof -
  obtain i c where a: "app_db_allocate_ipc_seqno (id_cnt s) = (i, c)" by fastforce
  note c = fresh_id [OF assms(1) a assms(3)]
  let ?s = "set_thread t (Prepared i q) (s\<lparr>id_cnt := c\<rparr>)"
  have "phase_ok answer ?s (threads ?s t')" for t'
    using assms(1) c(3) phase_ok_cong [of ?s s "threads s t'" answer] by (auto simp: db_inv_def set_thread_def msg_ids_def)
  moreover have "phase_obj (threads ?s t') = phase_obj (threads s t')" for t' using assms(2) by (simp add: set_thread_def)
  moreover have "phase_id (threads ?s t') = (if t' = t then Some i else phase_id (threads s t'))" for t' by (simp add: set_thread_def)
  moreover have "msg_ids ?s = msg_ids s" "objs ?s = objs s" "restarts ?s = restarts s" "id_cnt ?s = c"
    "pt_dbop_resp_waiting_queue ?s = pt_dbop_resp_waiting_queue s" by (simp_all add: set_thread_def msg_ids_def)
  ultimately have "db_inv answer (n + 1) ?s"
    using assms(1) c unfolding db_inv_def by auto
  then show ?thesis by (simp add: request_prepare_def a)
qed

lemma noblock_inv:
  assumes "db_inv answer n s" "app_db_allocate_ipc_seqno (id_cnt s) = (i, c)" "n < 4294967285"
  shows "db_inv answer (n + 1) (s\<lparr>id_cnt := c, to_db := to_db s @ [(i, q)]\<rparr>)"
proof -
  note c = fresh_id [OF assms]
  let ?s = "s\<lparr>id_cnt := c, to_db := to_db s @ [(i, q)]\<rparr>"
  have m: "set (msg_ids ?s) = insert i (set (msg_ids s))" "distinct (msg_ids ?s) = distinct (msg_ids s)"
    using c(3) by (auto simp: msg_ids_def)
  have "phase_ok answer ?s (threads s t)" for t
  proof -
    have "phase_ok answer s (threads s t)" using assms(1) by (simp add: db_inv_def)
    then show ?thesis using c(4) [of t] m(1) by (cases "threads s t") auto
  qed
  then show ?thesis using assms(1) c m unfolding db_inv_def by auto
qed

text \<open>A thread other than the one that moves keeps what it relies on, as long as its object stays.\<close>

lemma enqueue_inv:
  assumes "db_inv answer n s" "threads s t = Prepared i q" "objs s a = None"
  shows "db_inv answer n (request_enqueue t now c i a q s)"
proof -
  let ?s = "request_enqueue t now c i a q s"
  let ?w = "app_db_init_dbop_resp_waiting_obj now c i"
  have s: "id_cnt ?s = id_cnt s" "objs ?s = (objs s)(a \<mapsto> ?w)" "pt_dbop_resp_waiting_queue ?s = pt_dbop_resp_waiting_queue s @ [a]"
    "restarts ?s = restarts s" "to_db ?s = to_db s" "from_db ?s = from_db s" "threads ?s = (threads s)(t := Sending i a q)" "msg_ids ?s = msg_ids s"
    by (simp_all add: request_enqueue_def db_simps)
  have a: "phase_obj (threads s t') \<noteq> Some a" for t' using assms(1,3) unfolding db_inv_def by (metis option.distinct(1))
  then have q: "a \<notin> set (pt_dbop_resp_waiting_queue s)" using assms(1) by (auto simp: db_inv_def)
  have "phase_ok answer ?s (threads ?s t')" for t'
  proof (cases "t' = t")
    case True
    have "phase_ok answer s (threads s t)" using assms(1) by (simp add: db_inv_def)
    then show ?thesis using True s assms(2) by (simp add: app_db_init_dbop_resp_waiting_obj_def)
  next
    case False
    have "phase_ok answer s (threads s t')" using assms(1) by (simp add: db_inv_def)
    then show ?thesis using False s a [of t'] by (cases "threads s t'") auto
  qed
  moreover have "phase_id (threads ?s t') = phase_id (threads s t')" for t' using s assms(2) by simp
  moreover have "phase_obj (threads ?s t') = (if t' = t then Some a else phase_obj (threads s t'))" for t' using s by simp
  moreover have "(\<exists>t'. (if t' = t then Some a else phase_obj (threads s t')) = Some b) \<longleftrightarrow> b = a \<or> (\<exists>t'. phase_obj (threads s t') = Some b)" for b
    using assms(2) by (metis option.inject option.distinct(1) phase_obj.simps(4))
  ultimately show ?thesis using assms(1) a q s(1-6,8) unfolding db_inv_def by (auto split: if_splits)
qed

lemma send_inv:
  assumes "db_inv answer n s" "threads s t = Sending i a q"
  shows "db_inv answer n (request_send t r i a q s)"
proof (cases r)
  case Snd_again
  have "\<not> MSGSEND_ERR_CNT_MAX < unat (g_msgsnd_err_cnt s)"
    using unat_u8_le [of "g_msgsnd_err_cnt s"] unfolding MSGSEND_ERR_CNT_MAX_def by linarith
  then have "restarts (request_send t r i a q s) = 0"
    using assms(1) Snd_again by (simp add: request_send_def MSGSEND_ERR_CNT_MAX_def db_inv_def)
  moreover have "phase_ok answer (request_send t r i a q s) (threads s t')" for t'
    using assms(1) phase_ok_cong [of "request_send t r i a q s" s "threads s t'"] Snd_again by (simp add: request_send_def db_inv_def msg_ids_def)
  ultimately show ?thesis using assms(1) Snd_again by (simp add: request_send_def db_inv_def msg_ids_def)
next
  case Snd_ok
  let ?s = "request_send t r i a q s"
  have s: "id_cnt ?s = id_cnt s" "objs ?s = objs s" "pt_dbop_resp_waiting_queue ?s = pt_dbop_resp_waiting_queue s"
    "restarts ?s = restarts s" "to_db ?s = to_db s @ [(i, q)]" "from_db ?s = from_db s" "threads ?s = (threads s)(t := Awaiting i a q)"
    by (simp_all add: request_send_def db_simps Snd_ok)
  have t: "phase_ok answer s (Sending i a q)" "unat i < 10 + n" using assms unfolding db_inv_def by (metis, metis phase_id.simps(2))
  have m: "set (msg_ids ?s) = insert i (set (msg_ids s))" "distinct (msg_ids ?s) = distinct (msg_ids s)"
    using t(1) s by (auto simp: msg_ids_def)
  have id: "phase_id (threads s t') \<noteq> Some i" if "t' \<noteq> t" for t'
    using assms that unfolding db_inv_def by (metis phase_id.simps(2))
  have "phase_ok answer ?s (threads ?s t')" for t'
  proof (cases "t' = t")
    case True
    then show ?thesis using t(1) s by simp
  next
    case False
    have "phase_ok answer s (threads s t')" using assms(1) by (simp add: db_inv_def)
    then show ?thesis using False s m(1) id [OF False] by (cases "threads s t'") auto
  qed
  moreover have "phase_id (threads ?s t') = phase_id (threads s t')" for t' using s assms(2) by simp
  moreover have "phase_obj (threads ?s t') = phase_obj (threads s t')" for t' using s assms(2) by simp
  ultimately show ?thesis using assms(1) m t(2) s(1-6) unfolding db_inv_def by auto
next
  case Snd_error
  let ?s = "request_send t r i a q s"
  have s: "id_cnt ?s = id_cnt s" "objs ?s = (objs s)(a := None)" "pt_dbop_resp_waiting_queue ?s = remove1 a (pt_dbop_resp_waiting_queue s)"
    "restarts ?s = restarts s" "to_db ?s = to_db s" "from_db ?s = from_db s" "threads ?s = (threads s)(t := Finished q None)" "msg_ids ?s = msg_ids s"
    by (simp_all add: request_send_def db_simps Snd_error Let_def)
  have obj: "phase_obj (threads s t') = Some a \<longleftrightarrow> t' = t" for t'
    using assms unfolding db_inv_def by (metis phase_obj.simps(1))
  have d: "distinct (pt_dbop_resp_waiting_queue s)" using assms(1) by (simp add: db_inv_def)
  have "phase_ok answer ?s (threads ?s t')" for t'
  proof (cases "t' = t")
    case False
    have "phase_ok answer s (threads s t')" using assms(1) by (simp add: db_inv_def)
    then show ?thesis using False s obj [of t'] d by (cases "threads s t'") auto
  qed (simp add: s)
  moreover have "phase_id (threads ?s t') = (if t' = t then None else phase_id (threads s t'))" for t' using s by simp
  moreover have "phase_obj (threads ?s t') = (if t' = t then None else phase_obj (threads s t'))" for t' using s by simp
  moreover have "(\<exists>t'. (if t' = t then None else phase_obj (threads s t')) = Some b) \<longleftrightarrow> b \<noteq> a \<and> (\<exists>t'. phase_obj (threads s t') = Some b)" for b
    using obj by (metis option.inject option.distinct(1))
  ultimately show ?thesis using assms(1) obj s(1-6,8) d unfolding db_inv_def by (auto split: if_splits)
qed

lemma awake_inv:
  assumes "db_inv answer n s" "threads s t = Awaiting i a q" "request_wait t i a q s = Some s'"
  shows "db_inv answer n s'"
proof -
  have t: "phase_ok answer s (Awaiting i a q)" using assms(1,2) unfolding db_inv_def by metis
  then obtain w where w: "objs s a = Some w" by auto
  have e: "db_resp_event w = EV_DB_OP_RESP_RECV" using t w assms(3) by (auto simp: request_wait_def split: db_op_resp_event.splits)
  then have r: "resp_info w = Some (answer q)" "a \<notin> set (pt_dbop_resp_waiting_queue s)" using t w by auto
  have s': "s' = set_thread t (Finished q (resp_info w)) (s\<lparr>objs := (objs s)(a := None)\<rparr>)"
    using assms(3) w e by (simp add: request_wait_def)
  have s: "id_cnt s' = id_cnt s" "objs s' = (objs s)(a := None)" "pt_dbop_resp_waiting_queue s' = pt_dbop_resp_waiting_queue s"
    "restarts s' = restarts s" "msg_ids s' = msg_ids s" "to_db s' = to_db s" "from_db s' = from_db s" "threads s' = (threads s)(t := Finished q (Some (answer q)))"
    by (simp_all add: s' db_simps r)
  have obj: "phase_obj (threads s t') = Some a \<longleftrightarrow> t' = t" for t'
    using assms(1,2) unfolding db_inv_def by (metis phase_obj.simps(2))
  have "phase_ok answer s' (threads s' t')" for t'
  proof (cases "t' = t")
    case False
    have "phase_ok answer s (threads s t')" using assms(1) by (simp add: db_inv_def)
    then show ?thesis using False s obj [of t'] by (cases "threads s t'") auto
  qed (simp add: s)
  moreover have "phase_id (threads s' t') = (if t' = t then None else phase_id (threads s t'))" for t' using s by simp
  moreover have "phase_obj (threads s' t') = (if t' = t then None else phase_obj (threads s t'))" for t' using s by simp
  moreover have "(\<exists>t'. (if t' = t then None else phase_obj (threads s t')) = Some b) \<longleftrightarrow> b \<noteq> a \<and> (\<exists>t'. phase_obj (threads s t') = Some b)" for b
    using obj by (metis option.inject option.distinct(1))
  ultimately show ?thesis using assms(1) obj s(1-5) r(2) unfolding db_inv_def by (auto split: if_splits)
qed

lemma finish_inv:
  assumes "db_inv answer n s" "threads s t = Finished q r"
  shows "db_inv answer n (set_thread t Idle s)"
proof -
  let ?s = "set_thread t Idle s"
  have "phase_ok answer ?s (threads ?s t')" for t'
    using assms(1) phase_ok_cong [of ?s s "threads s t'"] by (auto simp: db_inv_def set_thread_def msg_ids_def)
  moreover have "phase_id (threads ?s t') = phase_id (threads s t')" "phase_obj (threads ?s t') = phase_obj (threads s t')" for t'
    using assms(2) by (simp_all add: set_thread_def)
  moreover have "id_cnt ?s = id_cnt s" "objs ?s = objs s" "pt_dbop_resp_waiting_queue ?s = pt_dbop_resp_waiting_queue s"
    "restarts ?s = restarts s" "msg_ids ?s = msg_ids s" by (simp_all add: set_thread_def msg_ids_def)
  ultimately show ?thesis using assms(1) unfolding db_inv_def by auto
qed

lemma serve_inv:
  assumes "db_inv answer n s" "to_db s = xs @ (i, q) # ys"
  shows "db_inv answer n (s\<lparr>to_db := xs @ ys, from_db := from_db s @ [(i, answer q)]\<rparr>)"
proof -
  let ?s = "s\<lparr>to_db := xs @ ys, from_db := from_db s @ [(i, answer q)]\<rparr>"
  have m: "set (msg_ids ?s) = set (msg_ids s)" "distinct (msg_ids ?s) = distinct (msg_ids s)"
    using assms(2) by (auto simp: msg_ids_def)
  have "phase_ok answer ?s (threads s t)" for t
  proof -
    have "phase_ok answer s (threads s t)" using assms(1) by (simp add: db_inv_def)
    then show ?thesis using m(1) assms(2) by (cases "threads s t") auto
  qed
  then show ?thesis using assms(1) m unfolding db_inv_def by simp
qed

lemma receive_inv:
  assumes "db_inv answer n s" "from_db s = (i, r) # rs" "app_db_signal_and_pop_dbop_waiting_obj i r (s\<lparr>from_db := rs\<rparr>) = Some s'"
  shows "db_inv answer n s'"
proof -
  let ?s = "s\<lparr>from_db := rs\<rparr>"
  let ?q = "pt_dbop_resp_waiting_queue s"
  have m: "msg_ids s = map fst (to_db s) @ i # map fst rs" "distinct (msg_ids s)" using assms(1,2) by (auto simp: msg_ids_def db_inv_def)
  then have i: "i \<notin> set (msg_ids ?s)" "set (msg_ids s) = insert i (set (msg_ids ?s))" "distinct (msg_ids ?s)" by (auto simp: msg_ids_def)
  have alive: "\<forall>a \<in> set ?q. objs s a \<noteq> None" using assms(1) unfolding db_inv_def by metis
  have ok: "phase_ok answer s (threads s t)" for t using assms(1) by (simp add: db_inv_def)
  show ?thesis
  proof (cases "List.extract (queue_match_command_id ?s i) ?q")
    case None
    then have s': "s' = ?s" using assms(3) alive by (auto simp: app_db_signal_and_pop_dbop_waiting_obj_def)
    have none: "\<forall>a \<in> set ?q. \<forall>w. objs s a = Some w \<longrightarrow> wo_command_id w \<noteq> i"
      using None by (auto simp: extract_None_iff queue_match_command_id_def)
    have "phase_ok answer ?s (threads s t)" for t
      using ok [of t] i none assms(2) by (cases "threads s t") auto
    then show ?thesis using assms(1) i unfolding s' db_inv_def by simp
  next
    case (Some e)
    then obtain xs a ys where e: "e = (xs, a, ys)" by (cases e)
    then have q: "?q = xs @ a # ys" "queue_match_command_id ?s i a" using Some extract_SomeE by metis+
    then obtain w where w: "objs s a = Some w" "wo_command_id w = i" by (auto simp: queue_match_command_id_def split: option.splits)
    have s': "s' = ?s\<lparr>pt_dbop_resp_waiting_queue := xs @ ys, objs := (objs s)(a \<mapsto> w\<lparr>resp_info := Some r, db_resp_event := EV_DB_OP_RESP_RECV\<rparr>)\<rparr>"
      using assms(3) alive Some e w by (auto simp: app_db_signal_and_pop_dbop_waiting_obj_def)
    obtain t where t: "phase_obj (threads s t) = Some a" using assms(1) q(1) unfolding db_inv_def by force
    have obj: "phase_obj (threads s t') = Some a \<longleftrightarrow> t' = t" for t'
      using assms(1) t unfolding db_inv_def by metis
    have d: "distinct (xs @ a # ys)" using assms(1) q(1) by (simp add: db_inv_def)
    obtain qq where tq: "threads s t = Awaiting i a qq" "r = answer qq"
    proof (cases "threads s t")
      case (Awaiting i' a' qq)
      then have "i' = i" "a' = a" using ok [of t] t w by auto
      moreover have "(i, qq) \<notin> set (to_db s)" "(i, x) \<notin> set rs" for x using m by (force simp: image_iff)+
      ultimately have "answer qq = r" using ok [of t] Awaiting q(1) assms(2) by auto
      then show thesis using that Awaiting \<open>i' = i\<close> \<open>a' = a\<close> by blast
    qed (use ok [of t] t w i(2) in auto)
    have "phase_ok answer s' (threads s t')" for t'
    proof (cases "t' = t")
      case True
      then show ?thesis using tq d i(1) w(2) by (auto simp: s' msg_ids_def)
    next
      case False
      have "phase_id (threads s t') \<noteq> Some i" using False assms(1) tq(1) unfolding db_inv_def by (metis phase_id.simps(3))
      then show ?thesis using ok [of t'] False obj [of t'] i(2) q(1) assms(2) by (cases "threads s t'") (auto simp: s' msg_ids_def)
    qed
    moreover have "threads s' = threads s" by (simp add: s')
    moreover have "objs s' b \<noteq> None \<longleftrightarrow> objs s b \<noteq> None" for b using w(1) by (simp add: s')
    moreover have "pt_dbop_resp_waiting_queue s' = xs @ ys" "msg_ids s' = msg_ids ?s" "id_cnt s' = id_cnt s" "restarts s' = restarts s"
      by (simp_all add: s' msg_ids_def)
    ultimately show ?thesis using assms(1) i d q(1) unfolding db_inv_def by auto
  qed
qed

lemma db_step_mono: "db_step answer n s n' s' \<Longrightarrow> n \<le> n'"
  by (induction rule: db_step.induct) auto

lemma db_step_inv: "db_step answer n s n' s' \<Longrightarrow> db_inv answer n s \<Longrightarrow> n' \<le> 4294967285 \<Longrightarrow> db_inv answer n' s'"
proof (induction rule: db_step.induct)
  case (prepare s t n q)
  then show ?case by (intro prepare_inv) simp_all
next
  case (noblock s i c n q)
  then show ?case by (intro noblock_inv) simp_all
qed (blast intro: enqueue_inv send_inv awake_inv finish_inv serve_inv receive_inv)+

lemma db_reachable_inv: "db_reachable answer n s \<Longrightarrow> n \<le> 4294967285 \<Longrightarrow> db_inv answer n s"
proof (induction rule: db_reachable.induct)
  case (step n s n' s')
  then show ?case using db_step_inv db_step_mono le_trans by blast
qed (rule db_inv_start)

section \<open>Properties\<close>

text \<open>
  C12: However the threads interleave and in whatever order the database process works, a thread that finishes with a response has the answer to
  its own command, as long as fewer than 2 ^ 32 - 10 numbers were allocated.
\<close>

theorem request_gets_own_answer:
  assumes "db_reachable answer n s" "n \<le> 4294967285" "threads s t = Finished q (Some r)"
  shows "r = answer q"
proof -
  have "phase_ok answer s (threads s t)" using db_reachable_inv [OF assms(1,2)] by (simp add: db_inv_def)
  then show ?thesis using assms(3) by simp
qed

text \<open>The queue never holds the address of an object that was freed, and an object exists iff a thread still has to free it.\<close>

theorem waiting_queue_alive:
  assumes "db_reachable answer n s" "n \<le> 4294967285"
  shows "(\<forall>a \<in> set (pt_dbop_resp_waiting_queue s). objs s a \<noteq> None) \<and> distinct (pt_dbop_resp_waiting_queue s)
    \<and> (\<forall>a. objs s a \<noteq> None \<longleftrightarrow> (\<exists>t. phase_obj (threads s t) = Some a))"
proof -
  have i: "db_inv answer n s" using assms by (rule db_reachable_inv)
  then have "\<forall>a \<in> set (pt_dbop_resp_waiting_queue s). objs s a \<noteq> None" unfolding db_inv_def by metis
  then show ?thesis using i unfolding db_inv_def by blast
qed

inductive db_steps :: "('q \<Rightarrow> 'r) \<Rightarrow> nat \<Rightarrow> ('q, 'r) dbop_system \<Rightarrow> nat \<Rightarrow> ('q, 'r) dbop_system \<Rightarrow> bool" for answer where
  done_steps: "db_steps answer n s n s"
| next_step: "db_step answer n s n' s' \<Longrightarrow> db_steps answer n' s' n'' s'' \<Longrightarrow> db_steps answer n s n'' s''"

lemma receive_possible:
  assumes "db_inv answer n s" "from_db s = (i, r) # rs"
  shows "\<exists>s'. db_step answer n s n s' \<and> from_db s' = rs \<and> threads s' = threads s \<and> to_db s' = to_db s"
proof -
  have alive: "\<forall>a \<in> set (pt_dbop_resp_waiting_queue s). objs s a \<noteq> None" using assms(1) unfolding db_inv_def by metis
  then obtain s' where s': "app_db_signal_and_pop_dbop_waiting_obj i r (s\<lparr>from_db := rs\<rparr>) = Some s'"
    by (cases "List.extract (queue_match_command_id (s\<lparr>from_db := rs\<rparr>) i) (pt_dbop_resp_waiting_queue s)")
      (auto simp: app_db_signal_and_pop_dbop_waiting_obj_def)
  then have "from_db s' = rs" "threads s' = threads s" "to_db s' = to_db s"
    by (auto simp: app_db_signal_and_pop_dbop_waiting_obj_def split: option.splits if_splits)
  then show ?thesis using db_step.receive [of s i r rs s' answer n] assms(2) s' by blast
qed

lemma received_in_time:
  assumes "db_inv answer n s" "n \<le> 4294967285" "threads s t = Awaiting i a q" "(i, answer q) \<in> set (from_db s) \<or> i \<notin> set (msg_ids s)"
  shows "\<exists>s'. db_steps answer n s n s' \<and> threads s' t = Finished q (Some (answer q))"
  using assms
proof (induction "length (from_db s)" arbitrary: s rule: less_induct)
  case less
  have ok: "phase_ok answer s (Awaiting i a q)" using less.prems(1,3) unfolding db_inv_def by metis
  show ?case
  proof (cases "(i, answer q) \<in> set (from_db s)")
    case True
    then obtain j r rs where f: "from_db s = (j, r) # rs" by (cases "from_db s") auto
    obtain s' where s': "db_step answer n s n s'" "from_db s' = rs" "threads s' = threads s" "to_db s' = to_db s"
      using receive_possible [OF less.prems(1) f] by blast
    have "distinct (msg_ids s)" using less.prems(1) by (simp add: db_inv_def)
    then have "(i, answer q) \<in> set (from_db s') \<or> i \<notin> set (msg_ids s')"
      using True f s' by (auto simp: msg_ids_def)
    then obtain s'' where "db_steps answer n s' n s''" "threads s'' t = Finished q (Some (answer q))"
      using less.hyps [of s'] db_step_inv [OF s'(1) less.prems(1,2)] less.prems f s' by auto
    then show ?thesis using s'(1) by (blast intro: db_steps.next_step)
  next
    case False
    then have "i \<notin> set (msg_ids s)" using less.prems(4) by blast
    then obtain w where w: "objs s a = Some w" "db_resp_event w = EV_DB_OP_RESP_RECV" "resp_info w = Some (answer q)"
      using ok by (auto simp: msg_ids_def image_iff)
    then obtain s' where "request_wait t i a q s = Some s'" "threads s' t = Finished q (Some (answer q))"
      by (simp add: request_wait_def set_thread_def)
    then show ?thesis using db_step.awake [OF less.prems(3)] by (blast intro: db_steps.intros)
  qed
qed

lemma waiting_answered:
  assumes "db_reachable answer n s" "n \<le> 4294967285" "threads s t = Awaiting i a q"
  shows "\<exists>s'. db_steps answer n s n s' \<and> threads s' t = Finished q (Some (answer q))"
proof -
  have inv: "db_inv answer n s" using assms(1,2) by (rule db_reachable_inv)
  then have ok: "phase_ok answer s (Awaiting i a q)" using assms(3) unfolding db_inv_def by metis
  show ?thesis
  proof (cases "(i, q) \<in> set (to_db s)")
    case True
    then obtain xs ys where x: "to_db s = xs @ (i, q) # ys" by (meson split_list)
    then have st: "db_step answer n s n (s\<lparr>to_db := xs @ ys, from_db := from_db s @ [(i, answer q)]\<rparr>)" by (rule db_step.serve)
    have "\<exists>s'. db_steps answer n (s\<lparr>to_db := xs @ ys, from_db := from_db s @ [(i, answer q)]\<rparr>) n s' \<and> threads s' t = Finished q (Some (answer q))"
      using assms(3) by (intro received_in_time [OF db_step_inv [OF st inv assms(2)] assms(2), where i = i and a = a]) simp_all
    then show ?thesis using st by (blast intro: db_steps.next_step)
  next
    case False
    then have "(i, answer q) \<in> set (from_db s) \<or> i \<notin> set (msg_ids s)" using ok by auto
    then show ?thesis using received_in_time [OF inv assms(2,3)] by blast
  qed
qed

text \<open>C21: A request that was sent is never stuck: from every reachable state the system can go on until the thread has its answer.\<close>

theorem waiting_request_answered:
  assumes "db_reachable answer n s" "n \<le> 4294967285" "threads s t = Awaiting i a q"
  shows "\<exists>s'. db_steps answer n s n s' \<and> threads s' t = Finished q (Some (answer q))"
  using waiting_answered [OF assms] .

text \<open>The counter of failed attempts has 8 bits and is compared with 2000: a thread tries forever, and the restart is never run.\<close>

theorem restart_never_run:
  assumes "db_reachable answer n s"
  shows "restarts s = 0"
  using assms
proof (induction rule: db_reachable.induct)
  case start
  show ?case by (simp add: app_db_init_dbop_controller_def)
next
  case (step n s n' s')
  have no: "\<not> MSGSEND_ERR_CNT_MAX < unat (c :: u8)" for c using unat_u8_le [of c] unfolding MSGSEND_ERR_CNT_MAX_def by linarith
  from step(2,3) show ?case
    by (induction rule: db_step.induct)
      (auto simp: no request_prepare_def request_enqueue_def request_send_def request_wait_def app_db_signal_and_pop_dbop_waiting_obj_def db_simps Let_def
        split: msgsnd_result.splits option.splits db_op_resp_event.splits prod.splits if_splits)
qed

section \<open>A sample run\<close>

lemma db_steps_reachable: "db_steps answer n s n' s' \<Longrightarrow> db_reachable answer n s \<Longrightarrow> db_reachable answer n' s'"
  by (induction rule: db_steps.induct) (auto intro: db_reachable.step)

definition sample_waiting :: "(nat, nat) dbop_system" where
  "sample_waiting = request_send 0 Snd_ok 10 0 5 (request_enqueue 0 0 2 10 0 5 (request_prepare 0 5 app_db_init_dbop_controller))"

lemma sample_waiting: "db_reachable Suc 1 sample_waiting" "threads sample_waiting 0 = Awaiting 10 0 5"
proof -
  let ?s0 = "app_db_init_dbop_controller :: (nat, nat) dbop_system"
  let ?s1 = "request_prepare 0 5 ?s0"
  let ?s2 = "request_enqueue 0 0 2 10 0 5 ?s1"
  have t0: "threads ?s0 0 = Idle" by (simp add: app_db_init_dbop_controller_def)
  have t1: "threads ?s1 0 = Prepared 10 5" "objs ?s1 0 = None"
    by (simp_all add: request_prepare_def app_db_allocate_ipc_seqno_def app_db_init_dbop_controller_def set_thread_def Let_def
        CMD_ID_CNT_INITIALIZER_def CMD_ID_CNT_MAX_def)
  have t2: "threads ?s2 0 = Sending 10 0 5" by (simp add: request_enqueue_def set_thread_def Let_def)
  have "db_reachable Suc (0 + 1) ?s1" by (rule db_reachable.step [OF db_reachable.start db_step.prepare [OF t0]])
  then have "db_reachable Suc (0 + 1) ?s2" by (rule db_reachable.step [OF _ db_step.enqueue [OF t1]])
  then have "db_reachable Suc (0 + 1) sample_waiting"
    unfolding sample_waiting_def by (rule db_reachable.step [OF _ db_step.send [OF t2]])
  then show "db_reachable Suc 1 sample_waiting" by simp
  show "threads sample_waiting 0 = Awaiting 10 0 5" by (simp add: sample_waiting_def request_send_def set_thread_def)
qed

theorem request_gets_own_answer_witness: "\<exists>s r. db_reachable Suc 1 s \<and> threads s 0 = Finished 5 (Some r) \<and> r = Suc 5"
proof -
  obtain s where s: "db_steps Suc 1 sample_waiting 1 s" "threads s 0 = Finished 5 (Some (Suc 5))"
    using waiting_answered [OF sample_waiting(1) _ sample_waiting(2)] by auto
  have "db_reachable Suc 1 s" using db_steps_reachable [OF s(1) sample_waiting(1)] .
  then show ?thesis using request_gets_own_answer [of Suc 1 s 0 5 "Suc 5"] s(2) by auto
qed

theorem waiting_queue_alive_witness: "\<forall>a \<in> set (pt_dbop_resp_waiting_queue sample_waiting). objs sample_waiting a \<noteq> None"
  using waiting_queue_alive [OF sample_waiting(1), THEN conjunct1] by simp

theorem waiting_request_answered_witness: "\<exists>s. db_steps Suc 1 sample_waiting 1 s \<and> threads s 0 = Finished 5 (Some 6)"
  using waiting_request_answered [OF sample_waiting(1) _ sample_waiting(2)] by simp

theorem restart_never_run_witness: "restarts sample_waiting = 0"
  using restart_never_run [OF sample_waiting(1)] .

end
