(* ===== verification/Dev_List.thy ===== *)
theory Dev_List
  imports Hci_Save
begin

text \<open>
  The device list of the gateway: the answers of the database process that \<^verbatim>\<open>src/skf_gw/source/src/general/app_db.c\<close> reads, the addresses
  written as strings (\<^verbatim>\<open>src/skf_gw/source/src/util_froto.c\<close>), and the white list of Insight-T sensors that
  \<^verbatim>\<open>src/skf_gw/source/src/general/app_pro_general_new.c\<close> makes of them.

  A C string is the list of its bytes before the final zero.  Where the code would read or write outside an array, or read a member of a union
  that was not written, the result is \<^term>\<open>None\<close>.
\<close>

section \<open>Addresses as strings\<close>

definition hex_val :: "u8 \<Rightarrow> nat option" where
  "hex_val c =
     (let n = unat c in
      if 65 \<le> n \<and> n \<le> 70 then Some (n - 65 + 10)
      else if 48 \<le> n \<and> n \<le> 57 then Some (n - 48)
      else if 97 \<le> n \<and> n \<le> 102 then Some (n - 97 + 10)
      else None)"

fun idstr_loop :: "nat \<Rightarrow> bytes \<Rightarrow> nat \<Rightarrow> nat \<Rightarrow> bytes \<Rightarrow> bytes" where
  "idstr_loop sz [] i tpidx buf = buf"
| "idstr_loop sz (c # cs) i tpidx buf =
     (case hex_val c of
        None \<Rightarrow> buf
      | Some v \<Rightarrow>
          if i mod 2 = 0 then idstr_loop sz cs (i + 1) tpidx (buf[tpidx mod sz := of_nat v])
          else idstr_loop sz cs (i + 1) (tpidx + 1) (buf[tpidx mod sz := buf ! (tpidx mod sz) * 0x10 + of_nat v]))"

text \<open>
  The index has 8 bits; after 256 digits it starts again, and the loop does not end.  The number of bytes is returned.
\<close>

definition idstr_to_bytes_array :: "bytes \<Rightarrow> bytes \<Rightarrow> (u8 \<times> bytes) option" where
  "idstr_to_bytes_array buf str =
     (if buf = [] then Some (0, buf)
      else if 256 \<le> length (takeWhile (\<lambda>c. hex_val c \<noteq> None) str) then None
      else let n = of_nat (length str) :: u8 in Some (of_nat (unat n div 2 + unat n mod 2), idstr_loop (length buf) str 0 0 buf))"

section \<open>Rows of the device table\<close>

record device_info =
  di_nameid :: u32
  di_name :: bytes
  di_sensor_name :: bytes
  di_mac_addr :: bytes
  di_manufacturer :: bytes
  di_sensor_type :: bytes
  di_description :: bytes

definition zero_device :: device_info where
  "zero_device = \<lparr>di_nameid = 0, di_name = [], di_sensor_name = [], di_mac_addr = [], di_manufacturer = [], di_sensor_type = [],
     di_description = []\<rparr>"

text \<open>\<^verbatim>\<open>snprintf\<close> with \<^verbatim>\<open>%s\<close> and the bound 70, into an array of \<^term>\<open>sz\<close> bytes: with the final zero it has to fit.\<close>

definition put_string :: "nat \<Rightarrow> gw_value \<Rightarrow> bytes option" where
  "put_string sz v =
     (case v of
        Data_char s \<Rightarrow> let s = take 69 (c_string s) in if length s < sz then Some s else None
      | _ \<Rightarrow> None)"

definition fill_dev_field :: "gw_pro_data_t \<Rightarrow> device_info \<Rightarrow> device_info option" where
  "fill_dev_field fv d =
     (let (field, v) = fv in
      if field = 1 then (case v of Data_uint32 n \<Rightarrow> Some (d\<lparr>di_nameid := n\<rparr>) | _ \<Rightarrow> None)
      else if field = 2 then map_option (\<lambda>s. d\<lparr>di_name := s\<rparr>) (put_string 50 v)
      else if field = 3 then map_option (\<lambda>s. d\<lparr>di_sensor_name := s\<rparr>) (put_string 50 v)
      else if field = 4 then map_option (\<lambda>s. d\<lparr>di_mac_addr := s\<rparr>) (put_string 19 v)
      else if field = 5 then map_option (\<lambda>s. d\<lparr>di_manufacturer := s\<rparr>) (put_string 10 v)
      else if field = 6 then map_option (\<lambda>s. d\<lparr>di_sensor_type := s\<rparr>) (put_string 50 v)
      else if field = 7 then map_option (\<lambda>s. d\<lparr>di_description := s\<rparr>) (put_string 70 v)
      else Some d)"

definition to_fill_dev_info_by_data_from_db :: "u32 \<Rightarrow> gw_pro_data_t list \<Rightarrow> device_info \<Rightarrow> device_info option" where
  "to_fill_dev_info_by_data_from_db n inquiredData d =
     fold (\<lambda>i r. do { d \<leftarrow> r; fill_dev_field (inquiredData ! (i mod 100)) d }) [0..<unat n] (Some d)"

text \<open>
  Reading a row: the response of the database process, if there was one, gives a state and the device.  A response without data is an error.
\<close>

definition app_db_read_dev_info_from_db :: "(u32 \<times> gw_pro_data_t list) option \<Rightarrow> (app_state_t \<times> device_info) option" where
  "app_db_read_dev_info_from_db resp =
     (case resp of
        None \<Rightarrow> Some (ST_ERR, zero_device)
      | Some (n, xs) \<Rightarrow>
          if n = 0 then Some (ST_ERR, zero_device)
          else map_option (\<lambda>d. (ST_OK, d)) (to_fill_dev_info_by_data_from_db n xs zero_device))"

text \<open>
  The rows that a filter selects: their number and indexes, of which as many are kept as there is room for; \<^verbatim>\<open>-1\<close> is an error.
\<close>

definition app_db_fetch_filtered_index :: "u32 \<Rightarrow> u32 \<Rightarrow> (u32 \<times> u32 list) option \<Rightarrow> (int \<times> u32 list) option" where
  "app_db_fetch_filtered_index tbl bufsz resp =
     (if tbl \<notin> {1, 2, 3, 4} then Some (- 1, [])
      else case resp of
        None \<Rightarrow> Some (- 1, [])
      | Some (n, idx) \<Rightarrow>
          let tpret = sint n;
              tpret = (if int (unat bufsz) < (tpret * 4) mod 2 ^ 64 then int (unat bufsz) div 4 else tpret) in
          if length idx < nat tpret then None else Some (tpret, take (nat tpret) idx))"

section \<open>The white list\<close>

definition bt_addr_of :: "bytes \<Rightarrow> bt_addr" where
  "bt_addr_of a =
     \<lparr>nap = of_nat (unat (a ! 0) * 0x100 + unat (a ! 1)), uap = a ! 2,
      lap = of_nat (unat (a ! 3) * 0x100 * 0x100 + unat (a ! 4) * 0x100 + unat (a ! 5))\<rparr>"

definition TYPE_STR_INSIGHT_P :: bytes where "TYPE_STR_INSIGHT_P = ascii ''PredictSensor''"
definition TYPE_STR_INSIGHT_PP :: bytes where "TYPE_STR_INSIGHT_PP = ascii ''PredictSensorPro''"
definition TYPE_STR_INSIGHT_T :: bytes where "TYPE_STR_INSIGHT_T = ascii ''Insight-T''"

text \<open>
  The lists that are filled: addresses and name numbers of the predict sensors and of the Insight-T sensors.  Until a first
  configuration has been taken over, the name numbers that are read are also kept as those of the last configuration.
\<close>

record mac_arrays =
  arr_p :: "(bt_addr \<times> u32) list"
  arr_t :: "(bt_addr \<times> u32) list"

record ble_dev =
  ble_dev_fetch_flag :: bool
  ble_dev_cnt_former :: u8
  ble_dev_cnt_current :: u8
  ble_dev_nameid_list_former :: "u32 list"
  ble_dev_nameid_list_current :: "u32 list"

definition former_begin :: "nat \<Rightarrow> ble_dev \<Rightarrow> ble_dev" where
  "former_begin k b =
     (if ble_dev_fetch_flag b then b
      else b\<lparr>ble_dev_cnt_former := of_nat k, ble_dev_nameid_list_former := replicate 40 0\<rparr>)"

definition former_failed :: "nat \<Rightarrow> ble_dev \<Rightarrow> ble_dev" where
  "former_failed i b =
     (if ble_dev_fetch_flag b then b
      else b\<lparr>ble_dev_cnt_former := of_nat i, ble_dev_nameid_list_current := replicate 40 0, ble_dev_cnt_current := 0\<rparr>)"

definition former_set :: "nat \<Rightarrow> u32 \<Rightarrow> ble_dev \<Rightarrow> ble_dev" where
  "former_set i n b =
     (if ble_dev_fetch_flag b then b else b\<lparr>ble_dev_nameid_list_former := (ble_dev_nameid_list_former b)[i := n]\<rparr>)"

fun mac_loop :: "(u32 \<Rightarrow> (app_state_t \<times> device_info) option) \<Rightarrow> nat \<Rightarrow> u32 list \<Rightarrow> int \<Rightarrow> mac_arrays \<Rightarrow> ble_dev
    \<Rightarrow> (int \<times> mac_arrays \<times> ble_dev) option" where
  "mac_loop read i [] n m b = Some (n, m, b)"
| "mac_loop read i (x # xs) n m b =
     (case read x of
        None \<Rightarrow> None
      | Some (ST_ERR, d) \<Rightarrow> Some (- 1, m, former_failed i b)
      | Some (ST_OK, d) \<Rightarrow>
          (let b = former_set i (di_nameid d) b in
           case idstr_to_bytes_array (replicate 6 0) (filter (\<lambda>c. c \<noteq> 45) (di_mac_addr d)) of
             None \<Rightarrow> None
           | Some (l, a) \<Rightarrow>
               let e = (bt_addr_of a, di_nameid d) in
               if di_sensor_type d = TYPE_STR_INSIGHT_P then mac_loop read (i + 1) xs (n + 1) (m\<lparr>arr_p := arr_p m @ [e]\<rparr>) b
               else if di_sensor_type d = TYPE_STR_INSIGHT_PP then mac_loop read (i + 1) xs (n + 1) (m\<lparr>arr_p := arr_p m @ [e]\<rparr>) b
               else if di_sensor_type d = TYPE_STR_INSIGHT_T then mac_loop read (i + 1) xs (n + 1) (m\<lparr>arr_t := arr_t m @ [e]\<rparr>) b
               else mac_loop read (i + 1) xs n m b))"

definition app_db_fetch_children_mac_array_from_db_v2 ::
    "(int \<times> u32 list) option \<Rightarrow> (u32 \<Rightarrow> (app_state_t \<times> device_info) option) \<Rightarrow> u32 \<Rightarrow> ble_dev \<Rightarrow> (int \<times> mac_arrays \<times> ble_dev) option" where
  "app_db_fetch_children_mac_array_from_db_v2 fetched read kp_bufsz b =
     (let m = \<lparr>arr_p = [], arr_t = []\<rparr> in
      if kp_bufsz = 0 then Some (- 1, m, b)
      else case fetched of
        None \<Rightarrow> None
      | Some (k, ids) \<Rightarrow>
          if k < 0 then Some (- 1, m, b)
          else let k = min (nat k) MAX_BT_WHITE_LIST; k = (if k * 8 > unat kp_bufsz then unat kp_bufsz div 8 else k) in
            mac_loop read 0 (take k ids) 0 m (former_begin k b))"

text \<open>
  The caller ignores the result.  Both arrays have 40 entries and start as zero.  The list of the predict sensors is sent to the process that
  connects to them, if there is a queue to it, whether sending succeeds or not; only then the white list of the Insight-T
  sensors is replaced.  The configuration of the gateway itself, which is read next, is not modelled.
\<close>

definition array40 :: "'a \<Rightarrow> 'a list \<Rightarrow> 'a list" where
  "array40 z xs = xs @ replicate (40 - length xs) z"

definition app_pro_update_dev_list ::
    "int \<Rightarrow> (u32 \<times> u32 list) option \<Rightarrow> (u32 \<Rightarrow> (u32 \<times> gw_pro_data_t list) option) \<Rightarrow> white_list \<times> ble_dev
     \<Rightarrow> (bt_addr list option \<times> white_list \<times> ble_dev) option" where
  "app_pro_update_dev_list msg_queue_id_to_ble resp row_of wb = do {
     (r, m, b) \<leftarrow> app_db_fetch_children_mac_array_from_db_v2 (app_db_fetch_filtered_index 2 160 resp)
       (\<lambda>i. app_db_read_dev_info_from_db (row_of i)) 320 (snd wb);
     if msg_queue_id_to_ble = - 1 then Some (None, fst wb, b)
     else do {
       w \<leftarrow> app_hci_update_bt_white_list (Some (array40 zero_bt_addr (map fst (arr_t m)))) (array40 0 (map snd (arr_t m))) 40 (fst wb);
       Some (Some (array40 zero_bt_addr (map fst (arr_p m))), w, b) } }"

section \<open>Strings of addresses\<close>

lemma hex_val_digit: "n < 16 \<Longrightarrow> hex_val (upper_digit n) = Some n"
proof -
  assume "n < 16"
  then have "n \<in> set [0..<16]" by simp
  moreover have "list_all (\<lambda>n. hex_val (upper_digit n) = Some n) [0..<16]" by code_simp
  ultimately show ?thesis unfolding list_all_iff by blast
qed

lemma upper_digit_no_dash: "n < 16 \<Longrightarrow> upper_digit n \<noteq> 45"
proof -
  assume "n < 16"
  then have "n \<in> set [0..<16]" by simp
  moreover have "list_all (\<lambda>n. upper_digit n \<noteq> 45) [0..<16]" by code_simp
  ultimately show ?thesis unfolding list_all_iff by blast
qed

lemma byte_of_nibbles: "of_nat (unat b div 16) * 0x10 + of_nat (unat b mod 16) = (b :: u8)"
proof -
  have "of_nat (unat b div 16) * 0x10 + of_nat (unat b mod 16) = (of_nat (unat b div 16 * 16 + unat b mod 16) :: u8)"
    by (simp only: of_nat_add of_nat_mult of_nat_numeral)
  also have "\<dots> = of_nat (unat b)" by (simp only: div_mult_mod_eq)
  finally show ?thesis by simp
qed

lemma nibbles: "unat (b :: u8) div 16 < 16" "unat (b :: u8) mod 16 < 16"
  using unat_u8_lt [of b] by (auto intro: less_mult_imp_div_less)

lemma idstr_step:
  assumes "even i" "k mod sz < length buf"
  shows "idstr_loop sz (hex_pair b @ cs) i k buf = idstr_loop sz cs (i + 2) (k + 1) (buf[k mod sz := b])"
  using assms by (simp add: hex_pair_def hex_val_digit nibbles byte_of_nibbles even_iff_mod_2_eq_zero mod_Suc)

lemma idstr_loop_hex:
  "length pre + length as = sz \<Longrightarrow> idstr_loop sz (concat (map hex_pair as)) (2 * length pre) (length pre) (pre @ replicate (length as) 0) = pre @ as"
proof (induction as arbitrary: pre)
  case (Cons a as)
  let ?buf = "pre @ replicate (length (a # as)) 0"
  have k: "length pre mod sz = length pre" "length pre < length ?buf" using Cons.prems by simp_all
  have "idstr_loop sz (concat (map hex_pair (a # as))) (2 * length pre) (length pre) ?buf =
    idstr_loop sz (concat (map hex_pair as)) (2 * length pre + 2) (length pre + 1) (?buf[length pre mod sz := a])"
    unfolding list.map concat.simps by (rule idstr_step) (use k in simp_all)
  also have "\<dots> = idstr_loop sz (concat (map hex_pair as)) (2 * length (pre @ [a])) (length (pre @ [a])) ((pre @ [a]) @ replicate (length as) 0)"
    unfolding k(1) by (simp add: list_update_append)
  also have "\<dots> = (pre @ [a]) @ as" using Cons.prems by (intro Cons.IH) simp
  finally show ?case by simp
qed simp

text \<open>
  A string spells an address when its digits, without dashes, are those of the bytes; they can be written in upper or lower case.  The
  database process stores the string without the dashes (\<^verbatim>\<open>insert.c\<close>, \<^verbatim>\<open>update.c\<close>).
\<close>

definition spells_mac :: "bytes \<Rightarrow> bytes \<Rightarrow> bool" where
  "spells_mac s a \<longleftrightarrow> map hex_val (filter (\<lambda>c. c \<noteq> 45) s) = map hex_val (concat (map hex_pair a))"

lemma idstr_loop_values: "map hex_val s = map hex_val t \<Longrightarrow> idstr_loop sz s i k buf = idstr_loop sz t i k buf"
proof (induction s arbitrary: t i k buf)
  case (Cons c s)
  then show ?case by (cases t) (auto split: option.splits)
qed simp

lemma idstr_values:
  assumes "map hex_val s = map hex_val t"
  shows "idstr_to_bytes_array buf s = idstr_to_bytes_array buf t"
proof -
  have l: "length s = length t" using arg_cong [OF assms, of length] by simp
  have "map hex_val (takeWhile (\<lambda>c. hex_val c \<noteq> None) u) = takeWhile (\<lambda>v. v \<noteq> None) (map hex_val u)" for u
    by (induction u) auto
  then have "length (takeWhile (\<lambda>c. hex_val c \<noteq> None) s) = length (takeWhile (\<lambda>c. hex_val c \<noteq> None) t)"
    using assms by (metis length_map)
  then show ?thesis using idstr_loop_values [OF assms] by (simp add: idstr_to_bytes_array_def l)
qed

lemma length_hex_pairs [simp]: "length (concat (map hex_pair a)) = 2 * length a"
  by (induction a) (simp_all add: hex_pair_def)

text \<open>Reading the digits of a list of bytes, written without separators, gives the bytes.\<close>

lemma idstr_hex:
  assumes "0 < length a" "length a < 128"
  shows "idstr_to_bytes_array (replicate (length a) 0) (concat (map hex_pair a)) = Some (of_nat (length a), a)"
proof -
  have "length (takeWhile (\<lambda>c. hex_val c \<noteq> None) (concat (map hex_pair a))) \<le> length (concat (map hex_pair a))" by (rule length_takeWhile_le)
  then have "length (takeWhile (\<lambda>c. hex_val c \<noteq> None) (concat (map hex_pair a))) < 256" using assms(2) by simp
  moreover have "idstr_loop (length a) (concat (map hex_pair a)) 0 0 (replicate (length a) 0) = a"
    using idstr_loop_hex [of "[]" a "length a"] by simp
  moreover have "unat (of_nat (2 * length a) :: u8) = 2 * length a" using assms(2) by (intro unat_of_nat_u8) simp
  ultimately show ?thesis using assms by (simp add: idstr_to_bytes_array_def Let_def not_le)
qed

theorem idstr_reads_back:
  assumes "0 < length a" "length a < 128"
  shows "idstr_to_bytes_array (replicate (length a) 0) (concat (map hex_pair a)) = Some (of_nat (length a), a)"
  using idstr_hex [OF assms] .

theorem idstr_reads_back_witness:
  "idstr_to_bytes_array [0, 0, 0] (concat (map hex_pair [0xC4, 0xBD, 0x6A])) = Some (3, [0xC4, 0xBD, 0x6A])"
  using idstr_reads_back [of "[0xC4, 0xBD, 0x6A]"] by (simp add: numeral_eq_Suc)

section \<open>From the device table to the filter\<close>

text \<open>The memory image of the stored address is the address with its bytes in reverse order.\<close>

lemma unat_of_nat_u32: "n < 4294967296 \<Longrightarrow> unat (of_nat n :: u32) = n"
  by (simp add: unat_of_nat)

lemma div_mod_256: "r < 256 \<Longrightarrow> (q * 256 + r) div 256 = q" "r < 256 \<Longrightarrow> (q * 256 + r) mod 256 = r" for q r :: nat
  by simp_all

lemma unat_three_bytes: "unat (of_nat (unat (x :: u8) * 0x100 * 0x100 + unat (y :: u8) * 0x100 + unat (z :: u8)) :: u32)
    = (unat x * 0x100 + unat y) * 0x100 + unat z"
proof -
  have "unat x * 0x100 * 0x100 + unat y * 0x100 + unat z < 4294967296"
    using unat_u8_le [of x] unat_u8_le [of y] unat_u8_le [of z] by linarith
  from unat_of_nat_u32 [OF this] show ?thesis by (simp only: add_mult_distrib)
qed

lemma three_bytes:
  fixes x y z :: u8
  defines "w \<equiv> of_nat (unat x * 0x100 * 0x100 + unat y * 0x100 + unat z) :: u32"
  shows "ucast w = z" "ucast (drop_bit 8 w) = y" "ucast (drop_bit 16 w) = x"
proof -
  have w: "unat w = (unat x * 0x100 + unat y) * 0x100 + unat z" unfolding w_def by (rule unat_three_bytes)
  have "unat (ucast w :: u8) = unat w mod 256" "unat (ucast (drop_bit 8 w) :: u8) = unat w div 256 mod 256"
    "unat (ucast (drop_bit 16 w) :: u8) = unat w div 65536 mod 256"
    by (simp_all add: unsigned_ucast_eq unsigned_drop_bit_eq take_bit_eq_mod drop_bit_eq_div unat_div)
  moreover have "unat w div 256 = unat x * 0x100 + unat y" "unat w mod 256 = unat z" "(unat x * 0x100 + unat y) div 256 = unat x" "(unat x * 0x100 + unat y) mod 256 = unat y"
    unfolding w by (simp_all only: div_mod_256 unat_u8_lt)
  moreover have "unat w div 65536 = unat w div 256 div 256" by (simp add: div_mult2_eq [of _ 256 256, simplified])
  ultimately have "unat (ucast w :: u8) = unat z" "unat (ucast (drop_bit 8 w) :: u8) = unat y" "unat (ucast (drop_bit 16 w) :: u8) = unat x"
    by simp_all
  then show "ucast w = z" "ucast (drop_bit 8 w) = y" "ucast (drop_bit 16 w) = x" unfolding word_unat_eq_iff by simp_all
qed

lemma kp_mac_of_addr:
  assumes "length a = 6"
  shows "kp_mac_array False (bt_addr_of a) = rev a"
proof -
  obtain a0 a1 a2 a3 a4 a5 where a: "a = [a0, a1, a2, a3, a4, a5]"
    using assms by (auto simp: length_Suc_conv eval_nat_numeral)
  have b: "unat a0 * 0x100 + unat a1 < 65536" using unat_u8_le [of a0] unat_u8_le [of a1] by linarith
  have "nap (bt_addr_of a) = mk16 a0 a1"
    unfolding word_unat_eq_iff unat_mk16 by (simp only: bt_addr_of_def a bt_addr.simps nth_Cons_0 nth_Cons_Suc One_nat_def unat_of_nat_u16 [OF b])
  moreover have "uap (bt_addr_of a) = a2" by (simp add: bt_addr_of_def a)
  moreover have "lap (bt_addr_of a) = of_nat (unat a3 * 0x100 * 0x100 + unat a4 * 0x100 + unat a5)"
    by (simp only: bt_addr_of_def a bt_addr.simps) (simp only: nth_Cons_numeral, simp)
  ultimately show ?thesis unfolding kp_mac_le using three_bytes [of a3 a4 a5] by (simp only: hi8_mk16 lo8_mk16) (simp add: a)
qed

definition dev_addr :: "device_info \<Rightarrow> bytes" where
  "dev_addr d = snd (the (idstr_to_bytes_array (replicate 6 0) (filter (\<lambda>c. c \<noteq> 45) (di_mac_addr d))))"

lemma idstr_mac:
  assumes "length a = 6" "spells_mac s a"
  shows "idstr_to_bytes_array (replicate 6 0) (filter (\<lambda>c. c \<noteq> 45) s) = Some (6, a)"
proof -
  have "idstr_to_bytes_array (replicate 6 0) (concat (map hex_pair a)) = Some (6, a)" using idstr_hex [of a] assms(1) by simp
  then show ?thesis using idstr_values [OF assms(2) [unfolded spells_mac_def], of "replicate 6 0"] by simp
qed

lemma dev_addr_mac: "length a = 6 \<Longrightarrow> spells_mac (di_mac_addr d) a \<Longrightarrow> dev_addr d = a"
  by (simp add: dev_addr_def idstr_mac)

definition dev_entry :: "device_info \<Rightarrow> bt_addr \<times> u32" where
  "dev_entry d = (bt_addr_of (dev_addr d), di_nameid d)"

lemma type_strings: "TYPE_STR_INSIGHT_T \<noteq> TYPE_STR_INSIGHT_P" "TYPE_STR_INSIGHT_T \<noteq> TYPE_STR_INSIGHT_PP"
  by code_simp+

lemma mac_loop_lists:
  assumes "list_all2 (\<lambda>i d. read i = Some (ST_OK, d)) ids ds" "\<forall>d \<in> set ds. \<exists>a. length a = 6 \<and> spells_mac (di_mac_addr d) a"
  shows "\<exists>n' m' b'. mac_loop read k ids n m b = Some (n', m', b')
    \<and> arr_t m' = arr_t m @ map dev_entry (filter (\<lambda>d. di_sensor_type d = TYPE_STR_INSIGHT_T) ds)"
  using assms
proof (induction arbitrary: k n m b rule: list_all2_induct)
  case (Cons i ids d ds)
  then obtain a where a: "length a = 6" "spells_mac (di_mac_addr d) a" by auto
  then have s: "idstr_to_bytes_array (replicate 6 0) (filter (\<lambda>c. c \<noteq> 45) (di_mac_addr d)) = Some (6, a)" by (simp add: idstr_mac)
  have e: "(bt_addr_of a, di_nameid d) = dev_entry d" using dev_addr_mac [OF a] by (simp add: dev_entry_def)
  let ?b = "former_set k (di_nameid d) b"
  have ih: "\<exists>n' m' b'. mac_loop read (k + 1) ids n m ?b = Some (n', m', b')
      \<and> arr_t m' = arr_t m @ map dev_entry (filter (\<lambda>d. di_sensor_type d = TYPE_STR_INSIGHT_T) ds)" for n m
    using Cons by simp
  show ?case
    unfolding mac_loop.simps using Cons.hyps s type_strings
      ih [of "n + 1" "m\<lparr>arr_p := arr_p m @ [dev_entry d]\<rparr>"] ih [of "n + 1" "m\<lparr>arr_t := arr_t m @ [dev_entry d]\<rparr>"] ih [of n m]
    by (simp add: e Let_def)
qed simp

lemma find_unique:
  assumes "x \<in> set xs" "P x" "\<And>y. y \<in> set xs \<Longrightarrow> P y \<Longrightarrow> y = x"
  shows "List.find P (xs @ zs) = Some x"
  using assms
proof (induction xs)
  case (Cons y ys)
  show ?case
  proof (cases "P y")
    case True
    then show ?thesis using Cons.prems(3) [of y] by simp
  next
    case False
    then have "x \<in> set ys" using Cons.prems(1,2) by auto
    then have "List.find P (ys @ zs) = Some x"
      by (intro Cons.IH Cons.prems(2)) (blast intro: Cons.prems(3) list.set_intros(2))+
    then show ?thesis using False by simp
  qed
qed simp

lemma array40_length: "length xs \<le> 40 \<Longrightarrow> length (array40 z xs) = 40"
  by (simp add: array40_def)

lemma zip_array40: "zip (array40 y (map fst xs)) (array40 z (map snd xs)) = xs @ replicate (40 - length xs) (y, z)"
  by (simp add: array40_def zip_append1 zip_map_fst_snd zip_replicate)

lemma update_array40:
  assumes "length xs \<le> 40"
  shows "app_hci_update_bt_white_list (Some (array40 zero_bt_addr (map fst xs))) (array40 0 (map snd xs)) 40 w =
    Some \<lparr>bt_white_list = array40 zero_bt_addr (map fst xs), nameId = array40 0 (map snd xs)\<rparr>"
  using assms by (simp add: app_hci_update_bt_white_list_def Let_def MAX_BT_WHITE_LIST_def array40_length)

lemma dev_list_updated:
  assumes "length ids \<le> 40" "list_all2 (\<lambda>i d. app_db_read_dev_info_from_db (row_of i) = Some (ST_OK, d)) ids ds"
    and "\<forall>d \<in> set ds. \<exists>a. length a = 6 \<and> spells_mac (di_mac_addr d) a"
    and "es = map dev_entry (filter (\<lambda>d. di_sensor_type d = TYPE_STR_INSIGHT_T) ds)"
    and "q \<noteq> - 1"
  shows "\<exists>ps b'. app_pro_update_dev_list q (Some (of_nat (length ids), ids)) row_of (w0, b) =
    Some (ps, \<lparr>bt_white_list = array40 zero_bt_addr (map fst es), nameId = array40 0 (map snd es)\<rparr>, b')"
proof -
  have l: "length ds = length ids" using assms(2) by (simp add: list_all2_lengthD)
  have "sint (of_nat (length ids) :: u32) = int (length ids)" using assms(1) by (simp add: signed_of_nat signed_take_bit_int_eq_self)
  then have f: "app_db_fetch_filtered_index 2 160 (Some (of_nat (length ids), ids)) = Some (int (length ids), ids)"
    using assms(1) by (simp add: app_db_fetch_filtered_index_def Let_def)
  obtain n m' b' where m: "mac_loop (\<lambda>i. app_db_read_dev_info_from_db (row_of i)) 0 ids 0 \<lparr>arr_p = [], arr_t = []\<rparr>
      (former_begin (length ids) b) = Some (n, m', b')" "arr_t m' = es"
    using mac_loop_lists [OF assms(2,3), of 0 0 "\<lparr>arr_p = [], arr_t = []\<rparr>" "former_begin (length ids) b"] assms(4) by auto
  have "length es \<le> 40" unfolding assms(4) using l assms(1) length_filter_le [of _ ds] by (metis le_trans length_map)
  from update_array40 [OF this] show ?thesis using assms(1,5) f m
    by (simp add: app_pro_update_dev_list_def app_db_fetch_children_mac_array_from_db_v2_def Let_def MAX_BT_WHITE_LIST_def)
qed

text \<open>
  C13: After the device list was read, an advertisement passes the filter under the name number of its sender, for every Insight-T sensor of
  a table of at most 40 devices with different addresses, whether these are stored with or without dashes, in upper or lower case.
\<close>

theorem configured_sensor_passes_filter:
  assumes "length ids \<le> 40" "list_all2 (\<lambda>i d. app_db_read_dev_info_from_db (row_of i) = Some (ST_OK, d)) ids ds"
    and "list_all2 (\<lambda>d a. length a = 6 \<and> spells_mac (di_mac_addr d) a) ds addrs" "distinct addrs"
    and "q \<noteq> - 1" "app_pro_update_dev_list q (Some (of_nat (length ids), ids)) row_of (w0, b0) = Some (ps, w, b)"
    and "k < length ds" "di_sensor_type (ds ! k) = TYPE_STR_INSIGHT_T"
    and "pm_type m = P_MSG_ADV_REPORT" "rpt_addr (pm_report m) = rev (addrs ! k)"
  shows "does_hci_event_match_filter False w m = Some (di_nameid (ds ! k))"
proof -
  let ?ts = "filter (\<lambda>d. di_sensor_type d = TYPE_STR_INSIGHT_T) ds"
  let ?P = "\<lambda>(b, n). kp_mac_array False b = rev (addrs ! k)"
  have a: "length (addrs ! j) = 6" "spells_mac (di_mac_addr (ds ! j)) (addrs ! j)" if "j < length ds" for j
    using assms(3) that by (auto simp: list_all2_conv_all_nth)
  have "\<forall>d \<in> set ds. \<exists>a. length a = 6 \<and> spells_mac (di_mac_addr d) a"
  proof
    fix d assume "d \<in> set ds"
    then obtain j where "j < length ds" "d = ds ! j" by (auto simp: in_set_conv_nth)
    then show "\<exists>a. length a = 6 \<and> spells_mac (di_mac_addr d) a" using a by blast
  qed
  from dev_list_updated [OF assms(1,2) this refl assms(5), of w0 b0]
  have w: "w = \<lparr>bt_white_list = array40 zero_bt_addr (map fst (map dev_entry ?ts)), nameId = array40 0 (map snd (map dev_entry ?ts))\<rparr>"
    using assms(6) by auto
  have image: "?P (dev_entry (ds ! j)) \<longleftrightarrow> addrs ! j = addrs ! k" if "j < length ds" for j
    using dev_addr_mac [OF a [OF that]] kp_mac_of_addr [OF a(1) [OF that]] by (simp add: dev_entry_def)
  have "List.find ?P (map dev_entry ?ts @ replicate (40 - length ?ts) (zero_bt_addr, 0)) = Some (dev_entry (ds ! k))"
  proof (rule find_unique)
    show "dev_entry (ds ! k) \<in> set (map dev_entry ?ts)" using assms(7,8) by simp
    show "?P (dev_entry (ds ! k))" using image [OF assms(7)] by simp
    fix y assume y: "y \<in> set (map dev_entry ?ts)" "?P y"
    then obtain j where j: "j < length ds" "y = dev_entry (ds ! j)" by (auto simp: in_set_conv_nth)
    then have "addrs ! j = addrs ! k" using image [OF j(1)] y(2) by simp
    then have "j = k" using nth_eq_iff_index_eq [OF assms(4)] list_all2_lengthD [OF assms(3)] assms(7) j(1) by simp
    then show "y = dev_entry (ds ! k)" using j(2) by simp
  qed
  then have "List.find (\<lambda>(b, n). kp_mac_array False b = rev (addrs ! k)) (zip (bt_white_list w) (nameId w)) = Some (dev_entry (ds ! k))"
    unfolding w white_list.simps zip_array40 by simp
  then show ?thesis using assms(9,10) by (simp add: does_hci_event_match_filter_def dev_entry_def)
qed

definition sample_row :: "u32 \<times> gw_pro_data_t list" where
  "sample_row = (3, [(1, Data_uint32 7), (4, Data_char (ascii ''C4BD6A000001'')), (6, Data_char (ascii ''Insight-T''))])"

definition sample_device :: device_info where
  "sample_device = zero_device\<lparr>di_nameid := 7, di_mac_addr := ascii ''C4BD6A000001'', di_sensor_type := TYPE_STR_INSIGHT_T\<rparr>"

lemma sample_device_read: "app_db_read_dev_info_from_db (Some sample_row) = Some (ST_OK, sample_device)"
proof -
  have "put_string 19 (Data_char (ascii ''C4BD6A000001'')) = Some (ascii ''C4BD6A000001'')"
    "put_string 50 (Data_char (ascii ''Insight-T'')) = Some TYPE_STR_INSIGHT_T" by code_simp+
  moreover have "[0..<unat (3 :: u32)] = [0, 1, 2]" by code_simp
  ultimately show ?thesis
    by (simp add: app_db_read_dev_info_from_db_def sample_row_def to_fill_dev_info_by_data_from_db_def fill_dev_field_def sample_device_def)
qed

definition sample_ble_dev :: ble_dev where
  "sample_ble_dev = \<lparr>ble_dev_fetch_flag = False, ble_dev_cnt_former = 0, ble_dev_cnt_current = 0,
     ble_dev_nameid_list_former = replicate 40 0, ble_dev_nameid_list_current = replicate 40 0\<rparr>"

theorem configured_sensor_passes_filter_witness:
  "\<exists>ps w b. app_pro_update_dev_list 3 (Some (1, [7])) (\<lambda>i. Some sample_row) (allowed sample_allowed, sample_ble_dev) = Some (ps, w, b)
    \<and> does_hci_event_match_filter False w (sample_message\<lparr>pm_report := sample_report\<lparr>rpt_addr := [1, 0, 0, 0x6A, 0xBD, 0xC4]\<rparr>\<rparr>) = Some 7"
proof -
  have r: "list_all2 (\<lambda>i d. app_db_read_dev_info_from_db (Some sample_row) = Some (ST_OK, d)) [7] [sample_device]"
    by (simp add: sample_device_read)
  have m: "di_mac_addr sample_device = ascii ''C4BD6A000001''" "di_sensor_type sample_device = TYPE_STR_INSIGHT_T"
    "di_nameid sample_device = 7" by (simp_all add: sample_device_def)
  have sp: "spells_mac (ascii ''C4BD6A000001'') [0xC4, 0xBD, 0x6A, 0, 0, 1]" unfolding spells_mac_def by code_simp
  then have a: "list_all2 (\<lambda>d a. length a = 6 \<and> spells_mac (di_mac_addr d) a) [sample_device] [[0xC4, 0xBD, 0x6A, 0, 0, 1]]"
    by (simp add: m(1))
  have "\<forall>d \<in> set [sample_device]. \<exists>a. length a = 6 \<and> spells_mac (di_mac_addr d) a"
    using sp m(1) by (intro ballI exI [of _ "[0xC4, 0xBD, 0x6A, 0, 0, 1]"]) simp
  note a1 = this
  have q: "(3 :: int) \<noteq> - 1" by simp
  obtain ps w b where u: "app_pro_update_dev_list 3 (Some (of_nat (length [7 :: u32]), [7])) (\<lambda>i. Some sample_row)
      (allowed sample_allowed, sample_ble_dev) = Some (ps, w, b)"
    using dev_list_updated [OF _ r a1 refl q] by fastforce
  show ?thesis
    using configured_sensor_passes_filter [OF _ r a _ q u, of 0] u m
    by (intro exI [of _ ps] exI [of _ w] exI [of _ b]) (simp add: sample_message_def)
qed

text \<open>When the database does not answer, the white list is replaced by zero addresses: the error is not noticed.\<close>

theorem failed_read_clears_white_list:
  "app_pro_update_dev_list 3 None row_of (w, b) = Some (Some (replicate 40 zero_bt_addr),
     \<lparr>bt_white_list = replicate 40 zero_bt_addr, nameId = replicate 40 0\<rparr>, b)"
proof -
  have 1: "app_db_fetch_filtered_index 2 160 None = Some (- 1, [])"
    unfolding app_db_fetch_filtered_index_def option.case by simp
  have 2: "app_db_fetch_children_mac_array_from_db_v2 (Some (- 1, [])) r 320 b = Some (- 1, \<lparr>arr_p = [], arr_t = []\<rparr>, b)" for r
    by (simp add: app_db_fetch_children_mac_array_from_db_v2_def Let_def)
  have 3: "array40 z [] = replicate 40 z" for z :: 'z by (simp only: array40_def append_Nil list.size diff_zero)
  have 4: "((3 :: int) = - 1) = False" by simp
  show ?thesis
    unfolding app_pro_update_dev_list_def snd_conv 1 2 using update_array40 [of "[]" w]
    by (simp only: bind.bind_lunit case_prod_conv mac_arrays.simps list.map 3 list.size le0 fst_conv 4 if_False)
qed

text \<open>A string of 10 characters or more in the manufacturer column is written past the end of its array, one of 50 or more in the name column.\<close>

theorem device_strings_overflow:
  "fill_dev_field (5, Data_char s) d = None \<longleftrightarrow> 10 \<le> length (c_string s)"
  "fill_dev_field (2, Data_char s) d = None \<longleftrightarrow> 50 \<le> length (c_string s)"
  by (auto simp: fill_dev_field_def put_string_def Let_def)

end
