(* ===== verification/Mbus_Util.thy ===== *)
theory Mbus_Util
  imports Crc_Serial
begin

text \<open>
  The helper routines of \<^verbatim>\<open>src/modbus_rtu/modbus_slave/util_tool.c\<close>: the table-driven
  CRC-16 of the RTU frames, the hexadecimal digits of the register layout strings, the
  ELF hash that decides whether a shared-memory table changed, and the endianness probe.
  The CRC is compared with the bit-serial definition of the Modbus checksum, and the
  error detection the slave relies on is derived from it.
\<close>

section \<open>CRC-16\<close>

definition table_crc_hi :: "u8 list" where
  "table_crc_hi = [
     0x00, 0xC1, 0x81, 0x40, 0x01, 0xC0, 0x80, 0x41, 0x01, 0xC0, 0x80, 0x41, 0x00, 0xC1, 0x81, 0x40,
     0x01, 0xC0, 0x80, 0x41, 0x00, 0xC1, 0x81, 0x40, 0x00, 0xC1, 0x81, 0x40, 0x01, 0xC0, 0x80, 0x41,
     0x01, 0xC0, 0x80, 0x41, 0x00, 0xC1, 0x81, 0x40, 0x00, 0xC1, 0x81, 0x40, 0x01, 0xC0, 0x80, 0x41,
     0x00, 0xC1, 0x81, 0x40, 0x01, 0xC0, 0x80, 0x41, 0x01, 0xC0, 0x80, 0x41, 0x00, 0xC1, 0x81, 0x40,
     0x01, 0xC0, 0x80, 0x41, 0x00, 0xC1, 0x81, 0x40, 0x00, 0xC1, 0x81, 0x40, 0x01, 0xC0, 0x80, 0x41,
     0x00, 0xC1, 0x81, 0x40, 0x01, 0xC0, 0x80, 0x41, 0x01, 0xC0, 0x80, 0x41, 0x00, 0xC1, 0x81, 0x40,
     0x00, 0xC1, 0x81, 0x40, 0x01, 0xC0, 0x80, 0x41, 0x01, 0xC0, 0x80, 0x41, 0x00, 0xC1, 0x81, 0x40,
     0x01, 0xC0, 0x80, 0x41, 0x00, 0xC1, 0x81, 0x40, 0x00, 0xC1, 0x81, 0x40, 0x01, 0xC0, 0x80, 0x41,
     0x01, 0xC0, 0x80, 0x41, 0x00, 0xC1, 0x81, 0x40, 0x00, 0xC1, 0x81, 0x40, 0x01, 0xC0, 0x80, 0x41,
     0x00, 0xC1, 0x81, 0x40, 0x01, 0xC0, 0x80, 0x41, 0x01, 0xC0, 0x80, 0x41, 0x00, 0xC1, 0x81, 0x40,
     0x00, 0xC1, 0x81, 0x40, 0x01, 0xC0, 0x80, 0x41, 0x01, 0xC0, 0x80, 0x41, 0x00, 0xC1, 0x81, 0x40,
     0x01, 0xC0, 0x80, 0x41, 0x00, 0xC1, 0x81, 0x40, 0x00, 0xC1, 0x81, 0x40, 0x01, 0xC0, 0x80, 0x41,
     0x00, 0xC1, 0x81, 0x40, 0x01, 0xC0, 0x80, 0x41, 0x01, 0xC0, 0x80, 0x41, 0x00, 0xC1, 0x81, 0x40,
     0x01, 0xC0, 0x80, 0x41, 0x00, 0xC1, 0x81, 0x40, 0x00, 0xC1, 0x81, 0x40, 0x01, 0xC0, 0x80, 0x41,
     0x01, 0xC0, 0x80, 0x41, 0x00, 0xC1, 0x81, 0x40, 0x00, 0xC1, 0x81, 0x40, 0x01, 0xC0, 0x80, 0x41,
     0x00, 0xC1, 0x81, 0x40, 0x01, 0xC0, 0x80, 0x41, 0x01, 0xC0, 0x80, 0x41, 0x00, 0xC1, 0x81, 0x40]"

definition table_crc_lo :: "u8 list" where
  "table_crc_lo = [
     0x00, 0xC0, 0xC1, 0x01, 0xC3, 0x03, 0x02, 0xC2, 0xC6, 0x06, 0x07, 0xC7, 0x05, 0xC5, 0xC4, 0x04,
     0xCC, 0x0C, 0x0D, 0xCD, 0x0F, 0xCF, 0xCE, 0x0E, 0x0A, 0xCA, 0xCB, 0x0B, 0xC9, 0x09, 0x08, 0xC8,
     0xD8, 0x18, 0x19, 0xD9, 0x1B, 0xDB, 0xDA, 0x1A, 0x1E, 0xDE, 0xDF, 0x1F, 0xDD, 0x1D, 0x1C, 0xDC,
     0x14, 0xD4, 0xD5, 0x15, 0xD7, 0x17, 0x16, 0xD6, 0xD2, 0x12, 0x13, 0xD3, 0x11, 0xD1, 0xD0, 0x10,
     0xF0, 0x30, 0x31, 0xF1, 0x33, 0xF3, 0xF2, 0x32, 0x36, 0xF6, 0xF7, 0x37, 0xF5, 0x35, 0x34, 0xF4,
     0x3C, 0xFC, 0xFD, 0x3D, 0xFF, 0x3F, 0x3E, 0xFE, 0xFA, 0x3A, 0x3B, 0xFB, 0x39, 0xF9, 0xF8, 0x38,
     0x28, 0xE8, 0xE9, 0x29, 0xEB, 0x2B, 0x2A, 0xEA, 0xEE, 0x2E, 0x2F, 0xEF, 0x2D, 0xED, 0xEC, 0x2C,
     0xE4, 0x24, 0x25, 0xE5, 0x27, 0xE7, 0xE6, 0x26, 0x22, 0xE2, 0xE3, 0x23, 0xE1, 0x21, 0x20, 0xE0,
     0xA0, 0x60, 0x61, 0xA1, 0x63, 0xA3, 0xA2, 0x62, 0x66, 0xA6, 0xA7, 0x67, 0xA5, 0x65, 0x64, 0xA4,
     0x6C, 0xAC, 0xAD, 0x6D, 0xAF, 0x6F, 0x6E, 0xAE, 0xAA, 0x6A, 0x6B, 0xAB, 0x69, 0xA9, 0xA8, 0x68,
     0x78, 0xB8, 0xB9, 0x79, 0xBB, 0x7B, 0x7A, 0xBA, 0xBE, 0x7E, 0x7F, 0xBF, 0x7D, 0xBD, 0xBC, 0x7C,
     0xB4, 0x74, 0x75, 0xB5, 0x77, 0xB7, 0xB6, 0x76, 0x72, 0xB2, 0xB3, 0x73, 0xB1, 0x71, 0x70, 0xB0,
     0x50, 0x90, 0x91, 0x51, 0x93, 0x53, 0x52, 0x92, 0x96, 0x56, 0x57, 0x97, 0x55, 0x95, 0x94, 0x54,
     0x9C, 0x5C, 0x5D, 0x9D, 0x5F, 0x9F, 0x9E, 0x5E, 0x5A, 0x9A, 0x9B, 0x5B, 0x99, 0x59, 0x58, 0x98,
     0x88, 0x48, 0x49, 0x89, 0x4B, 0x8B, 0x8A, 0x4A, 0x4E, 0x8E, 0x8F, 0x4F, 0x8D, 0x4D, 0x4C, 0x8C,
     0x44, 0x84, 0x85, 0x45, 0x87, 0x47, 0x46, 0x86, 0x82, 0x42, 0x43, 0x83, 0x41, 0x81, 0x80, 0x40]"

text \<open>
  One round of the loop: the state is the pair \<^verbatim>\<open>(crc_hi, crc_lo)\<close> and the index is a
  byte, so it never leaves the tables.
\<close>

definition crc16_round :: "u8 \<times> u8 \<Rightarrow> u8 \<Rightarrow> u8 \<times> u8" where
  "crc16_round st b =
     (let i = unat (snd st XOR b)
      in (table_crc_lo ! i, fst st XOR table_crc_hi ! i))"

definition util_tool_cal_crc16 :: "bytes \<Rightarrow> u16" where
  "util_tool_cal_crc16 buffer =
     (let st = foldl crc16_round (0xFF, 0xFF) buffer in mk16 (fst st) (snd st))"

section \<open>Hexadecimal digits\<close>

definition util_tool_is_hex_char :: "u8 \<Rightarrow> bool" where
  "util_tool_is_hex_char kpch =
     (if 0x30 \<le> kpch \<and> kpch \<le> 0x39 then True
      else if 0x61 \<le> kpch \<and> kpch \<le> 0x66 then True
      else if 0x41 \<le> kpch \<and> kpch \<le> 0x46 then True
      else False)"

definition util_tool_hex_char_to_uint8 :: "u8 \<Rightarrow> u8" where
  "util_tool_hex_char_to_uint8 kpch =
     (if 0x30 \<le> kpch \<and> kpch \<le> 0x39 then kpch - 0x30
      else if 0x61 \<le> kpch \<and> kpch \<le> 0x66 then kpch - 0x61 + 10
      else if 0x41 \<le> kpch \<and> kpch \<le> 0x46 then kpch - 0x41 + 10
      else 0)"

section \<open>ELF hash\<close>

definition elfhash_round :: "u32 \<Rightarrow> u8 \<Rightarrow> u32" where
  "elfhash_round hash b =
     (let h = push_bit 4 hash + (ucast b AND 0xFF);
          x = h AND 0xF0000000;
          h' = (if x \<noteq> 0 then h XOR drop_bit 24 x else h)
      in h' AND NOT x)"

definition util_tool_cal_elfhash :: "bytes option \<Rightarrow> u32" where
  "util_tool_cal_elfhash inputData =
     (case inputData of None \<Rightarrow> 0 | Some bs \<Rightarrow> foldl elfhash_round 0 bs)"

section \<open>Endianness of the platform\<close>

text \<open>
  The object representation of the \<^verbatim>\<open>uint16_t\<close> value 1 is a parameter: the probe reads
  its first byte.
\<close>

definition util_tool_is_platform_big_endian :: "(u16 \<Rightarrow> bytes) \<Rightarrow> bool" where
  "util_tool_is_platform_big_endian repr = (repr 1 ! 0 = 0)"

section \<open>The checksum and its specification\<close>

text \<open>
  The Modbus specification gives the checksum bit by bit, with the reflected polynomial \<^verbatim>\<open>0xA001\<close> and the initial
  value \<^verbatim>\<open>0xFFFF\<close>.
\<close>

abbreviation poly16 :: u16 where "poly16 \<equiv> 0xA001"

interpretation crc16: reflected_crc poly16
  by unfold_locales (simp_all add: bit_numeral_rec)

definition crc_lin :: "nat \<Rightarrow> u16" where "crc_lin i = (crc_bit poly16 ^^ 8) (of_nat i)"

lemma crc_lin_double:
  "k < 16 \<Longrightarrow> j < 2 ^ k \<Longrightarrow> crc_lin (2 ^ k + j) = crc_lin (2 ^ k) XOR crc_lin j"
  unfolding crc_lin_def
  by (subst of_nat_add_xor) (simp_all only: crc_bits_xor len_num1 len_bit0)

lemma crc_lin_basis:
  "crc_lin 0 = 0" "crc_lin 1 = mk16 0xC0 0xC1" "crc_lin 2 = mk16 0xC1 0x81" "crc_lin 4 = mk16 0xC3 0x01"
  "crc_lin 8 = mk16 0xC6 0x01" "crc_lin 16 = mk16 0xCC 0x01" "crc_lin 32 = mk16 0xD8 0x01"
  "crc_lin 64 = mk16 0xF0 0x01" "crc_lin 128 = mk16 0xA0 0x01"
  by code_simp+

lemma table_crc_lo_span: "table_crc_lo = span [0xA0, 0xF0, 0xD8, 0xCC, 0xC6, 0xC3, 0xC1, 0xC0]"
  by (simp add: table_crc_lo_def)

lemma table_crc_hi_span: "table_crc_hi = span [0x01, 0x01, 0x01, 0x01, 0x01, 0x01, 0x81, 0xC1]"
  by (simp add: table_crc_hi_def)

lemma hi_tab: "map (\<lambda>i. hi8 (crc_lin i)) [0..<256] = table_crc_lo"
  using map_span [of "\<lambda>i. hi8 (crc_lin i)" 8]
  by (simp add: crc_lin_basis crc_lin_double hi8_xor table_crc_lo_span upt8 del: upt_rec_numeral span.simps One_nat_def)

lemma lo_tab: "map (\<lambda>i. lo8 (crc_lin i)) [0..<256] = table_crc_hi"
  using map_span [of "\<lambda>i. lo8 (crc_lin i)" 8]
  by (simp add: crc_lin_basis crc_lin_double lo8_xor table_crc_hi_span upt8 del: upt_rec_numeral span.simps One_nat_def)

lemma table_ok: "i < 256 \<Longrightarrow> (crc_bit poly16 ^^ 8) (of_nat i) = mk16 (table_crc_lo ! i) (table_crc_hi ! i)"
  unfolding hi_tab [symmetric] lo_tab [symmetric] crc_lin_def by simp

lemma crc_bits_shift: "(crc_bit poly16 ^^ 8) (mk16 h 0) = mk16 0 h"
proof -
  have "(crc_bit poly16 ^^ 8) (mk16 h 0) = drop_bit 8 (mk16 h 0)"
    by (rule crc16.crc_bits_high) (auto simp: mk16_def bit_simps)
  also have "\<dots> = mk16 0 h"
    by (rule bit_word_eqI) (auto simp: mk16_def bit_simps dest: bit_imp_le_length)
  finally show ?thesis .
qed

lemma crc16_round_serial:
  "(let st = crc16_round (h, l) b in mk16 (fst st) (snd st)) = crc_byte poly16 (mk16 h l) b"
proof -
  have "mk16 h l XOR ucast b = mk16 h 0 XOR of_nat (unat (l XOR b))"
    by (rule bit_word_eqI) (auto simp: mk16_def bit_simps dest: bit_imp_le_length)
  then show ?thesis
    by (simp add: crc_byte_def crc_bits_xor crc_bits_shift table_ok crc16_round_def Let_def mk16_xor del: of_nat_unat)
qed

lemma crc16_fold_serial:
  "(let st = foldl crc16_round (h, l) bs in mk16 (fst st) (snd st)) = foldl (crc_byte poly16) (mk16 h l) bs"
proof (induction bs arbitrary: h l)
  case (Cons b bs)
  then show ?case
    using crc16_round_serial [of h l b] by (cases "crc16_round (h, l) b") simp
qed simp

lemma crc16_table_serial: "util_tool_cal_crc16 buffer = crc_serial poly16 0xFFFF buffer"
  using crc16_fold_serial [of "0xFF" "0xFF" buffer]
  by (simp add: util_tool_cal_crc16_def crc_serial_def mk16_def)

lemma cal_crc16_append:
  "util_tool_cal_crc16 (bs @ cs) = foldl (crc_byte poly16) (util_tool_cal_crc16 bs) cs"
  by (simp add: crc16_table_serial crc_serial_def)

lemma crc_byte_mk16: "crc_byte poly16 (mk16 h l) l = mk16 0 h"
proof -
  have "mk16 h l XOR ucast l = mk16 h 0"
    by (rule bit_word_eqI) (auto simp: mk16_def bit_simps dest: bit_imp_le_length)
  then show ?thesis by (simp add: crc_byte_def crc_bits_shift)
qed

lemma crc16_residue_gen:
  "util_tool_cal_crc16 (bs @ [lo8 (util_tool_cal_crc16 bs), hi8 (util_tool_cal_crc16 bs)]) = 0"
proof -
  obtain h l where c: "util_tool_cal_crc16 bs = mk16 h l"
    by (metis mk16_hi8_lo8)
  show ?thesis
    by (simp add: cal_crc16_append c crc_byte_mk16)
qed

lemma crc_byte_0: "crc_byte poly16 r b = 0 \<longleftrightarrow> r = ucast b"
  unfolding crc_byte_def by (metis crc16.crc_bits_inject crc_bits_0 xor_cancel_right xor_self_eq)

lemma crc16_residue_iff: "util_tool_cal_crc16 (bs @ [l, h]) = 0 \<longleftrightarrow> util_tool_cal_crc16 bs = mk16 h l"
proof
  assume "util_tool_cal_crc16 bs = mk16 h l"
  then show "util_tool_cal_crc16 (bs @ [l, h]) = 0"
    using crc16_residue_gen [of bs] by simp
next
  assume "util_tool_cal_crc16 (bs @ [l, h]) = 0"
  then have "crc_byte poly16 (util_tool_cal_crc16 bs) l = crc_byte poly16 (mk16 h l) l"
    by (simp add: cal_crc16_append crc_byte_0 crc_byte_mk16) (simp add: mk16_def)
  then show "util_tool_cal_crc16 bs = mk16 h l" by (rule crc16.crc_byte_inject_reg)
qed

text \<open>
  the table driven checksum \<^verbatim>\<open>util_tool_cal_crc16\<close> computes, for every buffer, the bit-serial
  CRC-16 of the Modbus specification (reflected polynomial 0xA001, initial value 0xFFFF).
\<close>

theorem cal_crc16_serial: "util_tool_cal_crc16 buffer = crc_serial poly16 0xFFFF buffer"
  by (rule crc16_table_serial)

text \<open>
  two frames that differ in exactly one byte never have the same checksum.
\<close>

theorem crc16_detects_single_byte:
  assumes "b \<noteq> c"
  shows "util_tool_cal_crc16 (xs @ b # ys) \<noteq> util_tool_cal_crc16 (xs @ c # ys)"
  using assms by (auto simp: cal_crc16_append dest!: crc16.crc_fold_inject crc16.crc_byte_inject_byte)

theorem crc16_detects_single_byte_witness:
  "util_tool_cal_crc16 [0x01, 0x03, 0x00] \<noteq> util_tool_cal_crc16 [0x01, 0x04, 0x00]"
  using crc16_detects_single_byte [of 3 4 "[1]" "[0]"] by simp

section \<open>Hexadecimal digits and the ELF hash\<close>

lemma hex_char_to_uint8_bound:
  "util_tool_hex_char_to_uint8 c < 16"
  unfolding util_tool_hex_char_to_uint8_def
  by (auto simp: word_less_nat_alt word_le_nat_alt unat_sub)

text \<open>The digit that \<^verbatim>\<open>printf\<close> writes for a conversion \<^verbatim>\<open>%x\<close>.\<close>

definition hex_digit :: "nat \<Rightarrow> u8" where
  "hex_digit n = (if n < 10 then 0x30 + of_nat n else 0x57 + of_nat n)"

lemma hex_digit_char: "n < 16 \<Longrightarrow> util_tool_is_hex_char (hex_digit n)"
  by (auto simp: hex_digit_def util_tool_is_hex_char_def word_le_nat_alt unat_word_ariths)

lemma hex_digit_value: "n < 16 \<Longrightarrow> util_tool_hex_char_to_uint8 (hex_digit n) = of_nat n"
  by (auto simp: hex_digit_def util_tool_hex_char_to_uint8_def word_le_nat_alt unat_word_ariths)

lemma elfhash_round_top: "elfhash_round h b < 2 ^ 28"
proof -
  have "\<not> bit (elfhash_round h b) n" if "28 \<le> n" "n < 32" for n
  proof -
    have "n \<in> {28, 29, 30, 31}" using that by auto
    then show ?thesis
      by (auto simp: elfhash_round_def Let_def bit_simps bit_numeral_rec)
  qed
  then have "bit (elfhash_round h b) n \<Longrightarrow> n < 32 \<Longrightarrow> n < 28" for n
    by (meson not_le)
  then have "take_bit 28 (elfhash_round h b) = elfhash_round h b"
    by (intro bit_word_eqI) (auto simp: bit_simps)
  then have "unat (elfhash_round h b) < 2 ^ 28"
    by (metis take_bit_nat_less_exp unsigned_take_bit_eq)
  then show ?thesis
    by (simp add: word_less_nat_alt)
qed
end
