(* ===== verification/Mslave_State.thy ===== *)
theory Mslave_State
  imports Mbus_Util
begin

text \<open>
  The controller of the Modbus slave, \<^verbatim>\<open>struct modbus_slave_controller\<close> of
  \<^verbatim>\<open>src/modbus_rtu/modbus_slave/app_mslave.h\<close>, and its elementary operations in
  \<^verbatim>\<open>app_mslave.c\<close>: the listen-only mode, the nine saturating diagnostic counters, the
  communication event log and the exception status.

  The controller pointer is always the address of the global \<^verbatim>\<open>g_mslave_ctr\<close>, so the
  NULL branches of the accessors are not part of the model.  Mutexes are implicit: one
  operation of the model is one critical section.
\<close>

section \<open>Enumerations\<close>

datatype error_code =
    ERR_NONE | ERR_UNKNOWN | ERR_API_FAIL | ERR_INVALID_PARAM | ERR_RES_UNAVAILABLE
  | ERR_NO_PERMISSION
  | EMBXILFUN | EMBXILADD | EMBXILVAL | EMBXSFAIL | EMBBADCRC | EMBBADDATA | EMBMDATA

datatype slave_mode = SMODE_UNKNOWN | SMODE_ACTIVE | SMODE_LISTEN_ONLY | SMODE_MAX

datatype port_parity = PARITY_ZERO | PARITY_NONE | PARITY_EVEN | PARITY_ODD

datatype stop_bit = SBIT_ZERO | SBIT_1 | SBIT_2 | SBIT_1_5

datatype register_mode = REG_MD_EXTENSIBLE | REG_MD_EFFICIENT | REG_MD_UNKNOWN

datatype mbus_byte_oder =
  MBUS_BORDER_ABCD | MBUS_BORDER_DCBA | MBUS_BORDER_BADC | MBUS_BORDER_CDAB

datatype addr_group =
    ADDR_GP_UNKNOWN | ADDR_GP_COIL | ADDR_GP_DISCRETE_INPUT | ADDR_GP_INPUT_REGISTER
  | ADDR_GP_HOLDING_REGISTER | ADDR_GP_REPORT_SLAVE_ID | ADDR_GP_FIFO_QUEUE
  | ADDR_GP_FILE_RECORD | ADDR_GP_DIAGNOSTICS | ADDR_GP_COM_EVENT_COUNTER
  | ADDR_GP_COM_EVENT_LOG | ADDR_GP_DEV_ID | ADDR_GP_OTHER nat

section \<open>Records\<close>

text \<open>
  \<^verbatim>\<open>PARITY_ZERO\<close> and \<^verbatim>\<open>SBIT_ZERO\<close> are the value 0 that \<^verbatim>\<open>memset\<close> leaves in the two
  enumerations, whose named constants are all different from 0.
\<close>

record port_conf_info =
  baudrate :: u32
  parity :: port_parity
  stopbit :: stop_bit
  slaveID :: u8
  reg_md :: register_mode

definition MAX_COMM_EVENT_LOG :: nat where
  "MAX_COMM_EVENT_LOG = 64"

record counter_log_register_set =
  diag_cnt_bus_message :: u16
  diag_cnt_bus_comm_error :: u16
  diag_cnt_slave_exception_error :: u16
  diag_cnt_slave_message :: u16
  diag_cnt_slave_no_response :: u16
  diag_cnt_slave_nak :: u16
  diag_cnt_slave_busy :: u16
  diag_cnt_bus_charac_overrun :: u16
  diag_regisger :: u16
  cnt_comm_event :: u16
  log_comm_event :: bytes
  log_event_cnt :: u8
  log_event_idx :: u8
  exception_status :: u8

record modbus_mapping_t =
  nb_bits :: nat
  start_bits :: nat
  nb_input_bits :: nat
  start_input_bits :: nat
  nb_input_registers :: nat
  start_input_registers :: nat
  nb_registers :: nat
  start_registers :: nat
  tab_bits :: bytes
  tab_input_bits :: bytes
  tab_input_registers :: "u16 list"
  tab_registers :: "u16 list"

record freading_buffer =
  file_len :: u32
  tstamp :: int
  buf_file_no :: u16
  buf_record_no :: u16
  buf_record_len :: u16
  dtbuf :: bytes

text \<open>The serial context: what \<^verbatim>\<open>modbus_new_rtu\<close> and \<^verbatim>\<open>modbus_set_slave\<close> were given.\<close>

record modbus_t =
  ctx_baud :: u32
  ctx_parity :: u8
  ctx_stop :: nat
  ctx_slave :: int

record modbusConfig_t =
  baudrateSlave :: u32
  slaveAddrSlave :: u32
  paritySlave :: u8
  stopSlave :: u8
  registerMode :: u8

record gatewayTableData_t =
  lastEditTimeS :: nat
  gw_nameId :: u32
  gw_description :: bytes
  modbusConfig :: modbusConfig_t

record deviceTableData_t =
  dev_nameId :: u32
  dev_name :: bytes
  dev_description :: bytes

record register_mapping_info =
  flg :: bool
  offset :: u16
  mapping_num :: u16
  src :: "u16 list"
  src_cnt :: u16
  des :: "u16 list"
  des_cnt :: u16
  max_reg_addr :: u16
  min_reg_addr :: u16

text \<open>
  The controller.  \<^term>\<open>g_reg_mapping_info\<close> is the file-level static of \<^verbatim>\<open>app_mslave.c\<close>;
  \<^term>\<open>wire\<close> collects the frames handed to the serial port, newest first, and
  \<^term>\<open>tx_cnt\<close> counts the attempts to write one.
\<close>

record modbus_slave_controller =
  smode :: slave_mode
  slave_id :: u8
  mctx :: "modbus_t option"
  port_conf :: port_conf_info
  to_update_mslave_req :: bool
  mbus_border :: mbus_byte_oder
  mapping_queue :: "modbus_mapping_t list"
  state_set :: counter_log_register_set
  ch_input_delimiter :: u8
  freading_buf_queue :: "freading_buffer list"
  gwconf :: gatewayTableData_t
  gwconf_hash :: u32
  to_force_gwconf_update :: bool
  dev_array :: "deviceTableData_t list"
  dev_hash :: u32
  to_force_dev_update :: bool
  sdata_hash :: u32
  to_force_sdata_update :: bool
  g_reg_mapping_info :: register_mapping_info
  wire :: "bytes list"
  tx_cnt :: nat

type_synonym ctr = modbus_slave_controller

section \<open>Port configuration and modes\<close>

definition to_set_port_conf_default :: "port_conf_info \<Rightarrow> port_conf_info" where
  "to_set_port_conf_default pc = pc\<lparr>
     baudrate := 115200, parity := PARITY_NONE, stopbit := SBIT_1,
     slaveID := 1, reg_md := REG_MD_EXTENSIBLE\<rparr>"

definition app_mslave_set_mctx :: "modbus_t option \<Rightarrow> ctr \<Rightarrow> ctr" where
  "app_mslave_set_mctx pt_mctx c = c\<lparr>mctx := pt_mctx\<rparr>"

definition app_mslave_get_mctx :: "ctr \<Rightarrow> modbus_t option" where
  "app_mslave_get_mctx c = mctx c"

definition app_mslave_get_mbus_border :: "ctr \<Rightarrow> mbus_byte_oder" where
  "app_mslave_get_mbus_border c = mbus_border c"

definition app_mslave_get_reg_mode :: "u8 \<Rightarrow> register_mode" where
  "app_mslave_get_reg_mode regmdval =
     (if regmdval = 0 then REG_MD_EXTENSIBLE
      else if regmdval = 1 then REG_MD_EFFICIENT
      else if regmdval = 2 then REG_MD_EXTENSIBLE
      else if regmdval = 3 then REG_MD_EFFICIENT
      else if regmdval = 4 then REG_MD_EXTENSIBLE
      else if regmdval = 5 then REG_MD_EFFICIENT
      else if regmdval = 6 then REG_MD_EXTENSIBLE
      else if regmdval = 7 then REG_MD_EFFICIENT
      else REG_MD_UNKNOWN)"

definition app_mslave_set_to_update_mslave :: "bool \<Rightarrow> ctr \<Rightarrow> ctr" where
  "app_mslave_set_to_update_mslave newstate c = c\<lparr>to_update_mslave_req := newstate\<rparr>"

definition app_mslave_get_to_update_mslave :: "ctr \<Rightarrow> bool" where
  "app_mslave_get_to_update_mslave c = to_update_mslave_req c"

definition app_mslave_set_mode :: "slave_mode \<Rightarrow> ctr \<Rightarrow> error_code \<times> ctr" where
  "app_mslave_set_mode new_mode c =
     (if new_mode = SMODE_UNKNOWN \<or> new_mode = SMODE_MAX then (ERR_INVALID_PARAM, c)
      else (ERR_NONE, c\<lparr>smode := new_mode\<rparr>))"

definition app_mslave_get_mode :: "ctr \<Rightarrow> slave_mode" where
  "app_mslave_get_mode c = smode c"

section \<open>Picking the fields of a request\<close>

text \<open>
  The receive buffer of the main loop has \<^verbatim>\<open>SZ_RTU_MSGBUF\<close> = 256 bytes; \<^verbatim>\<open>len\<close> is the
  number of bytes received.  \<^verbatim>\<open>app_mslave_pick_quantity\<close> joins its two checks with a
  disjunction whose first member always holds.
\<close>

definition app_mslave_pick_starting_address :: "bytes \<Rightarrow> nat \<Rightarrow> u16" where
  "app_mslave_pick_starting_address msg len = (if 4 \<le> len then mk16 (msg ! 2) (msg ! 3) else 0)"

definition app_mslave_pick_quantity :: "bytes \<Rightarrow> nat \<Rightarrow> u16" where
  "app_mslave_pick_quantity msg len = mk16 (msg ! 4) (msg ! 5)"

definition app_mslave_pick_fun_code :: "bytes \<Rightarrow> nat \<Rightarrow> u8" where
  "app_mslave_pick_fun_code msg len = (if 4 \<le> len then msg ! 1 else 0)"

definition app_mslave_pick_slave_id :: "bytes \<Rightarrow> nat \<Rightarrow> u8" where
  "app_mslave_pick_slave_id msg len = (if 4 \<le> len then msg ! 0 else 0)"

definition to_pick_sub_fcode_for_disagnostic :: "bytes \<Rightarrow> nat \<Rightarrow> u16" where
  "to_pick_sub_fcode_for_disagnostic pkt len = (if 4 \<le> len then mk16 (pkt ! 2) (pkt ! 3) else 0xFFFF)"

definition is_fun_code_for_reading :: "u8 \<Rightarrow> bool" where
  "is_fun_code_for_reading fcode =
     (fcode = 0x01 \<or> fcode = 0x02 \<or> fcode = 0x03 \<or> fcode = 0x04 \<or> fcode = 0x07
      \<or> fcode = 0x11 \<or> fcode = 0x18 \<or> fcode = 0x14 \<or> fcode = 0x08 \<or> fcode = 0x0B
      \<or> fcode = 0x0C \<or> fcode = 0x2B)"

definition app_mslave_get_op_addr_group :: "bytes \<Rightarrow> u8 \<Rightarrow> addr_group" where
  "app_mslave_get_op_addr_group msg len =
     (if len < 4 then ADDR_GP_UNKNOWN
      else let f = msg ! 1 in
       if f = 0x01 then ADDR_GP_COIL
       else if f = 0x02 then ADDR_GP_DISCRETE_INPUT
       else if f = 0x03 then ADDR_GP_HOLDING_REGISTER
       else if f = 0x04 then ADDR_GP_INPUT_REGISTER
       else if f = 0x11 then ADDR_GP_REPORT_SLAVE_ID
       else if f = 0x18 then ADDR_GP_FIFO_QUEUE
       else if f = 0x14 then ADDR_GP_FILE_RECORD
       else if f = 0x08 then ADDR_GP_DIAGNOSTICS
       else if f = 0x0B then ADDR_GP_COM_EVENT_COUNTER
       else if f = 0x0C then ADDR_GP_COM_EVENT_LOG
       else if f = 0x2B then ADDR_GP_OTHER 0x2B
       else ADDR_GP_UNKNOWN)"

section \<open>Diagnostic register, counters and state set\<close>

definition zero_state_set :: counter_log_register_set where
  "zero_state_set = \<lparr>
     diag_cnt_bus_message = 0, diag_cnt_bus_comm_error = 0,
     diag_cnt_slave_exception_error = 0, diag_cnt_slave_message = 0,
     diag_cnt_slave_no_response = 0, diag_cnt_slave_nak = 0, diag_cnt_slave_busy = 0,
     diag_cnt_bus_charac_overrun = 0, diag_regisger = 0, cnt_comm_event = 0,
     log_comm_event = replicate 64 0, log_event_cnt = 0, log_event_idx = 0,
     exception_status = 0\<rparr>"

definition app_mslave_clear_state_set :: "ctr \<Rightarrow> ctr" where
  "app_mslave_clear_state_set c = c\<lparr>state_set := zero_state_set\<rparr>"

definition app_mslave_get_diagnostic_register :: "ctr \<Rightarrow> u16" where
  "app_mslave_get_diagnostic_register c = diag_regisger (state_set c)"

definition app_mslave_set_diagnostic_register :: "ctr \<Rightarrow> error_code \<times> ctr" where
  "app_mslave_set_diagnostic_register c = (ERR_API_FAIL, c)"

text \<open>Every counter stops at \<^verbatim>\<open>MAX_DIAG_CNT\<close> = 0xFFFF.\<close>

definition inc_sat :: "u16 \<Rightarrow> u16" where
  "inc_sat n = (if n < 0xFFFF then n + 1 else n)"

definition app_mslave_inc_bus_msg_cnt :: "ctr \<Rightarrow> ctr" where
  "app_mslave_inc_bus_msg_cnt c =
     c\<lparr>state_set := (state_set c)\<lparr>diag_cnt_bus_message := inc_sat (diag_cnt_bus_message (state_set c))\<rparr>\<rparr>"

definition app_mslave_get_bus_msg_cnt :: "ctr \<Rightarrow> u16" where
  "app_mslave_get_bus_msg_cnt c = diag_cnt_bus_message (state_set c)"

definition app_mslave_inc_bus_comm_error_cnt :: "ctr \<Rightarrow> ctr" where
  "app_mslave_inc_bus_comm_error_cnt c =
     c\<lparr>state_set := (state_set c)\<lparr>diag_cnt_bus_comm_error := inc_sat (diag_cnt_bus_comm_error (state_set c))\<rparr>\<rparr>"

definition app_mslave_get_bus_comm_error_cnt :: "ctr \<Rightarrow> u16" where
  "app_mslave_get_bus_comm_error_cnt c = diag_cnt_bus_comm_error (state_set c)"

definition app_mslave_inc_slave_exception_error_cnt :: "ctr \<Rightarrow> ctr" where
  "app_mslave_inc_slave_exception_error_cnt c =
     c\<lparr>state_set := (state_set c)\<lparr>diag_cnt_slave_exception_error := inc_sat (diag_cnt_slave_exception_error (state_set c))\<rparr>\<rparr>"

definition app_mslave_get_slave_exception_error_cnt :: "ctr \<Rightarrow> u16" where
  "app_mslave_get_slave_exception_error_cnt c = diag_cnt_slave_exception_error (state_set c)"

definition app_mslave_inc_slave_msg_cnt :: "ctr \<Rightarrow> ctr" where
  "app_mslave_inc_slave_msg_cnt c =
     c\<lparr>state_set := (state_set c)\<lparr>diag_cnt_slave_message := inc_sat (diag_cnt_slave_message (state_set c))\<rparr>\<rparr>"

definition app_mslave_get_slave_msg_cnt :: "ctr \<Rightarrow> u16" where
  "app_mslave_get_slave_msg_cnt c = diag_cnt_slave_message (state_set c)"

definition app_mslave_inc_slave_no_resp_cnt :: "ctr \<Rightarrow> ctr" where
  "app_mslave_inc_slave_no_resp_cnt c =
     c\<lparr>state_set := (state_set c)\<lparr>diag_cnt_slave_no_response := inc_sat (diag_cnt_slave_no_response (state_set c))\<rparr>\<rparr>"

definition app_mslave_get_slave_no_resp_cnt :: "ctr \<Rightarrow> u16" where
  "app_mslave_get_slave_no_resp_cnt c = diag_cnt_slave_no_response (state_set c)"

definition app_mslave_inc_slave_nak_cnt :: "ctr \<Rightarrow> ctr" where
  "app_mslave_inc_slave_nak_cnt c =
     c\<lparr>state_set := (state_set c)\<lparr>diag_cnt_slave_nak := inc_sat (diag_cnt_slave_nak (state_set c))\<rparr>\<rparr>"

definition app_mslave_get_slave_nak_cnt :: "ctr \<Rightarrow> u16" where
  "app_mslave_get_slave_nak_cnt c = diag_cnt_slave_nak (state_set c)"

definition app_mslave_inc_slave_busy_cnt :: "ctr \<Rightarrow> ctr" where
  "app_mslave_inc_slave_busy_cnt c =
     c\<lparr>state_set := (state_set c)\<lparr>diag_cnt_slave_busy := inc_sat (diag_cnt_slave_busy (state_set c))\<rparr>\<rparr>"

definition app_mslave_get_slave_busy_cnt :: "ctr \<Rightarrow> u16" where
  "app_mslave_get_slave_busy_cnt c = diag_cnt_slave_busy (state_set c)"

definition app_mslave_inc_bus_charac_overrun_cnt :: "ctr \<Rightarrow> ctr" where
  "app_mslave_inc_bus_charac_overrun_cnt c =
     c\<lparr>state_set := (state_set c)\<lparr>diag_cnt_bus_charac_overrun := inc_sat (diag_cnt_bus_charac_overrun (state_set c))\<rparr>\<rparr>"

definition app_mslave_get_slave_bus_charac_overrun_cnt :: "ctr \<Rightarrow> u16" where
  "app_mslave_get_slave_bus_charac_overrun_cnt c = diag_cnt_bus_charac_overrun (state_set c)"

definition app_mslave_inc_comm_event_cnt :: "ctr \<Rightarrow> ctr" where
  "app_mslave_inc_comm_event_cnt c =
     c\<lparr>state_set := (state_set c)\<lparr>cnt_comm_event := inc_sat (cnt_comm_event (state_set c))\<rparr>\<rparr>"

definition app_mslave_get_comm_event_cnt :: "ctr \<Rightarrow> u16" where
  "app_mslave_get_comm_event_cnt c = cnt_comm_event (state_set c)"

section \<open>Event log and exception status\<close>

definition app_mslave_set_comm_event_log :: "u8 \<Rightarrow> ctr \<Rightarrow> ctr" where
  "app_mslave_set_comm_event_log event_byte c =
     (let s = state_set c;
          s1 = s\<lparr>log_comm_event := (log_comm_event s)[unat (log_event_idx s) mod 64 := event_byte]\<rparr>;
          s2 = s1\<lparr>log_event_idx := of_nat ((unat (log_event_idx s1) + 1) mod 64)\<rparr>;
          s3 = (if unat (log_event_cnt s2) < 64 then s2\<lparr>log_event_cnt := log_event_cnt s2 + 1\<rparr> else s2)
      in c\<lparr>state_set := s3\<rparr>)"

text \<open>
  The index expression \<^verbatim>\<open>0xFF + log_event_idx - 1 - i\<close> is computed in \<^verbatim>\<open>uint32_t\<close>, since
  \<^verbatim>\<open>i\<close> has that type.
\<close>

definition event_log_index :: "u8 \<Rightarrow> nat \<Rightarrow> nat" where
  "event_log_index idx i = unat (0xFF + ucast idx - 1 - (of_nat i :: u32)) mod 64"

definition app_mslave_get_comm_event_log :: "ctr \<Rightarrow> bytes" where
  "app_mslave_get_comm_event_log c =
     (let s = state_set c; n = (if unat (log_event_cnt s) > 64 then 64 else unat (log_event_cnt s))
      in map (\<lambda>i. log_comm_event s ! event_log_index (log_event_idx s) i) [0..<n])"

text \<open>
  \<^verbatim>\<open>app_mslave_set_exception_status\<close> compares its own return code, which is
  \<^verbatim>\<open>ERR_NONE\<close> = 0 = NULL, with NULL: the early return is always taken.
\<close>

definition app_mslave_set_exception_status :: "u8 \<Rightarrow> ctr \<Rightarrow> error_code \<times> ctr" where
  "app_mslave_set_exception_status except_status c =
     (let tpret = ERR_NONE in
      if tpret = ERR_NONE then (ERR_INVALID_PARAM, c)
      else (tpret, c\<lparr>state_set := (state_set c)\<lparr>exception_status := except_status\<rparr>\<rparr>))"

definition app_mslave_get_exception_status :: "ctr \<Rightarrow> u8" where
  "app_mslave_get_exception_status c = exception_status (state_set c)"

section \<open>Initialisation\<close>

definition zero_gwconf :: gatewayTableData_t where
  "zero_gwconf = \<lparr>lastEditTimeS = 0, gw_nameId = 0, gw_description = replicate 70 0,
     modbusConfig = \<lparr>baudrateSlave = 0, slaveAddrSlave = 0, paritySlave = 0, stopSlave = 0, registerMode = 0\<rparr>\<rparr>"

definition zero_dev :: deviceTableData_t where
  "zero_dev = \<lparr>dev_nameId = 0, dev_name = replicate 70 0, dev_description = replicate 70 0\<rparr>"

definition zero_remap :: register_mapping_info where
  "zero_remap = \<lparr>flg = False, offset = 0, mapping_num = 0, src = replicate 1024 0, src_cnt = 0,
     des = replicate 1024 0, des_cnt = 0, max_reg_addr = 0, min_reg_addr = 0\<rparr>"

text \<open>
  \<^verbatim>\<open>app_mslave_init_ctr\<close>: the results of the four mutex initialisations (port configuration,
  mapping queue, state set, file buffers) and of the two IPC objects are arguments.  The
  statement for \<^verbatim>\<open>to_force_gwconf_update\<close> in the source has no effect, so that field keeps
  its value.
\<close>

definition app_mslave_init_ctr ::
    "(nat \<Rightarrow> int) \<Rightarrow> error_code \<Rightarrow> error_code \<Rightarrow> ctr \<Rightarrow> error_code + ctr" where
  "app_mslave_init_ctr mtx_rc shm_rc sem_rc c =
     (let c1 = c\<lparr>smode := SMODE_ACTIVE, port_conf := to_set_port_conf_default (port_conf c)\<rparr> in
      if mtx_rc 0 \<noteq> 0 then Inl ERR_API_FAIL
      else let c2 = c1\<lparr>mctx := None, mbus_border := MBUS_BORDER_CDAB, mapping_queue := []\<rparr> in
      if mtx_rc 1 \<noteq> 0 then Inl ERR_API_FAIL
      else let c3 = c2\<lparr>state_set := zero_state_set\<rparr> in
      if mtx_rc 2 \<noteq> 0 then Inl ERR_API_FAIL
      else let c4 = c3\<lparr>ch_input_delimiter := 0, freading_buf_queue := []\<rparr> in
      if mtx_rc 3 \<noteq> 0 then Inl ERR_API_FAIL
      else let c5 = c4\<lparr>gwconf := zero_gwconf, dev_array := replicate 40 zero_dev\<rparr> in
      if shm_rc \<noteq> ERR_NONE then Inl ERR_API_FAIL
      else if sem_rc \<noteq> ERR_NONE then Inl ERR_API_FAIL
      else Inr (c5\<lparr>to_force_dev_update := False, to_force_sdata_update := False\<rparr>))"

text \<open>The zero-initialised global and the state a successful initialisation gives.\<close>

definition g_mslave_ctr :: ctr where
  "g_mslave_ctr = \<lparr>
     smode = SMODE_UNKNOWN, slave_id = 0, mctx = None,
     port_conf = \<lparr>baudrate = 0, parity = PARITY_ZERO, stopbit = SBIT_ZERO, slaveID = 0,
                  reg_md = REG_MD_EXTENSIBLE\<rparr>,
     to_update_mslave_req = False, mbus_border = MBUS_BORDER_ABCD, mapping_queue = [],
     state_set = zero_state_set, ch_input_delimiter = 0, freading_buf_queue = [],
     gwconf = zero_gwconf, gwconf_hash = 0, to_force_gwconf_update = False,
     dev_array = replicate 40 zero_dev, dev_hash = 0, to_force_dev_update = False,
     sdata_hash = 0, to_force_sdata_update = False, g_reg_mapping_info = zero_remap,
     wire = [], tx_cnt = 0\<rparr>"

definition init_ctr :: ctr where
  "init_ctr = g_mslave_ctr\<lparr>
     smode := SMODE_ACTIVE, port_conf := to_set_port_conf_default (port_conf g_mslave_ctr),
     mbus_border := MBUS_BORDER_CDAB\<rparr>"

section \<open>Counters as one interface\<close>

lemma unat_inc_sat: "unat (inc_sat n) = min (unat n + 1) 65535"
proof (cases "n < 0xFFFF")
  case True
  then have "unat n < 65535" by (simp add: word_less_nat_alt)
  then show ?thesis using True by (simp add: inc_sat_def unat_word_ariths)
next
  case False
  then have "65535 \<le> unat n" by (simp add: word_less_nat_alt)
  then show ?thesis using False unat_u16_le [of n] by (simp add: inc_sat_def)
qed

text \<open>
  What the rest of the slave knows of a diagnostic counter: incrementing it saturates, and
  nothing else is promised.
\<close>

locale saturating_counter =
  fixes get :: "ctr \<Rightarrow> u16" and inc :: "ctr \<Rightarrow> ctr"
  assumes get_inc: "get (inc c) = inc_sat (get c)"
begin

lemma unat_get_iterate: "unat (get ((inc ^^ n) c)) = min (unat (get c) + n) 65535"
  by (induction n) (auto simp: get_inc unat_inc_sat)

lemma get_inc_mono: "unat (get c) \<le> unat (get (inc c))"
  using unat_u16_le [of "get c"] by (auto simp: get_inc unat_inc_sat min_def)

end

interpretation bus_msg: saturating_counter app_mslave_get_bus_msg_cnt app_mslave_inc_bus_msg_cnt
  by unfold_locales (simp add: app_mslave_get_bus_msg_cnt_def app_mslave_inc_bus_msg_cnt_def)

interpretation bus_comm_error:
  saturating_counter app_mslave_get_bus_comm_error_cnt app_mslave_inc_bus_comm_error_cnt
  by unfold_locales
    (simp add: app_mslave_get_bus_comm_error_cnt_def app_mslave_inc_bus_comm_error_cnt_def)

interpretation slave_exception:
  saturating_counter app_mslave_get_slave_exception_error_cnt app_mslave_inc_slave_exception_error_cnt
  by unfold_locales
    (simp add: app_mslave_get_slave_exception_error_cnt_def app_mslave_inc_slave_exception_error_cnt_def)

interpretation slave_msg: saturating_counter app_mslave_get_slave_msg_cnt app_mslave_inc_slave_msg_cnt
  by unfold_locales (simp add: app_mslave_get_slave_msg_cnt_def app_mslave_inc_slave_msg_cnt_def)

interpretation slave_no_resp:
  saturating_counter app_mslave_get_slave_no_resp_cnt app_mslave_inc_slave_no_resp_cnt
  by unfold_locales
    (simp add: app_mslave_get_slave_no_resp_cnt_def app_mslave_inc_slave_no_resp_cnt_def)

interpretation slave_nak: saturating_counter app_mslave_get_slave_nak_cnt app_mslave_inc_slave_nak_cnt
  by unfold_locales (simp add: app_mslave_get_slave_nak_cnt_def app_mslave_inc_slave_nak_cnt_def)

interpretation slave_busy: saturating_counter app_mslave_get_slave_busy_cnt app_mslave_inc_slave_busy_cnt
  by unfold_locales (simp add: app_mslave_get_slave_busy_cnt_def app_mslave_inc_slave_busy_cnt_def)

interpretation charac_overrun:
  saturating_counter app_mslave_get_slave_bus_charac_overrun_cnt app_mslave_inc_bus_charac_overrun_cnt
  by unfold_locales
    (simp add: app_mslave_get_slave_bus_charac_overrun_cnt_def app_mslave_inc_bus_charac_overrun_cnt_def)

interpretation comm_event: saturating_counter app_mslave_get_comm_event_cnt app_mslave_inc_comm_event_cnt
  by unfold_locales (simp add: app_mslave_get_comm_event_cnt_def app_mslave_inc_comm_event_cnt_def)

section \<open>The event log as a bounded list\<close>

definition log_wf :: "ctr \<Rightarrow> bool" where
  "log_wf c \<longleftrightarrow> length (log_comm_event (state_set c)) = 64
     \<and> unat (log_event_idx (state_set c)) < 64 \<and> unat (log_event_cnt (state_set c)) \<le> 64"

text \<open>Newest event first, found at \<^verbatim>\<open>log_event_idx - 1\<close> as the header file says.\<close>

definition log_events :: "ctr \<Rightarrow> bytes" where
  "log_events c = (let s = state_set c in
     map (\<lambda>i. log_comm_event s ! ((unat (log_event_idx s) + 63 - i) mod 64))
       [0..<unat (log_event_cnt s)])"

lemma ring_push_slot:
  assumes "k < 64" "i < 63"
  shows "(Suc k mod 64 + 63 - Suc i) mod 64 = (k + 63 - i) mod 64"
    and "(Suc k mod 64 + 63 - Suc i) mod 64 \<noteq> (k::nat)"
proof -
  show "(Suc k mod 64 + 63 - Suc i) mod 64 = (k + 63 - i) mod 64"
    using assms by (cases "k = 63") (auto simp: mod_if)
  then show "(Suc k mod 64 + 63 - Suc i) mod 64 \<noteq> k"
    using assms by (auto simp: mod_if split: if_splits)
qed

locale bounded_log =
  fixes wf :: "'s \<Rightarrow> bool" and events :: "'s \<Rightarrow> 'e list" and push :: "'e \<Rightarrow> 's \<Rightarrow> 's" and cap :: nat
  assumes wf_push: "wf s \<Longrightarrow> wf (push e s)"
    and events_push: "wf s \<Longrightarrow> events (push e s) = take cap (e # events s)"
begin

lemma wf_pushes: "wf s \<Longrightarrow> wf (fold push es s)"
  by (induction es arbitrary: s) (auto simp: wf_push)

lemma events_pushes:
  "wf s \<Longrightarrow> events (fold push es s) = (if es = [] then events s else take cap (rev es @ events s))"
proof (induction es rule: rev_induct)
  case (snoc e es)
  then show ?case
    using events_push [OF wf_pushes [OF snoc.prems], of e es]
    by (cases cap) (auto simp: min_def)
qed simp

end

lemma log_wf_push: "log_wf c \<Longrightarrow> log_wf (app_mslave_set_comm_event_log e c)"
  by (auto simp: log_wf_def app_mslave_set_comm_event_log_def Let_def unat_word_ariths)

lemma log_events_push:
  assumes "log_wf c"
  shows "log_events (app_mslave_set_comm_event_log e c) = take 64 (e # log_events c)"
proof -
  define k where "k = unat (log_event_idx (state_set c))"
  define n where "n = unat (log_event_cnt (state_set c))"
  define l where "l = log_comm_event (state_set c)"
  have kn: "k < 64" "n \<le> 64" "length l = 64"
    using assms by (auto simp: log_wf_def k_def n_def l_def)
  have lhs: "log_events (app_mslave_set_comm_event_log e c) =
      map (\<lambda>i. l[k := e] ! ((Suc k mod 64 + 63 - i) mod 64)) [0..<min (Suc n) 64]"
  proof -
    consider "n < 64" | "n = 64" using kn by linarith
    then show ?thesis
      using kn unfolding log_events_def app_mslave_set_comm_event_log_def Let_def
      by cases (auto simp: k_def n_def l_def unat_word_ariths)
  qed
  have rhs: "log_events c = map (\<lambda>i. l ! ((k + 63 - i) mod 64)) [0..<n]"
    by (simp add: log_events_def Let_def k_def n_def l_def)
  have hd: "l[k := e] ! ((Suc k mod 64 + 63) mod 64) = e"
    using kn by (cases "k = 63") auto
  show ?thesis
  proof (rule nth_equalityI)
    show "length (log_events (app_mslave_set_comm_event_log e c)) = length (take 64 (e # log_events c))"
      unfolding lhs rhs by (simp add: min_def)
  next
    fix i assume "i < length (log_events (app_mslave_set_comm_event_log e c))"
    then have i: "i < min (Suc n) 64" unfolding lhs by simp
    have "map f [0..<N] ! j = f j" if "j < N" for f :: "nat \<Rightarrow> u8" and j N
      using that by simp
    then have "log_events (app_mslave_set_comm_event_log e c) ! i = l[k := e] ! ((Suc k mod 64 + 63 - i) mod 64)"
      unfolding lhs using i by blast
    then show "log_events (app_mslave_set_comm_event_log e c) ! i = take 64 (e # log_events c) ! i"
      using hd ring_push_slot [of k "i - 1"] kn i
      unfolding rhs by (cases i) auto
  qed
qed

interpretation event_log: bounded_log log_wf log_events app_mslave_set_comm_event_log 64
  by unfold_locales (simp_all add: log_wf_push log_events_push)

lemma init_log: "log_wf init_ctr"
  by (simp add: log_wf_def init_ctr_def g_mslave_ctr_def zero_state_set_def)

lemma init_log_events: "log_events init_ctr = []"
  by (simp add: log_events_def init_ctr_def g_mslave_ctr_def zero_state_set_def)

lemma event_log_index_mod:
  assumes "unat idx < 64" "i < 64"
  shows "event_log_index idx i = (unat idx + 127 - Suc i) mod 64"
proof -
  have "unat (0xFF + ucast idx - 1 - (of_nat i :: u32)) = 254 + unat idx - i"
  proof -
    have eq: "0xFF + ucast idx - 1 - (of_nat i :: u32) = of_nat (254 + unat idx - i)"
      using assms by (simp add: of_nat_diff)
    show ?thesis
      using assms by (simp only: eq unat_of_nat) simp
  qed
  moreover have "254 + unat idx - i = (unat idx + 127 - Suc i) + 2 * 64"
    using assms by simp
  ultimately show ?thesis
    unfolding event_log_index_def by (metis mod_mult_self1)
qed

text \<open>
  the reply to ''Get Comm Event Log'' is shifted by one event.  On a well-formed, non-empty log
  the bytes returned are the logged events without the newest one, followed by the content of the
  slot behind the oldest event, whereas the comment of the function promises the latest event in
  \<^verbatim>\<open>pt_resbuf[0]\<close>.
\<close>

theorem get_comm_event_log_skips_latest:
  assumes "log_wf c" "log_event_cnt (state_set c) \<noteq> 0"
  shows "app_mslave_get_comm_event_log c = tl (log_events c) @
    [log_comm_event (state_set c) !
      ((unat (log_event_idx (state_set c)) + 127 - unat (log_event_cnt (state_set c))) mod 64)]"
proof -
  define n where "n = unat (log_event_cnt (state_set c))"
  define k where "k = unat (log_event_idx (state_set c))"
  define l where "l = log_comm_event (state_set c)"
  have n: "n \<le> 64" "n \<noteq> 0" "k < 64"
    using assms by (auto simp: log_wf_def n_def k_def unat_eq_zero)
  have "app_mslave_get_comm_event_log c = map (\<lambda>i. l ! ((k + 127 - Suc i) mod 64)) [0..<n]"
    unfolding app_mslave_get_comm_event_log_def Let_def n_def [symmetric] l_def
    using n by (auto simp: event_log_index_mod k_def)
  also have "\<dots> = map (\<lambda>i. l ! ((k + 127 - i) mod 64)) [Suc 0..<Suc n]"
    by (simp add: map_Suc_upt [symmetric] del: upt_Suc)
  also have "\<dots> = map (\<lambda>i. l ! ((k + 127 - i) mod 64)) [Suc 0..<n] @ [l ! ((k + 127 - n) mod 64)]"
    using n by simp
  also have "map (\<lambda>i. l ! ((k + 127 - i) mod 64)) [Suc 0..<n] = map (\<lambda>i. l ! ((k + 63 - i) mod 64)) [Suc 0..<n]"
  proof (rule map_cong [OF refl])
    fix i assume "i \<in> set [Suc 0..<n]"
    then have "k + 127 - i = (k + 63 - i) + 64" using n by auto
    then show "l ! ((k + 127 - i) mod 64) = l ! ((k + 63 - i) mod 64)" by (metis mod_add_self2)
  qed
  also have "\<dots> = tl (log_events c)"
    by (simp add: log_events_def Let_def n_def l_def k_def map_tl [symmetric] tl_upt)
  finally show ?thesis
    by (simp add: l_def k_def n_def)
qed


theorem get_comm_event_log_skips_latest_witness:
  "app_mslave_get_comm_event_log
     (app_mslave_set_comm_event_log 0xBB (app_mslave_set_comm_event_log 0xAA init_ctr)) = [0xAA, 0]
   \<and> log_events (app_mslave_set_comm_event_log 0xBB (app_mslave_set_comm_event_log 0xAA init_ctr))
     = [0xBB, 0xAA]"
proof -
  let ?c = "app_mslave_set_comm_event_log 0xBB (app_mslave_set_comm_event_log 0xAA init_ctr)"
  have ev: "log_events ?c = [0xBB, 0xAA]"
    by (simp add: log_events_push log_wf_push init_log init_log_events)
  have wf: "log_wf ?c" by (intro log_wf_push init_log)
  have st: "log_event_cnt (state_set ?c) = 2" "log_event_idx (state_set ?c) = 2"
    "log_comm_event (state_set ?c) ! 63 = 0"
    by (simp_all add: init_ctr_def g_mslave_ctr_def app_mslave_set_comm_event_log_def zero_state_set_def Let_def)
  show ?thesis
    using get_comm_event_log_skips_latest [OF wf] st ev by simp
qed

theorem init_ctr_reached:
  "app_mslave_init_ctr (\<lambda>_. 0) ERR_NONE ERR_NONE g_mslave_ctr = Inr init_ctr"
  by (simp add: app_mslave_init_ctr_def init_ctr_def g_mslave_ctr_def)

end
