(* ===== verification/Magic_File.thy ===== *)
theory Magic_File
  imports Mslave_State
begin

text \<open>
  The remapping table of the magic file: the walk of \<^verbatim>\<open>parse_magicfileitem\<close> over the parsed
  JSON, and the loading and validation of \<^verbatim>\<open>app_mslave_load_reg_mapping_info\<close>
  (\<^verbatim>\<open>src/modbus_rtu/modbus_slave/app_mslave.c\<close>).  The JSON parser is a library and the file
  system is outside the program: the parsed tree and the content of the file are arguments.
\<close>

section \<open>Walking the tree\<close>

datatype cjson =
    cJSON_Number "string option" int
  | cJSON_Array "string option" "cjson list"
  | cJSON_Object "string option" "cjson list"
  | cJSON_Other

text \<open>
  A number is stored according to the name of the array or object it is in, kept in the static
  buffer \<^verbatim>\<open>parentstr\<close>.  The names of the disabled-data sections are recognised and ignored.
\<close>

definition magic_dest :: "int \<Rightarrow> register_mapping_info \<Rightarrow> register_mapping_info" where
  "magic_dest v r =
     (let r1 = r\<lparr>des := (des r)[unat (des_cnt r) mod 1024 := of_int v], des_cnt := des_cnt r + 1\<rparr>;
          r2 = (if des_cnt r1 = 1 then r1\<lparr>max_reg_addr := of_int v, min_reg_addr := of_int v\<rparr> else r1);
          r3 = (if v > int (unat (max_reg_addr r2)) then r2\<lparr>max_reg_addr := of_int v\<rparr> else r2)
      in if v < int (unat (min_reg_addr r3)) then r3\<lparr>min_reg_addr := of_int v\<rparr> else r3)"

definition magic_number :: "string \<Rightarrow> int \<Rightarrow> register_mapping_info \<Rightarrow> register_mapping_info" where
  "magic_number parentstr v r =
     (if parentstr = ''offset'' then r\<lparr>offset := of_int v\<rparr>
      else if parentstr = ''mappingNum'' then r\<lparr>mapping_num := of_int v\<rparr>
      else if parentstr = ''src''
      then r\<lparr>src := (src r)[unat (src_cnt r) mod 1024 := of_int v], src_cnt := src_cnt r + 1\<rparr>
      else if parentstr = ''dest'' then magic_dest v r
      else r)"

fun parse_magicfileitem ::
    "cjson list \<Rightarrow> string \<times> register_mapping_info \<Rightarrow> string \<times> register_mapping_info" where
  "parse_magicfileitem [] st = st"
| "parse_magicfileitem (cJSON_Number nm v # ts) st =
     parse_magicfileitem ts (fst st, magic_number (fst st) v (snd st))"
| "parse_magicfileitem (cJSON_Array nm xs # ts) st =
     (let p = (case nm of None \<Rightarrow> fst st | Some n \<Rightarrow> take 98 n);
          st' = parse_magicfileitem xs (p, snd st)
      in parse_magicfileitem ts (if ts = [] then ([], snd st') else st'))"
| "parse_magicfileitem (cJSON_Object nm xs # ts) st =
     (let p = (case nm of None \<Rightarrow> fst st | Some n \<Rightarrow> take 98 n);
          st' = parse_magicfileitem xs (p, snd st)
      in parse_magicfileitem ts (if ts = [] then ([], snd st') else st'))"
| "parse_magicfileitem (cJSON_Other # ts) st = parse_magicfileitem ts st"

definition magicfile_parse ::
    "(string \<Rightarrow> cjson list option) \<Rightarrow> string \<Rightarrow> string \<times> register_mapping_info
     \<Rightarrow> string \<times> register_mapping_info" where
  "magicfile_parse json_parse input_json st =
     (case json_parse input_json of None \<Rightarrow> st | Some root \<Rightarrow> parse_magicfileitem root st)"

section \<open>Loading and validating\<close>

text \<open>The source registers are shifted by the offset, modulo the size of the table.\<close>

definition shift_src :: "register_mapping_info \<Rightarrow> register_mapping_info" where
  "shift_src r = r\<lparr>src := fold (\<lambda>i s. s[i mod 1024 := s ! (i mod 1024) + offset r])
     [0..<unat (src_cnt r)] (src r)\<rparr>"

definition remap_valid :: "register_mapping_info \<Rightarrow> bool" where
  "remap_valid r =
     (if unat (offset r) > 0xFFFF then False
      else if unat (offset r) + unat (mapping_num r) > 0xFFFF then False
      else if mapping_num r \<noteq> src_cnt r \<or> mapping_num r \<noteq> des_cnt r then False
      else if max_reg_addr r \<le> min_reg_addr r then False
      else if unat (mapping_num r) > 1024 then False
      else if mapping_num r = 0 then False
      else True)"

text \<open>
  The file argument: \<^term>\<open>None\<close> when neither magic file exists, \<^term>\<open>Some None\<close> when reading
  fails, the text otherwise.
\<close>

definition app_mslave_load_reg_mapping_info ::
    "(string \<Rightarrow> cjson list option) \<Rightarrow> string option option \<Rightarrow> string
     \<Rightarrow> error_code \<times> register_mapping_info" where
  "app_mslave_load_reg_mapping_info json_parse mfile parentstr =
     (let info = zero_remap in
      case mfile of
        None \<Rightarrow> (ERR_UNKNOWN, info)
      | Some None \<Rightarrow> (ERR_UNKNOWN, info)
      | Some (Some txt) \<Rightarrow>
          let info = snd (magicfile_parse json_parse txt (parentstr, info));
              info = shift_src info
          in (ERR_NONE, info\<lparr>flg := remap_valid info\<rparr>))"

section \<open>The validated table\<close>

text \<open>Every number of the tree fits a register address.\<close>

fun json_u16 :: "cjson list \<Rightarrow> bool" where
  "json_u16 [] \<longleftrightarrow> True"
| "json_u16 (cJSON_Number nm v # ts) \<longleftrightarrow> 0 \<le> v \<and> v \<le> 0xFFFF \<and> json_u16 ts"
| "json_u16 (cJSON_Array nm xs # ts) \<longleftrightarrow> json_u16 xs \<and> json_u16 ts"
| "json_u16 (cJSON_Object nm xs # ts) \<longleftrightarrow> json_u16 xs \<and> json_u16 ts"
| "json_u16 (cJSON_Other # ts) \<longleftrightarrow> json_u16 ts"

text \<open>The destinations stored so far lie between the recorded bounds.\<close>

definition des_bounded :: "register_mapping_info \<Rightarrow> bool" where
  "des_bounded r \<longleftrightarrow> length (src r) = 1024 \<and> length (des r) = 1024
     \<and> (\<forall>i < min (unat (des_cnt r)) 1024. min_reg_addr r \<le> des r ! i \<and> des r ! i \<le> max_reg_addr r)"

lemma uint_of_int_u16: "0 \<le> v \<Longrightarrow> v \<le> 0xFFFF \<Longrightarrow> uint (of_int v :: u16) = v"
  by (simp add: uint_word_of_int)

lemma of_int_u16_le:
  assumes "0 \<le> v" "v \<le> 0xFFFF"
  shows "(of_int v :: u16) \<le> w \<longleftrightarrow> v \<le> int (unat w)" "w \<le> (of_int v :: u16) \<longleftrightarrow> int (unat w) \<le> v"
  using assms by (simp_all add: word_le_def uint_word_of_int)

lemma magic_dest_bounded:
  assumes "des_bounded r" "0 \<le> v" "v \<le> 0xFFFF"
  shows "des_bounded (magic_dest v r)"
proof -
  let ?r = "magic_dest v r" and ?k = "unat (des_cnt r) mod 1024"
  have len: "length (src ?r) = 1024" "length (des ?r) = 1024" "des ?r = (des r)[?k := of_int v]"
    "des_cnt ?r = des_cnt r + 1"
    using assms(1) by (simp_all add: magic_dest_def Let_def des_bounded_def)
  have own: "min_reg_addr ?r \<le> of_int v" "of_int v \<le> max_reg_addr ?r"
    using assms(2,3) by (auto simp: magic_dest_def Let_def of_int_u16_le uint_of_int_u16)
  have grow: "min_reg_addr ?r \<le> min_reg_addr r" "max_reg_addr r \<le> max_reg_addr ?r" if "des_cnt r \<noteq> 0"
    using assms(2,3) that by (auto simp: magic_dest_def Let_def of_int_u16_le uint_of_int_u16)
  have "min_reg_addr ?r \<le> des ?r ! i \<and> des ?r ! i \<le> max_reg_addr ?r"
    if i: "i < min (unat (des_cnt ?r)) 1024" for i
  proof (cases "i = ?k")
    case True
    then show ?thesis using own assms(1) by (simp add: len(3) des_bounded_def)
  next
    case False
    have "unat (des_cnt r + 1) = (if unat (des_cnt r) = 65535 then 0 else unat (des_cnt r) + 1)"
    proof (cases "unat (des_cnt r) = 65535")
      case False
      then have "Suc (unat (des_cnt r)) < 65536" using unat_u16_lt [of "des_cnt r"] by linarith
      then show ?thesis using False by (simp add: unat_word_ariths)
    qed (simp add: unat_word_ariths)
    then have old: "i < min (unat (des_cnt r)) 1024"
      using i False len(4) by (auto split: if_splits simp: min_def)
    then have "des_cnt r \<noteq> 0" by auto
    then show ?thesis
      using old False grow assms(1) by (auto simp: len(3) des_bounded_def intro: order_trans)
  qed
  then show ?thesis
    using len by (simp add: des_bounded_def)
qed

lemma des_bounded_frame:
  "des_bounded (r\<lparr>offset := x\<rparr>) = des_bounded r"
  "des_bounded (r\<lparr>mapping_num := x\<rparr>) = des_bounded r"
  "length xs = length (src r) \<Longrightarrow> des_bounded (r\<lparr>src := xs, src_cnt := x\<rparr>) = des_bounded r"
  by (simp_all add: des_bounded_def)

lemma magic_number_bounded:
  "des_bounded r \<Longrightarrow> 0 \<le> v \<Longrightarrow> v \<le> 0xFFFF \<Longrightarrow> des_bounded (magic_number p v r)"
  by (simp add: magic_number_def magic_dest_bounded des_bounded_frame)

lemma parse_bounded:
  "json_u16 ts \<Longrightarrow> des_bounded (snd st) \<Longrightarrow> des_bounded (snd (parse_magicfileitem ts st))"
  by (induction ts st rule: parse_magicfileitem.induct) (auto simp: Let_def magic_number_bounded)

lemma magic_number_keys:
  "magic_number ''offset'' v r = r\<lparr>offset := of_int v\<rparr>"
  "magic_number ''mappingNum'' v r = r\<lparr>mapping_num := of_int v\<rparr>"
  "magic_number ''src'' v r = r\<lparr>src := (src r)[unat (src_cnt r) mod 1024 := of_int v], src_cnt := src_cnt r + 1\<rparr>"
  "magic_number ''dest'' v r = magic_dest v r"
  by (simp_all add: magic_number_def)

lemma magic_dest_fields:
  "des_cnt (magic_dest v r) = des_cnt r + 1" "src_cnt (magic_dest v r) = src_cnt r"
  "mapping_num (magic_dest v r) = mapping_num r" "offset (magic_dest v r) = offset r"
  "0 \<le> v \<Longrightarrow> v \<le> 0xFFFF \<Longrightarrow> max_reg_addr (magic_dest v r) =
     (if des_cnt r = 0 \<or> v > int (unat (max_reg_addr r)) then of_int v else max_reg_addr r)"
  "0 \<le> v \<Longrightarrow> v \<le> 0xFFFF \<Longrightarrow> min_reg_addr (magic_dest v r) =
     (if des_cnt r = 0 \<or> v < int (unat (min_reg_addr r)) then of_int v else min_reg_addr r)"
  by (auto simp: magic_dest_def Let_def uint_of_int_u16)

lemma zero_remap_simps:
  "flg zero_remap = False" "offset zero_remap = 0" "mapping_num zero_remap = 0" "src_cnt zero_remap = 0"
  "des_cnt zero_remap = 0" "max_reg_addr zero_remap = 0" "min_reg_addr zero_remap = 0"
  by (simp_all add: zero_remap_def)

lemma zero_remap_bounded: "des_bounded zero_remap"
  by (simp add: des_bounded_def zero_remap_def)

lemma shift_src_bounded: "des_bounded r \<Longrightarrow> des_bounded (shift_src r)"
proof -
  have "length (fold (\<lambda>i s. s[i mod 1024 := s ! (i mod 1024) + offset r]) xs s) = length s" for xs s
    by (induction xs arbitrary: s) auto
  then show "des_bounded r \<Longrightarrow> des_bounded (shift_src r)"
    by (simp add: des_bounded_def shift_src_def)
qed

text \<open>
  a magic file whose numbers are register addresses and whose table is accepted gives between
  one and 1024 remapped registers, a non-degenerate destination range, and every destination
  register inside that range.
\<close>

theorem load_reg_mapping_info_sound:
  assumes "json_parse txt = Some root" "json_u16 root"
    and "app_mslave_load_reg_mapping_info json_parse (Some (Some txt)) p = (rc, r)" "flg r"
  shows "rc = ERR_NONE \<and> 1 \<le> unat (mapping_num r) \<and> unat (mapping_num r) \<le> 1024
    \<and> min_reg_addr r < max_reg_addr r
    \<and> (\<forall>i < unat (mapping_num r). min_reg_addr r \<le> des r ! i \<and> des r ! i \<le> max_reg_addr r)"
proof -
  define q where "q = shift_src (snd (parse_magicfileitem root (p, zero_remap)))"
  have r: "r = q\<lparr>flg := remap_valid q\<rparr>" "rc = ERR_NONE"
    using assms by (auto simp: app_mslave_load_reg_mapping_info_def magicfile_parse_def q_def Let_def)
  have b: "des_bounded q"
    unfolding q_def by (intro shift_src_bounded parse_bounded assms) (simp add: zero_remap_bounded)
  have v: "remap_valid q" using assms(4) r by simp
  then have n: "mapping_num q = des_cnt q" "unat (mapping_num q) \<le> 1024" "mapping_num q \<noteq> 0"
    "min_reg_addr q < max_reg_addr q"
    by (auto simp: remap_valid_def split: if_splits)
  have "1 \<le> unat (mapping_num q)" using n(3) by (simp add: Suc_leI unat_gt_0)
  then show ?thesis
    using b n r by (auto simp: des_bounded_def)
qed

theorem load_reg_mapping_info_sound_witness:
  "\<exists>r. app_mslave_load_reg_mapping_info
      (\<lambda>_. Some [cJSON_Object (Some ''modbus_mapping'')
         [cJSON_Array (Some ''offset'') [cJSON_Number None 1000],
          cJSON_Array (Some ''mappingNum'') [cJSON_Number None 2],
          cJSON_Array (Some ''dest'') [cJSON_Number None 7, cJSON_Number None 5],
          cJSON_Array (Some ''src'') [cJSON_Number None 1, cJSON_Number None 2]]])
      (Some (Some ''{}'')) [] = (ERR_NONE, r)
    \<and> min_reg_addr r < max_reg_addr r \<and> min_reg_addr r \<le> des r ! 1"
proof -
  let ?j = "[cJSON_Object (Some ''modbus_mapping'')
         [cJSON_Array (Some ''offset'') [cJSON_Number None 1000],
          cJSON_Array (Some ''mappingNum'') [cJSON_Number None 2],
          cJSON_Array (Some ''dest'') [cJSON_Number None 7, cJSON_Number None 5],
          cJSON_Array (Some ''src'') [cJSON_Number None 1, cJSON_Number None 2]]]"
  let ?p = "\<lambda>_ :: string. Some ?j"
  obtain rc r where l: "app_mslave_load_reg_mapping_info ?p (Some (Some ''{}'')) [] = (rc, r)"
    by (metis surj_pair)
  define q where "q = magic_dest 5 (magic_dest 7 (zero_remap\<lparr>offset := 1000, mapping_num := 2\<rparr>))"
  have q: "des_cnt q = 2" "src_cnt q = 0" "mapping_num q = 2" "offset q = 1000"
    "max_reg_addr q = 7" "min_reg_addr q = 5"
    by (simp_all add: q_def magic_dest_fields zero_remap_simps)
  have "snd (parse_magicfileitem ?j ([], zero_remap)) = magic_number ''src'' 2 (magic_number ''src'' 1 q)"
    by (simp add: Let_def magic_number_keys q_def)
  then have f: "flg r" "mapping_num r = 2"
    using l by (auto simp: app_mslave_load_reg_mapping_info_def magicfile_parse_def Let_def
      magic_number_keys shift_src_def remap_valid_def q simp del: parse_magicfileitem.simps)
  have "rc = ERR_NONE \<and> 1 \<le> unat (mapping_num r) \<and> unat (mapping_num r) \<le> 1024
    \<and> min_reg_addr r < max_reg_addr r
    \<and> (\<forall>i < unat (mapping_num r). min_reg_addr r \<le> des r ! i \<and> des r ! i \<le> max_reg_addr r)"
    by (rule load_reg_mapping_info_sound [where root = ?j, OF _ _ l f(1)]) simp_all
  then show ?thesis using l f(2) by auto
qed

end
