(* ===== verification/Libmodbus.thy ===== *)
theory Libmodbus
  imports Mslave_State
begin

text \<open>
  What the slave uses of the vendored library \<^verbatim>\<open>src/modbus_rtu/libmodbus-3.1.11/src/modbus.c\<close>
  (register mappings, the read branches of \<^verbatim>\<open>modbus_reply\<close>, exception replies), the RTU back end
  of \<^verbatim>\<open>modbus-rtu.c\<close>, and the sender \<^verbatim>\<open>src/modbus_rtu/app_modbus_common.c\<close> of the slave itself.

  The environment of one turn of the main loop is a record: the byte order of the platform,
  whether the n-th attempt to write a frame succeeds, whether the lock of the port is free,
  what \<^verbatim>\<open>modbus_receive\<close> delivers, and the clock.
\<close>

section \<open>Environment\<close>

record env =
  big_endian :: bool
  tx_ok :: "nat \<Rightarrow> bool"
  lock_ok :: bool
  rx :: "bytes option"
  tnow :: int

section \<open>Mappings\<close>

definition modbus_mapping_new_start_address ::
    "bool \<Rightarrow> nat \<Rightarrow> nat \<Rightarrow> nat \<Rightarrow> nat \<Rightarrow> nat \<Rightarrow> nat \<Rightarrow> nat \<Rightarrow> nat \<Rightarrow> modbus_mapping_t option" where
  "modbus_mapping_new_start_address mem_ok sb nb sib nib sr nr sir nir =
     (if mem_ok then Some \<lparr>
        nb_bits = nb, start_bits = sb, nb_input_bits = nib, start_input_bits = sib,
        nb_input_registers = nir, start_input_registers = sir,
        nb_registers = nr, start_registers = sr,
        tab_bits = replicate nb 0, tab_input_bits = replicate nib 0,
        tab_input_registers = replicate nir 0, tab_registers = replicate nr 0\<rparr>
      else None)"

text \<open>The tables of a mapping have the sizes its header says.\<close>

definition mapping_wf :: "modbus_mapping_t \<Rightarrow> bool" where
  "mapping_wf m \<longleftrightarrow> length (tab_bits m) = nb_bits m \<and> length (tab_input_bits m) = nb_input_bits m
     \<and> length (tab_registers m) = nb_registers m
     \<and> length (tab_input_registers m) = nb_input_registers m"

lemma mapping_new_wf:
  "modbus_mapping_new_start_address ok sb nb sib nib sr nr sir nir = Some m \<Longrightarrow> mapping_wf m"
  by (auto simp: modbus_mapping_new_start_address_def mapping_wf_def split: if_splits)

section \<open>Sending\<close>

text \<open>\<^verbatim>\<open>_modbus_rtu_send_msg_pre\<close> appends the checksum, low byte first.\<close>

definition modbus_rtu_send_msg_pre :: "bytes \<Rightarrow> bytes" where
  "modbus_rtu_send_msg_pre req =
     req @ [lo8 (util_tool_cal_crc16 req), hi8 (util_tool_cal_crc16 req)]"

text \<open>
  One call of \<^verbatim>\<open>backend->send\<close>.  Error recovery is never enabled on the context, so the
  sending loops run once; a failed and a short write both end in the return value -1.
\<close>

definition backend_send :: "env \<Rightarrow> bytes \<Rightarrow> ctr \<Rightarrow> int \<times> ctr" where
  "backend_send e msg c =
     (if tx_ok e (tx_cnt c)
      then (int (length msg), c\<lparr>wire := msg # wire c, tx_cnt := Suc (tx_cnt c)\<rparr>)
      else (- 1, c\<lparr>tx_cnt := Suc (tx_cnt c)\<rparr>))"

definition send_msg :: "env \<Rightarrow> bytes \<Rightarrow> ctr \<Rightarrow> int \<times> ctr" where
  "send_msg e msg c = backend_send e (modbus_rtu_send_msg_pre msg) c"

definition app_modbus_com_send_msg :: "env \<Rightarrow> bytes \<Rightarrow> nat \<Rightarrow> ctr \<Rightarrow> int \<times> ctr" where
  "app_modbus_com_send_msg e msg msg_length c =
     (if mctx c = None \<or> msg_length = 0 \<or> msg_length > 256 then (- 1, c)
      else backend_send e (modbus_rtu_send_msg_pre (take msg_length msg)) c)"

section \<open>Replies\<close>

definition build_response_basis :: "u8 \<Rightarrow> u8 \<Rightarrow> bytes" where
  "build_response_basis slave function = [slave, function]"

definition response_exception :: "u8 \<Rightarrow> u8 \<Rightarrow> u8 \<Rightarrow> bytes" where
  "response_exception slave function exception_code =
     build_response_basis slave (function + 0x80) @ [exception_code]"

fun response_io_loop :: "bytes \<Rightarrow> nat \<Rightarrow> u8 \<Rightarrow> bytes" where
  "response_io_loop [] shift one_byte = (if shift \<noteq> 0 then [one_byte] else [])"
| "response_io_loop (v # vs) shift one_byte =
     (let one_byte' = one_byte OR push_bit shift v in
      if shift = 7 then one_byte' # response_io_loop vs 0 0
      else response_io_loop vs (shift + 1) one_byte')"

definition response_io_status :: "bytes \<Rightarrow> nat \<Rightarrow> nat \<Rightarrow> bytes" where
  "response_io_status tab_io_status address nb =
     response_io_loop (map (\<lambda>i. tab_io_status ! i) [address..<address + nb]) 0 0"

text \<open>\<^verbatim>\<open>modbus_reply\<close>, branch of the coils and discrete inputs.\<close>

definition modbus_reply_bits :: "bytes \<Rightarrow> modbus_mapping_t \<Rightarrow> bytes" where
  "modbus_reply_bits req m =
     (let slave = req ! 0; function = req ! 1;
          address = unat (mk16 (req ! 2) (req ! 3));
          is_input = (function = 0x02);
          start = (if is_input then start_input_bits m else start_bits m);
          nbb = (if is_input then nb_input_bits m else nb_bits m);
          tab = (if is_input then tab_input_bits m else tab_bits m);
          nb = unat (mk16 (req ! 4) (req ! 5));
          mapping_address = int address - int start
      in if nb < 1 \<or> 2000 < nb then response_exception slave function 3
         else if mapping_address < 0 \<or> mapping_address + int nb > int nbb
         then response_exception slave function 2
         else build_response_basis slave function
           @ [of_nat (nb div 8 + (if nb mod 8 \<noteq> 0 then 1 else 0))]
           @ response_io_status tab (nat mapping_address) nb)"

text \<open>\<^verbatim>\<open>modbus_reply\<close>, branch of the holding and input registers.\<close>

definition modbus_reply_registers :: "bytes \<Rightarrow> modbus_mapping_t \<Rightarrow> bytes" where
  "modbus_reply_registers req m =
     (let slave = req ! 0; function = req ! 1;
          address = unat (mk16 (req ! 2) (req ! 3));
          is_input = (function = 0x04);
          start = (if is_input then start_input_registers m else start_registers m);
          nbr = (if is_input then nb_input_registers m else nb_registers m);
          tab = (if is_input then tab_input_registers m else tab_registers m);
          nb = unat (mk16 (req ! 4) (req ! 5));
          mapping_address = int address - int start
      in if nb < 1 \<or> 125 < nb then response_exception slave function 3
         else if mapping_address < 0 \<or> mapping_address + int nb > int nbr
         then response_exception slave function 2
         else build_response_basis slave function @ [of_nat (2 * nb)]
           @ concat (map (\<lambda>i. [hi8 (tab ! i), lo8 (tab ! i)])
               [nat mapping_address..<nat mapping_address + nb]))"

text \<open>
  \<^verbatim>\<open>modbus_reply\<close>: the response of the modelled branches, suppressed for a broadcast.  The
  result says whether \<^verbatim>\<open>errno\<close> was set, which happens only without a context or when the
  write fails: building an exception response does not set it.  The write branches of the
  library are not reachable from the slave and give \<^term>\<open>None\<close>.
\<close>

definition modbus_reply_response :: "bytes \<Rightarrow> modbus_mapping_t \<Rightarrow> bytes option" where
  "modbus_reply_response req m =
     (let function = req ! 1 in
      if function = 0x01 \<or> function = 0x02 then Some (modbus_reply_bits req m)
      else if function = 0x03 \<or> function = 0x04 then Some (modbus_reply_registers req m)
      else None)"

definition modbus_reply :: "env \<Rightarrow> bytes \<Rightarrow> modbus_mapping_t \<Rightarrow> ctr \<Rightarrow> bool \<times> ctr" where
  "modbus_reply e req m c =
     (if mctx c = None then (True, c)
      else case modbus_reply_response req m of
        None \<Rightarrow> (False, c)
      | Some rsp \<Rightarrow>
          if req ! 0 = 0 then (False, c)
          else let (rc, c') = send_msg e rsp c in (rc < 0, c'))"

definition modbus_reply_exception :: "env \<Rightarrow> bytes \<Rightarrow> nat \<Rightarrow> ctr \<Rightarrow> int \<times> ctr" where
  "modbus_reply_exception e req exception_code c =
     (if mctx c = None then (- 1, c)
      else if exception_code < 12
      then send_msg e (build_response_basis (req ! 0) (req ! 1 + 0x80) @ [of_nat exception_code]) c
      else (- 1, c))"

section \<open>Shape and content of the replies\<close>

lemma length_response_io_loop:
  "shift < 8 \<Longrightarrow> length (response_io_loop vs shift b) = (length vs + shift + 7) div 8"
proof (induction vs shift b rule: response_io_loop.induct)
  case (1 shift b)
  then show ?case by (cases "shift = 0") auto
next
  case (2 v vs shift b)
  then show ?case by (cases "shift = 7") (auto simp: Let_def)
qed

lemma length_response_io_status: "length (response_io_status tab a nb) = (nb + 7) div 8"
  by (simp add: response_io_status_def length_response_io_loop)

lemma length_concat_pairs: "length (concat (map (\<lambda>i. [f i, g i]) xs)) = 2 * length xs"
  by (induction xs) auto

lemma length_modbus_reply_bits: "length (modbus_reply_bits req m) \<le> 253"
proof -
  have "(nb + 7) div 8 \<le> 250" if "nb \<le> 2000" for nb :: nat
    using that by (simp add: div_le_mono)
  then show ?thesis
    by (auto simp: modbus_reply_bits_def Let_def response_exception_def build_response_basis_def
        length_response_io_status not_less)
qed

lemma length_modbus_reply_registers: "length (modbus_reply_registers req m) \<le> 253"
  by (auto simp: modbus_reply_registers_def Let_def response_exception_def build_response_basis_def
      length_concat_pairs)

lemma length_modbus_reply_response: "modbus_reply_response req m = Some rsp \<Longrightarrow> length rsp \<le> 253"
  by (auto simp: modbus_reply_response_def Let_def length_modbus_reply_bits
      length_modbus_reply_registers split: if_splits)

lemma length_send_msg_pre: "length (modbus_rtu_send_msg_pre m) = length m + 2"
  by (simp add: modbus_rtu_send_msg_pre_def)

lemma response_io_loop_bit:
  assumes "shift < 8" "\<forall>n\<ge>shift. \<not> bit b n" "set vs \<subseteq> {0, 1}" "k < shift + length vs"
  shows "bit (response_io_loop vs shift b ! (k div 8)) (k mod 8) =
    (if k < shift then bit b k else bit (vs ! (k - shift)) 0)"
  using assms
proof (induction vs shift b arbitrary: k rule: response_io_loop.induct)
  case (1 shift b)
  then show ?case by (auto simp: div_eq_0_iff)
next
  case (2 v vs shift b)
  define b' where "b' = b OR push_bit shift v"
  have v: "v = 0 \<or> v = 1" using 2(5) by auto
  have b'_at: "bit b' n = (if n < shift then bit b n else n = shift \<and> bit v 0)" if "n < 8" for n
    using 2(4) v that by (auto simp: b'_def bit_simps)
  have b'_top: "\<not> bit b' n" if "shift < n" for n
    using 2(4) v that by (auto simp: b'_def bit_simps dest: bit_imp_le_length)
  show ?case
  proof (cases "shift = 7")
    case True
    show ?thesis
    proof (cases "k < 8")
      case True
      then show ?thesis using \<open>shift = 7\<close> b'_at [of k] by (auto simp: Let_def b'_def)
    next
      case False
      then have k: "k div 8 = Suc ((k - 8) div 8)" "k mod 8 = (k - 8) mod 8"
        by (auto simp: le_div_geq le_mod_geq)
      have "bit (response_io_loop vs 0 0 ! ((k - 8) div 8)) ((k - 8) mod 8) = bit (vs ! (k - 8)) 0"
        using 2(1) [OF b'_def True, of "k - 8"] 2(5,6) True False by simp
      then show ?thesis
        using True False k by (simp add: Let_def nth_Cons')
    qed
  next
    case False
    have "bit (response_io_loop vs (shift + 1) b' ! (k div 8)) (k mod 8) =
      (if k < shift + 1 then bit b' k else bit (vs ! (k - (shift + 1))) 0)"
      using 2(2) [OF b'_def False, of k] 2(3,5,6) False b'_top by simp
    then show ?thesis
      using False 2(3) b'_at [of k] by (auto simp: Let_def b'_def [symmetric] nth_Cons')
  qed
qed

text \<open>
  in a reply to ''Read Coils'' or ''Read Discrete Inputs'' coil number j of the request is bit
  j mod 8 of data byte j div 8, for every table of 0/1 values.
\<close>

theorem response_io_status_packs:
  assumes "address + nb \<le> length tab" "set tab \<subseteq> {0, 1}" "j < nb"
  shows "bit (response_io_status tab address nb ! (j div 8)) (j mod 8) = (tab ! (address + j) = 1)"
proof -
  let ?vs = "map (\<lambda>i. tab ! i) [address..<address + nb]"
  have sub: "set ?vs \<subseteq> {0, 1}"
  proof -
    have "set ?vs \<subseteq> set tab" using assms(1) by auto
    then show ?thesis using assms(2) by (rule subset_trans)
  qed
  have "bit (response_io_status tab address nb ! (j div 8)) (j mod 8) = bit (tab ! (address + j)) 0"
    unfolding response_io_status_def
    using response_io_loop_bit [of 0 0 ?vs j] sub assms by simp
  moreover have "tab ! (address + j) \<in> {0, 1}"
    using assms by (meson add_strict_left_mono less_le_trans nth_mem subsetD)
  ultimately show ?thesis by auto
qed

lemma concat_pairs_nth:
  "i < length xs \<Longrightarrow> concat (map (\<lambda>i. [f i, g i]) xs) ! (2 * i) = f (xs ! i)
   \<and> concat (map (\<lambda>i. [f i, g i]) xs) ! Suc (2 * i) = g (xs ! i)"
proof (induction xs arbitrary: i)
  case (Cons x xs)
  then show ?case by (cases i) auto
qed simp

lemma reply_registers_content:
  assumes "req ! 1 = 0x03"
    and "1 \<le> nb" "nb \<le> 125" "nb = unat (mk16 (req ! 4) (req ! 5))"
    and "a = unat (mk16 (req ! 2) (req ! 3))"
    and "start_registers m \<le> a" "a + nb \<le> start_registers m + nb_registers m"
  shows "take 3 (modbus_reply_registers req m) = [req ! 0, 0x03, of_nat (2 * nb)]
    \<and> length (modbus_reply_registers req m) = 3 + 2 * nb
    \<and> (\<forall>i < nb. mk16 (modbus_reply_registers req m ! (3 + 2 * i))
                     (modbus_reply_registers req m ! (4 + 2 * i))
        = tab_registers m ! (a - start_registers m + i))"
proof -
  let ?xs = "[a - start_registers m..<a - start_registers m + nb]"
  have na: "nat (int a - int (start_registers m)) = a - start_registers m"
    "\<not> int a - int (start_registers m) < 0"
    "\<not> int (nb_registers m) < int a - int (start_registers m) + int nb"
    using assms by linarith+
  have r: "modbus_reply_registers req m = [req ! 0, 0x03, of_nat (2 * nb)]
      @ concat (map (\<lambda>i. [hi8 (tab_registers m ! i), lo8 (tab_registers m ! i)]) ?xs)"
    unfolding modbus_reply_registers_def Let_def build_response_basis_def
    using assms(1-3) na by (simp add: assms(4,5) [symmetric] del: of_nat_unat)
  have nth: "mk16 (modbus_reply_registers req m ! (3 + 2 * i)) (modbus_reply_registers req m ! (4 + 2 * i))
      = tab_registers m ! (a - start_registers m + i)" if "i < nb" for i
    using that concat_pairs_nth [of i ?xs "\<lambda>i. hi8 (tab_registers m ! i)" "\<lambda>i. lo8 (tab_registers m ! i)"]
    unfolding r by (simp add: nth_append)
  show ?thesis
    using nth by (simp add: r length_concat_pairs)
qed

text \<open>
  a read of holding registers that lies inside the located mapping is answered by the byte
  count and the big-endian contents of exactly the requested registers, in order.
\<close>

theorem modbus_reply_registers_content:
  assumes "req ! 1 = 0x03"
    and "1 \<le> nb" "nb \<le> 125" "nb = unat (mk16 (req ! 4) (req ! 5))"
    and "a = unat (mk16 (req ! 2) (req ! 3))"
    and "start_registers m \<le> a" "a + nb \<le> start_registers m + nb_registers m"
  shows "take 3 (modbus_reply_registers req m) = [req ! 0, 0x03, of_nat (2 * nb)]
    \<and> length (modbus_reply_registers req m) = 3 + 2 * nb
    \<and> (\<forall>i < nb. mk16 (modbus_reply_registers req m ! (3 + 2 * i))
                     (modbus_reply_registers req m ! (4 + 2 * i))
        = tab_registers m ! (a - start_registers m + i))"
  using assms by (rule reply_registers_content)

definition sample_mapping :: modbus_mapping_t where
  "sample_mapping = \<lparr>nb_bits = 3, start_bits = 0, nb_input_bits = 0, start_input_bits = 0,
     nb_input_registers = 0, start_input_registers = 0, nb_registers = 4, start_registers = 0x100,
     tab_bits = [1, 0, 1], tab_input_bits = [], tab_input_registers = [],
     tab_registers = [0x1122, 0x3344, 0x5566, 0x7788]\<rparr>"

theorem modbus_reply_registers_content_witness:
  "take 3 (modbus_reply_registers [0x11, 0x03, 0x01, 0x01, 0x00, 0x02] sample_mapping) = [0x11, 0x03, 0x04]
   \<and> mk16 (modbus_reply_registers [0x11, 0x03, 0x01, 0x01, 0x00, 0x02] sample_mapping ! 5)
           (modbus_reply_registers [0x11, 0x03, 0x01, 0x01, 0x00, 0x02] sample_mapping ! 6) = 0x5566"
proof -
  let ?q = "[0x11, 0x03, 0x01, 0x01, 0x00, 0x02] :: bytes"
  have q: "unat (mk16 (?q ! 2) (?q ! 3)) = 0x101" "unat (mk16 (?q ! 4) (?q ! 5)) = 2"
    by (simp_all add: unat_mk16)
  have "take 3 (modbus_reply_registers ?q sample_mapping) = [?q ! 0, 0x03, of_nat (2 * 2)]
    \<and> length (modbus_reply_registers ?q sample_mapping) = 3 + 2 * 2
    \<and> (\<forall>i < 2. mk16 (modbus_reply_registers ?q sample_mapping ! (3 + 2 * i))
                     (modbus_reply_registers ?q sample_mapping ! (4 + 2 * i))
        = tab_registers sample_mapping ! (0x101 - start_registers sample_mapping + i))"
    by (rule modbus_reply_registers_content) (simp_all only: q, simp_all add: sample_mapping_def)
  then show ?thesis
    by (auto simp: sample_mapping_def dest: spec [of _ 1])
qed

theorem response_io_status_packs_witness:
  "bit (response_io_status (tab_bits sample_mapping) 0 3 ! 0) 2
   \<and> \<not> bit (response_io_status (tab_bits sample_mapping) 0 3 ! 0) 1"
  using response_io_status_packs [of 0 3 "tab_bits sample_mapping" 2]
    response_io_status_packs [of 0 3 "tab_bits sample_mapping" 1]
  by (simp add: sample_mapping_def)

section \<open>Frames on the wire\<close>

text \<open>
  A frame a master accepts: it fits the serial ADU of 256 bytes and its checksum is right, that
  is, the checksum over the whole frame is 0.
\<close>

definition frame_ok :: "bytes \<Rightarrow> bool" where
  "frame_ok f \<longleftrightarrow> length f \<le> 256 \<and> util_tool_cal_crc16 f = 0"

definition wire_ok :: "ctr \<Rightarrow> bool" where
  "wire_ok c \<longleftrightarrow> (\<forall>f \<in> set (wire c). frame_ok f)"

lemma frame_ok_pre: "length m \<le> 254 \<Longrightarrow> frame_ok (modbus_rtu_send_msg_pre m)"
  by (simp add: frame_ok_def modbus_rtu_send_msg_pre_def crc16_residue_gen)

text \<open>A failed transmission leaves no frame.\<close>

lemma com_send_msg_failed:
  assumes "fst (app_modbus_com_send_msg e m n c) < 0"
  shows "\<exists>k. snd (app_modbus_com_send_msg e m n c) = c\<lparr>tx_cnt := k\<rparr>"
proof (cases "mctx c = None \<or> n = 0 \<or> n > 256")
  case True
  then have "snd (app_modbus_com_send_msg e m n c) = c\<lparr>tx_cnt := tx_cnt c\<rparr>"
    by (simp add: app_modbus_com_send_msg_def)
  then show ?thesis by (rule exI)
next
  case False
  then have "\<not> tx_ok e (tx_cnt c)"
    using assms by (auto simp: app_modbus_com_send_msg_def backend_send_def)
  with False have "snd (app_modbus_com_send_msg e m n c) = c\<lparr>tx_cnt := Suc (tx_cnt c)\<rparr>"
    by (simp add: app_modbus_com_send_msg_def backend_send_def)
  then show ?thesis by (rule exI)
qed

end
