(* ===== verification/Mslave_Mapping.thy ===== *)
theory Mslave_Mapping
  imports Libmodbus
begin

text \<open>
  The queue of register mappings of the slave and everything that builds it: the lookup by
  address, the layout strings of the gateway and the sensors (\<^verbatim>\<open>CH00-AD0000-L00-PRS\<close>), the
  remapping table of the magic file, and the two ways to create the mappings
  (\<^verbatim>\<open>app_mslave.c\<close> and \<^verbatim>\<open>app_mslave_ipc.c\<close>).  A pointer to a mapping of the queue is the
  position of the mapping in the queue.
\<close>

section \<open>Lookup\<close>

definition app_mslave_append_mapping :: "modbus_mapping_t option \<Rightarrow> ctr \<Rightarrow> error_code \<times> ctr" where
  "app_mslave_append_mapping pt_mapping c =
     (case pt_mapping of None \<Rightarrow> (ERR_INVALID_PARAM, c)
      | Some m \<Rightarrow> (ERR_NONE, c\<lparr>mapping_queue := mapping_queue c @ [m]\<rparr>))"

text \<open>
  The bounds are assigned to \<^verbatim>\<open>uint16_t\<close> variables, so the upper bound wraps.  The branch of
  the discrete inputs joins its two comparisons with a disjunction.
\<close>

definition mapping_covers :: "u16 \<Rightarrow> addr_group \<Rightarrow> modbus_mapping_t \<Rightarrow> bool" where
  "mapping_covers kp_addr addr_gp m =
     (case addr_gp of
        ADDR_GP_COIL \<Rightarrow>
          (let tp_addr_min = of_nat (start_bits m); tp_addr_max = of_nat (start_bits m + nb_bits m)
           in tp_addr_min \<le> kp_addr \<and> kp_addr < tp_addr_max)
      | ADDR_GP_DISCRETE_INPUT \<Rightarrow>
          (let tp_addr_min = of_nat (start_input_bits m);
               tp_addr_max = of_nat (start_input_bits m + nb_input_bits m)
           in tp_addr_min \<le> kp_addr \<or> kp_addr < tp_addr_max)
      | ADDR_GP_HOLDING_REGISTER \<Rightarrow>
          (let tp_addr_min = of_nat (start_registers m);
               tp_addr_max = of_nat (start_registers m + nb_registers m)
           in tp_addr_min \<le> kp_addr \<and> kp_addr < tp_addr_max)
      | ADDR_GP_INPUT_REGISTER \<Rightarrow>
          (let tp_addr_min = of_nat (start_input_registers m);
               tp_addr_max = of_nat (start_input_registers m + nb_input_registers m)
           in tp_addr_min \<le> kp_addr \<and> kp_addr < tp_addr_max)
      | _ \<Rightarrow> False)"

fun locate_from :: "nat \<Rightarrow> modbus_mapping_t list \<Rightarrow> u16 \<Rightarrow> addr_group \<Rightarrow> nat option" where
  "locate_from i [] kp_addr addr_gp = None"
| "locate_from i (m # ms) kp_addr addr_gp =
     (if mapping_covers kp_addr addr_gp m then Some i else locate_from (Suc i) ms kp_addr addr_gp)"

definition app_mslave_locate_mapping :: "ctr \<Rightarrow> u16 \<Rightarrow> addr_group \<Rightarrow> nat option" where
  "app_mslave_locate_mapping c kp_addr addr_gp =
     (if length (mapping_queue c) = 0 then None
      else locate_from 0 (mapping_queue c) kp_addr addr_gp)"

definition app_mslave_release_mapping :: "ctr \<Rightarrow> ctr" where
  "app_mslave_release_mapping c = c\<lparr>mapping_queue := []\<rparr>"

definition app_mslave_release_mapping_none_thread_safe :: "ctr \<Rightarrow> ctr" where
  "app_mslave_release_mapping_none_thread_safe c = c\<lparr>mapping_queue := []\<rparr>"

section \<open>Layout strings\<close>

datatype sensor_type = STYPE_UNKNOWN | STYPE_PREDICT | STYPE_INSIGHT_T | STYPE_GW

record sdata_layout =
  is_valid :: bool
  nameid :: u32
  ch :: u16
  addr :: u16
  regnum :: u16
  stype :: sensor_type

definition zero_layout :: sdata_layout where
  "zero_layout = \<lparr>is_valid = False, nameid = 0, ch = 0, addr = 0, regnum = 0, stype = STYPE_UNKNOWN\<rparr>"

text \<open>Sixteen times the first digit plus the second, and the four digits of an address.\<close>

definition hex2 :: "u8 \<Rightarrow> u8 \<Rightarrow> u16" where
  "hex2 a b = of_nat (unat (util_tool_hex_char_to_uint8 a) * 16 + unat (util_tool_hex_char_to_uint8 b))"

definition hex4 :: "u8 \<Rightarrow> u8 \<Rightarrow> u8 \<Rightarrow> u8 \<Rightarrow> u16" where
  "hex4 a b c d = of_nat (unat (util_tool_hex_char_to_uint8 a) * 16 * 16 * 16)
     + of_nat (unat (util_tool_hex_char_to_uint8 b) * 16 * 16)
     + of_nat (unat (util_tool_hex_char_to_uint8 c) * 16)
     + of_nat (unat (util_tool_hex_char_to_uint8 d))"

text \<open>
  \<^verbatim>\<open>SENSOR_NAME_CHN_OFFSET\<close> = 2, \<^verbatim>\<open>SENSOR_NAME_START_ADDR_OFFSET\<close> = 7,
  \<^verbatim>\<open>SENSOR_NAME_REG_LEN_OFFSET\<close> = 13, \<^verbatim>\<open>SENSOR_NAME_REG_LEN_LENGTH\<close> = 2,
  \<^verbatim>\<open>SENSOR_NAME_TYPE_OFFSET\<close> = 16.  The second digit of the register number is not the one that
  is checked: the check reads position \<^verbatim>\<open>SENSOR_NAME_REG_LEN_LENGTH + 1\<close> = 3.
\<close>

definition type_PRS :: bytes where "type_PRS = [0x50, 0x52, 0x53]"
definition type_ITS :: bytes where "type_ITS = [0x49, 0x54, 0x53]"
definition type_GWY :: bytes where "type_GWY = [0x47, 0x57, 0x59]"

definition app_mslave_get_reg_mapping_offset :: "ctr \<Rightarrow> u16" where
  "app_mslave_get_reg_mapping_offset c =
     (if flg (g_reg_mapping_info c) then offset (g_reg_mapping_info c) else 0)"

definition add_offset :: "u16 \<Rightarrow> u16 \<Rightarrow> u16" where
  "add_offset kpu16 a = (if unat a + unat kpu16 \<le> 0xFFFF then a + kpu16 else a)"

definition app_mslave_ipc_get_sdata_layout_info :: "ctr \<Rightarrow> deviceTableData_t \<Rightarrow> sdata_layout" where
  "app_mslave_ipc_get_sdata_layout_info c dev =
     (let d = dev_description dev; L = zero_layout in
      if \<not> util_tool_is_hex_char (d ! 2) \<or> \<not> util_tool_is_hex_char (d ! 3) then L
      else let L = L\<lparr>ch := hex2 (d ! 2) (d ! 3)\<rparr> in
      if \<not> util_tool_is_hex_char (d ! 7) \<or> \<not> util_tool_is_hex_char (d ! 8)
         \<or> \<not> util_tool_is_hex_char (d ! 9) \<or> \<not> util_tool_is_hex_char (d ! 10) then L
      else let L = L\<lparr>addr := hex4 (d ! 7) (d ! 8) (d ! 9) (d ! 10)\<rparr> in
      if \<not> util_tool_is_hex_char (d ! 13) \<or> \<not> util_tool_is_hex_char (d ! 3) then L
      else let L = L\<lparr>regnum := hex2 (d ! 13) (d ! 14)\<rparr>; ty = take 3 (drop 16 d) in
      if ty \<noteq> type_PRS \<and> ty \<noteq> type_ITS then L
      else L\<lparr>stype := (if ty = type_PRS then STYPE_PREDICT else STYPE_INSIGHT_T),
             nameid := dev_nameId dev,
             addr := add_offset (app_mslave_get_reg_mapping_offset c) (addr L),
             is_valid := True\<rparr>)"

definition app_mslave_ipc_get_gwconf_layout_info :: "ctr \<Rightarrow> gatewayTableData_t \<Rightarrow> sdata_layout" where
  "app_mslave_ipc_get_gwconf_layout_info c gw =
     (let d = gw_description gw; L = zero_layout in
      if \<not> util_tool_is_hex_char (d ! 2) \<or> \<not> util_tool_is_hex_char (d ! 3) then L
      else let L = L\<lparr>ch := hex2 (d ! 2) (d ! 3)\<rparr> in
      if \<not> util_tool_is_hex_char (d ! 7) \<or> \<not> util_tool_is_hex_char (d ! 8)
         \<or> \<not> util_tool_is_hex_char (d ! 9) \<or> \<not> util_tool_is_hex_char (d ! 10) then L
      else let L = L\<lparr>addr := hex4 (d ! 7) (d ! 8) (d ! 9) (d ! 10)\<rparr> in
      if \<not> util_tool_is_hex_char (d ! 13) \<or> \<not> util_tool_is_hex_char (d ! 3) then L
      else let L = L\<lparr>regnum := hex2 (d ! 13) (d ! 14)\<rparr>; ty = take 3 (drop 16 d) in
      if ty \<noteq> type_PRS \<and> ty \<noteq> type_ITS \<and> ty \<noteq> type_GWY then L
      else L\<lparr>stype := (if ty = type_PRS then STYPE_PREDICT
                       else if ty = type_ITS then STYPE_INSIGHT_T else STYPE_GW),
             nameid := gw_nameId gw,
             addr := add_offset (app_mslave_get_reg_mapping_offset c) (addr L),
             is_valid := True\<rparr>)"

text \<open>
  \<^verbatim>\<open>to_get_sdata_layout_info\<close>: the device is looked up by its name identifier, and the second
  digit of the register number comes from the field \<^verbatim>\<open>name\<close>.
\<close>

definition to_get_sdata_layout_info :: "ctr \<Rightarrow> u32 \<Rightarrow> sdata_layout" where
  "to_get_sdata_layout_info c nid =
     (case List.find (\<lambda>dev. nid = dev_nameId dev) (take 40 (dev_array c)) of
        None \<Rightarrow> zero_layout
      | Some dev \<Rightarrow>
     (let d = dev_description dev; L = zero_layout in
      if \<not> util_tool_is_hex_char (d ! 2) \<or> \<not> util_tool_is_hex_char (d ! 3) then L
      else let L = L\<lparr>ch := hex2 (d ! 2) (d ! 3)\<rparr> in
      if \<not> util_tool_is_hex_char (d ! 7) \<or> \<not> util_tool_is_hex_char (d ! 8)
         \<or> \<not> util_tool_is_hex_char (d ! 9) \<or> \<not> util_tool_is_hex_char (d ! 10) then L
      else let L = L\<lparr>addr := hex4 (d ! 7) (d ! 8) (d ! 9) (d ! 10)\<rparr> in
      if \<not> util_tool_is_hex_char (d ! 13) \<or> \<not> util_tool_is_hex_char (d ! 3) then L
      else let L = L\<lparr>regnum := hex2 (d ! 13) (dev_name dev ! 14)\<rparr>; ty = take 3 (drop 16 d) in
      if ty \<noteq> type_PRS \<and> ty \<noteq> type_ITS then L
      else L\<lparr>stype := (if ty = type_PRS then STYPE_PREDICT else STYPE_INSIGHT_T),
             addr := add_offset (app_mslave_get_reg_mapping_offset c) (addr L),
             is_valid := True\<rparr>))"

section \<open>Creating the mappings\<close>

text \<open>Whether a valid sensor layout meets the range of the remapped registers.\<close>

definition remap_hits :: "register_mapping_info \<Rightarrow> sdata_layout \<Rightarrow> bool" where
  "remap_hits r L \<longleftrightarrow> is_valid L \<and>
     \<not> (unat (min_reg_addr r) > unat (addr L) + unat (regnum L) \<or> max_reg_addr r < addr L)"

definition remap_clash :: "ctr \<Rightarrow> bool" where
  "remap_clash c = list_ex (\<lambda>dev. remap_hits (g_reg_mapping_info c) (app_mslave_ipc_get_sdata_layout_info c dev))
     (take 40 (dev_array c))"

text \<open>The return code of the efficient variant is never changed from its initial value.\<close>

definition to_create_efficient_reg_mapping :: "bool \<Rightarrow> ctr \<Rightarrow> error_code \<times> ctr" where
  "to_create_efficient_reg_mapping mem_ok c =
     (let c = app_mslave_release_mapping_none_thread_safe c in
      case modbus_mapping_new_start_address mem_ok 0 0 0 0 0 0xFFFF 0 0 of
        None \<Rightarrow> (ERR_API_FAIL, c)
      | Some m \<Rightarrow>
          let c = c\<lparr>mapping_queue := mapping_queue c @ [m]\<rparr> in
          if \<not> flg (g_reg_mapping_info c) then (ERR_API_FAIL, c)
          else if remap_clash c
          then (ERR_API_FAIL, c\<lparr>g_reg_mapping_info := (g_reg_mapping_info c)\<lparr>flg := False\<rparr>\<rparr>)
          else (ERR_API_FAIL, c))"

text \<open>
  The loop over the sensors: an invalid layout and an address overflow skip the sensor, a
  failed allocation (the argument gives the outcome of each) ends the loop.
\<close>

fun create_sensor_mappings ::
    "(nat \<Rightarrow> bool) \<Rightarrow> nat \<Rightarrow> deviceTableData_t list \<Rightarrow> ctr \<Rightarrow> error_code \<times> ctr" where
  "create_sensor_mappings mem_ok k [] c = (ERR_NONE, c)"
| "create_sensor_mappings mem_ok k (dev # devs) c =
     (let L = app_mslave_ipc_get_sdata_layout_info c dev in
      if \<not> is_valid L then create_sensor_mappings mem_ok k devs c
      else if unat (addr L) + unat (regnum L) > 0xFFFF then create_sensor_mappings mem_ok k devs c
      else case modbus_mapping_new_start_address (mem_ok k) 0 0 0 0 (unat (addr L)) (unat (regnum L)) 0 0 of
        None \<Rightarrow> (ERR_API_FAIL, c)
      | Some m \<Rightarrow> create_sensor_mappings mem_ok (Suc k) devs (c\<lparr>mapping_queue := mapping_queue c @ [m]\<rparr>))"

text \<open>The block of the remapped registers, created last.\<close>

definition create_remap_block :: "bool \<Rightarrow> ctr \<Rightarrow> error_code \<times> ctr" where
  "create_remap_block mem_ok c =
     (let r = g_reg_mapping_info c in
      if \<not> flg r then (ERR_NONE, c)
      else if remap_clash c then (ERR_API_FAIL, c)
      else let kp_addr = min_reg_addr r; kp_sz_mblock = max_reg_addr r - min_reg_addr r + 1 in
        case modbus_mapping_new_start_address mem_ok 0 0 0 0 (unat kp_addr) (unat kp_sz_mblock) 0 0 of
          None \<Rightarrow> (ERR_API_FAIL, c)
        | Some m \<Rightarrow> (ERR_NONE, c\<lparr>mapping_queue := mapping_queue c @ [m]\<rparr>))"

definition to_create_extensible_reg_mapping_v2 :: "(nat \<Rightarrow> bool) \<Rightarrow> ctr \<Rightarrow> error_code \<times> ctr" where
  "to_create_extensible_reg_mapping_v2 mem_ok c =
     (let c = app_mslave_release_mapping_none_thread_safe c;
          L = app_mslave_ipc_get_gwconf_layout_info c (gwconf c) in
      if \<not> is_valid L \<or> unat (addr L) + unat (regnum L) > 0xFFFF then (ERR_API_FAIL, c)
      else case modbus_mapping_new_start_address (mem_ok 0) 0 0 0 0 (unat (addr L)) (unat (regnum L)) 0 0 of
        None \<Rightarrow> (ERR_API_FAIL, c)
      | Some m \<Rightarrow>
          let c = c\<lparr>mapping_queue := mapping_queue c @ [m]\<rparr>;
              (tpret, c) = create_sensor_mappings mem_ok 1 (take 40 (dev_array c)) c in
          if tpret \<noteq> ERR_NONE then (tpret, c)
          else create_remap_block (mem_ok 41) c)"

definition app_mslave_create_mapping :: "env \<Rightarrow> (nat \<Rightarrow> bool) \<Rightarrow> ctr \<Rightarrow> error_code \<times> ctr" where
  "app_mslave_create_mapping e mem_ok c =
     (if \<not> lock_ok e then (ERR_API_FAIL, app_mslave_set_to_update_mslave True c)
      else let c = app_mslave_set_to_update_mslave False c; kp_reg_md = reg_md (port_conf c) in
      if kp_reg_md = REG_MD_EXTENSIBLE then to_create_extensible_reg_mapping_v2 mem_ok c
      else if kp_reg_md = REG_MD_EFFICIENT then to_create_efficient_reg_mapping (mem_ok 0) c
      else (ERR_API_FAIL, c))"

section \<open>The remapped registers\<close>

text \<open>
  \<^verbatim>\<open>to_update_remapping_block\<close> copies the remapped registers that lie in the source block.
  Both blocks are given by their positions, since they may be the same mapping.
\<close>

definition remap_one :: "nat \<Rightarrow> nat \<Rightarrow> u16 \<Rightarrow> u16 \<Rightarrow> modbus_mapping_t list \<Rightarrow> modbus_mapping_t list" where
  "remap_one di si kp_src_addr kp_des_addr q =
     (let D = q ! di; S = q ! si; sa = unat kp_src_addr; da = unat kp_des_addr in
      if sa < start_registers S \<or> sa \<ge> start_registers S + nb_registers S then q
      else if da < start_registers D \<or> da \<ge> start_registers D + nb_registers D then q
      else let kp_regval = tab_registers S ! ((sa - start_registers S) mod nb_registers S) in
        q[di := D\<lparr>tab_registers := (tab_registers D)[(da - start_registers D) mod nb_registers D := kp_regval]\<rparr>])"

definition to_update_remapping_block ::
    "nat \<Rightarrow> nat \<Rightarrow> register_mapping_info \<Rightarrow> modbus_mapping_t list \<Rightarrow> modbus_mapping_t list" where
  "to_update_remapping_block di si r q =
     fold (\<lambda>i q. remap_one di si (src r ! (i mod 1024)) (des r ! (i mod 1024)) q)
       [0..<unat (mapping_num r)] q"

section \<open>First match\<close>

lemma locate_from_Some:
  "locate_from k ms a g = Some i \<longleftrightarrow>
     (\<exists>j. i = k + j \<and> j < length ms \<and> mapping_covers a g (ms ! j)
        \<and> (\<forall>l < j. \<not> mapping_covers a g (ms ! l)))"
proof (induction ms arbitrary: k)
  case (Cons m ms)
  show ?case
  proof (cases "mapping_covers a g m")
    case True
    then show ?thesis by (auto simp: nth_Cons' )
  next
    case False
    have "locate_from k (m # ms) a g = Some i \<longleftrightarrow> locate_from (Suc k) ms a g = Some i"
      using False by simp
    also have "\<dots> \<longleftrightarrow> (\<exists>j. i = Suc k + j \<and> j < length ms \<and> mapping_covers a g (ms ! j)
        \<and> (\<forall>l < j. \<not> mapping_covers a g (ms ! l)))"
      by (rule Cons.IH)
    also have "\<dots> \<longleftrightarrow> (\<exists>j. i = k + j \<and> j < length (m # ms) \<and> mapping_covers a g ((m # ms) ! j)
        \<and> (\<forall>l < j. \<not> mapping_covers a g ((m # ms) ! l)))"
      (is "?A \<longleftrightarrow> ?B")
    proof
      assume ?A
      then obtain j where "i = Suc k + j" "j < length ms" "mapping_covers a g (ms ! j)"
        "\<forall>l < j. \<not> mapping_covers a g (ms ! l)" by blast
      then show ?B
        using False by (intro exI [of _ "Suc j"]) (auto simp: less_Suc_eq_0_disj)
    next
      assume ?B
      then obtain j where j: "i = k + j" "j < length (m # ms)" "mapping_covers a g ((m # ms) ! j)"
        "\<forall>l < j. \<not> mapping_covers a g ((m # ms) ! l)" by blast
      then obtain j' where "j = Suc j'" using False by (cases j) auto
      then show ?A
        using j by (intro exI [of _ j']) auto
    qed
    finally show ?thesis .
  qed
qed simp

lemma locate_Some:
  "app_mslave_locate_mapping c a g = Some i \<longleftrightarrow>
     i < length (mapping_queue c) \<and> mapping_covers a g (mapping_queue c ! i)
     \<and> (\<forall>l < i. \<not> mapping_covers a g (mapping_queue c ! l))"
  by (auto simp: app_mslave_locate_mapping_def locate_from_Some)

lemma locate_None:
  "app_mslave_locate_mapping c a g = None \<longleftrightarrow> (\<forall>m \<in> set (mapping_queue c). \<not> mapping_covers a g m)"
proof -
  have "locate_from k ms a g = None \<longleftrightarrow> (\<forall>m \<in> set ms. \<not> mapping_covers a g m)" for k ms
    by (induction ms arbitrary: k) auto
  then show ?thesis by (simp add: app_mslave_locate_mapping_def)
qed

text \<open>A mapping whose last register has an address below 0xFFFF covers what one expects.\<close>

lemma covers_holding:
  assumes "start_registers m + nb_registers m \<le> 0xFFFF"
  shows "mapping_covers a ADDR_GP_HOLDING_REGISTER m \<longleftrightarrow>
    start_registers m \<le> unat a \<and> unat a < start_registers m + nb_registers m"
  using assms by (simp add: mapping_covers_def Let_def word_le_nat_alt word_less_nat_alt unat_of_nat
      del: of_nat_add)

text \<open>
  the lookup of a holding register returns the first mapping of the queue that contains the
  address, and finds none only when no mapping contains it, provided no mapping reaches beyond
  address 0xFFFE.
\<close>

theorem locate_mapping_holding:
  assumes "\<forall>m \<in> set (mapping_queue c). start_registers m + nb_registers m \<le> 0xFFFF"
  shows "case app_mslave_locate_mapping c a ADDR_GP_HOLDING_REGISTER of
      Some i \<Rightarrow> i < length (mapping_queue c)
        \<and> unat a \<in> {start_registers (mapping_queue c ! i) ..<
                     start_registers (mapping_queue c ! i) + nb_registers (mapping_queue c ! i)}
        \<and> (\<forall>l < i. unat a \<notin> {start_registers (mapping_queue c ! l) ..<
                     start_registers (mapping_queue c ! l) + nb_registers (mapping_queue c ! l)})
    | None \<Rightarrow> (\<forall>m \<in> set (mapping_queue c).
        unat a \<notin> {start_registers m ..< start_registers m + nb_registers m})"
proof (cases "app_mslave_locate_mapping c a ADDR_GP_HOLDING_REGISTER")
  case None
  then have "\<forall>m \<in> set (mapping_queue c). \<not> mapping_covers a ADDR_GP_HOLDING_REGISTER m"
    by (simp add: locate_None)
  then show ?thesis
    using assms by (auto simp: None covers_holding)
next
  case (Some i)
  then have i: "i < length (mapping_queue c)" "mapping_covers a ADDR_GP_HOLDING_REGISTER (mapping_queue c ! i)"
    "\<forall>l < i. \<not> mapping_covers a ADDR_GP_HOLDING_REGISTER (mapping_queue c ! l)"
    by (simp_all add: locate_Some)
  then have "start_registers (mapping_queue c ! l) + nb_registers (mapping_queue c ! l) \<le> 0xFFFF"
    if "l \<le> i" for l
    using assms that by (meson le_less_trans nth_mem)
  then show ?thesis
    using i by (auto simp: Some covers_holding)
qed

text \<open>
  for discrete inputs the lookup returns the first mapping of the queue whatever the address,
  although the mapping of a sensor or of the gateway has no discrete inputs at all: the two
  comparisons are joined by a disjunction.
\<close>

theorem locate_mapping_discrete_any:
  assumes "mapping_queue c = m # ms" "start_input_bits m = 0"
  shows "app_mslave_locate_mapping c a ADDR_GP_DISCRETE_INPUT = Some 0"
  using assms by (simp add: app_mslave_locate_mapping_def mapping_covers_def Let_def)

section \<open>The queue that is created\<close>

text \<open>What every mapping of the queue satisfies: only holding registers, with a table of their size.\<close>

definition holding_only :: "modbus_mapping_t \<Rightarrow> bool" where
  "holding_only m \<longleftrightarrow> mapping_wf m \<and> nb_bits m = 0 \<and> nb_input_bits m = 0 \<and> nb_input_registers m = 0
     \<and> start_bits m = 0 \<and> start_input_bits m = 0 \<and> start_input_registers m = 0"

definition below_ffff :: "modbus_mapping_t \<Rightarrow> bool" where
  "below_ffff m \<longleftrightarrow> start_registers m + nb_registers m \<le> 0xFFFF"

lemma new_holding:
  "modbus_mapping_new_start_address ok 0 0 0 0 a n 0 0 = Some m \<longleftrightarrow>
     ok \<and> m = \<lparr>nb_bits = 0, start_bits = 0, nb_input_bits = 0, start_input_bits = 0,
        nb_input_registers = 0, start_input_registers = 0, nb_registers = n, start_registers = a,
        tab_bits = [], tab_input_bits = [], tab_input_registers = [], tab_registers = replicate n 0\<rparr>"
  by (auto simp: modbus_mapping_new_start_address_def)

lemma new_holding_only: "modbus_mapping_new_start_address ok 0 0 0 0 a n 0 0 = Some m \<Longrightarrow> holding_only m"
  by (auto simp: new_holding holding_only_def mapping_wf_def)

lemma offset_frame:
  "app_mslave_get_reg_mapping_offset (c\<lparr>mapping_queue := q\<rparr>) = app_mslave_get_reg_mapping_offset c"
  by (simp add: app_mslave_get_reg_mapping_offset_def)

lemma layout_frame:
  "app_mslave_ipc_get_sdata_layout_info (c\<lparr>mapping_queue := q\<rparr>) dev = app_mslave_ipc_get_sdata_layout_info c dev"
  "app_mslave_ipc_get_gwconf_layout_info (c\<lparr>mapping_queue := q\<rparr>) gw = app_mslave_ipc_get_gwconf_layout_info c gw"
  unfolding app_mslave_ipc_get_sdata_layout_info_def app_mslave_ipc_get_gwconf_layout_info_def offset_frame
  by (rule refl)+

text \<open>
  The sensor loop only appends to the queue; what it appends are holding-register blocks below
  address 0xFFFF, and a successful run leaves a block for every sensor with a usable layout.
\<close>

lemma create_sensor_mappings_appends:
  assumes "create_sensor_mappings mem_ok k devs c = (rc, c')"
  shows "\<exists>ms. c' = c\<lparr>mapping_queue := mapping_queue c @ ms\<rparr> \<and> (\<forall>m \<in> set ms. holding_only m \<and> below_ffff m)
    \<and> (rc = ERR_NONE \<longrightarrow> (\<forall>dev \<in> set devs. let L = app_mslave_ipc_get_sdata_layout_info c dev in
         is_valid L \<and> unat (addr L) + unat (regnum L) \<le> 0xFFFF \<longrightarrow>
         (\<exists>m \<in> set ms. start_registers m = unat (addr L) \<and> nb_registers m = unat (regnum L))))"
  using assms
proof (induction devs arbitrary: k c)
  case Nil
  then show ?case by (intro exI [of _ "[]"]) simp
next
  case (Cons dev devs)
  let ?L = "app_mslave_ipc_get_sdata_layout_info c dev"
  show ?case
  proof (cases "is_valid ?L \<and> unat (addr ?L) + unat (regnum ?L) \<le> 0xFFFF")
    case False
    then have "create_sensor_mappings mem_ok k devs c = (rc, c')"
      using Cons.prems by (auto simp: Let_def split: if_splits)
    from Cons.IH [OF this] show ?thesis using False by (auto simp: Let_def)
  next
    case True
    show ?thesis
    proof (cases "modbus_mapping_new_start_address (mem_ok k) 0 0 0 0 (unat (addr ?L)) (unat (regnum ?L)) 0 0")
      case None
      then have "rc = ERR_API_FAIL" "c' = c" using True Cons.prems by (auto simp: Let_def)
      then show ?thesis by (intro exI [of _ "[]"]) simp
    next
      case (Some m)
      then have "create_sensor_mappings mem_ok (Suc k) devs (c\<lparr>mapping_queue := mapping_queue c @ [m]\<rparr>) = (rc, c')"
        using True Cons.prems by (auto simp: Let_def)
      from Cons.IH [OF this] obtain ms where ms:
        "c' = c\<lparr>mapping_queue := mapping_queue c @ m # ms\<rparr>" "\<forall>m \<in> set ms. holding_only m \<and> below_ffff m"
        "rc = ERR_NONE \<longrightarrow> (\<forall>dev \<in> set devs. let L = app_mslave_ipc_get_sdata_layout_info c dev in
         is_valid L \<and> unat (addr L) + unat (regnum L) \<le> 0xFFFF \<longrightarrow>
         (\<exists>m \<in> set ms. start_registers m = unat (addr L) \<and> nb_registers m = unat (regnum L)))"
        by (auto simp: layout_frame)
      have m: "holding_only m" "start_registers m = unat (addr ?L)" "nb_registers m = unat (regnum ?L)"
        using Some new_holding_only [OF Some] by (auto simp: new_holding)
      then show ?thesis
        using ms True by (intro exI [of _ "m # ms"]) (auto simp: Let_def below_ffff_def)
    qed
  qed
qed

lemma create_remap_block_appends:
  assumes "create_remap_block mem_ok c = (rc, c')"
  shows "\<exists>ms. c' = c\<lparr>mapping_queue := mapping_queue c @ ms\<rparr> \<and> (\<forall>m \<in> set ms. holding_only m)
    \<and> (rc = ERR_NONE \<and> flg (g_reg_mapping_info c) \<longrightarrow>
       (\<exists>m. ms = [m] \<and> start_registers m = unat (min_reg_addr (g_reg_mapping_info c))
        \<and> nb_registers m = unat (max_reg_addr (g_reg_mapping_info c) - min_reg_addr (g_reg_mapping_info c) + 1)))
    \<and> (\<not> flg (g_reg_mapping_info c) \<longrightarrow> ms = [])"
proof (cases "rc = ERR_NONE \<and> flg (g_reg_mapping_info c)")
  case True
  then obtain m where m: "c' = c\<lparr>mapping_queue := mapping_queue c @ [m]\<rparr>"
    "modbus_mapping_new_start_address mem_ok 0 0 0 0 (unat (min_reg_addr (g_reg_mapping_info c)))
       (unat (max_reg_addr (g_reg_mapping_info c) - min_reg_addr (g_reg_mapping_info c) + 1)) 0 0 = Some m"
    using assms by (auto simp: create_remap_block_def Let_def split: if_splits option.splits)
  then show ?thesis
    using True new_holding_only [OF m(2)] by (intro exI [of _ "[m]"]) (auto simp: new_holding)
next
  case False
  then have "c' = c"
    using assms by (auto simp: create_remap_block_def Let_def split: if_splits option.splits)
  then show ?thesis using False by (intro exI [of _ "[]"]) auto
qed

text \<open>
  creating the extensible mappings replaces the queue by holding-register blocks only.  When
  it reports success, the first block is the one of the gateway and every sensor whose layout
  string is valid and fits has a block of exactly the length its layout asks for.
\<close>

theorem create_extensible_blocks:
  assumes "to_create_extensible_reg_mapping_v2 mem_ok c = (ERR_NONE, c')"
  shows "(\<forall>m \<in> set (mapping_queue c'). holding_only m)
    \<and> (let G = app_mslave_ipc_get_gwconf_layout_info c (gwconf c) in
        is_valid G \<and> start_registers (hd (mapping_queue c')) = unat (addr G)
        \<and> nb_registers (hd (mapping_queue c')) = unat (regnum G))
    \<and> (\<forall>dev \<in> set (take 40 (dev_array c)). let L = app_mslave_ipc_get_sdata_layout_info c dev in
        is_valid L \<and> unat (addr L) + unat (regnum L) \<le> 0xFFFF \<longrightarrow>
        (\<exists>m \<in> set (mapping_queue c'). start_registers m = unat (addr L) \<and> nb_registers m = unat (regnum L)))"
proof -
  let ?G = "app_mslave_ipc_get_gwconf_layout_info c (gwconf c)"
  obtain g c1 where g: "is_valid ?G"
      "modbus_mapping_new_start_address (mem_ok 0) 0 0 0 0 (unat (addr ?G)) (unat (regnum ?G)) 0 0 = Some g"
      "create_sensor_mappings mem_ok 1 (take 40 (dev_array c)) (c\<lparr>mapping_queue := [g]\<rparr>) = (ERR_NONE, c1)"
      "create_remap_block (mem_ok 41) c1 = (ERR_NONE, c')"
    using assms
    by (auto simp: to_create_extensible_reg_mapping_v2_def Let_def layout_frame
        app_mslave_release_mapping_none_thread_safe_def split: if_splits option.splits prod.splits)
  from create_sensor_mappings_appends [OF g(3)] obtain ms where ms:
    "c1 = c\<lparr>mapping_queue := g # ms\<rparr>" "\<forall>m \<in> set ms. holding_only m \<and> below_ffff m"
    "\<forall>dev \<in> set (take 40 (dev_array c)). let L = app_mslave_ipc_get_sdata_layout_info c dev in
         is_valid L \<and> unat (addr L) + unat (regnum L) \<le> 0xFFFF \<longrightarrow>
         (\<exists>m \<in> set ms. start_registers m = unat (addr L) \<and> nb_registers m = unat (regnum L))"
    by (auto simp: layout_frame)
  from create_remap_block_appends [OF g(4)] obtain ns where ns:
    "c' = c1\<lparr>mapping_queue := mapping_queue c1 @ ns\<rparr>" "\<forall>m \<in> set ns. holding_only m"
    by auto
  have q: "mapping_queue c' = g # ms @ ns" using ms(1) ns(1) by simp
  have gg: "holding_only g" "start_registers g = unat (addr ?G)" "nb_registers g = unat (regnum ?G)"
    using g(2) new_holding_only [OF g(2)] by (auto simp: new_holding)
  have "\<exists>m \<in> set (mapping_queue c'). start_registers m = unat (addr L) \<and> nb_registers m = unat (regnum L)"
    if "dev \<in> set (take 40 (dev_array c))" "L = app_mslave_ipc_get_sdata_layout_info c dev"
      "is_valid L" "unat (addr L) + unat (regnum L) \<le> 0xFFFF" for dev L
    using that ms(3) by (auto simp: q Let_def)
  then show ?thesis
    using g(1) gg ms(2) ns(2) by (auto simp: q Let_def)
qed

text \<open>
  in efficient mode the creation of the mappings never reports success: whatever happens, the
  result is \<^verbatim>\<open>ERR_API_FAIL\<close>, also when the block of 0xFFFF registers was created.
\<close>

theorem create_efficient_never_succeeds:
  "fst (to_create_efficient_reg_mapping mem_ok c) = ERR_API_FAIL
   \<and> (mem_ok \<longrightarrow> length (mapping_queue (snd (to_create_efficient_reg_mapping mem_ok c))) = 1)"
  by (auto simp: to_create_efficient_reg_mapping_def Let_def modbus_mapping_new_start_address_def
      app_mslave_release_mapping_none_thread_safe_def split: if_splits)

theorem create_efficient_never_succeeds_witness:
  "fst (to_create_efficient_reg_mapping True init_ctr) = ERR_API_FAIL
   \<and> length (mapping_queue (snd (to_create_efficient_reg_mapping True init_ctr))) = 1"
  using create_efficient_never_succeeds [of True init_ctr] by simp

section \<open>Layout strings round trip\<close>

text \<open>
  The string that the format \<^verbatim>\<open>CH%02x-AD%04x-L%02x-%s\<close> of \<^verbatim>\<open>SENSOR_NAME_BUILD_STRING\<close> gives
  for a channel, a start address and a register number of at most two, four and two digits.
\<close>

definition build_name :: "nat \<Rightarrow> nat \<Rightarrow> nat \<Rightarrow> bytes \<Rightarrow> bytes" where
  "build_name chn a len ty =
     [0x43, 0x48, hex_digit (chn div 16), hex_digit (chn mod 16), 0x2D, 0x41, 0x44,
      hex_digit (a div 4096), hex_digit (a div 256 mod 16), hex_digit (a div 16 mod 16), hex_digit (a mod 16),
      0x2D, 0x4C, hex_digit (len div 16), hex_digit (len mod 16), 0x2D] @ ty"

lemma hex2_digits: "n < 256 \<Longrightarrow> hex2 (hex_digit (n div 16)) (hex_digit (n mod 16)) = of_nat n"
proof -
  assume "n < 256"
  then have "n div 16 < 16" by auto
  moreover have "n div 16 * 16 + n mod 16 = n" by simp
  ultimately show ?thesis by (simp add: hex2_def hex_digit_value)
qed

lemma hex_decompose:
  "n div 4096 * 16 * 16 * 16 + n div 256 mod 16 * 16 * 16 + n div 16 mod 16 * 16 + n mod 16 = (n::nat)"
proof -
  define q1 where "q1 = n div 16"
  define q2 where "q2 = q1 div 16"
  have "q2 div 16 * 16 + q2 mod 16 = q2" "q2 * 16 + q1 mod 16 = q1" "q1 * 16 + n mod 16 = n"
    by (simp_all add: q1_def q2_def)
  moreover have d: "n div 256 = q2" "n div 4096 = q2 div 16"
    by (simp_all add: q1_def q2_def flip: div_mult2_eq)
  ultimately show ?thesis
    unfolding d q1_def [symmetric] by linarith
qed

lemma hex4_digits:
  assumes "n < 65536"
  shows "hex4 (hex_digit (n div 4096)) (hex_digit (n div 256 mod 16)) (hex_digit (n div 16 mod 16))
     (hex_digit (n mod 16)) = of_nat n"
proof -
  have "n div 4096 < 16" using assms by auto
  then have "hex4 (hex_digit (n div 4096)) (hex_digit (n div 256 mod 16)) (hex_digit (n div 16 mod 16))
     (hex_digit (n mod 16)) =
     of_nat (n div 4096 * 16 * 16 * 16 + n div 256 mod 16 * 16 * 16 + n div 16 mod 16 * 16 + n mod 16)"
    by (simp add: hex4_def hex_digit_value)
  then show ?thesis by (simp only: hex_decompose)
qed

lemma take3_drop16_build_name: "length ty = 3 \<Longrightarrow> take 3 (drop 16 (build_name chn a len ty @ rest)) = ty"
  by (simp add: build_name_def)

lemma build_name_nth:
  "(build_name chn a len ty @ rest) ! 2 = hex_digit (chn div 16)"
  "(build_name chn a len ty @ rest) ! 3 = hex_digit (chn mod 16)"
  "(build_name chn a len ty @ rest) ! 7 = hex_digit (a div 4096)"
  "(build_name chn a len ty @ rest) ! 8 = hex_digit (a div 256 mod 16)"
  "(build_name chn a len ty @ rest) ! 9 = hex_digit (a div 16 mod 16)"
  "(build_name chn a len ty @ rest) ! 10 = hex_digit (a mod 16)"
  "(build_name chn a len ty @ rest) ! 13 = hex_digit (len div 16)"
  "(build_name chn a len ty @ rest) ! 14 = hex_digit (len mod 16)"
  by (simp_all add: build_name_def)

lemma sdata_layout_value:
  assumes "chn < 256" "a < 65536" "len < 256" "ty = type_PRS \<or> ty = type_ITS"
    and "dev_description dev = build_name chn a len ty @ rest"
  shows "app_mslave_ipc_get_sdata_layout_info c dev = \<lparr>
    is_valid = True, nameid = dev_nameId dev, ch = of_nat chn,
    addr = add_offset (app_mslave_get_reg_mapping_offset c) (of_nat a), regnum = of_nat len,
    stype = (if ty = type_PRS then STYPE_PREDICT else STYPE_INSIGHT_T)\<rparr>"
proof -
  have d: "chn div 16 < 16" "a div 4096 < 16" "len div 16 < 16" using assms(1-3) by auto
  have t: "length ty = 3" using assms(4) by (auto simp: type_PRS_def type_ITS_def)
  show ?thesis
    unfolding app_mslave_ipc_get_sdata_layout_info_def assms(5) Let_def build_name_nth
      take3_drop16_build_name [OF t]
    using assms(1-4) d by (auto simp: hex_digit_char hex2_digits hex4_digits zero_layout_def)
qed

text \<open>
  C39: the layout parser reads back what the database writes: from the string built for a channel,
  a start address, a register number and a sensor type it recovers exactly these values, the
  address shifted by the offset of the magic file.
\<close>

theorem sdata_layout_roundtrip:
  assumes "chn < 256" "a < 65536" "len < 256" "ty = type_PRS \<or> ty = type_ITS"
    and "dev_description dev = build_name chn a len ty @ rest"
  shows "app_mslave_ipc_get_sdata_layout_info c dev = \<lparr>
    is_valid = True, nameid = dev_nameId dev, ch = of_nat chn,
    addr = add_offset (app_mslave_get_reg_mapping_offset c) (of_nat a), regnum = of_nat len,
    stype = (if ty = type_PRS then STYPE_PREDICT else STYPE_INSIGHT_T)\<rparr>"
  using assms by (rule sdata_layout_value)

lemma gwconf_layout_value:
  assumes "chn < 256" "a < 65536" "len < 256"
    and "gw_description gw = build_name chn a len type_GWY @ rest"
  shows "app_mslave_ipc_get_gwconf_layout_info c gw = \<lparr>
    is_valid = True, nameid = gw_nameId gw, ch = of_nat chn,
    addr = add_offset (app_mslave_get_reg_mapping_offset c) (of_nat a), regnum = of_nat len,
    stype = STYPE_GW\<rparr>"
proof -
  have d: "chn div 16 < 16" "a div 4096 < 16" "len div 16 < 16" using assms(1-3) by auto
  have t: "length type_GWY = 3" "type_GWY \<noteq> type_PRS" "type_GWY \<noteq> type_ITS"
    by (auto simp: type_PRS_def type_ITS_def type_GWY_def)
  show ?thesis
    unfolding app_mslave_ipc_get_gwconf_layout_info_def assms(4) Let_def build_name_nth
      take3_drop16_build_name [OF t(1)]
    using assms(1-3) d t by (auto simp: hex_digit_char hex2_digits hex4_digits zero_layout_def)
qed

text \<open>A gateway with one sensor, used to instantiate the theorems.\<close>

definition sample_gw :: gatewayTableData_t where
  "sample_gw = zero_gwconf\<lparr>gw_nameId := 9, gw_description := build_name 0 0 0x80 type_GWY @ [0]\<rparr>"

definition sample_dev :: deviceTableData_t where
  "sample_dev = zero_dev\<lparr>dev_nameId := 7, dev_description := build_name 1 0x80 0x80 type_PRS @ [0]\<rparr>"

definition sample_ctr :: ctr where
  "sample_ctr = init_ctr\<lparr>gwconf := sample_gw, dev_array := [sample_dev]\<rparr>"

lemma sample_offset: "app_mslave_get_reg_mapping_offset (sample_ctr\<lparr>mapping_queue := q\<rparr>) = 0"
  "app_mslave_get_reg_mapping_offset sample_ctr = 0"
  by (simp_all add: app_mslave_get_reg_mapping_offset_def sample_ctr_def init_ctr_def g_mslave_ctr_def zero_remap_def)

theorem sdata_layout_roundtrip_witness:
  "app_mslave_ipc_get_sdata_layout_info sample_ctr sample_dev =
     \<lparr>is_valid = True, nameid = 7, ch = 1, addr = 0x80, regnum = 0x80, stype = STYPE_PREDICT\<rparr>"
  using sdata_layout_roundtrip [of 1 "0x80" "0x80" type_PRS sample_dev "[0]" sample_ctr]
  by (simp add: sample_dev_def sample_offset add_offset_def)

lemma sample_dev_layout:
  "app_mslave_ipc_get_sdata_layout_info (sample_ctr\<lparr>mapping_queue := q\<rparr>) sample_dev =
     \<lparr>is_valid = True, nameid = 7, ch = 1, addr = 0x80, regnum = 0x80, stype = STYPE_PREDICT\<rparr>"
  using sdata_layout_value [of 1 "0x80" "0x80" type_PRS sample_dev "[0]" sample_ctr]
  by (simp add: layout_frame sample_dev_def sample_offset add_offset_def)

lemma sample_gw_layout:
  "app_mslave_ipc_get_gwconf_layout_info (sample_ctr\<lparr>mapping_queue := q\<rparr>) sample_gw =
     \<lparr>is_valid = True, nameid = 9, ch = 0, addr = 0, regnum = 0x80, stype = STYPE_GW\<rparr>"
  using gwconf_layout_value [of 0 0 "0x80" sample_gw "[0]" "sample_ctr\<lparr>mapping_queue := q\<rparr>"]
  by (simp add: sample_gw_def sample_offset add_offset_def)

lemma sample_fields: "gwconf (sample_ctr\<lparr>mapping_queue := q\<rparr>) = sample_gw"
  "dev_array (sample_ctr\<lparr>mapping_queue := q\<rparr>) = [sample_dev]"
  "flg (g_reg_mapping_info (sample_ctr\<lparr>mapping_queue := q\<rparr>)) = False"
  "flg (g_reg_mapping_info sample_ctr) = False"
  by (simp_all add: sample_ctr_def init_ctr_def g_mslave_ctr_def zero_remap_def)

lemma sample_created:
  "\<exists>c'. to_create_extensible_reg_mapping_v2 (\<lambda>_. True) sample_ctr = (ERR_NONE, c')"
  unfolding to_create_extensible_reg_mapping_v2_def app_mslave_release_mapping_none_thread_safe_def
    Let_def sample_fields sample_gw_layout
  by (simp add: modbus_mapping_new_start_address_def sample_fields sample_dev_layout create_remap_block_def
      take_Cons' Let_def)

theorem create_extensible_blocks_witness:
  "\<exists>c'. to_create_extensible_reg_mapping_v2 (\<lambda>_. True) sample_ctr = (ERR_NONE, c')
     \<and> start_registers (hd (mapping_queue c')) = 0
     \<and> (\<exists>m \<in> set (mapping_queue c'). start_registers m = 0x80 \<and> nb_registers m = 0x80)"
proof -
  obtain c' where c': "to_create_extensible_reg_mapping_v2 (\<lambda>_. True) sample_ctr = (ERR_NONE, c')"
    using sample_created by blast
  have q: "sample_ctr = sample_ctr\<lparr>mapping_queue := mapping_queue sample_ctr\<rparr>" by simp
  have l: "app_mslave_ipc_get_gwconf_layout_info sample_ctr (gwconf sample_ctr) =
     \<lparr>is_valid = True, nameid = 9, ch = 0, addr = 0, regnum = 0x80, stype = STYPE_GW\<rparr>"
    "app_mslave_ipc_get_sdata_layout_info sample_ctr sample_dev =
     \<lparr>is_valid = True, nameid = 7, ch = 1, addr = 0x80, regnum = 0x80, stype = STYPE_PREDICT\<rparr>"
    "dev_array sample_ctr = [sample_dev]"
    using q sample_gw_layout sample_dev_layout sample_fields by metis+
  show ?thesis
    using create_extensible_blocks [OF c'] c' by (auto simp: Let_def l)
qed

section \<open>Copying the remapped registers\<close>

definition in_block :: "modbus_mapping_t \<Rightarrow> u16 \<Rightarrow> bool" where
  "in_block m a \<longleftrightarrow> start_registers m \<le> unat a \<and> unat a < start_registers m + nb_registers m"

definition reg_at :: "modbus_mapping_t \<Rightarrow> u16 \<Rightarrow> u16" where
  "reg_at m a = tab_registers m ! (unat a - start_registers m)"

definition same_shape :: "modbus_mapping_t \<Rightarrow> modbus_mapping_t \<Rightarrow> bool" where
  "same_shape m m' \<longleftrightarrow> start_registers m' = start_registers m \<and> nb_registers m' = nb_registers m
     \<and> length (tab_registers m') = length (tab_registers m)"

lemma remap_one_eq:
  "remap_one di si s d q =
    (if in_block (q ! si) s \<and> in_block (q ! di) d
     then q[di := (q ! di)\<lparr>tab_registers := (tab_registers (q ! di))
            [unat d - start_registers (q ! di) := reg_at (q ! si) s]\<rparr>]
     else q)"
  by (auto simp: remap_one_def Let_def in_block_def reg_at_def not_less)

lemma same_shape_in_block: "same_shape m m' \<Longrightarrow> in_block m' a = in_block m a"
  by (simp add: same_shape_def in_block_def)

lemma reg_at_update:
  assumes "in_block m d" "in_block m a" "length (tab_registers m) = nb_registers m"
  shows "reg_at (m\<lparr>tab_registers := (tab_registers m)[unat d - start_registers m := v]\<rparr>) a =
    (if a = d then v else reg_at m a)"
proof -
  have "unat a - start_registers m = unat d - start_registers m \<longleftrightarrow> a = d"
    using assms(1,2) by (auto simp: in_block_def eq_diff_iff word_unat_eq_iff)
  then show ?thesis
    using assms by (auto simp: reg_at_def in_block_def nth_list_update)
qed

lemma remap_fold:
  assumes "di < length q" "di \<noteq> si" "mapping_wf (q ! di)" "k \<le> 1024"
    and "\<And>i j. i < j \<Longrightarrow> j < k \<Longrightarrow> des r ! i \<noteq> des r ! j"
  defines "f \<equiv> \<lambda>i q. remap_one di si (src r ! (i mod 1024)) (des r ! (i mod 1024)) q"
  shows "length (fold f [0..<k] q) = length q \<and> same_shape (q ! di) (fold f [0..<k] q ! di)
    \<and> (\<forall>j. j \<noteq> di \<longrightarrow> fold f [0..<k] q ! j = q ! j)
    \<and> (\<forall>i < k. in_block (q ! di) (des r ! i) \<longrightarrow> in_block (q ! si) (src r ! i) \<longrightarrow>
         reg_at (fold f [0..<k] q ! di) (des r ! i) = reg_at (q ! si) (src r ! i))
    \<and> (\<forall>a. in_block (q ! di) a \<longrightarrow> (\<forall>i < k. des r ! i \<noteq> a) \<longrightarrow>
         reg_at (fold f [0..<k] q ! di) a = reg_at (q ! di) a)"
  using assms(4,5)
proof (induction k)
  case 0
  then show ?case by (simp add: same_shape_def)
next
  case (Suc k)
  define p where "p = fold f [0..<k] q"
  have IH: "length p = length q" "same_shape (q ! di) (p ! di)" "\<And>j. j \<noteq> di \<Longrightarrow> p ! j = q ! j"
    "\<And>i. i < k \<Longrightarrow> in_block (q ! di) (des r ! i) \<Longrightarrow> in_block (q ! si) (src r ! i) \<Longrightarrow>
         reg_at (p ! di) (des r ! i) = reg_at (q ! si) (src r ! i)"
    "\<And>a. in_block (q ! di) a \<Longrightarrow> (\<And>i. i < k \<Longrightarrow> des r ! i \<noteq> a) \<Longrightarrow> reg_at (p ! di) a = reg_at (q ! di) a"
    using Suc by (simp_all add: p_def)
  let ?s = "src r ! k" and ?d = "des r ! k"
  have step: "fold f [0..<Suc k] q = remap_one di si ?s ?d p"
    using Suc.prems(1) by (simp add: p_def f_def)
  have S: "p ! si = q ! si" using IH(3) assms(2) by simp
  have B: "in_block (p ! di) a = in_block (q ! di) a" for a
    using IH(2) by (rule same_shape_in_block)
  have L: "length (tab_registers (p ! di)) = nb_registers (p ! di)"
    using IH(2) assms(3) by (simp add: same_shape_def mapping_wf_def)
  have fresh: "des r ! i \<noteq> ?d" if "i < k" for i using Suc.prems(2) that by simp
  show ?case
  proof (cases "in_block (q ! si) ?s \<and> in_block (q ! di) ?d")
    case True
    have e: "remap_one di si ?s ?d p = p[di := (p ! di)\<lparr>tab_registers := (tab_registers (p ! di))
            [unat ?d - start_registers (p ! di) := reg_at (q ! si) ?s]\<rparr>]"
      using True by (simp add: remap_one_eq S B)
    have at: "reg_at (remap_one di si ?s ?d p ! di) a = (if a = ?d then reg_at (q ! si) ?s else reg_at (p ! di) a)"
      if "in_block (q ! di) a" for a
      using reg_at_update [of "p ! di" ?d a] that True L IH(1) assms(1) by (simp add: e B)
    show ?thesis
      unfolding step using IH(1-3) assms(1) at IH(4,5) fresh
      by (auto simp: e same_shape_def less_Suc_eq)
  next
    case False
    then have "remap_one di si ?s ?d p = p" by (auto simp: remap_one_eq S B)
    then show ?thesis
      unfolding step using IH False by (auto simp: less_Suc_eq)
  qed
qed

text \<open>
  the copy of the remapped registers writes, for every entry of the table whose source register
  lies in the source block and whose destination lies in the remapping block, the value of the
  source register to the destination register; registers that are no destination, and all other
  blocks, keep their contents.  The destinations of the table are assumed distinct.
\<close>

theorem update_remapping_block_copies:
  assumes "di < length q" "di \<noteq> si" "mapping_wf (q ! di)" "unat (mapping_num r) \<le> 1024"
    and "\<And>i j. i < j \<Longrightarrow> j < unat (mapping_num r) \<Longrightarrow> des r ! i \<noteq> des r ! j"
  shows "(\<forall>j. j \<noteq> di \<longrightarrow> to_update_remapping_block di si r q ! j = q ! j)
    \<and> (\<forall>i < unat (mapping_num r). in_block (q ! di) (des r ! i) \<longrightarrow> in_block (q ! si) (src r ! i) \<longrightarrow>
         reg_at (to_update_remapping_block di si r q ! di) (des r ! i) = reg_at (q ! si) (src r ! i))
    \<and> (\<forall>a. in_block (q ! di) a \<longrightarrow> (\<forall>i < unat (mapping_num r). des r ! i \<noteq> a) \<longrightarrow>
         reg_at (to_update_remapping_block di si r q ! di) a = reg_at (q ! di) a)"
  using remap_fold [OF assms(1-4), of r] assms(5) unfolding to_update_remapping_block_def by blast

theorem update_remapping_block_copies_witness:
  "reg_at (to_update_remapping_block 0 1
       (zero_remap\<lparr>mapping_num := 1, src := replicate 1024 0x101, des := replicate 1024 5\<rparr>)
       [sample_mapping\<lparr>start_registers := 4\<rparr>, sample_mapping] ! 0) 5 = 0x3344"
proof -
  let ?r = "zero_remap\<lparr>mapping_num := 1, src := replicate 1024 0x101, des := replicate 1024 5\<rparr>"
  let ?q = "[sample_mapping\<lparr>start_registers := 4\<rparr>, sample_mapping]"
  have "\<forall>i < unat (mapping_num ?r). in_block (?q ! 0) (des ?r ! i) \<longrightarrow> in_block (?q ! 1) (src ?r ! i) \<longrightarrow>
         reg_at (to_update_remapping_block 0 1 ?r ?q ! 0) (des ?r ! i) = reg_at (?q ! 1) (src ?r ! i)"
    using update_remapping_block_copies [of 0 ?q 1 ?r] by (simp add: sample_mapping_def mapping_wf_def)
  then show ?thesis
    by (simp add: in_block_def reg_at_def sample_mapping_def)
qed

theorem locate_mapping_holding_witness:
  "app_mslave_locate_mapping (init_ctr\<lparr>mapping_queue := [sample_mapping]\<rparr>) 0x102 ADDR_GP_HOLDING_REGISTER = Some 0"
proof -
  let ?c = "init_ctr\<lparr>mapping_queue := [sample_mapping]\<rparr>"
  have "case app_mslave_locate_mapping ?c 0x102 ADDR_GP_HOLDING_REGISTER of
      Some i \<Rightarrow> i < length (mapping_queue ?c)
        \<and> unat (0x102 :: u16) \<in> {start_registers (mapping_queue ?c ! i) ..<
                     start_registers (mapping_queue ?c ! i) + nb_registers (mapping_queue ?c ! i)}
        \<and> (\<forall>l < i. unat (0x102 :: u16) \<notin> {start_registers (mapping_queue ?c ! l) ..<
                     start_registers (mapping_queue ?c ! l) + nb_registers (mapping_queue ?c ! l)})
    | None \<Rightarrow> (\<forall>m \<in> set (mapping_queue ?c).
        unat (0x102 :: u16) \<notin> {start_registers m ..< start_registers m + nb_registers m})"
    by (rule locate_mapping_holding) (simp add: sample_mapping_def)
  then show ?thesis
    by (auto simp: sample_mapping_def split: option.splits)
qed

theorem locate_mapping_discrete_any_witness:
  "app_mslave_locate_mapping (init_ctr\<lparr>mapping_queue := [sample_mapping]\<rparr>) 0x4321 ADDR_GP_DISCRETE_INPUT = Some 0"
  by (rule locate_mapping_discrete_any [where m = sample_mapping and ms = "[]"])
    (simp_all add: sample_mapping_def)

end
