(* ===== verification/Mbus_Order.thy ===== *)
theory Mbus_Order
  imports Libmodbus
begin

text \<open>
  Byte orders: how \<^verbatim>\<open>to_set_float\<close>, \<^verbatim>\<open>to_set_uint32\<close> and \<^verbatim>\<open>to_set_uint16\<close> of
  \<^verbatim>\<open>src/modbus_rtu/modbus_slave/app_mslave_ipc.c\<close> put a value into Modbus registers, and how a
  register that was stored through a \<^verbatim>\<open>uint16_t\<close> pointer into a byte buffer lies there.
\<close>

definition byte_a :: "u32 \<Rightarrow> u8" where "byte_a v = ucast (drop_bit 24 v AND 0xFF)"
definition byte_b :: "u32 \<Rightarrow> u8" where "byte_b v = ucast (drop_bit 16 v AND 0xFF)"
definition byte_c :: "u32 \<Rightarrow> u8" where "byte_c v = ucast (drop_bit 8 v AND 0xFF)"
definition byte_d :: "u32 \<Rightarrow> u8" where "byte_d v = ucast (v AND 0xFF)"

definition to_set_uint32 :: "mbus_byte_oder \<Rightarrow> u32 \<Rightarrow> u16 list" where
  "to_set_uint32 kp_border val =
     (let a = byte_a val; b = byte_b val; c = byte_c val; d = byte_d val in
      case kp_border of
        MBUS_BORDER_BADC \<Rightarrow> [mk16 b a, mk16 d c]
      | MBUS_BORDER_CDAB \<Rightarrow> [mk16 c d, mk16 a b]
      | MBUS_BORDER_DCBA \<Rightarrow> [mk16 d c, mk16 b a]
      | MBUS_BORDER_ABCD \<Rightarrow> [mk16 a b, mk16 c d])"

text \<open>The argument of \<^verbatim>\<open>to_set_float\<close> is the object representation of the float as a 32-bit value.\<close>

definition to_set_float :: "mbus_byte_oder \<Rightarrow> u32 \<Rightarrow> u16 list" where
  "to_set_float kp_border kpu32 =
     (let a = byte_a kpu32; b = byte_b kpu32; c = byte_c kpu32; d = byte_d kpu32 in
      case kp_border of
        MBUS_BORDER_BADC \<Rightarrow> [mk16 b a, mk16 d c]
      | MBUS_BORDER_CDAB \<Rightarrow> [mk16 c d, mk16 a b]
      | MBUS_BORDER_DCBA \<Rightarrow> [mk16 d c, mk16 b a]
      | MBUS_BORDER_ABCD \<Rightarrow> [mk16 a b, mk16 c d])"

definition to_set_uint16 :: "mbus_byte_oder \<Rightarrow> u16 \<Rightarrow> u16" where
  "to_set_uint16 kp_border val =
     (let a = ucast (drop_bit 8 val AND 0xFF); b = ucast (val AND 0xFF) in
      case kp_border of
        MBUS_BORDER_BADC \<Rightarrow> mk16 b a
      | MBUS_BORDER_DCBA \<Rightarrow> mk16 b a
      | MBUS_BORDER_CDAB \<Rightarrow> mk16 a b
      | MBUS_BORDER_ABCD \<Rightarrow> mk16 a b)"

text \<open>A 16-bit store into a byte buffer.\<close>

definition store16 :: "bool \<Rightarrow> u16 \<Rightarrow> bytes" where
  "store16 be w = (if be then [hi8 w, lo8 w] else [lo8 w, hi8 w])"

section \<open>What the master sees\<close>

text \<open>The registers of a reply travel high byte first.\<close>

definition wire_bytes :: "u16 list \<Rightarrow> bytes" where
  "wire_bytes ws = concat (map (\<lambda>w. [hi8 w, lo8 w]) ws)"

definition order_bytes :: "mbus_byte_oder \<Rightarrow> 'a \<Rightarrow> 'a \<Rightarrow> 'a \<Rightarrow> 'a \<Rightarrow> 'a list" where
  "order_bytes ord a b c d =
     (case ord of MBUS_BORDER_ABCD \<Rightarrow> [a, b, c, d] | MBUS_BORDER_DCBA \<Rightarrow> [d, c, b, a]
      | MBUS_BORDER_BADC \<Rightarrow> [b, a, d, c] | MBUS_BORDER_CDAB \<Rightarrow> [c, d, a, b])"

definition join32 :: "u8 \<Rightarrow> u8 \<Rightarrow> u8 \<Rightarrow> u8 \<Rightarrow> u32" where
  "join32 a b c d = push_bit 24 (ucast a) OR push_bit 16 (ucast b) OR push_bit 8 (ucast c) OR ucast d"

lemma ucast_and_FF: "(ucast (x AND 0xFF) :: u8) = ucast x" for x :: "'a::len word"
proof -
  have "x AND 0xFF = take_bit 8 x"
    by (simp add: take_bit_eq_mask mask_eq_exp_minus_1)
  then show ?thesis
    by (auto intro!: bit_word_eqI simp: bit_simps)
qed

lemma join32_bytes: "join32 (byte_a v) (byte_b v) (byte_c v) (byte_d v) = v"
proof (rule bit_word_eqI)
  fix n assume n: "n < LENGTH(32)"
  consider "n < 8" | "8 \<le> n" "n < 16" | "16 \<le> n" "n < 24" | "24 \<le> n" "n < 32"
    using n by fastforce
  then show "bit (join32 (byte_a v) (byte_b v) (byte_c v) (byte_d v)) n = bit v n"
    by cases (auto simp: join32_def byte_a_def byte_b_def byte_c_def byte_d_def ucast_and_FF bit_simps)
qed

text \<open>
  for each of the four byte orders the registers written for a 32-bit value put its bytes on
  the wire in the order the name says, and these bytes determine the value.
\<close>

theorem set_uint32_wire:
  "wire_bytes (to_set_uint32 ord v) = order_bytes ord (byte_a v) (byte_b v) (byte_c v) (byte_d v)
   \<and> to_set_float ord v = to_set_uint32 ord v
   \<and> join32 (byte_a v) (byte_b v) (byte_c v) (byte_d v) = v"
  by (cases ord)
    (simp_all add: wire_bytes_def to_set_uint32_def to_set_float_def order_bytes_def Let_def join32_bytes)

lemma lo8_drop_bit: "lo8 (drop_bit 8 v) = hi8 v"
  by (simp add: lo8_def hi8_def)

lemma set_uint16_bytes:
  "to_set_uint16 ord v = (if ord = MBUS_BORDER_BADC \<or> ord = MBUS_BORDER_DCBA then mk16 (lo8 v) (hi8 v) else v)"
  unfolding to_set_uint16_def Let_def ucast_and_FF
  unfolding hi8_def [symmetric] lo8_def [symmetric]
  by (cases ord) (simp_all add: lo8_drop_bit)

lemma length_store16 [simp]: "length (store16 be w) = 2"
  by (simp add: store16_def)

end
