(* ===== verification/Mslave_File.thy ===== *)
theory Mslave_File
  imports Mbus_Order
begin

text \<open>
  Reading file records (function code 0x14) in \<^verbatim>\<open>src/modbus_rtu/modbus_slave/app_mslave.c\<close>: the
  queue of file buffers, at most one per file, their creation, ageing and lookup, and the
  handler that fills the response.  A buffer holds \<^verbatim>\<open>SZ_FREADING_BUFFER\<close> = 4056 bytes, that is
  2028 records of two bytes.

  The source fills new buffers with generated test data for a file of 0xFF00 bytes (the branch is
  compiled in); the model follows it.  The allocation of a buffer is assumed to succeed.
\<close>

section \<open>Buffers\<close>

definition SZ_FREADING_BUFFER :: nat where
  "SZ_FREADING_BUFFER = 4056"

record file_reading_info_pkt =
  ref_type :: u8
  file_no :: u16
  record_no :: u16
  record_len :: u16
  dtlen :: u8
  pkt_data :: bytes

text \<open>
  The filling loop of \<^verbatim>\<open>to_create_buf_node\<close>: the result is the data written from index
  \<^term>\<open>tpidx\<close> on.  The counters are 16 bits wide; \<^term>\<open>tpidx\<close> never exceeds 4056.
\<close>

function fill_buf :: "u8 \<Rightarrow> u16 \<Rightarrow> nat \<Rightarrow> bytes" where
  "fill_buf tpu8 tpcnt tpidx =
     (let tpu8' = tpu8 + 1; tpcnt' = tpcnt + 1; tpidx' = tpidx + 1 in
      if tpidx' \<ge> 4056 then [tpu8]
      else if unat tpcnt' \<ge> 0xFF00 then [tpu8]
      else tpu8 # fill_buf tpu8' tpcnt' tpidx')"
  by pat_completeness auto
termination
  by (relation "measure (\<lambda>(_, _, i). 4056 - i)") auto

definition to_create_buf_node :: "int \<Rightarrow> file_reading_info_pkt \<Rightarrow> ctr \<Rightarrow> freading_buffer option \<times> ctr" where
  "to_create_buf_node now pkt c =
     (let tpu8 = of_nat ((unat (record_no pkt) * 2) mod 0xFF);
          tpcnt = of_nat (unat (record_no pkt) * 2) :: u16 in
      if unat tpcnt \<ge> 0xFF00 then (None, c)
      else let dat = fill_buf tpu8 tpcnt 0; tpidx = length dat;
               node = \<lparr>file_len = 0xFF00, tstamp = now, buf_file_no = file_no pkt,
                       buf_record_no = record_no pkt,
                       buf_record_len = of_nat (tpidx div 2 + tpidx mod 2),
                       dtbuf = dat @ replicate (4056 - tpidx) 0\<rparr>
           in (Some node, c\<lparr>freading_buf_queue := freading_buf_queue c @ [node]\<rparr>))"

definition q_match_freading_buffer :: "u16 \<Rightarrow> freading_buffer \<Rightarrow> bool" where
  "q_match_freading_buffer kp_file_no b = (kp_file_no = buf_file_no b)"

definition to_find_buf_node :: "u16 \<Rightarrow> ctr \<Rightarrow> freading_buffer option" where
  "to_find_buf_node fno c = List.find (q_match_freading_buffer fno) (freading_buf_queue c)"

text \<open>
  \<^verbatim>\<open>to_release_buf_node\<close> removes the node found by the lookup, which is the first one of its file.
\<close>

fun remove_first :: "('a \<Rightarrow> bool) \<Rightarrow> 'a list \<Rightarrow> 'a list" where
  "remove_first P [] = []"
| "remove_first P (x # xs) = (if P x then xs else x # remove_first P xs)"

definition to_release_buf_node :: "u16 \<Rightarrow> ctr \<Rightarrow> error_code \<times> ctr" where
  "to_release_buf_node fno c =
     (if list_ex (q_match_freading_buffer fno) (freading_buf_queue c)
      then (ERR_NONE, c\<lparr>freading_buf_queue := remove_first (q_match_freading_buffer fno) (freading_buf_queue c)\<rparr>)
      else (ERR_API_FAIL, c))"

definition is_records_in_buffer_node :: "file_reading_info_pkt \<Rightarrow> freading_buffer \<Rightarrow> bool" where
  "is_records_in_buffer_node pkt b =
     (let tpu16a = buf_record_no b; tpu16b = buf_record_no b + buf_record_len b in
      if unat (buf_record_len b) < 4056 div 2
      then tpu16a \<le> record_no pkt \<and> record_no pkt < tpu16b
      else if unat (buf_record_len b) = 4056 div 2
      then tpu16a \<le> record_no pkt \<and> unat (record_no pkt) + unat (record_len pkt) < unat tpu16b
      else False)"

definition q_foreach_remove_buf_node :: "int \<Rightarrow> freading_buffer \<Rightarrow> bool" where
  "q_foreach_remove_buf_node kp_tval b = (kp_tval - tstamp b > 15)"

definition to_release_aging_buf_node :: "int \<Rightarrow> ctr \<Rightarrow> ctr" where
  "to_release_aging_buf_node now c =
     c\<lparr>freading_buf_queue := filter (\<lambda>b. \<not> q_foreach_remove_buf_node now b) (freading_buf_queue c)\<rparr>"

section \<open>Reading from a buffer\<close>

text \<open>First part of \<^verbatim>\<open>to_read_file_content\<close>: find or create a buffer that contains the records.\<close>

definition to_get_buf_node :: "int \<Rightarrow> file_reading_info_pkt \<Rightarrow> ctr \<Rightarrow> (error_code + freading_buffer) \<times> ctr" where
  "to_get_buf_node now pkt c =
     (case to_find_buf_node (file_no pkt) c of
        None \<Rightarrow>
          (case to_create_buf_node now pkt c of
             (None, c) \<Rightarrow> (Inl ERR_API_FAIL, c)
           | (Some b, c) \<Rightarrow>
               if is_records_in_buffer_node pkt b then (Inr b, c) else (Inl ERR_API_FAIL, c))
      | Some b \<Rightarrow>
          if is_records_in_buffer_node pkt b then (Inr b, c)
          else let (tpret, c) = to_release_buf_node (file_no pkt) c in
            if tpret \<noteq> ERR_NONE then (Inl tpret, c)
            else (case to_create_buf_node now pkt c of
               (None, c) \<Rightarrow> (Inl ERR_API_FAIL, c)
             | (Some b, c) \<Rightarrow>
                 if is_records_in_buffer_node pkt b then (Inr b, c) else (Inl ERR_API_FAIL, c)))"

text \<open>
  Second part: index and length of the copy.  Both are 16-bit variables, the data length of the
  packet has 8 bits.
\<close>

definition copy_len :: "file_reading_info_pkt \<Rightarrow> freading_buffer \<Rightarrow> u16 option" where
  "copy_len pkt b =
     (if unat (buf_record_len b) < 4056 div 2
      then if unat (record_no pkt) + unat (record_len pkt) > unat (buf_record_no b) + unat (buf_record_len b)
           then Some (of_int (((int (unat (buf_record_no b)) + int (unat (buf_record_len b))) - int (unat (record_no pkt))) * 2))
           else Some (of_nat (unat (record_len pkt) * 2))
      else if unat (buf_record_len b) = 4056 div 2 then Some (of_nat (unat (record_len pkt) * 2))
      else None)"

definition copy_idx :: "file_reading_info_pkt \<Rightarrow> freading_buffer \<Rightarrow> u16" where
  "copy_idx pkt b = of_int ((int (unat (record_no pkt)) - int (unat (buf_record_no b))) * 2)"

definition touch_buf :: "int \<Rightarrow> u16 \<Rightarrow> ctr \<Rightarrow> ctr" where
  "touch_buf now fno c =
     c\<lparr>freading_buf_queue := (case List.extract (q_match_freading_buffer fno) (freading_buf_queue c) of
         None \<Rightarrow> freading_buf_queue c
       | Some (xs, b, ys) \<Rightarrow> xs @ b\<lparr>tstamp := now\<rparr> # ys)\<rparr>"

definition to_read_file_content ::
    "int \<Rightarrow> file_reading_info_pkt \<Rightarrow> ctr \<Rightarrow> error_code \<times> file_reading_info_pkt \<times> ctr" where
  "to_read_file_content now pkt c =
     (let (res, c) = to_get_buf_node now pkt c;
          (tpret, pkt, c) =
            (case res of
               Inl err \<Rightarrow> (err, pkt, c)
             | Inr b \<Rightarrow>
                 (case copy_len pkt b of
                    None \<Rightarrow> (ERR_API_FAIL, pkt, c)
                  | Some tplen \<Rightarrow>
                      if 0 < unat tplen \<and> unat tplen \<le> 256
                      then (ERR_NONE,
                            pkt\<lparr>pkt_data := take (unat tplen) (drop (unat (copy_idx pkt b)) (dtbuf b)),
                                dtlen := ucast tplen\<rparr>,
                            touch_buf now (file_no pkt) c)
                      else (ERR_API_FAIL, pkt, c)))
      in (tpret, pkt, to_release_aging_buf_node now c))"

section \<open>The handler\<close>

text \<open>
  One turn of the loop over the sub-requests reads seven bytes of the request from position
  \<^term>\<open>3 + kp_cnt\<close>; the response so far is a byte list whose third byte, the length, is set at
  the end.  \<^verbatim>\<open>Inl\<close> is the exception code of the error exit.
\<close>

definition sub_request :: "bytes \<Rightarrow> nat \<Rightarrow> file_reading_info_pkt" where
  "sub_request pkt kp_cnt = \<lparr>
     ref_type = pkt ! (3 + kp_cnt),
     file_no = mk16 (pkt ! (4 + kp_cnt)) (pkt ! (5 + kp_cnt)),
     record_no = mk16 (pkt ! (6 + kp_cnt)) (pkt ! (7 + kp_cnt)),
     record_len = mk16 (pkt ! (8 + kp_cnt)) (pkt ! (9 + kp_cnt)),
     dtlen = 0, pkt_data = []\<rparr>"

function file_record_loop ::
    "int \<Rightarrow> bytes \<Rightarrow> nat \<Rightarrow> nat \<Rightarrow> bytes \<Rightarrow> ctr \<Rightarrow> (nat \<times> error_code + bytes) \<times> ctr" where
  "file_record_loop now pkt bcount kp_cnt rsp c =
     (if kp_cnt \<ge> bcount then (Inr rsp, c)
      else let q = sub_request pkt kp_cnt in
        if ref_type q \<noteq> 0x06 then (Inl (2, ERR_INVALID_PARAM), c)
        else if unat (record_no q) > 0x270F then (Inl (2, ERR_INVALID_PARAM), c)
        else (case to_read_file_content now q c of (tpret, q, c) \<Rightarrow>
          if tpret \<noteq> ERR_NONE then (Inl (4, ERR_INVALID_PARAM), c)
          else let rsp = rsp @ [dtlen q, 0x06] in
            if length rsp + unat (dtlen q) \<le> 256 - 2
            then file_record_loop now pkt bcount (kp_cnt + 7) (rsp @ take (unat (dtlen q)) (pkt_data q)) c
            else (Inl (2, ERR_INVALID_PARAM), c)))"
  by pat_completeness auto
termination
  by (relation "measure (\<lambda>(_, _, bcount, kp_cnt, _, _). bcount - kp_cnt)") auto

definition handler_for_fcode_read_file_record :: "env \<Rightarrow> bytes \<Rightarrow> nat \<Rightarrow> ctr \<Rightarrow> error_code \<times> ctr" where
  "handler_for_fcode_read_file_record e pkt len c =
     (let bcount = unat (pkt ! 2);
          err = (\<lambda>code tpret c. (tpret, app_mslave_inc_slave_exception_error_cnt
                    (snd (modbus_reply_exception e pkt code c)))) in
      if bcount < 0x07 \<or> bcount > 0xF5 then err 3 ERR_INVALID_PARAM c
      else if bcount mod 0x07 \<noteq> 0 then err 3 ERR_INVALID_PARAM c
      else case file_record_loop (tnow e) pkt bcount 0 [pkt ! 0, pkt ! 1, 0] c of
        (Inl (code, tpret), c) \<Rightarrow> err code tpret c
      | (Inr rsp, c) \<Rightarrow>
          let rsp = rsp[2 := of_nat (length rsp - 3)];
              (rc, c) = app_modbus_com_send_msg e rsp (length rsp) c in
          if rc < 0 then err 4 ERR_API_FAIL c else (ERR_NONE, c))"

section \<open>The queue of buffers\<close>

declare fill_buf.simps [simp del] file_record_loop.simps [simp del]

text \<open>
  Rule 1 of the header file: at most one buffer for each file.  Every buffer is full: it holds 2028
  records, and the records start at a number the request check admits.
\<close>

definition buf_ok :: "freading_buffer \<Rightarrow> bool" where
  "buf_ok b \<longleftrightarrow> length (dtbuf b) = 4056 \<and> unat (buf_record_len b) = 2028 \<and> unat (buf_record_no b) \<le> 0x270F"

definition bufs_ok :: "ctr \<Rightarrow> bool" where
  "bufs_ok c \<longleftrightarrow> (\<forall>b \<in> set (freading_buf_queue c). buf_ok b) \<and> distinct (map buf_file_no (freading_buf_queue c))"

lemma length_fill_buf:
  "i < 4056 \<Longrightarrow> unat t + (4056 - i) < 0xFF00 \<Longrightarrow> length (fill_buf v t i) = 4056 - i"
proof (induction v t i rule: fill_buf.induct)
  case (1 v t i)
  have t: "unat (t + 1) = unat t + 1"
    using 1(3) by (simp add: unat_word_ariths)
  show ?case
  proof (cases "i + 1 < 4056")
    case True
    have u: "unat t + 1 < 0xFF00" "unat (t + 1) + (4056 - (i + 1)) < 0xFF00"
      using 1(2,3) True t by linarith+
    have "length (fill_buf (v + 1) (t + 1) (i + 1)) = 4056 - (i + 1)"
      using 1(1) [OF refl refl refl] True u t by simp
    then show ?thesis
      using True u t by (subst fill_buf.simps) (auto simp: Let_def)
  next
    case False
    then show ?thesis using 1(2) by (subst fill_buf.simps) simp
  qed
qed

lemma create_buf_node_ok:
  assumes "unat (record_no pkt) \<le> 0x270F"
  shows "\<exists>b. to_create_buf_node now pkt c = (Some b, c\<lparr>freading_buf_queue := freading_buf_queue c @ [b]\<rparr>)
    \<and> buf_ok b \<and> buf_file_no b = file_no pkt \<and> buf_record_no b = record_no pkt \<and> tstamp b = now"
proof -
  let ?t = "of_nat (unat (record_no pkt) * 2) :: u16"
  have t: "unat ?t = unat (record_no pkt) * 2"
    using assms by (simp only: unat_of_nat) simp
  let ?d = "fill_buf (of_nat ((unat (record_no pkt) * 2) mod 0xFF)) ?t 0"
  have l: "length ?d = 4056"
    using assms t by (subst length_fill_buf) simp_all
  show ?thesis
    using t l assms unfolding to_create_buf_node_def Let_def by (simp add: buf_ok_def del: of_nat_mult)
qed

lemma remove_first_subset: "set (remove_first P xs) \<subseteq> set xs"
  by (induction xs) auto

lemma distinct_remove_first:
  "distinct (map f xs) \<Longrightarrow> distinct (map f (remove_first P xs))"
  using remove_first_subset by (induction xs) fastforce+

lemma remove_first_removes:
  "distinct (map buf_file_no xs) \<Longrightarrow>
   fno \<notin> buf_file_no ` set (remove_first (q_match_freading_buffer fno) xs)"
  by (induction xs) (auto simp: q_match_freading_buffer_def)

lemma find_buf_node_None:
  "to_find_buf_node fno c = None \<longleftrightarrow> fno \<notin> buf_file_no ` set (freading_buf_queue c)"
  by (auto simp: to_find_buf_node_def find_None_iff q_match_freading_buffer_def)

lemma find_buf_node_Some:
  "to_find_buf_node fno c = Some b \<Longrightarrow> b \<in> set (freading_buf_queue c) \<and> buf_file_no b = fno"
  by (auto simp: to_find_buf_node_def find_Some_iff q_match_freading_buffer_def)

lemma bufs_ok_append:
  "bufs_ok c \<Longrightarrow> buf_ok b \<Longrightarrow> buf_file_no b \<notin> buf_file_no ` set (freading_buf_queue c) \<Longrightarrow>
   bufs_ok (c\<lparr>freading_buf_queue := freading_buf_queue c @ [b]\<rparr>)"
  by (auto simp: bufs_ok_def)

lemma release_buf_node_ok:
  assumes "bufs_ok c" "to_find_buf_node fno c = Some b"
  shows "\<exists>c'. to_release_buf_node fno c = (ERR_NONE, c') \<and> bufs_ok c'
    \<and> fno \<notin> buf_file_no ` set (freading_buf_queue c')"
proof -
  have "list_ex (q_match_freading_buffer fno) (freading_buf_queue c)"
    using find_buf_node_Some [OF assms(2)] by (auto simp: list_ex_iff q_match_freading_buffer_def)
  then show ?thesis
    using assms(1) remove_first_removes [of "freading_buf_queue c" fno]
      remove_first_subset [of "q_match_freading_buffer fno" "freading_buf_queue c"]
    by (auto simp: to_release_buf_node_def bufs_ok_def distinct_remove_first)
qed

text \<open>The buffer that is read from: a good buffer of the right file that contains the records.\<close>

lemma get_buf_node_ok:
  assumes "bufs_ok c" "unat (record_no pkt) \<le> 0x270F" "to_get_buf_node now pkt c = (res, c')"
  shows "bufs_ok c' \<and> (case res of Inl err \<Rightarrow> err \<noteq> ERR_NONE
    | Inr b \<Rightarrow> buf_ok b \<and> buf_file_no b = file_no pkt \<and> is_records_in_buffer_node pkt b)"
proof (cases "to_find_buf_node (file_no pkt) c")
  case None
  obtain b where b: "to_create_buf_node now pkt c = (Some b, c\<lparr>freading_buf_queue := freading_buf_queue c @ [b]\<rparr>)"
    "buf_ok b" "buf_file_no b = file_no pkt"
    using create_buf_node_ok [OF assms(2)] by blast
  then have "bufs_ok (c\<lparr>freading_buf_queue := freading_buf_queue c @ [b]\<rparr>)"
    using assms(1) None by (intro bufs_ok_append) (auto simp: find_buf_node_None)
  then show ?thesis
    using assms(3) None b by (auto simp: to_get_buf_node_def split: if_splits)
next
  case (Some b)
  show ?thesis
  proof (cases "is_records_in_buffer_node pkt b")
    case True
    then show ?thesis
      using assms Some find_buf_node_Some [OF Some] by (auto simp: to_get_buf_node_def bufs_ok_def)
  next
    case False
    obtain c1 where c1: "to_release_buf_node (file_no pkt) c = (ERR_NONE, c1)" "bufs_ok c1"
      "file_no pkt \<notin> buf_file_no ` set (freading_buf_queue c1)"
      using release_buf_node_ok [OF assms(1) Some] by blast
    obtain b' where b': "to_create_buf_node now pkt c1 = (Some b', c1\<lparr>freading_buf_queue := freading_buf_queue c1 @ [b']\<rparr>)"
      "buf_ok b'" "buf_file_no b' = file_no pkt"
      using create_buf_node_ok [OF assms(2)] by blast
    then have "bufs_ok (c1\<lparr>freading_buf_queue := freading_buf_queue c1 @ [b']\<rparr>)"
      using c1 by (intro bufs_ok_append) auto
    then show ?thesis
      using assms(3) Some False c1(1) b' by (auto simp: to_get_buf_node_def split: if_splits)
  qed
qed

text \<open>The copy stays inside the buffer.\<close>

lemma copy_in_bounds:
  assumes "buf_ok b" "is_records_in_buffer_node pkt b" "copy_len pkt b = Some tplen"
  shows "unat (copy_idx pkt b) + unat tplen \<le> 4056 \<and> unat tplen = 2 * unat (record_len pkt)"
proof -
  let ?r = "unat (record_no pkt)" and ?n = "unat (record_len pkt)" and ?s = "unat (buf_record_no b)"
  have b: "unat (buf_record_len b) = 2028" "?s \<le> 0x270F" using assms(1) by (auto simp: buf_ok_def)
  have "unat (buf_record_no b + buf_record_len b) = ?s + 2028"
    using b by (simp add: unat_word_ariths)
  then have r: "?s \<le> ?r" "?r + ?n < ?s + 2028"
    using assms(2) b by (auto simp: is_records_in_buffer_node_def Let_def word_le_nat_alt)
  have l: "unat tplen = 2 * ?n"
    using assms(3) b r by (auto simp: copy_len_def unat_of_nat simp del: of_nat_mult)
  have "copy_idx pkt b = of_nat ((?r - ?s) * 2)"
    using r by (simp add: copy_idx_def of_nat_diff)
  then have "unat (copy_idx pkt b) = (?r - ?s) * 2"
    using r by (simp only: unat_of_nat) simp
  then show ?thesis using l r by simp
qed

lemma touch_buf_ok: "bufs_ok c \<Longrightarrow> bufs_ok (touch_buf now fno c)"
proof -
  have "map buf_file_no (freading_buf_queue (touch_buf now fno c)) = map buf_file_no (freading_buf_queue c)"
    by (auto simp: touch_buf_def extract_Some_iff split: option.splits)
  moreover assume "bufs_ok c"
  moreover then have "\<forall>b \<in> set (freading_buf_queue (touch_buf now fno c)). buf_ok b"
    by (auto simp: touch_buf_def bufs_ok_def buf_ok_def extract_Some_iff split: option.splits)
  ultimately show ?thesis by (simp add: bufs_ok_def)
qed

lemma aging_ok: "bufs_ok c \<Longrightarrow> bufs_ok (to_release_aging_buf_node now c)"
  by (auto simp: to_release_aging_buf_node_def bufs_ok_def distinct_map_filter)

lemma read_file_content_inv:
  assumes "bufs_ok c" "unat (record_no pkt) \<le> 0x270F"
    and "to_read_file_content now pkt c = (tpret, pkt', c')"
  shows "bufs_ok c' \<and> (tpret = ERR_NONE \<longrightarrow>
     1 \<le> unat (record_len pkt) \<and> unat (record_len pkt) \<le> 128
     \<and> length (pkt_data pkt') = 2 * unat (record_len pkt)
     \<and> dtlen pkt' = of_nat (2 * unat (record_len pkt)))"
proof -
  obtain res c1 where g: "to_get_buf_node now pkt c = (res, c1)" by (metis surj_pair)
  note ok = get_buf_node_ok [OF assms(1,2) g]
  show ?thesis
  proof (cases res)
    case (Inl err)
    then show ?thesis
      using assms(3) ok g by (auto simp: to_read_file_content_def aging_ok)
  next
    case (Inr b)
    then have b: "buf_ok b" "is_records_in_buffer_node pkt b" "bufs_ok c1" using ok by auto
    obtain tplen where t: "copy_len pkt b = Some tplen"
      using b(1) by (auto simp: copy_len_def buf_ok_def)
    note cp = copy_in_bounds [OF b(1,2) t]
    have d: "length (dtbuf b) = 4056" using b(1) by (simp add: buf_ok_def)
    have ucast_tplen: "(ucast tplen :: u8) = of_nat (unat tplen)" by simp
    have "(ucast tplen :: u8) = of_nat (2 * unat (record_len pkt))"
      using cp by (simp only: ucast_tplen)
    then show ?thesis
      using assms(3) b t cp d
      by (auto simp: to_read_file_content_def g Inr aging_ok touch_buf_ok split: if_splits)
  qed
qed

lemma fresh_buf_in:
  assumes "buf_ok b" "buf_record_no b = record_no pkt" "unat (record_len pkt) \<le> 128"
  shows "is_records_in_buffer_node pkt b"
proof -
  have b: "unat (buf_record_len b) = 2028" "unat (record_no pkt) \<le> 0x270F"
    using assms by (auto simp: buf_ok_def)
  then have "unat (record_no pkt + buf_record_len b) = unat (record_no pkt) + 2028"
    by (simp add: unat_word_ariths)
  then show ?thesis
    using assms b by (simp add: is_records_in_buffer_node_def Let_def)
qed

lemma get_buf_node_Inr:
  assumes "bufs_ok c" "unat (record_no pkt) \<le> 0x270F" "unat (record_len pkt) \<le> 128"
  shows "\<exists>b c'. to_get_buf_node now pkt c = (Inr b, c')"
proof -
  have new: "\<exists>b c'. to_create_buf_node now pkt d = (Some b, c') \<and> is_records_in_buffer_node pkt b" for d
    using create_buf_node_ok [OF assms(2), of now d] fresh_buf_in [OF _ _ assms(3)] by blast
  show ?thesis
  proof (cases "to_find_buf_node (file_no pkt) c")
    case None
    then show ?thesis using new [of c] by (auto simp: to_get_buf_node_def)
  next
    case (Some b)
    obtain c1 where "to_release_buf_node (file_no pkt) c = (ERR_NONE, c1)"
      using release_buf_node_ok [OF assms(1) Some] by blast
    then show ?thesis using Some new [of c1] by (auto simp: to_get_buf_node_def)
  qed
qed

lemma read_file_content_succeeds:
  assumes "bufs_ok c" "unat (record_no pkt) \<le> 0x270F"
    "1 \<le> unat (record_len pkt)" "unat (record_len pkt) \<le> 128"
  shows "fst (to_read_file_content now pkt c) = ERR_NONE"
proof -
  obtain b c1 where g: "to_get_buf_node now pkt c = (Inr b, c1)"
    using get_buf_node_Inr [OF assms(1,2,4)] by blast
  have b: "buf_ok b" "is_records_in_buffer_node pkt b"
    using get_buf_node_ok [OF assms(1,2) g] by auto
  obtain tplen where t: "copy_len pkt b = Some tplen"
    using b(1) by (auto simp: copy_len_def buf_ok_def)
  show ?thesis
    using copy_in_bounds [OF b t] assms(3,4) by (simp add: to_read_file_content_def g t)
qed

text \<open>
  reading file records succeeds exactly for 1 to 128 records.  It keeps the queue of file buffers
  in order (one full buffer for each file), and a successful read delivers exactly two bytes for each
  record asked for, taken from inside the buffer.  The length it reports has 8 bits, so 128 records
  are reported as 0 bytes.
\<close>

theorem read_file_content_ok:
  assumes "bufs_ok c" "unat (record_no pkt) \<le> 0x270F"
    and "to_read_file_content now pkt c = (tpret, pkt', c')"
  shows "bufs_ok c' \<and> (tpret = ERR_NONE \<longleftrightarrow> 1 \<le> unat (record_len pkt) \<and> unat (record_len pkt) \<le> 128)
     \<and> (tpret = ERR_NONE \<longrightarrow> length (pkt_data pkt') = 2 * unat (record_len pkt)
     \<and> dtlen pkt' = of_nat (2 * unat (record_len pkt)))"
  using read_file_content_inv [OF assms] read_file_content_succeeds [OF assms(1,2), of now] assms(3)
  by auto

theorem read_file_content_ok_witness:
  "fst (to_read_file_content 0
     \<lparr>ref_type = 6, file_no = 1, record_no = 5, record_len = 128, dtlen = 0, pkt_data = []\<rparr> init_ctr) = ERR_NONE
   \<and> dtlen (fst (snd (to_read_file_content 0
     \<lparr>ref_type = 6, file_no = 1, record_no = 5, record_len = 128, dtlen = 0, pkt_data = []\<rparr> init_ctr))) = 0"
proof -
  let ?p = "\<lparr>ref_type = 6, file_no = 1, record_no = 5, record_len = 128, dtlen = 0, pkt_data = []\<rparr>"
  let ?r = "to_read_file_content 0 ?p init_ctr"
  have "bufs_ok init_ctr" by (simp add: bufs_ok_def init_ctr_def g_mslave_ctr_def)
  then show ?thesis
    using read_file_content_ok [of init_ctr ?p 0 "fst ?r" "fst (snd ?r)" "snd (snd ?r)"] by simp
qed

section \<open>The response to a file request\<close>

lemma create_buf_node_frame: "\<exists>q. snd (to_create_buf_node now pkt c) = c\<lparr>freading_buf_queue := q\<rparr>"
proof (cases "unat (of_nat (unat (record_no pkt) * 2) :: u16) \<ge> 0xFF00")
  case True
  then have "snd (to_create_buf_node now pkt c) = c\<lparr>freading_buf_queue := freading_buf_queue c\<rparr>"
    by (simp add: to_create_buf_node_def Let_def)
  then show ?thesis by blast
next
  case False
  then show ?thesis by (simp add: to_create_buf_node_def Let_def) blast
qed

definition only_bufs :: "ctr \<Rightarrow> ctr \<Rightarrow> bool" where
  "only_bufs c c' \<longleftrightarrow> c'\<lparr>freading_buf_queue := []\<rparr> = c\<lparr>freading_buf_queue := []\<rparr>"

lemma only_bufs_refl: "only_bufs c c"
  by (simp add: only_bufs_def)

lemma only_bufs_trans: "only_bufs c d \<Longrightarrow> only_bufs d f \<Longrightarrow> only_bufs c f"
  by (simp add: only_bufs_def)

lemma only_bufs_update: "only_bufs c (c\<lparr>freading_buf_queue := q\<rparr>)"
  by (simp add: only_bufs_def)

lemma only_bufs_create: "only_bufs c (snd (to_create_buf_node now pkt c))"
  using create_buf_node_frame [of now pkt c] by (auto simp: only_bufs_def)

lemma only_bufs_release: "only_bufs c (snd (to_release_buf_node fno c))"
  by (simp add: to_release_buf_node_def only_bufs_def)

lemma only_bufs_get: "only_bufs c (snd (to_get_buf_node now pkt c))"
proof -
  have cr: "to_create_buf_node now pkt c = (r, c') \<Longrightarrow> only_bufs c c'" for c r c'
    by (metis only_bufs_create snd_conv)
  have re: "to_release_buf_node fno c = (r, c') \<Longrightarrow> only_bufs c c'" for c r c' fno
    by (metis only_bufs_release snd_conv)
  show ?thesis
    unfolding to_get_buf_node_def Let_def
    by (auto split: option.splits prod.splits simp: only_bufs_refl dest!: cr re intro: only_bufs_trans)
qed

lemma only_bufs_read: "only_bufs c (snd (snd (to_read_file_content now pkt c)))"
proof -
  obtain res c1 where g: "to_get_buf_node now pkt c = (res, c1)" by (metis surj_pair)
  then have "only_bufs c c1" using only_bufs_get [of c now pkt] by simp
  moreover have "only_bufs c2 (to_release_aging_buf_node now c2)" for c2
    by (simp add: to_release_aging_buf_node_def only_bufs_def)
  moreover have "only_bufs c2 (touch_buf now fno c2)" for c2 fno
    by (simp add: touch_buf_def only_bufs_def)
  ultimately show ?thesis
    unfolding to_read_file_content_def g
    by (auto split: sum.splits option.splits) (blast intro: only_bufs_trans)+
qed

lemma file_record_loop_ok:
  assumes "bufs_ok c" "length rsp \<le> 254" "file_record_loop now pkt bcount k rsp c = (res, c')"
  shows "bufs_ok c' \<and> only_bufs c c' \<and> (\<forall>code tpret. res = Inl (code, tpret) \<longrightarrow> code \<in> {2, 4})
    \<and> (\<forall>rsp'. res = Inr rsp' \<longrightarrow> length rsp' \<le> 254 \<and> (\<exists>ys. rsp' = rsp @ ys))"
  using assms
proof (induction now pkt bcount k rsp c rule: file_record_loop.induct)
  case (1 now pkt bcount k rsp c)
  let ?q = "sub_request pkt k"
  show ?case
  proof (cases "bcount \<le> k \<or> ref_type ?q \<noteq> 6 \<or> unat (record_no ?q) > 0x270F")
    case True
    then show ?thesis
      using "1.prems" by (auto simp: file_record_loop.simps [of now pkt bcount k rsp c] only_bufs_refl Let_def split: if_splits)
  next
    case False
    obtain tp q' c1 where r: "to_read_file_content now ?q c = (tp, q', c1)" by (metis prod_cases3)
    have ok: "bufs_ok c1" "only_bufs c c1"
      using read_file_content_inv [OF "1.prems"(1) _ r] False only_bufs_read [of c now ?q] r by auto
    let ?r = "rsp @ [dtlen q', 6]"
    let ?rr = "?r @ take (unat (dtlen q')) (pkt_data q')"
    show ?thesis
    proof (cases "tp = ERR_NONE \<and> length ?r + unat (dtlen q') \<le> 254")
      case True
      have rec: "file_record_loop now pkt bcount (k + 7) ?rr c1 = (res, c')"
        using "1.prems"(3) False True r by (simp add: file_record_loop.simps [of now pkt bcount k rsp c] Let_def)
      have len: "length ?rr \<le> 254"
        using True by (auto simp: min_def)
      have "bufs_ok c' \<and> only_bufs c1 c' \<and> (\<forall>code tpret. res = Inl (code, tpret) \<longrightarrow> code \<in> {2, 4})
        \<and> (\<forall>rsp'. res = Inr rsp' \<longrightarrow> length rsp' \<le> 254 \<and> (\<exists>ys. rsp' = ?rr @ ys))"
        using False True r by (intro "1.IH" [OF _ refl _ _ r [symmetric] refl _ refl _ ok(1) len rec]) auto
      then show ?thesis
        using ok(2) by (fastforce intro: only_bufs_trans)
    next
      case False': False
      then have "res = Inl (4, ERR_INVALID_PARAM) \<or> res = Inl (2, ERR_INVALID_PARAM)" "c' = c1"
        using "1.prems"(3) False r by (auto simp: file_record_loop.simps [of now pkt bcount k rsp c] Let_def split: if_splits)
      then show ?thesis using ok by auto
    qed
  qed
qed

end
