(* ===== verification/Mslave_Handlers.thy ===== *)
theory Mslave_Handlers
  imports Mslave_Mapping Mslave_File
begin

text \<open>
  The request handlers of the Modbus slave and its main loop (\<^verbatim>\<open>app_mslave_mloop\<close> in
  \<^verbatim>\<open>src/modbus_rtu/modbus_slave/app_mslave.c\<close>).  A handler takes the environment, the receive
  buffer of 256 bytes and the number of bytes received, and returns the error code of the source
  with the new controller.  One turn of the main loop is \<^verbatim>\<open>mloop_step\<close>; the loop itself is the
  relation of all sequences of turns.
\<close>

section \<open>Validation\<close>

text \<open>\<^verbatim>\<open>modbus_get_slave\<close> is -1 without a context.  The length parameter has 8 bits.\<close>

definition modbus_get_slave :: "modbus_t option \<Rightarrow> int" where
  "modbus_get_slave ctx = (case ctx of None \<Rightarrow> - 1 | Some m \<Rightarrow> ctx_slave m)"

definition app_mslave_validate_pkt :: "bytes \<Rightarrow> u8 \<Rightarrow> ctr \<Rightarrow> error_code \<times> ctr" where
  "app_mslave_validate_pkt msg len c =
     (if len < 4 then (ERR_INVALID_PARAM, c)
      else if int (unat (msg ! 0)) \<noteq> modbus_get_slave (app_mslave_get_mctx c) then (EMBXSFAIL, c)
      else let tp_crc_calculated = util_tool_cal_crc16 (take (unat len - 2) msg);
               tp_crc_received = mk16 (msg ! (unat len - 1)) (msg ! (unat len - 2)) in
      if tp_crc_calculated \<noteq> tp_crc_received then (EMBBADCRC, app_mslave_inc_bus_comm_error_cnt c)
      else if \<not> is_fun_code_for_reading (msg ! 1) then (EMBXILFUN, c)
      else (ERR_NONE, c))"

section \<open>Reading coils and registers\<close>

text \<open>An exception reply that is counted.\<close>

definition reply_exception_counted :: "env \<Rightarrow> bytes \<Rightarrow> nat \<Rightarrow> ctr \<Rightarrow> ctr" where
  "reply_exception_counted e pkt code c =
     app_mslave_inc_slave_exception_error_cnt (snd (modbus_reply_exception e pkt code c))"

text \<open>
  In the four handlers the exit taken when no mapping is found skips the statement that counts
  the exception; the return code after a normal reply is still \<^verbatim>\<open>ERR_UNKNOWN\<close>.
\<close>

definition handler_for_fcode_read_coils :: "env \<Rightarrow> bytes \<Rightarrow> nat \<Rightarrow> ctr \<Rightarrow> error_code \<times> ctr" where
  "handler_for_fcode_read_coils e pkt len c =
     (let kp_starting_addr = app_mslave_pick_starting_address pkt len;
          kp_quantity = app_mslave_pick_quantity pkt len in
      if kp_quantity = 0 \<or> unat kp_quantity > 0x07D0 then (EMBXILVAL, reply_exception_counted e pkt 3 c)
      else if unat kp_starting_addr + unat kp_quantity > 0xFFFF
      then (EMBXILADD, reply_exception_counted e pkt 2 c)
      else case app_mslave_locate_mapping c kp_starting_addr ADDR_GP_COIL of
        None \<Rightarrow> (EMBXILADD, snd (modbus_reply_exception e pkt 2 c))
      | Some i \<Rightarrow>
          let (errno, c) = modbus_reply e pkt (mapping_queue c ! i) c in
          (ERR_UNKNOWN, if errno then app_mslave_inc_slave_exception_error_cnt c else c))"

definition handler_for_fcode_read_discrete_inputs :: "env \<Rightarrow> bytes \<Rightarrow> nat \<Rightarrow> ctr \<Rightarrow> error_code \<times> ctr" where
  "handler_for_fcode_read_discrete_inputs e pkt len c =
     (let kp_starting_addr = app_mslave_pick_starting_address pkt len;
          kp_quantity = app_mslave_pick_quantity pkt len in
      if kp_quantity = 0 \<or> unat kp_quantity > 0x07D0 then (EMBXILVAL, reply_exception_counted e pkt 3 c)
      else if unat kp_starting_addr + unat kp_quantity > 0xFFFF
      then (EMBXILADD, reply_exception_counted e pkt 2 c)
      else case app_mslave_locate_mapping c kp_starting_addr ADDR_GP_DISCRETE_INPUT of
        None \<Rightarrow> (EMBXILADD, snd (modbus_reply_exception e pkt 2 c))
      | Some i \<Rightarrow>
          let (errno, c) = modbus_reply e pkt (mapping_queue c ! i) c in
          (ERR_UNKNOWN, if errno then app_mslave_inc_slave_exception_error_cnt c else c))"

text \<open>The input register handler tests \<^verbatim>\<open>0 != 0\<close> instead of \<^verbatim>\<open>errno\<close>.\<close>

definition handler_for_fcode_read_inputs_registers :: "env \<Rightarrow> bytes \<Rightarrow> nat \<Rightarrow> ctr \<Rightarrow> error_code \<times> ctr" where
  "handler_for_fcode_read_inputs_registers e pkt len c =
     (let kp_starting_addr = app_mslave_pick_starting_address pkt len;
          kp_quantity = app_mslave_pick_quantity pkt len in
      if kp_quantity = 0 \<or> unat kp_quantity > 0x007D then (EMBXILVAL, reply_exception_counted e pkt 3 c)
      else if unat kp_starting_addr + unat kp_quantity > 0xFFFF
      then (EMBXILADD, reply_exception_counted e pkt 2 c)
      else case app_mslave_locate_mapping c kp_starting_addr ADDR_GP_INPUT_REGISTER of
        None \<Rightarrow> (EMBXILADD, snd (modbus_reply_exception e pkt 2 c))
      | Some i \<Rightarrow>
          let (errno, c) = modbus_reply e pkt (mapping_queue c ! i) c in (ERR_UNKNOWN, c))"

definition handler_for_fcode_read_holding_registers :: "env \<Rightarrow> bytes \<Rightarrow> nat \<Rightarrow> ctr \<Rightarrow> error_code \<times> ctr" where
  "handler_for_fcode_read_holding_registers e pkt len c =
     (let kp_starting_addr = app_mslave_pick_starting_address pkt len;
          kp_quantity = app_mslave_pick_quantity pkt len in
      if kp_quantity = 0 \<or> unat kp_quantity > 0x007D then (EMBXILVAL, reply_exception_counted e pkt 3 c)
      else if unat kp_starting_addr + unat kp_quantity > 0xFFFF
      then (EMBXILADD, reply_exception_counted e pkt 2 c)
      else case app_mslave_locate_mapping c kp_starting_addr ADDR_GP_HOLDING_REGISTER of
        None \<Rightarrow> (EMBXILADD, snd (modbus_reply_exception e pkt 2 c))
      | Some i \<Rightarrow>
          let (errno, c) = modbus_reply e pkt (mapping_queue c ! i) c in
          (ERR_UNKNOWN, if errno then app_mslave_inc_slave_exception_error_cnt c else c))"

section \<open>Diagnostics\<close>

text \<open>Echo of the request without its checksum.\<close>

definition diag_echo :: "env \<Rightarrow> bytes \<Rightarrow> nat \<Rightarrow> ctr \<Rightarrow> ctr" where
  "diag_echo e pkt len c =
     (let kp_dtlen = len - 2 in snd (app_modbus_com_send_msg e (take kp_dtlen pkt) kp_dtlen c))"

text \<open>
  Reply with one 16-bit value: the four header bytes of the request, then the value in the byte
  order of the slave, stored through a \<^verbatim>\<open>uint16_t\<close> pointer.
\<close>

definition diag_value :: "env \<Rightarrow> bytes \<Rightarrow> u16 \<Rightarrow> ctr \<Rightarrow> ctr" where
  "diag_value e pkt tpu16 c =
     snd (app_modbus_com_send_msg e
       ([pkt ! 0, pkt ! 1, pkt ! 2, pkt ! 3]
        @ store16 (big_endian e) (to_set_uint16 (app_mslave_get_mbus_border c) tpu16)) 6 c)"

definition diag_restart :: "env \<Rightarrow> bytes \<Rightarrow> nat \<Rightarrow> ctr \<Rightarrow> ctr" where
  "diag_restart e pkt len c =
     (let c = app_mslave_clear_state_set c; c = snd (app_mslave_set_mode SMODE_ACTIVE c)
      in diag_echo e pkt len c)"

definition diag_ret_diag_reg :: "env \<Rightarrow> bytes \<Rightarrow> ctr \<Rightarrow> ctr" where
  "diag_ret_diag_reg e pkt c = diag_value e pkt (app_mslave_get_diagnostic_register c) c"

definition diag_change_delimiter :: "env \<Rightarrow> bytes \<Rightarrow> nat \<Rightarrow> ctr \<Rightarrow> ctr" where
  "diag_change_delimiter e pkt len c = diag_echo e pkt len (c\<lparr>ch_input_delimiter := pkt ! 4\<rparr>)"

definition diag_force_listen :: "ctr \<Rightarrow> ctr" where
  "diag_force_listen c = snd (app_mslave_set_mode SMODE_LISTEN_ONLY c)"

definition diag_clear :: "env \<Rightarrow> bytes \<Rightarrow> nat \<Rightarrow> ctr \<Rightarrow> ctr" where
  "diag_clear e pkt len c = diag_echo e pkt len (app_mslave_clear_state_set c)"

definition diag_ret_bus_msg_cnt :: "env \<Rightarrow> bytes \<Rightarrow> ctr \<Rightarrow> ctr" where
  "diag_ret_bus_msg_cnt e pkt c = diag_value e pkt (app_mslave_get_bus_msg_cnt c) c"

definition diag_ret_bus_com_err_cnt :: "env \<Rightarrow> bytes \<Rightarrow> ctr \<Rightarrow> ctr" where
  "diag_ret_bus_com_err_cnt e pkt c = diag_value e pkt (app_mslave_get_bus_comm_error_cnt c) c"

definition diag_ret_except_err_cnt :: "env \<Rightarrow> bytes \<Rightarrow> ctr \<Rightarrow> ctr" where
  "diag_ret_except_err_cnt e pkt c = diag_value e pkt (app_mslave_get_slave_exception_error_cnt c) c"

definition diag_ret_server_msg_cnt :: "env \<Rightarrow> bytes \<Rightarrow> ctr \<Rightarrow> ctr" where
  "diag_ret_server_msg_cnt e pkt c = diag_value e pkt (app_mslave_get_slave_msg_cnt c) c"

definition diag_ret_no_resp_cnt :: "env \<Rightarrow> bytes \<Rightarrow> ctr \<Rightarrow> ctr" where
  "diag_ret_no_resp_cnt e pkt c = diag_value e pkt (app_mslave_get_slave_no_resp_cnt c) c"

definition diag_ret_nak_cnt :: "env \<Rightarrow> bytes \<Rightarrow> ctr \<Rightarrow> ctr" where
  "diag_ret_nak_cnt e pkt c = diag_value e pkt (app_mslave_get_slave_nak_cnt c) c"

definition diag_ret_busy_cnt :: "env \<Rightarrow> bytes \<Rightarrow> ctr \<Rightarrow> ctr" where
  "diag_ret_busy_cnt e pkt c = diag_value e pkt (app_mslave_get_slave_busy_cnt c) c"

definition diag_ret_charac_overrun_cnt :: "env \<Rightarrow> bytes \<Rightarrow> ctr \<Rightarrow> ctr" where
  "diag_ret_charac_overrun_cnt e pkt c = diag_value e pkt (app_mslave_get_slave_bus_charac_overrun_cnt c) c"

definition handler_for_fcode_diagnostics :: "env \<Rightarrow> bytes \<Rightarrow> nat \<Rightarrow> ctr \<Rightarrow> error_code \<times> ctr" where
  "handler_for_fcode_diagnostics e pkt len c =
     (let kp_sfcode = to_pick_sub_fcode_for_disagnostic pkt len in
      if kp_sfcode = 0x0000 then (ERR_NONE, diag_echo e pkt len c)
      else if kp_sfcode = 0x0001 then (ERR_NONE, diag_restart e pkt len c)
      else if kp_sfcode = 0x0002 then (ERR_NONE, diag_ret_diag_reg e pkt c)
      else if kp_sfcode = 0x0003 then (ERR_NONE, diag_change_delimiter e pkt len c)
      else if kp_sfcode = 0x0004 then (ERR_NONE, diag_force_listen c)
      else if kp_sfcode = 0x000A then (ERR_NONE, diag_clear e pkt len c)
      else if kp_sfcode = 0x000B then (ERR_NONE, diag_ret_bus_msg_cnt e pkt c)
      else if kp_sfcode = 0x000C then (ERR_NONE, diag_ret_bus_com_err_cnt e pkt c)
      else if kp_sfcode = 0x000D then (ERR_NONE, diag_ret_except_err_cnt e pkt c)
      else if kp_sfcode = 0x000E then (ERR_NONE, diag_ret_server_msg_cnt e pkt c)
      else if kp_sfcode = 0x000F then (ERR_NONE, diag_ret_no_resp_cnt e pkt c)
      else if kp_sfcode = 0x0010 then (ERR_NONE, diag_ret_nak_cnt e pkt c)
      else if kp_sfcode = 0x0011 then (ERR_NONE, diag_ret_busy_cnt e pkt c)
      else if kp_sfcode = 0x0012 then (ERR_NONE, diag_ret_charac_overrun_cnt e pkt c)
      else if kp_sfcode = 0x0014 then (ERR_NONE, diag_echo e pkt len c)
      else (EMBXILFUN, reply_exception_counted e pkt 1 c))"

definition handle_for_restart_com_option_in_listen_mode :: "bytes \<Rightarrow> nat \<Rightarrow> ctr \<Rightarrow> error_code \<times> ctr" where
  "handle_for_restart_com_option_in_listen_mode pkt len c =
     (if app_mslave_pick_fun_code pkt len \<noteq> 0x08 then (ERR_NONE, c)
      else if to_pick_sub_fcode_for_disagnostic pkt len \<noteq> 0x0001 then (ERR_NONE, c)
      else (ERR_NONE, snd (app_mslave_set_mode SMODE_ACTIVE (app_mslave_clear_state_set c))))"

section \<open>The remaining handlers\<close>

definition handler_for_fcode_report_slave_id :: "env \<Rightarrow> bytes \<Rightarrow> nat \<Rightarrow> ctr \<Rightarrow> error_code \<times> ctr" where
  "handler_for_fcode_report_slave_id e pkt len c = (ERR_API_FAIL, reply_exception_counted e pkt 1 c)"

definition handler_for_fcode_read_exception_status :: "env \<Rightarrow> bytes \<Rightarrow> nat \<Rightarrow> ctr \<Rightarrow> error_code \<times> ctr" where
  "handler_for_fcode_read_exception_status e pkt len c =
     (ERR_NONE, snd (app_modbus_com_send_msg e
        [pkt ! 0, pkt ! 1, app_mslave_get_exception_status c] 3 c))"

definition handler_for_fcode_read_fifo_queue :: "env \<Rightarrow> bytes \<Rightarrow> nat \<Rightarrow> ctr \<Rightarrow> error_code \<times> ctr" where
  "handler_for_fcode_read_fifo_queue e pkt len c = (ERR_API_FAIL, reply_exception_counted e pkt 1 c)"

definition handler_for_fcode_get_comm_event_cnt :: "env \<Rightarrow> bytes \<Rightarrow> nat \<Rightarrow> ctr \<Rightarrow> error_code \<times> ctr" where
  "handler_for_fcode_get_comm_event_cnt e pkt len c =
     (ERR_NONE, snd (app_modbus_com_send_msg e
        ([pkt ! 0, pkt ! 1, 0, 0]
         @ store16 (big_endian e) (to_set_uint16 (app_mslave_get_mbus_border c) (app_mslave_get_comm_event_cnt c))) 6 c))"

definition handler_for_fcode_get_comm_event_log :: "env \<Rightarrow> bytes \<Rightarrow> nat \<Rightarrow> ctr \<Rightarrow> error_code \<times> ctr" where
  "handler_for_fcode_get_comm_event_log e pkt len c =
     (let log = app_mslave_get_comm_event_log c in
      (ERR_NONE, snd (app_modbus_com_send_msg e
        ([pkt ! 0, pkt ! 1, of_nat (length log + 3 * 2), 0, 0]
         @ store16 (big_endian e) (to_set_uint16 (app_mslave_get_mbus_border c) (app_mslave_get_comm_event_cnt c))
         @ log) (7 + length log) c)))"

definition handler_for_fcode_read_dev_id :: "env \<Rightarrow> bytes \<Rightarrow> nat \<Rightarrow> ctr \<Rightarrow> error_code \<times> ctr" where
  "handler_for_fcode_read_dev_id e pkt len c = (ERR_API_FAIL, snd (modbus_reply_exception e pkt 1 c))"

section \<open>The main loop\<close>

definition dispatch :: "env \<Rightarrow> bytes \<Rightarrow> nat \<Rightarrow> ctr \<Rightarrow> ctr" where
  "dispatch e msg tpint c =
     (let kp_fcode = app_mslave_pick_fun_code msg tpint in
      if kp_fcode = 0x01 then snd (handler_for_fcode_read_coils e msg tpint c)
      else if kp_fcode = 0x02 then snd (handler_for_fcode_read_discrete_inputs e msg tpint c)
      else if kp_fcode = 0x04 then snd (handler_for_fcode_read_inputs_registers e msg tpint c)
      else if kp_fcode = 0x03 then snd (handler_for_fcode_read_holding_registers e msg tpint c)
      else if kp_fcode = 0x11 then snd (handler_for_fcode_report_slave_id e msg tpint c)
      else if kp_fcode = 0x07 then snd (handler_for_fcode_read_exception_status e msg tpint c)
      else if kp_fcode = 0x18 then snd (handler_for_fcode_read_fifo_queue e msg tpint c)
      else if kp_fcode = 0x14 then snd (handler_for_fcode_read_file_record e msg tpint c)
      else if kp_fcode = 0x08 then snd (handler_for_fcode_diagnostics e msg tpint c)
      else if kp_fcode = 0x0B then snd (handler_for_fcode_get_comm_event_cnt e msg tpint c)
      else if kp_fcode = 0x0C then snd (handler_for_fcode_get_comm_event_log e msg tpint c)
      else if kp_fcode = 0x2B then snd (handler_for_fcode_read_dev_id e msg tpint c)
      else reply_exception_counted e msg 1 c)"

text \<open>
  The receive buffer is cleared before \<^verbatim>\<open>modbus_receive\<close> fills its beginning.  A receive that
  fails or is filtered returns no bytes.
\<close>

definition msg_buffer :: "bytes \<Rightarrow> bytes" where
  "msg_buffer bs = bs @ replicate (256 - length bs) 0"

definition mloop_step :: "env \<Rightarrow> ctr \<Rightarrow> ctr" where
  "mloop_step e c =
     (if \<not> lock_ok e then c
      else let c = app_mslave_inc_bus_msg_cnt c in
      case rx e of
        None \<Rightarrow> app_mslave_inc_slave_no_resp_cnt c
      | Some bs \<Rightarrow>
          if length bs = 0 then app_mslave_inc_slave_no_resp_cnt c
          else let msg = msg_buffer bs; tpint = length bs;
                   (kp_errcode, c) = app_mslave_validate_pkt msg (of_nat tpint) c in
          if kp_errcode \<noteq> ERR_NONE then app_mslave_inc_slave_no_resp_cnt c
          else let c = app_mslave_inc_slave_msg_cnt c in
          if app_mslave_get_mode c = SMODE_LISTEN_ONLY
          then snd (handle_for_restart_com_option_in_listen_mode msg tpint c)
          else dispatch e msg tpint c)"

text \<open>
  What the serial library promises of a received frame: it fits the buffer.
\<close>

definition rx_fits :: "env \<Rightarrow> bool" where
  "rx_fits e = (case rx e of None \<Rightarrow> True | Some bs \<Rightarrow> length bs \<le> 256)"

inductive mloop :: "ctr \<Rightarrow> ctr \<Rightarrow> bool" for c\<^sub>0 :: ctr where
  start: "mloop c\<^sub>0 c\<^sub>0"
| turn: "mloop c\<^sub>0 c \<Longrightarrow> rx_fits e \<Longrightarrow> mloop c\<^sub>0 (mloop_step e c)"

inductive_cases mloop_cases: "mloop c c'"

section \<open>What a handler promises\<close>

text \<open>
  A reply to the request \<^term>\<open>q\<close>: a good frame that starts with the address byte and the
  function code of the request, the latter possibly with the exception bit added.
\<close>

definition reply_to :: "bytes \<Rightarrow> bytes \<Rightarrow> bool" where
  "reply_to q f \<longleftrightarrow> frame_ok f \<and> f ! 0 = q ! 0 \<and> (f ! 1 = q ! 1 \<or> f ! 1 = q ! 1 + 0x80)"

text \<open>Parts of the controller that belong to the configuration thread.\<close>

definition same_conf :: "ctr \<Rightarrow> ctr \<Rightarrow> bool" where
  "same_conf c c' \<longleftrightarrow> mctx c' = mctx c \<and> mapping_queue c' = mapping_queue c \<and> port_conf c' = port_conf c
     \<and> mbus_border c' = mbus_border c \<and> gwconf c' = gwconf c \<and> dev_array c' = dev_array c
     \<and> g_reg_mapping_info c' = g_reg_mapping_info c"

text \<open>
  Between \<^term>\<open>c\<close> and \<^term>\<open>c'\<close> at most \<^term>\<open>k\<close> replies to \<^term>\<open>q\<close> are sent, the configuration
  is untouched and the invariants of the file buffers and of the event log are kept.
\<close>

definition mode_ok :: "ctr \<Rightarrow> bool" where
  "mode_ok c \<longleftrightarrow> smode c \<in> {SMODE_ACTIVE, SMODE_LISTEN_ONLY}"

definition answers :: "bytes \<Rightarrow> nat \<Rightarrow> ctr \<Rightarrow> ctr \<Rightarrow> bool" where
  "answers q k c c' \<longleftrightarrow>
     (\<exists>fs. wire c' = fs @ wire c \<and> length fs \<le> k \<and> (\<forall>f \<in> set fs. reply_to q f))
     \<and> same_conf c c' \<and> (bufs_ok c \<longrightarrow> bufs_ok c') \<and> (log_wf c \<longrightarrow> log_wf c')
     \<and> (mode_ok c \<longrightarrow> mode_ok c')"

lemma answers_trans:
  assumes "answers q j c d" "answers q k d f"
  shows "answers q (j + k) c f"
proof -
  obtain fs gs where "wire d = fs @ wire c" "length fs \<le> j" "\<forall>f \<in> set fs. reply_to q f"
    "wire f = gs @ wire d" "length gs \<le> k" "\<forall>f \<in> set gs. reply_to q f"
    using assms unfolding answers_def by blast
  then have "\<exists>hs. wire f = hs @ wire c \<and> length hs \<le> j + k \<and> (\<forall>f \<in> set hs. reply_to q f)"
    by (intro exI [of _ "gs @ fs"]) auto
  then show ?thesis
    using assms by (simp add: answers_def same_conf_def)
qed

lemma answers_mono: "answers q j c d \<Longrightarrow> j \<le> k \<Longrightarrow> answers q k c d"
  by (auto simp: answers_def intro: le_trans)

lemma answers_after: "answers q 0 c d \<Longrightarrow> answers q k d f \<Longrightarrow> answers q k c f"
  using answers_trans [of q 0 c d k f] by simp

lemma answers_before: "answers q k c d \<Longrightarrow> answers q 0 d f \<Longrightarrow> answers q k c f"
  using answers_trans [of q k c d 0 f] by simp

lemma answers_refl: "answers q 0 c c"
  by (simp add: answers_def same_conf_def)

lemma inc_answers:
  "answers q 0 c (app_mslave_inc_bus_msg_cnt c)"
  "answers q 0 c (app_mslave_inc_bus_comm_error_cnt c)"
  "answers q 0 c (app_mslave_inc_slave_exception_error_cnt c)"
  "answers q 0 c (app_mslave_inc_slave_msg_cnt c)"
  "answers q 0 c (app_mslave_inc_slave_no_resp_cnt c)"
  by (auto simp: answers_def same_conf_def bufs_ok_def log_wf_def mode_ok_def
      app_mslave_inc_bus_msg_cnt_def app_mslave_inc_bus_comm_error_cnt_def
      app_mslave_inc_slave_exception_error_cnt_def app_mslave_inc_slave_msg_cnt_def
      app_mslave_inc_slave_no_resp_cnt_def)

lemma clear_answers: "answers q 0 c (app_mslave_clear_state_set c)"
  by (simp add: answers_def same_conf_def bufs_ok_def log_wf_def mode_ok_def app_mslave_clear_state_set_def
      zero_state_set_def)

lemma set_mode_answers:
  "m \<in> {SMODE_ACTIVE, SMODE_LISTEN_ONLY} \<Longrightarrow> answers q 0 c (snd (app_mslave_set_mode m c))"
  by (auto simp: answers_def same_conf_def bufs_ok_def log_wf_def mode_ok_def app_mslave_set_mode_def)

lemma delimiter_answers: "answers q 0 c (c\<lparr>ch_input_delimiter := d\<rparr>)"
  by (simp add: answers_def same_conf_def bufs_ok_def log_wf_def mode_ok_def)

lemma only_bufs_answers: "only_bufs c c' \<Longrightarrow> bufs_ok c' \<Longrightarrow> answers q 0 c c'"
  by (cases c; cases c') (auto simp: only_bufs_def answers_def same_conf_def log_wf_def mode_ok_def)

section \<open>Sending a reply\<close>

lemma backend_answers:
  assumes "2 \<le> length m" "length m \<le> 254" "m ! 0 = q ! 0" "m ! 1 = q ! 1 \<or> m ! 1 = q ! 1 + 0x80"
  shows "answers q 1 c (snd (backend_send e (modbus_rtu_send_msg_pre m) c))"
proof -
  have "m \<noteq> []" using assms(1) by auto
  then have "reply_to q (modbus_rtu_send_msg_pre m)"
    using assms by (simp add: reply_to_def frame_ok_pre) (simp add: modbus_rtu_send_msg_pre_def nth_append)
  then show ?thesis
    by (auto simp: backend_send_def answers_def same_conf_def bufs_ok_def log_wf_def mode_ok_def)
qed

lemma com_send_answers:
  assumes "2 \<le> n" "n \<le> 254" "n \<le> length m" "m ! 0 = q ! 0" "m ! 1 = q ! 1"
  shows "answers q 1 c (snd (app_modbus_com_send_msg e m n c))"
  using assms backend_answers [of "take n m" q c e] answers_mono [OF answers_refl, of 1]
  by (auto simp: app_modbus_com_send_msg_def min_def)

lemma reply_exception_answers: "answers q 1 c (snd (modbus_reply_exception e q code c))"
  using backend_answers [of "[q ! 0, q ! 1 + 0x80, of_nat code]" q c e] answers_mono [OF answers_refl, of 1]
  by (auto simp: modbus_reply_exception_def send_msg_def build_response_basis_def)

lemma reply_exception_counted_answers: "answers q 1 c (reply_exception_counted e q code c)"
  unfolding reply_exception_counted_def
  by (rule answers_before [OF reply_exception_answers inc_answers(3)])

lemma reply_bits_head:
  "modbus_reply_bits q m ! 0 = q ! 0 \<and> 2 \<le> length (modbus_reply_bits q m)
   \<and> (modbus_reply_bits q m ! 1 = q ! 1 \<or> modbus_reply_bits q m ! 1 = q ! 1 + 0x80)"
  by (auto simp: modbus_reply_bits_def Let_def response_exception_def build_response_basis_def)

lemma reply_registers_head:
  "modbus_reply_registers q m ! 0 = q ! 0 \<and> 2 \<le> length (modbus_reply_registers q m)
   \<and> (modbus_reply_registers q m ! 1 = q ! 1 \<or> modbus_reply_registers q m ! 1 = q ! 1 + 0x80)"
  by (auto simp: modbus_reply_registers_def Let_def response_exception_def build_response_basis_def)

lemma reply_answers: "answers q 1 c (snd (modbus_reply e q m c))"
proof -
  have "answers q 1 c (snd (send_msg e rsp c))" if r: "modbus_reply_response q m = Some rsp" for rsp
  proof -
    have "rsp = modbus_reply_bits q m \<or> rsp = modbus_reply_registers q m"
      using r by (auto simp: modbus_reply_response_def Let_def split: if_splits)
    then show ?thesis
      unfolding send_msg_def
      using reply_bits_head [of q m] reply_registers_head [of q m] length_modbus_reply_response [OF r]
        backend_answers [of rsp q c e] by auto
  qed
  then show ?thesis
    using answers_mono [OF answers_refl, of 1]
    by (auto simp: modbus_reply_def case_prod_beta Let_def split: option.splits)
qed

section \<open>The contract of the handlers\<close>

declare One_nat_def [simp del]

text \<open>
  The requests that reach a handler: a buffer of 256 bytes and a length the validation admits.
\<close>

locale request_handler =
  fixes handler :: "env \<Rightarrow> bytes \<Rightarrow> nat \<Rightarrow> ctr \<Rightarrow> error_code \<times> ctr"
  assumes handler_answers:
    "length pkt = 256 \<Longrightarrow> 4 \<le> len \<Longrightarrow> len \<le> 255 \<Longrightarrow> bufs_ok c \<Longrightarrow> log_wf c \<Longrightarrow>
     answers pkt 1 c (snd (handler e pkt len c))"
begin

lemma keeps_wire_ok:
  assumes "length pkt = 256" "4 \<le> len" "len \<le> 255" "bufs_ok c" "log_wf c" "wire_ok c"
  shows "wire_ok (snd (handler e pkt len c))"
  using handler_answers [OF assms(1-5), of e] assms(6)
  by (auto simp: answers_def wire_ok_def reply_to_def)

lemma keeps_mappings:
  assumes "length pkt = 256" "4 \<le> len" "len \<le> 255" "bufs_ok c" "log_wf c"
  shows "mapping_queue (snd (handler e pkt len c)) = mapping_queue c"
  using handler_answers [OF assms, of e] by (simp add: answers_def same_conf_def)

end

interpretation read_coils: request_handler handler_for_fcode_read_coils
  by unfold_locales (auto simp: handler_for_fcode_read_coils_def Let_def case_prod_beta
      reply_exception_counted_answers reply_exception_answers reply_answers
      split: option.splits intro: answers_before [OF reply_answers inc_answers(3)])

interpretation read_discrete_inputs: request_handler handler_for_fcode_read_discrete_inputs
  by unfold_locales (auto simp: handler_for_fcode_read_discrete_inputs_def Let_def case_prod_beta
      reply_exception_counted_answers reply_exception_answers reply_answers
      split: option.splits intro: answers_before [OF reply_answers inc_answers(3)])

interpretation read_inputs_registers: request_handler handler_for_fcode_read_inputs_registers
  by unfold_locales (auto simp: handler_for_fcode_read_inputs_registers_def Let_def case_prod_beta
      reply_exception_counted_answers reply_exception_answers reply_answers split: option.splits)

interpretation read_holding_registers: request_handler handler_for_fcode_read_holding_registers
  by unfold_locales (auto simp: handler_for_fcode_read_holding_registers_def Let_def case_prod_beta
      reply_exception_counted_answers reply_exception_answers reply_answers
      split: option.splits intro: answers_before [OF reply_answers inc_answers(3)])

interpretation report_slave_id: request_handler handler_for_fcode_report_slave_id
  by unfold_locales (simp add: handler_for_fcode_report_slave_id_def reply_exception_counted_answers)

interpretation read_fifo_queue: request_handler handler_for_fcode_read_fifo_queue
  by unfold_locales (simp add: handler_for_fcode_read_fifo_queue_def reply_exception_counted_answers)

interpretation read_dev_id: request_handler handler_for_fcode_read_dev_id
  by unfold_locales (simp add: handler_for_fcode_read_dev_id_def reply_exception_answers)

interpretation read_exception_status: request_handler handler_for_fcode_read_exception_status
  by unfold_locales (auto simp: handler_for_fcode_read_exception_status_def intro!: com_send_answers)

interpretation get_comm_event_cnt: request_handler handler_for_fcode_get_comm_event_cnt
  by unfold_locales (auto simp: handler_for_fcode_get_comm_event_cnt_def intro!: com_send_answers)

lemma length_event_log: "length (app_mslave_get_comm_event_log c) \<le> 64"
  by (simp add: app_mslave_get_comm_event_log_def Let_def)

interpretation get_comm_event_log: request_handler handler_for_fcode_get_comm_event_log
proof unfold_locales
  fix pkt :: bytes and len c e
  show "answers pkt 1 c (snd (handler_for_fcode_get_comm_event_log e pkt len c))"
    using length_event_log [of c]
    by (auto simp: handler_for_fcode_get_comm_event_log_def Let_def intro!: com_send_answers)
qed

lemma diag_echo_answers:
  "length pkt = 256 \<Longrightarrow> 4 \<le> len \<Longrightarrow> len \<le> 255 \<Longrightarrow> answers pkt 1 c (snd (app_modbus_com_send_msg e (take (len - 2) pkt) (len - 2) c))"
  by (rule com_send_answers) auto

lemma diag_value_answers: "answers pkt 1 c (diag_value e pkt v c)"
  by (auto simp: diag_value_def intro!: com_send_answers)

lemma diagnostics_answers:
  assumes "length pkt = 256" "4 \<le> len" "len \<le> 255"
  shows "answers pkt 1 c (snd (handler_for_fcode_diagnostics e pkt len c))"
proof -
  have echo: "answers pkt 1 c (diag_echo e pkt len c)" for c
    using diag_echo_answers [OF assms] by (simp add: diag_echo_def Let_def)
  have restart: "answers pkt 1 c (diag_restart e pkt len c)"
    unfolding diag_restart_def Let_def
    by (intro answers_after [OF clear_answers answers_after [OF set_mode_answers echo]]) simp
  have delim: "answers pkt 1 c (diag_change_delimiter e pkt len c)"
    unfolding diag_change_delimiter_def by (rule answers_after [OF delimiter_answers echo])
  have listen: "answers pkt 1 c (diag_force_listen c)"
    unfolding diag_force_listen_def by (rule answers_mono [OF set_mode_answers]) auto
  have clear: "answers pkt 1 c (diag_clear e pkt len c)"
    unfolding diag_clear_def by (rule answers_after [OF clear_answers echo])
  show ?thesis
    unfolding handler_for_fcode_diagnostics_def Let_def
      diag_ret_diag_reg_def diag_ret_bus_msg_cnt_def diag_ret_bus_com_err_cnt_def
      diag_ret_except_err_cnt_def diag_ret_server_msg_cnt_def diag_ret_no_resp_cnt_def
      diag_ret_nak_cnt_def diag_ret_busy_cnt_def diag_ret_charac_overrun_cnt_def
    by (simp add: echo restart delim listen clear diag_value_answers reply_exception_counted_answers)
qed

interpretation diagnostics: request_handler handler_for_fcode_diagnostics
  by unfold_locales (rule diagnostics_answers)

lemma err_exit_answers:
  "answers pkt 0 c d \<Longrightarrow> answers pkt 1 c (app_mslave_inc_slave_exception_error_cnt (snd (modbus_reply_exception e pkt code d)))"
  by (rule answers_after [OF _ answers_before [OF reply_exception_answers inc_answers(3)]])

lemma tx_cnt_answers: "answers pkt 0 c (c\<lparr>tx_cnt := k\<rparr>)"
  by (simp add: answers_def same_conf_def bufs_ok_def log_wf_def mode_ok_def)

lemma file_record_answers:
  assumes "bufs_ok c"
  shows "answers pkt 1 c (snd (handler_for_fcode_read_file_record e pkt len c))"
proof -
  let ?bc = "unat (pkt ! 2)"
  have bad: "answers pkt 1 c (app_mslave_inc_slave_exception_error_cnt (snd (modbus_reply_exception e pkt code c)))" for code
    by (rule err_exit_answers [OF answers_refl])
  obtain res c1 where l: "file_record_loop (tnow e) pkt ?bc 0 [pkt ! 0, pkt ! 1, 0] c = (res, c1)"
    by (metis surj_pair)
  have ok: "bufs_ok c1" "only_bufs c c1"
    and rsp: "\<And>rsp'. res = Inr rsp' \<Longrightarrow> length rsp' \<le> 254 \<and> (\<exists>ys. rsp' = [pkt ! 0, pkt ! 1, 0] @ ys)"
    using file_record_loop_ok [OF assms _ l] by auto
  have c1: "answers pkt 0 c c1" using ok by (intro only_bufs_answers)
  show ?thesis
  proof (cases res)
    case (Inl a)
    then show ?thesis
      using bad err_exit_answers [OF c1]
      by (cases a) (simp add: handler_for_fcode_read_file_record_def Let_def l)
  next
    case (Inr rsp')
    let ?r = "rsp'[2 := of_nat (length rsp' - 3)]"
    let ?s = "app_modbus_com_send_msg e ?r (length ?r) c1"
    have s: "answers pkt 1 c1 (snd ?s)"
      using rsp [OF Inr] by (intro com_send_answers) auto
    have f: "answers pkt 0 c1 (snd ?s)" if "fst ?s < 0"
      using com_send_msg_failed [OF that] tx_cnt_answers by metis
    have "snd (handler_for_fcode_read_file_record e pkt len c) \<in>
       {app_mslave_inc_slave_exception_error_cnt (snd (modbus_reply_exception e pkt 3 c)),
        if fst ?s < 0 then app_mslave_inc_slave_exception_error_cnt (snd (modbus_reply_exception e pkt 4 (snd ?s)))
        else snd ?s}"
      by (simp add: handler_for_fcode_read_file_record_def Let_def l Inr case_prod_beta)
    then show ?thesis
      using bad [of 3] answers_after [OF c1 s] err_exit_answers [OF answers_after [OF c1 f]]
      by (auto split: if_splits)
  qed
qed

interpretation read_file_record: request_handler handler_for_fcode_read_file_record
  by unfold_locales (rule file_record_answers)

lemmas handlers_answer =
  read_coils.handler_answers read_discrete_inputs.handler_answers
  read_inputs_registers.handler_answers read_holding_registers.handler_answers
  report_slave_id.handler_answers read_exception_status.handler_answers
  read_fifo_queue.handler_answers read_file_record.handler_answers diagnostics.handler_answers
  get_comm_event_cnt.handler_answers get_comm_event_log.handler_answers read_dev_id.handler_answers

lemma dispatch_answers:
  assumes "length msg = 256" "4 \<le> n" "n \<le> 255" "bufs_ok c" "log_wf c"
  shows "answers msg 1 c (dispatch e msg n c)"
  unfolding dispatch_def Let_def
  using handlers_answer [OF assms] by (simp add: reply_exception_counted_answers)

declare One_nat_def [simp]

section \<open>The requests that are accepted\<close>

text \<open>
  The abstract acceptance test: four to 255 bytes, the address of this slave, a checksum over the
  whole frame of 0, and a supported function code.
\<close>

definition addressed :: "ctr \<Rightarrow> bytes \<Rightarrow> bool" where
  "addressed c bs \<longleftrightarrow> 4 \<le> length bs \<and> length bs \<le> 255 \<and> int (unat (bs ! 0)) = modbus_get_slave (mctx c)"

definition pkt_ok :: "ctr \<Rightarrow> bytes \<Rightarrow> bool" where
  "pkt_ok c bs \<longleftrightarrow> addressed c bs \<and> util_tool_cal_crc16 bs = 0 \<and> is_fun_code_for_reading (bs ! 1)"

lemma split_last_two: "2 \<le> length bs \<Longrightarrow>
   bs = take (length bs - 2) bs @ [bs ! (length bs - 2), bs ! (length bs - 1)]"
proof (rule nth_equalityI)
  fix i assume "2 \<le> length bs" "i < length bs"
  then have "i < length bs - 2 \<or> i = length bs - 2 \<or> i = length bs - 1" by linarith
  then show "bs ! i = (take (length bs - 2) bs @ [bs ! (length bs - 2), bs ! (length bs - 1)]) ! i"
    using \<open>2 \<le> length bs\<close> by (auto simp: nth_append nth_Cons')
qed simp

lemma crc16_frame:
  assumes "2 \<le> length bs"
  shows "util_tool_cal_crc16 bs = 0 \<longleftrightarrow>
    util_tool_cal_crc16 (take (length bs - 2) bs) = mk16 (bs ! (length bs - 1)) (bs ! (length bs - 2))"
  using split_last_two [OF assms] crc16_residue_iff by metis

lemma validate_pkt_eq:
  assumes "length bs \<le> 256"
  shows "app_mslave_validate_pkt (msg_buffer bs) (of_nat (length bs)) c =
    (if \<not> (4 \<le> length bs \<and> length bs \<le> 255) then (ERR_INVALID_PARAM, c)
     else if \<not> addressed c bs then (EMBXSFAIL, c)
     else if util_tool_cal_crc16 bs \<noteq> 0 then (EMBBADCRC, app_mslave_inc_bus_comm_error_cnt c)
     else if \<not> is_fun_code_for_reading (bs ! 1) then (EMBXILFUN, c)
     else (ERR_NONE, c))"
proof (cases "4 \<le> length bs \<and> length bs \<le> 255")
  case True
  let ?n = "length bs"
  have u: "unat (of_nat ?n :: u8) = ?n" using True by (intro unat_of_nat_u8) simp
  then have small: "\<not> (of_nat ?n :: u8) < 4" using True by (simp add: word_less_nat_alt)
  have m: "take (?n - 2) (msg_buffer bs) = take (?n - 2) bs" "msg_buffer bs ! 0 = bs ! 0"
    "msg_buffer bs ! 1 = bs ! 1" "msg_buffer bs ! (?n - 1) = bs ! (?n - 1)" "msg_buffer bs ! (?n - 2) = bs ! (?n - 2)"
    using True by (auto simp: msg_buffer_def nth_append)
  have crc: "util_tool_cal_crc16 bs = 0 \<longleftrightarrow>
    util_tool_cal_crc16 (take (?n - 2) bs) = mk16 (bs ! (?n - 1)) (bs ! (?n - 2))"
    using True by (intro crc16_frame) simp
  show ?thesis
    unfolding app_mslave_validate_pkt_def Let_def u m crc
    using True small by (simp add: addressed_def app_mslave_get_mctx_def)
next
  case False
  then have "length bs = 256 \<or> length bs < 4" using assms by auto
  then have "(of_nat (length bs) :: u8) < 4"
    by (auto simp: word_less_nat_alt)
  then show ?thesis using False by (simp add: app_mslave_validate_pkt_def)
qed

text \<open>What happens to a frame that is not accepted.\<close>

lemma mloop_step_rejected_eq:
  assumes "lock_ok e" "rx e = Some bs" "bs \<noteq> []" "length bs \<le> 256" "\<not> pkt_ok c bs"
  shows "mloop_step e c = app_mslave_inc_slave_no_resp_cnt
    (if addressed c bs \<and> util_tool_cal_crc16 bs \<noteq> 0
     then app_mslave_inc_bus_comm_error_cnt (app_mslave_inc_bus_msg_cnt c) else app_mslave_inc_bus_msg_cnt c)"
proof -
  have a: "mctx (app_mslave_inc_bus_msg_cnt c) = mctx c"
    by (simp add: app_mslave_inc_bus_msg_cnt_def)
  show ?thesis
    unfolding mloop_step_def
    using assms by (auto simp: Let_def validate_pkt_eq a pkt_ok_def addressed_def)
qed

lemma mloop_step_accepted_eq:
  assumes "lock_ok e" "rx e = Some bs" "pkt_ok c bs"
  shows "mloop_step e c =
    (let c' = app_mslave_inc_slave_msg_cnt (app_mslave_inc_bus_msg_cnt c) in
     if smode c = SMODE_LISTEN_ONLY
     then snd (handle_for_restart_com_option_in_listen_mode (msg_buffer bs) (length bs) c')
     else dispatch e (msg_buffer bs) (length bs) c')"
proof -
  have a: "mctx (app_mslave_inc_bus_msg_cnt c) = mctx c"
    by (simp add: app_mslave_inc_bus_msg_cnt_def)
  have m: "app_mslave_get_mode (app_mslave_inc_slave_msg_cnt (app_mslave_inc_bus_msg_cnt c)) = smode c"
    by (simp add: app_mslave_get_mode_def app_mslave_inc_slave_msg_cnt_def app_mslave_inc_bus_msg_cnt_def)
  have "length bs \<noteq> 0" "length bs \<le> 256" using assms(3) by (auto simp: pkt_ok_def addressed_def)
  then show ?thesis
    unfolding mloop_step_def
    using assms by (auto simp: Let_def validate_pkt_eq a m pkt_ok_def addressed_def)
qed

lemma mloop_step_silent:
  "\<not> lock_ok e \<or> rx e = None \<or> rx e = Some [] \<Longrightarrow>
   mloop_step e c = (if lock_ok e then app_mslave_inc_slave_no_resp_cnt (app_mslave_inc_bus_msg_cnt c) else c)"
  by (auto simp: mloop_step_def Let_def)

text \<open>
  C27: a frame that is too short or too long, carries another address, a wrong checksum or an
  unsupported function code is never answered.  It changes nothing but the diagnostic counters: bus
  messages and unanswered messages go up by one, communication errors only for a frame with the
  right address and a wrong checksum.
\<close>

theorem mloop_step_rejects:
  assumes "lock_ok e" "rx e = Some bs" "bs \<noteq> []" "length bs \<le> 256" "\<not> pkt_ok c bs"
  shows "mloop_step e c = c\<lparr>state_set := (state_set c)\<lparr>
      diag_cnt_bus_message := inc_sat (diag_cnt_bus_message (state_set c)),
      diag_cnt_slave_no_response := inc_sat (diag_cnt_slave_no_response (state_set c)),
      diag_cnt_bus_comm_error := (if addressed c bs \<and> util_tool_cal_crc16 bs \<noteq> 0
        then inc_sat (diag_cnt_bus_comm_error (state_set c)) else diag_cnt_bus_comm_error (state_set c))\<rparr>\<rparr>"
  unfolding mloop_step_rejected_eq [OF assms]
  by (simp add: app_mslave_inc_slave_no_resp_cnt_def app_mslave_inc_bus_comm_error_cnt_def
      app_mslave_inc_bus_msg_cnt_def)

section \<open>One turn\<close>

lemma restart_listen_answers:
  "answers q 0 c (snd (handle_for_restart_com_option_in_listen_mode pkt len c))"
  using answers_after [OF clear_answers set_mode_answers, of SMODE_ACTIVE q c]
  by (simp add: handle_for_restart_com_option_in_listen_mode_def answers_refl)

lemma inc2_answers: "answers q 0 c (app_mslave_inc_slave_msg_cnt (app_mslave_inc_bus_msg_cnt c))"
  by (rule answers_after [OF inc_answers(1) inc_answers(4)])

lemma length_msg_buffer: "length bs \<le> 256 \<Longrightarrow> length (msg_buffer bs) = 256"
  by (simp add: msg_buffer_def)

lemma rejected_answers:
  assumes "lock_ok e" "rx e = Some bs" "bs \<noteq> []" "length bs \<le> 256" "\<not> pkt_ok c bs"
  shows "answers q 0 c (mloop_step e c)"
  using answers_after [OF inc_answers(1) inc_answers(5), of q c]
    answers_after [OF inc_answers(1) answers_after [OF inc_answers(2) inc_answers(5)], of q c]
  unfolding mloop_step_rejected_eq [OF assms] by auto

lemma accepted_answers:
  assumes "lock_ok e" "rx e = Some bs" "pkt_ok c bs" "bufs_ok c" "log_wf c"
  shows "answers (msg_buffer bs) (if smode c = SMODE_LISTEN_ONLY then 0 else 1) c (mloop_step e c)"
proof -
  let ?c = "app_mslave_inc_slave_msg_cnt (app_mslave_inc_bus_msg_cnt c)"
  have ok: "bufs_ok ?c" "log_wf ?c"
    using inc2_answers [of "[]" c] assms by (auto simp: answers_def)
  have "answers (msg_buffer bs) 1 c (dispatch e (msg_buffer bs) (length bs) ?c)"
    using assms(3) ok
    by (intro answers_after [OF inc2_answers dispatch_answers]) (auto simp: pkt_ok_def addressed_def length_msg_buffer)
  then show ?thesis
    unfolding mloop_step_accepted_eq [OF assms(1-3)] Let_def
    using answers_after [OF inc2_answers restart_listen_answers] by simp
qed

lemma silent_answers:
  "\<not> lock_ok e \<or> rx e = None \<or> rx e = Some [] \<Longrightarrow> answers q 0 c (mloop_step e c)"
  using answers_after [OF inc_answers(1) inc_answers(5), of q c]
  by (simp add: mloop_step_silent answers_refl)

lemma turn_answers:
  assumes "rx_fits e" "bufs_ok c" "log_wf c"
  shows "answers (msg_buffer (the (rx e))) 1 c (mloop_step e c)"
proof (cases "\<not> lock_ok e \<or> rx e = None \<or> rx e = Some []")
  case True
  then show ?thesis by (intro answers_mono [OF silent_answers]) auto
next
  case False
  then obtain bs where bs: "rx e = Some bs" "bs \<noteq> []" "lock_ok e" by auto
  then have l: "length bs \<le> 256" using assms(1) by (simp add: rx_fits_def)
  show ?thesis
  proof (cases "pkt_ok c bs")
    case True
    then show ?thesis
      using accepted_answers [OF bs(3,1) True assms(2,3)] bs(1)
      by (auto split: if_splits intro: answers_mono)
  next
    case False
    then show ?thesis
      using rejected_answers [OF bs(3,1,2) l False] by (auto intro: answers_mono)
  qed
qed

section \<open>All turns\<close>

definition ctr_inv :: "ctr \<Rightarrow> bool" where
  "ctr_inv c \<longleftrightarrow> wire_ok c \<and> bufs_ok c \<and> log_wf c \<and> mode_ok c"

lemma answers_inv: "answers q k c c' \<Longrightarrow> ctr_inv c \<Longrightarrow> ctr_inv c'"
  by (auto simp: ctr_inv_def answers_def wire_ok_def reply_to_def)

lemma init_inv: "ctr_inv init_ctr"
  using init_log
  by (simp add: ctr_inv_def wire_ok_def bufs_ok_def mode_ok_def init_ctr_def g_mslave_ctr_def)

lemma turn_inv: "ctr_inv c \<Longrightarrow> rx_fits e \<Longrightarrow> ctr_inv (mloop_step e c)"
  by (rule answers_inv [OF turn_answers]) (simp_all add: ctr_inv_def)

text \<open>
  whatever the serial line delivers and in whatever order, every frame the slave has ever put on
  the wire has at most 256 bytes and a checksum of 0; the file buffers stay one full buffer for each
  file, the event log stays well formed, and the mode is active or listen-only.
\<close>

theorem mloop_invariant:
  assumes "mloop c\<^sub>0 c" "ctr_inv c\<^sub>0"
  shows "(\<forall>f \<in> set (wire c). length f \<le> 256 \<and> util_tool_cal_crc16 f = 0)
    \<and> bufs_ok c \<and> log_wf c \<and> smode c \<in> {SMODE_ACTIVE, SMODE_LISTEN_ONLY}"
proof -
  have "ctr_inv c"
    using assms by (induction rule: mloop.induct) (simp_all add: turn_inv)
  then show ?thesis
    by (auto simp: ctr_inv_def wire_ok_def frame_ok_def mode_ok_def)
qed

text \<open>
  C26: one turn of the main loop puts at most one frame on the wire, and that frame answers the
  request just received: it repeats its address byte and its function code, the latter possibly with
  the exception bit.
\<close>

theorem mloop_step_one_reply:
  assumes "ctr_inv c" "rx e = Some bs" "2 \<le> length bs" "length bs \<le> 256"
  shows "wire (mloop_step e c) = wire c
    \<or> (\<exists>f. wire (mloop_step e c) = f # wire c \<and> length f \<le> 256 \<and> util_tool_cal_crc16 f = 0
          \<and> f ! 0 = bs ! 0 \<and> (f ! 1 = bs ! 1 \<or> f ! 1 = bs ! 1 + 0x80))"
proof -
  have "answers (msg_buffer bs) 1 c (mloop_step e c)"
    using turn_answers [of e c] assms by (simp add: ctr_inv_def rx_fits_def)
  then obtain fs where fs: "wire (mloop_step e c) = fs @ wire c" "length fs \<le> 1"
    "\<forall>f \<in> set fs. reply_to (msg_buffer bs) f"
    unfolding answers_def by blast
  have m: "msg_buffer bs ! 0 = bs ! 0" "msg_buffer bs ! 1 = bs ! 1"
    using assms(3) by (auto simp: msg_buffer_def nth_append)
  show ?thesis
    using fs m by (cases fs) (auto simp: reply_to_def frame_ok_def)
qed

text \<open>
  C28: a slave in listen-only mode never sends a frame, and the only request that brings it back is an accepted ''Restart Communications
  Option''.  That request clears every counter and the diagnostic register, and with the contents FF 00 also the event log.
\<close>

theorem mloop_listen_only:
  assumes "ctr_inv c" "smode c = SMODE_LISTEN_ONLY" "rx_fits e"
  shows "wire (mloop_step e c) = wire c
    \<and> (smode (mloop_step e c) = SMODE_LISTEN_ONLY
       \<or> smode (mloop_step e c) = SMODE_ACTIVE
         \<and> (\<exists>l n i. state_set (mloop_step e c) = zero_state_set\<lparr>log_comm_event := l, log_event_cnt := n, log_event_idx := i\<rparr>)
         \<and> (\<exists>bs. rx e = Some bs \<and> pkt_ok c bs \<and> bs ! 1 = 0x08 \<and> mk16 (bs ! 2) (bs ! 3) = 0x0001
              \<and> (mk16 (bs ! 4) (bs ! 5) = 0xFF00 \<longrightarrow> log_events (mloop_step e c) = [])))"
proof (cases "\<exists>bs. lock_ok e \<and> rx e = Some bs \<and> pkt_ok c bs")
  case True
  then obtain bs where bs: "lock_ok e" "rx e = Some bs" "pkt_ok c bs" by blast
  have w: "wire (mloop_step e c) = wire c"
    using accepted_answers [OF bs] assms(1,2) by (auto simp: ctr_inv_def answers_def)
  have m: "msg_buffer bs ! 1 = bs ! 1" "msg_buffer bs ! 2 = bs ! 2" "msg_buffer bs ! 3 = bs ! 3" "4 \<le> length bs"
    using bs(3) by (auto simp: msg_buffer_def nth_append pkt_ok_def addressed_def)
  show ?thesis
    using w bs assms(2) m unfolding mloop_step_accepted_eq [OF bs]
    by (auto simp: Let_def handle_for_restart_com_option_in_listen_mode_def app_mslave_pick_fun_code_def
        to_pick_sub_fcode_for_disagnostic_def app_mslave_set_mode_def app_mslave_clear_state_set_def
        app_mslave_inc_slave_msg_cnt_def app_mslave_inc_bus_msg_cnt_def log_events_def zero_state_set_def)
next
  case False
  have s: "smode (app_mslave_inc_slave_no_resp_cnt c) = smode c \<and> wire (app_mslave_inc_slave_no_resp_cnt c) = wire c"
    "smode (app_mslave_inc_bus_msg_cnt c) = smode c \<and> wire (app_mslave_inc_bus_msg_cnt c) = wire c"
    "smode (app_mslave_inc_bus_comm_error_cnt c) = smode c \<and> wire (app_mslave_inc_bus_comm_error_cnt c) = wire c" for c
    by (simp_all add: app_mslave_inc_slave_no_resp_cnt_def app_mslave_inc_bus_msg_cnt_def
        app_mslave_inc_bus_comm_error_cnt_def)
  have "smode (mloop_step e c) = smode c \<and> wire (mloop_step e c) = wire c"
  proof (cases "\<not> lock_ok e \<or> rx e = None \<or> rx e = Some []")
    case True
    then show ?thesis by (simp add: mloop_step_silent s)
  next
    case False': False
    then obtain bs where "rx e = Some bs" "bs \<noteq> []" "lock_ok e" by auto
    then show ?thesis
      using mloop_step_rejected_eq [of e bs c] False assms(3) by (auto simp: s rx_fits_def)
  qed
  then show ?thesis using assms(2) by simp
qed

text \<open>
  The contents of the restart request are never looked at: in both modes it clears the event log also with the contents 00 00, which should
  leave it as it was.
\<close>

lemma restart_clears_log:
  "log_events (diag_restart e pkt len c) = []"
  "app_mslave_pick_fun_code pkt len = 0x08 \<Longrightarrow> to_pick_sub_fcode_for_disagnostic pkt len = 0x0001
    \<Longrightarrow> log_events (snd (handle_for_restart_com_option_in_listen_mode pkt len c)) = []"
  by (simp_all add: diag_restart_def diag_echo_def app_modbus_com_send_msg_def backend_send_def handle_for_restart_com_option_in_listen_mode_def
      app_mslave_set_mode_def app_mslave_clear_state_set_def log_events_def zero_state_set_def Let_def)

section \<open>Reading registers, from the request to the wire\<close>

lemma dispatch_holding:
  assumes "4 \<le> n" "msg ! 1 = 0x03"
  shows "dispatch e msg n c = snd (handler_for_fcode_read_holding_registers e msg n c)"
  using assms by (simp add: dispatch_def app_mslave_pick_fun_code_def)

lemma holding_reply:
  assumes "4 \<le> n" "pkt ! 0 \<noteq> 0" "pkt ! 1 = 0x03"
    and "a = mk16 (pkt ! 2) (pkt ! 3)" "nb = unat (mk16 (pkt ! 4) (pkt ! 5))"
    and "1 \<le> nb" "nb \<le> 125" "unat a + nb \<le> 0xFFFF"
    and "app_mslave_locate_mapping c a ADDR_GP_HOLDING_REGISTER = Some i"
    and "mctx c \<noteq> None" "tx_ok e (tx_cnt c)"
  shows "snd (handler_for_fcode_read_holding_registers e pkt n c) =
    c\<lparr>wire := modbus_rtu_send_msg_pre (modbus_reply_registers pkt (mapping_queue c ! i)) # wire c,
      tx_cnt := Suc (tx_cnt c)\<rparr>"
proof -
  have q: "mk16 (pkt ! 4) (pkt ! 5) \<noteq> 0" using assms(5,6) by auto
  show ?thesis
    unfolding handler_for_fcode_read_holding_registers_def app_mslave_pick_starting_address_def
      app_mslave_pick_quantity_def
    using assms q by (auto simp: modbus_reply_def modbus_reply_response_def send_msg_def backend_send_def)
qed

lemma turn_reads_registers:
  assumes "lock_ok e" "rx e = Some bs" "pkt_ok c bs" "8 \<le> length bs" "smode c \<noteq> SMODE_LISTEN_ONLY"
    and "bs ! 0 \<noteq> 0" "bs ! 1 = 0x03" "tx_ok e (tx_cnt c)"
    and a: "a = mk16 (bs ! 2) (bs ! 3)" and nb: "nb = unat (mk16 (bs ! 4) (bs ! 5))"
    and "1 \<le> nb" "nb \<le> 125" "unat a + nb \<le> 0xFFFF"
    and "app_mslave_locate_mapping c a ADDR_GP_HOLDING_REGISTER = Some i" "m = mapping_queue c ! i"
    and "start_registers m \<le> unat a" "unat a + nb \<le> start_registers m + nb_registers m"
  shows "\<exists>f. wire (mloop_step e c) = f # wire c \<and> length f = 5 + 2 * nb
    \<and> take 3 f = [bs ! 0, 0x03, of_nat (2 * nb)] \<and> util_tool_cal_crc16 f = 0
    \<and> (\<forall>j < nb. mk16 (f ! (3 + 2 * j)) (f ! (4 + 2 * j)) = tab_registers m ! (unat a - start_registers m + j))"
proof -
  let ?c = "app_mslave_inc_slave_msg_cnt (app_mslave_inc_bus_msg_cnt c)"
  let ?p = "msg_buffer bs" and ?r = "modbus_reply_registers (msg_buffer bs) m"
  let ?f = "modbus_rtu_send_msg_pre ?r"
  have same: "mapping_queue ?c = mapping_queue c" "mctx ?c = mctx c" "tx_cnt ?c = tx_cnt c" "wire ?c = wire c"
    "app_mslave_locate_mapping ?c = app_mslave_locate_mapping c"
    by (auto simp: fun_eq_iff app_mslave_locate_mapping_def app_mslave_inc_slave_msg_cnt_def app_mslave_inc_bus_msg_cnt_def)
  have p: "?p ! k = bs ! k" if "k < 8" for k
    using assms(4) that by (simp add: msg_buffer_def nth_append)
  have ctx: "mctx c \<noteq> None"
    using assms(3) by (cases "mctx c") (auto simp: pkt_ok_def addressed_def modbus_get_slave_def simp del: of_nat_unat)
  have "mloop_step e c = snd (handler_for_fcode_read_holding_registers e ?p (length bs) ?c)"
    unfolding mloop_step_accepted_eq [OF assms(1-3)] Let_def
    using assms(4,5,7) p by (simp add: dispatch_holding)
  also have "\<dots> = ?c\<lparr>wire := ?f # wire c, tx_cnt := Suc (tx_cnt c)\<rparr>"
    using assms p ctx same
    by (subst holding_reply [where a = a and nb = nb and i = i]) simp_all
  finally have w: "wire (mloop_step e c) = ?f # wire c" by simp
  have r: "take 3 ?r = [bs ! 0, 0x03, of_nat (2 * nb)]" "length ?r = 3 + 2 * nb"
    "\<And>j. j < nb \<Longrightarrow> mk16 (?r ! (3 + 2 * j)) (?r ! (4 + 2 * j)) = tab_registers m ! (unat a - start_registers m + j)"
    using reply_registers_content [of ?p nb "unat a" m] assms p by auto
  have f: "length ?f = 5 + 2 * nb" "take 3 ?f = take 3 ?r" "util_tool_cal_crc16 ?f = 0"
    "\<And>k. k < 3 + 2 * nb \<Longrightarrow> ?f ! k = ?r ! k"
    using r(2) by (simp_all add: modbus_rtu_send_msg_pre_def crc16_residue_gen nth_append)
  show ?thesis
    using w r f by (intro exI [of _ ?f]) simp
qed

text \<open>
  C25: an active slave that accepts a ''Read Holding Registers'' request for registers inside the
  mapping located for their first address answers, if the port accepts the frame, with exactly the
  contents of these registers, high byte first, after the address byte, the function code and the
  byte count, and followed by the checksum.
\<close>

theorem mloop_reads_holding_registers:
  assumes "lock_ok e" "rx e = Some bs" "pkt_ok c bs" "8 \<le> length bs" "smode c \<noteq> SMODE_LISTEN_ONLY"
    and "bs ! 0 \<noteq> 0" "bs ! 1 = 0x03" "tx_ok e (tx_cnt c)"
    and a: "a = mk16 (bs ! 2) (bs ! 3)" and nb: "nb = unat (mk16 (bs ! 4) (bs ! 5))"
    and "1 \<le> nb" "nb \<le> 125" "unat a + nb \<le> 0xFFFF"
    and "app_mslave_locate_mapping c a ADDR_GP_HOLDING_REGISTER = Some i" "m = mapping_queue c ! i"
    and "start_registers m \<le> unat a" "unat a + nb \<le> start_registers m + nb_registers m"
  shows "\<exists>f. wire (mloop_step e c) = f # wire c \<and> length f = 5 + 2 * nb
    \<and> take 3 f = [bs ! 0, 0x03, of_nat (2 * nb)] \<and> util_tool_cal_crc16 f = 0
    \<and> (\<forall>j < nb. mk16 (f ! (3 + 2 * j)) (f ! (4 + 2 * j)) = tab_registers m ! (unat a - start_registers m + j))"
  using assms by (rule turn_reads_registers)

section \<open>The theorems on a concrete slave\<close>

text \<open>Slave number 1 with the sample mapping, and requests with their checksum appended.\<close>

definition sample_slave :: ctr where
  "sample_slave = init_ctr\<lparr>mctx := Some \<lparr>ctx_baud = 115200, ctx_parity = 0, ctx_stop = 1, ctx_slave = 1\<rparr>,
     mapping_queue := [sample_mapping]\<rparr>"

definition sample_env :: "bytes \<Rightarrow> env" where
  "sample_env q = \<lparr>big_endian = False, tx_ok = (\<lambda>_. True), lock_ok = True,
     rx = Some (modbus_rtu_send_msg_pre q), tnow = 0\<rparr>"

lemma sample_env_simps [simp]:
  "lock_ok (sample_env q)" "rx (sample_env q) = Some (modbus_rtu_send_msg_pre q)" "tx_ok (sample_env q) n"
  by (simp_all add: sample_env_def)

lemma sample_slave_simps [simp]:
  "smode sample_slave = SMODE_ACTIVE" "wire sample_slave = []" "tx_cnt sample_slave = 0"
  "mapping_queue sample_slave = [sample_mapping]"
  by (simp_all add: sample_slave_def init_ctr_def g_mslave_ctr_def)

lemma sample_slave_inv: "ctr_inv sample_slave" "ctr_inv (sample_slave\<lparr>smode := SMODE_LISTEN_ONLY\<rparr>)"
  using init_inv
  by (simp_all add: sample_slave_def ctr_inv_def wire_ok_def bufs_ok_def log_wf_def mode_ok_def)

lemma sample_pkt_ok:
  assumes "2 \<le> length q" "length q \<le> 253" "q ! 0 = 1" "is_fun_code_for_reading (q ! 1)" "mctx c = mctx sample_slave"
  shows "pkt_ok c (modbus_rtu_send_msg_pre q)"
proof -
  have "q \<noteq> []" using assms(1) by auto
  then show ?thesis
    using assms
    by (simp add: pkt_ok_def addressed_def modbus_rtu_send_msg_pre_def crc16_residue_gen nth_append
        sample_slave_def modbus_get_slave_def)
qed

theorem mloop_invariant_witness:
  "bufs_ok (mloop_step (sample_env [1, 0x14, 7, 6, 0, 1, 0, 0, 0, 2]) sample_slave)"
proof -
  let ?e = "sample_env [1, 0x14, 7, 6, 0, 1, 0, 0, 0, 2]"
  have "mloop sample_slave (mloop_step ?e sample_slave)"
    by (intro mloop.intros) (simp add: rx_fits_def modbus_rtu_send_msg_pre_def)
  then show ?thesis
    using mloop_invariant sample_slave_inv by blast
qed

theorem mloop_step_one_reply_witness:
  "length (wire (mloop_step (sample_env [1, 0x07]) sample_slave)) \<le> 1"
  using mloop_step_one_reply [OF sample_slave_inv(1), of "sample_env [1, 0x07]"]
  by (auto simp: modbus_rtu_send_msg_pre_def)

theorem mloop_step_rejects_witness:
  "mloop_step (sample_env [2, 0x07]) sample_slave = sample_slave\<lparr>state_set := zero_state_set\<lparr>
      diag_cnt_bus_message := 1, diag_cnt_slave_no_response := 1\<rparr>\<rparr>"
proof -
  let ?bs = "modbus_rtu_send_msg_pre [2, 0x07]"
  have "\<not> addressed sample_slave ?bs"
    by (simp add: addressed_def modbus_rtu_send_msg_pre_def sample_slave_def modbus_get_slave_def)
  moreover have "state_set sample_slave = zero_state_set"
    by (simp add: sample_slave_def init_ctr_def g_mslave_ctr_def)
  ultimately show ?thesis
    using mloop_step_rejects [of "sample_env [2, 0x07]" ?bs sample_slave]
    by (simp add: pkt_ok_def modbus_rtu_send_msg_pre_def zero_state_set_def inc_sat_def)
qed

theorem mloop_listen_only_witness:
  "wire (mloop_step (sample_env [1, 0x03, 1, 1, 0, 2]) (sample_slave\<lparr>smode := SMODE_LISTEN_ONLY\<rparr>)) = []
   \<and> smode (mloop_step (sample_env [1, 0x03, 1, 1, 0, 2]) (sample_slave\<lparr>smode := SMODE_LISTEN_ONLY\<rparr>)) = SMODE_LISTEN_ONLY"
  using mloop_listen_only [OF sample_slave_inv(2), of "sample_env [1, 0x03, 1, 1, 0, 2]"]
  by (auto simp: rx_fits_def modbus_rtu_send_msg_pre_def)

theorem mloop_reads_holding_registers_witness:
  "\<exists>f. wire (mloop_step (sample_env [1, 0x03, 1, 1, 0, 2]) sample_slave) = [f]
     \<and> take 3 f = [1, 3, 4] \<and> mk16 (f ! 3) (f ! 4) = 0x3344 \<and> mk16 (f ! 5) (f ! 6) = 0x5566"
proof -
  let ?q = "[1, 0x03, 1, 1, 0, 2] :: bytes"
  let ?bs = "modbus_rtu_send_msg_pre ?q"
  have q: "?bs ! 0 = 1" "?bs ! 1 = 3" "mk16 (?bs ! 2) (?bs ! 3) = 0x101" "unat (mk16 (?bs ! 4) (?bs ! 5)) = 2"
    "8 \<le> length ?bs"
    by (simp_all add: modbus_rtu_send_msg_pre_def mk16_def)
  have "app_mslave_locate_mapping sample_slave 0x101 ADDR_GP_HOLDING_REGISTER = Some 0"
    by (simp add: locate_Some mapping_covers_def sample_mapping_def Let_def)
  then have "\<exists>f. wire (mloop_step (sample_env ?q) sample_slave) = f # wire sample_slave \<and> length f = 5 + 2 * 2
    \<and> take 3 f = [?bs ! 0, 0x03, of_nat (2 * 2)] \<and> util_tool_cal_crc16 f = 0
    \<and> (\<forall>j < 2. mk16 (f ! (3 + 2 * j)) (f ! (4 + 2 * j))
          = tab_registers sample_mapping ! (unat (0x101 :: u16) - start_registers sample_mapping + j))"
    by (intro mloop_reads_holding_registers [where i = 0])
      (simp_all add: q sample_pkt_ok is_fun_code_for_reading_def sample_mapping_def del: One_nat_def)
  then obtain f where f: "wire (mloop_step (sample_env ?q) sample_slave) = [f]" "take 3 f = [1, 3, 4]"
    "\<forall>j < 2. mk16 (f ! (3 + 2 * j)) (f ! (4 + 2 * j)) = tab_registers sample_mapping ! (1 + j)"
    by (auto simp: q(1) sample_mapping_def)
  then show ?thesis
    using spec [OF f(3), of 0] spec [OF f(3), of 1] by (auto simp: sample_mapping_def)
qed

section \<open>Exceptions and diagnostic counters\<close>

text \<open>
  a read of holding registers at an address no mapping contains is answered with exception 02
  (illegal data address), yet the exception counter of the diagnostics keeps its value: the exit for
  this case skips the statement that counts, which the exits for a bad quantity and for an address
  beyond 0xFFFF execute.
\<close>

theorem unmapped_read_not_counted:
  assumes "4 \<le> n" "a = mk16 (pkt ! 2) (pkt ! 3)" "nb = unat (mk16 (pkt ! 4) (pkt ! 5))"
    and "1 \<le> nb" "nb \<le> 125" "unat a + nb \<le> 0xFFFF"
    and "app_mslave_locate_mapping c a ADDR_GP_HOLDING_REGISTER = None"
    and "mctx c \<noteq> None" "tx_ok e (tx_cnt c)"
  shows "handler_for_fcode_read_holding_registers e pkt n c =
    (EMBXILADD, c\<lparr>wire := modbus_rtu_send_msg_pre [pkt ! 0, pkt ! 1 + 0x80, 2] # wire c, tx_cnt := Suc (tx_cnt c)\<rparr>)"
proof -
  have q: "mk16 (pkt ! 4) (pkt ! 5) \<noteq> 0" using assms(3,4) by auto
  show ?thesis
    unfolding handler_for_fcode_read_holding_registers_def app_mslave_pick_starting_address_def
      app_mslave_pick_quantity_def
    using assms q
    by (simp add: modbus_reply_exception_def send_msg_def backend_send_def build_response_basis_def)
qed

theorem unmapped_read_not_counted_witness:
  "app_mslave_get_slave_exception_error_cnt
     (snd (handler_for_fcode_read_holding_registers (sample_env []) [1, 3, 2, 0, 0, 1] 8 sample_slave)) = 0
   \<and> wire (snd (handler_for_fcode_read_holding_registers (sample_env []) [1, 3, 2, 0, 0, 1] 8 sample_slave))
     = [modbus_rtu_send_msg_pre [1, 0x83, 2]]"
proof -
  have l: "app_mslave_locate_mapping sample_slave 0x200 ADDR_GP_HOLDING_REGISTER = None"
    by (simp add: locate_None mapping_covers_def sample_mapping_def Let_def)
  have m: "mctx sample_slave \<noteq> None" by (simp add: sample_slave_def)
  have "handler_for_fcode_read_holding_registers (sample_env []) [1, 3, 2, 0, 0, 1] 8 sample_slave =
    (EMBXILADD, sample_slave\<lparr>wire := modbus_rtu_send_msg_pre [[1, 3, 2, 0, 0, 1] ! 0, [1, 3, 2, 0, 0, 1] ! 1 + 0x80, 2]
       # wire sample_slave, tx_cnt := Suc (tx_cnt sample_slave)\<rparr>)"
    by (rule unmapped_read_not_counted [where a = "0x200" and nb = 1]) (simp_all add: l m, simp_all add: mk16_def)
  then show ?thesis
    by (simp add: app_mslave_get_slave_exception_error_cnt_def sample_slave_def init_ctr_def g_mslave_ctr_def
        zero_state_set_def)
qed

text \<open>
  with the default byte order, on a little-endian platform, ''Return Bus Message Count'' sends the
  counter low byte first: the value is stored through a \<^verbatim>\<open>uint16_t\<close> pointer into the response,
  whereas Modbus sends every 16-bit field high byte first.
\<close>

theorem bus_message_count_low_byte_first:
  assumes "4 \<le> n" "mk16 (pkt ! 2) (pkt ! 3) = 0x000B" "mbus_border c = MBUS_BORDER_CDAB"
    and "\<not> big_endian e" "mctx c \<noteq> None" "tx_ok e (tx_cnt c)"
  shows "handler_for_fcode_diagnostics e pkt n c =
    (ERR_NONE, c\<lparr>wire := modbus_rtu_send_msg_pre
       [pkt ! 0, pkt ! 1, pkt ! 2, pkt ! 3,
        lo8 (diag_cnt_bus_message (state_set c)), hi8 (diag_cnt_bus_message (state_set c))] # wire c,
      tx_cnt := Suc (tx_cnt c)\<rparr>)"
proof -
  have "to_set_uint16 MBUS_BORDER_CDAB v = v" for v
  proof -
    have "(ucast (drop_bit 8 v AND 0xFF) :: u8) = hi8 v" "(ucast (v AND 0xFF) :: u8) = lo8 v"
      by (rule bit_word_eqI; auto simp: hi8_def lo8_def bit_simps bit_numeral_rec less_Suc_eq numeral_eq_Suc)+
    then show ?thesis by (simp add: to_set_uint16_def)
  qed
  then show ?thesis
    using assms
    by (simp add: handler_for_fcode_diagnostics_def to_pick_sub_fcode_for_disagnostic_def
        diag_ret_bus_msg_cnt_def diag_value_def app_modbus_com_send_msg_def backend_send_def
        app_mslave_get_mbus_border_def app_mslave_get_bus_msg_cnt_def store16_def)
qed

theorem bus_message_count_low_byte_first_witness:
  "wire (snd (handler_for_fcode_diagnostics (sample_env []) [1, 8, 0, 0xB, 0, 0] 8
      (sample_slave\<lparr>state_set := zero_state_set\<lparr>diag_cnt_bus_message := 0x0102\<rparr>\<rparr>)))
   = [modbus_rtu_send_msg_pre [1, 8, 0, 0xB, 2, 1]]"
proof -
  let ?c = "sample_slave\<lparr>state_set := zero_state_set\<lparr>diag_cnt_bus_message := 0x0102\<rparr>\<rparr>"
  have "mctx ?c \<noteq> None" "mbus_border ?c = MBUS_BORDER_CDAB"
    by (simp_all add: sample_slave_def init_ctr_def)
  moreover have "lo8 0x0102 = 2" "hi8 0x0102 = 1"
    by (simp_all add: lo8_def hi8_def)
  ultimately show ?thesis
    using bus_message_count_low_byte_first [of 8 "[1, 8, 0, 0xB, 0, 0]" ?c "sample_env []"]
    by (simp add: sample_env_def mk16_def)
qed

end
