(* ===== verification/Mslave_Regs.thy ===== *)
theory Mslave_Regs
  imports Mbus_Order
begin

text \<open>
  The register layout of the three products and the routines that write one measured value into the
  registers of a block: \<^verbatim>\<open>to_write_sensor_data_to_register_table\<close>,
  \<^verbatim>\<open>to_write_ist_data_to_register_table\<close>, \<^verbatim>\<open>to_write_gw_data_to_register_table\<close> and the two
  bitmap writers of \<^verbatim>\<open>src/modbus_rtu/modbus_slave/app_mslave_ipc.c\<close>, with the offsets of
  \<^verbatim>\<open>app_mslave_ipc.h\<close>.

  The value of a measurement is a C union; the model keeps its bytes.  The file that holds an alarm
  code is read through a parameter.
\<close>

section \<open>Measurements\<close>

text \<open>The measurement types the writers name; every other type of the protocol is \<^verbatim>\<open>MT_OTHER\<close>.\<close>

datatype measurement_type =
    ADVANCED_ALGO_VEL_OV | ADVANCED_ALGO_ENV_OV | ADVANCED_ALGO_ACC_OV | ADVANCED_ALGO_VEL_RSH
  | ADVANCED_ALGO_VEL_MTR | ADVANCED_ALGO_VEL_FAN | ADVANCED_ALGO_VEL_PUMP | ADVANCED_ALGO_ENV_BPFI
  | ADVANCED_ALGO_ENV_BPFO | ADVANCED_ALGO_ENV_BSF | ADVANCED_ALGO_ENV_FTF | ADVANCED_ALGO_ENV_RSH
  | ADVANCED_ALGO_ACC_GEAR | ADVANCED_ALGO_EST_RPM_START | ADVANCED_ALGO_EST_RPM_END
  | ADVANCED_ALGO_RMS_MAG_PRE | ADVANCED_ALGO_RMS_VIB_PRE | ENVIROMENTAL_TEMPERATURE_CURRENT
  | ENVIROMENTAL_TEMPERATURE_MAX | ENVIROMENTAL_TEMPERATURE_MIN | ADVANCED_ALGO_ALARM_CODE
  | BLE_RSSI_CURRENT | REMAINING_VOLUME | ADVANCED_ALGO_MACHINE_RUN_CODE
  | ADVANCED_ALGO_MACHINE_CONDITON_CODE | BOARD_TEMPERATURE_CURRENT | VOLTAGE_CURRENT
  | MT_OTHER nat

datatype product_type = BULLET_NODE | INSIGHT_T | BULLET_GATEWAY | PRODUCT_OTHER nat

record sensorDataTableData_t =
  sd_nameId :: u32
  sampleTime :: "64 word"
  dataType :: measurement_type
  sd_value :: bytes
  product :: product_type

record appShmDataItem_t_original =
  appShmDataType :: u32
  sensorDataTableData :: sensorDataTableData_t

definition GW_PRO_TABLE_IDX_SENSOR_DATA_TABLE :: u32 where
  "GW_PRO_TABLE_IDX_SENSOR_DATA_TABLE = 4"

text \<open>The members of the union: the object representation of the float depends on the platform.\<close>

definition data_float :: "bool \<Rightarrow> bytes \<Rightarrow> u32" where
  "data_float be v = (if be then join32 (v ! 0) (v ! 1) (v ! 2) (v ! 3) else join32 (v ! 3) (v ! 2) (v ! 1) (v ! 0))"

definition data_uint8 :: "bytes \<Rightarrow> u16" where
  "data_uint8 v = ucast (v ! 0)"

definition data_int8 :: "bytes \<Rightarrow> u16" where
  "data_int8 v = scast (v ! 0)"

definition data_char :: "bytes \<Rightarrow> bytes" where
  "data_char v = take 69 (takeWhile (\<lambda>b. b \<noteq> 0) v)"

section \<open>The layout\<close>

text \<open>Offsets of the fields of a Predict sensor block (registers 0 to 51) and their sizes.\<close>

fun DT_OFFSET :: "measurement_type \<Rightarrow> nat" where
  "DT_OFFSET ADVANCED_ALGO_VEL_OV = 0"
| "DT_OFFSET ADVANCED_ALGO_ENV_OV = 2"
| "DT_OFFSET ADVANCED_ALGO_ACC_OV = 4"
| "DT_OFFSET ADVANCED_ALGO_VEL_RSH = 6"
| "DT_OFFSET ADVANCED_ALGO_VEL_MTR = 8"
| "DT_OFFSET ADVANCED_ALGO_VEL_FAN = 10"
| "DT_OFFSET ADVANCED_ALGO_VEL_PUMP = 12"
| "DT_OFFSET ADVANCED_ALGO_ENV_BPFI = 14"
| "DT_OFFSET ADVANCED_ALGO_ENV_BPFO = 16"
| "DT_OFFSET ADVANCED_ALGO_ENV_BSF = 18"
| "DT_OFFSET ADVANCED_ALGO_ENV_FTF = 20"
| "DT_OFFSET ADVANCED_ALGO_ENV_RSH = 22"
| "DT_OFFSET ADVANCED_ALGO_ACC_GEAR = 24"
| "DT_OFFSET ADVANCED_ALGO_EST_RPM_START = 26"
| "DT_OFFSET ADVANCED_ALGO_EST_RPM_END = 28"
| "DT_OFFSET ADVANCED_ALGO_RMS_MAG_PRE = 30"
| "DT_OFFSET ADVANCED_ALGO_RMS_VIB_PRE = 32"
| "DT_OFFSET ENVIROMENTAL_TEMPERATURE_CURRENT = 34"
| "DT_OFFSET ENVIROMENTAL_TEMPERATURE_MAX = 35"
| "DT_OFFSET ENVIROMENTAL_TEMPERATURE_MIN = 36"
| "DT_OFFSET ADVANCED_ALGO_ALARM_CODE = 37"
| "DT_OFFSET BLE_RSSI_CURRENT = 42"
| "DT_OFFSET REMAINING_VOLUME = 43"
| "DT_OFFSET ADVANCED_ALGO_MACHINE_RUN_CODE = 44"
| "DT_OFFSET ADVANCED_ALGO_MACHINE_CONDITON_CODE = 45"
| "DT_OFFSET _ = 0"

definition DT_LAST_VIB_SENSING_TIME_OFFSET :: nat where "DT_LAST_VIB_SENSING_TIME_OFFSET = 46"
definition DT_LAST_TEMP_SENSING_TIME_OFFSET :: nat where "DT_LAST_TEMP_SENSING_TIME_OFFSET = 48"
definition DT_UPDATE_I_OFFSET :: nat where "DT_UPDATE_I_OFFSET = 50"
definition DT_UPDATE_II_OFFSET :: nat where "DT_UPDATE_II_OFFSET = 51"
definition DT_ADVANCED_ALGO_ALARM_CODE_REGNUM :: nat where "DT_ADVANCED_ALGO_ALARM_CODE_REGNUM = 5"
definition SZ_FROTO_ALARM_CODE :: nat where "SZ_FROTO_ALARM_CODE = 9"

text \<open>Insight-T and gateway.\<close>

definition DT_IST_BOARD_TEMPERATURE_CURRENT_OFFSET :: nat where "DT_IST_BOARD_TEMPERATURE_CURRENT_OFFSET = 0"
definition DT_VOLTAGE_CUTTENT_OFFSET :: nat where "DT_VOLTAGE_CUTTENT_OFFSET = 2"
definition DT_IST_BLE_RSSI_CURRENT_OFFSET :: nat where "DT_IST_BLE_RSSI_CURRENT_OFFSET = 4"
definition DT_IST_ENVIRONMENTAL_TEMPERATURE_CURRENT_OFFSET :: nat where
  "DT_IST_ENVIRONMENTAL_TEMPERATURE_CURRENT_OFFSET = 5"
definition DT_IST_TEMP_SENSING_TIME_OFFSET :: nat where "DT_IST_TEMP_SENSING_TIME_OFFSET = 6"
definition DT_IST_UPDATE_I_OFFSET :: nat where "DT_IST_UPDATE_I_OFFSET = 8"
definition DT_GW_BOARD_TEMPERATURE_CURRENT_OFFSET :: nat where "DT_GW_BOARD_TEMPERATURE_CURRENT_OFFSET = 0"
definition DT_GW_LAST_TEMP_SENSING_TIME_OFFSET :: nat where "DT_GW_LAST_TEMP_SENSING_TIME_OFFSET = 1"
definition MODBUS_REG_SENSOR_LENGTH :: nat where "MODBUS_REG_SENSOR_LENGTH = 0x80"

section \<open>Writing registers\<close>

text \<open>
  Storing a list of registers from index \<^term>\<open>i\<close> on.  Before each store the source compares the end
  of the store with the end of the table and leaves the switch when it lies behind it
  (''mapping overflow''); \<^verbatim>\<open>put_checked\<close> is the store under this check.
\<close>

definition put_regs :: "nat \<Rightarrow> u16 list \<Rightarrow> modbus_mapping_t \<Rightarrow> modbus_mapping_t" where
  "put_regs i ws m = m\<lparr>tab_registers := take i (tab_registers m) @ ws @ drop (i + length ws) (tab_registers m)\<rparr>"

definition put_checked :: "nat \<Rightarrow> u16 list \<Rightarrow> modbus_mapping_t \<Rightarrow> modbus_mapping_t option" where
  "put_checked i ws m = (if i + length ws > nb_registers m then None else Some (put_regs i ws m))"

text \<open>A store whose overflow ends the switch.\<close>

definition store_field :: "nat \<Rightarrow> u16 list \<Rightarrow> modbus_mapping_t \<Rightarrow> error_code \<times> modbus_mapping_t" where
  "store_field i ws m = (case put_checked i ws m of None \<Rightarrow> (ERR_NONE, m) | Some m' \<Rightarrow> (ERR_NONE, m'))"

text \<open>Two stores, the second of which is skipped when the first one overflows.\<close>

definition store_two :: "nat \<Rightarrow> u16 list \<Rightarrow> nat \<Rightarrow> u16 list \<Rightarrow> modbus_mapping_t \<Rightarrow> error_code \<times> modbus_mapping_t" where
  "store_two i ws j vs m =
     (case put_checked i ws m of None \<Rightarrow> (ERR_NONE, m) | Some m' \<Rightarrow> store_field j vs m')"

section \<open>Alarm codes\<close>

datatype file_read = FR_no_access | FR_open_fail | FR_read bytes

text \<open>
  The loop over the nine bytes of an alarm code: two bytes for each register, high byte first.
\<close>

function alarm_loop :: "mbus_byte_oder \<Rightarrow> bytes \<Rightarrow> nat \<Rightarrow> nat \<Rightarrow> modbus_mapping_t \<Rightarrow> modbus_mapping_t" where
  "alarm_loop bo code base tpidx m =
     (let tpu16 = mk16 (code ! (tpidx mod SZ_FROTO_ALARM_CODE)) 0;
          tpidx = tpidx + 1;
          reg = (\<lambda>tpidx. base + ((tpidx - 1) div 2) mod DT_ADVANCED_ALGO_ALARM_CODE_REGNUM) in
      if tpidx \<ge> SZ_FROTO_ALARM_CODE then put_regs (reg tpidx) [to_set_uint16 bo tpu16] m
      else let tpu16 = tpu16 + ucast (code ! (tpidx mod SZ_FROTO_ALARM_CODE)); tpidx = tpidx + 1 in
      if tpidx \<ge> SZ_FROTO_ALARM_CODE then put_regs (reg tpidx) [to_set_uint16 bo tpu16] m
      else alarm_loop bo code base tpidx (put_regs (reg tpidx) [to_set_uint16 bo tpu16] m))"
  by pat_completeness auto
termination
  by (relation "measure (\<lambda>(_, _, _, i, _). 9 - i)") (auto simp: SZ_FROTO_ALARM_CODE_def)

definition write_alarm_code ::
    "(bytes \<Rightarrow> file_read) \<Rightarrow> mbus_byte_oder \<Rightarrow> bytes \<Rightarrow> nat \<Rightarrow> modbus_mapping_t \<Rightarrow> error_code \<times> modbus_mapping_t" where
  "write_alarm_code fs bo path base m =
     (case fs path of
        FR_no_access \<Rightarrow> (ERR_NO_PERMISSION, m)
      | FR_open_fail \<Rightarrow> (ERR_API_FAIL, m)
      | FR_read code \<Rightarrow>
          if length code \<noteq> SZ_FROTO_ALARM_CODE then (ERR_API_FAIL, m)
          else if base + DT_ADVANCED_ALGO_ALARM_CODE_REGNUM > nb_registers m then (ERR_NONE, m)
          else (ERR_NONE, alarm_loop bo code base 0 m))"

section \<open>The writers\<close>

text \<open>The fields of a Predict sensor, by the kind of value the case of the source stores.\<close>

datatype field_kind = FK_FLOAT | FK_INT8 | FK_INT8_TIME | FK_UINT8 | FK_ALARM | FK_NONE

fun prs_field :: "measurement_type \<Rightarrow> field_kind" where
  "prs_field ADVANCED_ALGO_VEL_OV = FK_FLOAT"
| "prs_field ADVANCED_ALGO_ENV_OV = FK_FLOAT"
| "prs_field ADVANCED_ALGO_ACC_OV = FK_FLOAT"
| "prs_field ADVANCED_ALGO_VEL_RSH = FK_FLOAT"
| "prs_field ADVANCED_ALGO_VEL_MTR = FK_FLOAT"
| "prs_field ADVANCED_ALGO_VEL_FAN = FK_FLOAT"
| "prs_field ADVANCED_ALGO_VEL_PUMP = FK_FLOAT"
| "prs_field ADVANCED_ALGO_ENV_BPFI = FK_FLOAT"
| "prs_field ADVANCED_ALGO_ENV_BPFO = FK_FLOAT"
| "prs_field ADVANCED_ALGO_ENV_BSF = FK_FLOAT"
| "prs_field ADVANCED_ALGO_ENV_FTF = FK_FLOAT"
| "prs_field ADVANCED_ALGO_ENV_RSH = FK_FLOAT"
| "prs_field ADVANCED_ALGO_ACC_GEAR = FK_FLOAT"
| "prs_field ADVANCED_ALGO_EST_RPM_START = FK_FLOAT"
| "prs_field ADVANCED_ALGO_EST_RPM_END = FK_FLOAT"
| "prs_field ADVANCED_ALGO_RMS_MAG_PRE = FK_FLOAT"
| "prs_field ADVANCED_ALGO_RMS_VIB_PRE = FK_FLOAT"
| "prs_field ENVIROMENTAL_TEMPERATURE_CURRENT = FK_INT8_TIME"
| "prs_field ENVIROMENTAL_TEMPERATURE_MAX = FK_INT8"
| "prs_field ENVIROMENTAL_TEMPERATURE_MIN = FK_INT8"
| "prs_field ADVANCED_ALGO_ALARM_CODE = FK_ALARM"
| "prs_field BLE_RSSI_CURRENT = FK_INT8"
| "prs_field REMAINING_VOLUME = FK_UINT8"
| "prs_field ADVANCED_ALGO_MACHINE_RUN_CODE = FK_UINT8"
| "prs_field ADVANCED_ALGO_MACHINE_CONDITON_CODE = FK_UINT8"
| "prs_field _ = FK_NONE"

text \<open>The types after which the time of the last vibration measurement is stored.\<close>

definition vibration_types :: "measurement_type list" where
  "vibration_types = [ADVANCED_ALGO_VEL_OV, ADVANCED_ALGO_VEL_RSH, ADVANCED_ALGO_VEL_MTR, ADVANCED_ALGO_VEL_FAN,
     ADVANCED_ALGO_VEL_PUMP, ADVANCED_ALGO_ENV_OV, ADVANCED_ALGO_ENV_BPFI, ADVANCED_ALGO_ENV_BPFO,
     ADVANCED_ALGO_ENV_BSF, ADVANCED_ALGO_ENV_FTF, ADVANCED_ALGO_ENV_RSH, ADVANCED_ALGO_ACC_OV,
     ADVANCED_ALGO_ACC_GEAR]"

text \<open>First switch: the value.\<close>

definition write_prs_value ::
    "bool \<Rightarrow> (bytes \<Rightarrow> file_read) \<Rightarrow> mbus_byte_oder \<Rightarrow> sensorDataTableData_t \<Rightarrow> nat \<Rightarrow> modbus_mapping_t
     \<Rightarrow> error_code \<times> modbus_mapping_t" where
  "write_prs_value be fs bo sd ofs m =
     (let base = ofs + DT_OFFSET (dataType sd); v = sd_value sd in
      case prs_field (dataType sd) of
        FK_FLOAT \<Rightarrow> store_field base (to_set_float bo (data_float be v)) m
      | FK_INT8 \<Rightarrow> store_field base [to_set_uint16 bo (data_int8 v)] m
      | FK_INT8_TIME \<Rightarrow> store_two base [to_set_uint16 bo (data_int8 v)]
            (ofs + DT_LAST_TEMP_SENSING_TIME_OFFSET) (to_set_uint32 bo (ucast (sampleTime sd))) m
      | FK_UINT8 \<Rightarrow> store_field base [to_set_uint16 bo (data_uint8 v)] m
      | FK_ALARM \<Rightarrow> write_alarm_code fs bo (data_char v) base m
      | FK_NONE \<Rightarrow> (EMBBADDATA, m))"

text \<open>
  The checks that precede the switch in the three writers.  \<^term>\<open>nb_registers\<close> is an \<^verbatim>\<open>int\<close> that
  is never negative.
\<close>

definition write_guard :: "u32 \<Rightarrow> nat \<Rightarrow> modbus_mapping_t \<Rightarrow> error_code option" where
  "write_guard ty ofs m =
     (if ty \<noteq> GW_PRO_TABLE_IDX_SENSOR_DATA_TABLE then Some ERR_INVALID_PARAM
      else if nb_registers m \<le> ofs then Some ERR_UNKNOWN
      else if nb_registers m * 2 = 0 then Some ERR_INVALID_PARAM
      else None)"

definition to_write_sensor_data_to_register_table ::
    "bool \<Rightarrow> (bytes \<Rightarrow> file_read) \<Rightarrow> mbus_byte_oder \<Rightarrow> modbus_mapping_t \<Rightarrow> appShmDataItem_t_original \<Rightarrow> u16
     \<Rightarrow> error_code \<times> modbus_mapping_t" where
  "to_write_sensor_data_to_register_table be fs bo m item ofs =
     (let off = unat ofs; sd = sensorDataTableData item in
      case write_guard (appShmDataType item) off m of
        Some err \<Rightarrow> (err, m)
      | None \<Rightarrow>
          let (tpret, m) = write_prs_value be fs bo sd off m in
          if dataType sd \<in> set vibration_types
          then (tpret, snd (store_field (off + DT_LAST_VIB_SENSING_TIME_OFFSET)
                              (to_set_uint32 bo (ucast (sampleTime sd))) m))
          else (tpret, m))"

definition to_write_sensor_bitmap_to_register_table ::
    "mbus_byte_oder \<Rightarrow> modbus_mapping_t \<Rightarrow> 64 word \<Rightarrow> u16 \<Rightarrow> error_code \<times> modbus_mapping_t" where
  "to_write_sensor_bitmap_to_register_table bo m val ofs =
     (let off = unat ofs in
      if nb_registers m \<le> off then (ERR_INVALID_PARAM, m)
      else if nb_registers m * 2 = 0 then (ERR_INVALID_PARAM, m)
      else store_two (off + DT_UPDATE_I_OFFSET) [to_set_uint16 bo (ucast (val AND 0xFF))]
             (off + DT_UPDATE_II_OFFSET) [to_set_uint16 bo (ucast (drop_bit 16 val AND 0xFF))] m)"

definition to_write_ist_data_to_register_table ::
    "bool \<Rightarrow> mbus_byte_oder \<Rightarrow> modbus_mapping_t \<Rightarrow> appShmDataItem_t_original \<Rightarrow> u16
     \<Rightarrow> error_code \<times> modbus_mapping_t" where
  "to_write_ist_data_to_register_table be bo m item ofs =
     (let off = unat ofs; sd = sensorDataTableData item; v = sd_value sd in
      case write_guard (appShmDataType item) off m of
        Some err \<Rightarrow> (err, m)
      | None \<Rightarrow>
          if dataType sd = BOARD_TEMPERATURE_CURRENT
          then store_field (off + DT_IST_BOARD_TEMPERATURE_CURRENT_OFFSET) (to_set_float bo (data_float be v)) m
          else if dataType sd = VOLTAGE_CURRENT
          then store_field (off + DT_VOLTAGE_CUTTENT_OFFSET) (to_set_float bo (data_float be v)) m
          else if dataType sd = BLE_RSSI_CURRENT
          then store_field (off + DT_IST_BLE_RSSI_CURRENT_OFFSET) [to_set_uint16 bo (data_int8 v)] m
          else if dataType sd = ENVIROMENTAL_TEMPERATURE_CURRENT
          then store_two (off + DT_IST_ENVIRONMENTAL_TEMPERATURE_CURRENT_OFFSET) [to_set_uint16 bo (data_int8 v)]
                 (off + DT_IST_TEMP_SENSING_TIME_OFFSET) (to_set_uint32 bo (ucast (sampleTime sd))) m
          else (EMBBADDATA, m))"

definition to_write_ist_bitmap_to_register_table ::
    "mbus_byte_oder \<Rightarrow> modbus_mapping_t \<Rightarrow> 64 word \<Rightarrow> u16 \<Rightarrow> error_code \<times> modbus_mapping_t" where
  "to_write_ist_bitmap_to_register_table bo m val ofs =
     (let off = unat ofs in
      if nb_registers m \<le> off then (ERR_UNKNOWN, m)
      else if nb_registers m * 2 = 0 then (ERR_INVALID_PARAM, m)
      else store_field (off + DT_IST_UPDATE_I_OFFSET) [to_set_uint16 bo (ucast (val AND 0xFF))] m)"

definition to_write_gw_data_to_register_table ::
    "mbus_byte_oder \<Rightarrow> modbus_mapping_t \<Rightarrow> appShmDataItem_t_original \<Rightarrow> u16 \<Rightarrow> error_code \<times> modbus_mapping_t" where
  "to_write_gw_data_to_register_table bo m item ofs =
     (let off = unat ofs; sd = sensorDataTableData item; v = sd_value sd in
      if appShmDataType item \<noteq> GW_PRO_TABLE_IDX_SENSOR_DATA_TABLE then (ERR_INVALID_PARAM, m)
      else if nb_registers m \<le> off then (ERR_UNKNOWN, m)
      else if MODBUS_REG_SENSOR_LENGTH > nb_registers m - off then (EMBMDATA, m)
      else if nb_registers m * 2 = 0 then (ERR_INVALID_PARAM, m)
      else if dataType sd = BOARD_TEMPERATURE_CURRENT
      then store_two (off + DT_GW_BOARD_TEMPERATURE_CURRENT_OFFSET) [to_set_uint16 bo (data_int8 v)]
             (off + DT_GW_LAST_TEMP_SENSING_TIME_OFFSET) (to_set_uint32 bo (ucast (sampleTime sd))) m
      else (EMBBADDATA, m))"

lemmas layout_defs =
  DT_LAST_VIB_SENSING_TIME_OFFSET_def DT_LAST_TEMP_SENSING_TIME_OFFSET_def DT_UPDATE_I_OFFSET_def
  DT_UPDATE_II_OFFSET_def DT_ADVANCED_ALGO_ALARM_CODE_REGNUM_def SZ_FROTO_ALARM_CODE_def
  DT_IST_BOARD_TEMPERATURE_CURRENT_OFFSET_def DT_VOLTAGE_CUTTENT_OFFSET_def
  DT_IST_BLE_RSSI_CURRENT_OFFSET_def DT_IST_ENVIRONMENTAL_TEMPERATURE_CURRENT_OFFSET_def
  DT_IST_TEMP_SENSING_TIME_OFFSET_def DT_IST_UPDATE_I_OFFSET_def
  DT_GW_BOARD_TEMPERATURE_CURRENT_OFFSET_def DT_GW_LAST_TEMP_SENSING_TIME_OFFSET_def
  MODBUS_REG_SENSOR_LENGTH_def

section \<open>The layout has no gaps and no overlaps\<close>

definition prs_types :: "measurement_type list" where
  "prs_types = [ADVANCED_ALGO_VEL_OV, ADVANCED_ALGO_ENV_OV, ADVANCED_ALGO_ACC_OV, ADVANCED_ALGO_VEL_RSH,
     ADVANCED_ALGO_VEL_MTR, ADVANCED_ALGO_VEL_FAN, ADVANCED_ALGO_VEL_PUMP, ADVANCED_ALGO_ENV_BPFI,
     ADVANCED_ALGO_ENV_BPFO, ADVANCED_ALGO_ENV_BSF, ADVANCED_ALGO_ENV_FTF, ADVANCED_ALGO_ENV_RSH,
     ADVANCED_ALGO_ACC_GEAR, ADVANCED_ALGO_EST_RPM_START, ADVANCED_ALGO_EST_RPM_END,
     ADVANCED_ALGO_RMS_MAG_PRE, ADVANCED_ALGO_RMS_VIB_PRE, ENVIROMENTAL_TEMPERATURE_CURRENT,
     ENVIROMENTAL_TEMPERATURE_MAX, ENVIROMENTAL_TEMPERATURE_MIN, ADVANCED_ALGO_ALARM_CODE,
     BLE_RSSI_CURRENT, REMAINING_VOLUME, ADVANCED_ALGO_MACHINE_RUN_CODE,
     ADVANCED_ALGO_MACHINE_CONDITON_CODE]"

definition field_regnum :: "measurement_type \<Rightarrow> nat" where
  "field_regnum t = (case prs_field t of FK_FLOAT \<Rightarrow> 2 | FK_ALARM \<Rightarrow> 5 | FK_NONE \<Rightarrow> 0 | _ \<Rightarrow> 1)"

definition prs_regs :: "measurement_type \<Rightarrow> nat list" where
  "prs_regs t = [DT_OFFSET t..<DT_OFFSET t + field_regnum t]"

lemma prs_types_complete: "prs_field t \<noteq> FK_NONE \<longleftrightarrow> t \<in> set prs_types"
  by (cases t) (simp_all add: prs_types_def)

lemma prs_partition: "concat (map prs_regs prs_types) = [0..<46]"
  by (simp add: prs_types_def prs_regs_def field_regnum_def) (simp add: upt_rec)

text \<open>
  the fields of a Predict sensor partition the registers 0 to 45 of its block, in the order of the
  header file: two different measurement types never share a register, and no register is left out.
\<close>

theorem prs_layout_partition:
  "concat (map prs_regs prs_types) = [0..<46]
   \<and> (\<forall>t. prs_field t \<noteq> FK_NONE \<longleftrightarrow> t \<in> set prs_types)"
  using prs_partition prs_types_complete by blast

lemma prs_regs_bound: "k \<in> set (prs_regs t) \<Longrightarrow> k < 46"
proof -
  assume k: "k \<in> set (prs_regs t)"
  then have "t \<in> set prs_types"
    by (auto simp: prs_regs_def field_regnum_def prs_types_complete [symmetric])
  then have "k \<in> set (concat (map prs_regs prs_types))" using k by auto
  then show "k < 46" unfolding prs_partition by simp
qed

section \<open>What a write changes\<close>

text \<open>Only registers of \<^term>\<open>S\<close> may differ; the header of the block stays.\<close>

definition only_regs :: "nat set \<Rightarrow> modbus_mapping_t \<Rightarrow> modbus_mapping_t \<Rightarrow> bool" where
  "only_regs S m m' \<longleftrightarrow> m' = m\<lparr>tab_registers := tab_registers m'\<rparr>
     \<and> length (tab_registers m') = length (tab_registers m)
     \<and> (\<forall>k. k \<notin> S \<longrightarrow> tab_registers m' ! k = tab_registers m ! k)"

lemma only_regs_refl: "only_regs S m m"
  by (simp add: only_regs_def)

lemma only_regs_trans: "only_regs S m m' \<Longrightarrow> only_regs S m' m'' \<Longrightarrow> only_regs S m m''"
  by (cases m; cases m'; cases m'') (auto simp: only_regs_def)

lemma only_regs_mono: "only_regs S m m' \<Longrightarrow> S \<subseteq> T \<Longrightarrow> only_regs T m m'"
  by (auto simp: only_regs_def)

lemma only_regs_header:
  assumes "only_regs S m m'"
  shows "nb_registers m' = nb_registers m" "start_registers m' = start_registers m"
    "mapping_wf m \<Longrightarrow> mapping_wf m'"
proof -
  obtain t where "m' = m\<lparr>tab_registers := t\<rparr>" "length t = length (tab_registers m)"
    using assms by (metis only_regs_def)
  then show "nb_registers m' = nb_registers m" "start_registers m' = start_registers m"
    "mapping_wf m \<Longrightarrow> mapping_wf m'"
    by (simp_all add: mapping_wf_def)
qed

lemma put_regs_only:
  assumes "i + length ws \<le> length (tab_registers m)" "{i..<i + length ws} \<subseteq> S"
  shows "only_regs S m (put_regs i ws m)"
proof -
  have "tab_registers (put_regs i ws m) ! k = tab_registers m ! k" if "k \<notin> S" for k
  proof -
    have "k < i \<or> i + length ws \<le> k" using that assms(2) by (auto simp: subset_iff not_less)
    moreover have "min (length (tab_registers m)) i = i" using assms(1) by simp
    ultimately show ?thesis using assms(1) by (auto simp: put_regs_def nth_append)
  qed
  then show ?thesis
    using assms(1) by (simp add: only_regs_def put_regs_def)
qed

lemma put_regs_content:
  "i + length ws \<le> length (tab_registers m) \<Longrightarrow>
   take (length ws) (drop i (tab_registers (put_regs i ws m))) = ws"
  by (simp add: put_regs_def min_def)

lemma put_regs_append:
  assumes "i + length ws \<le> length (tab_registers m)"
  shows "put_regs (i + length ws) vs (put_regs i ws m) = put_regs i (ws @ vs) m"
proof -
  have "min (length (tab_registers m)) i = i" using assms by simp
  then show ?thesis using assms by (simp add: put_regs_def ac_simps)
qed

lemma store_field_only:
  assumes "mapping_wf m" "{i..<i + length ws} \<subseteq> S"
  shows "only_regs S m (snd (store_field i ws m))"
  using assms put_regs_only [of i ws m S]
  by (auto simp: store_field_def put_checked_def mapping_wf_def only_regs_refl)

lemma store_two_only:
  assumes "mapping_wf m" "{i..<i + length ws} \<subseteq> S" "{j..<j + length vs} \<subseteq> S"
  shows "only_regs S m (snd (store_two i ws j vs m))"
proof (cases "i + length ws \<le> nb_registers m")
  case True
  then have o: "only_regs S m (put_regs i ws m)"
    using assms by (intro put_regs_only) (auto simp: mapping_wf_def)
  then have "only_regs S (put_regs i ws m) (snd (store_field j vs (put_regs i ws m)))"
    using assms only_regs_header(3) by (intro store_field_only)
  then show ?thesis
    using True o by (auto simp: store_two_def put_checked_def intro: only_regs_trans)
next
  case False
  then show ?thesis by (simp add: store_two_def put_checked_def only_regs_refl)
qed

lemma length_set_float [simp]: "length (to_set_float bo v) = 2"
  by (cases bo) (simp_all add: to_set_float_def Let_def)

lemma length_set_uint32 [simp]: "length (to_set_uint32 bo v) = 2"
  by (cases bo) (simp_all add: to_set_uint32_def Let_def)

lemma mk16_add: "mk16 h 0 + ucast l = mk16 h l"
proof -
  have b: "unat h < 256" "unat l < 256" by simp_all
  have "take_bit 16 (unat l) = unat l"
    by (intro take_bit_nat_eq_self order.strict_trans [OF b(2)]) simp
  moreover have "(256 * unat h + unat l) mod 65536 = 256 * unat h + unat l"
    using b by (intro mod_less) linarith
  ultimately have "unat (mk16 h 0 + ucast l) = unat (mk16 h l)"
    using unat_mk16 [of h 0] unat_mk16 [of h l] by (simp add: unat_word_ariths unsigned_ucast_eq)
  then show ?thesis by (simp add: word_unat_eq_iff)
qed

text \<open>The alarm loop stores the nine bytes of the code, padded with 0, as five registers.\<close>

lemma alarm_loop_eq:
  assumes "base + 5 \<le> length (tab_registers m)"
  shows "alarm_loop bo [c0, c1, c2, c3, c4, c5, c6, c7, c8] base 0 m =
    put_regs base (map (to_set_uint16 bo) [mk16 c0 c1, mk16 c2 c3, mk16 c4 c5, mk16 c6 c7, mk16 c8 0]) m"
proof -
  let ?code = "[c0, c1, c2, c3, c4, c5, c6, c7, c8]"
  have step: "alarm_loop bo ?code base i m =
      alarm_loop bo ?code base (i + 2)
        (put_regs (base + i div 2) [to_set_uint16 bo (mk16 (?code ! i) (?code ! (i + 1)))] m)"
    if "i \<in> {0, 2, 4, 6}" for i m
    using that by (subst alarm_loop.simps) (auto simp: layout_defs Let_def mk16_add)
  have last: "alarm_loop bo ?code base 8 m = put_regs (base + 4) [to_set_uint16 bo (mk16 c8 0)] m" for m
    by (subst alarm_loop.simps) (simp add: layout_defs Let_def)
  have merge: "put_regs (base + n) [w] (put_regs base ws m) = put_regs base (ws @ [w]) m"
    if "length ws = n" "n \<le> 5" for ws n w
    using put_regs_append [of base ws m "[w]"] that assms by simp
  show ?thesis
    using step [of 0 m, unfolded add_0 numeral_2_eq_2 [symmetric]] step [of 2] step [of 4] step [of 6] last
      merge [of "[a]" 1 for a] merge [of "[a, b]" 2 for a b] merge [of "[a, b, c]" 3 for a b c]
      merge [of "[a, b, c, d]" 4 for a b c d]
    by (simp del: alarm_loop.simps add: numeral_2_eq_2 [symmetric])
qed

section \<open>The contract of the writers\<close>

text \<open>
  A writer of a product changes only the registers of its own layout, \<^term>\<open>width\<close> registers from the
  offset on.
\<close>

locale register_writer =
  fixes wr :: "u16 \<Rightarrow> modbus_mapping_t \<Rightarrow> error_code \<times> modbus_mapping_t" and width :: nat
  assumes write_only: "mapping_wf m \<Longrightarrow> only_regs {unat ofs..<unat ofs + width} m (snd (wr ofs m))"
begin

lemma write_wf: "mapping_wf m \<Longrightarrow> mapping_wf (snd (wr ofs m))"
  using only_regs_header(3) [OF write_only] by blast

lemma write_shape:
  "mapping_wf m \<Longrightarrow> nb_registers (snd (wr ofs m)) = nb_registers m
     \<and> start_registers (snd (wr ofs m)) = start_registers m"
  using only_regs_header(1,2) [OF write_only] by blast

text \<open>A value stored behind the field survives.\<close>

lemma write_keeps:
  "mapping_wf m \<Longrightarrow> unat ofs + width \<le> k \<Longrightarrow> tab_registers (snd (wr ofs m)) ! k = tab_registers m ! k"
  using write_only [of m ofs] by (simp add: only_regs_def)

end

lemma write_alarm_only:
  assumes "mapping_wf m" "{base..<base + 5} \<subseteq> S"
  shows "only_regs S m (snd (write_alarm_code fs bo path base m))"
proof -
  have "only_regs S m (alarm_loop bo code base 0 m)"
    if l: "length code = 9" "base + 5 \<le> nb_registers m" for code
  proof -
    obtain c0 c1 c2 c3 c4 c5 c6 c7 c8 where code: "code = [c0, c1, c2, c3, c4, c5, c6, c7, c8]"
      using l(1) by (auto simp: length_Suc_conv numeral_eq_Suc)
    then show ?thesis
      using assms l(2) alarm_loop_eq [of base m bo] by (auto simp: mapping_wf_def intro!: put_regs_only)
  qed
  then show ?thesis
    by (auto simp: write_alarm_code_def layout_defs only_regs_refl not_less split: file_read.splits)
qed

lemma write_prs_value_only:
  assumes "mapping_wf m"
  shows "only_regs ((+) ofs ` set (prs_regs (dataType sd)) \<union> {ofs + 48, ofs + 49}) m
    (snd (write_prs_value be fs bo sd ofs m))"
proof -
  let ?t = "dataType sd" and ?S = "(+) ofs ` set (prs_regs (dataType sd)) \<union> {ofs + 48, ofs + 49}"
  have field: "{ofs + DT_OFFSET ?t..<ofs + DT_OFFSET ?t + field_regnum ?t} \<subseteq> ?S"
  proof
    fix k assume "k \<in> {ofs + DT_OFFSET ?t..<ofs + DT_OFFSET ?t + field_regnum ?t}"
    then have "k = ofs + (k - ofs)" "k - ofs \<in> set (prs_regs ?t)" by (auto simp: prs_regs_def)
    then show "k \<in> ?S" by blast
  qed
  have one: "only_regs ?S m (snd (store_field (ofs + DT_OFFSET ?t) ws m))" if "length ws = field_regnum ?t" for ws
    using store_field_only [OF assms] field that by simp
  have two: "only_regs ?S m (snd (store_two (ofs + DT_OFFSET ?t) ws (ofs + 48) vs m))"
    if "length ws = field_regnum ?t" "length vs = 2" for ws vs
  proof (rule store_two_only [OF assms])
    show "{ofs + DT_OFFSET ?t..<ofs + DT_OFFSET ?t + length ws} \<subseteq> ?S" using field that by simp
    have "{ofs + 48..<ofs + 48 + 2} = {ofs + 48, ofs + 49}" by auto
    then show "{ofs + 48..<ofs + 48 + length vs} \<subseteq> ?S" using that by simp
  qed
  have alarm: "only_regs ?S m (snd (write_alarm_code fs bo path (ofs + DT_OFFSET ?t) m))"
    if "field_regnum ?t = 5" for path
    using write_alarm_only [OF assms] field that by simp
  show ?thesis
    unfolding write_prs_value_def Let_def
    using one two alarm
    by (cases "prs_field ?t") (simp_all add: field_regnum_def layout_defs only_regs_refl)
qed

lemma sensor_write_only:
  assumes "mapping_wf m"
  shows "only_regs ((+) (unat ofs) ` (set (prs_regs (dataType (sensorDataTableData item))) \<union> {46..<50})) m
    (snd (to_write_sensor_data_to_register_table be fs bo m item ofs))"
proof -
  let ?sd = "sensorDataTableData item" and ?o = "unat ofs"
  let ?S = "(+) ?o ` (set (prs_regs (dataType ?sd)) \<union> {46..<50})"
  let ?m = "snd (write_prs_value be fs bo ?sd ?o m)"
  have v: "only_regs ?S m ?m"
  proof (rule only_regs_mono [OF write_prs_value_only [OF assms]])
    have "?o + 48 \<in> (+) ?o ` {46..<50}" "?o + 49 \<in> (+) ?o ` {46..<50}" by simp_all
    then show "(+) ?o ` set (prs_regs (dataType ?sd)) \<union> {?o + 48, ?o + 49} \<subseteq> ?S" by blast
  qed
  have t: "{?o + 46..<?o + 46 + 2} \<subseteq> ?S"
  proof
    fix k assume "k \<in> {?o + 46..<?o + 46 + 2}"
    then have "k = ?o + (k - ?o)" "k - ?o \<in> {46..<50}" by auto
    then show "k \<in> ?S" by blast
  qed
  let ?m' = "snd (store_field (?o + 46) (to_set_uint32 bo (ucast (sampleTime ?sd))) ?m)"
  have "only_regs ?S ?m ?m'"
    using only_regs_header(3) [OF v assms] t by (intro store_field_only) simp_all
  then have v': "only_regs ?S m ?m'" by (rule only_regs_trans [OF v])
  have "snd (to_write_sensor_data_to_register_table be fs bo m item ofs) \<in> {m, ?m, ?m'}"
    unfolding to_write_sensor_data_to_register_table_def Let_def
    by (simp add: case_prod_beta layout_defs split: option.split)
  then consider "snd (to_write_sensor_data_to_register_table be fs bo m item ofs) = m"
    | "snd (to_write_sensor_data_to_register_table be fs bo m item ofs) = ?m"
    | "snd (to_write_sensor_data_to_register_table be fs bo m item ofs) = ?m'"
    by (simp only: insert_iff empty_iff) (elim disjE FalseE)
  then show ?thesis
    by cases (simp_all only: v v' only_regs_refl)
qed

interpretation prs_writer: register_writer "\<lambda>ofs m. to_write_sensor_data_to_register_table be fs bo m item ofs" 50
  for be fs bo item
proof unfold_locales
  fix m :: modbus_mapping_t and ofs :: u16
  assume wf: "mapping_wf m"
  show "only_regs {unat ofs..<unat ofs + 50} m
      (snd (to_write_sensor_data_to_register_table be fs bo m item ofs))"
  proof (rule only_regs_mono [OF sensor_write_only [OF wf]])
    show "(+) (unat ofs) ` (set (prs_regs (dataType (sensorDataTableData item))) \<union> {46..<50})
      \<subseteq> {unat ofs..<unat ofs + 50}"
      by (auto dest: prs_regs_bound)
  qed
qed

interpretation prs_bitmap: register_writer "\<lambda>ofs m. to_write_sensor_bitmap_to_register_table bo m val ofs" 52
  for bo val
  by unfold_locales
    (auto simp: to_write_sensor_bitmap_to_register_table_def Let_def layout_defs only_regs_refl
      intro!: store_two_only)

interpretation ist_writer: register_writer "\<lambda>ofs m. to_write_ist_data_to_register_table be bo m item ofs" 8
  for be bo item
  by unfold_locales
    (auto simp: to_write_ist_data_to_register_table_def Let_def layout_defs only_regs_refl
      split: option.splits intro!: store_two_only store_field_only)

interpretation ist_bitmap: register_writer "\<lambda>ofs m. to_write_ist_bitmap_to_register_table bo m val ofs" 9
  for bo val
  by unfold_locales
    (auto simp: to_write_ist_bitmap_to_register_table_def Let_def layout_defs only_regs_refl
      intro!: store_field_only)

interpretation gw_writer: register_writer "\<lambda>ofs m. to_write_gw_data_to_register_table bo m item ofs" 3
  for bo item
  by unfold_locales
    (auto simp: to_write_gw_data_to_register_table_def Let_def layout_defs only_regs_refl
      intro!: store_two_only)

section \<open>What a master reads back\<close>

text \<open>
  a measured value of a Predict sensor changes only the registers of its own field and the
  registers of the two sensing times; no other field of the block changes, whatever the block size,
  and the block keeps its size and start address.
\<close>

theorem sensor_write_frame:
  assumes "mapping_wf m"
    and "to_write_sensor_data_to_register_table be fs bo m item ofs = (tpret, m')"
  shows "mapping_wf m' \<and> nb_registers m' = nb_registers m \<and> start_registers m' = start_registers m
    \<and> (\<forall>k. k \<notin> (+) (unat ofs) ` (set (prs_regs (dataType (sensorDataTableData item))) \<union> {46..<50})
         \<longrightarrow> tab_registers m' ! k = tab_registers m ! k)"
  using sensor_write_only [OF assms(1), of ofs item be fs bo] prs_writer.write_shape [OF assms(1), of be fs bo item ofs]
    prs_writer.write_wf [OF assms(1), of be fs bo item ofs] assms(2)
  by (auto simp: only_regs_def)

lemma take_drop_put:
  assumes "i + n \<le> j" "j \<le> length (tab_registers m)"
  shows "take n (drop i (tab_registers (put_regs j ws m))) = take n (drop i (tab_registers m))"
proof (rule nth_equalityI)
  show "length (take n (drop i (tab_registers (put_regs j ws m)))) = length (take n (drop i (tab_registers m)))"
    using assms by (simp add: put_regs_def)
next
  fix k assume "k < length (take n (drop i (tab_registers (put_regs j ws m))))"
  then show "take n (drop i (tab_registers (put_regs j ws m))) ! k = take n (drop i (tab_registers m)) ! k"
    using assms by (simp add: put_regs_def nth_append)
qed

lemma float_stored:
  assumes "mapping_wf m" "appShmDataType item = GW_PRO_TABLE_IDX_SENSOR_DATA_TABLE"
    and "prs_field (dataType (sensorDataTableData item)) = FK_FLOAT"
    and "unat ofs + 52 \<le> nb_registers m"
    and "to_write_sensor_data_to_register_table be fs bo m item ofs = (tpret, m')"
  shows "tpret = ERR_NONE \<and> take 2 (drop (unat ofs + DT_OFFSET (dataType (sensorDataTableData item))) (tab_registers m'))
    = to_set_float bo (data_float be (sd_value (sensorDataTableData item)))"
proof -
  let ?sd = "sensorDataTableData item"
  let ?t = "dataType ?sd" and ?o = "unat ofs"
  let ?i = "?o + DT_OFFSET ?t" and ?w = "to_set_float bo (data_float be (sd_value ?sd))"
  let ?m = "put_regs ?i ?w m"
  have len: "length (tab_registers m) = nb_registers m" using assms(1) by (simp add: mapping_wf_def)
  have off: "DT_OFFSET ?t + 2 \<le> 46"
    using prs_regs_bound [of "DT_OFFSET ?t + 1" ?t] assms(3) by (simp add: prs_regs_def field_regnum_def)
  have g: "write_guard (appShmDataType item) ?o m = None"
    using assms(2,4) by (simp add: write_guard_def)
  have v: "write_prs_value be fs bo ?sd ?o m = (ERR_NONE, ?m)"
    using assms(3,4) off by (simp add: write_prs_value_def Let_def store_field_def put_checked_def)
  have c: "take 2 (drop ?i (tab_registers ?m)) = ?w"
    using put_regs_content [of ?i ?w m] off assms(4) len by simp
  have r: "m' = ?m \<or> m' = snd (store_field (?o + 46) (to_set_uint32 bo (ucast (sampleTime ?sd))) ?m)"
    "tpret = ERR_NONE"
    using assms(5) by (auto simp: to_write_sensor_data_to_register_table_def Let_def g v layout_defs split: if_splits)
  have far: "take 2 (drop ?i (tab_registers (put_regs (?o + 46) ws ?m))) = take 2 (drop ?i (tab_registers ?m))" for ws
    by (rule take_drop_put) (use off assms(4) len in \<open>simp_all add: put_regs_def\<close>)
  show ?thesis
    using r c far by (auto simp: store_field_def put_checked_def)
qed

text \<open>
  a float measured by a Predict sensor stands in the two registers of its field, in the byte order
  of the slave, after the write into a block with 52 registers behind the offset.
\<close>

theorem sensor_float_stored:
  assumes "mapping_wf m" "appShmDataType item = GW_PRO_TABLE_IDX_SENSOR_DATA_TABLE"
    and "prs_field (dataType (sensorDataTableData item)) = FK_FLOAT"
    and "unat ofs + 52 \<le> nb_registers m"
    and "to_write_sensor_data_to_register_table be fs bo m item ofs = (tpret, m')"
  shows "tpret = ERR_NONE \<and> take 2 (drop (unat ofs + DT_OFFSET (dataType (sensorDataTableData item))) (tab_registers m'))
    = to_set_float bo (data_float be (sd_value (sensorDataTableData item)))"
  using assms by (rule float_stored)

text \<open>
  the update bitmap of a Predict sensor loses half of its bits: the two update registers receive
  only the bits 0 to 7 and 16 to 23, so that bits 25 and 26, the marks of the two sensing times, never
  reach a register.
\<close>

theorem sensor_bitmap_loses_bits:
  assumes "val' = flip_bit 25 (flip_bit 26 val)"
  shows "to_write_sensor_bitmap_to_register_table bo m val' ofs =
    to_write_sensor_bitmap_to_register_table bo m val ofs"
proof -
  have FF: "x AND 0xFF = take_bit 8 x" for x :: "64 word"
    by (simp add: take_bit_eq_mask mask_eq_exp_minus_1)
  have "val' AND 0xFF = val AND 0xFF"
    unfolding FF assms by (rule bit_word_eqI) (auto simp: bit_simps)
  moreover have "drop_bit 16 val' AND 0xFF = drop_bit 16 val AND 0xFF"
    unfolding FF assms by (rule bit_word_eqI) (auto simp: bit_simps)
  ultimately show ?thesis
    unfolding to_write_sensor_bitmap_to_register_table_def by (simp only:)
qed

text \<open>A block of 128 registers and the value 1.0 of a vibration measurement.\<close>

definition sample_block :: modbus_mapping_t where
  "sample_block = the (modbus_mapping_new_start_address True 0 0 0 0 0x80 0x80 0 0)"

definition sample_item :: appShmDataItem_t_original where
  "sample_item = \<lparr>appShmDataType = 4, sensorDataTableData = \<lparr>sd_nameId = 7, sampleTime = 0x65000000,
     dataType = ADVANCED_ALGO_ENV_OV, sd_value = [0x00, 0x00, 0x80, 0x3F], product = BULLET_NODE\<rparr>\<rparr>"

lemma sample_block_simps:
  "mapping_wf sample_block" "nb_registers sample_block = 128" "tab_registers sample_block = replicate 128 0"
  by (simp_all add: sample_block_def modbus_mapping_new_start_address_def mapping_wf_def)

lemma sample_float: "to_set_float MBUS_BORDER_CDAB (data_float False [0x00, 0x00, 0x80, 0x3F]) = [0x0000, 0x3F80]"
  by (simp add: to_set_float_def data_float_def join32_def byte_a_def byte_b_def byte_c_def byte_d_def mk16_def)

theorem sensor_float_stored_witness:
  "take 2 (drop 2 (tab_registers (snd
     (to_write_sensor_data_to_register_table False (\<lambda>_. FR_no_access) MBUS_BORDER_CDAB sample_block sample_item 0))))
   = [0x0000, 0x3F80]"
proof -
  let ?r = "to_write_sensor_data_to_register_table False (\<lambda>_. FR_no_access) MBUS_BORDER_CDAB sample_block sample_item 0"
  show ?thesis
    using sensor_float_stored [of sample_block sample_item 0 False "\<lambda>_. FR_no_access" MBUS_BORDER_CDAB "fst ?r" "snd ?r"]
    by (simp add: sample_block_simps sample_item_def GW_PRO_TABLE_IDX_SENSOR_DATA_TABLE_def sample_float
        numeral_2_eq_2 [symmetric])
qed

theorem sensor_write_frame_witness:
  "tab_registers (snd
     (to_write_sensor_data_to_register_table False (\<lambda>_. FR_no_access) MBUS_BORDER_CDAB sample_block sample_item 0)) ! 44 = 0"
proof -
  let ?r = "to_write_sensor_data_to_register_table False (\<lambda>_. FR_no_access) MBUS_BORDER_CDAB sample_block sample_item 0"
  have "44 \<notin> (+) (unat (0 :: u16)) ` (set (prs_regs (dataType (sensorDataTableData sample_item))) \<union> {46..<50})"
    by (auto simp: sample_item_def prs_regs_def field_regnum_def)
  then have "tab_registers (snd ?r) ! 44 = tab_registers sample_block ! 44"
    using sensor_write_frame [of sample_block False "\<lambda>_. FR_no_access" MBUS_BORDER_CDAB sample_item 0 "fst ?r" "snd ?r"]
      sample_block_simps(1) by simp
  then show ?thesis by (simp add: sample_block_simps)
qed

theorem sensor_bitmap_loses_bits_witness:
  "to_write_sensor_bitmap_to_register_table MBUS_BORDER_CDAB sample_block 0x06000000 0
   = to_write_sensor_bitmap_to_register_table MBUS_BORDER_CDAB sample_block 0 0"
  by (rule sensor_bitmap_loses_bits) (simp add: flip_bit_eq_xor push_bit_eq_mult)

end
