(* ===== verification/Mslave_Ipc.thy ===== *)
theory Mslave_Ipc
  imports Mslave_Regs Mslave_Mapping
begin

text \<open>
  The second thread of the slave, \<^verbatim>\<open>src/modbus_rtu/modbus_slave/app_mslave_ipc.c\<close>: it reads the
  configuration, the device list and the sensor data from shared memory, reopens the serial port,
  rebuilds the register mappings and writes the sensor data into them.

  The shared memory is a list of bytes.  How the compiler lays a C structure out in bytes is a
  parameter, the record \<^verbatim>\<open>shm_abi\<close>; the hashes are computed from the bytes themselves.  The buffer
  \<^verbatim>\<open>ipc_dtitem_buf\<close> is scratch memory that every reader fills first, so it is not part of the state.
\<close>

section \<open>Shared memory\<close>

record shm_abi =
  gw_item :: "bytes \<Rightarrow> u32 \<times> gatewayTableData_t"
  dev_item :: "bytes \<Rightarrow> u32 \<times> deviceTableData_t"
  sdata_item :: "bytes \<Rightarrow> sensorDataTableData_t"
  u64_item :: "bytes \<Rightarrow> 64 word"
  sizeof_item :: nat
  sizeof_item_original :: nat
  sizeof_sdata :: nat

definition SZ_IPC_BUF :: nat where "SZ_IPC_BUF = 0x1000"
definition APP_SHM_GATEWAY_TABLE_ITEM_SIZE :: nat where "APP_SHM_GATEWAY_TABLE_ITEM_SIZE = 0x800"
definition APP_SHM_DEV_TABLE_ITEM_SIZE :: nat where "APP_SHM_DEV_TABLE_ITEM_SIZE = 0x400"
definition APP_SHM_DEV_TABLE_ITEM_MAX :: nat where "APP_SHM_DEV_TABLE_ITEM_MAX = 40"
definition APP_SHM_DEV_TABLE_ADDR_OFFSET :: nat where
  "APP_SHM_DEV_TABLE_ADDR_OFFSET = APP_SHM_GATEWAY_TABLE_ITEM_SIZE"
definition APP_SHM_SENSORDATA_TABLE_ADDR_OFFSET :: nat where
  "APP_SHM_SENSORDATA_TABLE_ADDR_OFFSET =
     APP_SHM_DEV_TABLE_ADDR_OFFSET + APP_SHM_DEV_TABLE_ITEM_SIZE * APP_SHM_DEV_TABLE_ITEM_MAX"
definition APP_SHM_SENSORDATA_TABLE_PIECE_SIZE :: nat where "APP_SHM_SENSORDATA_TABLE_PIECE_SIZE = 0x400"
definition APP_SHM_SENSORDATA_TABLE_PIECE_MAX :: nat where "APP_SHM_SENSORDATA_TABLE_PIECE_MAX = 28"
definition APP_SHM_SENSORDATA_TABLE_ITEM_MAX :: nat where "APP_SHM_SENSORDATA_TABLE_ITEM_MAX = 40"
definition APP_SHM_SENSORDATA_TABLE_ITEM_SIZE :: nat where
  "APP_SHM_SENSORDATA_TABLE_ITEM_SIZE = APP_SHM_SENSORDATA_TABLE_PIECE_SIZE * APP_SHM_SENSORDATA_TABLE_PIECE_MAX"
definition APP_SHM_TOTAL_SIZE :: nat where
  "APP_SHM_TOTAL_SIZE = APP_SHM_SENSORDATA_TABLE_ADDR_OFFSET
     + APP_SHM_SENSORDATA_TABLE_ITEM_SIZE * APP_SHM_SENSORDATA_TABLE_ITEM_MAX + 0x800"

definition GW_PRO_TABLE_IDX_GW_CONFIG_TABLE :: u32 where "GW_PRO_TABLE_IDX_GW_CONFIG_TABLE = 1"
definition GW_PRO_TABLE_IDX_MNGED_DEVICE_LIST_TABLE :: u32 where "GW_PRO_TABLE_IDX_MNGED_DEVICE_LIST_TABLE = 2"

definition shm_slice :: "bytes \<Rightarrow> nat \<Rightarrow> nat \<Rightarrow> bytes" where
  "shm_slice shm ofs n = take n (drop ofs shm)"

section \<open>Valid entries\<close>

definition is_gateway_conf_valid :: "gatewayTableData_t \<Rightarrow> bool" where
  "is_gateway_conf_valid gw =
     (let mc = modbusConfig gw in
      if lastEditTimeS gw = 0 \<or> gw_nameId gw = 0 then False
      else if paritySlave mc \<noteq> 0 \<and> paritySlave mc \<noteq> 1 \<and> paritySlave mc \<noteq> 2 then False
      else if stopSlave mc \<noteq> 0 \<and> stopSlave mc \<noteq> 1 \<and> stopSlave mc \<noteq> 2 then False
      else if baudrateSlave mc < 1200 \<or> baudrateSlave mc > 1000000 then False
      else if slaveAddrSlave mc < 1 \<or> slaveAddrSlave mc > 247 then False
      else if app_mslave_get_reg_mode (registerMode mc) \<noteq> REG_MD_EXTENSIBLE
           \<and> app_mslave_get_reg_mode (registerMode mc) \<noteq> REG_MD_EFFICIENT then False
      else True)"

definition is_dev_info_valid :: "deviceTableData_t \<Rightarrow> bool" where
  "is_dev_info_valid dev = (dev_nameId dev \<noteq> 0)"

definition is_sensor_data_valid :: "sensorDataTableData_t \<Rightarrow> bool" where
  "is_sensor_data_valid sd = (sd_nameId sd \<noteq> 0)"

section \<open>Loading from shared memory\<close>

text \<open>The byte order that belongs to a register mode; other modes leave it.\<close>

definition border_of_mode :: "u8 \<Rightarrow> mbus_byte_oder \<Rightarrow> mbus_byte_oder" where
  "border_of_mode md old =
     (if md = 0 \<or> md = 1 then MBUS_BORDER_ABCD
      else if md = 2 \<or> md = 3 then MBUS_BORDER_BADC
      else if md = 4 \<or> md = 5 then MBUS_BORDER_CDAB
      else if md = 6 \<or> md = 7 then MBUS_BORDER_DCBA
      else old)"

definition to_load_gwcfg_from_shmem :: "shm_abi \<Rightarrow> bytes \<Rightarrow> ctr \<Rightarrow> error_code \<times> ctr" where
  "to_load_gwcfg_from_shmem abi shm c =
     (if APP_SHM_GATEWAY_TABLE_ITEM_SIZE > SZ_IPC_BUF then (EMBBADDATA, c)
      else let buf = shm_slice shm 0 (APP_SHM_GATEWAY_TABLE_ITEM_SIZE mod SZ_IPC_BUF) in
      if sizeof_item abi \<ge> APP_SHM_GATEWAY_TABLE_ITEM_SIZE then (EMBBADDATA, c)
      else let tpu32 = util_tool_cal_elfhash (Some buf) in
      if tpu32 = gwconf_hash c then (ERR_NONE, c)
      else let (ty, gw) = gw_item abi buf in
      if ty \<noteq> GW_PRO_TABLE_IDX_GW_CONFIG_TABLE then (EMBXILVAL, c)
      else if \<not> is_gateway_conf_valid gw then (EMBXILVAL, c)
      else (ERR_NONE, c\<lparr>gwconf := gw, gwconf_hash := tpu32,
              mbus_border := border_of_mode (registerMode (modbusConfig gw)) (mbus_border c)\<rparr>))"

definition load_dev_item :: "shm_abi \<Rightarrow> bytes \<Rightarrow> nat \<Rightarrow> deviceTableData_t list \<Rightarrow> deviceTableData_t list" where
  "load_dev_item abi shm i devs =
     (let (ty, dev) = dev_item abi (shm_slice shm (APP_SHM_DEV_TABLE_ADDR_OFFSET + i * APP_SHM_DEV_TABLE_ITEM_SIZE)
                                      (APP_SHM_DEV_TABLE_ITEM_SIZE mod SZ_IPC_BUF)) in
      devs[i mod 40 := (if ty \<noteq> GW_PRO_TABLE_IDX_MNGED_DEVICE_LIST_TABLE then zero_dev
                        else if \<not> is_dev_info_valid dev then zero_dev else dev)])"

definition to_load_devlist_from_shmem :: "shm_abi \<Rightarrow> bytes \<Rightarrow> ctr \<Rightarrow> error_code \<times> ctr" where
  "to_load_devlist_from_shmem abi shm c =
     (if sizeof_item abi \<ge> APP_SHM_DEV_TABLE_ITEM_SIZE then (EMBBADDATA, c)
      else if APP_SHM_DEV_TABLE_ITEM_SIZE > SZ_IPC_BUF then (EMBBADDATA, c)
      else let tpu32 = util_tool_cal_elfhash (Some
             (shm_slice shm APP_SHM_DEV_TABLE_ADDR_OFFSET (APP_SHM_DEV_TABLE_ITEM_SIZE * APP_SHM_DEV_TABLE_ITEM_MAX))) in
      if tpu32 = dev_hash c then (ERR_NONE, c)
      else (ERR_NONE, c\<lparr>dev_array := fold (load_dev_item abi shm) [0..<APP_SHM_DEV_TABLE_ITEM_MAX] (dev_array c),
                        dev_hash := tpu32\<rparr>))"

definition to_check_sdata_hash_value :: "shm_abi \<Rightarrow> bytes \<Rightarrow> ctr \<Rightarrow> error_code \<times> ctr" where
  "to_check_sdata_hash_value abi shm c =
     (if sizeof_item abi \<ge> APP_SHM_SENSORDATA_TABLE_PIECE_SIZE then (EMBBADDATA, c)
      else (ERR_NONE, c\<lparr>sdata_hash := util_tool_cal_elfhash (Some
             (shm_slice shm APP_SHM_SENSORDATA_TABLE_ADDR_OFFSET
                (APP_SHM_SENSORDATA_TABLE_ITEM_SIZE * APP_SHM_SENSORDATA_TABLE_ITEM_MAX)))\<rparr>))"

text \<open>The item buffer after a piece was read; the caller has cleared it, so its type is 0 on the early exits.\<close>

definition to_load_sdata_from_shmem_v2 :: "shm_abi \<Rightarrow> bytes \<Rightarrow> nat \<Rightarrow> appShmDataItem_t_original option" where
  "to_load_sdata_from_shmem_v2 abi shm didx =
     (if sizeof_item_original abi \<ge> SZ_IPC_BUF then None
      else if sizeof_sdata abi > APP_SHM_SENSORDATA_TABLE_PIECE_SIZE then None
      else let kpidx = APP_SHM_SENSORDATA_TABLE_ADDR_OFFSET + didx * APP_SHM_SENSORDATA_TABLE_PIECE_SIZE;
               sd = sdata_item abi (shm_slice shm (kpidx mod APP_SHM_TOTAL_SIZE) (sizeof_sdata abi)) in
      Some \<lparr>appShmDataType = (if is_sensor_data_valid sd then GW_PRO_TABLE_IDX_SENSOR_DATA_TABLE else 0),
            sensorDataTableData = sd\<rparr>)"

definition to_load_sdata_bitmap_from_shmem :: "shm_abi \<Rightarrow> bytes \<Rightarrow> nat \<Rightarrow> 64 word" where
  "to_load_sdata_bitmap_from_shmem abi shm idx =
     (let kpidx = (idx div APP_SHM_SENSORDATA_TABLE_PIECE_MAX + 1) * APP_SHM_SENSORDATA_TABLE_PIECE_MAX - 1;
          kpidx = APP_SHM_SENSORDATA_TABLE_ADDR_OFFSET + kpidx * APP_SHM_SENSORDATA_TABLE_PIECE_SIZE in
      u64_item abi (shm_slice shm (kpidx mod APP_SHM_TOTAL_SIZE) 8))"

section \<open>The port\<close>

definition app_mslave_ipc_set_port_conf :: "port_conf_info \<Rightarrow> modbusConfig_t \<Rightarrow> error_code \<times> port_conf_info" where
  "app_mslave_ipc_set_port_conf pc mc =
     (let pc = pc\<lparr>slaveID := ucast (slaveAddrSlave mc), baudrate := baudrateSlave mc,
                  reg_md := app_mslave_get_reg_mode (registerMode mc)\<rparr> in
      case (if paritySlave mc = 0 then Some PARITY_NONE else if paritySlave mc = 1 then Some PARITY_ODD
            else if paritySlave mc = 2 then Some PARITY_EVEN else None) of
        None \<Rightarrow> (ERR_API_FAIL, pc)
      | Some p \<Rightarrow> let pc = pc\<lparr>parity := p\<rparr> in
          (case (if stopSlave mc = 0 then Some SBIT_1 else if stopSlave mc = 1 then Some SBIT_1_5
                 else if stopSlave mc = 2 then Some SBIT_2 else None) of
             None \<Rightarrow> (ERR_API_FAIL, pc)
           | Some s \<Rightarrow> (ERR_NONE, pc\<lparr>stopbit := s\<rparr>)))"

definition zero_port_conf :: port_conf_info where
  "zero_port_conf = \<lparr>baudrate = 0, parity = PARITY_ZERO, stopbit = SBIT_ZERO, slaveID = 0, reg_md = REG_MD_EXTENSIBLE\<rparr>"

definition is_port_conf_modified :: "port_conf_info \<Rightarrow> gatewayTableData_t \<Rightarrow> bool" where
  "is_port_conf_modified pc gw =
     (let (rc, tp) = app_mslave_ipc_set_port_conf zero_port_conf (modbusConfig gw) in
      if rc \<noteq> ERR_NONE then False
      else baudrate pc \<noteq> baudrate tp \<or> parity pc \<noteq> parity tp \<or> stopbit pc \<noteq> stopbit tp \<or> slaveID pc \<noteq> slaveID tp)"

text \<open>The characters and numbers behind the two enumerations.\<close>

definition parity_char :: "port_parity \<Rightarrow> u8" where
  "parity_char p = (case p of PARITY_ZERO \<Rightarrow> 0 | PARITY_NONE \<Rightarrow> 0x4E | PARITY_EVEN \<Rightarrow> 0x45 | PARITY_ODD \<Rightarrow> 0x4F)"

definition stop_number :: "stop_bit \<Rightarrow> nat" where
  "stop_number s = (case s of SBIT_ZERO \<Rightarrow> 0 | SBIT_1 \<Rightarrow> 1 | SBIT_2 \<Rightarrow> 2 | SBIT_1_5 \<Rightarrow> 3)"

text \<open>What the slave uses of \<^verbatim>\<open>modbus-rtu.c\<close> to open the port; allocation may fail.\<close>

definition modbus_new_rtu :: "bool \<Rightarrow> u32 \<Rightarrow> u8 \<Rightarrow> nat \<Rightarrow> modbus_t option" where
  "modbus_new_rtu mem_ok baud par stop =
     (if baud = 0 then None
      else if \<not> mem_ok then None
      else if par = 0x4E \<or> par = 0x45 \<or> par = 0x4F
      then Some \<lparr>ctx_baud = baud, ctx_parity = par, ctx_stop = stop, ctx_slave = - 1\<rparr>
      else None)"

definition modbus_set_slave :: "int \<Rightarrow> modbus_t \<Rightarrow> modbus_t" where
  "modbus_set_slave slave ctx = (if 0 \<le> slave \<and> slave \<le> 247 then ctx\<lparr>ctx_slave := slave\<rparr> else ctx)"

text \<open>The environment of one update: shared memory, locks, memory, port and files.\<close>

record ipc_env =
  shm_mem :: bytes
  conf_lock :: bool
  create_env :: env
  map_mem_ok :: "nat \<Rightarrow> bool"
  rtu_mem_ok :: bool
  connect_ok :: bool
  alarm_files :: "bytes \<Rightarrow> file_read"

definition app_mslave_init_port :: "ipc_env \<Rightarrow> ctr \<Rightarrow> error_code \<times> ctr" where
  "app_mslave_init_port ie c =
     (let pc = port_conf c in
      case modbus_new_rtu (rtu_mem_ok ie) (baudrate pc) (parity_char (parity pc)) (stop_number (stopbit pc)) of
        None \<Rightarrow> (ERR_API_FAIL, c)
      | Some p \<Rightarrow> let p = modbus_set_slave (int (unat (slaveID pc))) p in
          if \<not> connect_ok ie then (ERR_API_FAIL, c)
          else (ERR_NONE, app_mslave_set_mctx (Some p) c))"

section \<open>Writing the sensor data\<close>

definition write_product ::
    "bool \<Rightarrow> (bytes \<Rightarrow> file_read) \<Rightarrow> mbus_byte_oder \<Rightarrow> appShmDataItem_t_original \<Rightarrow> 64 word \<Rightarrow> u16
     \<Rightarrow> modbus_mapping_t \<Rightarrow> modbus_mapping_t" where
  "write_product be fs bo item bm ofs m =
     (case product (sensorDataTableData item) of
        BULLET_NODE \<Rightarrow>
          snd (to_write_sensor_bitmap_to_register_table bo
            (snd (to_write_sensor_data_to_register_table be fs bo m item ofs)) bm ofs)
      | INSIGHT_T \<Rightarrow>
          snd (to_write_ist_bitmap_to_register_table bo
            (snd (to_write_ist_data_to_register_table be bo m item ofs)) bm ofs)
      | BULLET_GATEWAY \<Rightarrow> snd (to_write_gw_data_to_register_table bo m item ofs)
      | PRODUCT_OTHER _ \<Rightarrow> m)"

text \<open>
  The inner loop over the pieces of one sensor.  A piece without a usable layout, without a mapping or
  with too small a mapping ends the loop; an empty piece is skipped.  The remapping block is the
  position found before the loops.
\<close>

fun sdata_pieces :: "shm_abi \<Rightarrow> ipc_env \<Rightarrow> nat option \<Rightarrow> nat \<Rightarrow> nat list \<Rightarrow> ctr \<Rightarrow> ctr" where
  "sdata_pieces abi ie blk i [] c = c"
| "sdata_pieces abi ie blk i (j # js) c =
     (let idx = i * APP_SHM_SENSORDATA_TABLE_PIECE_MAX + j;
          bm = to_load_sdata_bitmap_from_shmem abi (shm_mem ie) idx in
      case to_load_sdata_from_shmem_v2 abi (shm_mem ie) idx of
        None \<Rightarrow> sdata_pieces abi ie blk i js c
      | Some item \<Rightarrow>
          if appShmDataType item \<noteq> GW_PRO_TABLE_IDX_SENSOR_DATA_TABLE then sdata_pieces abi ie blk i js c
          else let L = to_get_sdata_layout_info c (sd_nameId (sensorDataTableData item)) in
            if \<not> is_valid L then c
            else case app_mslave_locate_mapping c (addr L) ADDR_GP_HOLDING_REGISTER of
              None \<Rightarrow> c
            | Some k \<Rightarrow>
                let m = mapping_queue c ! k in
                if unat (addr L) + unat (regnum L) > start_registers m + nb_registers m then c
                else let kp_offset = of_int (int (unat (addr L)) - int (start_registers m));
                         m = write_product (big_endian (create_env ie)) (alarm_files ie)
                               (app_mslave_get_mbus_border c) item bm kp_offset m;
                         q = (mapping_queue c)[k := m];
                         q = (case blk of None \<Rightarrow> q | Some di \<Rightarrow> to_update_remapping_block di k (g_reg_mapping_info c) q)
                     in sdata_pieces abi ie blk i js (c\<lparr>mapping_queue := q\<rparr>))"

definition to_update_sdata_register :: "shm_abi \<Rightarrow> ipc_env \<Rightarrow> ctr \<Rightarrow> error_code \<times> ctr" where
  "to_update_sdata_register abi ie c =
     (if sizeof_item_original abi > sizeof_item abi then (ERR_API_FAIL, c)
      else let r = g_reg_mapping_info c;
               blk = (if flg r then app_mslave_locate_mapping c (des r ! 0) ADDR_GP_HOLDING_REGISTER else None) in
      (ERR_NONE, fold (\<lambda>i. sdata_pieces abi ie blk i [0..<APP_SHM_SENSORDATA_TABLE_PIECE_MAX])
                   [0..<APP_SHM_SENSORDATA_TABLE_ITEM_MAX] c))"

section \<open>Flags\<close>

definition app_mslave_ipc_trig_mapping_block_update :: "ctr \<Rightarrow> error_code \<times> ctr" where
  "app_mslave_ipc_trig_mapping_block_update c = (ERR_NONE, c\<lparr>sdata_hash := sdata_hash c + 1\<rparr>)"

definition app_mslave_ipc_set_force_gwconf_update :: "bool \<Rightarrow> ctr \<Rightarrow> ctr" where
  "app_mslave_ipc_set_force_gwconf_update newstate c = c\<lparr>to_force_gwconf_update := newstate\<rparr>"

definition app_mslave_ipc_get_force_gwconf_update :: "ctr \<Rightarrow> bool" where
  "app_mslave_ipc_get_force_gwconf_update c = to_force_gwconf_update c"

definition app_mslave_ipc_set_force_dev_update :: "bool \<Rightarrow> ctr \<Rightarrow> ctr" where
  "app_mslave_ipc_set_force_dev_update newstate c = c\<lparr>to_force_dev_update := newstate\<rparr>"

definition app_mslave_ipc_get_force_dev_update :: "ctr \<Rightarrow> bool" where
  "app_mslave_ipc_get_force_dev_update c = to_force_dev_update c"

definition app_mslave_ipc_set_force_sdata_update :: "bool \<Rightarrow> ctr \<Rightarrow> ctr" where
  "app_mslave_ipc_set_force_sdata_update newstate c = c\<lparr>to_force_sdata_update := newstate\<rparr>"

definition app_mslave_ipc_get_force_sdata_update :: "ctr \<Rightarrow> bool" where
  "app_mslave_ipc_get_force_sdata_update c = to_force_sdata_update c"

section \<open>One update\<close>

text \<open>Reopening the port: the raw numbers of the configuration are passed to the library.\<close>

definition reinit_port :: "ipc_env \<Rightarrow> ctr \<Rightarrow> ctr" where
  "reinit_port ie c =
     (let c = app_mslave_set_mctx None c; mc = modbusConfig (gwconf c) in
      case modbus_new_rtu (rtu_mem_ok ie) (baudrateSlave mc) (paritySlave mc) (unat (stopSlave mc)) of
        None \<Rightarrow> c
      | Some p \<Rightarrow> let p = modbus_set_slave (int (unat (slaveID (port_conf c)))) p in
          if \<not> connect_ok ie then c
          else let c = app_mslave_set_mctx (Some p) c;
                   pc = snd (app_mslave_ipc_set_port_conf (port_conf c) mc) in
               c\<lparr>port_conf := pc, slave_id := slaveID pc\<rparr>)"

text \<open>The block under the lock of the port; the first component is \<^verbatim>\<open>is_reg_mode_modified\<close>.\<close>

definition update_port :: "ipc_env \<Rightarrow> ctr \<Rightarrow> bool \<times> ctr" where
  "update_port ie c =
     (let c = app_mslave_set_to_update_mslave False c;
          c = app_mslave_ipc_set_force_gwconf_update False c in
      if \<not> is_gateway_conf_valid (gwconf c) then (False, c)
      else let md = (reg_md (port_conf c) \<noteq> app_mslave_get_reg_mode (registerMode (modbusConfig (gwconf c)))) in
      if \<not> is_port_conf_modified (port_conf c) (gwconf c) then (md, c)
      else (md, reinit_port ie c))"

text \<open>The middle part: the mappings are created again.\<close>

definition update_mappings :: "ipc_env \<Rightarrow> ctr \<Rightarrow> error_code \<times> ctr" where
  "update_mappings ie c =
     (let c = app_mslave_ipc_set_force_dev_update False c;
          (rc, c) = app_mslave_create_mapping (create_env ie) (map_mem_ok ie) c in
      if rc \<noteq> ERR_NONE then (ERR_API_FAIL, app_mslave_ipc_set_force_dev_update True c)
      else (ERR_NONE, app_mslave_ipc_set_force_sdata_update True c))"

definition update_sdata :: "shm_abi \<Rightarrow> ipc_env \<Rightarrow> u32 \<Rightarrow> ctr \<Rightarrow> error_code \<times> ctr" where
  "update_sdata abi ie kp_sdata_hash c =
     (let c = app_mslave_ipc_set_force_sdata_update True c in
      if kp_sdata_hash \<noteq> sdata_hash c \<or> app_mslave_ipc_get_force_sdata_update c
      then let c = app_mslave_ipc_set_force_sdata_update False c;
               (rc, c) = to_update_sdata_register abi ie c in
           (if rc \<noteq> ERR_NONE then ERR_API_FAIL else rc, c)
      else (ERR_NONE, c))"

definition to_update_mslave_mapping :: "shm_abi \<Rightarrow> ipc_env \<Rightarrow> ctr \<Rightarrow> error_code \<times> ctr" where
  "to_update_mslave_mapping abi ie c =
     (let kp_gwinfo_hash = gwconf_hash c; kp_dev_hash = dev_hash c; kp_sdata_hash = sdata_hash c;
          (rc, c) = to_load_gwcfg_from_shmem abi (shm_mem ie) c in
      if rc \<noteq> ERR_NONE then (rc, c)
      else let (rc, c) = to_load_devlist_from_shmem abi (shm_mem ie) c in
      if rc \<noteq> ERR_NONE then (rc, c)
      else let c = snd (to_check_sdata_hash_value abi (shm_mem ie) c);
               conf = (kp_gwinfo_hash \<noteq> gwconf_hash c \<or> app_mslave_ipc_get_force_gwconf_update c) in
      if conf \<and> \<not> conf_lock ie
      then (ERR_RES_UNAVAILABLE,
            app_mslave_ipc_set_force_gwconf_update True (app_mslave_set_to_update_mslave True c))
      else let (is_reg_mode_modified, c) = (if conf then update_port ie c else (False, c)) in
      if kp_dev_hash \<noteq> dev_hash c \<or> is_reg_mode_modified \<or> app_mslave_ipc_get_force_dev_update c
      then let (rc, c) = update_mappings ie c in
           if rc \<noteq> ERR_NONE then (rc, c) else update_sdata abi ie kp_sdata_hash c
      else update_sdata abi ie kp_sdata_hash c)"

text \<open>
  One turn of the service thread: the new state and whether the thread tries again after a
  millisecond instead of a full period.
\<close>

definition ipc_service_step :: "shm_abi \<Rightarrow> ipc_env \<Rightarrow> ctr \<Rightarrow> bool \<times> ctr" where
  "ipc_service_step abi ie c =
     (let (rc, c) = to_update_mslave_mapping abi ie c in
      if rc = ERR_NONE then (False, c)
      else (app_mslave_ipc_get_force_gwconf_update c \<or> app_mslave_ipc_get_force_dev_update c, c))"

section \<open>Waiting\<close>

text \<open>
  \<^verbatim>\<open>app_mslave_ipc_load_conf\<close> polls the shared memory until it holds a valid configuration.  Each round
  sees one snapshot of the memory; the result is \<^term>\<open>None\<close> when the snapshots are used up, that is,
  when the loop is still waiting.
\<close>

fun app_mslave_ipc_load_conf :: "shm_abi \<Rightarrow> bytes list \<Rightarrow> ctr \<Rightarrow> ctr option" where
  "app_mslave_ipc_load_conf abi [] c = None"
| "app_mslave_ipc_load_conf abi (shm # shms) c =
     (let (rc, c) = to_load_gwcfg_from_shmem abi shm c in
      if rc \<noteq> ERR_NONE then app_mslave_ipc_load_conf abi shms c
      else let (rc, c) = to_load_devlist_from_shmem abi shm c in
      if rc \<noteq> ERR_NONE then app_mslave_ipc_load_conf abi shms c
      else if is_gateway_conf_valid (gwconf c)
      then let (rc, pc) = app_mslave_ipc_set_port_conf (port_conf c) (modbusConfig (gwconf c));
               c = c\<lparr>port_conf := pc, slave_id := slaveID pc\<rparr> in
           if rc = ERR_NONE then Some c else app_mslave_ipc_load_conf abi shms c
      else app_mslave_ipc_load_conf abi shms c)"

text \<open>
  The main loop waits at most 32 times for the service thread; the argument lists the two flags each
  look sees.
\<close>

fun wait_rounds :: "nat \<Rightarrow> (bool \<times> bool) list \<Rightarrow> nat" where
  "wait_rounds 0 looks = 0"
| "wait_rounds (Suc n) [] = 0"
| "wait_rounds (Suc n) ((gw, dev) # looks) = (if \<not> gw \<and> \<not> dev then 0 else Suc (wait_rounds n looks))"

definition app_mslave_ipc_wait_for_update :: "(bool \<times> bool) list \<Rightarrow> nat" where
  "app_mslave_ipc_wait_for_update looks = wait_rounds 32 looks"

section \<open>A valid configuration\<close>

lemma valid_port_conf:
  assumes "is_gateway_conf_valid gw"
  shows "\<exists>pc'. app_mslave_ipc_set_port_conf pc (modbusConfig gw) = (ERR_NONE, pc')
    \<and> unat (slaveID pc') = unat (slaveAddrSlave (modbusConfig gw)) \<and> slaveID pc' \<noteq> 0 \<and> unat (slaveID pc') \<le> 247
    \<and> baudrate pc' = baudrateSlave (modbusConfig gw) \<and> baudrate pc' \<noteq> 0
    \<and> parity_char (parity pc') \<in> {0x4E, 0x45, 0x4F}"
proof -
  let ?mc = "modbusConfig gw"
  have v: "paritySlave ?mc = 0 \<or> paritySlave ?mc = 1 \<or> paritySlave ?mc = 2"
    "stopSlave ?mc = 0 \<or> stopSlave ?mc = 1 \<or> stopSlave ?mc = 2"
    "\<not> baudrateSlave ?mc < 1200" "\<not> slaveAddrSlave ?mc < 1" "\<not> slaveAddrSlave ?mc > 247"
    using assms unfolding is_gateway_conf_valid_def Let_def by (auto split: if_splits)
  have s: "unat (slaveAddrSlave ?mc) \<le> 247" "unat (slaveAddrSlave ?mc) \<noteq> 0"
    using v(4,5) by (auto simp: word_less_nat_alt)
  then have "take_bit 8 (unat (slaveAddrSlave ?mc)) = unat (slaveAddrSlave ?mc)"
    by (intro take_bit_nat_eq_self) simp
  then have u: "unat (ucast (slaveAddrSlave ?mc) :: u8) = unat (slaveAddrSlave ?mc)"
    by (simp add: unsigned_ucast_eq)
  moreover have "baudrateSlave ?mc \<noteq> 0" using v(3) by auto
  moreover have "(ucast (slaveAddrSlave ?mc) :: u8) \<noteq> 0" using u s(2) by (metis unsigned_0)
  ultimately show ?thesis
    using v(1,2) s(1) unfolding app_mslave_ipc_set_port_conf_def Let_def parity_char_def by auto
qed

lemma load_gwcfg_frame:
  assumes "to_load_gwcfg_from_shmem abi shm c = (rc, c')"
  shows "\<exists>gw h bo. c' = c\<lparr>gwconf := gw, gwconf_hash := h, mbus_border := bo\<rparr>"
proof -
  have "c' = c \<or> (\<exists>gw h bo. c' = c\<lparr>gwconf := gw, gwconf_hash := h, mbus_border := bo\<rparr>)"
    using assms unfolding to_load_gwcfg_from_shmem_def Let_def
    by (auto simp: case_prod_beta split: if_splits)
  moreover have "c = c\<lparr>gwconf := gwconf c, gwconf_hash := gwconf_hash c, mbus_border := mbus_border c\<rparr>" by simp
  ultimately show ?thesis by metis
qed

lemma load_devlist_frame:
  assumes "to_load_devlist_from_shmem abi shm c = (rc, c')"
  shows "\<exists>ds h. c' = c\<lparr>dev_array := ds, dev_hash := h\<rparr>"
proof -
  have "c' = c \<or> (\<exists>ds h. c' = c\<lparr>dev_array := ds, dev_hash := h\<rparr>)"
    using assms unfolding to_load_devlist_from_shmem_def Let_def by (auto split: if_splits)
  moreover have "c = c\<lparr>dev_array := dev_array c, dev_hash := dev_hash c\<rparr>" by simp
  ultimately show ?thesis by metis
qed

lemma check_sdata_frame: "\<exists>h. snd (to_check_sdata_hash_value abi shm c) = c\<lparr>sdata_hash := h\<rparr>"
proof (cases "sizeof_item abi \<ge> APP_SHM_SENSORDATA_TABLE_PIECE_SIZE")
  case True
  then have "snd (to_check_sdata_hash_value abi shm c) = c\<lparr>sdata_hash := sdata_hash c\<rparr>"
    by (simp add: to_check_sdata_hash_value_def)
  then show ?thesis by (rule exI)
next
  case False
  then show ?thesis by (simp add: to_check_sdata_hash_value_def) (rule exI, rule refl)
qed

text \<open>What the polling loop has established when it returns.\<close>

lemma load_conf_result:
  assumes "app_mslave_ipc_load_conf abi shms c = Some c'"
  shows "is_gateway_conf_valid (gwconf c')
    \<and> (\<exists>pc. app_mslave_ipc_set_port_conf pc (modbusConfig (gwconf c')) = (ERR_NONE, port_conf c'))
    \<and> slave_id c' = slaveID (port_conf c')"
  using assms
proof (induction shms arbitrary: c)
  case (Cons shm shms)
  obtain r1 c1 where g: "to_load_gwcfg_from_shmem abi shm c = (r1, c1)" by (metis surj_pair)
  obtain r2 c2 where d: "to_load_devlist_from_shmem abi shm c1 = (r2, c2)" by (metis surj_pair)
  obtain r3 pc where p: "app_mslave_ipc_set_port_conf (port_conf c2) (modbusConfig (gwconf c2)) = (r3, pc)"
    by (metis surj_pair)
  show ?case
  proof (cases "r1 = ERR_NONE \<and> r2 = ERR_NONE \<and> is_gateway_conf_valid (gwconf c2) \<and> r3 = ERR_NONE")
    case True
    then have "c' = c2\<lparr>port_conf := pc, slave_id := slaveID pc\<rparr>"
      using Cons.prems g d p by simp
    then show ?thesis using True p by auto
  next
    case False
    then have "\<exists>c3. app_mslave_ipc_load_conf abi shms c3 = Some c'"
      using Cons.prems g d p by (auto split: if_splits)
    then show ?thesis using Cons.IH by blast
  qed
qed simp

text \<open>
  when the start-up code has obtained a configuration, opening the port succeeds if memory and the
  device allow it, and the port answers to the configured slave address with the configured baud rate.
\<close>

theorem load_conf_init_port:
  assumes "app_mslave_ipc_load_conf abi shms c = Some c'" "rtu_mem_ok ie" "connect_ok ie"
  shows "\<exists>p. app_mslave_init_port ie c' = (ERR_NONE, c'\<lparr>mctx := Some p\<rparr>)
    \<and> ctx_slave p = int (unat (slaveAddrSlave (modbusConfig (gwconf c'))))
    \<and> 1 \<le> ctx_slave p \<and> ctx_slave p \<le> 247
    \<and> ctx_baud p = baudrateSlave (modbusConfig (gwconf c'))"
proof -
  obtain pc where v: "is_gateway_conf_valid (gwconf c')"
    and p: "app_mslave_ipc_set_port_conf pc (modbusConfig (gwconf c')) = (ERR_NONE, port_conf c')"
    using load_conf_result [OF assms(1)] by blast
  have f: "unat (slaveID (port_conf c')) = unat (slaveAddrSlave (modbusConfig (gwconf c')))"
    "slaveID (port_conf c') \<noteq> 0" "unat (slaveID (port_conf c')) \<le> 247"
    "baudrate (port_conf c') = baudrateSlave (modbusConfig (gwconf c'))" "baudrate (port_conf c') \<noteq> 0"
    "parity_char (parity (port_conf c')) \<in> {0x4E, 0x45, 0x4F}"
    using valid_port_conf [OF v, of pc] p by auto
  have "1 \<le> int (unat (slaveID (port_conf c')))"
    using f(2) by (simp add: Suc_le_eq unat_gt_0 del: of_nat_unat)
  then show ?thesis
    using assms(2,3) f
    by (auto simp: app_mslave_init_port_def modbus_new_rtu_def modbus_set_slave_def app_mslave_set_mctx_def
        Let_def simp del: of_nat_unat)
qed

text \<open>
  C40: the polling loop ends as soon as a snapshot holds a valid configuration that the slave has not
  seen yet, provided the structures fit the tables.
\<close>

theorem load_conf_terminates:
  assumes "sizeof_item abi < APP_SHM_DEV_TABLE_ITEM_SIZE"
    and "gw_item abi (shm_slice shm 0 APP_SHM_GATEWAY_TABLE_ITEM_SIZE) = (GW_PRO_TABLE_IDX_GW_CONFIG_TABLE, gw)"
    and "is_gateway_conf_valid gw"
    and "util_tool_cal_elfhash (Some (shm_slice shm 0 APP_SHM_GATEWAY_TABLE_ITEM_SIZE)) \<noteq> gwconf_hash c"
  shows "\<exists>c'. app_mslave_ipc_load_conf abi (shm # shms) c = Some c' \<and> gwconf c' = gw"
proof -
  have sz: "APP_SHM_GATEWAY_TABLE_ITEM_SIZE mod SZ_IPC_BUF = APP_SHM_GATEWAY_TABLE_ITEM_SIZE"
    "\<not> APP_SHM_GATEWAY_TABLE_ITEM_SIZE > SZ_IPC_BUF" "sizeof_item abi < APP_SHM_GATEWAY_TABLE_ITEM_SIZE"
    "\<not> APP_SHM_DEV_TABLE_ITEM_SIZE > SZ_IPC_BUF"
    using assms(1) by (simp_all add: APP_SHM_GATEWAY_TABLE_ITEM_SIZE_def SZ_IPC_BUF_def APP_SHM_DEV_TABLE_ITEM_SIZE_def)
  obtain c1 where c1: "to_load_gwcfg_from_shmem abi shm c = (ERR_NONE, c1)" "gwconf c1 = gw"
    using assms(2-4) sz by (simp add: to_load_gwcfg_from_shmem_def Let_def)
  obtain c2 where c2: "to_load_devlist_from_shmem abi shm c1 = (ERR_NONE, c2)" "gwconf c2 = gw"
    using assms(1) sz c1(2) by (cases "util_tool_cal_elfhash (Some (shm_slice shm APP_SHM_DEV_TABLE_ADDR_OFFSET
        (APP_SHM_DEV_TABLE_ITEM_SIZE * APP_SHM_DEV_TABLE_ITEM_MAX))) = dev_hash c1")
      (auto simp: to_load_devlist_from_shmem_def Let_def)
  obtain pc where "app_mslave_ipc_set_port_conf (port_conf c2) (modbusConfig gw) = (ERR_NONE, pc)"
    using valid_port_conf [OF assms(3)] by blast
  then show ?thesis
    using c1 c2 assms(3) by simp
qed

section \<open>Changing the port\<close>

lemma new_rtu_raw_parity: "par \<le> 2 \<Longrightarrow> modbus_new_rtu mem baud par stop = None"
  by (auto simp: modbus_new_rtu_def)

lemma valid_parity: "is_gateway_conf_valid gw \<Longrightarrow> paritySlave (modbusConfig gw) \<le> 2"
  by (auto simp: is_gateway_conf_valid_def Let_def split: if_splits)

text \<open>
  Every change of the baud rate, the parity, the stop bits or the slave address disconnects the slave:
  the port is closed, and reopening it always fails, because the number of the parity mode (0, 1 or 2)
  is passed where the library expects one of the characters N, E and O.  The old port settings stay in
  the controller, and nothing asks for another attempt.
\<close>

lemma update_port_disconnects:
  assumes "is_gateway_conf_valid (gwconf c)" "is_port_conf_modified (port_conf c) (gwconf c)"
  shows "mctx (snd (update_port ie c)) = None \<and> port_conf (snd (update_port ie c)) = port_conf c
    \<and> \<not> to_force_gwconf_update (snd (update_port ie c))"
  using assms new_rtu_raw_parity [OF valid_parity [OF assms(1)]]
  by (simp add: update_port_def reinit_port_def app_mslave_set_to_update_mslave_def app_mslave_set_mctx_def
      app_mslave_ipc_set_force_gwconf_update_def Let_def)

text \<open>
  a change of the register mode alone is never applied: the mappings are created again, but in the
  old mode, since the mode is copied only together with a changed port.
\<close>

theorem register_mode_change_not_applied:
  assumes "is_gateway_conf_valid (gwconf c)" "\<not> is_port_conf_modified (port_conf c) (gwconf c)"
    and "reg_md (port_conf c) \<noteq> app_mslave_get_reg_mode (registerMode (modbusConfig (gwconf c)))"
  shows "fst (update_port ie c) \<and> reg_md (port_conf (snd (update_port ie c))) = reg_md (port_conf c)"
  using assms
  by (simp add: update_port_def app_mslave_set_to_update_mslave_def
      app_mslave_ipc_set_force_gwconf_update_def Let_def)

section \<open>The device list\<close>

lemma load_dev_items:
  assumes "n \<le> 40" "length devs = 40"
  shows "length (fold (load_dev_item abi shm) [0..<n] devs) = 40
    \<and> (\<forall>i < 40. fold (load_dev_item abi shm) [0..<n] devs ! i =
        (if i < n then load_dev_item abi shm i devs ! i else devs ! i))"
  using assms(1)
proof (induction n)
  case (Suc n)
  let ?d = "fold (load_dev_item abi shm) [0..<n] devs"
  have IH: "length ?d = 40" "\<And>i. i < 40 \<Longrightarrow> ?d ! i = (if i < n then load_dev_item abi shm i devs ! i else devs ! i)"
    using Suc by simp_all
  have "n mod 40 = n" using Suc.prems by simp
  then have s: "load_dev_item abi shm n xs = xs[n := load_dev_item abi shm n devs ! n]" if "length xs = 40" for xs
    using that Suc.prems assms(2) by (simp add: load_dev_item_def case_prod_beta Let_def)
  show ?case
    using IH s [OF IH(1)] Suc.prems by (auto simp: nth_list_update less_Suc_eq)
qed (simp add: assms)

text \<open>
  after a device list with a new hash is loaded, each of the 40 places holds the device of the
  shared table, or an empty entry when the place has another type or no name identifier; and the list
  counts as known from then on.
\<close>

theorem load_devlist_entries:
  assumes "length (dev_array c) = 40" "i < 40"
    and "to_load_devlist_from_shmem abi shm c = (ERR_NONE, c')" "dev_hash c' \<noteq> dev_hash c"
    and "dev_item abi (shm_slice shm (APP_SHM_DEV_TABLE_ADDR_OFFSET + i * APP_SHM_DEV_TABLE_ITEM_SIZE)
           (APP_SHM_DEV_TABLE_ITEM_SIZE mod SZ_IPC_BUF)) = (ty, dev)"
  shows "dev_array c' ! i =
      (if ty = GW_PRO_TABLE_IDX_MNGED_DEVICE_LIST_TABLE \<and> dev_nameId dev \<noteq> 0 then dev else zero_dev)
    \<and> length (dev_array c') = 40
    \<and> to_load_devlist_from_shmem abi shm c' = (ERR_NONE, c')"
proof -
  let ?ds = "fold (load_dev_item abi shm) [0..<APP_SHM_DEV_TABLE_ITEM_MAX] (dev_array c)"
  let ?h = "util_tool_cal_elfhash (Some (shm_slice shm APP_SHM_DEV_TABLE_ADDR_OFFSET
        (APP_SHM_DEV_TABLE_ITEM_SIZE * APP_SHM_DEV_TABLE_ITEM_MAX)))"
  have c': "c' = c\<lparr>dev_array := ?ds, dev_hash := ?h\<rparr>"
    "\<not> sizeof_item abi \<ge> APP_SHM_DEV_TABLE_ITEM_SIZE" "\<not> APP_SHM_DEV_TABLE_ITEM_SIZE > SZ_IPC_BUF"
    using assms(3,4) unfolding to_load_devlist_from_shmem_def Let_def by (auto split: if_splits)
  have "load_dev_item abi shm i (dev_array c) ! i =
      (if ty = GW_PRO_TABLE_IDX_MNGED_DEVICE_LIST_TABLE \<and> dev_nameId dev \<noteq> 0 then dev else zero_dev)"
    using assms(1,2,5) by (simp add: load_dev_item_def is_dev_info_valid_def)
  then have "?ds ! i = (if ty = GW_PRO_TABLE_IDX_MNGED_DEVICE_LIST_TABLE \<and> dev_nameId dev \<noteq> 0 then dev else zero_dev)"
    "length ?ds = 40"
    using load_dev_items [of 40 "dev_array c" abi shm] assms(1,2) by (simp_all add: APP_SHM_DEV_TABLE_ITEM_MAX_def)
  then show ?thesis
    using c' by (simp add: to_load_devlist_from_shmem_def Let_def)
qed

section \<open>Updates are not lost\<close>

lemma update_busy:
  assumes "to_update_mslave_mapping abi ie c = (ERR_RES_UNAVAILABLE, c')"
  shows "to_force_gwconf_update c' \<and> to_update_mslave_req c' \<and> \<not> conf_lock ie"
proof -
  have l: "to_load_gwcfg_from_shmem abi shm d = (r, d') \<Longrightarrow> r \<noteq> ERR_RES_UNAVAILABLE"
    "to_load_devlist_from_shmem abi shm d = (r, d') \<Longrightarrow> r \<noteq> ERR_RES_UNAVAILABLE" for shm d d' r
    by (auto simp: to_load_gwcfg_from_shmem_def to_load_devlist_from_shmem_def Let_def case_prod_beta split: if_splits)
  have u: "update_mappings ie d = (r, d') \<Longrightarrow> r \<noteq> ERR_RES_UNAVAILABLE" for d d' r
    by (auto simp: update_mappings_def Let_def case_prod_beta split: if_splits)
  have s: "update_sdata abi ie h d = (r, d') \<Longrightarrow> r \<noteq> ERR_RES_UNAVAILABLE" for h d d' r
    by (auto simp: update_sdata_def Let_def case_prod_beta split: if_splits)
  obtain r1 c1 where g: "to_load_gwcfg_from_shmem abi (shm_mem ie) c = (r1, c1)" by (metis surj_pair)
  obtain r2 c2 where d: "to_load_devlist_from_shmem abi (shm_mem ie) c1 = (r2, c2)" by (metis surj_pair)
  obtain c3 where c3: "snd (to_check_sdata_hash_value abi (shm_mem ie) c2) = c3" by simp
  obtain md c4 where p: "(if gwconf_hash c \<noteq> gwconf_hash c3 \<or> app_mslave_ipc_get_force_gwconf_update c3
      then update_port ie c3 else (False, c3)) = (md, c4)" by (metis surj_pair)
  obtain r5 c5 where m: "update_mappings ie c4 = (r5, c5)" by (metis surj_pair)
  show ?thesis
    using assms l(1) [OF g] l(2) [OF d] u [OF m] s
    unfolding to_update_mslave_mapping_def Let_def g d c3 prod.case p m
    by (auto simp: app_mslave_ipc_set_force_gwconf_update_def app_mslave_set_to_update_mslave_def split: if_splits)
qed

text \<open>
  when the port is locked by the main loop, the update gives up without blocking, raises the request
  flag that makes the main loop wait, keeps the force flag, and the service thread tries again at once;
  the configuration that was already read is therefore not lost, although its hash no longer differs.
\<close>

theorem busy_update_retried:
  assumes "to_update_mslave_mapping abi ie c = (ERR_RES_UNAVAILABLE, c')"
  shows "ipc_service_step abi ie c = (True, c') \<and> to_force_gwconf_update c' \<and> to_update_mslave_req c'
    \<and> \<not> conf_lock ie"
  using update_busy [OF assms] assms
  by (simp add: ipc_service_step_def app_mslave_ipc_get_force_gwconf_update_def)

section \<open>Sensor data change register contents only\<close>

text \<open>Two queues with the same blocks, whose registers may differ.\<close>

definition regs_only :: "modbus_mapping_t list \<Rightarrow> modbus_mapping_t list \<Rightarrow> bool" where
  "regs_only = list_all2 (only_regs UNIV)"

lemma regs_only_refl: "regs_only q q"
  by (simp add: regs_only_def list_all2_refl only_regs_refl)

lemma regs_only_trans: "regs_only q r \<Longrightarrow> regs_only r s \<Longrightarrow> regs_only q s"
  unfolding regs_only_def by (rule list_all2_trans [of "only_regs UNIV" "only_regs UNIV" "only_regs UNIV"])
    (auto intro: only_regs_trans)

lemma regs_only_update:
  assumes "only_regs UNIV (q ! k) m"
  shows "regs_only q (q[k := m])"
proof (cases "k < length q")
  case True
  then show ?thesis
    using assms by (auto simp: regs_only_def list_all2_conv_all_nth nth_list_update only_regs_refl)
qed (simp add: regs_only_refl list_update_beyond not_less)

lemma regs_only_wf: "regs_only q q' \<Longrightarrow> \<forall>m \<in> set q. mapping_wf m \<Longrightarrow> \<forall>m \<in> set q'. mapping_wf m"
  unfolding regs_only_def by (metis in_set_conv_nth list_all2_conv_all_nth only_regs_header(3))

lemma regs_only_blocks:
  "regs_only q q' \<Longrightarrow> map (\<lambda>m. (start_registers m, nb_registers m)) q' = map (\<lambda>m. (start_registers m, nb_registers m)) q"
  unfolding regs_only_def
  by (induction rule: list_all2_induct) (auto dest: only_regs_header(1,2))

lemma write_product_only:
  assumes "mapping_wf m"
  shows "only_regs UNIV m (write_product be fs bo item bm ofs m)"
proof -
  have U: "only_regs S x y \<Longrightarrow> only_regs UNIV x y" for S x y by (rule only_regs_mono) auto
  show ?thesis
    unfolding write_product_def
    by (cases "product (sensorDataTableData item)")
      (auto simp: only_regs_refl intro: assms prs_writer.write_wf ist_writer.write_wf
        only_regs_trans [OF U [OF prs_writer.write_only] U [OF prs_bitmap.write_only]]
        only_regs_trans [OF U [OF ist_writer.write_only] U [OF ist_bitmap.write_only]]
        U [OF gw_writer.write_only])
qed

lemma remap_one_only: "regs_only q (remap_one di si s d q)"
  by (auto simp: remap_one_eq regs_only_refl only_regs_def intro!: regs_only_update)

lemma update_remapping_block_only: "regs_only q (to_update_remapping_block di si r q)"
proof -
  have "regs_only q (fold (\<lambda>i. remap_one di si (src r ! (i mod 1024)) (des r ! (i mod 1024))) xs q)" for xs q
    by (induction xs arbitrary: q) (auto intro: regs_only_refl regs_only_trans remap_one_only)
  then show ?thesis by (simp add: to_update_remapping_block_def)
qed

lemma sdata_pieces_only:
  assumes "\<forall>m \<in> set (mapping_queue c). mapping_wf m"
  shows "\<exists>q. sdata_pieces abi ie blk i js c = c\<lparr>mapping_queue := q\<rparr> \<and> regs_only (mapping_queue c) q"
  using assms
proof (induction js arbitrary: c)
  case Nil
  have "c = c\<lparr>mapping_queue := mapping_queue c\<rparr>" by simp
  then show ?case using regs_only_refl by (metis sdata_pieces.simps(1))
next
  case (Cons j js)
  have stop: "\<exists>q. c = c\<lparr>mapping_queue := q\<rparr> \<and> regs_only (mapping_queue c) q"
    by (intro exI [of _ "mapping_queue c"]) (simp add: regs_only_refl)
  have go: "\<exists>q. sdata_pieces abi ie blk i js (c\<lparr>mapping_queue := q'\<rparr>) = c\<lparr>mapping_queue := q\<rparr>
      \<and> regs_only (mapping_queue c) q" if "regs_only (mapping_queue c) q'" for q'
    using Cons.IH [of "c\<lparr>mapping_queue := q'\<rparr>"] regs_only_wf [OF that Cons.prems] regs_only_trans [OF that] by auto
  have skip: "\<exists>q. sdata_pieces abi ie blk i js c = c\<lparr>mapping_queue := q\<rparr> \<and> regs_only (mapping_queue c) q"
    using Cons.IH [OF Cons.prems] .
  have wr: "regs_only (mapping_queue c) (let q = (mapping_queue c)[k := write_product be fs bo item bm ofs (mapping_queue c ! k)]
      in case blk of None \<Rightarrow> q | Some di \<Rightarrow> to_update_remapping_block di k r q)"
    if "k < length (mapping_queue c)" for k be fs bo item bm ofs r
    using that Cons.prems
    by (auto simp: Let_def split: option.split
        intro!: regs_only_update write_product_only regs_only_trans [OF regs_only_update update_remapping_block_only])
  show ?case
    using stop skip go [OF wr [unfolded Let_def]]
    by (auto simp: Let_def locate_Some split: option.split)
qed

lemma update_sdata_only:
  assumes "\<forall>m \<in> set (mapping_queue c). mapping_wf m" "to_update_sdata_register abi ie c = (rc, c')"
  shows "\<exists>q. c' = c\<lparr>mapping_queue := q\<rparr> \<and> regs_only (mapping_queue c) q"
proof -
  have f: "\<exists>q. fold (\<lambda>i. sdata_pieces abi ie blk i js) is c = c\<lparr>mapping_queue := q\<rparr> \<and> regs_only (mapping_queue c) q"
    if "\<forall>m \<in> set (mapping_queue c). mapping_wf m" for blk js "is" c
    using that
  proof (induction "is" arbitrary: c)
    case Nil
    show ?case by (intro exI [of _ "mapping_queue c"]) (simp add: regs_only_refl)
  next
    case (Cons i "is")
    obtain q where q: "sdata_pieces abi ie blk i js c = c\<lparr>mapping_queue := q\<rparr>" "regs_only (mapping_queue c) q"
      using sdata_pieces_only [OF Cons.prems] by blast
    show ?case
      using Cons.IH [of "c\<lparr>mapping_queue := q\<rparr>"] regs_only_wf [OF q(2) Cons.prems] regs_only_trans [OF q(2)] q(1) by auto
  qed
  show ?thesis
  proof (cases "sizeof_item_original abi > sizeof_item abi")
    case True
    then have "c' = c\<lparr>mapping_queue := mapping_queue c\<rparr>" using assms(2) by (simp add: to_update_sdata_register_def)
    then show ?thesis using regs_only_refl by blast
  next
    case False
    then show ?thesis
      using assms(2) f [OF assms(1)] unfolding to_update_sdata_register_def Let_def by (metis prod.inject)
  qed
qed

text \<open>
  an update of the sensor data keeps the controller and the blocks of the register map as they are:
  only register contents change, every block keeps its start address, its length and a table of this
  length, so that every later lookup finds the same block.
\<close>

theorem update_sdata_keeps_blocks:
  assumes "\<forall>m \<in> set (mapping_queue c). mapping_wf m" "to_update_sdata_register abi ie c = (rc, c')"
  shows "c'\<lparr>mapping_queue := mapping_queue c\<rparr> = c
    \<and> map (\<lambda>m. (start_registers m, nb_registers m)) (mapping_queue c')
      = map (\<lambda>m. (start_registers m, nb_registers m)) (mapping_queue c)
    \<and> (\<forall>m \<in> set (mapping_queue c'). mapping_wf m)"
proof -
  obtain q where q: "c' = c\<lparr>mapping_queue := q\<rparr>" "regs_only (mapping_queue c) q"
    using update_sdata_only [OF assms] by blast
  show ?thesis
    using q(1) regs_only_blocks [OF q(2)] regs_only_wf [OF q(2) assms(1)] by simp
qed

section \<open>The theorems on a concrete gateway\<close>

definition sample_conf :: gatewayTableData_t where
  "sample_conf = sample_gw\<lparr>lastEditTimeS := 1, modbusConfig :=
     \<lparr>baudrateSlave = 19200, slaveAddrSlave = 5, paritySlave = 2, stopSlave = 0, registerMode = 0\<rparr>\<rparr>"

definition sample_abi :: shm_abi where
  "sample_abi = \<lparr>gw_item = (\<lambda>_. (1, sample_conf)), dev_item = (\<lambda>_. (2, sample_dev)),
     sdata_item = (\<lambda>_. sensorDataTableData sample_item), u64_item = (\<lambda>_. 0),
     sizeof_item = 512, sizeof_item_original = 480, sizeof_sdata = 400\<rparr>"

definition sample_ipc :: "bytes \<Rightarrow> ipc_env" where
  "sample_ipc shm = \<lparr>shm_mem = shm, conf_lock = False,
     create_env = \<lparr>big_endian = False, tx_ok = (\<lambda>_. True), lock_ok = True, rx = None, tnow = 0\<rparr>,
     map_mem_ok = (\<lambda>_. True), rtu_mem_ok = True, connect_ok = True, alarm_files = (\<lambda>_. FR_open_fail)\<rparr>"

lemma sample_ipc_simps [simp]:
  "shm_mem (sample_ipc shm) = shm" "\<not> conf_lock (sample_ipc shm)" "rtu_mem_ok (sample_ipc shm)" "connect_ok (sample_ipc shm)"
  by (simp_all add: sample_ipc_def)

lemma sample_abi_simps [simp]:
  "gw_item sample_abi b = (1, sample_conf)" "dev_item sample_abi b = (2, sample_dev)"
  "sizeof_item sample_abi = 512" "sizeof_item_original sample_abi = 480" "sizeof_sdata sample_abi = 400"
  by (simp_all add: sample_abi_def)

lemma sample_conf_valid [simp]: "is_gateway_conf_valid sample_conf"
  by (simp add: is_gateway_conf_valid_def sample_conf_def sample_gw_def app_mslave_get_reg_mode_def)

lemma sample_conf_simps [simp]:
  "baudrateSlave (modbusConfig sample_conf) = 19200" "slaveAddrSlave (modbusConfig sample_conf) = 5"
  "paritySlave (modbusConfig sample_conf) = 2" "stopSlave (modbusConfig sample_conf) = 0"
  "registerMode (modbusConfig sample_conf) = 0"
  by (simp_all add: sample_conf_def)

lemma init_hashes [simp]: "gwconf_hash init_ctr = 0" "dev_hash init_ctr = 0" "dev_array init_ctr = replicate 40 zero_dev"
  by (simp_all add: init_ctr_def g_mslave_ctr_def)

lemmas shm_sizes = APP_SHM_GATEWAY_TABLE_ITEM_SIZE_def APP_SHM_DEV_TABLE_ITEM_SIZE_def SZ_IPC_BUF_def
  APP_SHM_DEV_TABLE_ADDR_OFFSET_def APP_SHM_DEV_TABLE_ITEM_MAX_def APP_SHM_SENSORDATA_TABLE_PIECE_SIZE_def
  GW_PRO_TABLE_IDX_GW_CONFIG_TABLE_def GW_PRO_TABLE_IDX_MNGED_DEVICE_LIST_TABLE_def

lemma sample_hash: "util_tool_cal_elfhash (Some (shm_slice [1] 0 APP_SHM_GATEWAY_TABLE_ITEM_SIZE)) = 1"
  by (simp add: util_tool_cal_elfhash_def elfhash_round_def shm_slice_def shm_sizes)

theorem load_conf_terminates_witness:
  "\<exists>c'. app_mslave_ipc_load_conf sample_abi [[1]] init_ctr = Some c' \<and> gwconf c' = sample_conf"
  using load_conf_terminates [of sample_abi "[1]" sample_conf init_ctr "[]"] sample_hash
  by (simp add: shm_sizes)

lemma sample_loaded: "\<exists>c'. app_mslave_ipc_load_conf sample_abi [[1]] init_ctr = Some c' \<and> gwconf c' = sample_conf"
proof -
  have g: "to_load_gwcfg_from_shmem sample_abi [1] init_ctr = (ERR_NONE, init_ctr\<lparr>gwconf := sample_conf, gwconf_hash := 1,
     mbus_border := MBUS_BORDER_ABCD\<rparr>)"
    using sample_hash
    by (simp add: to_load_gwcfg_from_shmem_def shm_sizes border_of_mode_def)
  show ?thesis
    by (simp add: g to_load_devlist_from_shmem_def shm_sizes shm_slice_def util_tool_cal_elfhash_def
        app_mslave_ipc_set_port_conf_def Let_def)
qed

theorem load_conf_init_port_witness:
  "\<exists>c p. app_mslave_ipc_load_conf sample_abi [[1]] init_ctr = Some c
    \<and> app_mslave_init_port (sample_ipc [1]) c = (ERR_NONE, c\<lparr>mctx := Some p\<rparr>) \<and> ctx_slave p = 5 \<and> ctx_baud p = 19200"
proof -
  obtain c where c: "app_mslave_ipc_load_conf sample_abi [[1]] init_ctr = Some c" "gwconf c = sample_conf"
    using sample_loaded by blast
  show ?thesis
    using load_conf_init_port [OF c(1), of "sample_ipc [1]"] c by auto
qed

definition sample_running :: ctr where
  "sample_running = init_ctr\<lparr>gwconf := sample_conf\<rparr>"

theorem register_mode_change_not_applied_witness:
  "fst (update_port (sample_ipc []) (sample_running\<lparr>port_conf :=
      (snd (app_mslave_ipc_set_port_conf zero_port_conf (modbusConfig sample_conf)))\<lparr>reg_md := REG_MD_EFFICIENT\<rparr>\<rparr>))"
proof -
  let ?c = "sample_running\<lparr>port_conf :=
      (snd (app_mslave_ipc_set_port_conf zero_port_conf (modbusConfig sample_conf)))\<lparr>reg_md := REG_MD_EFFICIENT\<rparr>\<rparr>"
  have "is_gateway_conf_valid (gwconf ?c)" "\<not> is_port_conf_modified (port_conf ?c) (gwconf ?c)"
    "reg_md (port_conf ?c) \<noteq> app_mslave_get_reg_mode (registerMode (modbusConfig (gwconf ?c)))"
    by (simp_all add: sample_running_def is_port_conf_modified_def app_mslave_ipc_set_port_conf_def
        zero_port_conf_def Let_def app_mslave_get_reg_mode_def)
  from register_mode_change_not_applied [OF this] show ?thesis by simp
qed

theorem load_devlist_entries_witness:
  "dev_array (snd (to_load_devlist_from_shmem sample_abi [] (init_ctr\<lparr>dev_hash := 1\<rparr>))) ! 3 = sample_dev"
proof -
  let ?c = "init_ctr\<lparr>dev_hash := 1\<rparr>"
  let ?r = "to_load_devlist_from_shmem sample_abi [] ?c"
  have r: "?r = (ERR_NONE, snd ?r)" "dev_hash (snd ?r) \<noteq> dev_hash ?c"
    by (simp_all add: to_load_devlist_from_shmem_def shm_sizes shm_slice_def util_tool_cal_elfhash_def)
  show ?thesis
    using load_devlist_entries [of ?c 3 sample_abi "[]" "snd ?r" 2 sample_dev] r
    by (simp add: shm_sizes sample_dev_def)
qed

lemma sample_busy:
  "\<exists>c'. to_update_mslave_mapping sample_abi (sample_ipc [1]) init_ctr = (ERR_RES_UNAVAILABLE, c')"
proof -
  have g: "to_load_gwcfg_from_shmem sample_abi [1] init_ctr = (ERR_NONE, init_ctr\<lparr>gwconf := sample_conf, gwconf_hash := 1,
     mbus_border := MBUS_BORDER_ABCD\<rparr>)"
    using sample_hash
    by (simp add: to_load_gwcfg_from_shmem_def shm_sizes border_of_mode_def)
  show ?thesis
    by (simp add: to_update_mslave_mapping_def g to_load_devlist_from_shmem_def shm_sizes shm_slice_def
        util_tool_cal_elfhash_def Let_def to_check_sdata_hash_value_def)
qed

theorem busy_update_retried_witness:
  "fst (ipc_service_step sample_abi (sample_ipc [1]) init_ctr)"
proof -
  obtain c' where "to_update_mslave_mapping sample_abi (sample_ipc [1]) init_ctr = (ERR_RES_UNAVAILABLE, c')"
    using sample_busy by blast
  from busy_update_retried [OF this] show ?thesis by simp
qed

theorem update_sdata_keeps_blocks_witness:
  "map (\<lambda>m. (start_registers m, nb_registers m)) (mapping_queue (snd (to_update_sdata_register sample_abi (sample_ipc [])
     (init_ctr\<lparr>mapping_queue := [sample_block]\<rparr>)))) = [(0x80, 0x80)]"
proof -
  let ?c = "init_ctr\<lparr>mapping_queue := [sample_block]\<rparr>"
  let ?r = "to_update_sdata_register sample_abi (sample_ipc []) ?c"
  have "\<forall>m \<in> set (mapping_queue ?c). mapping_wf m" by (simp add: sample_block_simps)
  from update_sdata_keeps_blocks [OF this, of sample_abi "sample_ipc []" "fst ?r" "snd ?r"]
  show ?thesis by (simp add: sample_block_def modbus_mapping_new_start_address_def)
qed

end
