(* ===== verification/Mslave_Serve.thy ===== *)
theory Mslave_Serve
  imports Mslave_Handlers Mslave_Ipc
begin

text \<open>
  What writing one block means for the requests of a Modbus master: the blocks that a request can name stay the same, and a piece of the
  shared memory with a usable layout is written to exactly one of them.
\<close>

lemma only_regs_covers: "only_regs S m m' \<Longrightarrow> mapping_covers a ADDR_GP_HOLDING_REGISTER m' = mapping_covers a ADDR_GP_HOLDING_REGISTER m"
  using only_regs_header(1,2) [of S m m'] by (simp add: mapping_covers_def)

lemma locate_after_write:
  assumes "only_regs S (mapping_queue c ! k) m'"
  shows "app_mslave_locate_mapping (c\<lparr>mapping_queue := (mapping_queue c)[k := m']\<rparr>) a ADDR_GP_HOLDING_REGISTER = Some i
    \<longleftrightarrow> app_mslave_locate_mapping c a ADDR_GP_HOLDING_REGISTER = Some i"
proof -
  have "mapping_covers a ADDR_GP_HOLDING_REGISTER ((mapping_queue c)[k := m'] ! l)
      = mapping_covers a ADDR_GP_HOLDING_REGISTER (mapping_queue c ! l)" if "l < length (mapping_queue c)" for l
    using that only_regs_covers [OF assms] by (cases "l = k") simp_all
  then show ?thesis by (auto simp: locate_Some)
qed

text \<open>A piece with a usable layout whose block is large enough is written to this block.\<close>

definition piece_ready :: "shm_abi \<Rightarrow> ipc_env \<Rightarrow> nat \<Rightarrow> ctr \<Rightarrow> appShmDataItem_t_original \<Rightarrow> nat \<Rightarrow> bool" where
  "piece_ready abi ie idx c item k \<longleftrightarrow>
     to_load_sdata_from_shmem_v2 abi (shm_mem ie) idx = Some item
     \<and> appShmDataType item = GW_PRO_TABLE_IDX_SENSOR_DATA_TABLE
     \<and> (let L = to_get_sdata_layout_info c (sd_nameId (sensorDataTableData item)) in
        is_valid L \<and> app_mslave_locate_mapping c (addr L) ADDR_GP_HOLDING_REGISTER = Some k
        \<and> unat (addr L) + unat (regnum L) \<le> start_registers (mapping_queue c ! k) + nb_registers (mapping_queue c ! k))"

lemma piece_written:
  assumes "piece_ready abi ie (i * APP_SHM_SENSORDATA_TABLE_PIECE_MAX + j) c item k"
    and "L = to_get_sdata_layout_info c (sd_nameId (sensorDataTableData item))"
  shows "sdata_pieces abi ie None i [j] c = c\<lparr>mapping_queue := (mapping_queue c)[k :=
    write_product (big_endian (create_env ie)) (alarm_files ie) (mbus_border c) item
      (to_load_sdata_bitmap_from_shmem abi (shm_mem ie) (i * APP_SHM_SENSORDATA_TABLE_PIECE_MAX + j))
      (of_int (int (unat (addr L)) - int (start_registers (mapping_queue c ! k)))) (mapping_queue c ! k)]\<rparr>"
  using assms by (simp add: piece_ready_def Let_def app_mslave_get_mbus_border_def)

lemma offset_value:
  assumes "b \<le> unat (a :: u16)"
  shows "unat (of_int (int (unat a) - int b) :: u16) = unat a - b"
proof -
  have e: "(of_int (int (unat a) - int b) :: u16) = of_nat (unat a - b)"
    using assms by (metis of_int_of_nat_eq of_nat_diff)
  show ?thesis
    unfolding e using unat_u16_le [of a] by (intro unat_of_nat_u16) linarith
qed

end
