(* ===== verification/Sql_Shm.thy ===== *)
theory Sql_Shm
  imports Mslave_Ipc Dev_List
begin

text \<open>
  The database process, \<^verbatim>\<open>src/skf_gw_mqtt/sqlite/main.c\<close>: how it gives every sensor a channel and a block of registers, writes the
  device into the shared memory that the Modbus slave reads, and finds the channels again after a restart.  The commands on the device table come from
  \<^verbatim>\<open>src/skf_gw_mqtt/middleware/sqlite3\<close>.

  The device table is a map from the name numbers to the columns of the rows.  The part of the shared memory that is
  written here is a list of 41 cells: the 40 places of the device table and the cell behind it, where the data of channel 1 begin.
  An access outside these arrays, a member of a union that was not written and an SQL command with a quote in a text give \<^term>\<open>None\<close>.
\<close>

section \<open>State\<close>

record chn_nameid_mapping_t =
  cm_validflag :: u8
  cm_ch :: u8
  cm_nameid :: u32

record efficient_chn_nameid_mapping_t =
  em_validflag :: u8
  em_ch :: u8
  em_offset :: u16
  em_nameid :: u32
  em_len :: u8

datatype regAddressModeSql_t = MODBUS_REG_ADDR_EXTENSIBLE_MODE | MODBUS_REG_ADDR_EFFICIENT_MODE

text \<open>An item of the shared memory: its type and the device.  The columns of a row by the numbers 2 to 7.\<close>

type_synonym appShmDataItem_dev = "u32 \<times> device_info"
type_synonym dev_row = "u32 \<Rightarrow> bytes"

record sql_state =
  modbus_feature_enable :: bool
  g_modbus_reg_addr_mode :: regAddressModeSql_t
  chn_nameid_map :: "chn_nameid_mapping_t list"
  efficient_chn_nameid_map :: "efficient_chn_nameid_mapping_t list"
  assigned_chn_cnt :: u8
  dev_cells :: "appShmDataItem_dev list"
  dev_rows :: "int \<Rightarrow> dev_row option"

definition BULLET_GW_SENSOR_NUM_MAX :: nat where "BULLET_GW_SENSOR_NUM_MAX = 40"
definition MODBUS_REG_SENSOR_START_ADDR_OFFSET :: nat where "MODBUS_REG_SENSOR_START_ADDR_OFFSET = 0x80"
definition DEV_REG_ADDR_LENGTH_EXT_MODE :: u8 where "DEV_REG_ADDR_LENGTH_EXT_MODE = 0x80"
definition DEV_REG_ADDR_LENGTH_GW :: u8 where "DEV_REG_ADDR_LENGTH_GW = 3"
definition DEV_REG_ADDR_LENGTH_INSIGHT_T :: u8 where "DEV_REG_ADDR_LENGTH_INSIGHT_T = 8"
definition DEV_REG_ADDR_LENGTH_INSIGHT_P :: u8 where "DEV_REG_ADDR_LENGTH_INSIGHT_P = 0x30"
definition DEV_REG_ADDR_LENGTH_INSIGHT_PRO :: u8 where "DEV_REG_ADDR_LENGTH_INSIGHT_PRO = 0x30"

definition zero_chn :: chn_nameid_mapping_t where
  "zero_chn = \<lparr>cm_validflag = 0, cm_ch = 0, cm_nameid = 0\<rparr>"

definition zero_eff :: efficient_chn_nameid_mapping_t where
  "zero_eff = \<lparr>em_validflag = 0, em_ch = 0, em_offset = 0, em_nameid = 0, em_len = 0\<rparr>"

definition zero_cell :: appShmDataItem_dev where
  "zero_cell = (0, zero_device)"

section \<open>Devices in messages and rows\<close>

text \<open>\<^verbatim>\<open>snprintf\<close> with \<^verbatim>\<open>%s\<close> and the bound 69.\<close>

definition dev_text :: "gw_value \<Rightarrow> bytes option" where
  "dev_text v = (case v of Data_char s \<Rightarrow> Some (take 68 (c_string s)) | _ \<Rightarrow> None)"

definition convert_dev_field :: "gw_pro_data_t \<Rightarrow> device_info \<Rightarrow> device_info option" where
  "convert_dev_field fv d =
     (let (field, v) = fv in
      if field = 1 then (case v of Data_uint32 n \<Rightarrow> Some (d\<lparr>di_nameid := n\<rparr>) | _ \<Rightarrow> None)
      else if field = 2 then map_option (\<lambda>s. d\<lparr>di_name := s\<rparr>) (dev_text v)
      else if field = 3 then map_option (\<lambda>s. d\<lparr>di_sensor_name := s\<rparr>) (dev_text v)
      else if field = 4 then map_option (\<lambda>s. d\<lparr>di_mac_addr := s\<rparr>) (dev_text v)
      else if field = 5 then map_option (\<lambda>s. d\<lparr>di_manufacturer := s\<rparr>) (dev_text v)
      else if field = 6 then map_option (\<lambda>s. d\<lparr>di_sensor_type := s\<rparr>) (dev_text v)
      else if field = 7 then map_option (\<lambda>s. d\<lparr>di_description := s\<rparr>) (dev_text v)
      else Some d)"

fun convert_dev_fields :: "gw_pro_data_t list \<Rightarrow> device_info \<Rightarrow> device_info option" where
  "convert_dev_fields [] d = Some d"
| "convert_dev_fields (x # xs) d = (case convert_dev_field x d of None \<Rightarrow> None | Some d \<Rightarrow> convert_dev_fields xs d)"

definition table_update_data_convert_dev :: "gw_pro_data_t list \<Rightarrow> appShmDataItem_dev option" where
  "table_update_data_convert_dev xs =
     map_option (Pair GW_PRO_TABLE_IDX_MNGED_DEVICE_LIST_TABLE) (convert_dev_fields xs zero_device)"

definition table_query_data_convert_dev :: "gw_pro_data_t list \<Rightarrow> appShmDataItem_dev option" where
  "table_query_data_convert_dev xs =
     map_option (Pair GW_PRO_TABLE_IDX_MNGED_DEVICE_LIST_TABLE) (convert_dev_fields xs zero_device)"

section \<open>The commands on the device table\<close>

text \<open>
  A text as it is put between quotes; an address loses its dashes.  The commands name the row by \<^verbatim>\<open>%d\<close>, so a number from \<open>2 ^ 31\<close> on
  becomes negative, but the number of a new row is written with \<^verbatim>\<open>%ld\<close>.
\<close>

definition column_text :: "u32 \<Rightarrow> gw_value \<Rightarrow> bytes option" where
  "column_text f v =
     (case v of
        Data_char s \<Rightarrow>
          let s = c_string s in
          if 0x27 \<in> set s then None
          else Some (if f = 4 \<and> 0x2D \<in> set s then filter (\<lambda>c. c \<noteq> 0x2D) (take 48 s) else s)
      | _ \<Rightarrow> None)"

text \<open>A stored address has no dashes and spells the same bytes.\<close>

lemma stored_mac_spells:
  assumes "column_text 4 (Data_char s) = Some t" "spells_mac (c_string s) a" "length (c_string s) \<le> 48"
  shows "spells_mac t a \<and> 0x2D \<notin> set t"
  using assms by (auto simp: column_text_def spells_mac_def Let_def split: if_splits)

fun set_columns :: "gw_pro_data_t list \<Rightarrow> dev_row \<Rightarrow> dev_row option" where
  "set_columns [] r = Some r"
| "set_columns ((f, v) # xs) r =
     (if f < 2 then set_columns xs r
      else if f \<le> 7 then (case column_text f v of None \<Rightarrow> None | Some s \<Rightarrow> set_columns xs (r(f := s)))
      else None)"

definition row_key :: "gw_pro_data_t list \<Rightarrow> int option" where
  "row_key xs = (case List.find (\<lambda>x. fst x = 1) xs of Some (_, Data_uint32 n) \<Rightarrow> Some (uint n) | _ \<Rightarrow> None)"

definition default_row :: dev_row where
  "default_row f = (if f = 5 then ascii ''SKF'' else if f = 6 then ascii ''BulletSensor'' else ascii '' '')"

text \<open>
  Every command fails when the database cannot be opened or the statement cannot be executed; \<^term>\<open>db\<close> says whether it can.  Then the
  table stays as it is.
\<close>

definition sqlite_insert_dev :: "bool \<Rightarrow> gw_pro_data_t list \<Rightarrow> (int \<Rightarrow> dev_row option) \<Rightarrow> (bool \<times> (int \<Rightarrow> dev_row option)) option" where
  "sqlite_insert_dev db xs tbl =
     (if \<not> distinct (map fst xs) then None
      else case row_key xs of None \<Rightarrow> None | Some k \<Rightarrow>
      case set_columns xs default_row of None \<Rightarrow> None | Some r \<Rightarrow>
      Some (if db \<and> tbl k = None then (True, tbl(k \<mapsto> r)) else (False, tbl)))"

definition sqlite_update_dev :: "bool \<Rightarrow> u32 \<Rightarrow> gw_pro_data_t list \<Rightarrow> (int \<Rightarrow> dev_row option) \<Rightarrow> (bool \<times> (int \<Rightarrow> dev_row option)) option" where
  "sqlite_update_dev db keyID xs tbl =
     (if \<not> distinct (map fst xs) then None
      else if xs = [] then Some (False, tbl)
      else case (if list_ex (\<lambda>x. fst x = 1) xs then row_key xs else Some (sint keyID)) of None \<Rightarrow> None | Some k \<Rightarrow>
      case tbl (sint keyID) of None \<Rightarrow> Some (db, tbl) | Some r \<Rightarrow>
      case set_columns xs r of None \<Rightarrow> None | Some r \<Rightarrow>
      Some (if \<not> db \<or> k \<noteq> sint keyID \<and> tbl k \<noteq> None then (False, tbl) else (True, (tbl(sint keyID := None))(k \<mapsto> r))))"

definition sqlite_delete_dev :: "bool \<Rightarrow> u32 \<Rightarrow> (int \<Rightarrow> dev_row option) \<Rightarrow> bool \<times> (int \<Rightarrow> dev_row option)" where
  "sqlite_delete_dev db keyID tbl =
     (if \<not> db then (False, tbl) else (True, if keyID = 0 then Map.empty else tbl(sint keyID := None)))"

text \<open>What a query gives for one row: the callback puts the columns into numbered fields.\<close>

definition devicelist_cb :: "int \<Rightarrow> dev_row \<Rightarrow> gw_pro_data_t list" where
  "devicelist_cb k r = (1, Data_uint32 (word_of_int k)) # map (\<lambda>f. (f, Data_char (take 68 (r f)))) [2, 3, 4, 5, 6, 7]"

definition sqlite_query_dev :: "u32 \<Rightarrow> (int \<Rightarrow> dev_row option) \<Rightarrow> gw_pro_data_t list" where
  "sqlite_query_dev keyID tbl = (case tbl (sint keyID) of None \<Rightarrow> [] | Some r \<Rightarrow> devicelist_cb (sint keyID) r)"

section \<open>Layout strings\<close>

definition type_PRO :: bytes where "type_PRO = [0x50, 0x52, 0x4F]"

definition shm_get_register_len :: "bytes \<Rightarrow> u8" where
  "shm_get_register_len sType =
     (if sType = TYPE_STR_INSIGHT_P then DEV_REG_ADDR_LENGTH_INSIGHT_P
      else if sType = TYPE_STR_INSIGHT_PP then DEV_REG_ADDR_LENGTH_INSIGHT_PRO
      else DEV_REG_ADDR_LENGTH_INSIGHT_T)"

definition shm_get_sensor_type_str :: "bytes \<Rightarrow> bytes" where
  "shm_get_sensor_type_str sType =
     (if sType = TYPE_STR_INSIGHT_P then type_PRS else if sType = TYPE_STR_INSIGHT_PP then type_PRO else type_ITS)"

text \<open>
  The string goes into the first field 7 of the message and into the item of the shared memory; without such a field both stay as they are.
\<close>

fun set_field_7 :: "bytes \<Rightarrow> gw_pro_data_t list \<Rightarrow> gw_pro_data_t list option" where
  "set_field_7 s [] = None"
| "set_field_7 s (x # xs) = (if fst x = 7 then Some ((7, Data_char s) # xs) else map_option ((#) x) (set_field_7 s xs))"

definition describe :: "nat \<Rightarrow> nat \<Rightarrow> nat \<Rightarrow> gw_pro_data_t list \<Rightarrow> device_info \<Rightarrow> gw_pro_data_t list \<times> device_info" where
  "describe chn a len xs d =
     (let s = build_name chn a len (shm_get_sensor_type_str (di_sensor_type d)) in
      case set_field_7 s xs of None \<Rightarrow> (xs, d) | Some xs \<Rightarrow> (xs, d\<lparr>di_description := s\<rparr>))"

section \<open>Channels in extensible mode\<close>

text \<open>The channel of a device that has one, and the first free place; place 0 belongs to the gateway.\<close>

definition find_chn :: "u32 \<Rightarrow> chn_nameid_mapping_t list \<Rightarrow> u8 option" where
  "find_chn n m = map_option (\<lambda>i. cm_ch (m ! i))
     (List.find (\<lambda>i. n = cm_nameid (m ! i) \<and> cm_validflag (m ! i) = 1) [1..<BULLET_GW_SENSOR_NUM_MAX + 1])"

definition free_chn :: "chn_nameid_mapping_t list \<Rightarrow> nat option" where
  "free_chn m = List.find (\<lambda>i. cm_nameid (m ! i) = 0 \<and> cm_ch (m ! i) = 0) [1..<BULLET_GW_SENSOR_NUM_MAX + 1]"

definition assign_chn :: "u32 \<Rightarrow> sql_state \<Rightarrow> nat \<times> sql_state" where
  "assign_chn n s =
     (let (ch_idx, s) =
        (if BULLET_GW_SENSOR_NUM_MAX < unat (assigned_chn_cnt s) then (BULLET_GW_SENSOR_NUM_MAX, s)
         else case free_chn (chn_nameid_map s) of
             None \<Rightarrow> (BULLET_GW_SENSOR_NUM_MAX + 1, s)
           | Some i \<Rightarrow> (i, s\<lparr>assigned_chn_cnt := assigned_chn_cnt s + 1\<rparr>))
      in if ch_idx \<le> BULLET_GW_SENSOR_NUM_MAX
         then (ch_idx, s\<lparr>chn_nameid_map := (chn_nameid_map s)[ch_idx := \<lparr>cm_validflag = 1, cm_ch = of_nat ch_idx, cm_nameid = n\<rparr>]\<rparr>)
         else (ch_idx, s))"

definition channel_for :: "u32 \<Rightarrow> sql_state \<Rightarrow> nat \<times> sql_state" where
  "channel_for n s = (case find_chn n (chn_nameid_map s) of Some c \<Rightarrow> (unat c, s) | None \<Rightarrow> assign_chn n s)"

definition ext_dev_channel :: "gw_pro_data_t list \<Rightarrow> device_info \<Rightarrow> sql_state \<Rightarrow> nat \<times> gw_pro_data_t list \<times> device_info \<times> sql_state" where
  "ext_dev_channel xs d s =
     (let (ch_idx, s) = channel_for (di_nameid d) s;
          (xs, d) = describe ch_idx (MODBUS_REG_SENSOR_START_ADDR_OFFSET + ch_idx * MODBUS_REG_SENSOR_LENGTH - MODBUS_REG_SENSOR_LENGTH)
                      MODBUS_REG_SENSOR_LENGTH xs d
      in (ch_idx, xs, d, s))"

section \<open>Channels in efficient mode\<close>

definition eff_free :: "efficient_chn_nameid_mapping_t \<Rightarrow> bool" where
  "eff_free e \<longleftrightarrow> em_validflag e = 0 \<and> em_ch e = 0 \<and> em_nameid e = 0"

definition next_occupied :: "efficient_chn_nameid_mapping_t list \<Rightarrow> nat \<Rightarrow> nat" where
  "next_occupied m i = (case List.find (\<lambda>j. em_validflag (m ! j) \<noteq> 0) [i..<BULLET_GW_SENSOR_NUM_MAX + 1] of
     Some j \<Rightarrow> j | None \<Rightarrow> BULLET_GW_SENSOR_NUM_MAX + 1)"

text \<open>
  The search for a place of \<^term>\<open>alen\<close> registers: the place and the offset, or nothing when the search ends without one.  When the space
  before the next occupied place is too small, the search goes on behind that place, without taking over its offset and length; and the flag
  that an occupied place was found stays set.
\<close>

function eff_search ::
    "efficient_chn_nameid_mapping_t list \<Rightarrow> u8 \<Rightarrow> nat \<Rightarrow> bool \<Rightarrow> u8 \<Rightarrow> u16 \<Rightarrow> (nat \<times> u16) option option" where
  "eff_search m alen i fnd_flag former_len former_offset =
     (if BULLET_GW_SENSOR_NUM_MAX < i then Some None
      else if eff_free (m ! i) then
        let j = next_occupied m i; fnd_flag = (fnd_flag \<or> j \<le> BULLET_GW_SENSOR_NUM_MAX) in
        if fnd_flag then
          if BULLET_GW_SENSOR_NUM_MAX < j then None
          else if int (unat (em_offset (m ! j))) - int (unat former_offset) - int (unat former_len) < int (unat alen)
          then eff_search m alen (Suc j) fnd_flag former_len former_offset
          else Some (Some (i, former_offset + ucast former_len))
        else Some (Some (i, former_offset + ucast former_len))
      else eff_search m alen (Suc i) fnd_flag (em_len (m ! i)) (em_offset (m ! i)))"
  by pat_completeness auto

lemma find_upt:
  "List.find P [a..<b] = Some i \<longleftrightarrow> a \<le> i \<and> i < b \<and> P i \<and> (\<forall>l. a \<le> l \<and> l < i \<longrightarrow> \<not> P l)"
proof
  assume "List.find P [a..<b] = Some i"
  then obtain k where k: "k < b - a" "P (a + k)" "i = a + k" "\<forall>j<k. \<not> P (a + j)"
    by (auto simp: find_Some_iff)
  have "\<not> P l" if "a \<le> l" "l < i" for l
    using k(4) [rule_format, of "l - a"] that k(3) by simp
  then show "a \<le> i \<and> i < b \<and> P i \<and> (\<forall>l. a \<le> l \<and> l < i \<longrightarrow> \<not> P l)" using k by auto
next
  assume "a \<le> i \<and> i < b \<and> P i \<and> (\<forall>l. a \<le> l \<and> l < i \<longrightarrow> \<not> P l)"
  then show "List.find P [a..<b] = Some i"
    unfolding find_Some_iff by (intro exI [of _ "i - a"]) auto
qed

lemma find_upt_None: "List.find P [a..<b] = None \<longleftrightarrow> (\<forall>l. a \<le> l \<and> l < b \<longrightarrow> \<not> P l)"
  by (auto simp: find_None_iff)

lemma next_occupied_ge: "i \<le> BULLET_GW_SENSOR_NUM_MAX \<Longrightarrow> i \<le> next_occupied m i"
  by (auto simp: next_occupied_def find_upt simp del: upt_Suc split: option.splits)

termination eff_search
proof (relation "measure (\<lambda>(m, alen, i, _). Suc BULLET_GW_SENSOR_NUM_MAX - i)", goal_cases)
  case (2 m alen i fnd former_len former_offset j fnd')
  then show ?case using next_occupied_ge [of i m] by simp
qed auto

declare eff_search.simps [simp del]

definition known_len :: "u8 \<Rightarrow> bool" where
  "known_len l \<longleftrightarrow> l = DEV_REG_ADDR_LENGTH_INSIGHT_T \<or> l = DEV_REG_ADDR_LENGTH_INSIGHT_P \<or> l = DEV_REG_ADDR_LENGTH_INSIGHT_PRO
     \<or> l = DEV_REG_ADDR_LENGTH_EXT_MODE"

text \<open>
  The result: the channel, the message, the item, the state, and whether the limit was reached; then the device is not written to the
  shared memory.
\<close>

definition eff_dev_channel ::
    "gw_pro_data_t list \<Rightarrow> device_info \<Rightarrow> sql_state \<Rightarrow> (nat \<times> gw_pro_data_t list \<times> device_info \<times> sql_state \<times> bool) option" where
  "eff_dev_channel xs d s =
     (let m = efficient_chn_nameid_map s; n = di_nameid d; alen = shm_get_register_len (di_sensor_type d) in
      case List.find (\<lambda>i. n = em_nameid (m ! i) \<and> em_validflag (m ! i) = 1) [1..<BULLET_GW_SENSOR_NUM_MAX + 1] of
        Some i \<Rightarrow>
          let e = m ! i; e = (if known_len (em_len e) then e else e\<lparr>em_len := alen\<rparr>);
              (xs, d) = describe (unat (em_ch e)) (unat (em_offset e)) (unat (em_len e)) xs d
          in Some (unat (em_ch e), xs, d, s\<lparr>efficient_chn_nameid_map := m[i := e]\<rparr>, False)
      | None \<Rightarrow>
          if BULLET_GW_SENSOR_NUM_MAX < unat (assigned_chn_cnt s) then Some (BULLET_GW_SENSOR_NUM_MAX, xs, d, s, True)
          else case eff_search m alen 1 False DEV_REG_ADDR_LENGTH_GW 0 of
            None \<Rightarrow> None
          | Some None \<Rightarrow>
              if list_ex (\<lambda>x. fst x = 7) xs then None else Some (BULLET_GW_SENSOR_NUM_MAX + 1, xs, d, s, False)
          | Some (Some (i, off)) \<Rightarrow>
              let e = \<lparr>em_validflag = 1, em_ch = of_nat i, em_offset = off, em_nameid = n, em_len = alen\<rparr>;
                  (xs, d) = describe i (unat off) (unat alen) xs d
              in Some (i, xs, d, s\<lparr>efficient_chn_nameid_map := m[i := e], assigned_chn_cnt := assigned_chn_cnt s + 1\<rparr>, False))"

section \<open>Handling a device\<close>

text \<open>
  Writing an item to the shared memory: one attempt to take the semaphore before the command on the database, two more attempts after
  it, and then the item is written without the semaphore.  The list gives the outcomes of the attempts.
\<close>

definition put_cell :: "nat \<Rightarrow> appShmDataItem_dev \<Rightarrow> appShmDataItem_dev list \<Rightarrow> appShmDataItem_dev list option" where
  "put_cell ch_idx item cells =
     (if 1 \<le> ch_idx \<and> ch_idx \<le> length cells then Some (cells[ch_idx - 1 := item]) else None)"

fun write_try :: "nat \<Rightarrow> bool list \<Rightarrow> nat \<Rightarrow> appShmDataItem_dev \<Rightarrow> sql_state \<Rightarrow> (bool \<times> sql_state) option" where
  "write_try 0 ts ch_idx item s = Some (False, s)"
| "write_try (Suc n) ts ch_idx item s =
     (if ts \<noteq> [] \<and> hd ts
      then map_option (\<lambda>cells. (True, s\<lparr>dev_cells := cells\<rparr>)) (put_cell ch_idx item (dev_cells s))
      else write_try n (tl ts) ch_idx item s)"

definition write_after :: "bool \<Rightarrow> bool list \<Rightarrow> nat \<Rightarrow> appShmDataItem_dev \<Rightarrow> sql_state \<Rightarrow> sql_state option" where
  "write_after w_flag ts ch_idx item s =
     (if w_flag then Some s
      else case write_try 2 ts ch_idx item s of
          None \<Rightarrow> None
        | Some (w_flag, s) \<Rightarrow>
            if w_flag then Some s
            else map_option (\<lambda>cells. s\<lparr>dev_cells := cells\<rparr>) (put_cell ch_idx item (dev_cells s)))"

definition sql_command :: "bool \<Rightarrow> bool \<Rightarrow> u32 \<Rightarrow> gw_pro_data_t list \<Rightarrow> sql_state \<Rightarrow> (bool \<times> sql_state) option" where
  "sql_command db upd key xs s =
     map_option (\<lambda>(status, tbl). (status, s\<lparr>dev_rows := tbl\<rparr>))
       (if upd then sqlite_update_dev db key xs (dev_rows s) else sqlite_insert_dev db xs (dev_rows s))"

text \<open>
  The branches for an update and for a new row do the same, but when the limit is reached the row is always updated.  The entry of the
  channel and the shared memory are written whether the command on the database succeeds or not.
\<close>

definition dev_update_or_insert :: "bool list \<Rightarrow> bool \<Rightarrow> bool \<Rightarrow> u32 \<Rightarrow> gw_pro_data_t list \<Rightarrow> sql_state \<Rightarrow> (bool \<times> sql_state) option" where
  "dev_update_or_insert ts db itemfalg key xs s =
     (if \<not> modbus_feature_enable s then sql_command db itemfalg key xs s
      else case table_update_data_convert_dev xs of None \<Rightarrow> None | Some (ty, d) \<Rightarrow>
      case (case g_modbus_reg_addr_mode s of
              MODBUS_REG_ADDR_EXTENSIBLE_MODE \<Rightarrow> (let (ch_idx, xs, d, s) = ext_dev_channel xs d s in Some (ch_idx, xs, d, s, False))
            | MODBUS_REG_ADDR_EFFICIENT_MODE \<Rightarrow> eff_dev_channel xs d s) of
        None \<Rightarrow> None
      | Some (ch_idx, xs, d, s, True) \<Rightarrow> sql_command db True key xs s
      | Some (ch_idx, xs, d, s, False) \<Rightarrow>
          (case write_try 1 ts ch_idx (ty, d) s of None \<Rightarrow> None | Some (w_flag, s) \<Rightarrow>
           case sql_command db itemfalg key xs s of None \<Rightarrow> None | Some (status, s) \<Rightarrow>
           map_option (Pair status) (write_after w_flag (tl ts) ch_idx (ty, d) s)))"

text \<open>
  The message that updates or creates a row; the number 0, which selects any row, is left out.  When the query for the row fails
  (\<^term>\<open>qr\<close>), the message is answered at once.
\<close>

definition dev_update_item :: "bool list \<Rightarrow> bool \<Rightarrow> bool \<Rightarrow> u32 \<Rightarrow> gw_pro_data_t list \<Rightarrow> sql_state \<Rightarrow> (bool \<times> sql_state) option" where
  "dev_update_item ts qr db key xs s =
     (if key = 0 then None
      else if \<not> qr then Some (False, s)
      else dev_update_or_insert ts db (dev_rows s (sint key) \<noteq> None) key xs s)"

text \<open>Deleting a device: the first place with its number, that of the gateway included, is cleared.\<close>

definition clear_chn :: "u32 \<Rightarrow> sql_state \<Rightarrow> (u8 \<times> sql_state) option" where
  "clear_chn key s =
     (case g_modbus_reg_addr_mode s of
        MODBUS_REG_ADDR_EXTENSIBLE_MODE \<Rightarrow>
          (let m = chn_nameid_map s in
           map_option (\<lambda>i. (cm_ch (m ! i), s\<lparr>chn_nameid_map := m[i := zero_chn]\<rparr>))
             (List.find (\<lambda>i. cm_nameid (m ! i) = key) [0..<BULLET_GW_SENSOR_NUM_MAX + 1]))
      | MODBUS_REG_ADDR_EFFICIENT_MODE \<Rightarrow>
          (let m = efficient_chn_nameid_map s in
           map_option (\<lambda>i. (em_ch (m ! i), s\<lparr>efficient_chn_nameid_map :=
               m[i := (m ! i)\<lparr>em_nameid := 0, em_validflag := 0, em_ch := 0\<rparr>]\<rparr>))
             (List.find (\<lambda>i. em_nameid (m ! i) = key) [0..<BULLET_GW_SENSOR_NUM_MAX + 1])))"

definition dev_delete_item :: "bool list \<Rightarrow> bool \<Rightarrow> u32 \<Rightarrow> sql_state \<Rightarrow> (bool \<times> sql_state) option" where
  "dev_delete_item ts db key s =
     (let sql = (\<lambda>s. let (status, tbl) = sqlite_delete_dev db key (dev_rows s) in (status, s\<lparr>dev_rows := tbl\<rparr>)) in
      if \<not> modbus_feature_enable s then Some (sql s)
      else case clear_chn key s of
        None \<Rightarrow> Some (sql s)
      | Some (c, s) \<Rightarrow>
          if c = 0 \<or> BULLET_GW_SENSOR_NUM_MAX < unat c then Some (sql s)
          else let s = s\<lparr>assigned_chn_cnt := assigned_chn_cnt s - 1\<rparr> in
            case write_try 1 ts (unat c) zero_cell s of None \<Rightarrow> None | Some (w_flag, s) \<Rightarrow>
            (let (status, s) = sql s in map_option (Pair status) (write_after w_flag (tl ts) (unat c) zero_cell s)))"

text \<open>A gateway configuration with the name number \<^term>\<open>n\<close> takes place 0.\<close>

definition gw_channel :: "u32 \<Rightarrow> sql_state \<Rightarrow> sql_state" where
  "gw_channel n s =
     (case g_modbus_reg_addr_mode s of
        MODBUS_REG_ADDR_EXTENSIBLE_MODE \<Rightarrow>
          s\<lparr>chn_nameid_map := (chn_nameid_map s)[0 := (chn_nameid_map s ! 0)\<lparr>cm_nameid := n, cm_ch := 0\<rparr>]\<rparr>
      | MODBUS_REG_ADDR_EFFICIENT_MODE \<Rightarrow>
          s\<lparr>efficient_chn_nameid_map := (efficient_chn_nameid_map s)[0 :=
             \<lparr>em_validflag = 1, em_ch = 0, em_offset = 0, em_nameid = n, em_len = DEV_REG_ADDR_LENGTH_GW\<rparr>]\<rparr>)"

section \<open>Start\<close>

text \<open>\<^verbatim>\<open>strtol\<close> with the base 16.\<close>

definition is_space :: "u8 \<Rightarrow> bool" where
  "is_space c \<longleftrightarrow> c = 0x20 \<or> (9 \<le> c \<and> c \<le> 13)"

definition strtol16 :: "bytes \<Rightarrow> int" where
  "strtol16 t =
     (let t = dropWhile is_space (c_string t);
          neg = (t \<noteq> [] \<and> hd t = 0x2D);
          t = (if t \<noteq> [] \<and> (hd t = 0x2D \<or> hd t = 0x2B) then tl t else t);
          t = (if 3 \<le> length t \<and> t ! 0 = 0x30 \<and> (t ! 1 = 0x78 \<or> t ! 1 = 0x58) \<and> hex_val (t ! 2) \<noteq> None then drop 2 t else t);
          v = foldl (\<lambda>v c. v * 16 + int (the (hex_val c))) 0 (takeWhile (\<lambda>c. hex_val c \<noteq> None) t)
      in if neg then - v else v)"

text \<open>The description as the array of 70 bytes; the channel, the offset and the length that it names.\<close>

definition char_array :: "bytes \<Rightarrow> bytes" where
  "char_array d = d @ replicate (70 - length d) 0"

definition parse_description :: "bytes \<Rightarrow> (u8 \<times> u16 \<times> u8) option" where
  "parse_description d =
     (let a = char_array d in
      if a ! 0 = 0x43 \<and> a ! 1 = 0x48
      then Some (word_of_int (strtol16 (take 2 (drop 2 a))), word_of_int (strtol16 (take 4 (drop 7 a))), word_of_int (strtol16 (take 2 (drop 13 a))))
      else None)"

definition load_dev :: "u32 \<Rightarrow> sql_state \<Rightarrow> sql_state option" where
  "load_dev key s =
     (case table_query_data_convert_dev (sqlite_query_dev key (dev_rows s)) of None \<Rightarrow> None | Some (ty, d) \<Rightarrow>
      case parse_description (di_description d) of
        None \<Rightarrow> Some s
      | Some (c, off, len) \<Rightarrow>
          if \<not> known_len len \<or> \<not> (0 < unat c \<and> unat c < BULLET_GW_SENSOR_NUM_MAX + 1) then Some s
          else (case g_modbus_reg_addr_mode s of
              MODBUS_REG_ADDR_EXTENSIBLE_MODE \<Rightarrow>
                (let m = chn_nameid_map s; e = m ! unat c in
                 if cm_validflag e = 1 \<and> cm_ch e = c then Some s
                 else map_option (\<lambda>cells. s\<lparr>chn_nameid_map := m[unat c := \<lparr>cm_validflag = 1, cm_ch = c, cm_nameid = di_nameid d\<rparr>],
                        assigned_chn_cnt := assigned_chn_cnt s + 1, dev_cells := cells\<rparr>) (put_cell (unat c) (ty, d) (dev_cells s)))
            | MODBUS_REG_ADDR_EFFICIENT_MODE \<Rightarrow>
                (let m = efficient_chn_nameid_map s; e = m ! unat c in
                 if em_validflag e = 1 \<and> em_ch e = c then Some s
                 else map_option (\<lambda>cells. s\<lparr>efficient_chn_nameid_map := m[unat c :=
                          \<lparr>em_validflag = 1, em_ch = c, em_offset = off, em_nameid = di_nameid d, em_len = len\<rparr>],
                        assigned_chn_cnt := assigned_chn_cnt s + 1, dev_cells := cells\<rparr>) (put_cell (unat c) (ty, d) (dev_cells s)))))"

fun load_devs :: "u32 list \<Rightarrow> sql_state \<Rightarrow> sql_state option" where
  "load_devs [] s = Some s"
| "load_devs (k # ks) s = (if k = 0 then Some s else case load_dev k s of None \<Rightarrow> None | Some s \<Rightarrow> load_devs ks s)"

text \<open>
  The start of the process: the gateway row, if there is one (name number, baud rate and register mode), the name numbers of the
  devices whose rows can be read, in the order the database gives them, whether the shared memory holds the magic string of an earlier run, and the state
  that the database and the shared memory have kept.
\<close>

definition sql_start :: "(u32 \<times> u32 \<times> u8) option \<Rightarrow> u32 list \<Rightarrow> bool \<Rightarrow> sql_state \<Rightarrow> sql_state option" where
  "sql_start gw keys magic old =
     (let s = \<lparr>modbus_feature_enable = True, g_modbus_reg_addr_mode = MODBUS_REG_ADDR_EXTENSIBLE_MODE,
               chn_nameid_map = replicate 41 zero_chn, efficient_chn_nameid_map = replicate 41 zero_eff, assigned_chn_cnt = 0,
               dev_cells = (if magic then dev_cells old else replicate 41 zero_cell), dev_rows = dev_rows old\<rparr> in
      case gw of None \<Rightarrow> Some s | Some (n, baud, mode) \<Rightarrow>
      if n = 0 then Some s
      else if baud = 0 then Some (s\<lparr>modbus_feature_enable := False\<rparr>)
      else let s = (if mode \<in> {0, 2, 4, 6}
             then s\<lparr>chn_nameid_map := (chn_nameid_map s)[0 := \<lparr>cm_validflag = 1, cm_ch = 0, cm_nameid = n\<rparr>], assigned_chn_cnt := 1\<rparr>
             else if mode \<in> {1, 3, 5, 7}
             then s\<lparr>efficient_chn_nameid_map := (efficient_chn_nameid_map s)[0 :=
                      \<lparr>em_validflag = 1, em_ch = 0, em_offset = 0, em_nameid = n, em_len = DEV_REG_ADDR_LENGTH_GW\<rparr>],
                    assigned_chn_cnt := 1, g_modbus_reg_addr_mode := MODBUS_REG_ADDR_EFFICIENT_MODE\<rparr>
             else s)
        in load_devs (take BULLET_GW_SENSOR_NUM_MAX keys) s)"

section \<open>Complete messages\<close>

text \<open>A message with each of the seven columns once, the name number first to seventh, and texts without quotes.\<close>

definition message_ok :: "u32 \<Rightarrow> gw_pro_data_t list \<Rightarrow> bool" where
  "message_ok n xs \<longleftrightarrow> n \<noteq> 0 \<and> unat n < 2 ^ 31 \<and> distinct (map fst xs) \<and> fst ` set xs = {1, 2, 3, 4, 5, 6, 7}
     \<and> (\<forall>x \<in> set xs. if fst x = 1 then snd x = Data_uint32 n else \<exists>s. snd x = Data_char s \<and> 0x27 \<notin> set s)"

lemma convert_fields_defined:
  assumes "\<forall>x \<in> set xs. if fst x = 1 then snd x = Data_uint32 n else \<exists>s. snd x = Data_char s \<and> 0x27 \<notin> set s"
  shows "\<exists>d'. convert_dev_fields xs d = Some d'"
  using assms
proof (induction xs arbitrary: d)
  case (Cons x xs)
  obtain f v where x: "x = (f, v)" by (cases x)
  have "\<exists>d1. convert_dev_field x d = Some d1"
  proof (cases "f = 1")
    case True
    then show ?thesis using Cons.prems x by (simp add: convert_dev_field_def)
  next
    case False
    then obtain t where "v = Data_char t" using Cons.prems x by auto
    then show ?thesis using False by (simp add: x convert_dev_field_def dev_text_def)
  qed
  then obtain d1 where d1: "convert_dev_field x d = Some d1" by blast
  have "\<exists>d'. convert_dev_fields xs d1 = Some d'"
    using Cons.IH Cons.prems by simp
  then show ?case using d1 by simp
qed simp

lemma convert_field_frame:
  assumes "convert_dev_field (f, v) d = Some d'"
  shows "f \<noteq> 1 \<Longrightarrow> di_nameid d' = di_nameid d" "f \<noteq> 6 \<Longrightarrow> di_sensor_type d' = di_sensor_type d"
    "f \<noteq> 7 \<Longrightarrow> di_description d' = di_description d"
  using assms by (auto simp: convert_dev_field_def split: if_splits gw_value.splits)

lemma convert_fields_frame:
  assumes "convert_dev_fields xs d = Some d'"
  shows "(1 \<notin> fst ` set xs \<longrightarrow> di_nameid d' = di_nameid d) \<and> (6 \<notin> fst ` set xs \<longrightarrow> di_sensor_type d' = di_sensor_type d)
    \<and> (7 \<notin> fst ` set xs \<longrightarrow> di_description d' = di_description d)"
  using assms
proof (induction xs arbitrary: d)
  case (Cons x xs)
  obtain f v where x: "x = (f, v)" by (cases x)
  then obtain d1 where d1: "convert_dev_field (f, v) d = Some d1" "convert_dev_fields xs d1 = Some d'"
    using Cons.prems by (auto split: option.splits)
  show ?case using Cons.IH [OF d1(2)] convert_field_frame [OF d1(1)] x by auto
qed simp

lemma convert_fields_values:
  assumes "convert_dev_fields xs d = Some d'" "distinct (map fst xs)"
  shows "(\<forall>n. (1, Data_uint32 n) \<in> set xs \<longrightarrow> di_nameid d' = n)
    \<and> (\<forall>t. (6, Data_char t) \<in> set xs \<longrightarrow> di_sensor_type d' = take 68 (c_string t))
    \<and> (\<forall>t. (7, Data_char t) \<in> set xs \<longrightarrow> di_description d' = take 68 (c_string t))"
  using assms
proof (induction xs arbitrary: d)
  case (Cons x xs)
  obtain f v where x: "x = (f, v)" by (cases x)
  then obtain d1 where d1: "convert_dev_field (f, v) d = Some d1" "convert_dev_fields xs d1 = Some d'"
    using Cons.prems by (auto split: option.splits)
  have IH: "(\<forall>n. (1, Data_uint32 n) \<in> set xs \<longrightarrow> di_nameid d' = n)
    \<and> (\<forall>t. (6, Data_char t) \<in> set xs \<longrightarrow> di_sensor_type d' = take 68 (c_string t))
    \<and> (\<forall>t. (7, Data_char t) \<in> set xs \<longrightarrow> di_description d' = take 68 (c_string t))"
    using Cons.IH [OF d1(2)] Cons.prems(2) by simp
  have nin: "f \<notin> fst ` set xs" using Cons.prems(2) x by simp
  have h: "f = 1 \<Longrightarrow> v = Data_uint32 n \<Longrightarrow> di_nameid d1 = n"
    "f = 6 \<Longrightarrow> v = Data_char t \<Longrightarrow> di_sensor_type d1 = take 68 (c_string t)"
    "f = 7 \<Longrightarrow> v = Data_char t \<Longrightarrow> di_description d1 = take 68 (c_string t)" for n t
    using d1(1) by (auto simp: convert_dev_field_def dev_text_def)
  show ?case
    using IH h nin convert_fields_frame [OF d1(2)] by (auto simp: x)
qed simp

lemma quote_free_c_string: "0x27 \<notin> set s \<Longrightarrow> 0x27 \<notin> set (c_string s)"
  by (auto simp: c_string_def dest: set_takeWhileD)

lemma set_columns_frame: "set_columns xs r = Some r' \<Longrightarrow> f \<notin> fst ` set xs \<Longrightarrow> r' f = r f"
  by (induction xs r rule: set_columns.induct) (auto split: if_splits option.splits)

lemma column_text_value: "column_text f (Data_char s) = Some t \<Longrightarrow> f \<noteq> 4 \<Longrightarrow> t = c_string s"
  by (auto simp: column_text_def Let_def split: if_splits)

lemma set_columns_value:
  assumes "set_columns xs r = Some r'" "distinct (map fst xs)" "(f, Data_char s) \<in> set xs" "2 \<le> f" "f \<noteq> 4"
  shows "r' f = c_string s"
  using assms
proof (induction xs arbitrary: r)
  case (Cons x xs)
  obtain g v where x: "x = (g, v)" by (cases x)
  have "\<exists>r1. set_columns xs r1 = Some r' \<and> (g = f \<longrightarrow> v = Data_char s \<longrightarrow> r1 f = c_string s)"
  proof (cases "g < 2")
    case True
    then show ?thesis using Cons.prems(1,4) x by auto
  next
    case False
    then obtain t where t: "column_text g v = Some t" "set_columns xs (r(g := t)) = Some r'"
      using Cons.prems(1) x by (auto split: if_splits option.splits)
    then show ?thesis using column_text_value [of g s t] Cons.prems(5) by (intro exI [of _ "r(g := t)"]) auto
  qed
  then obtain r1 where r1: "set_columns xs r1 = Some r'" "g = f \<Longrightarrow> v = Data_char s \<Longrightarrow> r1 f = c_string s"
    by blast
  show ?case
  proof (cases "(g, v) = (f, Data_char s)")
    case True
    then have nin: "f \<notin> fst ` set xs" using Cons.prems(2) x by auto
    from set_columns_frame [OF r1(1) nin] show ?thesis using True r1(2) by simp
  next
    case False
    then show ?thesis using Cons.IH [OF r1(1)] Cons.prems(2-) x by auto
  qed
qed simp

lemma set_columns_defined:
  assumes "fst ` set xs \<subseteq> {1, 2, 3, 4, 5, 6, 7}"
    and "\<forall>x \<in> set xs. if fst x = 1 then snd x = Data_uint32 n else \<exists>s. snd x = Data_char s \<and> 0x27 \<notin> set s"
  shows "\<exists>r'. set_columns xs r = Some r'"
  using assms
proof (induction xs arbitrary: r)
  case (Cons x xs)
  obtain f v where x: "x = (f, v)" by (cases x)
  have IH: "\<exists>r'. set_columns xs r0 = Some r'" for r0 using Cons by simp
  show ?case
  proof (cases "f = 1")
    case True
    then show ?thesis using IH x by simp
  next
    case False
    then obtain s where s: "v = Data_char s" "0x27 \<notin> set s" using Cons.prems(2) x by auto
    have "f \<in> {2, 3, 4, 5, 6, 7}" using Cons.prems(1) x False by auto
    moreover have "\<exists>t. column_text f v = Some t"
      using s quote_free_c_string by (auto simp: column_text_def Let_def)
    ultimately show ?thesis using IH x by (auto simp: word_less_nat_alt word_le_nat_alt)
  qed
qed simp

section \<open>The layout strings are read back\<close>

lemma hex_digit_cases:
  assumes "n < 16"
  shows "hex_digit n \<noteq> 0" "hex_digit n \<noteq> 0x27" "hex_digit n \<noteq> 0x2D" "hex_digit n \<noteq> 0x2B" "hex_digit n \<noteq> 0x78" "hex_digit n \<noteq> 0x58"
    "\<not> is_space (hex_digit n)" "hex_val (hex_digit n) = Some n"
proof -
  have "n \<in> {0, 1, 2, 3, 4, 5, 6, 7, 8, 9, 10, 11, 12, 13, 14, 15}"
    using assms unfolding insert_iff empty_iff simp_thms by presburger
  then show "hex_digit n \<noteq> 0" "hex_digit n \<noteq> 0x27" "hex_digit n \<noteq> 0x2D" "hex_digit n \<noteq> 0x2B" "hex_digit n \<noteq> 0x78"
    "hex_digit n \<noteq> 0x58" "\<not> is_space (hex_digit n)" "hex_val (hex_digit n) = Some n"
    by (auto simp: hex_digit_def is_space_def hex_val_def)
qed

lemma hex_digits_string: "\<forall>n \<in> set ds. n < 16 \<Longrightarrow> c_string (map hex_digit ds) = map hex_digit ds"
  by (auto simp: c_string_def takeWhile_eq_all_conv hex_digit_cases)

lemma foldl_hex_digits:
  "\<forall>n \<in> set ds. n < 16 \<Longrightarrow>
     foldl (\<lambda>v c. v * 16 + int (the (hex_val c))) v (map hex_digit ds) = foldl (\<lambda>v n. v * 16 + int n) v ds"
  by (induction ds arbitrary: v) (auto simp: hex_digit_cases)

lemma strtol16_digits:
  assumes "ds \<noteq> []" "\<forall>n \<in> set ds. n < 16"
  shows "strtol16 (map hex_digit ds) = foldl (\<lambda>v n. v * 16 + int n) 0 ds"
proof -
  let ?t = "map hex_digit ds"
  have hd: "hd ?t = hex_digit (hd ds)" "hd ds < 16" using assms by (auto simp: hd_map)
  have one: "?t ! 1 \<noteq> 0x78" "?t ! 1 \<noteq> 0x58" if "3 \<le> length ?t"
    using that assms(2) hex_digit_cases(5,6) [of "ds ! 1"] by simp_all
  have all: "takeWhile (\<lambda>c. hex_val c \<noteq> None) ?t = ?t"
    using assms(2) by (auto simp: takeWhile_eq_all_conv hex_digit_cases)
  have drop: "dropWhile is_space ?t = ?t"
    using assms hd by (cases ds) (auto simp: hex_digit_cases)
  show ?thesis
    unfolding strtol16_def hex_digits_string [OF assms(2)] drop Let_def
    using assms one hd all hex_digit_cases(3,4) [OF hd(2)] by (auto simp: foldl_hex_digits simp del: takeWhile_eq_all_conv)
qed

lemma build_name_chars:
  assumes "chn < 256" "a < 65536" "len < 256" "0 \<notin> set ty" "0x27 \<notin> set ty"
  shows "c_string (build_name chn a len ty) = build_name chn a len ty" "0x27 \<notin> set (build_name chn a len ty)"
proof -
  have d: "chn div 16 < 16" "a div 4096 < 16" "len div 16 < 16" "n mod 16 < 16" for n :: nat
    using assms(1-3) by auto
  note z = hex_digit_cases(1) [OF d(1)] hex_digit_cases(1) [OF d(2)] hex_digit_cases(1) [OF d(3)] hex_digit_cases(1) [OF d(4)]
  note q = hex_digit_cases(2) [OF d(1), symmetric] hex_digit_cases(2) [OF d(2), symmetric] hex_digit_cases(2) [OF d(3), symmetric]
    hex_digit_cases(2) [OF d(4), symmetric]
  have "0 \<notin> set (build_name chn a len ty)"
    using assms(4) by (simp add: build_name_def z [symmetric])
  then show "c_string (build_name chn a len ty) = build_name chn a len ty"
    unfolding c_string_def takeWhile_eq_all_conv by metis
  show "0x27 \<notin> set (build_name chn a len ty)"
    using assms(5) by (simp add: build_name_def q)
qed

lemma parse_build_name:
  assumes "chn < 256" "a < 65536" "len < 256"
  shows "parse_description (build_name chn a len ty) = Some (of_nat chn, of_nat a, of_nat len)"
proof -
  have d: "chn div 16 < 16" "a div 4096 < 16" "len div 16 < 16" using assms by auto
  have two: "strtol16 [hex_digit (n div 16), hex_digit (n mod 16)] = int n" if "n div 16 < 16" for n
  proof -
    have "\<forall>k \<in> set [n div 16, n mod 16]. k < 16" using that by (simp add: mod_less_divisor del: div_less_iff_less_mult)
    from strtol16_digits [OF _ this]
    have "strtol16 [hex_digit (n div 16), hex_digit (n mod 16)] = int (n div 16 * 16 + n mod 16)"
      by (simp only: list.map foldl.simps list.distinct not_False_eq_True True_implies_equals of_nat_add of_nat_mult of_nat_numeral
          mult_zero_left add_0)
    then show ?thesis by (simp only: div_mult_mod_eq)
  qed
  have four: "strtol16 [hex_digit (a div 4096), hex_digit (a div 256 mod 16), hex_digit (a div 16 mod 16), hex_digit (a mod 16)] = int a"
  proof -
    have "\<forall>k \<in> set [a div 4096, a div 256 mod 16, a div 16 mod 16, a mod 16]. k < 16"
      using d(2) by (simp add: mod_less_divisor del: div_less_iff_less_mult)
    from strtol16_digits [OF _ this]
    have "strtol16 [hex_digit (a div 4096), hex_digit (a div 256 mod 16), hex_digit (a div 16 mod 16), hex_digit (a mod 16)]
      = int (a div 4096 * 16 * 16 * 16 + a div 256 mod 16 * 16 * 16 + a div 16 mod 16 * 16 + a mod 16)"
      by (simp only: list.map foldl.simps list.distinct not_False_eq_True True_implies_equals of_nat_add of_nat_mult of_nat_numeral
          mult_zero_left add_0 distrib_right)
    then show ?thesis by (simp only: hex_decompose)
  qed
  show ?thesis
    using two [OF d(1)] two [OF d(3)] four
    by (simp add: parse_description_def char_array_def build_name_def)
qed

end
