(* ===== verification/Sql_Channels.thy ===== *)
theory Sql_Channels
  imports Sql_Shm
begin

text \<open>
  The channels that the database process gives to the sensors: the state that any sequence of updates, deletions and restarts keeps in
  extensible mode, what a restart finds again, what the Modbus slave makes of the written layouts, and the places that the efficient
  mode chooses.
\<close>

section \<open>One message\<close>

lemma set_field_7_some:
  assumes "7 \<in> fst ` set xs" "distinct (map fst xs)"
  shows "\<exists>ys. set_field_7 s xs = Some ys \<and> map fst ys = map fst xs \<and> set ys = insert (7, Data_char s) {x \<in> set xs. fst x \<noteq> 7}"
  using assms
proof (induction xs)
  case (Cons x xs)
  show ?case
  proof (cases "fst x = 7")
    case True
    then have "\<forall>y \<in> set xs. fst y \<noteq> 7" using Cons.prems(2) by (auto simp: image_iff)
    then show ?thesis using True by (auto intro!: exI [of _ "(7, Data_char s) # xs"])
  next
    case False
    then obtain ys where "set_field_7 s xs = Some ys" "map fst ys = map fst xs" "set ys = insert (7, Data_char s) {x \<in> set xs. fst x \<noteq> 7}"
      using Cons by auto
    then show ?thesis using False by (auto intro!: exI [of _ "x # ys"])
  qed
qed simp

lemma message_field:
  assumes "message_ok n xs" "f \<in> {2, 3, 4, 5, 6, 7}"
  shows "\<exists>s. (f, Data_char s) \<in> set xs \<and> 0x27 \<notin> set s"
proof -
  have "f \<in> fst ` set xs" "f \<noteq> 1" using assms by (auto simp: message_ok_def)
  then obtain v where v: "(f, v) \<in> set xs" by auto
  then have "\<exists>s. v = Data_char s \<and> 0x27 \<notin> set s"
    using assms(1) \<open>f \<noteq> 1\<close> by (force simp: message_ok_def)
  then show ?thesis using v by blast
qed

lemma message_number: "message_ok n xs \<Longrightarrow> (1, Data_uint32 n) \<in> set xs"
proof -
  assume m: "message_ok n xs"
  then have "1 \<in> fst ` set xs" by (auto simp: message_ok_def)
  then obtain v where "(1, v) \<in> set xs" by auto
  then show ?thesis using m by (force simp: message_ok_def)
qed

lemma message_row_key:
  assumes "message_ok n xs"
  shows "row_key xs = Some (int (unat n))" "list_ex (\<lambda>x. fst x = 1) xs"
proof -
  have one: "(1, Data_uint32 n) \<in> set xs" by (rule message_number [OF assms])
  then show "list_ex (\<lambda>x. fst x = 1) xs" by (force simp: list_ex_iff)
  obtain y where y: "List.find (\<lambda>x. fst x = 1) xs = Some y"
    using one by (cases "List.find (\<lambda>x. fst x = 1) xs") (auto simp: find_None_iff)
  then have "y \<in> set xs" "fst y = 1" by (auto simp: find_Some_iff)
  moreover have "\<forall>x \<in> set xs. fst x = 1 \<longrightarrow> snd x = Data_uint32 n" using assms unfolding message_ok_def by metis
  ultimately have "y = (1, Data_uint32 n)" by (metis prod.collapse)
  then show "row_key xs = Some (int (unat n))" using y by (simp add: row_key_def)
qed

lemma message_describe:
  assumes "message_ok n xs" "0x27 \<notin> set s"
  shows "\<exists>ys. set_field_7 s xs = Some ys \<and> message_ok n ys \<and> (7, Data_char s) \<in> set ys
    \<and> (\<forall>t. (6, Data_char t) \<in> set xs \<longrightarrow> (6, Data_char t) \<in> set ys)"
proof -
  have "7 \<in> fst ` set xs" "distinct (map fst xs)" using assms(1) by (auto simp: message_ok_def)
  from set_field_7_some [OF this] obtain ys where ys: "set_field_7 s xs = Some ys" "map fst ys = map fst xs"
    "set ys = insert (7, Data_char s) {x \<in> set xs. fst x \<noteq> 7}" by blast
  have "fst ` set ys = fst ` set xs" using arg_cong [OF ys(2), of set] by simp
  then have "message_ok n ys"
    using assms unfolding message_ok_def ys(2) by (auto simp: ys(3))
  then show ?thesis using ys by auto
qed

lemma type_str_chars: "0 \<notin> set (shm_get_sensor_type_str t)" "0x27 \<notin> set (shm_get_sensor_type_str t)"
  "length (shm_get_sensor_type_str t) = 3"
  by (auto simp: shm_get_sensor_type_str_def type_PRS_def type_PRO_def type_ITS_def)

text \<open>The layout of channel \<^term>\<open>i\<close> in extensible mode for a sensor type.\<close>

definition ext_layout :: "nat \<Rightarrow> bytes \<Rightarrow> bytes" where
  "ext_layout i t = build_name i (MODBUS_REG_SENSOR_START_ADDR_OFFSET + i * MODBUS_REG_SENSOR_LENGTH - MODBUS_REG_SENSOR_LENGTH)
     MODBUS_REG_SENSOR_LENGTH (shm_get_sensor_type_str t)"

lemma ext_layout_eq: "ext_layout i t = build_name i (0x80 * i) 0x80 (shm_get_sensor_type_str t)"
  by (simp add: ext_layout_def MODBUS_REG_SENSOR_START_ADDR_OFFSET_def MODBUS_REG_SENSOR_LENGTH_def mult.commute)

lemma ext_layout_text:
  assumes "i \<le> 41"
  shows "c_string (ext_layout i t) = ext_layout i t" "0x27 \<notin> set (ext_layout i t)" "length (ext_layout i t) = 19"
    "take 68 (ext_layout i t) = ext_layout i t"
    "parse_description (ext_layout i t) = Some (of_nat i, of_nat (0x80 * i), 0x80)"
proof -
  have b: "i < 256" "0x80 * i < 65536" "(0x80::nat) < 256" using assms by auto
  show "c_string (ext_layout i t) = ext_layout i t" "0x27 \<notin> set (ext_layout i t)"
    using build_name_chars [OF b type_str_chars(1,2)] by (simp_all add: ext_layout_eq)
  show l: "length (ext_layout i t) = 19" by (simp add: ext_layout_eq build_name_def type_str_chars)
  then show "take 68 (ext_layout i t) = ext_layout i t" by simp
  show "parse_description (ext_layout i t) = Some (of_nat i, of_nat (0x80 * i), 0x80)"
    using parse_build_name [OF b, of "shm_get_sensor_type_str t"] by (simp add: ext_layout_eq)
qed

section \<open>Writing the item\<close>

lemma write_try_result:
  assumes "put_cell c item (dev_cells s) = Some cells"
  shows "write_try k ts c item s = Some (False, s) \<or> write_try k ts c item s = Some (True, s\<lparr>dev_cells := cells\<rparr>)"
  using assms by (induction k ts c item s rule: write_try.induct) auto

lemma write_after_result:
  assumes "put_cell c item (dev_cells s) = Some cells"
  shows "write_after False ts c item s = Some (s\<lparr>dev_cells := cells\<rparr>)" "write_after True ts c item s = Some s"
  using write_try_result [OF assms, of 2 ts] assms by (auto simp: write_after_def)

section \<open>The effect of a message in extensible mode\<close>

lemma sint_small: "unat (n :: u32) < 2 ^ 31 \<Longrightarrow> sint n = int (unat n)"
proof -
  assume "unat n < 2 ^ 31"
  then have "uint n < 2 ^ 31" using of_nat_less_iff [of "unat n" "2 ^ 31", where 'a = int] by simp
  moreover have "- (2 ^ 31) \<le> (0 :: int)" by simp
  then have "- (2 ^ 31) \<le> uint n" by (rule order_trans) simp
  ultimately have "signed_take_bit 31 (uint n) = uint n" by (simp only: signed_take_bit_int_eq_self_iff)
  then show ?thesis by (simp add: sint_uint)
qed

lemma c_string_zero: "0 \<notin> set (c_string t)"
  by (auto simp: c_string_def dest: set_takeWhileD)

lemma c_string_id: "0 \<notin> set t \<Longrightarrow> c_string t = t"
  unfolding c_string_def takeWhile_eq_all_conv by metis

lemma sql_command_complete:
  assumes "message_ok n xs" "upd \<longleftrightarrow> dev_rows s (sint n) \<noteq> None"
  shows "\<exists>r. sql_command db upd n xs s = Some (db, if db then s\<lparr>dev_rows := (dev_rows s)(int (unat n) \<mapsto> r)\<rparr> else s)
    \<and> (\<forall>t. (7, Data_char t) \<in> set xs \<longrightarrow> r 7 = c_string t) \<and> (\<forall>t. (6, Data_char t) \<in> set xs \<longrightarrow> r 6 = c_string t)"
proof -
  have m: "distinct (map fst xs)" "fst ` set xs \<subseteq> {1, 2, 3, 4, 5, 6, 7}" "unat n < 2 ^ 31"
    "\<forall>x \<in> set xs. if fst x = 1 then snd x = Data_uint32 n else \<exists>s. snd x = Data_char s \<and> 0x27 \<notin> set s"
    using assms(1) by (auto simp: message_ok_def)
  note key = message_row_key [OF assms(1)] sint_small [OF m(3)]
  have ne: "xs \<noteq> []" using key(2) by auto
  let ?r0 = "case dev_rows s (sint n) of None \<Rightarrow> default_row | Some r \<Rightarrow> r"
  obtain r where r: "set_columns xs ?r0 = Some r" using set_columns_defined [OF m(2,4)] by blast
  have v: "r f = c_string t" if "(f, Data_char t) \<in> set xs" "f = 6 \<or> f = 7" for f t
    using set_columns_value [OF r m(1) that(1)] that(2) by auto
  show ?thesis
  proof (cases upd)
    case True
    then obtain r1 where r1: "dev_rows s (int (unat n)) = Some r1" using assms(2) key(3) by auto
    have "sqlite_update_dev db n xs (dev_rows s) = Some (db, if db then (dev_rows s)(int (unat n) \<mapsto> r) else dev_rows s)"
      unfolding sqlite_update_dev_def using m(1) ne key r r1 by simp
    then show ?thesis using True v by (auto simp: sql_command_def intro!: exI [of _ r])
  next
    case False
    then have n1: "dev_rows s (int (unat n)) = None" using assms(2) key(3) by auto
    have "sqlite_insert_dev db xs (dev_rows s) = Some (db, if db then (dev_rows s)(int (unat n) \<mapsto> r) else dev_rows s)"
      unfolding sqlite_insert_dev_def using m(1) key r n1 by simp
    then show ?thesis using False v by (auto simp: sql_command_def intro!: exI [of _ r])
  qed
qed

lemma dev_write_effect:
  assumes s: "modbus_feature_enable s" "g_modbus_reg_addr_mode s = MODBUS_REG_ADDR_EXTENSIBLE_MODE" "length (dev_cells s) = 41"
    and m: "message_ok n xs"
    and c: "channel_for n s = (i, s1)" "1 \<le> i" "i \<le> 41" "dev_cells s1 = dev_cells s" "dev_rows s1 = dev_rows s"
    and u: "upd \<longleftrightarrow> dev_rows s (sint n) \<noteq> None"
  shows "\<exists>d r. dev_update_or_insert ts db upd n xs s = Some (db, s1\<lparr>dev_cells := (dev_cells s)[i - 1 := (2, d)],
       dev_rows := (if db then (dev_rows s)(int (unat n) \<mapsto> r) else dev_rows s)\<rparr>)
    \<and> di_nameid d = n \<and> di_description d = ext_layout i (di_sensor_type d)
    \<and> r 7 = ext_layout i (di_sensor_type d) \<and> di_sensor_type d = take 68 (r 6) \<and> 0 \<notin> set (r 6)
    \<and> (\<forall>t. (6, Data_char t) \<in> set xs \<longrightarrow> r 6 = c_string t)"
proof -
  have m': "distinct (map fst xs)"
    "\<forall>x \<in> set xs. if fst x = 1 then snd x = Data_uint32 n else \<exists>s. snd x = Data_char s \<and> 0x27 \<notin> set s"
    using m by (auto simp: message_ok_def)
  obtain d0 where d0: "convert_dev_fields xs zero_device = Some d0" using convert_fields_defined [OF m'(2)] by blast
  obtain t where t: "(6, Data_char t) \<in> set xs" using message_field [OF m, of 6] by auto
  have d1: "di_nameid d0 = n" "di_sensor_type d0 = take 68 (c_string t)"
    using convert_fields_values [OF d0 m'(1)] message_number [OF m] t by auto
  let ?l = "ext_layout i (di_sensor_type d0)"
  let ?d = "d0\<lparr>di_description := ?l\<rparr>"
  obtain ys where ys: "set_field_7 ?l xs = Some ys" "message_ok n ys" "(7, Data_char ?l) \<in> set ys" "(6, Data_char t) \<in> set ys"
    using message_describe [OF m ext_layout_text(2) [OF c(3)], of "di_sensor_type d0"] t by blast
  have ext: "ext_dev_channel xs d0 s = (i, ys, ?d, s1)"
    using c(1) ys(1) by (simp add: ext_dev_channel_def d1(1) describe_def ext_layout_def)
  let ?cells = "(dev_cells s)[i - 1 := (2, ?d)]"
  have put: "put_cell i (2, ?d) (dev_cells s1) = Some ?cells" using c s(3) by (simp add: put_cell_def)
  have conv: "table_update_data_convert_dev xs = Some (2, d0)"
    by (simp add: table_update_data_convert_dev_def d0 GW_PRO_TABLE_IDX_MNGED_DEVICE_LIST_TABLE_def)
  have sql: "\<exists>r. sql_command db upd n ys s2 = Some (db, s2\<lparr>dev_rows := (if db then (dev_rows s)(int (unat n) \<mapsto> r) else dev_rows s)\<rparr>)
      \<and> r 7 = ?l \<and> r 6 = c_string t"
    if "dev_rows s2 = dev_rows s" for s2
    using sql_command_complete [OF ys(2), of upd s2 db] u that ys(3,4) ext_layout_text(1) [OF c(3)] by auto
  have six: "t' = t" if "(6, Data_char t') \<in> set xs" for t'
    using that t m'(1) by (auto dest: eq_key_imp_eq_value)
  from write_try_result [OF put, of 1 ts] show ?thesis
  proof
    assume w: "write_try 1 ts i (2, ?d) s1 = Some (False, s1)"
    obtain r where r: "sql_command db upd n ys s1 = Some (db, s1\<lparr>dev_rows := (if db then (dev_rows s)(int (unat n) \<mapsto> r) else dev_rows s)\<rparr>)" "r 7 = ?l" "r 6 = c_string t"
      using sql [of s1] c(5) by auto
    have "put_cell i (2, ?d) (dev_cells (s1\<lparr>dev_rows := (if db then (dev_rows s)(int (unat n) \<mapsto> r) else dev_rows s)\<rparr>)) = Some ?cells" using put by simp
    from write_after_result(1) [OF this, of "tl ts"] show ?thesis
      using s conv ext w r d1 by (auto simp: dev_update_or_insert_def c_string_zero dest!: six intro!: exI [of _ ?d] exI [of _ r])
  next
    assume w: "write_try 1 ts i (2, ?d) s1 = Some (True, s1\<lparr>dev_cells := ?cells\<rparr>)"
    obtain r where r: "sql_command db upd n ys (s1\<lparr>dev_cells := ?cells\<rparr>) =
        Some (db, s1\<lparr>dev_cells := ?cells, dev_rows := (if db then (dev_rows s)(int (unat n) \<mapsto> r) else dev_rows s)\<rparr>)" "r 7 = ?l" "r 6 = c_string t"
      using sql [of "s1\<lparr>dev_cells := ?cells\<rparr>"] c(5) by auto
    show ?thesis
      using s conv ext w r d1 by (auto simp: dev_update_or_insert_def write_after_def c_string_zero dest!: six intro!: exI [of _ ?d] exI [of _ r])
  qed
qed

section \<open>What every run keeps\<close>

text \<open>
  A place is empty, or it belongs to a row of the database: the entry, the cell of the shared memory and the row name the same device
  and the same channel.
\<close>

definition taken :: "sql_state \<Rightarrow> nat \<Rightarrow> bool" where
  "taken s i \<longleftrightarrow> chn_nameid_map s ! i \<noteq> zero_chn"

definition holder :: "sql_state \<Rightarrow> nat \<Rightarrow> u32" where
  "holder s i = cm_nameid (chn_nameid_map s ! i)"

definition place_ok :: "sql_state \<Rightarrow> nat \<Rightarrow> bool" where
  "place_ok s i \<longleftrightarrow>
     (if taken s i
      then \<exists>n d r. chn_nameid_map s ! i = \<lparr>cm_validflag = 1, cm_ch = of_nat i, cm_nameid = n\<rparr> \<and> n \<noteq> 0 \<and> unat n < 2 ^ 31
        \<and> dev_cells s ! (i - 1) = (2, d) \<and> di_nameid d = n \<and> di_description d = ext_layout i (di_sensor_type d)
        \<and> dev_rows s (int (unat n)) = Some r \<and> r 7 = ext_layout i (di_sensor_type d) \<and> di_sensor_type d = take 68 (r 6) \<and> 0 \<notin> set (r 6)
      else dev_cells s ! (i - 1) = zero_cell)"

definition chn_inv :: "sql_state \<Rightarrow> bool" where
  "chn_inv s \<longleftrightarrow> modbus_feature_enable s \<and> g_modbus_reg_addr_mode s = MODBUS_REG_ADDR_EXTENSIBLE_MODE
     \<and> length (chn_nameid_map s) = 41 \<and> length (dev_cells s) = 41 \<and> cm_ch (chn_nameid_map s ! 0) = 0
     \<and> (\<forall>i \<in> {1..40}. place_ok s i)
     \<and> inj_on (holder s) {i \<in> {1..40}. taken s i}
     \<and> (\<forall>i \<in> {1..40}. taken s i \<longrightarrow> holder s i \<noteq> holder s 0)
     \<and> dom (dev_rows s) \<subseteq> (\<lambda>i. int (unat (holder s i))) ` {i \<in> {1..40}. taken s i}
     \<and> (\<exists>g \<le> 1. unat (assigned_chn_cnt s) = g + card {i \<in> {1..40}. taken s i})"

text \<open>A place that is taken has the number of its row; the number of rows is the number of places taken.\<close>

lemma taken_entry:
  assumes "chn_inv s" "i \<in> {1..40}" "taken s i"
  shows "chn_nameid_map s ! i = \<lparr>cm_validflag = 1, cm_ch = of_nat i, cm_nameid = holder s i\<rparr>" "holder s i \<noteq> 0" "unat (holder s i) < 2 ^ 31"
    "\<exists>d r. dev_cells s ! (i - 1) = (2, d) \<and> di_nameid d = holder s i \<and> di_description d = ext_layout i (di_sensor_type d)
       \<and> dev_rows s (int (unat (holder s i))) = Some r \<and> r 7 = ext_layout i (di_sensor_type d) \<and> di_sensor_type d = take 68 (r 6)
       \<and> 0 \<notin> set (r 6)"
proof -
  have "place_ok s i" using assms by (simp add: chn_inv_def)
  then obtain n d r where p: "chn_nameid_map s ! i = \<lparr>cm_validflag = 1, cm_ch = of_nat i, cm_nameid = n\<rparr>" "n \<noteq> 0" "unat n < 2 ^ 31"
    "dev_cells s ! (i - 1) = (2, d)" "di_nameid d = n" "di_description d = ext_layout i (di_sensor_type d)"
    "dev_rows s (int (unat n)) = Some r" "r 7 = ext_layout i (di_sensor_type d)" "di_sensor_type d = take 68 (r 6)" "0 \<notin> set (r 6)"
    using assms(3) by (auto simp: place_ok_def)
  moreover have "holder s i = n" using p(1) by (simp add: holder_def)
  ultimately show "chn_nameid_map s ! i = \<lparr>cm_validflag = 1, cm_ch = of_nat i, cm_nameid = holder s i\<rparr>" "holder s i \<noteq> 0"
    "unat (holder s i) < 2 ^ 31"
    "\<exists>d r. dev_cells s ! (i - 1) = (2, d) \<and> di_nameid d = holder s i \<and> di_description d = ext_layout i (di_sensor_type d)
       \<and> dev_rows s (int (unat (holder s i))) = Some r \<and> r 7 = ext_layout i (di_sensor_type d) \<and> di_sensor_type d = take 68 (r 6)
       \<and> 0 \<notin> set (r 6)"
    by auto
qed

lemma empty_place:
  assumes "chn_inv s" "i \<in> {1..40}" "\<not> taken s i"
  shows "dev_cells s ! (i - 1) = zero_cell"
proof -
  have "place_ok s i" using assms by (simp add: chn_inv_def)
  then show ?thesis using assms(3) by (simp add: place_ok_def)
qed

lemma rows_taken:
  assumes "chn_inv s"
  shows "dom (dev_rows s) = (\<lambda>i. int (unat (holder s i))) ` {i \<in> {1..40}. taken s i}"
    "card (dom (dev_rows s)) = card {i \<in> {1..40}. taken s i}"
proof -
  have "(\<lambda>i. int (unat (holder s i))) ` {i \<in> {1..40}. taken s i} \<subseteq> dom (dev_rows s)"
    using taken_entry(4) [OF assms] by blast
  then show d: "dom (dev_rows s) = (\<lambda>i. int (unat (holder s i))) ` {i \<in> {1..40}. taken s i}"
    using assms by (auto simp: chn_inv_def)
  have "inj_on (holder s) {i \<in> {1..40}. taken s i}" using assms unfolding chn_inv_def by blast
  then have "inj_on ((\<lambda>n. int (unat n)) \<circ> holder s) {i \<in> {1..40}. taken s i}"
    by (rule comp_inj_on) (auto simp: inj_on_def intro: unsigned_word_eqI)
  then have "inj_on (\<lambda>i. int (unat (holder s i))) {i \<in> {1..40}. taken s i}" by (simp only: comp_def)
  then show "card (dom (dev_rows s)) = card {i \<in> {1..40}. taken s i}" by (simp add: d card_image)
qed

lemma row_has_place:
  assumes "chn_inv s" "dev_rows s k \<noteq> None"
  shows "\<exists>i \<in> {1..40}. taken s i \<and> k = int (unat (holder s i))"
  using assms(2) rows_taken(1) [OF assms(1)] by blast

lemma not_taken: "\<not> taken s i \<longleftrightarrow> chn_nameid_map s ! i = zero_chn"
  by (simp add: taken_def)

text \<open>The search finds the place of a row, and the first empty place for a number without one.\<close>

lemma find_chn_holder:
  assumes "chn_inv s" "i \<in> {1..40}" "taken s i"
  shows "find_chn (holder s i) (chn_nameid_map s) = Some (of_nat i)"
proof -
  have e: "cm_nameid (chn_nameid_map s ! i) = holder s i" "cm_validflag (chn_nameid_map s ! i) = 1" "cm_ch (chn_nameid_map s ! i) = of_nat i"
    using taken_entry(1) [OF assms] by simp_all
  have "\<not> (holder s i = cm_nameid (chn_nameid_map s ! l) \<and> cm_validflag (chn_nameid_map s ! l) = 1)" if "1 \<le> l" "l < i" for l
  proof
    assume l: "holder s i = cm_nameid (chn_nameid_map s ! l) \<and> cm_validflag (chn_nameid_map s ! l) = 1"
    then have "taken s l" by (auto simp: taken_def zero_chn_def)
    then have "l = i" using assms that l inj_onD [of "holder s" "{i \<in> {1..40}. taken s i}" i l]
      by (auto simp: chn_inv_def holder_def)
    then show False using that by simp
  qed
  then have "List.find (\<lambda>l. holder s i = cm_nameid (chn_nameid_map s ! l) \<and> cm_validflag (chn_nameid_map s ! l) = 1)
      [1..<BULLET_GW_SENSOR_NUM_MAX + 1] = Some i"
    using assms(2) e by (auto simp: find_upt BULLET_GW_SENSOR_NUM_MAX_def simp del: upt_Suc)
  then show ?thesis using e(3) by (simp add: find_chn_def)
qed

lemma find_chn_row:
  assumes "chn_inv s" "i \<in> {1..40}" "taken s i"
  shows "channel_for (holder s i) s = (i, s)"
  using find_chn_holder [OF assms] assms(2) by (simp add: channel_for_def unat_of_nat)

lemma find_chn_absent:
  assumes inv: "chn_inv s" and n: "n \<noteq> 0" "dev_rows s (int (unat n)) = None"
  shows "find_chn n (chn_nameid_map s) = None"
proof -
  let ?M = "BULLET_GW_SENSOR_NUM_MAX" and ?m = "chn_nameid_map s"
  have M: "?M = 40" by (simp add: BULLET_GW_SENSOR_NUM_MAX_def)
  have "List.find (\<lambda>i. n = cm_nameid (?m ! i) \<and> cm_validflag (?m ! i) = 1) [1..<?M + 1] = None"
    unfolding find_upt_None
  proof (intro allI impI notI)
    fix l assume l: "1 \<le> l \<and> l < ?M + 1" "n = cm_nameid (?m ! l) \<and> cm_validflag (?m ! l) = 1"
    then have "taken s l" "l \<in> {1..40}" "holder s l = n" by (auto simp: taken_def zero_chn_def holder_def M)
    then show False using taken_entry(4) [OF inv, of l] n(2) by auto
  qed
  then show ?thesis by (simp add: find_chn_def)
qed

lemma find_chn_new:
  assumes inv: "chn_inv s" and n: "n \<noteq> 0" "unat n < 2 ^ 31" "dev_rows s (int (unat n)) = None" and room: "card (dom (dev_rows s)) < 40"
  shows "\<exists>i \<in> {1..40}. \<not> taken s i \<and> (\<forall>l \<in> {1..<i}. taken s l) \<and> channel_for n s =
     (i, s\<lparr>chn_nameid_map := (chn_nameid_map s)[i := \<lparr>cm_validflag = 1, cm_ch = of_nat i, cm_nameid = n\<rparr>],
           assigned_chn_cnt := assigned_chn_cnt s + 1\<rparr>)"
proof -
  let ?M = "BULLET_GW_SENSOR_NUM_MAX" and ?m = "chn_nameid_map s"
  have M: "?M = 40" by (simp add: BULLET_GW_SENSOR_NUM_MAX_def)
  have none: "find_chn n ?m = None" by (rule find_chn_absent [OF inv n(1,3)])
  let ?T = "{i \<in> {1..40}. taken s i}"
  have card: "card ?T < 40" using room rows_taken(2) [OF inv] by simp
  have "?T \<noteq> {1..40}" using card by auto
  then obtain i0 where "i0 \<in> {1..40}" "\<not> taken s i0" by blast
  then have ex: "\<exists>i. i \<in> {1..40} \<and> \<not> taken s i" by blast
  define i where "i = (LEAST i. i \<in> {1..40} \<and> \<not> taken s i)"
  have i: "i \<in> {1..40}" "\<not> taken s i" using LeastI_ex [OF ex] by (simp_all add: i_def)
  have before: "taken s l" if "l \<in> {1..<i}" for l
    using not_less_Least [of l "\<lambda>i. i \<in> {1..40} \<and> \<not> taken s i"] that i(1) by (auto simp: i_def)
  have "free_chn ?m = Some i"
    unfolding free_chn_def find_upt
  proof (intro conjI allI impI notI)
    show "1 \<le> i" "i < ?M + 1" using i(1) by (simp_all add: M)
    show "cm_nameid (?m ! i) = 0" "cm_ch (?m ! i) = 0" using i(2) by (simp_all add: not_taken zero_chn_def)
    fix l assume l: "1 \<le> l \<and> l < i" "cm_nameid (?m ! l) = 0 \<and> cm_ch (?m ! l) = 0"
    then have "taken s l" "l \<in> {1..40}" using before i(1) by auto
    then show False using taken_entry(2) [OF inv, of l] l(2) by (simp add: holder_def)
  qed
  moreover have "unat (assigned_chn_cnt s) \<le> 40" using inv card by (auto simp: chn_inv_def)
  ultimately show ?thesis
    using none i before by (intro bexI [of _ i]) (auto simp: channel_for_def assign_chn_def M)
qed

definition put_place :: "nat \<Rightarrow> u32 \<Rightarrow> u8 \<Rightarrow> device_info \<Rightarrow> dev_row \<Rightarrow> sql_state \<Rightarrow> sql_state" where
  "put_place i n cnt d r s = s\<lparr>chn_nameid_map := (chn_nameid_map s)[i := \<lparr>cm_validflag = 1, cm_ch = of_nat i, cm_nameid = n\<rparr>],
     assigned_chn_cnt := cnt, dev_cells := (dev_cells s)[i - 1 := (2, d)], dev_rows := (dev_rows s)(int (unat n) \<mapsto> r)\<rparr>"

lemma put_place_simps:
  assumes "chn_inv s" "i \<in> {1..40}"
  shows "taken (put_place i n cnt d r s) l \<longleftrightarrow> l = i \<or> taken s l" "holder (put_place i n cnt d r s) l = (if l = i then n else holder s l)"
  using assms by (auto simp: taken_def holder_def put_place_def chn_inv_def zero_chn_def nth_list_update)

lemma count_taken:
  assumes "i \<in> {1..40}"
  shows "card {l \<in> {1..40}. l = i \<or> taken s l} = (if taken s i then 0 else 1) + card {l \<in> {1..40}. taken s l}"
proof (cases "taken s i")
  case True
  then have "{l \<in> {1..40}. l = i \<or> taken s l} = {l \<in> {1..40}. taken s l}" by auto
  then show ?thesis using True by simp
next
  case False
  have "{l \<in> {1..40}. l = i \<or> taken s l} = insert i {l \<in> {1..40}. taken s l}" using assms by auto
  then show ?thesis using False by simp
qed

lemma chn_inv_put:
  assumes inv: "chn_inv s" and i: "i \<in> {1..40}" and n: "n \<noteq> 0" "unat n < 2 ^ 31" "n \<noteq> holder s 0"
    and new: "if taken s i then holder s i = n \<and> cnt = assigned_chn_cnt s
      else dev_rows s (int (unat n)) = None \<and> cnt = assigned_chn_cnt s + 1 \<and> unat (assigned_chn_cnt s) \<le> 40"
    and d: "di_nameid d = n" "di_description d = ext_layout i (di_sensor_type d)" "r 7 = ext_layout i (di_sensor_type d)"
      "di_sensor_type d = take 68 (r 6)" "0 \<notin> set (r 6)"
  shows "chn_inv (put_place i n cnt d r s)"
proof -
  let ?s = "put_place i n cnt d r s" and ?T = "{i \<in> {1..40}. taken s i}"
  note tk = put_place_simps [OF inv i, of n cnt d r]
  have len: "length (chn_nameid_map s) = 41" "length (dev_cells s) = 41" using inv by (simp_all add: chn_inv_def)
  have other: "holder s l \<noteq> n" if "l \<in> {1..40}" "taken s l" "l \<noteq> i" for l
  proof
    assume h: "holder s l = n"
    have "taken s i" using new taken_entry(4) [OF inv that(1,2)] h by (auto split: if_splits)
    then show False using new h that i inv inj_onD [of "holder s" ?T l i] by (auto simp: chn_inv_def)
  qed
  have place: "place_ok ?s l" if l: "l \<in> {1..40}" for l
  proof (cases "l = i")
    case True
    then show ?thesis using n d i len by (auto simp: place_ok_def tk) (auto simp: put_place_def)
  next
    case False
    then have c: "dev_cells ?s ! (l - 1) = dev_cells s ! (l - 1)" "chn_nameid_map ?s ! l = chn_nameid_map s ! l"
      using i l by (auto simp: put_place_def nth_list_update)
    have "place_ok s l" using inv l by (simp add: chn_inv_def)
    moreover have "dev_rows ?s (int (unat (holder s l))) = dev_rows s (int (unat (holder s l)))" if "taken s l"
      using other [OF l that False] by (auto simp: put_place_def intro: unsigned_word_eqI)
    ultimately show ?thesis using False by (auto simp: place_ok_def tk c [unfolded One_nat_def] holder_def)
  qed
  have inj: "inj_on (holder ?s) {l \<in> {1..40}. taken ?s l}"
    using inv other by (auto simp: inj_on_def tk chn_inv_def)
  have gw: "holder ?s l \<noteq> holder ?s 0" if "l \<in> {1..40}" "taken ?s l" for l
    using that i n(3) inv by (auto simp: tk chn_inv_def)
  have "dom (dev_rows ?s) \<subseteq> (\<lambda>l. int (unat (holder ?s l))) ` {l \<in> {1..40}. taken ?s l}"
  proof
    fix k assume "k \<in> dom (dev_rows ?s)"
    then have "k = int (unat n) \<or> dev_rows s k \<noteq> None" by (auto simp: put_place_def split: if_splits)
    then obtain l where "l \<in> {1..40}" "l = i \<or> taken s l" "k = int (unat (if l = i then n else holder s l))"
    proof
      assume "k = int (unat n)"
      then show ?thesis using i that [of i] by simp
    next
      assume "dev_rows s k \<noteq> None"
      then obtain l where l: "l \<in> {1..40}" "taken s l" "k = int (unat (holder s l))" using row_has_place [OF inv] by blast
      moreover have "l = i \<Longrightarrow> holder s l = n" using l(2) new by simp
      ultimately show ?thesis using that [of l] by (cases "l = i") simp_all
    qed
    then show "k \<in> (\<lambda>l. int (unat (holder ?s l))) ` {l \<in> {1..40}. taken ?s l}"
      by (auto simp: tk intro!: image_eqI [where x = l])
  qed
  moreover have "\<exists>g \<le> 1. unat (assigned_chn_cnt ?s) = g + card {l \<in> {1..40}. taken ?s l}"
  proof -
    obtain g where g: "g \<le> 1" "unat (assigned_chn_cnt s) = g + card ?T" using inv by (auto simp: chn_inv_def)
    have "unat (assigned_chn_cnt s + 1) = unat (assigned_chn_cnt s) + 1" if "unat (assigned_chn_cnt s) \<le> 40"
      using that by (simp add: unat_word_ariths)
    then have "unat cnt = (if taken s i then 0 else 1) + unat (assigned_chn_cnt s)" using new by (auto split: if_splits)
    moreover have "card {l \<in> {1..40}. taken ?s l} = (if taken s i then 0 else 1) + card ?T"
      unfolding tk(1) by (rule count_taken [OF i])
    moreover have "assigned_chn_cnt ?s = cnt" by (simp add: put_place_def)
    ultimately show ?thesis using g by (intro exI [of _ g]) simp
  qed
  moreover have "modbus_feature_enable ?s" "g_modbus_reg_addr_mode ?s = MODBUS_REG_ADDR_EXTENSIBLE_MODE"
    "length (chn_nameid_map ?s) = 41" "length (dev_cells ?s) = 41" "cm_ch (chn_nameid_map ?s ! 0) = 0"
    using inv i by (simp_all add: put_place_def chn_inv_def)
  ultimately show ?thesis unfolding chn_inv_def using place inj gw by blast
qed

section \<open>The effect of a deletion\<close>

definition clear_place :: "nat \<Rightarrow> sql_state \<Rightarrow> sql_state" where
  "clear_place i s = s\<lparr>chn_nameid_map := (chn_nameid_map s)[i := zero_chn], assigned_chn_cnt := assigned_chn_cnt s - 1,
     dev_cells := (dev_cells s)[i - 1 := zero_cell], dev_rows := (dev_rows s)(int (unat (holder s i)) := None)\<rparr>"

lemma clear_place_simps:
  assumes "chn_inv s" "i \<in> {1..40}"
  shows "taken (clear_place i s) l \<longleftrightarrow> l \<noteq> i \<and> taken s l" "l \<noteq> i \<Longrightarrow> holder (clear_place i s) l = holder s l"
  using assms by (auto simp: taken_def holder_def clear_place_def chn_inv_def nth_list_update)

lemma chn_inv_clear:
  assumes inv: "chn_inv s" and i: "i \<in> {1..40}" "taken s i"
  shows "chn_inv (clear_place i s)"
proof -
  let ?s = "clear_place i s" and ?T = "{i \<in> {1..40}. taken s i}"
  note tk = clear_place_simps [OF inv i(1)]
  have len: "length (chn_nameid_map s) = 41" "length (dev_cells s) = 41" using inv by (simp_all add: chn_inv_def)
  have other: "holder s l \<noteq> holder s i" if "l \<in> {1..40}" "taken s l" "l \<noteq> i" for l
    using that i inv inj_onD [of "holder s" ?T l i] by (auto simp: chn_inv_def)
  have place: "place_ok ?s l" if l: "l \<in> {1..40}" for l
  proof (cases "l = i")
    case True
    then show ?thesis using i len by (auto simp: place_ok_def tk) (auto simp: clear_place_def)
  next
    case False
    then have c: "dev_cells ?s ! (l - 1) = dev_cells s ! (l - 1)" "chn_nameid_map ?s ! l = chn_nameid_map s ! l"
      using i l by (auto simp: clear_place_def nth_list_update)
    have "place_ok s l" using inv l by (simp add: chn_inv_def)
    moreover have "dev_rows ?s (int (unat (holder s l))) = dev_rows s (int (unat (holder s l)))" if "taken s l"
      using other [OF l that False] by (auto simp: clear_place_def intro: unsigned_word_eqI)
    ultimately show ?thesis using False by (auto simp: place_ok_def tk c [unfolded One_nat_def] holder_def)
  qed
  have inj: "inj_on (holder ?s) {l \<in> {1..40}. taken ?s l}"
    using inv by (auto simp: inj_on_def tk chn_inv_def)
  have gw: "holder ?s l \<noteq> holder ?s 0" if "l \<in> {1..40}" "taken ?s l" for l
    using that i inv by (auto simp: tk chn_inv_def)
  have dom: "dom (dev_rows ?s) \<subseteq> (\<lambda>l. int (unat (holder ?s l))) ` {l \<in> {1..40}. taken ?s l}"
  proof
    fix k assume "k \<in> dom (dev_rows ?s)"
    then have k: "k \<noteq> int (unat (holder s i))" "dev_rows s k \<noteq> None" by (auto simp: clear_place_def split: if_splits)
    then obtain l where "l \<in> {1..40}" "taken s l" "k = int (unat (holder s l))" using row_has_place [OF inv] by blast
    moreover have "l \<noteq> i" using calculation k(1) by auto
    ultimately show "k \<in> (\<lambda>l. int (unat (holder ?s l))) ` {l \<in> {1..40}. taken ?s l}"
      by (auto simp: tk intro!: image_eqI [where x = l])
  qed
  have "\<exists>g \<le> 1. unat (assigned_chn_cnt ?s) = g + card {l \<in> {1..40}. taken ?s l}"
  proof -
    obtain g where g: "g \<le> 1" "unat (assigned_chn_cnt s) = g + card ?T" using inv by (auto simp: chn_inv_def)
    have "?T = insert i {l \<in> {1..40}. taken ?s l}" using i by (auto simp: tk)
    then have c: "card ?T = Suc (card {l \<in> {1..40}. taken ?s l})" by (simp add: tk)
    then have "1 \<le> assigned_chn_cnt s" using g by (simp add: word_le_nat_alt)
    then have "unat (assigned_chn_cnt s - 1) = unat (assigned_chn_cnt s) - 1" by (simp add: unat_sub)
    then show ?thesis using g c by (intro exI [of _ g]) (simp add: clear_place_def)
  qed
  moreover have "modbus_feature_enable ?s" "g_modbus_reg_addr_mode ?s = MODBUS_REG_ADDR_EXTENSIBLE_MODE"
    "length (chn_nameid_map ?s) = 41" "length (dev_cells ?s) = 41" "cm_ch (chn_nameid_map ?s ! 0) = 0"
    using inv i by (simp_all add: clear_place_def chn_inv_def)
  ultimately show ?thesis unfolding chn_inv_def using place inj gw dom by blast
qed

lemma chn_inv_place_0:
  assumes inv: "chn_inv s" and e: "cm_ch e = 0" "\<forall>i \<in> {1..40}. taken s i \<longrightarrow> holder s i \<noteq> cm_nameid e"
  shows "chn_inv (s\<lparr>chn_nameid_map := (chn_nameid_map s)[0 := e]\<rparr>)"
proof -
  let ?s = "s\<lparr>chn_nameid_map := (chn_nameid_map s)[0 := e]\<rparr>"
  have len: "length (chn_nameid_map s) = 41" using inv by (simp add: chn_inv_def)
  have tk: "taken ?s l \<longleftrightarrow> taken s l" "holder ?s l = holder s l" if "l \<in> {1..40}" for l
    using that by (auto simp: taken_def holder_def nth_list_update)
  have h0: "holder ?s 0 = cm_nameid e" using len by (auto simp: holder_def nth_list_update)
  have T: "{l \<in> {1..40}. taken ?s l} = {l \<in> {1..40}. taken s l}" using tk by auto
  have "place_ok ?s l" if "l \<in> {1..40}" for l
  proof -
    have "place_ok s l" using inv that by (simp add: chn_inv_def)
    moreover have "place_ok ?s l \<longleftrightarrow> place_ok s l" using that tk(1) [OF that] by (simp add: place_ok_def nth_list_update)
    ultimately show ?thesis by simp
  qed
  moreover have "inj_on (holder ?s) {l \<in> {1..40}. taken s l}" using inv tk by (auto simp: inj_on_def chn_inv_def)
  moreover have "dom (dev_rows s) \<subseteq> (\<lambda>l. int (unat (holder ?s l))) ` {l \<in> {1..40}. taken s l}"
  proof -
    have "(\<lambda>l. int (unat (holder ?s l))) ` {l \<in> {1..40}. taken s l} = (\<lambda>l. int (unat (holder s l))) ` {l \<in> {1..40}. taken s l}"
      by (rule image_cong [OF refl]) (use tk(2) in simp)
    then show ?thesis using inv by (simp only: chn_inv_def)
  qed
  moreover have "holder ?s l \<noteq> holder ?s 0" if "l \<in> {1..40}" "taken ?s l" for l
    using that e(2) tk [OF that(1)] h0 by simp
  moreover have "modbus_feature_enable s" "g_modbus_reg_addr_mode s = MODBUS_REG_ADDR_EXTENSIBLE_MODE" "length (dev_cells s) = 41"
    "\<exists>g \<le> 1. unat (assigned_chn_cnt s) = g + card {l \<in> {1..40}. taken s l}"
    using inv by (simp_all add: chn_inv_def)
  moreover have "cm_ch (chn_nameid_map ?s ! 0) = 0" using e(1) len by simp
  ultimately show ?thesis
    unfolding chn_inv_def T using len by simp
qed

lemma sint_holder:
  assumes "chn_inv s" "dev_rows s (sint k) \<noteq> None"
  shows "\<exists>i \<in> {1..40}. taken s i \<and> k = holder s i"
proof -
  obtain i where i: "i \<in> {1..40}" "taken s i" "sint k = int (unat (holder s i))" using row_has_place [OF assms] by blast
  then have "sint k = sint (holder s i)" using sint_small [OF taken_entry(3) [OF assms(1) i(1,2)]] by simp
  then have "k = holder s i" by (rule signed_word_eqI)
  then show ?thesis using i by blast
qed

text \<open>What a deletion does, whatever the entry is that it finds.\<close>

lemma dev_delete_shape:
  assumes "modbus_feature_enable s" and tbl: "tbl = snd (sqlite_delete_dev db k (dev_rows s))"
  shows "clear_chn k s = None \<Longrightarrow> dev_delete_item ts db k s = Some (db, s\<lparr>dev_rows := tbl\<rparr>)"
    "clear_chn k s = Some (0, s\<lparr>chn_nameid_map := m\<rparr>) \<Longrightarrow> dev_delete_item ts db k s = Some (db, s\<lparr>chn_nameid_map := m, dev_rows := tbl\<rparr>)"
    "clear_chn k s = Some (of_nat i, s\<lparr>chn_nameid_map := m\<rparr>) \<Longrightarrow> i \<in> {1..40} \<Longrightarrow> length (dev_cells s) = 41
      \<Longrightarrow> dev_delete_item ts db k s = Some (db, s\<lparr>chn_nameid_map := m, assigned_chn_cnt := assigned_chn_cnt s - 1,
        dev_cells := (dev_cells s)[i - 1 := zero_cell], dev_rows := tbl\<rparr>)"
proof -
  have sql: "sqlite_delete_dev db k (dev_rows s) = (db, tbl)" unfolding tbl by (simp add: sqlite_delete_dev_def)
  show "dev_delete_item ts db k s = Some (db, s\<lparr>dev_rows := tbl\<rparr>)" if "clear_chn k s = None"
    using that assms(1) sql by (simp add: dev_delete_item_def)
  show "dev_delete_item ts db k s = Some (db, s\<lparr>chn_nameid_map := m, dev_rows := tbl\<rparr>)" if "clear_chn k s = Some (0, s\<lparr>chn_nameid_map := m\<rparr>)"
    using that assms(1) sql by (simp add: dev_delete_item_def)
  assume c: "clear_chn k s = Some (of_nat i, s\<lparr>chn_nameid_map := m\<rparr>)" and i: "i \<in> {1..40}" and len: "length (dev_cells s) = 41"
  have u: "unat (of_nat i :: u8) = i" "(of_nat i :: u8) \<noteq> 0" using i by (auto simp: unat_of_nat dest: arg_cong [of _ _ unat])
  let ?s1 = "s\<lparr>chn_nameid_map := m, assigned_chn_cnt := assigned_chn_cnt s - 1\<rparr>"
  let ?cells = "(dev_cells s)[i - 1 := zero_cell]"
  have put: "put_cell i zero_cell (dev_cells ?s1) = Some ?cells" using i len by (simp add: put_cell_def)
  then have put2: "put_cell i zero_cell (dev_cells (?s1\<lparr>dev_rows := tbl\<rparr>)) = Some ?cells" by simp
  have "dev_delete_item ts db k s = (case write_try 1 ts i zero_cell ?s1 of None \<Rightarrow> None
      | Some (w_flag, s2) \<Rightarrow> (let (status, s) = (let (status, tbl) = sqlite_delete_dev db k (dev_rows s2) in (status, s2\<lparr>dev_rows := tbl\<rparr>)) in
          map_option (Pair status) (write_after w_flag (tl ts) i zero_cell s)))"
    using assms(1) c u i by (auto simp: dev_delete_item_def Let_def BULLET_GW_SENSOR_NUM_MAX_def split: option.splits)
  then show "dev_delete_item ts db k s = Some (db, s\<lparr>chn_nameid_map := m, assigned_chn_cnt := assigned_chn_cnt s - 1,
        dev_cells := ?cells, dev_rows := tbl\<rparr>)"
    using write_try_result [OF put, of 1 ts] write_after_result [OF put2, of "tl ts"]
    by (auto simp: sql write_after_def)
qed

lemma row_iff_holder:
  assumes "chn_inv s" "k \<noteq> 0"
  shows "dev_rows s (sint k) \<noteq> None \<longleftrightarrow> (\<exists>i \<in> {1..40}. taken s i \<and> holder s i = k)"
  using sint_holder [OF assms(1)] taken_entry(3,4) [OF assms(1)] sint_small by (metis option.distinct(1))

lemma clear_chn_effect:
  assumes inv: "chn_inv s" and k: "k \<noteq> 0"
  shows "i \<in> {1..40} \<Longrightarrow> taken s i \<Longrightarrow> holder s i = k \<Longrightarrow> clear_chn k s = Some (of_nat i, s\<lparr>chn_nameid_map := (chn_nameid_map s)[i := zero_chn]\<rparr>)"
    "\<forall>i \<in> {1..40}. taken s i \<longrightarrow> holder s i \<noteq> k \<Longrightarrow>
      clear_chn k s = (if k = holder s 0 then Some (0, s\<lparr>chn_nameid_map := (chn_nameid_map s)[0 := zero_chn]\<rparr>) else None)"
proof -
  let ?m = "chn_nameid_map s"
  have mode: "g_modbus_reg_addr_mode s = MODBUS_REG_ADDR_EXTENSIBLE_MODE" "cm_ch (chn_nameid_map s ! 0) = 0"
    using inv by (simp_all add: chn_inv_def)
  show "clear_chn k s = Some (of_nat i, s\<lparr>chn_nameid_map := ?m[i := zero_chn]\<rparr>)" if i: "i \<in> {1..40}" "taken s i" "holder s i = k"
  proof -
    note e = taken_entry [OF inv i(1,2)]
    have "cm_nameid (?m ! l) \<noteq> k" if "l < i" for l
    proof
      assume l: "cm_nameid (?m ! l) = k"
      show False
      proof (cases "l = 0")
        case True
        then show ?thesis using inv i l by (auto simp: chn_inv_def holder_def)
      next
        case False
        have t: "taken s l" using l k by (auto simp: taken_def zero_chn_def)
        have "holder s l = holder s i" using l i(3) by (simp add: holder_def)
        then have "l = i" using inv i t that False inj_onD [of "holder s" "{i \<in> {1..40}. taken s i}" l i]
          by (auto simp: chn_inv_def)
        then show ?thesis using that by simp
      qed
    qed
    then have "List.find (\<lambda>i. cm_nameid (?m ! i) = k) [0..<BULLET_GW_SENSOR_NUM_MAX + 1] = Some i"
      using i by (auto simp: find_upt holder_def BULLET_GW_SENSOR_NUM_MAX_def simp del: upt_Suc)
    then show ?thesis using mode e(1) by (simp add: clear_chn_def)
  qed
  assume none: "\<forall>i \<in> {1..40}. taken s i \<longrightarrow> holder s i \<noteq> k"
  have no: "cm_nameid (chn_nameid_map s ! l) \<noteq> k" if "1 \<le> l" "l < BULLET_GW_SENSOR_NUM_MAX + 1" for l
  proof
    assume h: "cm_nameid (chn_nameid_map s ! l) = k"
    then have t: "l \<in> {1..40}" "taken s l" using k that by (auto simp: taken_def zero_chn_def BULLET_GW_SENSOR_NUM_MAX_def)
    then show False using none h by (simp add: holder_def)
  qed
  show "clear_chn k s = (if k = holder s 0 then Some (0, s\<lparr>chn_nameid_map := (chn_nameid_map s)[0 := zero_chn]\<rparr>) else None)"
  proof (cases "k = holder s 0")
    case True
    then have "List.find (\<lambda>i. cm_nameid (chn_nameid_map s ! i) = k) [0..<BULLET_GW_SENSOR_NUM_MAX + 1] = Some 0"
      by (simp add: find_upt holder_def del: upt_Suc)
    then show ?thesis using mode True by (simp add: clear_chn_def)
  next
    case neq: False
    have "cm_nameid (chn_nameid_map s ! l) \<noteq> k" if "l < BULLET_GW_SENSOR_NUM_MAX + 1" for l
      using no [of l] neq that by (cases l) (auto simp: holder_def)
    then have "List.find (\<lambda>i. cm_nameid (chn_nameid_map s ! i) = k) [0..<BULLET_GW_SENSOR_NUM_MAX + 1] = None"
      by (simp add: find_upt_None del: upt_Suc)
    then show ?thesis using mode neq by (simp add: clear_chn_def)
  qed
qed

lemma dev_delete_effect:
  assumes inv: "chn_inv s" and k: "k \<noteq> 0"
  shows "if dev_rows s (sint k) \<noteq> None
    then \<exists>i \<in> {1..40}. taken s i \<and> holder s i = k \<and> dev_delete_item ts True k s = Some (True, clear_place i s)
    else dev_delete_item ts True k s = Some (True, if k = holder s 0 then s\<lparr>chn_nameid_map := (chn_nameid_map s)[0 := zero_chn]\<rparr> else s)"
proof -
  have m: "modbus_feature_enable s" "length (dev_cells s) = 41" using inv by (simp_all add: chn_inv_def)
  have tbl: "snd (sqlite_delete_dev True k (dev_rows s)) = (dev_rows s)(sint k := None)" using k by (simp add: sqlite_delete_dev_def)
  note shape = dev_delete_shape [OF m(1) tbl [symmetric]]
  show ?thesis
  proof (cases "dev_rows s (sint k) \<noteq> None")
    case True
    then obtain i where i: "i \<in> {1..40}" "taken s i" "holder s i = k" using row_iff_holder [OF inv k] by blast
    have "dev_delete_item ts True k s = Some (True, clear_place i s)"
      using shape(3) [OF clear_chn_effect(1) [OF inv k i] i(1) m(2)] i(3) sint_small [OF taken_entry(3) [OF inv i(1,2)]]
      by (simp add: clear_place_def)
    then show ?thesis using True i by auto
  next
    case False
    then have "\<forall>i \<in> {1..40}. taken s i \<longrightarrow> holder s i \<noteq> k" using row_iff_holder [OF inv k] by blast
    note c = clear_chn_effect(2) [OF inv k this]
    have "(dev_rows s)(sint k := None) = dev_rows s" using False by auto
    then show ?thesis using shape(1,2) c False by (simp split: if_splits)
  qed
qed

section \<open>A restart\<close>

text \<open>The cell of channel \<^term>\<open>i\<close> and the row of the device agree.\<close>

definition cell_of :: "(int \<Rightarrow> dev_row option) \<Rightarrow> nat \<Rightarrow> u32 \<Rightarrow> appShmDataItem_dev \<Rightarrow> bool" where
  "cell_of tbl i n cell \<longleftrightarrow> (\<exists>d r. cell = (2, d) \<and> di_nameid d = n \<and> di_description d = ext_layout i (di_sensor_type d)
     \<and> tbl (int (unat n)) = Some r \<and> r 7 = ext_layout i (di_sensor_type d) \<and> di_sensor_type d = take 68 (r 6) \<and> 0 \<notin> set (r 6))"

text \<open>The state in which the places \<^term>\<open>D\<close> of an earlier state have been loaded.\<close>

definition loaded :: "sql_state \<Rightarrow> u32 \<Rightarrow> nat set \<Rightarrow> appShmDataItem_dev list \<Rightarrow> sql_state \<Rightarrow> bool" where
  "loaded old n D cells s \<longleftrightarrow> modbus_feature_enable s \<and> g_modbus_reg_addr_mode s = MODBUS_REG_ADDR_EXTENSIBLE_MODE
     \<and> length (chn_nameid_map s) = 41 \<and> length (dev_cells s) = 41 \<and> dev_rows s = dev_rows old
     \<and> chn_nameid_map s ! 0 = \<lparr>cm_validflag = 1, cm_ch = 0, cm_nameid = n\<rparr>
     \<and> unat (assigned_chn_cnt s) = 1 + card D
     \<and> (\<forall>i \<in> {1..40}. chn_nameid_map s ! i = (if i \<in> D then chn_nameid_map old ! i else zero_chn)
          \<and> (if i \<in> D then cell_of (dev_rows old) i (holder old i) (dev_cells s ! (i - 1)) else dev_cells s ! (i - 1) = cells ! (i - 1)))"

lemma loaded_place:
  assumes "loaded old n D cells s" "i \<in> {1..40}"
  shows "chn_nameid_map s ! i = (if i \<in> D then chn_nameid_map old ! i else zero_chn)"
    "if i \<in> D then cell_of (dev_rows old) i (holder old i) (dev_cells s ! (i - 1)) else dev_cells s ! (i - 1) = cells ! (i - 1)"
  using assms unfolding loaded_def by blast+

lemma query_converted:
  assumes "dev_rows s (sint k) = Some r" "r 7 = ext_layout i t" "i \<le> 40" "0 \<notin> set (r 6)"
  shows "\<exists>d. table_query_data_convert_dev (sqlite_query_dev k (dev_rows s)) = Some (2, d) \<and> di_nameid d = k
    \<and> di_description d = ext_layout i t \<and> di_sensor_type d = take 68 (r 6)"
proof -
  let ?q = "devicelist_cb (sint k) r"
  have "convert_dev_fields ?q zero_device = Some (zero_device\<lparr>di_nameid := k, di_name := take 68 (c_string (take 68 (r 2))),
      di_sensor_name := take 68 (c_string (take 68 (r 3))), di_mac_addr := take 68 (c_string (take 68 (r 4))),
      di_manufacturer := take 68 (c_string (take 68 (r 5))), di_sensor_type := take 68 (c_string (take 68 (r 6))),
      di_description := take 68 (c_string (take 68 (r 7)))\<rparr>)"
    by (simp add: devicelist_cb_def convert_dev_field_def dev_text_def)
  moreover have "c_string (take 68 (r 6)) = take 68 (r 6)" using assms(4) by (intro c_string_id) (auto dest: in_set_takeD)
  moreover have "take 68 (c_string (take 68 (r 7))) = ext_layout i t"
    using ext_layout_text(1,4) [of i t] assms(3) by (simp add: assms(2))
  ultimately show ?thesis
    using assms(1) by (simp add: table_query_data_convert_dev_def sqlite_query_dev_def GW_PRO_TABLE_IDX_MNGED_DEVICE_LIST_TABLE_def)
qed

lemma load_dev_step:
  assumes inv: "chn_inv old" and i: "i \<in> {1..40}" "taken old i" "i \<notin> D" "D \<subseteq> {1..40}" and l: "loaded old n D cells s"
  shows "\<exists>s'. load_dev (holder old i) s = Some s' \<and> loaded old n (insert i D) cells s'"
proof -
  note e = taken_entry [OF inv i(1,2)]
  let ?k = "holder old i"
  from e(4) obtain r t where r: "dev_rows old (int (unat ?k)) = Some r" "r 7 = ext_layout i t" "t = take 68 (r 6)" "0 \<notin> set (r 6)"
    by blast
  have "dev_rows s (sint ?k) = Some r" using l r(1) sint_small [OF e(3)] by (simp add: loaded_def)
  from query_converted [OF this r(2) _ r(4)] i(1) obtain d where d:
    "table_query_data_convert_dev (sqlite_query_dev ?k (dev_rows s)) = Some (2, d)" "di_nameid d = ?k"
    "di_description d = ext_layout i t" "di_sensor_type d = t" using r(3) by auto
  have p: "parse_description (di_description d) = Some (of_nat i, of_nat (0x80 * i), 0x80)"
    using ext_layout_text(5) [of i t] i(1) d(3) by simp
  have c: "unat (of_nat i :: u8) = i" using i(1) by (simp add: unat_of_nat)
  have s: "g_modbus_reg_addr_mode s = MODBUS_REG_ADDR_EXTENSIBLE_MODE" "chn_nameid_map s ! i = zero_chn" "length (dev_cells s) = 41"
    "length (chn_nameid_map s) = 41" "unat (assigned_chn_cnt s) = 1 + card D"
    using l i by (auto simp: loaded_def)
  let ?cells = "(dev_cells s)[i - 1 := (2, d)]"
  let ?s = "s\<lparr>chn_nameid_map := (chn_nameid_map s)[i := \<lparr>cm_validflag = 1, cm_ch = of_nat i, cm_nameid = ?k\<rparr>],
      assigned_chn_cnt := assigned_chn_cnt s + 1, dev_cells := ?cells\<rparr>"
  have put: "put_cell i (2, d) (dev_cells s) = Some ?cells" using i(1) s(3) by (simp add: put_cell_def)
  have "load_dev ?k s = Some ?s"
    using d p c s(1,2) put i(1)
    by (simp add: load_dev_def known_len_def DEV_REG_ADDR_LENGTH_EXT_MODE_def BULLET_GW_SENSOR_NUM_MAX_def zero_chn_def)
  moreover have "loaded old n (insert i D) cells ?s"
  proof -
    have fin: "finite D" "card D \<le> 40" using i(4) finite_subset card_mono [OF _ i(4)] by auto
    then have "unat (assigned_chn_cnt ?s) = 1 + card (insert i D)" using s(5) i(3) by (simp add: unat_word_ariths)
    moreover have "chn_nameid_map ?s ! l = (if l \<in> insert i D then chn_nameid_map old ! l else zero_chn)"
      if "l \<in> {1..40}" for l
      using loaded_place(1) [OF l that] that i e(1) s(4) by (auto simp: nth_list_update)
    moreover have "if l \<in> insert i D then cell_of (dev_rows old) l (holder old l) (dev_cells ?s ! (l - 1))
        else dev_cells ?s ! (l - 1) = cells ! (l - 1)" if "l \<in> {1..40}" for l
    proof (cases "l = i")
      case True
      then show ?thesis using d r s(3) i(1) by (auto simp: cell_of_def)
    next
      case False
      then have "dev_cells ?s ! (l - 1) = dev_cells s ! (l - 1)" using that i(1) by (auto simp: nth_list_update)
      then show ?thesis using loaded_place(2) [OF l that] False by (auto split: if_splits)
    qed
    moreover have "modbus_feature_enable ?s" "g_modbus_reg_addr_mode ?s = MODBUS_REG_ADDR_EXTENSIBLE_MODE"
      "length (chn_nameid_map ?s) = 41" "length (dev_cells ?s) = 41" "dev_rows ?s = dev_rows old"
      "chn_nameid_map ?s ! 0 = \<lparr>cm_validflag = 1, cm_ch = 0, cm_nameid = n\<rparr>"
      using l i(1) by (simp_all add: loaded_def)
    ultimately show ?thesis unfolding loaded_def by blast
  qed
  ultimately show ?thesis by blast
qed

lemma load_devs_all:
  assumes inv: "chn_inv old" and "distinct keys" "set keys \<subseteq> holder old ` {i \<in> {1..40}. taken old i}"
    and "D \<subseteq> {i \<in> {1..40}. taken old i}" "\<forall>i \<in> D. holder old i \<notin> set keys" "loaded old n D cells s"
  shows "\<exists>s'. load_devs keys s = Some s' \<and> loaded old n (D \<union> {i \<in> {1..40}. taken old i \<and> holder old i \<in> set keys}) cells s'"
  using assms(2-)
proof (induction keys arbitrary: D s)
  case (Cons k ks)
  obtain i where i: "i \<in> {1..40}" "taken old i" "k = holder old i" using Cons.prems(2) by auto
  have "i \<notin> D" using Cons.prems(4) i(3) by auto
  then obtain s1 where s1: "load_dev k s = Some s1" "loaded old n (insert i D) cells s1"
    using load_dev_step [OF inv i(1,2) _ _ Cons.prems(5)] Cons.prems(3) i(3) by blast
  have "holder old l \<notin> set ks" if "l \<in> insert i D" for l using that Cons.prems(1,4) i(3) by auto
  then obtain s2 where s2: "load_devs ks s1 = Some s2"
    "loaded old n (insert i D \<union> {i \<in> {1..40}. taken old i \<and> holder old i \<in> set ks}) cells s2"
    using Cons.IH [OF _ _ _ _ s1(2)] Cons.prems i by auto
  have "insert i D \<union> {l \<in> {1..40}. taken old l \<and> holder old l \<in> set ks}
      = D \<union> {l \<in> {1..40}. taken old l \<and> holder old l \<in> set (k # ks)}"
    using i inv by (auto simp: chn_inv_def dest: inj_onD)
  then show ?case using s1(1) s2 taken_entry(2) [OF inv i(1,2)] i(3) by auto
qed simp

text \<open>
  A start finds the gateway in extensible mode, the name numbers of all devices in some order, and shared memory as the earlier run has left
  it or new.
\<close>

definition ext_gateway :: "u32 \<times> u32 \<times> u8 \<Rightarrow> bool" where
  "ext_gateway g \<longleftrightarrow> (let (n, baud, mode) = g in n \<noteq> 0 \<and> baud \<noteq> 0 \<and> mode \<in> {0, 2, 4, 6})"

definition lists_devices :: "u32 list \<Rightarrow> sql_state \<Rightarrow> bool" where
  "lists_devices keys s \<longleftrightarrow> distinct keys \<and> (\<lambda>k. int (unat k)) ` set keys = dom (dev_rows s)"

lemma listed_holders:
  assumes "chn_inv s" "lists_devices keys s"
  shows "set keys = holder s ` {i \<in> {1..40}. taken s i}" "length keys \<le> 40"
proof -
  have "(\<lambda>k. int (unat k)) ` set keys = (\<lambda>k. int (unat k)) ` (holder s ` {i \<in> {1..40}. taken s i})"
    using assms(2) rows_taken(1) [OF assms(1)] by (simp only: lists_devices_def image_image)
  moreover have "inj (\<lambda>k :: u32. int (unat k))" by (auto simp: inj_def intro: unsigned_word_eqI)
  ultimately show k: "set keys = holder s ` {i \<in> {1..40}. taken s i}" by (simp only: inj_image_eq_iff)
  have "card (set keys) \<le> card {i \<in> {1..40}. taken s i}" unfolding k by (rule card_image_le) simp
  also have "\<dots> \<le> card {1..40 :: nat}" by (rule card_mono) auto
  finally show "length keys \<le> 40" using assms(2) by (simp add: lists_devices_def distinct_card)
qed

lemma restart_effect:
  assumes inv: "chn_inv old" and g: "ext_gateway (n, baud, mode)" "dev_rows old (sint n) = None" and keys: "lists_devices keys old"
  shows "\<exists>s. sql_start (Some (n, baud, mode)) keys magic old = Some s \<and> chn_inv s \<and> dev_rows s = dev_rows old
    \<and> (\<forall>i \<in> {1..40}. chn_nameid_map s ! i = chn_nameid_map old ! i)"
proof -
  let ?cells = "if magic then dev_cells old else replicate 41 zero_cell" and ?T = "{i \<in> {1..40}. taken old i}"
  let ?s0 = "\<lparr>modbus_feature_enable = True, g_modbus_reg_addr_mode = MODBUS_REG_ADDR_EXTENSIBLE_MODE,
      chn_nameid_map = (replicate 41 zero_chn)[0 := \<lparr>cm_validflag = 1, cm_ch = 0, cm_nameid = n\<rparr>],
      efficient_chn_nameid_map = replicate 41 zero_eff, assigned_chn_cnt = 1, dev_cells = ?cells, dev_rows = dev_rows old\<rparr>"
  note lh = listed_holders [OF inv keys]
  have start: "sql_start (Some (n, baud, mode)) keys magic old = load_devs keys ?s0"
    using g(1) lh(2) by (simp add: sql_start_def ext_gateway_def BULLET_GW_SENSOR_NUM_MAX_def)
  have "loaded old n {} ?cells ?s0"
    using inv by (auto simp: loaded_def chn_inv_def nth_list_update)
  moreover have "distinct keys" "set keys \<subseteq> holder old ` ?T" using keys lh(1) by (auto simp: lists_devices_def)
  ultimately obtain s where s: "load_devs keys ?s0 = Some s"
    "loaded old n ({} \<union> {i \<in> {1..40}. taken old i \<and> holder old i \<in> set keys}) ?cells s"
    using load_devs_all [OF inv, of keys "{}" n ?cells ?s0] by auto
  have "{} \<union> {i \<in> {1..40}. taken old i \<and> holder old i \<in> set keys} = ?T" using lh(1) by auto
  then have ld: "loaded old n ?T ?cells s" using s(2) by (simp only:)
  have map: "chn_nameid_map s ! i = chn_nameid_map old ! i" if "i \<in> {1..40}" for i
    using loaded_place(1) [OF ld that] that by (auto simp: taken_def split: if_splits)
  have tk: "taken s i \<longleftrightarrow> taken old i" "holder s i = holder old i" if "i \<in> {1..40}" for i
    using map [OF that] by (simp_all add: taken_def holder_def)
  have T: "{i \<in> {1..40}. taken s i} = ?T" using tk by auto
  have b: "modbus_feature_enable s" "g_modbus_reg_addr_mode s = MODBUS_REG_ADDR_EXTENSIBLE_MODE" "length (chn_nameid_map s) = 41"
    "length (dev_cells s) = 41" "dev_rows s = dev_rows old" "chn_nameid_map s ! 0 = \<lparr>cm_validflag = 1, cm_ch = 0, cm_nameid = n\<rparr>"
    "unat (assigned_chn_cnt s) = 1 + card ?T"
    using ld by (simp_all add: loaded_def)
  have "place_ok s i" if i: "i \<in> {1..40}" for i
  proof (cases "taken old i")
    case True
    then have "cell_of (dev_rows old) i (holder old i) (dev_cells s ! (i - 1))" using loaded_place(2) [OF ld i] i by simp
    then show ?thesis
      using True tk [OF i] taken_entry(1-3) [OF inv i True] map [OF i] b(5) unfolding cell_of_def place_ok_def by auto
  next
    case False
    then have "dev_cells s ! (i - 1) = ?cells ! (i - 1)" using loaded_place(2) [OF ld i] i by simp
    moreover have "dev_cells old ! (i - 1) = zero_cell" by (rule empty_place [OF inv i False])
    moreover have "replicate 41 zero_cell ! (i - 1) = zero_cell" using i by (intro nth_replicate) auto
    ultimately show ?thesis using False tk(1) [OF i] by (simp add: place_ok_def split: if_splits)
  qed
  moreover have "inj_on (holder s) ?T" using inv tk(2) by (auto simp: chn_inv_def inj_on_def)
  moreover have "holder s i \<noteq> holder s 0" if i: "i \<in> {1..40}" "taken s i" for i
  proof
    assume "holder s i = holder s 0"
    then have "holder old i = n" using tk(2) [OF i(1)] b(6) by (simp add: holder_def)
    then show False
      using taken_entry(3,4) [OF inv i(1)] i tk(1) [OF i(1)] g(2) sint_small [of n] by auto
  qed
  moreover have "dom (dev_rows s) \<subseteq> (\<lambda>i. int (unat (holder s i))) ` ?T"
  proof -
    have "(\<lambda>i. int (unat (holder s i))) ` ?T = (\<lambda>i. int (unat (holder old i))) ` ?T"
      by (rule image_cong [OF refl]) (use tk(2) in simp)
    then show ?thesis using rows_taken(1) [OF inv] b(5) by simp
  qed
  moreover have "\<exists>g \<le> 1. unat (assigned_chn_cnt s) = g + card ?T" using b(7) by (intro exI [of _ 1]) simp
  moreover have "cm_ch (chn_nameid_map s ! 0) = 0" using b(6) by simp
  ultimately have "chn_inv s" unfolding chn_inv_def T using b(1-4) by blast
  then show ?thesis using start s(1) b(5) map by auto
qed

section \<open>Reachable states\<close>

text \<open>
  From a start with an empty database: complete messages, as long as there are at most 40 devices, deletions, gateway
  configurations and restarts.  The gateway has a name number that no device has.
\<close>

inductive sql_reachable :: "sql_state \<Rightarrow> bool" where
  sql_first: "dev_rows s = Map.empty \<Longrightarrow> (case gw of None \<Rightarrow> True | Some g \<Rightarrow> ext_gateway g) \<Longrightarrow> sql_start gw [] False s = Some s' \<Longrightarrow>
    sql_reachable s'"
| sql_message: "sql_reachable s \<Longrightarrow> message_ok n xs \<Longrightarrow> n \<noteq> holder s 0 \<Longrightarrow>
    dev_rows s (int (unat n)) \<noteq> None \<or> card (dom (dev_rows s)) < 40 \<Longrightarrow>
    dev_update_item ts True True n xs s = Some (status, s') \<Longrightarrow> sql_reachable s'"
| sql_delete: "sql_reachable s \<Longrightarrow> k \<noteq> 0 \<Longrightarrow> dev_delete_item ts True k s = Some (status, s') \<Longrightarrow> sql_reachable s'"
| sql_gateway: "sql_reachable s \<Longrightarrow> dev_rows s (sint n) = None \<Longrightarrow> sql_reachable (gw_channel n s)"
| sql_restart: "sql_reachable s \<Longrightarrow> ext_gateway (n, baud, mode) \<Longrightarrow> dev_rows s (sint n) = None \<Longrightarrow> lists_devices keys s \<Longrightarrow>
    sql_start (Some (n, baud, mode)) keys magic s = Some s' \<Longrightarrow> sql_reachable s'"

text \<open>What a message does in a reachable state.\<close>

lemma message_effect:
  assumes inv: "chn_inv s" and m: "message_ok n xs" "n \<noteq> holder s 0" "dev_rows s (int (unat n)) \<noteq> None \<or> card (dom (dev_rows s)) < 40"
  shows "\<exists>i cnt d r. i \<in> {1..40} \<and> dev_update_item ts True True n xs s = Some (True, put_place i n cnt d r s) \<and> chn_inv (put_place i n cnt d r s)
    \<and> (if taken s i then holder s i = n else (\<forall>l \<in> {1..<i}. taken s l))"
proof -
  have n: "n \<noteq> 0" "unat n < 2 ^ 31" using m(1) by (simp_all add: message_ok_def)
  note sn = sint_small [OF n(2)]
  have b: "modbus_feature_enable s" "g_modbus_reg_addr_mode s = MODBUS_REG_ADDR_EXTENSIBLE_MODE" "length (dev_cells s) = 41"
    "length (chn_nameid_map s) = 41"
    using inv by (simp_all add: chn_inv_def)
  let ?upd = "dev_rows s (sint n) \<noteq> None"
  have u: "dev_update_item ts True True n xs s = dev_update_or_insert ts True ?upd n xs s" using n(1) by (simp add: dev_update_item_def)
  show ?thesis
  proof (cases ?upd)
    case True
    then obtain i where i: "i \<in> {1..40}" "taken s i" "n = holder s i" using sint_holder [OF inv] by blast
    have c: "channel_for n s = (i, s)" unfolding i(3) by (rule find_chn_row [OF inv i(1,2)])
    obtain d r where dr: "dev_update_or_insert ts True ?upd n xs s = Some (True, s\<lparr>dev_cells := (dev_cells s)[i - 1 := (2, d)],
        dev_rows := (dev_rows s)(int (unat n) \<mapsto> r)\<rparr>)" "di_nameid d = n" "di_description d = ext_layout i (di_sensor_type d)"
      "r 7 = ext_layout i (di_sensor_type d)" "di_sensor_type d = take 68 (r 6)" "0 \<notin> set (r 6)"
      using dev_write_effect [OF b(1-3) m(1) c _ _ refl refl refl, of ts True] i(1) by auto
    have "put_place i n (assigned_chn_cnt s) d r s = s\<lparr>dev_cells := (dev_cells s)[i - 1 := (2, d)],
        dev_rows := (dev_rows s)(int (unat n) \<mapsto> r)\<rparr>"
      using taken_entry(1) [OF inv i(1,2)] i(3) list_update_id [of "chn_nameid_map s" i] by (simp add: put_place_def)
    moreover have "chn_inv (put_place i n (assigned_chn_cnt s) d r s)"
      by (rule chn_inv_put [OF inv i(1) n m(2)]) (use i dr in auto)
    ultimately show ?thesis using u dr(1) i by (intro exI [of _ i] exI [of _ "assigned_chn_cnt s"] exI [of _ d] exI [of _ r]) simp
  next
    case False
    then have none: "dev_rows s (int (unat n)) = None" using sn by simp
    then have room: "card (dom (dev_rows s)) < 40" using m(3) by simp
    let ?s1 = "\<lambda>i. s\<lparr>chn_nameid_map := (chn_nameid_map s)[i := \<lparr>cm_validflag = 1, cm_ch = of_nat i, cm_nameid = n\<rparr>],
           assigned_chn_cnt := assigned_chn_cnt s + 1\<rparr>"
    obtain i where i: "i \<in> {1..40}" "\<not> taken s i" "\<forall>l \<in> {1..<i}. taken s l" "channel_for n s = (i, ?s1 i)"
      using find_chn_new [OF inv n none room] by auto
    obtain d r where dr: "dev_update_or_insert ts True ?upd n xs s = Some (True, (?s1 i)\<lparr>dev_cells := (dev_cells s)[i - 1 := (2, d)],
        dev_rows := (dev_rows s)(int (unat n) \<mapsto> r)\<rparr>)" "di_nameid d = n" "di_description d = ext_layout i (di_sensor_type d)"
      "r 7 = ext_layout i (di_sensor_type d)" "di_sensor_type d = take 68 (r 6)" "0 \<notin> set (r 6)"
      using dev_write_effect [OF b(1-3) m(1) i(4) _ _ _ _ refl, of ts True] i(1) by auto
    have "unat (assigned_chn_cnt s) \<le> 40"
      using inv room rows_taken(2) [OF inv] by (auto simp: chn_inv_def)
    then have "chn_inv (put_place i n (assigned_chn_cnt s + 1) d r s)"
      by (intro chn_inv_put [OF inv i(1) n m(2)]) (use i dr none in auto)
    then show ?thesis
      using u dr(1) i by (intro exI [of _ i] exI [of _ "assigned_chn_cnt s + 1"] exI [of _ d] exI [of _ r]) (simp add: put_place_def)
  qed
qed

lemma start_empty:
  assumes "dev_rows s = Map.empty" "case gw of None \<Rightarrow> True | Some g \<Rightarrow> ext_gateway g" "sql_start gw [] False s = Some s'"
  shows "chn_inv s' \<and> dev_rows s' = Map.empty"
proof -
  have z0: "(replicate 41 zero_chn)[0 := zero_chn] = replicate 41 zero_chn" "cm_ch zero_chn = 0"
    using list_update_id [of "replicate 41 zero_chn" 0] by (simp_all add: zero_chn_def)
  obtain e where e: "chn_nameid_map s' = (replicate 41 zero_chn)[0 := e]" "cm_ch e = 0"
  proof (cases gw)
    case None
    then show ?thesis using assms(3) z0 that [of zero_chn] by (auto simp: sql_start_def)
  next
    case (Some g)
    obtain n baud mode where g: "g = (n, baud, mode)" by (cases g)
    then show ?thesis
      using assms(2,3) Some that [of "\<lparr>cm_validflag = 1, cm_ch = 0, cm_nameid = n\<rparr>"] by (auto simp: sql_start_def ext_gateway_def)
  qed
  have s': "dev_cells s' = replicate 41 zero_cell" "dev_rows s' = Map.empty" "unat (assigned_chn_cnt s') \<le> 1" "modbus_feature_enable s'"
    "g_modbus_reg_addr_mode s' = MODBUS_REG_ADDR_EXTENSIBLE_MODE"
    using assms by (auto simp: sql_start_def ext_gateway_def split: option.splits prod.splits if_splits)
  have len: "length (chn_nameid_map s') = 41" and c0: "cm_ch (chn_nameid_map s' ! 0) = 0" by (simp_all add: e)
  have z: "chn_nameid_map s' ! i = zero_chn" if "i \<in> {1..40}" for i using that by (simp add: e(1))
  then have nt: "\<not> taken s' i" if "i \<in> {1..40}" for i using that by (simp add: taken_def)
  then have T: "{i \<in> {1..40}. taken s' i} = {}" by auto
  have "place_ok s' i" if "i \<in> {1..40}" for i
    using nt [OF that] that s'(1) by (auto simp: place_ok_def)
  moreover have "inj_on (holder s') {}" by simp
  moreover have "\<exists>g \<le> 1. unat (assigned_chn_cnt s') = g + card ({} :: nat set)" using s'(3) by simp
  moreover have "length (dev_cells s') = 41" by (simp add: s'(1))
  ultimately show ?thesis
    unfolding chn_inv_def T using s'(2,4,5) len c0 nt by simp
qed

lemma reachable_chn_inv: "sql_reachable s \<Longrightarrow> chn_inv s"
proof (induction rule: sql_reachable.induct)
  case (sql_first s gw s')
  then show ?case using start_empty by blast
next
  case (sql_message s n xs ts status s')
  then show ?case using message_effect [OF sql_message.IH, of n xs ts] by auto
next
  case (sql_delete s k ts status s')
  have "chn_inv (s\<lparr>chn_nameid_map := (chn_nameid_map s)[0 := zero_chn]\<rparr>)"
    using chn_inv_place_0 [OF sql_delete.IH, of zero_chn] taken_entry(2) [OF sql_delete.IH] by (auto simp: zero_chn_def)
  then show ?case
    using dev_delete_effect [OF sql_delete.IH sql_delete.hyps(2), of ts] sql_delete chn_inv_clear [OF sql_delete.IH]
    by (auto split: if_splits)
next
  case (sql_gateway s n)
  have "holder s i \<noteq> n" if "i \<in> {1..40}" "taken s i" for i
    using taken_entry(3,4) [OF sql_gateway.IH that] sint_small [of n] sql_gateway.hyps(2) by auto
  then show ?case
    using chn_inv_place_0 [OF sql_gateway.IH, of "(chn_nameid_map s ! 0)\<lparr>cm_nameid := n, cm_ch := 0\<rparr>"] sql_gateway.IH
    by (simp add: gw_channel_def chn_inv_def)
next
  case (sql_restart s n baud mode keys magic s')
  then show ?case using restart_effect [OF sql_restart.IH, of n baud mode keys magic] by auto
qed

section \<open>A run that fills the table\<close>

definition blank_state :: sql_state where
  "blank_state = \<lparr>modbus_feature_enable = True, g_modbus_reg_addr_mode = MODBUS_REG_ADDR_EXTENSIBLE_MODE, chn_nameid_map = [],
     efficient_chn_nameid_map = [], assigned_chn_cnt = 0, dev_cells = [], dev_rows = Map.empty\<rparr>"

definition sample_msg :: "u32 \<Rightarrow> gw_pro_data_t list" where
  "sample_msg n = [(1, Data_uint32 n), (2, Data_char []), (3, Data_char []), (4, Data_char []), (5, Data_char []),
     (6, Data_char TYPE_STR_INSIGHT_T), (7, Data_char [])]"

fun fill :: "nat \<Rightarrow> sql_state" where
  "fill 0 = the (sql_start None [] False blank_state)"
| "fill (Suc k) = snd (the (dev_update_item [] True True (of_nat (Suc k)) (sample_msg (of_nat (Suc k))) (fill k)))"

lemma type_T_chars: "0x27 \<notin> set TYPE_STR_INSIGHT_T" "c_string TYPE_STR_INSIGHT_T = TYPE_STR_INSIGHT_T"
  "length TYPE_STR_INSIGHT_T = 9"
  by (simp_all add: TYPE_STR_INSIGHT_T_def ascii_def c_string_def)

lemma sample_msg_ok: "n \<noteq> 0 \<Longrightarrow> unat n < 2 ^ 31 \<Longrightarrow> message_ok n (sample_msg n)"
  using type_T_chars(1) by (simp add: message_ok_def sample_msg_def insert_commute)

lemma fill_steps:
  "k \<le> 40 \<Longrightarrow> sql_reachable (fill k) \<and> dom (dev_rows (fill k)) = int ` {1..k} \<and> holder (fill k) 0 = 0
    \<and> (\<forall>j \<in> {1..k}. \<exists>r. dev_rows (fill k) (int j) = Some r)"
proof (induction k)
  case 0
  obtain s where s: "sql_start None [] False blank_state = Some s" by (simp add: sql_start_def)
  then have "holder s 0 = 0" by (auto simp: sql_start_def holder_def zero_chn_def)
  moreover have "sql_reachable s" by (rule sql_first [of blank_state None]) (use s in \<open>simp_all add: blank_state_def\<close>)
  moreover have "dev_rows s = Map.empty" using s by (auto simp: sql_start_def blank_state_def)
  ultimately show ?case using s by simp
next
  case (Suc k)
  then have IH: "sql_reachable (fill k)" "dom (dev_rows (fill k)) = int ` {1..k}" "holder (fill k) 0 = 0" by auto
  let ?n = "of_nat (Suc k) :: u32"
  have u: "unat ?n = Suc k" using Suc.prems by (simp add: unat_of_nat del: of_nat_Suc)
  then have n: "?n \<noteq> 0" "unat ?n < 2 ^ 31" using Suc.prems by (auto simp del: of_nat_Suc)
  have "int (unat ?n) \<notin> dom (dev_rows (fill k))" unfolding IH(2) u by auto
  then have none: "dev_rows (fill k) (int (unat ?n)) = None" by blast
  have "card (dom (dev_rows (fill k))) < 40" using IH(2) Suc.prems by (simp add: card_image)
  then obtain i cnt d r where e: "dev_update_item [] True True ?n (sample_msg ?n) (fill k) = Some (True, put_place i ?n cnt d r (fill k))" "i \<in> {1..40}"
    using message_effect [OF reachable_chn_inv [OF IH(1)] sample_msg_ok [OF n], of "[]"] IH(3) n(1) by auto
  have f: "fill (Suc k) = put_place i ?n cnt d r (fill k)" using e(1) by simp
  have "sql_reachable (fill (Suc k))"
    unfolding f by (rule sql_message [OF IH(1) sample_msg_ok [OF n] _ _ e(1)]) (use IH(2,3) n(1) Suc.prems in \<open>simp_all add: card_image\<close>)
  moreover have rows: "dev_rows (fill (Suc k)) = (dev_rows (fill k))(int (Suc k) \<mapsto> r)" unfolding f put_place_def u by simp
  moreover have "holder (fill (Suc k)) 0 = 0" unfolding f using e(2) IH(3) by (simp add: put_place_def holder_def)
  moreover have "dom (dev_rows (fill (Suc k))) = int ` {1..Suc k}" unfolding rows by (simp add: IH(2) atLeastAtMostSuc_conv)
  moreover have "\<forall>j \<in> {1..Suc k}. \<exists>r. dev_rows (fill (Suc k)) (int j) = Some r"
    using calculation(4) by (auto simp del: fill.simps)
  ultimately show ?case by blast
qed

end
