(* ===== verification/Sql_Process.thy ===== *)
theory Sql_Process
  imports Sql_Channels
begin

text \<open>
  The database process when commands on the database fail.  It writes the entry of a channel and the place of the shared memory before it
  knows the answer of the database and does not take them back, so that after a failed command the rows and the channels differ.  What
  every run keeps is the agreement of the entries with the shared memory; the rows agree as well as long as every command succeeds.
\<close>

section \<open>Runs\<close>

text \<open>Place \<^term>\<open>i\<close> is the channel of number \<^term>\<open>n\<close>.\<close>

definition holds :: "sql_state \<Rightarrow> u32 \<Rightarrow> bool" where
  "holds s n \<longleftrightarrow> (\<exists>i \<in> {1..40}. taken s i \<and> holder s i = n)"

definition channels_taken :: "sql_state \<Rightarrow> nat" where
  "channels_taken s = card {i \<in> {1..40}. taken s i}"

text \<open>
  A run from a start with an empty database: complete messages as long as a channel is free or the device has one, deletions, gateway
  configurations and restarts.  Every query and every command on the database may fail, and a start may miss rows.  The flag
  tells whether all of them have succeeded up to now.
\<close>

inductive sql_process :: "bool \<Rightarrow> sql_state \<Rightarrow> bool" where
  process_first: "dev_rows s = Map.empty \<Longrightarrow> (case gw of None \<Rightarrow> True | Some g \<Rightarrow> ext_gateway g) \<Longrightarrow> sql_start gw [] False s = Some s' \<Longrightarrow>
    sql_process True s'"
| process_message: "sql_process ok s \<Longrightarrow> message_ok n xs \<Longrightarrow> n \<noteq> holder s 0 \<Longrightarrow> holds s n \<or> channels_taken s < 40 \<Longrightarrow>
    dev_update_item ts qr db n xs s = Some (status, s') \<Longrightarrow> sql_process (ok \<and> status) s'"
| process_delete: "sql_process ok s \<Longrightarrow> k \<noteq> 0 \<Longrightarrow> dev_delete_item ts db k s = Some (status, s') \<Longrightarrow> sql_process (ok \<and> status) s'"
| process_gateway: "sql_process ok s \<Longrightarrow> dev_rows s (sint n) = None \<Longrightarrow> \<not> holds s n \<Longrightarrow> sql_process ok (gw_channel n s)"
| process_restart: "sql_process ok s \<Longrightarrow> ext_gateway (n, baud, mode) \<Longrightarrow> dev_rows s (sint n) = None \<Longrightarrow> distinct keys \<Longrightarrow>
    (\<lambda>k. int (unat k)) ` set keys \<subseteq> dom (dev_rows s) \<Longrightarrow> sql_start (Some (n, baud, mode)) keys magic s = Some s' \<Longrightarrow>
    sql_process (ok \<and> (\<lambda>k. int (unat k)) ` set keys = dom (dev_rows s)) s'"

section \<open>What every run keeps\<close>

text \<open>
  A state with other rows and another content of the free places, in which everything agrees.
\<close>

definition with_rows :: "(int \<Rightarrow> dev_row option) \<Rightarrow> appShmDataItem_dev list \<Rightarrow> sql_state \<Rightarrow> sql_state" where
  "with_rows R cells s = s\<lparr>dev_cells := cells, dev_rows := R\<rparr>"

definition shadow :: "sql_state \<Rightarrow> sql_state \<Rightarrow> bool" where
  "shadow s t \<longleftrightarrow> t = with_rows (dev_rows t) (dev_cells t) s \<and> length (dev_cells s) = 41
     \<and> (\<forall>i \<in> {1..40}. taken s i \<longrightarrow> dev_cells s ! (i - 1) = dev_cells t ! (i - 1))"

text \<open>Every row has the layout of some channel.\<close>

definition rows_ok :: "(int \<Rightarrow> dev_row option) \<Rightarrow> bool" where
  "rows_ok R \<longleftrightarrow> (\<forall>k r. R k = Some r \<longrightarrow>
     (\<exists>n i. k = int (unat (n :: u32)) \<and> n \<noteq> 0 \<and> unat n < 2 ^ 31 \<and> i \<in> {1..40 :: nat} \<and> r 7 = ext_layout i (take 68 (r 6)) \<and> 0 \<notin> set (r 6)))"

lemma with_rows_simps [simp]:
  "taken (with_rows R cells s) i = taken s i" "holder (with_rows R cells s) i = holder s i"
  "chn_nameid_map (with_rows R cells s) = chn_nameid_map s" "assigned_chn_cnt (with_rows R cells s) = assigned_chn_cnt s"
  "modbus_feature_enable (with_rows R cells s) = modbus_feature_enable s" "g_modbus_reg_addr_mode (with_rows R cells s) = g_modbus_reg_addr_mode s"
  "dev_cells (with_rows R cells s) = cells" "dev_rows (with_rows R cells s) = R" "with_rows (dev_rows s) (dev_cells s) s = s"
  "with_rows R cells (with_rows R' cells' s) = with_rows R cells s"
  by (simp_all add: with_rows_def taken_def holder_def)

lemma with_rows_inject: "with_rows R cells s = with_rows R' cells' s' \<Longrightarrow> R = R' \<and> cells = cells'"
  by (drule arg_cong [of _ _ "\<lambda>s. (dev_rows s, dev_cells s)"]) simp

lemma channel_for_with_rows: "channel_for n (with_rows R cells s) = map_prod id (with_rows R cells) (channel_for n s)"
  by (auto simp: channel_for_def assign_chn_def with_rows_def Let_def split: option.splits)

lemma clear_chn_with_rows: "clear_chn n (with_rows R cells s) = map_option (map_prod id (with_rows R cells)) (clear_chn n s)"
  by (auto simp: clear_chn_def with_rows_def Let_def option.map_comp comp_def intro!: option.map_cong split: regAddressModeSql_t.splits)

lemma shadow_same:
  assumes "shadow s t"
  shows "taken t i = taken s i" "holder t i = holder s i" "chn_nameid_map t = chn_nameid_map s" "assigned_chn_cnt t = assigned_chn_cnt s"
    "modbus_feature_enable t = modbus_feature_enable s" "g_modbus_reg_addr_mode t = g_modbus_reg_addr_mode s"
    "length (dev_cells s) = 41"
proof -
  have t: "t = with_rows (dev_rows t) (dev_cells t) s" using assms unfolding shadow_def by (rule conjunct1)
  show "taken t i = taken s i" "holder t i = holder s i" "chn_nameid_map t = chn_nameid_map s" "assigned_chn_cnt t = assigned_chn_cnt s"
    "modbus_feature_enable t = modbus_feature_enable s" "g_modbus_reg_addr_mode t = g_modbus_reg_addr_mode s"
    by (subst t, simp only: with_rows_simps)+
  show "length (dev_cells s) = 41" using assms by (simp add: shadow_def)
qed

lemma shadow_back: "shadow s t \<Longrightarrow> with_rows (dev_rows s) (dev_cells s) t = s"
proof -
  assume "shadow s t"
  then have t: "t = with_rows (dev_rows t) (dev_cells t) s" unfolding shadow_def by (rule conjunct1)
  show "with_rows (dev_rows s) (dev_cells s) t = s" by (subst t) (simp only: with_rows_simps)
qed

lemma shadow_refl: "length (dev_cells s) = 41 \<Longrightarrow> shadow s s"
  unfolding shadow_def by (intro conjI ballI impI with_rows_simps(9) [symmetric]) simp_all

lemma holds_iff_row:
  assumes "chn_inv t" "shadow s t"
  shows "holds s n \<longleftrightarrow> dev_rows t (int (unat n)) \<noteq> None" "channels_taken s = card (dom (dev_rows t))"
proof -
  have "dom (dev_rows t) = (\<lambda>i. int (unat (holder s i))) ` {i \<in> {1..40}. taken s i}"
    using rows_taken(1) [OF assms(1)] by (simp add: shadow_same [OF assms(2)])
  then show "holds s n \<longleftrightarrow> dev_rows t (int (unat n)) \<noteq> None"
    unfolding holds_def domIff [symmetric] by (auto simp: image_iff word_uint_eq_iff)
  show "channels_taken s = card (dom (dev_rows t))"
    using rows_taken(2) [OF assms(1)] by (simp add: channels_taken_def shadow_same [OF assms(2)])
qed

section \<open>The steps\<close>

text \<open>A device is put into a place of both states.\<close>

lemma shadow_put:
  assumes "chn_inv t" "shadow s t" "i \<in> {1..40}"
    and s': "s' = with_rows R ((dev_cells s)[i - 1 := (2, d)])
      (s\<lparr>chn_nameid_map := (chn_nameid_map s)[i := \<lparr>cm_validflag = 1, cm_ch = of_nat i, cm_nameid = n\<rparr>], assigned_chn_cnt := cnt\<rparr>)"
  shows "shadow s' (put_place i n cnt d r t)"
proof -
  note sm = shadow_same [OF assms(2)]
  have len: "length (dev_cells t) = 41" "length (chn_nameid_map s) = 41" using assms(1) sm by (simp_all add: chn_inv_def)
  obtain R' cells where t: "t = with_rows R' cells s" using assms(2) unfolding shadow_def by (rule that [OF conjunct1])
  have "put_place i n cnt d r t = with_rows (dev_rows (put_place i n cnt d r t)) (dev_cells (put_place i n cnt d r t)) s'"
    unfolding t s' by (simp add: put_place_def with_rows_def)
  moreover have "length (dev_cells s') = 41" using sm(7) by (simp add: s')
  moreover have "dev_cells s' ! (l - 1) = dev_cells (put_place i n cnt d r t) ! (l - 1)" if "l \<in> {1..40}" "taken s' l" for l
  proof (cases "l = i")
    case True
    have "i - 1 < length (dev_cells s)" "i - 1 < length (dev_cells t)" using sm(7) len assms(3) by auto
    then show ?thesis by (simp add: s' put_place_def True del: One_nat_def)
  next
    case False
    then have "taken s l" using that(2) by (simp add: s' taken_def)
    then have "dev_cells s ! (l - 1) = dev_cells t ! (l - 1)" using assms(2) that(1) by (simp add: shadow_def)
    moreover have "l - 1 \<noteq> i - 1" using False that(1) assms(3) by auto
    ultimately show ?thesis by (simp add: s' put_place_def)
  qed
  ultimately show ?thesis unfolding shadow_def by blast
qed

lemma rows_ok_put:
  assumes "rows_ok R" "(n :: u32) \<noteq> 0" "unat n < 2 ^ 31" "i \<in> {1..40}" "r 7 = ext_layout i (take 68 (r 6))" "0 \<notin> set (r 6)"
  shows "rows_ok (R(int (unat n) \<mapsto> r))"
  unfolding rows_ok_def
proof (intro allI impI)
  fix k r' assume k: "(R(int (unat n) \<mapsto> r)) k = Some r'"
  show "\<exists>m i. k = int (unat (m :: u32)) \<and> m \<noteq> 0 \<and> unat m < 2 ^ 31 \<and> i \<in> {1..40 :: nat} \<and> r' 7 = ext_layout i (take 68 (r' 6)) \<and> 0 \<notin> set (r' 6)"
  proof (cases "k = int (unat n)")
    case True
    then have "r' = r" using k by simp
    then show ?thesis using True assms(2-) by (intro exI [of _ n] exI [of _ i]) simp
  next
    case False
    then have "R k = Some r'" using k by simp
    then show ?thesis using assms(1) unfolding rows_ok_def by blast
  qed
qed

text \<open>
  What a message does when the row has been looked up: the channel and the place are written whether the command on the row succeeds or not.
\<close>

lemma message_outcome:
  assumes inv: "chn_inv t" "shadow s t"
    and m: "message_ok n xs" "n \<noteq> holder s 0" "holds s n \<or> channels_taken s < 40"
  shows "\<exists>i cnt d r. i \<in> {1..40}
    \<and> dev_update_item ts True db n xs s = Some (db, with_rows (if db then (dev_rows s)(int (unat n) \<mapsto> r) else dev_rows s) ((dev_cells s)[i - 1 := (2, d)])
      (s\<lparr>chn_nameid_map := (chn_nameid_map s)[i := \<lparr>cm_validflag = 1, cm_ch = of_nat i, cm_nameid = n\<rparr>], assigned_chn_cnt := cnt\<rparr>))
    \<and> chn_inv (put_place i n cnt d r t) \<and> r 7 = ext_layout i (take 68 (r 6)) \<and> 0 \<notin> set (r 6)"
proof -
  note sm = shadow_same [OF inv(2)]
  have n: "n \<noteq> 0" "unat n < 2 ^ 31" using m(1) by (simp_all add: message_ok_def)
  have b: "modbus_feature_enable s" "g_modbus_reg_addr_mode s = MODBUS_REG_ADDR_EXTENSIBLE_MODE"
    using inv(1) sm by (simp_all add: chn_inv_def)
  obtain i cnt where i: "i \<in> {1..40}" "channel_for n s = (i, s\<lparr>chn_nameid_map := (chn_nameid_map s)[i :=
      \<lparr>cm_validflag = 1, cm_ch = of_nat i, cm_nameid = n\<rparr>], assigned_chn_cnt := cnt\<rparr>)"
    and new: "if taken t i then holder t i = n \<and> cnt = assigned_chn_cnt t
      else dev_rows t (int (unat n)) = None \<and> cnt = assigned_chn_cnt t + 1 \<and> unat (assigned_chn_cnt t) \<le> 40"
  proof (cases "dev_rows t (int (unat n)) = None")
    case False
    then obtain i where i: "i \<in> {1..40}" "taken t i" "n = holder t i"
      using sint_holder [OF inv(1), of n] sint_small [OF n(2)] by auto
    have "(chn_nameid_map s)[i := \<lparr>cm_validflag = 1, cm_ch = of_nat i, cm_nameid = n\<rparr>] = chn_nameid_map s"
      using taken_entry(1) [OF inv(1) i(1,2)] i(3) sm(3) list_update_id [of "chn_nameid_map s" i] by simp
    moreover have "channel_for n s = (i, s)"
      using channel_for_with_rows [of n "dev_rows s" "dev_cells s" t] find_chn_row [OF inv(1) i(1,2)] i(3) shadow_back [OF inv(2)] by simp
    ultimately show ?thesis using that [of i "assigned_chn_cnt s"] i sm by simp
  next
    case True
    then have room: "card (dom (dev_rows t)) < 40" using m(3) holds_iff_row [OF inv(1,2)] by simp
    obtain i where i: "i \<in> {1..40}" "\<not> taken t i" "channel_for n t = (i, t\<lparr>chn_nameid_map := (chn_nameid_map t)[i :=
        \<lparr>cm_validflag = 1, cm_ch = of_nat i, cm_nameid = n\<rparr>], assigned_chn_cnt := assigned_chn_cnt t + 1\<rparr>)"
      using find_chn_new [OF inv(1) n True room] by auto
    have "channel_for n s = map_prod id (with_rows (dev_rows s) (dev_cells s)) (channel_for n t)"
      using channel_for_with_rows [of n "dev_rows s" "dev_cells s" t] shadow_back [OF inv(2)] by simp
    then have "channel_for n s = (i, with_rows (dev_rows s) (dev_cells s) (t\<lparr>chn_nameid_map := (chn_nameid_map t)[i :=
        \<lparr>cm_validflag = 1, cm_ch = of_nat i, cm_nameid = n\<rparr>], assigned_chn_cnt := assigned_chn_cnt t + 1\<rparr>))"
      by (simp add: i(3))
    also have "with_rows (dev_rows s) (dev_cells s) (t\<lparr>chn_nameid_map := m, assigned_chn_cnt := c\<rparr>)
        = s\<lparr>chn_nameid_map := m, assigned_chn_cnt := c\<rparr>" for m c
      by (subst (3) shadow_back [OF inv(2), symmetric]) (simp add: with_rows_def)
    finally show ?thesis
      using that [of i "assigned_chn_cnt t + 1"] i True inv(1) room rows_taken(2) [OF inv(1)] sm(3) by (auto simp: chn_inv_def)
  qed
  obtain d r where w: "dev_update_or_insert ts db (dev_rows s (sint n) \<noteq> None) n xs s = Some (db, (s\<lparr>chn_nameid_map := (chn_nameid_map s)[i :=
      \<lparr>cm_validflag = 1, cm_ch = of_nat i, cm_nameid = n\<rparr>], assigned_chn_cnt := cnt\<rparr>)\<lparr>dev_cells := (dev_cells s)[i - 1 := (2, d)],
       dev_rows := (if db then (dev_rows s)(int (unat n) \<mapsto> r) else dev_rows s)\<rparr>)"
    and dr: "di_nameid d = n" "di_description d = ext_layout i (di_sensor_type d)" "r 7 = ext_layout i (di_sensor_type d)"
      "di_sensor_type d = take 68 (r 6)" "0 \<notin> set (r 6)"
    using dev_write_effect [OF b sm(7) m(1) i(2) _ _ _ _ refl, of ts db] i(1) by auto
  have "chn_inv (put_place i n cnt d r t)" by (rule chn_inv_put [OF inv(1) i(1) n _ new dr]) (use m(2) sm(2) in simp)
  moreover have "r 7 = ext_layout i (take 68 (r 6))" using dr(3,4) by simp
  ultimately show ?thesis
    using i(1) w dr(5) n(1) by (intro exI [of _ i] exI [of _ cnt] exI [of _ d] exI [of _ r]) (simp add: dev_update_item_def with_rows_def)
qed

lemma message_keeps:
  assumes inv: "chn_inv t" "shadow s t" "rows_ok (dev_rows s)"
    and m: "message_ok n xs" "n \<noteq> holder s 0" "holds s n \<or> channels_taken s < 40" "dev_update_item ts qr db n xs s = Some (status, s')"
  shows "(\<exists>t'. chn_inv t' \<and> shadow s' t') \<and> rows_ok (dev_rows s') \<and> (status \<longrightarrow> qr \<and> db)"
proof (cases qr)
  case False
  then show ?thesis using m(1,4) inv by (auto simp: dev_update_item_def message_ok_def)
next
  case True
  have n: "n \<noteq> 0" "unat n < 2 ^ 31" using m(1) by (simp_all add: message_ok_def)
  obtain i cnt d r where i: "i \<in> {1..40}"
    and u: "dev_update_item ts True db n xs s = Some (db, with_rows (if db then (dev_rows s)(int (unat n) \<mapsto> r) else dev_rows s)
      ((dev_cells s)[i - 1 := (2, d)])
      (s\<lparr>chn_nameid_map := (chn_nameid_map s)[i := \<lparr>cm_validflag = 1, cm_ch = of_nat i, cm_nameid = n\<rparr>], assigned_chn_cnt := cnt\<rparr>))"
    and t: "chn_inv (put_place i n cnt d r t)" and r: "r 7 = ext_layout i (take 68 (r 6))" "0 \<notin> set (r 6)"
    using message_outcome [OF inv(1,2) m(1-3), of ts db] by blast
  have "dev_update_item ts True db n xs s = Some (status, s')" using m(4) True by simp
  note e = trans [OF u [symmetric] this, THEN option.inject [THEN iffD1]]
  have s': "status = db" "s' = with_rows (if db then (dev_rows s)(int (unat n) \<mapsto> r) else dev_rows s) ((dev_cells s)[i - 1 := (2, d)])
      (s\<lparr>chn_nameid_map := (chn_nameid_map s)[i := \<lparr>cm_validflag = 1, cm_ch = of_nat i, cm_nameid = n\<rparr>], assigned_chn_cnt := cnt\<rparr>)"
    using e by (erule_tac Pair_inject, erule_tac sym)+
  have "rows_ok (dev_rows s')" using inv(3) rows_ok_put [OF inv(3) n i r] by (simp add: s')
  then show ?thesis using t shadow_put [OF inv(1,2) i s'(2)] True s'(1) by blast
qed

text \<open>A deletion clears the channel in both states.\<close>

lemma clear_with_rows:
  assumes "clear_chn k t = Some (c, t\<lparr>chn_nameid_map := m\<rparr>)" "shadow s t"
  shows "clear_chn k s = Some (c, s\<lparr>chn_nameid_map := m\<rparr>)"
proof -
  note sb = shadow_back [OF assms(2)]
  have "clear_chn k s = Some (c, with_rows (dev_rows s) (dev_cells s) (t\<lparr>chn_nameid_map := m\<rparr>))"
    using clear_chn_with_rows [of k "dev_rows s" "dev_cells s" t] assms(1) by (simp add: sb)
  also have "with_rows (dev_rows s) (dev_cells s) (t\<lparr>chn_nameid_map := m\<rparr>) = s\<lparr>chn_nameid_map := m\<rparr>"
    by (subst (3) sb [symmetric]) (simp add: with_rows_def)
  finally show ?thesis .
qed

lemma rows_ok_less: "rows_ok R \<Longrightarrow> rows_ok (R(k := None))"
  by (auto simp: rows_ok_def)

lemma shadow_map_0:
  assumes "shadow s t"
  shows "shadow (s\<lparr>chn_nameid_map := (chn_nameid_map s)[0 := e], dev_rows := R\<rparr>) (t\<lparr>chn_nameid_map := (chn_nameid_map t)[0 := e]\<rparr>)"
proof -
  let ?s = "s\<lparr>chn_nameid_map := (chn_nameid_map s)[0 := e], dev_rows := R\<rparr>" and ?t = "t\<lparr>chn_nameid_map := (chn_nameid_map t)[0 := e]\<rparr>"
  obtain R' cells where t: "t = with_rows R' cells s" using assms unfolding shadow_def by (rule that [OF conjunct1])
  have "?t = with_rows (dev_rows ?t) (dev_cells ?t) ?s" unfolding t by (simp add: with_rows_def)
  moreover have "taken ?s i = taken s i" if "i \<in> {1..40}" for i using that by (simp add: taken_def nth_list_update)
  ultimately show ?thesis using assms unfolding shadow_def by simp
qed

lemma shadow_clear:
  assumes "chn_inv t" "shadow s t" "i \<in> {1..40}"
  shows "shadow (s\<lparr>chn_nameid_map := (chn_nameid_map s)[i := zero_chn], assigned_chn_cnt := assigned_chn_cnt s - 1,
     dev_cells := (dev_cells s)[i - 1 := zero_cell], dev_rows := R\<rparr>) (clear_place i t)"
    (is "shadow ?s _")
proof -
  note sm = shadow_same [OF assms(2)]
  have len: "length (chn_nameid_map s) = 41" using assms(1) sm by (simp add: chn_inv_def)
  obtain R' cells where t: "t = with_rows R' cells s" using assms(2) unfolding shadow_def by (rule that [OF conjunct1])
  have "clear_place i t = with_rows (dev_rows (clear_place i t)) (dev_cells (clear_place i t)) ?s"
    unfolding t by (simp add: clear_place_def with_rows_def)
  moreover have "dev_cells ?s ! (l - 1) = dev_cells (clear_place i t) ! (l - 1)" if "l \<in> {1..40}" "taken ?s l" for l
  proof -
    have "l \<noteq> i" using that len by (auto simp: taken_def)
    then have "taken s l" "l - 1 \<noteq> i - 1" using that assms(3) by (auto simp: taken_def nth_list_update)
    moreover have "dev_cells s ! (l - 1) = dev_cells t ! (l - 1)" using assms(2) that(1) \<open>taken s l\<close> by (simp add: shadow_def)
    ultimately show ?thesis by (simp add: clear_place_def)
  qed
  moreover have "length (dev_cells ?s) = 41" using sm(7) by simp
  ultimately show ?thesis unfolding shadow_def by blast
qed

lemma delete_keeps:
  assumes inv: "chn_inv t" "shadow s t" "rows_ok (dev_rows s)" and k: "k \<noteq> 0" "dev_delete_item ts db k s = Some (status, s')"
  shows "(\<exists>t'. chn_inv t' \<and> shadow s' t') \<and> rows_ok (dev_rows s') \<and> (status \<longrightarrow> db)"
proof -
  note sm = shadow_same [OF inv(2)]
  have b: "modbus_feature_enable s" using inv(1) sm by (simp add: chn_inv_def)
  define tbl where "tbl = snd (sqlite_delete_dev db k (dev_rows s))"
  have rows: "rows_ok tbl" using inv(3) k(1) rows_ok_less by (simp add: tbl_def sqlite_delete_dev_def)
  note shape = dev_delete_shape [OF b tbl_def, where ts = ts]
  show ?thesis
  proof (cases "\<exists>i \<in> {1..40}. taken t i \<and> holder t i = k")
    case True
    then obtain i where i: "i \<in> {1..40}" "taken t i" "holder t i = k" by blast
    have "clear_chn k s = Some (of_nat i, s\<lparr>chn_nameid_map := (chn_nameid_map s)[i := zero_chn]\<rparr>)"
      using clear_with_rows [OF clear_chn_effect(1) [OF inv(1) k(1) i] inv(2)] sm(3) by simp
    from shape(3) [OF this i(1) sm(7)] show ?thesis
      using k(2) rows shadow_clear [OF inv(1,2) i(1), of tbl] chn_inv_clear [OF inv(1) i(1,2)] by auto
  next
    case False
    then have "\<forall>i \<in> {1..40}. taken t i \<longrightarrow> holder t i \<noteq> k" by blast
    note c = clear_chn_effect(2) [OF inv(1) k(1) this]
    show ?thesis
    proof (cases "k = holder t 0")
      case True
      then have "clear_chn k s = Some (0, s\<lparr>chn_nameid_map := (chn_nameid_map s)[0 := zero_chn]\<rparr>)"
        using clear_with_rows [OF _ inv(2), of k 0 "(chn_nameid_map t)[0 := zero_chn]"] c sm(3) by simp
      from shape(2) [OF this]
      have s': "status = db" "s' = s\<lparr>chn_nameid_map := (chn_nameid_map s)[0 := zero_chn], dev_rows := tbl\<rparr>" using k(2) by simp_all
      have "chn_inv (t\<lparr>chn_nameid_map := (chn_nameid_map t)[0 := zero_chn]\<rparr>)"
        using chn_inv_place_0 [OF inv(1), of zero_chn] taken_entry(2) [OF inv(1)] by (auto simp: zero_chn_def)
      then show ?thesis using s' rows shadow_map_0 [OF inv(2)] by auto
    next
      case neq: False
      then have "clear_chn k s = None" using c clear_chn_with_rows [of k "dev_rows s" "dev_cells s" t] shadow_back [OF inv(2)] by simp
      from shape(1) [OF this] have s': "status = db" "s' = s\<lparr>dev_rows := tbl\<rparr>" using k(2) by simp_all
      have "shadow s' t" using inv(2) unfolding shadow_def s' by (simp add: with_rows_def taken_def)
      then show ?thesis using s' inv(1) rows by auto
    qed
  qed
qed

lemma gateway_keeps:
  assumes inv: "chn_inv t" "shadow s t" and n: "\<not> holds s n"
  shows "\<exists>t'. chn_inv t' \<and> shadow (gw_channel n s) t'"
proof -
  note sm = shadow_same [OF inv(2)]
  let ?e = "(chn_nameid_map s ! 0)\<lparr>cm_nameid := n, cm_ch := 0\<rparr>"
  have "g_modbus_reg_addr_mode s = MODBUS_REG_ADDR_EXTENSIBLE_MODE" using inv(1) sm by (simp add: chn_inv_def)
  then have "gw_channel n s = s\<lparr>chn_nameid_map := (chn_nameid_map s)[0 := ?e], dev_rows := dev_rows s\<rparr>" by (simp add: gw_channel_def)
  moreover have "chn_inv (t\<lparr>chn_nameid_map := (chn_nameid_map t)[0 := ?e]\<rparr>)"
    using n by (intro chn_inv_place_0 [OF inv(1)]) (auto simp: holds_def sm(1,2))
  ultimately show ?thesis using shadow_map_0 [OF inv(2)] by metis
qed

text \<open>A start loads a row into the channel that its layout names, unless another row has been loaded into it.\<close>

lemma load_keeps:
  assumes inv: "chn_inv t" "shadow s t" "rows_ok (dev_rows s)"
    and k: "dev_rows s (int (unat k)) \<noteq> None" "\<not> holds s k" "k \<noteq> holder s 0"
  shows "\<exists>s' t'. load_dev k s = Some s' \<and> chn_inv t' \<and> shadow s' t' \<and> dev_rows s' = dev_rows s \<and> holder s' 0 = holder s 0
    \<and> (\<forall>n. holds s' n \<longrightarrow> n = k \<or> holds s n)"
proof -
  note sm = shadow_same [OF inv(2)]
  obtain r where r: "dev_rows s (int (unat k)) = Some r" using k(1) by blast
  then obtain n i where n: "int (unat k) = int (unat (n :: u32))" "n \<noteq> 0" "unat n < 2 ^ 31" and i: "i \<in> {1..40 :: nat}"
    and r7: "r 7 = ext_layout i (take 68 (r 6))" "0 \<notin> set (r 6)"
    using inv(3) unfolding rows_ok_def by blast
  have "n = k" using n(1) by (simp add: word_uint_eq_iff)
  then have kk: "k \<noteq> 0" "unat k < 2 ^ 31" using n by auto
  have "dev_rows s (sint k) = Some r" using r sint_small [OF kk(2)] by simp
  from query_converted [OF this r7(1) _ r7(2)] i obtain d where d:
    "table_query_data_convert_dev (sqlite_query_dev k (dev_rows s)) = Some (2, d)" "di_nameid d = k"
    "di_description d = ext_layout i (take 68 (r 6))" "di_sensor_type d = take 68 (r 6)" by auto
  have p: "parse_description (di_description d) = Some (of_nat i, of_nat (0x80 * i), 0x80)"
    using ext_layout_text(5) [of i "take 68 (r 6)"] i d(3) by simp
  have c: "unat (of_nat i :: u8) = i" using i by (simp add: unat_of_nat)
  have mode: "g_modbus_reg_addr_mode s = MODBUS_REG_ADDR_EXTENSIBLE_MODE" "length (chn_nameid_map s) = 41"
    using inv(1) sm by (simp_all add: chn_inv_def)
  show ?thesis
  proof (cases "taken t i")
    case True
    then have "chn_nameid_map s ! i = \<lparr>cm_validflag = 1, cm_ch = of_nat i, cm_nameid = holder t i\<rparr>"
      using taken_entry(1) [OF inv(1) i] sm(3) by simp
    then have "load_dev k s = Some s"
      using d p c mode i by (simp add: load_dev_def known_len_def DEV_REG_ADDR_LENGTH_EXT_MODE_def BULLET_GW_SENSOR_NUM_MAX_def)
    then show ?thesis using inv by blast
  next
    case False
    let ?s = "with_rows (dev_rows s) ((dev_cells s)[i - 1 := (2, d)]) (s\<lparr>chn_nameid_map := (chn_nameid_map s)[i :=
      \<lparr>cm_validflag = 1, cm_ch = of_nat i, cm_nameid = k\<rparr>], assigned_chn_cnt := assigned_chn_cnt s + 1\<rparr>)"
    have "chn_nameid_map s ! i = zero_chn" using False not_taken [of s i] sm(1) by simp
    moreover have "put_cell i (2, d) (dev_cells s) = Some ((dev_cells s)[i - 1 := (2, d)])" using i sm(7) by (simp add: put_cell_def)
    ultimately have ld: "load_dev k s = Some ?s"
      using d p c mode i
      by (simp add: load_dev_def known_len_def DEV_REG_ADDR_LENGTH_EXT_MODE_def BULLET_GW_SENSOR_NUM_MAX_def zero_chn_def with_rows_def)
    have "{l \<in> {1..40}. taken t l} \<subset> {1..40 :: nat}" using False i unfolding psubset_eq by blast
    then have "card {l \<in> {1..40}. taken t l} < card {1..40 :: nat}" by (rule psubset_card_mono [OF finite_atLeastAtMost])
    moreover obtain g where "g \<le> 1" "unat (assigned_chn_cnt t) = g + card {l \<in> {1..40}. taken t l}" using inv(1) unfolding chn_inv_def by blast
    ultimately have cnt: "unat (assigned_chn_cnt t) \<le> 40" by simp
    have "dev_rows t (int (unat k)) = None" using k(2) holds_iff_row(1) [OF inv(1,2), of k] by blast
    then have new: "if taken t i then holder t i = k \<and> assigned_chn_cnt t + 1 = assigned_chn_cnt t
        else dev_rows t (int (unat k)) = None \<and> assigned_chn_cnt t + 1 = assigned_chn_cnt t + 1 \<and> unat (assigned_chn_cnt t) \<le> 40"
      using False cnt by simp
    have "k \<noteq> holder t 0" "di_description d = ext_layout i (di_sensor_type d)" "r 7 = ext_layout i (di_sensor_type d)"
      using k(3) sm(2) d r7(1) by simp_all
    note chn_inv_put [OF inv(1) i kk this(1) new d(2) this(2,3) d(4) r7(2)]
    moreover have "shadow ?s (put_place i k (assigned_chn_cnt s + 1) d r t)" by (rule shadow_put [OF inv(1,2) i refl])
    moreover have "holder ?s 0 = holder s 0" using i by (simp add: holder_def with_rows_def)
    moreover have "n = k \<or> holds s n" if "holds ?s n" for n
      using that i mode(2) by (auto simp: holds_def taken_def holder_def with_rows_def nth_list_update split: if_splits)
    ultimately show ?thesis using ld sm(4) by (intro exI [of _ ?s] exI [of _ "put_place i k (assigned_chn_cnt s + 1) d r t"]) simp
  qed
qed

lemma load_all_keeps:
  assumes "chn_inv t" "shadow s t" "rows_ok (dev_rows s)" "distinct keys" "\<forall>k \<in> set keys. dev_rows s (int (unat k)) \<noteq> None"
    "\<forall>k \<in> set keys. \<not> holds s k \<and> k \<noteq> holder s 0"
  shows "\<exists>s' t'. load_devs keys s = Some s' \<and> chn_inv t' \<and> shadow s' t' \<and> dev_rows s' = dev_rows s"
  using assms
proof (induction keys arbitrary: s t)
  case (Cons k ks)
  from load_keeps [OF Cons.prems(1-3), of k] Cons.prems(5,6)
  obtain s1 t1 where s1: "load_dev k s = Some s1" "chn_inv t1" "shadow s1 t1" "dev_rows s1 = dev_rows s" "holder s1 0 = holder s 0"
    "\<forall>n. holds s1 n \<longrightarrow> n = k \<or> holds s n" by auto
  have "\<exists>s' t'. load_devs ks s1 = Some s' \<and> chn_inv t' \<and> shadow s' t' \<and> dev_rows s' = dev_rows s1"
    by (rule Cons.IH [OF s1(2,3)]) (use Cons.prems s1(4-6) in auto)
  then show ?case using s1(1,4) Cons.prems(1,2) by (cases "k = 0") auto
qed auto

lemma restart_keeps:
  assumes inv: "chn_inv t" "shadow s t" "rows_ok (dev_rows s)"
    and g: "ext_gateway (n, baud, mode)" "dev_rows s (sint n) = None"
    and keys: "distinct keys" "(\<lambda>k. int (unat k)) ` set keys \<subseteq> dom (dev_rows s)"
    and st: "sql_start (Some (n, baud, mode)) keys magic s = Some s'"
  shows "(\<exists>t'. chn_inv t' \<and> shadow s' t') \<and> dev_rows s' = dev_rows s"
proof -
  let ?cells = "if magic then dev_cells s else replicate 41 zero_cell"
  let ?s0 = "\<lambda>R cells. \<lparr>modbus_feature_enable = True, g_modbus_reg_addr_mode = MODBUS_REG_ADDR_EXTENSIBLE_MODE,
      chn_nameid_map = (replicate 41 zero_chn)[0 := \<lparr>cm_validflag = 1, cm_ch = 0, cm_nameid = n\<rparr>],
      efficient_chn_nameid_map = replicate 41 zero_eff, assigned_chn_cnt = 1, dev_cells = cells, dev_rows = R\<rparr>"
  have start: "sql_start (Some (n, baud, mode)) keys magic s = load_devs (take 40 keys) (?s0 (dev_rows s) ?cells)"
    using g(1) by (simp add: sql_start_def ext_gateway_def BULLET_GW_SENSOR_NUM_MAX_def)
  have "sql_start (Some (n, baud, mode)) [] False (s\<lparr>dev_rows := Map.empty\<rparr>) = Some (?s0 Map.empty (replicate 41 zero_cell))"
    using g(1) by (simp add: sql_start_def ext_gateway_def)
  from start_empty [OF _ _ this] have t0: "chn_inv (?s0 Map.empty (replicate 41 zero_cell))" using g(1) by simp
  have nt: "\<not> taken (?s0 R cells) i" if "i \<in> {1..40}" for i R cells using that by (simp add: taken_def nth_list_update)
  have "shadow (?s0 (dev_rows s) ?cells) (?s0 Map.empty (replicate 41 zero_cell))"
    using nt shadow_same(7) [OF inv(2)] unfolding shadow_def by (simp add: with_rows_def)
  moreover have "dev_rows s (int (unat k)) \<noteq> None" if "k \<in> set keys" for k
    using that keys(2) by (auto simp: domIff subset_iff image_iff simp del: of_nat_unat)
  moreover have "k \<noteq> n" if "k \<in> set keys" for k
  proof
    assume "k = n"
    then have "int (unat n) \<in> dom (dev_rows s)" using that keys(2) by blast
    then obtain r where "dev_rows s (int (unat n)) = Some r" by blast
    then obtain m where "int (unat n) = int (unat (m :: u32))" "unat m < 2 ^ 31" using inv(3) unfolding rows_ok_def by blast
    then have "n = m" by (simp add: word_uint_eq_iff)
    then have "unat n < 2 ^ 31" using \<open>unat m < 2 ^ 31\<close> by simp
    then show False using g(2) sint_small [of n] \<open>dev_rows s (int (unat n)) = Some r\<close> by simp
  qed
  moreover have "\<not> holds (?s0 (dev_rows s) ?cells) k" for k using nt unfolding holds_def by blast
  moreover have "holder (?s0 (dev_rows s) ?cells) 0 = n" by (simp add: holder_def nth_list_update)
  ultimately show ?thesis
    using load_all_keeps [OF t0, of "?s0 (dev_rows s) ?cells" "take 40 keys"] inv(3) keys(1) st start
    by (auto dest: in_set_takeD)
qed

lemma process_keeps:
  "sql_process ok s \<Longrightarrow> (\<exists>t. chn_inv t \<and> shadow s t) \<and> rows_ok (dev_rows s) \<and> (ok \<longrightarrow> sql_reachable s)"
proof (induction rule: sql_process.induct)
  case (process_first s gw s')
  have inv: "chn_inv s'" "dev_rows s' = Map.empty" using start_empty [OF process_first] by simp_all
  then have "shadow s' s'" by (intro shadow_refl) (simp add: chn_inv_def)
  moreover have "rows_ok (dev_rows s')" by (simp add: rows_ok_def inv(2))
  ultimately show ?case using inv(1) sql_first [OF process_first] by blast
next
  case (process_message ok s n xs ts qr db status s')
  then obtain t where t: "chn_inv t" "shadow s t" "rows_ok (dev_rows s)" by blast
  note k = message_keeps [OF t process_message.hyps(2-5)]
  have "sql_reachable s'" if ok: "ok" "status"
  proof -
    have s: "sql_reachable s" using process_message.IH ok(1) by blast
    then have "chn_inv s" by (rule reachable_chn_inv)
    moreover have "shadow s s" using shadow_same(7) [OF t(2)] by (rule shadow_refl)
    ultimately have "dev_rows s (int (unat n)) \<noteq> None \<or> card (dom (dev_rows s)) < 40"
      using process_message.hyps(4) holds_iff_row by simp
    moreover have "dev_update_item ts True True n xs s = Some (status, s')" using process_message.hyps(5) k ok(2) by simp
    ultimately show ?thesis by (rule sql_message [OF s process_message.hyps(2,3)])
  qed
  then show ?case using k by blast
next
  case (process_delete ok s k ts db status s')
  then obtain t where t: "chn_inv t" "shadow s t" "rows_ok (dev_rows s)" by blast
  note d = delete_keeps [OF t process_delete.hyps(2,3)]
  have "sql_reachable s'" if "ok" "status"
  proof (rule sql_delete)
    show "sql_reachable s" using process_delete.IH that(1) by blast
    show "dev_delete_item ts True k s = Some (status, s')" using process_delete.hyps(3) d that(2) by simp
  qed (rule process_delete.hyps(2))
  then show ?case using d by blast
next
  case (process_gateway ok s n)
  then obtain t where t: "chn_inv t" "shadow s t" "rows_ok (dev_rows s)" by blast
  have "dev_rows (gw_channel n s) = dev_rows s" by (simp add: gw_channel_def split: regAddressModeSql_t.splits)
  then show ?case
    using gateway_keeps [OF t(1,2) process_gateway.hyps(3)] t(3) sql_gateway [of s n] process_gateway by simp
next
  case (process_restart ok s n baud mode keys magic s')
  then obtain t where t: "chn_inv t" "shadow s t" "rows_ok (dev_rows s)" by blast
  note r = restart_keeps [OF t process_restart.hyps(2-6)]
  have "sql_reachable s'" if "ok" "(\<lambda>k. int (unat k)) ` set keys = dom (dev_rows s)"
    using sql_restart [OF _ process_restart.hyps(2,3) _ process_restart.hyps(6)] process_restart.IH process_restart.hyps(4) that
    unfolding lists_devices_def by blast
  then show ?case using r t(3) by simp
qed

section \<open>The channel of each device\<close>

text \<open>Every row has one channel while no command has failed.\<close>

lemma rows_agree:
  assumes "sql_reachable s"
  shows "(\<forall>k r. dev_rows s k = Some r \<longrightarrow>
      (\<exists>!i. i \<in> {1..40} \<and> chn_nameid_map s ! i = \<lparr>cm_validflag = 1, cm_ch = of_nat i, cm_nameid = word_of_int k\<rparr>)
      \<and> (\<exists>i \<in> {1..40}. \<exists>d. chn_nameid_map s ! i = \<lparr>cm_validflag = 1, cm_ch = of_nat i, cm_nameid = word_of_int k\<rparr>
           \<and> dev_cells s ! (i - 1) = (2, d) \<and> di_nameid d = word_of_int k
           \<and> di_description d = ext_layout i (di_sensor_type d) \<and> r 7 = di_description d))
    \<and> (\<forall>i \<in> {1..40}. dev_cells s ! (i - 1) = zero_cell \<or> dev_rows s (int (unat (di_nameid (snd (dev_cells s ! (i - 1)))))) \<noteq> None)"
proof -
  have inv: "chn_inv s" by (rule reachable_chn_inv [OF assms])
  have row: "(\<exists>!i. i \<in> {1..40} \<and> chn_nameid_map s ! i = \<lparr>cm_validflag = 1, cm_ch = of_nat i, cm_nameid = word_of_int k\<rparr>)
      \<and> (\<exists>i \<in> {1..40}. \<exists>d. chn_nameid_map s ! i = \<lparr>cm_validflag = 1, cm_ch = of_nat i, cm_nameid = word_of_int k\<rparr>
           \<and> dev_cells s ! (i - 1) = (2, d) \<and> di_nameid d = word_of_int k
           \<and> di_description d = ext_layout i (di_sensor_type d) \<and> r 7 = di_description d)" if "dev_rows s k = Some r" for k r
  proof -
    obtain i where i: "i \<in> {1..40}" "taken s i" "k = int (unat (holder s i))" using row_has_place [OF inv] \<open>dev_rows s k = Some r\<close> by blast
    have k: "word_of_int k = holder s i" using i(3) by simp
    note e = taken_entry [OF inv i(1,2)]
    have "j = i" if "j \<in> {1..40}" "chn_nameid_map s ! j = \<lparr>cm_validflag = 1, cm_ch = of_nat j, cm_nameid = word_of_int k\<rparr>" for j
    proof -
      have "taken s j" "holder s j = holder s i" using that(2) k by (auto simp: taken_def holder_def zero_chn_def)
      then show ?thesis using inv that(1) i inj_onD [of "holder s" "{i \<in> {1..40}. taken s i}" j i] by (auto simp: chn_inv_def)
    qed
    then show ?thesis using e(1,4) i k that by auto
  qed
  moreover have "dev_cells s ! (i - 1) = zero_cell \<or> dev_rows s (int (unat (di_nameid (snd (dev_cells s ! (i - 1)))))) \<noteq> None"
    if "i \<in> {1..40}" for i
    using taken_entry(4) [OF inv that] empty_place [OF inv that] by (cases "taken s i") auto
  ultimately show ?thesis by blast
qed

text \<open>The entries and the places of the shared memory agree in every state.\<close>

lemma entries_agree:
  assumes inv: "chn_inv t" "shadow s t" and i: "i \<in> {1..40}" "chn_nameid_map s ! i \<noteq> zero_chn"
  shows "\<exists>n d. chn_nameid_map s ! i = \<lparr>cm_validflag = 1, cm_ch = of_nat i, cm_nameid = n\<rparr> \<and> n \<noteq> 0
    \<and> dev_cells s ! (i - 1) = (2, d) \<and> di_nameid d = n \<and> di_description d = ext_layout i (di_sensor_type d)
    \<and> (\<forall>j \<in> {1..40}. cm_nameid (chn_nameid_map s ! j) = n \<longrightarrow> j = i)"
proof -
  note sm = shadow_same [OF inv(2)]
  have tk: "taken s i" "taken t i" using i(2) sm(1) by (simp_all add: taken_def)
  note e = taken_entry [OF inv(1) i(1) tk(2)]
  have c: "dev_cells s ! (i - 1) = dev_cells t ! (i - 1)" using inv(2) i(1) tk(1) by (simp add: shadow_def)
  have "j = i" if j: "j \<in> {1..40}" "cm_nameid (chn_nameid_map s ! j) = holder t i" for j
  proof -
    have h: "holder t j = holder t i" using j(2) sm(3) by (simp add: holder_def)
    then have "taken t j" using e(2) not_taken [of t j] by (auto simp: holder_def zero_chn_def)
    then show ?thesis using inv(1) i(1) j(1) tk(2) h inj_onD [of "holder t" "{i \<in> {1..40}. taken t i}" j i] by (auto simp: chn_inv_def)
  qed
  then show ?thesis using e(1,2,4) c sm(3) by auto
qed

text \<open>
  What a failed command leaves behind: a device without a row that has a channel and is served, and a row whose device has no channel.  The
  process answers the message with an error and does not take its writes back.
\<close>

lemma failed_insert_leaves_channel:
  assumes "sql_process ok s" "message_ok n xs" "n \<noteq> holder s 0" "\<not> holds s n" "channels_taken s < 40" "dev_rows s (int (unat n)) = None"
  shows "\<exists>s'. dev_update_item ts True False n xs s = Some (False, s') \<and> sql_process False s' \<and> holds s' n \<and> dev_rows s' (int (unat n)) = None"
proof -
  obtain t where t: "chn_inv t" "shadow s t" using process_keeps [OF assms(1)] by blast
  obtain i cnt d r where i: "i \<in> {1..40}"
    and u: "dev_update_item ts True False n xs s = Some (False, with_rows (dev_rows s) ((dev_cells s)[i - 1 := (2, d)])
      (s\<lparr>chn_nameid_map := (chn_nameid_map s)[i := \<lparr>cm_validflag = 1, cm_ch = of_nat i, cm_nameid = n\<rparr>], assigned_chn_cnt := cnt\<rparr>))"
    using message_outcome [OF t assms(2,3), of ts False] assms(5) by auto
  have "length (chn_nameid_map s) = 41" using t shadow_same(3) [OF t(2)] by (simp add: chn_inv_def)
  then show ?thesis
    using process_message [OF assms(1-3) _ u] assms(5,6) u i
    by (auto simp: holds_def taken_def holder_def zero_chn_def with_rows_def intro!: bexI [of _ i])
qed

lemma failed_delete_leaves_row:
  assumes "sql_process ok s" "k \<noteq> 0" "holds s k"
  shows "\<exists>s'. dev_delete_item ts False k s = Some (False, s') \<and> sql_process False s' \<and> \<not> holds s' k \<and> dev_rows s' = dev_rows s"
proof -
  obtain t where t: "chn_inv t" "shadow s t" using process_keeps [OF assms(1)] by blast
  note sm = shadow_same [OF t(2)]
  obtain i where i: "i \<in> {1..40}" "taken t i" "holder t i = k" using assms(3) sm(1,2) by (auto simp: holds_def)
  have b: "modbus_feature_enable s" "length (chn_nameid_map s) = 41" using t(1) sm by (simp_all add: chn_inv_def)
  let ?s = "s\<lparr>chn_nameid_map := (chn_nameid_map s)[i := zero_chn], assigned_chn_cnt := assigned_chn_cnt s - 1,
    dev_cells := (dev_cells s)[i - 1 := zero_cell], dev_rows := dev_rows s\<rparr>"
  have "clear_chn k s = Some (of_nat i, s\<lparr>chn_nameid_map := (chn_nameid_map s)[i := zero_chn]\<rparr>)"
    using clear_with_rows [OF clear_chn_effect(1) [OF t(1) assms(2) i] t(2)] sm(3) by simp
  from dev_delete_shape(3) [OF b(1) _ this i(1) sm(7), of "dev_rows s" False ts]
  have d: "dev_delete_item ts False k s = Some (False, ?s)" by (simp add: sqlite_delete_dev_def)
  have "\<not> holds ?s k"
  proof
    assume "holds ?s k"
    then obtain l where l: "l \<in> {1..40}" "taken ?s l" "holder ?s l = k" unfolding holds_def by blast
    have "l \<noteq> i" using l(2) b(2) i(1) by (auto simp: taken_def)
    then have "taken s l" "holder s l = k" using l(2,3) by (simp_all add: taken_def holder_def nth_list_update)
    then show False using l(1) \<open>l \<noteq> i\<close>  t(1) i sm(1,2) inj_onD [of "holder t" "{i \<in> {1..40}. taken t i}" l i] by (auto simp: chn_inv_def)
  qed
  then show ?thesis using d process_delete [OF assms(1,2) d] by auto
qed

text \<open>
  C6: in every state that the database process can reach in extensible mode, by complete messages for at most 40 devices, deletions,
  gateway configurations and restarts, with queries and commands on the database that may fail, every channel that is taken has a device of its own: no other
  channel has its number, the place of the channel in the shared memory names the same number, and its layout is the one of the channel.
  As long as every command has succeeded, every row of the device table has exactly one channel, its layout is the one in the shared memory,
  and every place that is not empty has a row.
\<close>

theorem channel_of_each_device:
  assumes "sql_process ok s"
  shows "(\<forall>i \<in> {1..40}. chn_nameid_map s ! i = zero_chn \<or>
      (\<exists>n d. chn_nameid_map s ! i = \<lparr>cm_validflag = 1, cm_ch = of_nat i, cm_nameid = n\<rparr> \<and> n \<noteq> 0
         \<and> dev_cells s ! (i - 1) = (2, d) \<and> di_nameid d = n \<and> di_description d = ext_layout i (di_sensor_type d)
         \<and> (\<forall>j \<in> {1..40}. cm_nameid (chn_nameid_map s ! j) = n \<longrightarrow> j = i)))
    \<and> (ok \<longrightarrow>
      (\<forall>k r. dev_rows s k = Some r \<longrightarrow>
        (\<exists>!i. i \<in> {1..40} \<and> chn_nameid_map s ! i = \<lparr>cm_validflag = 1, cm_ch = of_nat i, cm_nameid = word_of_int k\<rparr>)
        \<and> (\<exists>i \<in> {1..40}. \<exists>d. chn_nameid_map s ! i = \<lparr>cm_validflag = 1, cm_ch = of_nat i, cm_nameid = word_of_int k\<rparr>
             \<and> dev_cells s ! (i - 1) = (2, d) \<and> di_nameid d = word_of_int k
             \<and> di_description d = ext_layout i (di_sensor_type d) \<and> r 7 = di_description d))
      \<and> (\<forall>i \<in> {1..40}. dev_cells s ! (i - 1) = zero_cell \<or> dev_rows s (int (unat (di_nameid (snd (dev_cells s ! (i - 1)))))) \<noteq> None))"
proof -
  obtain t where t: "chn_inv t" "shadow s t" using process_keeps [OF assms] by blast
  have "chn_nameid_map s ! i = zero_chn \<or>
      (\<exists>n d. chn_nameid_map s ! i = \<lparr>cm_validflag = 1, cm_ch = of_nat i, cm_nameid = n\<rparr> \<and> n \<noteq> 0
         \<and> dev_cells s ! (i - 1) = (2, d) \<and> di_nameid d = n \<and> di_description d = ext_layout i (di_sensor_type d)
         \<and> (\<forall>j \<in> {1..40}. cm_nameid (chn_nameid_map s ! j) = n \<longrightarrow> j = i))" if "i \<in> {1..40}" for i
    using entries_agree [OF t that] by blast
  moreover have "ok \<longrightarrow> sql_reachable s" using process_keeps [OF assms] by blast
  ultimately show ?thesis by (intro conjI ballI impI [OF rows_agree]) simp_all
qed

text \<open>A run in which no command fails is a run of the process without failing commands.\<close>

lemma process_without_failure: "sql_reachable s \<Longrightarrow> sql_process True s"
proof (induction rule: sql_reachable.induct)
  case (sql_first s gw s')
  then show ?case by (rule process_first)
next
  case (sql_message s n xs ts status s')
  have inv: "chn_inv s" by (rule reachable_chn_inv [OF sql_message.hyps(1)])
  moreover have "shadow s s" using inv by (intro shadow_refl) (simp add: chn_inv_def)
  ultimately have "holds s n \<or> channels_taken s < 40" using holds_iff_row sql_message.hyps(4) by simp
  moreover have "status" using message_effect [OF inv sql_message.hyps(2-4), of ts] sql_message.hyps(5) by auto
  ultimately show ?case using process_message [OF sql_message.IH sql_message.hyps(2,3) _ sql_message.hyps(5)] by simp
next
  case (sql_delete s k ts status s')
  have "status"
    using dev_delete_effect [OF reachable_chn_inv [OF sql_delete.hyps(1)] sql_delete.hyps(2), of ts] sql_delete.hyps(3) by (auto split: if_splits)
  then show ?case using process_delete [OF sql_delete.IH sql_delete.hyps(2,3)] by simp
next
  case (sql_gateway s n)
  have inv: "chn_inv s" by (rule reachable_chn_inv [OF sql_gateway.hyps(1)])
  moreover have "\<not> holds s n"
  proof
    assume "holds s n"
    then obtain i where "i \<in> {1..40}" "taken s i" "holder s i = n" unfolding holds_def by blast
    then show False using taken_entry(3,4) [OF inv, of i] sint_small [of n] sql_gateway.hyps(2) by auto
  qed
  ultimately show ?case using process_gateway [OF sql_gateway.IH sql_gateway.hyps(2)] by blast
next
  case (sql_restart s n baud mode keys magic s')
  have "distinct keys" "(\<lambda>k. int (unat k)) ` set keys = dom (dev_rows s)" using sql_restart.hyps(4) by (simp_all add: lists_devices_def)
  then show ?case using process_restart [OF sql_restart.IH sql_restart.hyps(2,3) _ _ sql_restart.hyps(5)] by simp
qed

theorem channel_of_each_device_witness:
  "(\<exists>i \<in> {1..40}. chn_nameid_map (fill 40) ! i = \<lparr>cm_validflag = 1, cm_ch = of_nat i, cm_nameid = word_of_int 7\<rparr>)
   \<and> (\<exists>s. sql_process False s \<and> dev_rows s 1 = None \<and> (\<exists>i \<in> {1..40}. \<exists>d. dev_cells s ! (i - 1) = (2, d) \<and> di_nameid d = 1))"
proof
  have f: "sql_reachable (fill 40)" "\<forall>j \<in> {1..40}. \<exists>r. dev_rows (fill 40) (int j) = Some r" using fill_steps [of 40] by blast+
  have "\<exists>r. dev_rows (fill 40) (int 7) = Some r" using f(2) by (rule bspec) simp
  then have "\<exists>r. dev_rows (fill 40) 7 = Some r" by (simp only: of_nat_numeral)
  then obtain r where "dev_rows (fill 40) 7 = Some r" by blast
  then show "\<exists>i \<in> {1..40}. chn_nameid_map (fill 40) ! i = \<lparr>cm_validflag = 1, cm_ch = of_nat i, cm_nameid = word_of_int 7\<rparr>"
    using channel_of_each_device [OF process_without_failure [OF f(1)]] by blast
next
  have f: "sql_reachable (fill 0)" "dom (dev_rows (fill 0)) = {}" "holder (fill 0) 0 = 0" using fill_steps [of 0] by simp_all
  have inv: "chn_inv (fill 0)" by (rule reachable_chn_inv [OF f(1)])
  have z: "dev_rows (fill 0) k = None" for k using f(2) by blast
  have sh: "shadow (fill 0) (fill 0)" using inv by (intro shadow_refl) (simp only: chn_inv_def)
  have "\<not> holds (fill 0) 1" "channels_taken (fill 0) < 40" using holds_iff_row [OF inv sh] z f(2) by simp_all
  moreover have "message_ok 1 (sample_msg 1)" by (rule sample_msg_ok) simp_all
  ultimately obtain s where s: "sql_process False s" "holds s 1" "dev_rows s (int (unat (1 :: u32))) = None"
    using failed_insert_leaves_channel [OF process_without_failure [OF f(1)], of 1 "sample_msg 1" "[]"] f(3) z by auto
  then obtain i where i: "i \<in> {1..40}" "chn_nameid_map s ! i \<noteq> zero_chn" "cm_nameid (chn_nameid_map s ! i) = 1"
    unfolding holds_def taken_def holder_def by blast
  have "\<exists>d. dev_cells s ! (i - 1) = (2, d) \<and> di_nameid d = 1"
    using channel_of_each_device [OF s(1), THEN conjunct1, THEN bspec, OF i(1)] i(2,3) by auto
  then show "\<exists>s. sql_process False s \<and> dev_rows s 1 = None \<and> (\<exists>i \<in> {1..40}. \<exists>d. dev_cells s ! (i - 1) = (2, d) \<and> di_nameid d = 1)"
    using s(1,3) i(1) by (intro exI [of _ s] conjI bexI [of _ i]) simp_all
qed

end
