(* ===== verification/Sql_Serve.thy ===== *)
theory Sql_Serve
  imports Sql_Channels
begin

text \<open>
  What the channels of the database process are good for: a restart finds the same channels again, and the Modbus slave serves every
  sensor that is not a Pro sensor at the registers of its channel.
\<close>

section \<open>Channels and restarts\<close>

text \<open>
  C7: a restart of the database process in a reachable state of the extensible mode finds every channel again: whatever the order in which
  the database lists the devices and whether the shared memory has survived or not, the start succeeds, the channels belong to the same
  devices, and every place of the shared memory has the same name number and the same layout string as before.
\<close>

theorem restart_keeps_channels:
  assumes "sql_reachable s" "ext_gateway (n, baud, mode)" "dev_rows s (sint n) = None" "lists_devices keys s"
  shows "\<exists>s'. sql_start (Some (n, baud, mode)) keys magic s = Some s'
    \<and> (\<forall>i \<in> {1..40}. chn_nameid_map s' ! i = chn_nameid_map s ! i
        \<and> fst (dev_cells s' ! (i - 1)) = fst (dev_cells s ! (i - 1))
        \<and> di_nameid (snd (dev_cells s' ! (i - 1))) = di_nameid (snd (dev_cells s ! (i - 1)))
        \<and> di_description (snd (dev_cells s' ! (i - 1))) = di_description (snd (dev_cells s ! (i - 1))))"
proof -
  have inv: "chn_inv s" by (rule reachable_chn_inv [OF assms(1)])
  obtain s' where s': "sql_start (Some (n, baud, mode)) keys magic s = Some s'" "chn_inv s'" "dev_rows s' = dev_rows s"
    "\<forall>i \<in> {1..40}. chn_nameid_map s' ! i = chn_nameid_map s ! i"
    using restart_effect [OF inv assms(2-4)] by blast
  have "fst (dev_cells s' ! (i - 1)) = fst (dev_cells s ! (i - 1))
      \<and> di_nameid (snd (dev_cells s' ! (i - 1))) = di_nameid (snd (dev_cells s ! (i - 1)))
      \<and> di_description (snd (dev_cells s' ! (i - 1))) = di_description (snd (dev_cells s ! (i - 1)))" if i: "i \<in> {1..40}" for i
  proof -
    have m: "taken s' i \<longleftrightarrow> taken s i" "holder s' i = holder s i" using s'(4) i by (simp_all add: taken_def holder_def)
    show ?thesis
    proof (cases "taken s i")
      case True
      then show ?thesis
        using taken_entry(4) [OF inv i True] taken_entry(4) [OF s'(2) i] m s'(3) by auto
    next
      case False
      then show ?thesis using empty_place [OF inv i] empty_place [OF s'(2) i] m by simp
    qed
  qed
  then show ?thesis using s'(1,4) by blast
qed

section \<open>The slave\<close>

text \<open>Every block that the slave creates for the sensors comes from a valid layout string.\<close>

lemma sensor_blocks_from_layouts:
  assumes "create_sensor_mappings mem_ok k devs c = (rc, c')" "m \<in> set (mapping_queue c')" "m \<notin> set (mapping_queue c)"
  shows "\<exists>dev \<in> set devs. let L = app_mslave_ipc_get_sdata_layout_info c dev in
     is_valid L \<and> start_registers m = unat (addr L) \<and> nb_registers m = unat (regnum L)"
  using assms
proof (induction devs arbitrary: k c)
  case (Cons dev devs)
  let ?L = "app_mslave_ipc_get_sdata_layout_info c dev"
  show ?case
  proof (cases "is_valid ?L \<and> unat (addr ?L) + unat (regnum ?L) \<le> 0xFFFF")
    case False
    then have "create_sensor_mappings mem_ok k devs c = (rc, c')"
      using Cons.prems(1) by (auto simp: Let_def split: if_splits)
    from Cons.IH [OF this Cons.prems(2,3)] show ?thesis by auto
  next
    case True
    show ?thesis
    proof (cases "modbus_mapping_new_start_address (mem_ok k) 0 0 0 0 (unat (addr ?L)) (unat (regnum ?L)) 0 0")
      case None
      then show ?thesis using True Cons.prems by (auto simp: Let_def)
    next
      case (Some b)
      then have c: "create_sensor_mappings mem_ok (Suc k) devs (c\<lparr>mapping_queue := mapping_queue c @ [b]\<rparr>) = (rc, c')"
        using True Cons.prems(1) by (auto simp: Let_def)
      have b: "start_registers b = unat (addr ?L)" "nb_registers b = unat (regnum ?L)" using Some by (auto simp: new_holding)
      show ?thesis
      proof (cases "m = b")
        case True
        then show ?thesis using b \<open>is_valid ?L \<and> _\<close> by (auto simp: Let_def)
      next
        case False
        then show ?thesis using Cons.IH [OF c Cons.prems(2)] Cons.prems(3) by (auto simp: layout_frame)
      qed
    qed
  qed
qed simp

text \<open>The layout of a place, as the slave reads it from the array of 70 characters.\<close>

definition slave_view :: "appShmDataItem_dev \<Rightarrow> u32 \<times> deviceTableData_t" where
  "slave_view cell = (fst cell, \<lparr>dev_nameId = di_nameid (snd cell), dev_name = char_array (di_name (snd cell)),
     dev_description = char_array (di_description (snd cell))\<rparr>)"

lemma layout_of_cell:
  assumes "i \<in> {1..40}" "di_description d = ext_layout i t" "t \<noteq> TYPE_STR_INSIGHT_PP" "\<not> flg (g_reg_mapping_info c)"
  shows "\<exists>st. app_mslave_ipc_get_sdata_layout_info c (snd (slave_view (2, d))) =
    \<lparr>is_valid = True, nameid = di_nameid d, ch = of_nat i, addr = of_nat (0x80 * i), regnum = 0x80, stype = st\<rparr>"
proof -
  have b: "i < 256" "0x80 * i < 65536" "(0x80 :: nat) < 256" using assms(1) by auto
  have ty: "shm_get_sensor_type_str t = type_PRS \<or> shm_get_sensor_type_str t = type_ITS"
    using assms(3) by (auto simp: shm_get_sensor_type_str_def)
  have d: "dev_description (snd (slave_view (2, d))) =
      build_name i (0x80 * i) 0x80 (shm_get_sensor_type_str t) @ replicate (70 - length (di_description d)) 0"
    by (simp add: slave_view_def char_array_def assms(2) ext_layout_eq)
  have o: "add_offset (app_mslave_get_reg_mapping_offset c) a = a" for a
    using assms(4) by (simp add: add_offset_def app_mslave_get_reg_mapping_offset_def unsigned_less [THEN less_imp_le])
  show ?thesis
    using sdata_layout_value [OF b ty d, of c] by (simp add: o slave_view_def)
qed

lemma pro_layout_invalid:
  assumes "i \<in> {1..40}" "di_description d = ext_layout i TYPE_STR_INSIGHT_PP"
  shows "\<not> is_valid (app_mslave_ipc_get_sdata_layout_info c (snd (slave_view (2, d))))"
proof -
  have "shm_get_sensor_type_str TYPE_STR_INSIGHT_PP = type_PRO"
    by (auto simp: shm_get_sensor_type_str_def TYPE_STR_INSIGHT_PP_def TYPE_STR_INSIGHT_P_def ascii_def)
  then have d: "dev_description (snd (slave_view (2, d))) =
      build_name i (0x80 * i) 0x80 type_PRO @ replicate (70 - length (di_description d)) 0"
    by (simp add: slave_view_def char_array_def assms(2) ext_layout_eq)
  have t: "length type_PRO = 3" "type_PRO \<noteq> type_PRS" "type_PRO \<noteq> type_ITS" by (auto simp: type_PRO_def type_PRS_def type_ITS_def)
  show ?thesis
    unfolding app_mslave_ipc_get_sdata_layout_info_def d Let_def take3_drop16_build_name [OF t(1)]
    using t(2,3) by (simp add: zero_layout_def)
qed

lemma zero_dev_invalid: "\<not> is_valid (app_mslave_ipc_get_sdata_layout_info c zero_dev)"
  by (simp add: app_mslave_ipc_get_sdata_layout_info_def zero_dev_def zero_layout_def util_tool_is_hex_char_def Let_def)

text \<open>What the slave holds after it has loaded the device table: the places of the shared memory, without the empty ones.\<close>

definition reads_places :: "shm_abi \<Rightarrow> bytes \<Rightarrow> sql_state \<Rightarrow> bool" where
  "reads_places abi shm s \<longleftrightarrow> (\<forall>i < 40. dev_item abi (shm_slice shm (APP_SHM_DEV_TABLE_ADDR_OFFSET + i * APP_SHM_DEV_TABLE_ITEM_SIZE)
     (APP_SHM_DEV_TABLE_ITEM_SIZE mod SZ_IPC_BUF)) = slave_view (dev_cells s ! i))"

lemma slave_devices:
  assumes inv: "chn_inv s" and rd: "reads_places abi shm s" and len: "length (dev_array c) = 40"
    and load: "to_load_devlist_from_shmem abi shm c = (ERR_NONE, c1)" "dev_hash c1 \<noteq> dev_hash c"
  shows "length (dev_array c1) = 40"
    "i \<in> {1..40} \<Longrightarrow> dev_array c1 ! (i - 1) = (if taken s i then snd (slave_view (dev_cells s ! (i - 1))) else zero_dev)"
proof -
  have c1: "dev_array c1 = fold (load_dev_item abi shm) [0..<40] (dev_array c)"
    using load unfolding to_load_devlist_from_shmem_def Let_def
    by (auto simp: APP_SHM_DEV_TABLE_ITEM_MAX_def simp del: upt_Suc split: if_splits)
  have items: "length (fold (load_dev_item abi shm) [0..<40] (dev_array c)) = 40"
    "\<forall>i < 40. fold (load_dev_item abi shm) [0..<40] (dev_array c) ! i = load_dev_item abi shm i (dev_array c) ! i"
    using load_dev_items [of 40 "dev_array c" abi shm] len by auto
  show "length (dev_array c1) = 40" using items(1) c1 by (simp only:)
  assume i: "i \<in> {1..40}"
  then have "dev_array c1 ! (i - 1) = load_dev_item abi shm (i - 1) (dev_array c) ! (i - 1)" using items(2) c1 by auto
  also have "\<dots> = (let (ty, dev) = slave_view (dev_cells s ! (i - 1)) in
      if ty \<noteq> GW_PRO_TABLE_IDX_MNGED_DEVICE_LIST_TABLE then zero_dev else if \<not> is_dev_info_valid dev then zero_dev else dev)"
  proof -
    have "i - 1 < 40" using i by auto
    then show ?thesis using rd len by (auto simp: load_dev_item_def reads_places_def Let_def split: prod.splits)
  qed
  also have "\<dots> = (if taken s i then snd (slave_view (dev_cells s ! (i - 1))) else zero_dev)"
  proof (cases "taken s i")
    case True
    obtain d where "dev_cells s ! (i - 1) = (2, d)" "di_nameid d = holder s i" using taken_entry(4) [OF inv i True] by blast
    then show ?thesis
      using True taken_entry(2) [OF inv i True]
      by (simp add: slave_view_def is_dev_info_valid_def GW_PRO_TABLE_IDX_MNGED_DEVICE_LIST_TABLE_def)
  next
    case False
    then show ?thesis using empty_place [OF inv i False] by (simp add: slave_view_def zero_cell_def GW_PRO_TABLE_IDX_MNGED_DEVICE_LIST_TABLE_def)
  qed
  finally show "dev_array c1 ! (i - 1) = (if taken s i then snd (slave_view (dev_cells s ! (i - 1))) else zero_dev)" .
qed

lemma unat_address: "n < 65536 \<Longrightarrow> unat (of_nat n :: u16) = n"
  by (simp add: unat_of_nat)

lemma aligned_block: "0x80 * i + x \<in> {0x80 * j ..< 0x80 * j + 0x80} \<Longrightarrow> x < 0x80 \<Longrightarrow> j = (i :: nat)"
  by auto

lemma created_queue:
  assumes "to_create_extensible_reg_mapping_v2 mem_ok c1 = (ERR_NONE, c2)" "\<not> flg (g_reg_mapping_info c1)"
  obtains g where "modbus_mapping_new_start_address (mem_ok 0) 0 0 0 0 (unat (addr (app_mslave_ipc_get_gwconf_layout_info c1 (gwconf c1))))
      (unat (regnum (app_mslave_ipc_get_gwconf_layout_info c1 (gwconf c1)))) 0 0 = Some g"
    "create_sensor_mappings mem_ok 1 (take 40 (dev_array c1)) (c1\<lparr>mapping_queue := [g]\<rparr>) = (ERR_NONE, c2)"
proof -
  let ?G = "app_mslave_ipc_get_gwconf_layout_info c1 (gwconf c1)"
  obtain g c3 where g: "modbus_mapping_new_start_address (mem_ok 0) 0 0 0 0 (unat (addr ?G)) (unat (regnum ?G)) 0 0 = Some g"
      "create_sensor_mappings mem_ok 1 (take 40 (dev_array c1)) (c1\<lparr>mapping_queue := [g]\<rparr>) = (ERR_NONE, c3)"
      "create_remap_block (mem_ok 41) c3 = (ERR_NONE, c2)"
    using assms(1)
    by (auto simp: to_create_extensible_reg_mapping_v2_def Let_def layout_frame
        app_mslave_release_mapping_none_thread_safe_def split: if_splits option.splits prod.splits)
  obtain ms where "c3 = c1\<lparr>mapping_queue := g # ms\<rparr>" using create_sensor_mappings_appends [OF g(2)] by auto
  then have "c2 = c3" using g(3) assms(2) by (auto simp: create_remap_block_def Let_def)
  then show thesis using g that by blast
qed

lemma layout_of_place:
  assumes inv: "chn_inv s" and dev: "length (dev_array c1) = 40"
    "\<And>i. i \<in> {1..40} \<Longrightarrow> dev_array c1 ! (i - 1) = (if taken s i then snd (slave_view (dev_cells s ! (i - 1))) else zero_dev)"
    and flg: "\<not> flg (g_reg_mapping_info c1)" and d: "dev \<in> set (take 40 (dev_array c1))" "is_valid (app_mslave_ipc_get_sdata_layout_info c1 dev)"
  shows "\<exists>i \<in> {1..40}. addr (app_mslave_ipc_get_sdata_layout_info c1 dev) = of_nat (0x80 * i)
    \<and> regnum (app_mslave_ipc_get_sdata_layout_info c1 dev) = 0x80"
proof -
  obtain l where l: "l < 40" "dev = dev_array c1 ! l" using d(1) dev(1) by (auto simp: in_set_conv_nth)
  define i where "i = Suc l"
  have i: "i \<in> {1..40}" "dev = dev_array c1 ! (i - 1)" using l by (auto simp: i_def)
  have t: "taken s i" using d(2) i dev(2) [OF i(1)] zero_dev_invalid by (auto split: if_splits)
  obtain a where a: "dev_cells s ! (i - 1) = (2, a)" "di_description a = ext_layout i (di_sensor_type a)"
    using taken_entry(4) [OF inv i(1) t] by blast
  have v: "dev = snd (slave_view (2, a))" using i(2) dev(2) [OF i(1)] t a(1) by simp
  have "di_sensor_type a \<noteq> TYPE_STR_INSIGHT_PP" using pro_layout_invalid [OF i(1), of a c1] a(2) d(2) v by auto
  then show ?thesis using layout_of_cell [OF i(1) a(2) _ flg] v i(1) by auto
qed

lemma blocks_aligned:
  assumes inv: "chn_inv s" and dev: "length (dev_array c1) = 40"
    "\<And>i. i \<in> {1..40} \<Longrightarrow> dev_array c1 ! (i - 1) = (if taken s i then snd (slave_view (dev_cells s ! (i - 1))) else zero_dev)"
    and gw: "gw_description (gwconf c1) = build_name 0 0 0x80 type_GWY @ rest" and flg: "\<not> flg (g_reg_mapping_info c1)"
    and create: "to_create_extensible_reg_mapping_v2 mem_ok c1 = (ERR_NONE, c2)" and m: "m \<in> set (mapping_queue c2)"
  shows "\<exists>j. start_registers m = 0x80 * j \<and> nb_registers m = 0x80 \<and> j \<le> 40"
proof -
  obtain g where g: "modbus_mapping_new_start_address (mem_ok 0) 0 0 0 0 (unat (addr (app_mslave_ipc_get_gwconf_layout_info c1 (gwconf c1))))
      (unat (regnum (app_mslave_ipc_get_gwconf_layout_info c1 (gwconf c1)))) 0 0 = Some g"
    "create_sensor_mappings mem_ok 1 (take 40 (dev_array c1)) (c1\<lparr>mapping_queue := [g]\<rparr>) = (ERR_NONE, c2)"
    by (rule created_queue [OF create flg])
  have "app_mslave_get_reg_mapping_offset c1 = 0" using flg by (simp add: app_mslave_get_reg_mapping_offset_def)
  then have gg: "start_registers g = 0" "nb_registers g = 0x80"
    using g(1) gwconf_layout_value [of 0 0 "0x80" "gwconf c1" rest c1] gw by (auto simp: new_holding add_offset_def)
  show ?thesis
  proof (cases "m = g")
    case True
    then show ?thesis using gg by auto
  next
    case False
    obtain dv where dv: "dv \<in> set (take 40 (dev_array c1))" "is_valid (app_mslave_ipc_get_sdata_layout_info c1 dv)"
      "start_registers m = unat (addr (app_mslave_ipc_get_sdata_layout_info c1 dv))"
      "nb_registers m = unat (regnum (app_mslave_ipc_get_sdata_layout_info c1 dv))"
      using sensor_blocks_from_layouts [OF g(2) m] False by (auto simp: Let_def layout_frame)
    obtain i where "i \<in> {1..40}" "addr (app_mslave_ipc_get_sdata_layout_info c1 dv) = of_nat (0x80 * i)"
      "regnum (app_mslave_ipc_get_sdata_layout_info c1 dv) = 0x80"
      using layout_of_place [OF inv dev flg dv(1,2)] by blast
    then show ?thesis using dv(3,4) unat_address [of "0x80 * i"] by (intro exI [of _ i]) (auto simp del: of_nat_mult)
  qed
qed

lemma block_of_row:
  assumes inv: "chn_inv s" and dev: "length (dev_array c1) = 40"
    "\<And>i. i \<in> {1..40} \<Longrightarrow> dev_array c1 ! (i - 1) = (if taken s i then snd (slave_view (dev_cells s ! (i - 1))) else zero_dev)"
    and flg: "\<not> flg (g_reg_mapping_info c1)" and create: "to_create_extensible_reg_mapping_v2 mem_ok c1 = (ERR_NONE, c2)"
    and i: "i \<in> {1..40}" "taken s i" "k = int (unat (holder s i))" and row: "dev_rows s k = Some r" "take 68 (r 6) \<noteq> TYPE_STR_INSIGHT_PP"
  shows "\<exists>m \<in> set (mapping_queue c2). start_registers m = 0x80 * i \<and> nb_registers m = 0x80"
proof -
  obtain g where g:
    "create_sensor_mappings mem_ok 1 (take 40 (dev_array c1)) (c1\<lparr>mapping_queue := [g]\<rparr>) = (ERR_NONE, c2)"
    by (rule created_queue [OF create flg])
  obtain a where a: "dev_cells s ! (i - 1) = (2, a)" "di_description a = ext_layout i (di_sensor_type a)" "di_sensor_type a = take 68 (r 6)"
    using taken_entry(4) [OF inv i(1,2)] row(1) i(3) by auto
  let ?dev = "dev_array c1 ! (i - 1)"
  have v: "?dev = snd (slave_view (2, a))" using dev(2) [OF i(1)] i(2) a(1) by simp
  have t: "di_sensor_type a \<noteq> TYPE_STR_INSIGHT_PP" using a(3) row(2) by simp
  obtain st where L: "app_mslave_ipc_get_sdata_layout_info c1 ?dev =
    \<lparr>is_valid = True, nameid = di_nameid a, ch = of_nat i, addr = of_nat (0x80 * i), regnum = 0x80, stype = st\<rparr>"
    using layout_of_cell [OF i(1) a(2) t flg] v by auto
  have "?dev \<in> set (take 40 (dev_array c1))" using i(1) dev(1) by (auto simp: in_set_conv_nth intro!: exI [of _ "i - 1"])
  moreover have u: "unat (of_nat (0x80 * i) :: u16) = 0x80 * i" by (rule unat_address) (use i(1) in simp)
  obtain ms where ms: "c2 = c1\<lparr>mapping_queue := g # ms\<rparr>"
    "\<forall>dev \<in> set (take 40 (dev_array c1)).
       (let L = app_mslave_ipc_get_sdata_layout_info (c1\<lparr>mapping_queue := [g]\<rparr>) dev in is_valid L \<and> unat (addr L) + unat (regnum L) \<le> 0xFFFF \<longrightarrow>
       (\<exists>m \<in> set ms. start_registers m = unat (addr L) \<and> nb_registers m = unat (regnum L)))"
    using create_sensor_mappings_appends [OF g] by auto
  have "is_valid (app_mslave_ipc_get_sdata_layout_info c1 ?dev) \<and> unat (addr (app_mslave_ipc_get_sdata_layout_info c1 ?dev)) = 0x80 * i
    \<and> unat (regnum (app_mslave_ipc_get_sdata_layout_info c1 ?dev)) = 0x80" unfolding L using u by simp
  then have "\<exists>m \<in> set ms. start_registers m = 0x80 * i \<and> nb_registers m = 0x80"
    using ms(2) [unfolded Let_def layout_frame, rule_format, OF calculation] i(1) by simp
  then show ?thesis using ms(1) by auto
qed

lemma served_at_channel:
  assumes reach: "sql_reachable s" and rd: "reads_places abi shm s" and len: "length (dev_array c) = 40"
    and load: "to_load_devlist_from_shmem abi shm c = (ERR_NONE, c1)" "dev_hash c1 \<noteq> dev_hash c"
    and gw: "gw_description (gwconf c1) = build_name 0 0 0x80 type_GWY @ rest" and flg: "\<not> flg (g_reg_mapping_info c1)"
    and create: "to_create_extensible_reg_mapping_v2 mem_ok c1 = (ERR_NONE, c2)"
    and row: "dev_rows s k = Some r" "take 68 (r 6) \<noteq> TYPE_STR_INSIGHT_PP" and x: "x < 0x80"
  shows "\<exists>i \<in> {1..40}. chn_nameid_map s ! i = \<lparr>cm_validflag = 1, cm_ch = of_nat i, cm_nameid = word_of_int k\<rparr>
    \<and> (\<exists>q. app_mslave_locate_mapping c2 (of_nat (0x80 * i + x)) ADDR_GP_HOLDING_REGISTER = Some q
        \<and> start_registers (mapping_queue c2 ! q) = 0x80 * i \<and> nb_registers (mapping_queue c2 ! q) = 0x80)"
proof -
  have inv: "chn_inv s" by (rule reachable_chn_inv [OF reach])
  note dev = slave_devices [OF inv rd len load]
  obtain i where i: "i \<in> {1..40}" "taken s i" "k = int (unat (holder s i))" using row_has_place [OF inv] row(1) by blast
  have aligned: "\<exists>j. start_registers m = 0x80 * j \<and> nb_registers m = 0x80 \<and> j \<le> 40" if "m \<in> set (mapping_queue c2)" for m
    using blocks_aligned [OF inv dev gw flg create that] .
  have "\<exists>m \<in> set (mapping_queue c2). start_registers m = 0x80 * i \<and> nb_registers m = 0x80"
    by (rule block_of_row [OF inv dev flg create i row])
  then obtain m where m: "m \<in> set (mapping_queue c2)" "start_registers m = 0x80 * i" "nb_registers m = 0x80" by blast
  let ?a = "of_nat (0x80 * i + x) :: u16"
  have a: "unat ?a = 0x80 * i + x" by (rule unat_address) (use i(1) x in simp)
  have cover: "mapping_covers ?a ADDR_GP_HOLDING_REGISTER b \<longleftrightarrow> start_registers b \<le> 0x80 * i + x \<and> 0x80 * i + x < start_registers b + nb_registers b"
    if "b \<in> set (mapping_queue c2)" for b
  proof -
    have "start_registers b + nb_registers b \<le> 0xFFFF" using aligned [OF that] by auto
    then show ?thesis by (rule covers_holding [of b ?a, unfolded a])
  qed
  have "app_mslave_locate_mapping c2 ?a ADDR_GP_HOLDING_REGISTER \<noteq> None"
    using m x cover [OF m(1)] by (auto simp: locate_None)
  then obtain q where q: "app_mslave_locate_mapping c2 ?a ADDR_GP_HOLDING_REGISTER = Some q" by blast
  then have mem: "mapping_queue c2 ! q \<in> set (mapping_queue c2)"
    and cov: "mapping_covers ?a ADDR_GP_HOLDING_REGISTER (mapping_queue c2 ! q)" by (simp_all add: locate_Some)
  obtain j where j: "start_registers (mapping_queue c2 ! q) = 0x80 * j" "nb_registers (mapping_queue c2 ! q) = 0x80"
    using aligned [OF mem] by blast
  have "j = i" using cov [unfolded cover [OF mem]] j x by (intro aligned_block [of i x]) simp_all
  then show ?thesis using i taken_entry(1) [OF inv i(1,2)] q j by auto
qed

text \<open>
  C5: the slave serves every sensor other than a Pro sensor at the registers of its channel: when it has loaded the device table that the
  database process has written in extensible mode, and its mappings were created without remapping, then for every such device of the database
  each of the 128 addresses of its channel is found in a block that starts at the channel's first address, so that different
  sensors never share a block, nor a sensor and the gateway.  The addresses and the length are those of the layout string as they stand: both
  programs take them as numbers of registers, whereas a comment in \<^verbatim>\<open>sh_mem.h\<close> calls them bytes that have to be halved before.
\<close>

theorem sensor_served_at_channel:
  assumes reach: "sql_reachable s" and rd: "reads_places abi shm s" and len: "length (dev_array c) = 40"
    and load: "to_load_devlist_from_shmem abi shm c = (ERR_NONE, c1)" "dev_hash c1 \<noteq> dev_hash c"
    and gw: "gw_description (gwconf c1) = build_name 0 0 0x80 type_GWY @ rest" and flg: "\<not> flg (g_reg_mapping_info c1)"
    and create: "to_create_extensible_reg_mapping_v2 mem_ok c1 = (ERR_NONE, c2)"
    and row: "dev_rows s k = Some r" "take 68 (r 6) \<noteq> TYPE_STR_INSIGHT_PP" and x: "x < 0x80"
  shows "\<exists>i \<in> {1..40}. chn_nameid_map s ! i = \<lparr>cm_validflag = 1, cm_ch = of_nat i, cm_nameid = word_of_int k\<rparr>
    \<and> (\<exists>q. app_mslave_locate_mapping c2 (of_nat (0x80 * i + x)) ADDR_GP_HOLDING_REGISTER = Some q
        \<and> start_registers (mapping_queue c2 ! q) = 0x80 * i \<and> nb_registers (mapping_queue c2 ! q) = 0x80)"
  by (rule served_at_channel [OF assms])

section \<open>The properties at work\<close>

theorem restart_keeps_channels_witness:
  "\<exists>s'. sql_start (Some (50, 9600, 0)) [2, 1] False (fill 2) = Some s' \<and> chn_nameid_map s' ! 1 = chn_nameid_map (fill 2) ! 1"
proof -
  note f = fill_steps [of 2]
  have d: "dom (dev_rows (fill 2)) = {1, 2}" using f by (auto simp: numeral_2_eq_2)
  then have "50 \<notin> dom (dev_rows (fill 2))" by simp
  then have "dev_rows (fill 2) (sint (50 :: u32)) = None" by (simp add: domIff)
  moreover have "lists_devices [2, 1] (fill 2)" unfolding lists_devices_def d by auto
  moreover have "ext_gateway (50, 9600, 0)" by (simp add: ext_gateway_def)
  ultimately show ?thesis using restart_keeps_channels [of "fill 2" 50 9600 0 "[2, 1]" False] f by fastforce
qed

lemma sample_first: "\<exists>r. dev_rows (fill 1) 1 = Some r \<and> r 6 = TYPE_STR_INSIGHT_T"
proof -
  have f: "sql_reachable (fill 0)" "dom (dev_rows (fill 0)) = {}" using fill_steps [of 0] by simp_all
  then have inv: "chn_inv (fill 0)" by (intro reachable_chn_inv)
  have b: "modbus_feature_enable (fill 0)" "g_modbus_reg_addr_mode (fill 0) = MODBUS_REG_ADDR_EXTENSIBLE_MODE" "length (dev_cells (fill 0)) = 41"
    using inv unfolding chn_inv_def by blast+
  have z: "dev_rows (fill 0) k = None" for k using f(2) by auto
  have m: "message_ok 1 (sample_msg 1)" by (rule sample_msg_ok) simp_all
  obtain i where i: "i \<in> {1..40}" "channel_for 1 (fill 0) = (i, (fill 0)\<lparr>chn_nameid_map := (chn_nameid_map (fill 0))[i :=
      \<lparr>cm_validflag = 1, cm_ch = of_nat i, cm_nameid = 1\<rparr>], assigned_chn_cnt := assigned_chn_cnt (fill 0) + 1\<rparr>)"
    using find_chn_new [OF inv, of 1] z f(2) by auto
  obtain d r where "dev_update_or_insert [] True False 1 (sample_msg 1) (fill 0) = Some (True, (fill 0)\<lparr>chn_nameid_map := (chn_nameid_map (fill 0))[i :=
      \<lparr>cm_validflag = 1, cm_ch = of_nat i, cm_nameid = 1\<rparr>], assigned_chn_cnt := assigned_chn_cnt (fill 0) + 1,
      dev_cells := (dev_cells (fill 0))[i - 1 := (2, d)], dev_rows := (dev_rows (fill 0))(int (unat (1 :: u32)) \<mapsto> r)\<rparr>)"
    "\<forall>t. (6, Data_char t) \<in> set (sample_msg 1) \<longrightarrow> r 6 = c_string t"
    using dev_write_effect [OF b m i(2), of False "[]" True] i(1) z by auto
  then show ?thesis
    using z type_T_chars(2) by (auto simp: One_nat_def dev_update_item_def sample_msg_def simp del: fill.simps(1))
qed

text \<open>Shared memory in which every place begins with its number, for the run with one device; a slave with a valid gateway reads it.\<close>

definition served_shm :: bytes where
  "served_shm = map (\<lambda>a. if 0x800 \<le> a \<and> (a - 0x800) mod 0x400 = 0 then of_nat ((a - 0x800) div 0x400) else 0) [0..<0x800 + 40 * 0x400]"

definition served_abi :: "shm_abi" where
  "served_abi = sample_abi\<lparr>dev_item := (\<lambda>b. slave_view (dev_cells (fill 1) ! unat (hd b)))\<rparr>"

definition served_ctr :: ctr where
  "served_ctr = init_ctr\<lparr>gwconf := sample_gw, dev_hash := util_tool_cal_elfhash (Some
     (shm_slice served_shm APP_SHM_DEV_TABLE_ADDR_OFFSET (APP_SHM_DEV_TABLE_ITEM_SIZE * APP_SHM_DEV_TABLE_ITEM_MAX))) + 1\<rparr>"

lemma served_places: "reads_places served_abi served_shm (fill 1)"
proof -
  have "hd (shm_slice served_shm (APP_SHM_DEV_TABLE_ADDR_OFFSET + i * APP_SHM_DEV_TABLE_ITEM_SIZE)
      (APP_SHM_DEV_TABLE_ITEM_SIZE mod SZ_IPC_BUF)) = of_nat i" if "i < 40" for i
  proof -
    have "0x800 + i * 0x400 < length served_shm" "served_shm ! (0x800 + i * 0x400) = of_nat i" using that by (simp_all add: served_shm_def)
    then show ?thesis by (simp add: shm_slice_def shm_sizes hd_take hd_drop_conv_nth)
  qed
  moreover have "unat (of_nat i :: u8) = i" if "i < 40" for i using that by (simp add: unat_of_nat)
  ultimately show ?thesis by (simp add: reads_places_def served_abi_def)
qed

lemma load_devlist_changed:
  assumes "sizeof_item abi < 0x400" "dev_hash c = util_tool_cal_elfhash (Some (shm_slice shm APP_SHM_DEV_TABLE_ADDR_OFFSET
     (APP_SHM_DEV_TABLE_ITEM_SIZE * APP_SHM_DEV_TABLE_ITEM_MAX))) + 1"
  obtains c1 where "to_load_devlist_from_shmem abi shm c = (ERR_NONE, c1)" "dev_hash c1 \<noteq> dev_hash c" "gwconf c1 = gwconf c"
    "g_reg_mapping_info c1 = g_reg_mapping_info c"
proof -
  obtain h where h: "util_tool_cal_elfhash (Some (shm_slice shm APP_SHM_DEV_TABLE_ADDR_OFFSET
     (APP_SHM_DEV_TABLE_ITEM_SIZE * APP_SHM_DEV_TABLE_ITEM_MAX))) = h" by blast
  obtain d where d: "fold (load_dev_item abi shm) [0..<APP_SHM_DEV_TABLE_ITEM_MAX] (dev_array c) = d" by blast
  have n: "h \<noteq> dev_hash c" using assms(2) unfolding h by simp
  have "\<not> sizeof_item abi \<ge> APP_SHM_DEV_TABLE_ITEM_SIZE" "\<not> APP_SHM_DEV_TABLE_ITEM_SIZE > SZ_IPC_BUF"
    using assms(1) by (simp_all add: APP_SHM_DEV_TABLE_ITEM_SIZE_def SZ_IPC_BUF_def)
  then have "to_load_devlist_from_shmem abi shm c = (ERR_NONE, c\<lparr>dev_array := d, dev_hash := h\<rparr>)"
    unfolding to_load_devlist_from_shmem_def Let_def h d using n by simp
  then show thesis using n by (intro that [of "c\<lparr>dev_array := d, dev_hash := h\<rparr>"]) simp_all
qed

lemma served_loaded:
  "\<exists>c1. to_load_devlist_from_shmem served_abi served_shm served_ctr = (ERR_NONE, c1) \<and> dev_hash c1 \<noteq> dev_hash served_ctr
     \<and> gwconf c1 = sample_gw \<and> \<not> flg (g_reg_mapping_info c1)"
proof -
  have c: "gwconf served_ctr = sample_gw" "\<not> flg (g_reg_mapping_info served_ctr)" "sizeof_item served_abi < 0x400"
    by (simp_all add: served_ctr_def served_abi_def init_ctr_def g_mslave_ctr_def zero_remap_def)
  show ?thesis
    by (rule load_devlist_changed [OF c(3), of served_ctr served_shm]) (use c in \<open>auto simp: served_ctr_def\<close>)
qed

lemma create_sensor_mappings_memory: "\<exists>c'. create_sensor_mappings (\<lambda>_. True) k devs c = (ERR_NONE, c')"
  by (induction devs arbitrary: k c) (auto simp: Let_def modbus_mapping_new_start_address_def)

lemma created_with_memory:
  assumes "gwconf c = sample_gw" "\<not> flg (g_reg_mapping_info c)"
  shows "\<exists>c'. to_create_extensible_reg_mapping_v2 (\<lambda>_. True) c = (ERR_NONE, c')"
proof -
  let ?c = "app_mslave_release_mapping_none_thread_safe c"
  have c: "gwconf ?c = sample_gw" "\<not> flg (g_reg_mapping_info ?c)" using assms by (simp_all add: app_mslave_release_mapping_none_thread_safe_def)
  then have "app_mslave_get_reg_mapping_offset ?c = 0" by (simp add: app_mslave_get_reg_mapping_offset_def)
  then have L: "app_mslave_ipc_get_gwconf_layout_info ?c (gwconf ?c) =
      \<lparr>is_valid = True, nameid = 9, ch = 0, addr = 0, regnum = 0x80, stype = STYPE_GW\<rparr>"
    using gwconf_layout_value [of 0 0 "0x80" sample_gw "[0]" ?c] c(1) by (simp add: sample_gw_def add_offset_def)
  obtain m where m: "modbus_mapping_new_start_address True 0 0 0 0 0 128 0 0 = Some m" by (simp add: modbus_mapping_new_start_address_def)
  let ?c2 = "?c\<lparr>mapping_queue := mapping_queue ?c @ [m]\<rparr>"
  obtain c' where c': "create_sensor_mappings (\<lambda>_. True) 1 (take 40 (dev_array ?c2)) ?c2 = (ERR_NONE, c')"
    using create_sensor_mappings_memory by blast
  obtain ms where "c' = ?c2\<lparr>mapping_queue := mapping_queue ?c2 @ ms\<rparr>" using create_sensor_mappings_appends [OF c'] by auto
  then have "\<not> flg (g_reg_mapping_info c')" using c(2) by simp
  then have "to_create_extensible_reg_mapping_v2 (\<lambda>_. True) c = (ERR_NONE, c')"
    unfolding to_create_extensible_reg_mapping_v2_def Let_def L using m c' by (simp add: create_remap_block_def)
  then show ?thesis by blast
qed

theorem sensor_served_at_channel_witness:
  "\<exists>c1 c2 i q. to_load_devlist_from_shmem served_abi served_shm served_ctr = (ERR_NONE, c1)
     \<and> to_create_extensible_reg_mapping_v2 (\<lambda>_. True) c1 = (ERR_NONE, c2)
     \<and> i \<in> {1..40} \<and> chn_nameid_map (fill 1) ! i = \<lparr>cm_validflag = 1, cm_ch = of_nat i, cm_nameid = 1\<rparr>
     \<and> app_mslave_locate_mapping c2 (of_nat (0x80 * i + 5)) ADDR_GP_HOLDING_REGISTER = Some q
     \<and> start_registers (mapping_queue c2 ! q) = 0x80 * i"
proof -
  have f: "sql_reachable (fill 1)" using fill_steps [of 1] by simp
  obtain r where r: "dev_rows (fill 1) 1 = Some r" "r 6 = TYPE_STR_INSIGHT_T" using sample_first by blast
  have t: "take 68 (r 6) \<noteq> TYPE_STR_INSIGHT_PP" using r(2) type_T_chars(3) type_strings by simp
  obtain c1 where c1: "to_load_devlist_from_shmem served_abi served_shm served_ctr = (ERR_NONE, c1)" "dev_hash c1 \<noteq> dev_hash served_ctr"
    "gwconf c1 = sample_gw" "\<not> flg (g_reg_mapping_info c1)" using served_loaded by blast
  obtain c2 where c2: "to_create_extensible_reg_mapping_v2 (\<lambda>_. True) c1 = (ERR_NONE, c2)" using created_with_memory [OF c1(3,4)] by blast
  have len: "length (dev_array served_ctr) = 40" by (simp add: served_ctr_def)
  have gw: "gw_description (gwconf c1) = build_name 0 0 0x80 type_GWY @ [0]" by (simp add: c1(3) sample_gw_def)
  show ?thesis
  proof -
    have five: "5 < (0x80 :: nat)" by simp
    obtain i q where "i \<in> {1..40}" "chn_nameid_map (fill 1) ! i = \<lparr>cm_validflag = 1, cm_ch = of_nat i, cm_nameid = word_of_int 1\<rparr>"
      "app_mslave_locate_mapping c2 (of_nat (0x80 * i + 5)) ADDR_GP_HOLDING_REGISTER = Some q"
      "start_registers (mapping_queue c2 ! q) = 0x80 * i"
      using sensor_served_at_channel [OF f served_places len c1(1,2) gw c1(4) c2 r(1) t five] by blast
    moreover have "word_of_int 1 = (1 :: u32)" by simp
    ultimately show ?thesis using c1(1) c2 by metis
  qed
qed

end
