(* ===== verification/Sql_Limits.thy ===== *)
theory Sql_Limits
  imports Sql_Channels
begin

text \<open>
  Where the database process reaches its limits: the 41st device in extensible mode, and the places that the efficient mode chooses.
\<close>

section \<open>More devices than channels\<close>

lemma all_taken:
  assumes "chn_inv s" "card (dom (dev_rows s)) = 40" "i \<in> {1..40}"
  shows "taken s i"
proof -
  have "card {i \<in> {1..40}. taken s i} = card {1..40 :: nat}" using assms(2) rows_taken(2) [OF assms(1)] by simp
  then have "{i \<in> {1..40}. taken s i} = {1..40}" by (intro card_subset_eq) auto
  then show ?thesis using assms(3) by blast
qed

lemma channel_for_41:
  assumes inv: "chn_inv s" and full: "card (dom (dev_rows s)) = 40" and n: "n \<noteq> 0" "dev_rows s (int (unat n)) = None"
  shows "channel_for n s = (if assigned_chn_cnt s = 40 then (41, s)
     else (40, s\<lparr>chn_nameid_map := (chn_nameid_map s)[40 := \<lparr>cm_validflag = 1, cm_ch = 40, cm_nameid = n\<rparr>]\<rparr>))"
    "assigned_chn_cnt s = 40 \<or> assigned_chn_cnt s = 41"
proof -
  have "free_chn (chn_nameid_map s) = None"
    unfolding free_chn_def find_upt_None
  proof (intro allI impI notI)
    fix l assume l: "1 \<le> l \<and> l < BULLET_GW_SENSOR_NUM_MAX + 1" "cm_nameid (chn_nameid_map s ! l) = 0 \<and> cm_ch (chn_nameid_map s ! l) = 0"
    then have "l \<in> {1..40}" by (auto simp: BULLET_GW_SENSOR_NUM_MAX_def)
    then show False using taken_entry(2) [OF inv _ all_taken [OF inv full]] l(2) by (simp add: holder_def)
  qed
  moreover have "\<exists>g \<le> 1. unat (assigned_chn_cnt s) = g + 40"
    using inv full rows_taken(2) [OF inv] by (simp add: chn_inv_def)
  then have cnt: "unat (assigned_chn_cnt s) = 40 \<or> unat (assigned_chn_cnt s) = 41" by auto
  then show c: "assigned_chn_cnt s = 40 \<or> assigned_chn_cnt s = 41"
    using unsigned_word_eqI [of "assigned_chn_cnt s" 40] unsigned_word_eqI [of "assigned_chn_cnt s" 41] by auto
  ultimately show "channel_for n s = (if assigned_chn_cnt s = 40 then (41, s)
     else (40, s\<lparr>chn_nameid_map := (chn_nameid_map s)[40 := \<lparr>cm_validflag = 1, cm_ch = 40, cm_nameid = n\<rparr>]\<rparr>))"
    using c find_chn_absent [OF inv n] by (auto simp: channel_for_def assign_chn_def BULLET_GW_SENSOR_NUM_MAX_def)
qed

text \<open>
  C14: a 41st device is neither rejected nor served: its row is inserted, and when the gateway is not counted it gets channel 41 without
  an entry and its item overwrites the memory behind the device table; otherwise it takes channel 40, and the device that had this channel
  keeps its row but has no channel and no place in the shared memory any more.
\<close>

theorem device_41_displaces:
  assumes reach: "sql_reachable s" and full: "card (dom (dev_rows s)) = 40"
    and m: "message_ok n xs" "dev_rows s (int (unat n)) = None"
  shows "\<exists>s' d. dev_update_item ts True True n xs s = Some (True, s') \<and> dev_rows s' (int (unat n)) \<noteq> None \<and> di_nameid d = n \<and>
    (if assigned_chn_cnt s = 40
     then chn_nameid_map s' = chn_nameid_map s \<and> dev_cells s' = (dev_cells s)[40 := (2, d)] \<and> length (dev_cells s) = 41
     else dev_cells s' = (dev_cells s)[39 := (2, d)] \<and>
       (\<exists>k. dev_rows s' k \<noteq> None \<and> dev_rows s k \<noteq> None \<and> (\<forall>i \<in> {1..40}. int (unat (cm_nameid (chn_nameid_map s' ! i))) \<noteq> k
           \<and> int (unat (di_nameid (snd (dev_cells s' ! (i - 1))))) \<noteq> k)))"
proof -
  have inv: "chn_inv s" by (rule reachable_chn_inv [OF reach])
  have n: "n \<noteq> 0" "unat n < 2 ^ 31" using m(1) by (simp_all add: message_ok_def)
  note ch = channel_for_41 [OF inv full n(1) m(2)]
  have b: "modbus_feature_enable s" "g_modbus_reg_addr_mode s = MODBUS_REG_ADDR_EXTENSIBLE_MODE" "length (dev_cells s) = 41"
    "length (chn_nameid_map s) = 41"
    using inv by (simp_all add: chn_inv_def)
  have none: "dev_rows s (sint n) = None" using m(2) sint_small [OF n(2)] by simp
  have u: "dev_update_item ts True True n xs s = dev_update_or_insert ts True (dev_rows s (sint n) \<noteq> None) n xs s" using n(1) by (simp add: dev_update_item_def)
  show ?thesis
  proof (cases "assigned_chn_cnt s = 40")
    case True
    then have "channel_for n s = (41, s)" using ch(1) by simp
    then obtain d r where "dev_update_or_insert ts True (dev_rows s (sint n) \<noteq> None) n xs s = Some (True, s\<lparr>dev_cells := (dev_cells s)[41 - 1 := (2, d)],
        dev_rows := (dev_rows s)(int (unat n) \<mapsto> r)\<rparr>)" "di_nameid d = n"
      using dev_write_effect [OF b(1-3) m(1), of 41 s "dev_rows s (sint n) \<noteq> None" ts True] by auto
    then show ?thesis using True u b(3) by auto
  next
    case False
    let ?m = "(chn_nameid_map s)[40 := \<lparr>cm_validflag = 1, cm_ch = 40, cm_nameid = n\<rparr>]"
    from False have "channel_for n s = (40, s\<lparr>chn_nameid_map := ?m\<rparr>)" using ch(1) by simp
    then obtain d r where w: "dev_update_or_insert ts True (dev_rows s (sint n) \<noteq> None) n xs s =
        Some (True, s\<lparr>chn_nameid_map := ?m, dev_cells := (dev_cells s)[40 - 1 := (2, d)], dev_rows := (dev_rows s)(int (unat n) \<mapsto> r)\<rparr>)"
      "di_nameid d = n"
      using dev_write_effect [OF b(1-3) m(1), of 40 "s\<lparr>chn_nameid_map := ?m\<rparr>" "dev_rows s (sint n) \<noteq> None" ts True] by auto
    let ?k = "int (unat (holder s 40))"
    have t: "taken s i" if "i \<in> {1..40}" for i by (rule all_taken [OF inv full that])
    have k: "dev_rows s ?k \<noteq> None" using taken_entry(4) [OF inv _ t, of 40] by auto
    have kn: "?k \<noteq> int (unat n)" using k m(2) by auto
    have gone: "int (unat (cm_nameid (?m ! i))) \<noteq> ?k \<and> int (unat (di_nameid (snd ((dev_cells s)[39 := (2, d)] ! (i - 1))))) \<noteq> ?k"
      if i: "i \<in> {1..40}" for i
    proof (cases "i = 40")
      case True
      then show ?thesis using kn w(2) b by simp
    next
      case False
      have "holder s i \<noteq> holder s 40"
        using inv i t False inj_onD [of "holder s" "{i \<in> {1..40}. taken s i}" i 40] by (auto simp: chn_inv_def)
      then have h: "int (unat (holder s i)) \<noteq> ?k" using unsigned_word_eqI [of "holder s i" "holder s 40"] by auto
      have "di_nameid (snd (dev_cells s ! (i - 1))) = holder s i" using taken_entry(4) [OF inv i t [OF i]] by auto
      moreover have "(dev_cells s)[39 := (2, d)] ! (i - 1) = dev_cells s ! (i - 1)" "?m ! i = chn_nameid_map s ! i" using False i by auto
      ultimately show ?thesis using h by (simp only: holder_def not_False_eq_True simp_thms)
    qed
    show ?thesis using u w False k gone by (auto intro!: exI [of _ ?k])
  qed
qed

text \<open>The number 0 empties the table, but only the place of the gateway can be cleared.\<close>

lemma delete_0_keeps_places:
  assumes "chn_inv s"
  shows "\<exists>s'. dev_delete_item ts True 0 s = Some (True, s') \<and> dev_rows s' = Map.empty \<and> dev_cells s' = dev_cells s \<and> assigned_chn_cnt s' = assigned_chn_cnt s
    \<and> (\<forall>i \<in> {1..40}. chn_nameid_map s' ! i = chn_nameid_map s ! i)"
proof -
  have mode: "modbus_feature_enable s" "g_modbus_reg_addr_mode s = MODBUS_REG_ADDR_EXTENSIBLE_MODE" "cm_ch (chn_nameid_map s ! 0) = 0"
    "length (chn_nameid_map s) = 41"
    using assms by (simp_all add: chn_inv_def)
  have z: "(chn_nameid_map s)[i := zero_chn] ! l = chn_nameid_map s ! l \<and> cm_ch (chn_nameid_map s ! i) = 0"
    if i: "cm_nameid (chn_nameid_map s ! i) = 0" "i < 41" and l: "l \<in> {1..40}" for i l
  proof (cases "i = 0 \<or> \<not> taken s i")
    case True
    then show ?thesis using mode(3,4) l not_taken [of s i] i(2) by (cases "l = i") (auto simp: zero_chn_def)
  next
    case False
    then show ?thesis using taken_entry(2) [OF assms, of i] i by (auto simp: holder_def)
  qed
  show ?thesis
  proof (cases "List.find (\<lambda>i. cm_nameid (chn_nameid_map s ! i) = 0) [0..<BULLET_GW_SENSOR_NUM_MAX + 1]")
    case None
    then show ?thesis using mode by (simp add: dev_delete_item_def clear_chn_def sqlite_delete_dev_def)
  next
    case (Some i)
    then have i: "cm_nameid (chn_nameid_map s ! i) = 0" "i < 41" by (auto simp: find_upt BULLET_GW_SENSOR_NUM_MAX_def simp del: upt_Suc)
    have "cm_ch (chn_nameid_map s ! i) = 0" using z [OF i, of 1] by simp
    then show ?thesis using Some mode z [OF i] by (simp add: dev_delete_item_def clear_chn_def sqlite_delete_dev_def)
  qed
qed

section \<open>The places of the efficient mode\<close>

text \<open>
  The places taken have their blocks one behind the other, the first behind the three registers of the gateway.  Every block ends before
  register \<open>3 + 0x80 * i\<close>, so that no offset wraps around.
\<close>

definition block_end :: "efficient_chn_nameid_mapping_t \<Rightarrow> nat" where
  "block_end e = unat (em_offset e) + unat (em_len e)"

definition eff_blocks :: "efficient_chn_nameid_mapping_t list \<Rightarrow> bool" where
  "eff_blocks m \<longleftrightarrow> length m = 41
     \<and> (\<forall>i \<in> {1..40}. eff_free (m ! i) \<or>
          em_validflag (m ! i) = 1 \<and> em_ch (m ! i) = of_nat i \<and> 3 \<le> unat (em_offset (m ! i)) \<and> block_end (m ! i) \<le> 3 + 0x80 * i)
     \<and> (\<forall>i \<in> {1..40}. \<forall>j \<in> {i<..40}. eff_free (m ! i) \<or> eff_free (m ! j) \<or> block_end (m ! i) \<le> unat (em_offset (m ! j)))"

text \<open>Where the blocks before place \<^term>\<open>i\<close> end when all of these places are taken.\<close>

definition end_before :: "efficient_chn_nameid_mapping_t list \<Rightarrow> nat \<Rightarrow> nat" where
  "end_before m i = (if i = 1 then 3 else block_end (m ! (i - 1)))"

lemma eff_search_walk:
  assumes "\<forall>l. a \<le> l \<and> l < i \<longrightarrow> \<not> eff_free (m ! l)" "a \<le> i" "i \<le> 40"
  shows "eff_search m alen a f fl fo =
    (if a = i then eff_search m alen i f fl fo else eff_search m alen i f (em_len (m ! (i - 1))) (em_offset (m ! (i - 1))))"
  using assms
proof (induction "i - a" arbitrary: a fl fo)
  case (Suc k)
  then have "\<not> eff_free (m ! a)" "a < i" by auto
  then have "eff_search m alen a f fl fo = eff_search m alen (Suc a) f (em_len (m ! a)) (em_offset (m ! a))"
    using Suc.prems(3) by (subst eff_search.simps) (simp add: BULLET_GW_SENSOR_NUM_MAX_def)
  also have "\<dots> = (if Suc a = i then eff_search m alen i f (em_len (m ! a)) (em_offset (m ! a))
      else eff_search m alen i f (em_len (m ! (i - 1))) (em_offset (m ! (i - 1))))"
    using Suc.hyps(1) [of "Suc a"] Suc.hyps(2) Suc.prems \<open>a < i\<close> by simp
  finally show ?case using \<open>a < i\<close> by auto
qed simp

lemma eff_search_fits:
  assumes "i \<in> {1..40}" "eff_free (m ! i)"
    and fit: "\<forall>j \<in> {i<..40}. em_validflag (m ! j) \<noteq> 0 \<longrightarrow> unat fo + unat fl + unat alen \<le> unat (em_offset (m ! j))"
  shows "eff_search m alen i False fl fo = Some (Some (i, fo + ucast fl))"
proof (cases "next_occupied m i \<le> BULLET_GW_SENSOR_NUM_MAX")
  case True
  then obtain j where j: "next_occupied m i = j" "j \<le> 40" "i \<le> j" "em_validflag (m ! j) \<noteq> 0"
    by (auto simp: next_occupied_def find_upt BULLET_GW_SENSOR_NUM_MAX_def simp del: upt_Suc split: option.splits)
  have "j \<noteq> i" using j(4) assms(2) by (auto simp: eff_free_def)
  then have "unat fo + unat fl + unat alen \<le> unat (em_offset (m ! j))" using fit j by auto
  then have "int (unat fo + unat fl + unat alen) \<le> int (unat (em_offset (m ! j)))" by (simp only: of_nat_le_iff)
  then have "\<not> int (unat (em_offset (m ! j))) - int (unat fo) - int (unat fl) < int (unat alen)" by simp
  then show ?thesis
    using j assms(1,2) by (subst eff_search.simps) (simp add: BULLET_GW_SENSOR_NUM_MAX_def)
next
  case False
  then show ?thesis using assms(1,2) by (subst eff_search.simps) (simp add: BULLET_GW_SENSOR_NUM_MAX_def Let_def)
qed

lemma eff_search_first:
  assumes m: "eff_blocks m" and i: "i \<in> {1..40}" "eff_free (m ! i)" "\<forall>l \<in> {1..<i}. \<not> eff_free (m ! l)"
    and fit: "\<forall>j \<in> {i<..40}. eff_free (m ! j) \<or> end_before m i + unat alen \<le> unat (em_offset (m ! j))"
  shows "eff_search m alen 1 False DEV_REG_ADDR_LENGTH_GW 0 = Some (Some (i, of_nat (end_before m i)))"
proof -
  have occ: "\<forall>j \<in> {i<..40}. em_validflag (m ! j) \<noteq> 0 \<longrightarrow> end_before m i + unat alen \<le> unat (em_offset (m ! j))"
    using fit by (auto simp: eff_free_def)
  have walk: "eff_search m alen 1 False DEV_REG_ADDR_LENGTH_GW 0 =
    (if 1 = i then eff_search m alen i False DEV_REG_ADDR_LENGTH_GW 0 else eff_search m alen i False (em_len (m ! (i - 1))) (em_offset (m ! (i - 1))))"
    using i by (intro eff_search_walk) auto
  show ?thesis
  proof (cases "i = 1")
    case True
    then show ?thesis
      using walk eff_search_fits [OF i(1,2), of 0 DEV_REG_ADDR_LENGTH_GW alen] occ
      by (simp add: end_before_def DEV_REG_ADDR_LENGTH_GW_def)
  next
    case False
    have "of_nat (block_end (m ! (i - 1))) = em_offset (m ! (i - 1)) + (ucast (em_len (m ! (i - 1))) :: u16)"
      by (simp add: block_end_def)
    then show ?thesis
      using walk False eff_search_fits [OF i(1,2), of "em_offset (m ! (i - 1))" "em_len (m ! (i - 1))" alen] occ
      by (simp add: end_before_def block_end_def)
  qed
qed

lemma end_before_bound:
  assumes m: "eff_blocks m" and i: "i \<in> {1..40}" "\<forall>l \<in> {1..<i}. \<not> eff_free (m ! l)"
  shows "3 \<le> end_before m i \<and> end_before m i \<le> 3 + 0x80 * (i - 1)"
proof (cases "i = 1")
  case False
  then have "i - 1 \<in> {1..40}" "\<not> eff_free (m ! (i - 1))" using i by auto
  moreover have "3 \<le> unat (em_offset (m ! (i - 1)))" "block_end (m ! (i - 1)) \<le> 3 + 0x80 * (i - 1)"
    using m calculation unfolding eff_blocks_def by blast+
  ultimately show ?thesis using False by (simp add: end_before_def block_end_def)
qed (simp add: end_before_def)

lemma unat_end_before:
  assumes "eff_blocks m" "i \<in> {1..40}" "\<forall>l \<in> {1..<i}. \<not> eff_free (m ! l)"
  shows "unat (of_nat (end_before m i) :: u16) = end_before m i"
proof -
  have "end_before m i < 65536" using end_before_bound [OF assms] assms(2) by auto
  then show ?thesis by (simp add: unat_of_nat)
qed

lemma eff_blocks_put:
  assumes m: "eff_blocks m" and i: "i \<in> {1..40}" "\<forall>l \<in> {1..<i}. \<not> eff_free (m ! l)"
    and fit: "\<forall>j \<in> {i<..40}. eff_free (m ! j) \<or> end_before m i + unat alen \<le> unat (em_offset (m ! j))" and len: "unat alen \<le> 0x80"
    and e: "e = \<lparr>em_validflag = 1, em_ch = of_nat i, em_offset = of_nat (end_before m i), em_nameid = n, em_len = alen\<rparr>"
  shows "eff_blocks (m[i := e])" "block_end e = end_before m i + unat alen"
proof -
  have ch: "\<not> eff_free e" by (simp add: e eff_free_def)
  have at: "m[i := e] ! j = (if j = i then e else m ! j)" if "j \<in> {1..40}" for j
    using that i(1) m by (auto simp: eff_blocks_def nth_list_update)
  have bound: "3 \<le> end_before m i \<and> end_before m i \<le> 3 + 0x80 * (i - 1)" by (rule end_before_bound [OF m i])
  then have off: "unat (em_offset e) = end_before m i" using unat_end_before [OF m i] by (simp add: e)
  then show en: "block_end e = end_before m i + unat alen" by (simp add: block_end_def e)
  have before: "block_end (m ! l) \<le> end_before m i" if l: "l \<in> {1..<i}" for l
  proof (cases "l = i - 1")
    case True
    then show ?thesis using that by (simp add: end_before_def)
  next
    case False
    have r: "l \<in> {1..40}" "i - 1 \<in> {l<..40}" "i - 1 \<in> {1..<i}" using l i(1) False by auto
    then have "block_end (m ! l) \<le> unat (em_offset (m ! (i - 1)))" using m i(2) l unfolding eff_blocks_def by blast
    then show ?thesis using l by (auto simp: end_before_def block_end_def)
  qed
  have one: "eff_free (m[i := e] ! j) \<or> em_validflag (m[i := e] ! j) = 1 \<and> em_ch (m[i := e] ! j) = of_nat j
      \<and> 3 \<le> unat (em_offset (m[i := e] ! j)) \<and> block_end (m[i := e] ! j) \<le> 3 + 0x80 * j" if j: "j \<in> {1..40}" for j
  proof (cases "j = i")
    case True
    have "block_end e \<le> 3 + 0x80 * i" using en bound len i(1) by auto
    then show ?thesis unfolding at [OF j] using True off bound by (simp add: e)
  next
    case False
    then show ?thesis unfolding at [OF j] using m j by (simp add: eff_blocks_def)
  qed
  have two: "eff_free (m[i := e] ! a) \<or> eff_free (m[i := e] ! b) \<or> block_end (m[i := e] ! a) \<le> unat (em_offset (m[i := e] ! b))"
    if a: "a \<in> {1..40}" and b: "b \<in> {a<..40}" for a b
  proof -
    have b': "b \<in> {1..40}" "a < b" using a b by auto
    consider "a = i" | "b = i" | "a \<noteq> i" "b \<noteq> i" by blast
    then show ?thesis
    proof cases
      case 1
      then show ?thesis using fit b en at [OF a] at [OF b'(1)] by auto
    next
      case 2
      then show ?thesis using before [of a] a b' off at [OF a] at [OF b'(1)] by auto
    next
      case 3
      then have "m[i := e] ! a = m ! a" "m[i := e] ! b = m ! b" using at [OF a] at [OF b'(1)] by auto
      then show ?thesis using m a b unfolding eff_blocks_def by metis
    qed
  qed
  show "eff_blocks (m[i := e])" unfolding eff_blocks_def using one two m by (auto simp: eff_blocks_def)
qed

lemma register_len_bound: "unat (shm_get_register_len t) \<le> 0x80"
  by (simp add: shm_get_register_len_def DEV_REG_ADDR_LENGTH_INSIGHT_T_def DEV_REG_ADDR_LENGTH_INSIGHT_P_def DEV_REG_ADDR_LENGTH_INSIGHT_PRO_def)

text \<open>
  C15: in efficient mode a new device whose registers fit before the next block gets the first free place, and its block begins where the
  block before it ends: all blocks stay apart and in the order of the places, and the description names the place, the offset and the length.
\<close>

theorem efficient_place_fits:
  assumes m: "m = efficient_chn_nameid_map s" "eff_blocks m"
    and i: "i \<in> {1..40}" "eff_free (m ! i)" "\<forall>l \<in> {1..<i}. \<not> eff_free (m ! l)"
    and alen: "alen = shm_get_register_len (di_sensor_type d)"
    and fit: "\<forall>j \<in> {i<..40}. eff_free (m ! j) \<or> end_before m i + unat alen \<le> unat (em_offset (m ! j))"
    and new: "\<forall>l \<in> {1..40}. \<not> (em_nameid (m ! l) = di_nameid d \<and> em_validflag (m ! l) = 1)"
    and cnt: "unat (assigned_chn_cnt s) \<le> 40" and seven: "7 \<in> fst ` set xs" "distinct (map fst xs)"
  shows "\<exists>ys. eff_dev_channel xs d s = Some (i, ys,
       d\<lparr>di_description := build_name i (end_before m i) (unat alen) (shm_get_sensor_type_str (di_sensor_type d))\<rparr>,
       s\<lparr>efficient_chn_nameid_map := m[i := \<lparr>em_validflag = 1, em_ch = of_nat i, em_offset = of_nat (end_before m i),
           em_nameid = di_nameid d, em_len = alen\<rparr>], assigned_chn_cnt := assigned_chn_cnt s + 1\<rparr>, False)
     \<and> eff_blocks (m[i := \<lparr>em_validflag = 1, em_ch = of_nat i, em_offset = of_nat (end_before m i),
           em_nameid = di_nameid d, em_len = alen\<rparr>])"
proof -
  let ?e = "\<lparr>em_validflag = 1, em_ch = of_nat i, em_offset = of_nat (end_before m i), em_nameid = di_nameid d, em_len = alen\<rparr> ::
    efficient_chn_nameid_mapping_t"
  have len: "unat alen \<le> 0x80" unfolding alen by (rule register_len_bound)
  note put = eff_blocks_put [OF m(2) i(1,3) fit len refl, of "di_nameid d"]
  have "List.find (\<lambda>l. di_nameid d = em_nameid (m ! l) \<and> em_validflag (m ! l) = 1) [1..<BULLET_GW_SENSOR_NUM_MAX + 1] = None"
    unfolding find_upt_None using new by (auto simp: BULLET_GW_SENSOR_NUM_MAX_def)
  moreover have "unat (of_nat (end_before m i) :: u16) = end_before m i" by (rule unat_end_before [OF m(2) i(1,3)])
  moreover obtain ys where "set_field_7 (build_name i (end_before m i) (unat alen) (shm_get_sensor_type_str (di_sensor_type d))) xs = Some ys"
    using set_field_7_some [OF seven] by blast
  ultimately show ?thesis
    using eff_search_first [OF m(2) i fit] put(1) cnt m(1) alen
    by (simp add: eff_dev_channel_def describe_def BULLET_GW_SENSOR_NUM_MAX_def Let_def)
qed

text \<open>
  When the hole is too small the search goes wrong.  The steps on devices of a type, given as name number and type, and deletions.
\<close>

datatype eff_step = Eff_new u32 bytes | Eff_delete u32

fun eff_run :: "eff_step list \<Rightarrow> sql_state \<Rightarrow> sql_state option" where
  "eff_run [] s = Some s"
| "eff_run (Eff_new n t # xs) s =
     (case eff_dev_channel [(7, Data_char [])] (zero_device\<lparr>di_nameid := n, di_sensor_type := t\<rparr>) s of
        None \<Rightarrow> None | Some (_, _, _, s, _) \<Rightarrow> eff_run xs s)"
| "eff_run (Eff_delete n # xs) s =
     (case clear_chn n s of None \<Rightarrow> None | Some (_, s) \<Rightarrow> eff_run xs (s\<lparr>assigned_chn_cnt := assigned_chn_cnt s - 1\<rparr>))"

definition eff_start :: sql_state where
  "eff_start = the (sql_start (Some (1, 9600, 1)) [] False blank_state)"

text \<open>The block of the new device covers the block of device 3, and the search ends outside the array when no place behind is taken.\<close>

theorem efficient_mode_overlap:
  "map_option (\<lambda>s. map (\<lambda>i. (em_nameid (efficient_chn_nameid_map s ! i), em_offset (efficient_chn_nameid_map s ! i),
       em_len (efficient_chn_nameid_map s ! i))) [2, 3])
     (eff_run [Eff_new 2 TYPE_STR_INSIGHT_T, Eff_new 3 TYPE_STR_INSIGHT_P, Eff_new 4 TYPE_STR_INSIGHT_T, Eff_new 5 TYPE_STR_INSIGHT_P,
        Eff_delete 2, Eff_delete 4, Eff_new 6 TYPE_STR_INSIGHT_P] eff_start) = Some [(3, 11, 48), (6, 3, 48)]"
  by code_simp

theorem efficient_mode_outside:
  "eff_run [Eff_new 2 TYPE_STR_INSIGHT_T, Eff_new 3 TYPE_STR_INSIGHT_P, Eff_delete 2, Eff_new 4 TYPE_STR_INSIGHT_P] eff_start = None"
  by code_simp

section \<open>Examples for the limits\<close>

theorem device_41_displaces_witness:
  "\<exists>s'. dev_update_item [] True True 41 (sample_msg 41) (fill 40) = Some (True, s') \<and> dev_rows s' 41 \<noteq> None"
proof -
  have f: "sql_reachable (fill 40)" "dom (dev_rows (fill 40)) = int ` {1..40}" using fill_steps [of 40] by blast+
  have c: "card (dom (dev_rows (fill 40))) = 40" unfolding f(2) by (simp add: card_image)
  have m: "message_ok 41 (sample_msg 41)" by (rule sample_msg_ok) simp_all
  have "int (unat (41 :: u32)) \<notin> dom (dev_rows (fill 40))" unfolding f(2) by auto
  then have n: "dev_rows (fill 40) (int (unat (41 :: u32))) = None" by blast
  obtain s' where "dev_update_item [] True True 41 (sample_msg 41) (fill 40) = Some (True, s')" "dev_rows s' (int (unat (41 :: u32))) \<noteq> None"
    using device_41_displaces [OF f(1) c m n, of "[]"] by blast
  moreover have "int (unat (41 :: u32)) = 41" by simp
  ultimately show ?thesis by metis
qed

theorem efficient_place_fits_witness:
  "\<exists>ys d s. eff_dev_channel [(7, Data_char [])] (zero_device\<lparr>di_sensor_type := TYPE_STR_INSIGHT_T\<rparr>) eff_start = Some (1, ys, d, s, False)
     \<and> di_description d = build_name 1 3 8 type_ITS \<and> em_offset (efficient_chn_nameid_map s ! 1) = 3"
proof -
  let ?m = "efficient_chn_nameid_map eff_start" and ?d = "zero_device\<lparr>di_sensor_type := TYPE_STR_INSIGHT_T\<rparr>"
  have m: "?m = (replicate 41 zero_eff)[0 := \<lparr>em_validflag = 1, em_ch = 0, em_offset = 0, em_nameid = 1, em_len = DEV_REG_ADDR_LENGTH_GW\<rparr>]"
    "unat (assigned_chn_cnt eff_start) = 1"
    by (simp_all add: eff_start_def sql_start_def)
  have free: "?m ! i = zero_eff" if "i \<in> {1..40}" for i using that by (simp add: m(1))
  then have f: "eff_free (?m ! i)" if "i \<in> {1..40}" for i using that by (simp add: eff_free_def zero_eff_def)
  have b: "eff_blocks ?m" unfolding eff_blocks_def using f m(1) by simp
  have t: "shm_get_register_len (di_sensor_type ?d) = 8" "shm_get_sensor_type_str (di_sensor_type ?d) = type_ITS"
    using type_strings by (simp_all add: shm_get_register_len_def shm_get_sensor_type_str_def DEV_REG_ADDR_LENGTH_INSIGHT_T_def)
  have fit: "\<forall>j \<in> {1<..40}. eff_free (?m ! j) \<or> end_before ?m 1 + unat (8 :: u8) \<le> unat (em_offset (?m ! j))" using f by simp
  have new: "\<forall>l \<in> {1..40}. \<not> (em_nameid (?m ! l) = di_nameid ?d \<and> em_validflag (?m ! l) = 1)"
    using free by (auto simp: zero_eff_def)
  have len: "length ?m = 41" by (simp add: m(1))
  obtain ys where e: "eff_dev_channel [(7, Data_char [])] ?d eff_start = Some (1, ys,
       ?d\<lparr>di_description := build_name 1 (end_before ?m 1) (unat (8 :: u8)) (shm_get_sensor_type_str (di_sensor_type ?d))\<rparr>,
       eff_start\<lparr>efficient_chn_nameid_map := ?m[1 := \<lparr>em_validflag = 1, em_ch = of_nat 1, em_offset = of_nat (end_before ?m 1),
           em_nameid = di_nameid ?d, em_len = 8\<rparr>], assigned_chn_cnt := assigned_chn_cnt eff_start + 1\<rparr>, False)"
    using efficient_place_fits [OF refl b _ _ _ t(1) [symmetric] fit new, of "[(7, Data_char [])]"] f m(2) by auto
  show ?thesis unfolding e t(2) using len by (simp add: end_before_def)
qed

end
