(* ===== verification/Sql_Sdata.thy ===== *)
theory Sql_Sdata
  imports Sql_Channels
begin

text \<open>
  The sensor data in the database process, \<^verbatim>\<open>src/skf_gw_mqtt/sqlite/main.c\<close>: rows of one measurement are collected until a set is complete or a
  timer expires, and then written to the place of the sensor's channel in the shared memory.  Predict sensors are collected in eight instances,
  Insight-T sensors in one common buffer.

  A place is a list of 27 pieces and the bitmap of the pieces received, which is kept in the 28th.  Of a piece there are the members that the
  collection and the slave read.  \<^term>\<open>None\<close> is an access outside an array, a member of a union that was not written, or the end of the process
  when no timer can be created.  A row, an expiry of a timer and a command on another table are one step each; as the handlers of the timers run in
  threads of their own without a lock, there are also steps in which a handler runs during a row, after the channel of the row has become
  the current one (point 0) or after the instance of a Predict sensor has been found (point 1), and steps in which a row is handled during a
  handler, between the write to the shared memory and the clearing of the buffer.
\<close>

section \<open>Pieces\<close>

datatype sensorType_t = MODBUS_SENSOR_TYPE_T | MODBUS_SENSOR_TYPE_P | MODBUS_SENSOR_TYPE_PRO

record sd_piece =
  pc_nameId :: u32
  pc_type :: bytes
  pc_sampleTime :: u64
  pc_dataType :: u8
  pc_value :: gw_value
  pc_product :: u8

definition zero_piece :: sd_piece where
  "zero_piece = \<lparr>pc_nameId = 0, pc_type = [], pc_sampleTime = 0, pc_dataType = 0, pc_value = Data_uint32 0, pc_product = 0\<rparr>"

definition APP_SHM_SENSORDATA_TABLE_PIECE_MAX_PRS :: nat where "APP_SHM_SENSORDATA_TABLE_PIECE_MAX_PRS = 25"
definition APP_SHM_SENSORDATA_TABLE_PIECE_MAX_PRO :: nat where "APP_SHM_SENSORDATA_TABLE_PIECE_MAX_PRO = 25"
definition APP_SHM_SENSORDATA_TABLE_PIECE_MAX_ITS :: nat where "APP_SHM_SENSORDATA_TABLE_PIECE_MAX_ITS = 4"
definition CONFIG_SHM_SENSOR_DATA_MAX_NUM :: nat where "CONFIG_SHM_SENSOR_DATA_MAX_NUM = 8"
definition SHM_SD_IDX_LAST_VIB_SENSING_TIME :: nat where "SHM_SD_IDX_LAST_VIB_SENSING_TIME = 25"
definition SHM_SD_IDX_LAST_TEMP_SENSING_TIME :: nat where "SHM_SD_IDX_LAST_TEMP_SENSING_TIME = 26"
definition SHM_SD_IDX_LAST_TEMP_SENSING_TIME_T :: nat where "SHM_SD_IDX_LAST_TEMP_SENSING_TIME_T = 4"

text \<open>The place of a measurement type in the set of a Predict sensor; 26 for types that are not shown.\<close>

definition shm_sd_measType_to_idx :: "nat list" where
  "shm_sd_measType_to_idx =
     [26, 26, 26, 26, 26, 26, 26, 26, 26, 26, 26, 26, 26, 6, 7, 8, 26, 26, 26, 26, 26, 26, 26, 26, 26, 26, 26, 26, 26, 26, 0, 26,
      26, 26, 26, 26, 26, 26, 26, 26, 26, 26, 24, 1, 2, 3, 4, 5, 9, 10, 11, 12, 13, 14, 15, 16, 17, 18, 19, 20, 21, 22, 23, 26]"

definition shm_get_measure_type_idx_t :: "u8 \<Rightarrow> nat" where
  "shm_get_measure_type_idx_t t = (if t = 29 then 0 else if t = 21 then 1 else if t = 13 then 2 else if t = 42 then 3 else 26)"

definition shm_set_sd_bit_map :: "sensorType_t \<Rightarrow> nat \<Rightarrow> u64 \<Rightarrow> u64" where
  "shm_set_sd_bit_map sType idx m =
     (let idx_max = (case sType of MODBUS_SENSOR_TYPE_T \<Rightarrow> APP_SHM_SENSORDATA_TABLE_PIECE_MAX_ITS + 1
        | MODBUS_SENSOR_TYPE_P \<Rightarrow> APP_SHM_SENSORDATA_TABLE_PIECE_MAX_PRS + 2 | MODBUS_SENSOR_TYPE_PRO \<Rightarrow> APP_SHM_SENSORDATA_TABLE_PIECE_MAX_PRO + 2)
      in if idx_max \<le> idx then m else or m (push_bit idx 1))"

text \<open>
  A message as a piece: a number in the low byte is read from a wider member as on the little-endian platform, a value after the
  format \<^verbatim>\<open>Digit\<close> is the first four bytes of the union.
\<close>

definition union_uint8 :: "gw_value \<Rightarrow> u8 option" where
  "union_uint8 v = (case v of Data_int8 b \<Rightarrow> Some b | Data_uint32 n \<Rightarrow> Some (ucast n) | Data_uint64 n \<Rightarrow> Some (ucast n) | _ \<Rightarrow> None)"

definition sd_convert_field :: "gw_pro_data_t \<Rightarrow> bool \<times> sd_piece \<Rightarrow> (bool \<times> sd_piece) option" where
  "sd_convert_field fv s =
     (let (field, v) = fv; (testflag, p) = s in
      if field = 2 then (case v of Data_uint32 n \<Rightarrow> Some (testflag, p\<lparr>pc_nameId := n\<rparr>) | _ \<Rightarrow> None)
      else if field = 5 then map_option (\<lambda>t. (testflag, p\<lparr>pc_type := t\<rparr>)) (dev_text v)
      else if field = 8 then (case v of Data_uint64 n \<Rightarrow> Some (testflag, p\<lparr>pc_sampleTime := n\<rparr>) | _ \<Rightarrow> None)
      else if field = 11 then map_option (\<lambda>t. (testflag, p\<lparr>pc_dataType := t\<rparr>)) (union_uint8 v)
      else if field = 12 then (case v of Data_char t \<Rightarrow> Some (testflag \<or> c_string t = ascii ''Digit'', p) | _ \<Rightarrow> None)
      else if field = 21 then
        (case v of Data_char t \<Rightarrow> if testflag then None else Some (testflag, p\<lparr>pc_value := Data_char (take 68 (c_string t))\<rparr>)
         | Data_uint64 n \<Rightarrow> None
         | _ \<Rightarrow> if testflag then Some (testflag, p\<lparr>pc_value := v\<rparr>) else None)
      else if field = 23 then map_option (\<lambda>t. (testflag, p\<lparr>pc_product := t\<rparr>)) (union_uint8 v)
      else Some (testflag, p))"

fun sd_convert_fields :: "gw_pro_data_t list \<Rightarrow> bool \<times> sd_piece \<Rightarrow> sd_piece option" where
  "sd_convert_fields [] s = Some (snd s)"
| "sd_convert_fields (x # xs) s = (case sd_convert_field x s of None \<Rightarrow> None | Some s \<Rightarrow> sd_convert_fields xs s)"

definition table_update_data_convert_sd :: "gw_pro_data_t list \<Rightarrow> sd_piece option" where
  "table_update_data_convert_sd xs = sd_convert_fields xs (False, zero_piece)"

section \<open>State\<close>

record appShmSensorDataInstance_t =
  sd_nameid :: u32
  sd_valid_flag :: bool
  sd_chn_idx :: u8
  sd_piece_cnt :: u8
  sd_piece_max :: u8
  sd_sensor_type :: sensorType_t
  sd_timer_id :: nat
  sd_data_buf :: "sd_piece list"
  sd_bits :: u64

definition zero_instance :: appShmSensorDataInstance_t where
  "zero_instance = \<lparr>sd_nameid = 0, sd_valid_flag = False, sd_chn_idx = 0, sd_piece_cnt = 0, sd_piece_max = 0,
     sd_sensor_type = MODBUS_SENSOR_TYPE_T, sd_timer_id = 0, sd_data_buf = replicate 27 zero_piece, sd_bits = 0\<rparr>"

text \<open>
  The flag \<^term>\<open>sd_w_flag\<close> tells that nothing is left to write; it is not reset between messages.  \<^term>\<open>sd_status\<close> is whether the last
  command on the database succeeded.
\<close>

record sd_state =
  g_sd_instance :: "appShmSensorDataInstance_t list"
  g_former_ch_idx :: u8
  g_current_ch_idx :: u8
  g_former_nameid :: u32
  g_sensor_data_piece_cnt :: u8
  g_sensor_data_piece_max :: u8
  g_shm_data_buf :: "sd_piece list"
  g_shm_data_bits :: u64
  g_timer_on :: bool
  sd_w_flag :: bool
  sd_status :: bool
  sd_places :: "(sd_piece list \<times> u64) list"

definition sd_initial :: sd_state where
  "sd_initial = \<lparr>g_sd_instance = replicate 8 zero_instance, g_former_ch_idx = 0, g_current_ch_idx = 0, g_former_nameid = 0,
     g_sensor_data_piece_cnt = 0, g_sensor_data_piece_max = 0, g_shm_data_buf = replicate 27 zero_piece, g_shm_data_bits = 0,
     g_timer_on = False, sd_w_flag = False, sd_status = True, sd_places = replicate 40 (replicate 27 zero_piece, 0)\<rparr>"

section \<open>Writing a set\<close>

text \<open>The first \<^term>\<open>k\<close> pieces and the bitmap go to the place of a channel.\<close>

definition sd_write :: "u8 \<Rightarrow> nat \<Rightarrow> sd_piece list \<Rightarrow> u64 \<Rightarrow> sd_state \<Rightarrow> sd_state option" where
  "sd_write c k buf bits s =
     (if 1 \<le> unat c \<and> unat c \<le> length (sd_places s) \<and> k \<le> length buf
      then Some (s\<lparr>sd_places := (sd_places s)[unat c - 1 := (take k buf @ drop k (fst (sd_places s ! (unat c - 1))), bits)]\<rparr>)
      else None)"

text \<open>Two more attempts to take the semaphore; the set is written in any case.\<close>

definition retry :: "bool list \<Rightarrow> bool" where
  "retry ts = list_ex id (take 2 ts)"

definition first_try :: "bool list \<Rightarrow> bool" where
  "first_try ts \<longleftrightarrow> ts \<noteq> [] \<and> hd ts"

definition is_na :: "gw_value \<Rightarrow> bool" where
  "is_na v \<longleftrightarrow> v = Data_uint32 0x7fc00000"

definition shm_update_sd_bit_map :: "sensorType_t \<Rightarrow> appShmSensorDataInstance_t \<Rightarrow> appShmSensorDataInstance_t" where
  "shm_update_sd_bit_map sType e =
     (if sd_valid_flag e \<and> sd_sensor_type e \<in> {MODBUS_SENSOR_TYPE_P, MODBUS_SENSOR_TYPE_PRO} then
        let bits = (if pc_sampleTime (sd_data_buf e ! 6) \<noteq> 0 then shm_set_sd_bit_map sType SHM_SD_IDX_LAST_TEMP_SENSING_TIME (sd_bits e)
                    else sd_bits e);
            bits = (if list_ex (\<lambda>i. pc_sampleTime (sd_data_buf e ! i) \<noteq> 0 \<and> \<not> is_na (pc_value (sd_data_buf e ! i))) [11..<24]
                    then shm_set_sd_bit_map sType SHM_SD_IDX_LAST_VIB_SENSING_TIME bits else bits)
        in e\<lparr>sd_bits := bits\<rparr>
      else e)"

section \<open>Predict sensors\<close>

definition sd_put :: "nat \<Rightarrow> sd_piece \<Rightarrow> appShmSensorDataInstance_t \<Rightarrow> appShmSensorDataInstance_t" where
  "sd_put idx p e = e\<lparr>sd_data_buf := (sd_data_buf e)[idx := p], sd_bits := shm_set_sd_bit_map (sd_sensor_type e) idx (sd_bits e),
     sd_piece_cnt := sd_piece_cnt e + 1\<rparr>"

definition sd_find :: "u32 \<Rightarrow> u8 \<Rightarrow> appShmSensorDataInstance_t list \<Rightarrow> nat option" where
  "sd_find n c es = List.find (\<lambda>i. sd_valid_flag (es ! i) \<and> n = sd_nameid (es ! i) \<and> c = sd_chn_idx (es ! i)) [0..<CONFIG_SHM_SENSOR_DATA_MAX_NUM]"

definition sd_free :: "appShmSensorDataInstance_t list \<Rightarrow> nat option" where
  "sd_free es = List.find (\<lambda>i. \<not> sd_valid_flag (es ! i) \<and> sd_nameid (es ! i) = 0 \<and> sd_chn_idx (es ! i) = 0) [0..<CONFIG_SHM_SENSOR_DATA_MAX_NUM]"

text \<open>The set is written and its instance is cleared; \<^term>\<open>during\<close> is what another thread does in between.\<close>

definition sd_flush_during :: "(sd_state \<Rightarrow> sd_state option) \<Rightarrow> nat \<Rightarrow> appShmSensorDataInstance_t \<Rightarrow> sd_state \<Rightarrow> sd_state option" where
  "sd_flush_during during i e s =
     (case sd_write (sd_chn_idx e) (unat (sd_piece_max e)) (sd_data_buf e) (sd_bits e) s of None \<Rightarrow> None
      | Some s \<Rightarrow> map_option (\<lambda>s. s\<lparr>g_sd_instance := (g_sd_instance s)[i := zero_instance]\<rparr>) (during s))"

definition sd_flush :: "nat \<Rightarrow> appShmSensorDataInstance_t \<Rightarrow> sd_state \<Rightarrow> sd_state option" where
  "sd_flush = sd_flush_during Some"

lemma sd_flush_alone: "sd_flush i e s = map_option (\<lambda>s. s\<lparr>g_sd_instance := (g_sd_instance s)[i := zero_instance]\<rparr>)
     (sd_write (sd_chn_idx e) (unat (sd_piece_max e)) (sd_data_buf e) (sd_bits e) s)"
  by (simp add: sd_flush_def sd_flush_during_def split: option.splits)

text \<open>
  A row of a Predict sensor.  A new instance starts a timer, \<^term>\<open>tid\<close>.  The set is written when as many rows as there are pieces have come.
\<close>

definition sd_insert_p_during :: "(sd_state \<Rightarrow> sd_state option) \<Rightarrow> sd_piece \<Rightarrow> nat option \<Rightarrow> bool list \<Rightarrow> sd_state \<Rightarrow> sd_state option" where
  "sd_insert_p_during during p tid ts s =
     (if length shm_sd_measType_to_idx \<le> unat (pc_dataType p) then None
      else let idx = shm_sd_measType_to_idx ! unat (pc_dataType p); es = g_sd_instance s in
      case sd_find (pc_nameId p) (g_current_ch_idx s) es of
        Some i \<Rightarrow> (case during s of None \<Rightarrow> None | Some s \<Rightarrow>
          let es = g_sd_instance s; e = sd_put idx p (es ! i) in
          if sd_piece_max e \<le> sd_piece_cnt e then
            let e = shm_update_sd_bit_map (sd_sensor_type e) e; s = s\<lparr>g_sd_instance := es[i := e]\<rparr> in
            if first_try ts then map_option (\<lambda>s. s\<lparr>sd_w_flag := True\<rparr>) (sd_flush i e s)
            else if sd_w_flag s then Some s
            else map_option (\<lambda>s. s\<lparr>sd_w_flag := retry (tl ts)\<rparr>) (sd_flush i e s)
          else Some (s\<lparr>g_sd_instance := es[i := e], sd_w_flag := True\<rparr>))
      | None \<Rightarrow>
          (case sd_free es of
             None \<Rightarrow> Some (s\<lparr>sd_w_flag := True\<rparr>)
           | Some i \<Rightarrow>
               (case tid of None \<Rightarrow> None
                | Some t \<Rightarrow>
                    let e = (es ! i)\<lparr>sd_chn_idx := g_current_ch_idx s, sd_nameid := pc_nameId p, sd_valid_flag := True, sd_piece_cnt := 0,
                        sd_piece_max := of_nat APP_SHM_SENSORDATA_TABLE_PIECE_MAX_PRS, sd_sensor_type := MODBUS_SENSOR_TYPE_P, sd_timer_id := t\<rparr>
                    in Some (s\<lparr>g_sd_instance := es[i := sd_put idx p e], sd_w_flag := True\<rparr>))))"

definition sd_insert_p :: "sd_piece \<Rightarrow> nat option \<Rightarrow> bool list \<Rightarrow> sd_state \<Rightarrow> sd_state option" where
  "sd_insert_p = sd_insert_p_during Some"

lemma sd_insert_p_alone: "sd_insert_p p tid ts s =
     (if length shm_sd_measType_to_idx \<le> unat (pc_dataType p) then None
      else let idx = shm_sd_measType_to_idx ! unat (pc_dataType p); es = g_sd_instance s in
      case sd_find (pc_nameId p) (g_current_ch_idx s) es of
        Some i \<Rightarrow>
          let e = sd_put idx p (es ! i) in
          if sd_piece_max e \<le> sd_piece_cnt e then
            let e = shm_update_sd_bit_map (sd_sensor_type e) e; s = s\<lparr>g_sd_instance := es[i := e]\<rparr> in
            if first_try ts then map_option (\<lambda>s. s\<lparr>sd_w_flag := True\<rparr>) (sd_flush i e s)
            else if sd_w_flag s then Some s
            else map_option (\<lambda>s. s\<lparr>sd_w_flag := retry (tl ts)\<rparr>) (sd_flush i e s)
          else Some (s\<lparr>g_sd_instance := es[i := e], sd_w_flag := True\<rparr>)
      | None \<Rightarrow>
          (case sd_free es of
             None \<Rightarrow> Some (s\<lparr>sd_w_flag := True\<rparr>)
           | Some i \<Rightarrow>
               (case tid of None \<Rightarrow> None
                | Some t \<Rightarrow>
                    let e = (es ! i)\<lparr>sd_chn_idx := g_current_ch_idx s, sd_nameid := pc_nameId p, sd_valid_flag := True, sd_piece_cnt := 0,
                        sd_piece_max := of_nat APP_SHM_SENSORDATA_TABLE_PIECE_MAX_PRS, sd_sensor_type := MODBUS_SENSOR_TYPE_P, sd_timer_id := t\<rparr>
                    in Some (s\<lparr>g_sd_instance := es[i := sd_put idx p e], sd_w_flag := True\<rparr>))))"
  by (simp add: sd_insert_p_def sd_insert_p_during_def Let_def split: option.splits)

definition shm_timer_handler_p_during :: "(sd_state \<Rightarrow> sd_state option) \<Rightarrow> nat \<Rightarrow> sd_state \<Rightarrow> sd_state option" where
  "shm_timer_handler_p_during during tid s =
     (case List.find (\<lambda>i. tid = sd_timer_id (g_sd_instance s ! i) \<and> sd_valid_flag (g_sd_instance s ! i)) [0..<CONFIG_SHM_SENSOR_DATA_MAX_NUM] of
        None \<Rightarrow> Some s
      | Some i \<Rightarrow>
          let e = shm_update_sd_bit_map (sd_sensor_type (g_sd_instance s ! i)) (g_sd_instance s ! i);
              s = s\<lparr>g_sd_instance := (g_sd_instance s)[i := e]\<rparr> in
          if 0 < sd_piece_cnt e \<and> unat (sd_piece_cnt e) \<le> APP_SHM_SENSORDATA_TABLE_PIECE_MAX_PRS then sd_flush_during during i e s else Some s)"

definition shm_timer_handler_p :: "nat \<Rightarrow> sd_state \<Rightarrow> sd_state option" where
  "shm_timer_handler_p = shm_timer_handler_p_during Some"

lemmas shm_timer_handler_p_alone = shm_timer_handler_p_def [unfolded shm_timer_handler_p_during_def, folded sd_flush_def, THEN fun_cong, THEN fun_cong]

section \<open>Insight-T sensors\<close>

definition sd_store :: "nat \<Rightarrow> sd_piece \<Rightarrow> sd_state \<Rightarrow> sd_state" where
  "sd_store idx p s = s\<lparr>g_shm_data_buf := (g_shm_data_buf s)[idx := p],
     g_shm_data_bits := shm_set_sd_bit_map MODBUS_SENSOR_TYPE_T idx (g_shm_data_bits s)\<rparr>"

definition sd_time_bit :: "sd_state \<Rightarrow> sd_state" where
  "sd_time_bit s = s\<lparr>g_shm_data_bits := shm_set_sd_bit_map MODBUS_SENSOR_TYPE_T SHM_SD_IDX_LAST_TEMP_SENSING_TIME_T (g_shm_data_bits s)\<rparr>"

definition sd_clear :: "sd_state \<Rightarrow> sd_state" where
  "sd_clear s = s\<lparr>g_shm_data_buf := replicate 27 zero_piece, g_shm_data_bits := 0\<rparr>"

definition sd_write_t :: "u8 \<Rightarrow> nat \<Rightarrow> sd_state \<Rightarrow> sd_state option" where
  "sd_write_t c k s = map_option sd_clear (sd_write c k (g_shm_data_buf s) (g_shm_data_bits s) s)"

text \<open>The buffer is written after the command on the database, when nothing has been written before it.\<close>

definition sd_after_t :: "bool list \<Rightarrow> sd_state \<Rightarrow> sd_state option" where
  "sd_after_t ts s =
     (if sd_w_flag s then Some s
      else map_option (\<lambda>s. s\<lparr>g_sensor_data_piece_cnt := 0, sd_w_flag := retry ts\<rparr>)
        (sd_write_t (g_current_ch_idx s) APP_SHM_SENSORDATA_TABLE_PIECE_MAX_ITS s))"

text \<open>A row of the sensor that was the last one.\<close>

definition sd_insert_same :: "sd_piece \<Rightarrow> nat option \<Rightarrow> bool list \<Rightarrow> sd_state \<Rightarrow> sd_state option" where
  "sd_insert_same p tid ts s =
     (let idx = shm_get_measure_type_idx_t (pc_dataType p) in
      if int (unat (g_sensor_data_piece_cnt s)) < int (unat (g_sensor_data_piece_max s)) - 1 then
        if idx < APP_SHM_SENSORDATA_TABLE_PIECE_MAX_ITS then
          let s = (sd_store idx p s)\<lparr>g_sensor_data_piece_cnt := g_sensor_data_piece_cnt s + 1\<rparr> in
          if g_sensor_data_piece_cnt s = 1
          then (case tid of None \<Rightarrow> None | Some _ \<Rightarrow> Some (s\<lparr>g_timer_on := True, sd_w_flag := True\<rparr>))
          else Some (s\<lparr>sd_w_flag := True\<rparr>)
        else Some (s\<lparr>sd_w_flag := True\<rparr>)
      else
        let s = s\<lparr>g_sensor_data_piece_cnt := g_sensor_data_piece_max s - 1, g_timer_on := False\<rparr> in
        if idx < APP_SHM_SENSORDATA_TABLE_PIECE_MAX_ITS then
          let s = sd_time_bit ((sd_store idx p s)\<lparr>g_sensor_data_piece_cnt := g_sensor_data_piece_cnt s + 1\<rparr>) in
          if first_try ts
          then map_option (\<lambda>s. s\<lparr>g_sensor_data_piece_cnt := 0, sd_w_flag := True\<rparr>)
                 (sd_write_t (g_current_ch_idx s) (unat (g_sensor_data_piece_cnt s)) s)
          else sd_after_t (tl ts) s
        else Some (s\<lparr>sd_w_flag := True\<rparr>))"

text \<open>The first row of another sensor: the pieces of the former one are written to the channel of the former message.\<close>

definition sd_insert_other :: "sd_piece \<Rightarrow> nat option \<Rightarrow> bool list \<Rightarrow> sd_state \<Rightarrow> sd_state option" where
  "sd_insert_other p tid ts s =
     (let idx = shm_get_measure_type_idx_t (pc_dataType p); s = s\<lparr>g_former_nameid := pc_nameId p\<rparr>;
          new = (\<lambda>s. if idx < APP_SHM_SENSORDATA_TABLE_PIECE_MAX_ITS then (sd_store idx p s)\<lparr>g_sensor_data_piece_cnt := 1\<rparr> else s);
          tm = (\<lambda>s. case tid of None \<Rightarrow> None | Some _ \<Rightarrow> Some (s\<lparr>g_timer_on := True\<rparr>)) in
      if g_sensor_data_piece_cnt s = 0 then tm ((new s)\<lparr>sd_w_flag := True\<rparr>)
      else if first_try ts then
        (case sd_write_t (g_former_ch_idx s) (unat (g_sensor_data_piece_cnt s)) (sd_time_bit s) of
           None \<Rightarrow> None
         | Some s \<Rightarrow> tm ((new s)\<lparr>sd_w_flag := True\<rparr>))
      else
        (case tm s of None \<Rightarrow> None
         | Some s \<Rightarrow> map_option (\<lambda>s. (new s)\<lparr>sd_w_flag := retry (tl ts)\<rparr>)
             (sd_write_t (g_former_ch_idx s) APP_SHM_SENSORDATA_TABLE_PIECE_MAX_ITS s)))"

definition sd_insert_t :: "sd_piece \<Rightarrow> nat option \<Rightarrow> bool list \<Rightarrow> sd_state \<Rightarrow> sd_state option" where
  "sd_insert_t p tid ts s =
     (let s = s\<lparr>g_sensor_data_piece_max := of_nat APP_SHM_SENSORDATA_TABLE_PIECE_MAX_ITS\<rparr> in
      if g_former_nameid s = pc_nameId p then sd_insert_same p tid ts s else sd_insert_other p tid ts s)"

definition shm_timer_handler_during :: "(sd_state \<Rightarrow> sd_state option) \<Rightarrow> sd_state \<Rightarrow> sd_state option" where
  "shm_timer_handler_during during s =
     (let s = sd_time_bit (s\<lparr>g_timer_on := False\<rparr>) in
      if 0 < g_sensor_data_piece_cnt s \<and> g_sensor_data_piece_cnt s \<le> g_sensor_data_piece_max s
      then (case sd_write (g_current_ch_idx s) APP_SHM_SENSORDATA_TABLE_PIECE_MAX_ITS (g_shm_data_buf s) (g_shm_data_bits s) s of None \<Rightarrow> None
        | Some s \<Rightarrow> map_option (\<lambda>s. (sd_clear s)\<lparr>g_sensor_data_piece_cnt := 0\<rparr>) (during s))
      else Some s)"

definition shm_timer_handler :: "sd_state \<Rightarrow> sd_state option" where
  "shm_timer_handler = shm_timer_handler_during Some"

lemma shm_timer_handler_alone: "shm_timer_handler s =
     (let s = sd_time_bit (s\<lparr>g_timer_on := False\<rparr>) in
      if 0 < g_sensor_data_piece_cnt s \<and> g_sensor_data_piece_cnt s \<le> g_sensor_data_piece_max s
      then map_option (\<lambda>s. s\<lparr>g_sensor_data_piece_cnt := 0\<rparr>) (sd_write_t (g_current_ch_idx s) APP_SHM_SENSORDATA_TABLE_PIECE_MAX_ITS s)
      else Some s)"
  by (simp add: shm_timer_handler_def shm_timer_handler_during_def sd_write_t_def Let_def option.map_comp comp_def split: option.splits)

section \<open>A row\<close>

definition sd_channel :: "sql_state \<Rightarrow> u32 \<Rightarrow> u8 option" where
  "sd_channel q n =
     (case g_modbus_reg_addr_mode q of
        MODBUS_REG_ADDR_EXTENSIBLE_MODE \<Rightarrow> find_chn n (chn_nameid_map q)
      | MODBUS_REG_ADDR_EFFICIENT_MODE \<Rightarrow> map_option (\<lambda>i. em_ch (efficient_chn_nameid_map q ! i))
          (List.find (\<lambda>i. n = em_nameid (efficient_chn_nameid_map q ! i) \<and> em_validflag (efficient_chn_nameid_map q ! i) = 1)
             [1..<BULLET_GW_SENSOR_NUM_MAX + 1]))"

definition sd_insert_during ::
    "(nat \<Rightarrow> sd_state \<Rightarrow> sd_state option) \<Rightarrow> sql_state \<Rightarrow> sd_piece \<Rightarrow> nat option \<Rightarrow> bool list \<Rightarrow> sd_state \<Rightarrow> sd_state option" where
  "sd_insert_during during q p tid ts s =
     (if pc_dataType p \<in> {1, 3, 4} then Some (s\<lparr>sd_w_flag := True\<rparr>)
      else case sd_channel q (pc_nameId p) of
        None \<Rightarrow> Some (s\<lparr>sd_w_flag := True\<rparr>)
      | Some c \<Rightarrow>
          (case during 0 (s\<lparr>g_former_ch_idx := g_current_ch_idx s, g_current_ch_idx := c\<rparr>) of None \<Rightarrow> None
           | Some s \<Rightarrow>
               if pc_type p = TYPE_STR_INSIGHT_P
               then sd_insert_p_during (during 1) p tid ts (s\<lparr>g_sensor_data_piece_max := of_nat APP_SHM_SENSORDATA_TABLE_PIECE_MAX_PRS\<rparr>)
               else if pc_type p = TYPE_STR_INSIGHT_PP then sd_after_t ts s
               else sd_insert_t p tid ts s))"

definition sd_insert :: "sql_state \<Rightarrow> sd_piece \<Rightarrow> nat option \<Rightarrow> bool list \<Rightarrow> sd_state \<Rightarrow> sd_state option" where
  "sd_insert = sd_insert_during (\<lambda>_. Some)"

lemma sd_insert_alone: "sd_insert q p tid ts s =
     (if pc_dataType p \<in> {1, 3, 4} then Some (s\<lparr>sd_w_flag := True\<rparr>)
      else case sd_channel q (pc_nameId p) of
        None \<Rightarrow> Some (s\<lparr>sd_w_flag := True\<rparr>)
      | Some c \<Rightarrow>
          let s = s\<lparr>g_former_ch_idx := g_current_ch_idx s, g_current_ch_idx := c\<rparr> in
          if pc_type p = TYPE_STR_INSIGHT_P
          then sd_insert_p p tid ts (s\<lparr>g_sensor_data_piece_max := of_nat APP_SHM_SENSORDATA_TABLE_PIECE_MAX_PRS\<rparr>)
          else if pc_type p = TYPE_STR_INSIGHT_PP then sd_after_t ts s
          else sd_insert_t p tid ts s)"
  by (simp add: sd_insert_def sd_insert_during_def sd_insert_p_def Let_def split: option.splits)

text \<open>
  The message of a row.  It is dropped when the last command on the database has failed; with a positive sequence number (field 1) it
  updates a row and is not collected; with field 25 only its first field counts.  \<^term>\<open>ok\<close> is the result of its own command.
\<close>

fun sd_positive :: "gw_pro_data_t list \<Rightarrow> bool option" where
  "sd_positive [] = Some False"
| "sd_positive ((f, v) # xs) =
     (if f = 1 then (case v of Data_uint64 n \<Rightarrow> map_option (\<lambda>b. 0 < n \<or> b) (sd_positive xs) | _ \<Rightarrow> None) else sd_positive xs)"

definition sd_fields :: "gw_pro_data_t list \<Rightarrow> gw_pro_data_t list" where
  "sd_fields xs = (if list_ex (\<lambda>(f, v). f = 25) xs then take 1 xs else xs)"

definition sd_row_during ::
    "(nat \<Rightarrow> sd_state \<Rightarrow> sd_state option) \<Rightarrow> sql_state \<Rightarrow> gw_pro_data_t list \<Rightarrow> nat option \<Rightarrow> bool list \<Rightarrow> bool \<Rightarrow> sd_state \<Rightarrow> sd_state option" where
  "sd_row_during during q xs tid ts ok s =
     (if \<not> sd_status s then Some s
      else case sd_positive xs of
        None \<Rightarrow> None
      | Some pos \<Rightarrow>
          if pos \<or> \<not> modbus_feature_enable q then Some (s\<lparr>sd_status := ok\<rparr>)
          else case table_update_data_convert_sd (sd_fields xs) of
            None \<Rightarrow> None
          | Some p \<Rightarrow> map_option (\<lambda>s. s\<lparr>sd_status := ok\<rparr>) (sd_insert_during during q p tid ts s))"

definition sd_row :: "sql_state \<Rightarrow> gw_pro_data_t list \<Rightarrow> nat option \<Rightarrow> bool list \<Rightarrow> bool \<Rightarrow> sd_state \<Rightarrow> sd_state option" where
  "sd_row = sd_row_during (\<lambda>_. Some)"

lemma sd_row_alone: "sd_row q xs tid ts ok s =
     (if \<not> sd_status s then Some s
      else case sd_positive xs of
        None \<Rightarrow> None
      | Some pos \<Rightarrow>
          if pos \<or> \<not> modbus_feature_enable q then Some (s\<lparr>sd_status := ok\<rparr>)
          else case table_update_data_convert_sd (sd_fields xs) of
            None \<Rightarrow> None
          | Some p \<Rightarrow> map_option (\<lambda>s. s\<lparr>sd_status := ok\<rparr>) (sd_insert q p tid ts s))"
  by (simp only: sd_row_def sd_row_during_def sd_insert_def)

section \<open>Sequences of steps\<close>

text \<open>
  A command on another table leaves some flag and some result.  The handler that runs during a row, or during which a row is handled, is the one
  of the Insight-T sensors, or that of a Predict sensor with its timer.
\<close>

datatype sd_event = Sd_row "gw_pro_data_t list" "nat option" "bool list" bool | Sd_timer_p nat | Sd_timer_t | Sd_command bool bool
  | Sd_row_timer nat "nat option" "gw_pro_data_t list" "nat option" "bool list" bool
  | Sd_timer_row "nat option" "gw_pro_data_t list" "nat option" "bool list" bool

definition sd_handler :: "(sd_state \<Rightarrow> sd_state option) \<Rightarrow> nat option \<Rightarrow> sd_state \<Rightarrow> sd_state option" where
  "sd_handler during h s =
     (case h of None \<Rightarrow> if g_timer_on s then shm_timer_handler_during during s else Some s
      | Some tid \<Rightarrow> shm_timer_handler_p_during during tid s)"

definition sd_step :: "sql_state \<Rightarrow> sd_event \<Rightarrow> sd_state \<Rightarrow> sd_state option" where
  "sd_step q e s =
     (case e of
        Sd_row xs tid ts ok \<Rightarrow> sd_row q xs tid ts ok s
      | Sd_timer_p tid \<Rightarrow> shm_timer_handler_p tid s
      | Sd_timer_t \<Rightarrow> if g_timer_on s then shm_timer_handler s else Some s
      | Sd_command w ok \<Rightarrow> Some (s\<lparr>sd_w_flag := w, sd_status := ok\<rparr>)
      | Sd_row_timer pt h xs tid ts ok \<Rightarrow> sd_row_during (\<lambda>i. if i = pt then sd_handler Some h else Some) q xs tid ts ok s
      | Sd_timer_row h xs tid ts ok \<Rightarrow> sd_handler (sd_row q xs tid ts ok) h s)"

text \<open>Every step finds the channels as the commands on the device table have left them; while they do not change, they are one parameter.\<close>

fun sd_runs :: "(sql_state \<times> sd_event) list \<Rightarrow> sd_state \<Rightarrow> sd_state option" where
  "sd_runs [] s = Some s"
| "sd_runs ((q, e) # es) s = (case sd_step q e s of None \<Rightarrow> None | Some s \<Rightarrow> sd_runs es s)"

fun sd_run :: "sql_state \<Rightarrow> sd_event list \<Rightarrow> sd_state \<Rightarrow> sd_state option" where
  "sd_run q [] s = Some s"
| "sd_run q (e # es) s = (case sd_step q e s of None \<Rightarrow> None | Some s \<Rightarrow> sd_run q es s)"

lemma sd_run_same_channels: "sd_run q es s = sd_runs (map (Pair q) es) s"
  by (induction es arbitrary: s) (auto split: option.splits)

end
