(* ===== verification/Sql_Collect.thy ===== *)
theory Sql_Collect
  imports Sql_Sdata
begin

text \<open>
  What the collection of sensor data achieves: a report of an Insight-T sensor and a set of a Predict sensor arrive in the place of the
  sensor's channel; and where it fails.
\<close>

section \<open>The channel of a sensor\<close>

lemma channel_of_row:
  assumes "sql_reachable q" "dev_rows q (int (unat n)) \<noteq> None"
  shows "\<exists>i \<in> {1..40}. sd_channel q n = Some (of_nat i) \<and> chn_nameid_map q ! i = \<lparr>cm_validflag = 1, cm_ch = of_nat i, cm_nameid = n\<rparr>"
proof -
  have inv: "chn_inv q" by (rule reachable_chn_inv [OF assms(1)])
  obtain i where i: "i \<in> {1..40}" "taken q i" "int (unat n) = int (unat (holder q i))" using row_has_place [OF inv assms(2)] by blast
  have n: "n = holder q i" using i(3) by (auto intro: unsigned_word_eqI)
  have "g_modbus_reg_addr_mode q = MODBUS_REG_ADDR_EXTENSIBLE_MODE" using inv by (simp add: chn_inv_def)
  then show ?thesis using i(1) find_chn_holder [OF inv i(1,2)] taken_entry(1) [OF inv i(1,2)] n by (auto simp: sd_channel_def)
qed

lemma channel_range:
  assumes "sql_reachable q" "sd_channel q n = Some c"
  shows "1 \<le> unat c \<and> unat c \<le> 40"
    and "sd_channel q m = Some c \<Longrightarrow> m = n"
proof -
  have inv: "chn_inv q" by (rule reachable_chn_inv [OF assms(1)])
  have mode: "g_modbus_reg_addr_mode q = MODBUS_REG_ADDR_EXTENSIBLE_MODE" using inv by (simp add: chn_inv_def)
  have *: "\<exists>i \<in> {1..40}. taken q i \<and> c = of_nat i \<and> k = holder q i" if k: "sd_channel q k = Some c" for k
  proof -
    obtain i where f: "List.find (\<lambda>i. k = cm_nameid (chn_nameid_map q ! i) \<and> cm_validflag (chn_nameid_map q ! i) = 1)
        [1..<BULLET_GW_SENSOR_NUM_MAX + 1] = Some i" "c = cm_ch (chn_nameid_map q ! i)"
      using k mode by (auto simp: sd_channel_def find_chn_def simp del: upt_Suc)
    have i: "i \<in> {1..40}" "k = cm_nameid (chn_nameid_map q ! i)" "cm_validflag (chn_nameid_map q ! i) = 1" "c = cm_ch (chn_nameid_map q ! i)"
      using f(1) [unfolded find_upt] f(2) by (auto simp: BULLET_GW_SENSOR_NUM_MAX_def)
    then have t: "taken q i" by (auto simp: taken_def zero_chn_def)
    then have "cm_ch (chn_nameid_map q ! i) = of_nat i" using arg_cong [OF taken_entry(1) [OF inv i(1) t], of cm_ch] by simp
    then show ?thesis using i t by (auto simp: holder_def)
  qed
  have u: "unat (of_nat i :: u8) = i" if "i \<in> {1..40}" for i using that by (simp add: unat_of_nat)
  show "1 \<le> unat c \<and> unat c \<le> 40" using * [OF assms(2)] u by auto
  assume "sd_channel q m = Some c"
  then obtain i j where "i \<in> {1..40}" "j \<in> {1..40}" "c = of_nat i" "c = of_nat j" "m = holder q i" "n = holder q j"
    using * [OF assms(2)] * by blast
  then show "m = n" using u by metis
qed

section \<open>A report of an Insight-T sensor\<close>

definition report_piece :: "sit_dtpacket \<Rightarrow> sit_data_type \<Rightarrow> sd_piece" where
  "report_piece p t = \<lparr>pc_nameId = ad_nameId (ad_data p), pc_type = TYPE_STR_INSIGHT_T, pc_sampleTime = tstamp p,
     pc_dataType = ucast (sit_measurement_type t), pc_value = sit_value p t, pc_product = 7\<rparr>"

lemma ascii_fits: "dev_text (Data_char (ascii ''Insight-T'')) = Some (ascii ''Insight-T'')" "c_string (ascii ''Digit'') = ascii ''Digit''"
  by (simp_all add: dev_text_def ascii_def c_string_def)

lemma report_converted: "table_update_data_convert_sd (sd_fields (to_fill_dtunit_array_for_sensordata_writing_sit p t)) = Some (report_piece p t)"
  by (simp add: table_update_data_convert_sd_def to_fill_dtunit_array_for_sensordata_writing_sit_def sd_convert_field_def ascii_fits
      union_uint8_def report_piece_def sit_value_def TYPE_STR_INSIGHT_T_def zero_piece_def sd_fields_def split: sit_data_type.splits)

lemma report_no_update: "sd_positive (to_fill_dtunit_array_for_sensordata_writing_sit p t) = Some False"
  by (simp add: to_fill_dtunit_array_for_sensordata_writing_sit_def)

lemma report_type: "pc_type (report_piece p t) = TYPE_STR_INSIGHT_T" "pc_nameId (report_piece p t) = ad_nameId (ad_data p)"
  "pc_dataType (report_piece p t) \<notin> {1, 3, 4}" "TYPE_STR_INSIGHT_T \<noteq> TYPE_STR_INSIGHT_P" "TYPE_STR_INSIGHT_T \<noteq> TYPE_STR_INSIGHT_PP"
  using type_strings by (auto simp: report_piece_def sit_measurement_type_def split: sit_data_type.splits)

definition sit_index :: "sit_data_type \<Rightarrow> nat" where
  "sit_index t = (case t of SIT_DT_VCC \<Rightarrow> 0 | SIT_DT_MTEMP \<Rightarrow> 1 | SIT_DT_ETEMP \<Rightarrow> 2 | SIT_DT_RSSI \<Rightarrow> 3)"

lemma report_index: "shm_get_measure_type_idx_t (pc_dataType (report_piece p t)) = sit_index t" "sit_index t < 4"
  by (cases t; simp add: report_piece_def sit_measurement_type_def shm_get_measure_type_idx_t_def sit_index_def)+

text \<open>A buffer in which \<^term>\<open>k\<close> rows of a sensor have been collected.\<close>

definition collecting :: "u32 \<Rightarrow> u8 \<Rightarrow> nat \<Rightarrow> sd_piece list \<Rightarrow> u64 \<Rightarrow> (sd_piece list \<times> u64) list \<Rightarrow> sd_state \<Rightarrow> bool" where
  "collecting n c k buf bits places s \<longleftrightarrow> g_former_nameid s = n \<and> g_current_ch_idx s = c \<and> unat (g_sensor_data_piece_cnt s) = k
     \<and> g_shm_data_buf s = buf \<and> g_shm_data_bits s = bits \<and> sd_places s = places \<and> sd_status s"

lemma row_reduces:
  assumes "modbus_feature_enable q" "sd_channel q (ad_nameId (ad_data p)) = Some c" "sd_status s"
  shows "sd_row q (to_fill_dtunit_array_for_sensordata_writing_sit p t) tid ts True s =
    map_option (\<lambda>s. s\<lparr>sd_status := True\<rparr>) (sd_insert_t (report_piece p t) tid ts (s\<lparr>g_former_ch_idx := g_current_ch_idx s, g_current_ch_idx := c\<rparr>))"
  using assms report_no_update report_type(3) [of p t]
  by (simp add: sd_row_alone report_converted sd_insert_alone report_type del: insert_iff)

lemma report_first_row:
  assumes "modbus_feature_enable q" "sd_channel q (ad_nameId (ad_data p)) = Some c" "sd_status s" "g_sensor_data_piece_cnt s = 0" "tid \<noteq> None"
  shows "\<exists>s'. sd_row q (to_fill_dtunit_array_for_sensordata_writing_sit p t) tid ts True s = Some s'
    \<and> collecting (ad_nameId (ad_data p)) c 1 ((g_shm_data_buf s)[sit_index t := report_piece p t])
        (shm_set_sd_bit_map MODBUS_SENSOR_TYPE_T (sit_index t) (g_shm_data_bits s)) (sd_places s) s'"
proof -
  obtain t0 where "tid = Some t0" using assms(5) by blast
  then show ?thesis
    using assms(4) report_index(2) [of t]
    unfolding row_reduces [OF assms(1-3)] sd_insert_t_def Let_def
    by (auto simp: sd_insert_same_def sd_insert_other_def Let_def report_type report_index(1) sd_store_def collecting_def assms(3)
        APP_SHM_SENSORDATA_TABLE_PIECE_MAX_ITS_def)
qed

lemma report_next_row:
  assumes "modbus_feature_enable q" "sd_channel q (ad_nameId (ad_data p)) = Some c"
    "collecting (ad_nameId (ad_data p)) c k buf bits places s" "1 \<le> k" "k < 3"
  shows "\<exists>s'. sd_row q (to_fill_dtunit_array_for_sensordata_writing_sit p t) tid ts True s = Some s'
    \<and> collecting (ad_nameId (ad_data p)) c (k + 1) (buf[sit_index t := report_piece p t])
        (shm_set_sd_bit_map MODBUS_SENSOR_TYPE_T (sit_index t) bits) places s'"
proof -
  have s: "sd_status s" "g_former_nameid s = ad_nameId (ad_data p)" "unat (g_sensor_data_piece_cnt s) = k" using assms(3) by (simp_all add: collecting_def)
  have "unat (g_sensor_data_piece_cnt s + 1) = k + 1" using s(3) assms(5) by (simp add: unat_word_ariths)
  moreover have "g_sensor_data_piece_cnt s + 1 \<noteq> 1" using s(3) assms(4) by auto
  ultimately show ?thesis
    using assms(3,5) s report_index(2) [of t]
    unfolding row_reduces [OF assms(1,2) s(1)] sd_insert_t_def Let_def
    by (auto simp: sd_insert_same_def Let_def report_type report_index(1) sd_store_def collecting_def APP_SHM_SENSORDATA_TABLE_PIECE_MAX_ITS_def)
qed

lemma report_last_row:
  assumes "modbus_feature_enable q" "sd_channel q (ad_nameId (ad_data p)) = Some c" "1 \<le> unat c \<and> unat c \<le> length places"
    "collecting (ad_nameId (ad_data p)) c 3 buf bits places s" "length buf = 27" "first_try ts"
  shows "\<exists>s'. sd_row q (to_fill_dtunit_array_for_sensordata_writing_sit p t) tid ts True s = Some s' \<and> g_sensor_data_piece_cnt s' = 0
    \<and> sd_places s' = places[unat c - 1 := (take 4 (buf[sit_index t := report_piece p t]) @ drop 4 (fst (places ! (unat c - 1))),
        shm_set_sd_bit_map MODBUS_SENSOR_TYPE_T 4 (shm_set_sd_bit_map MODBUS_SENSOR_TYPE_T (sit_index t) bits))]"
proof -
  have s: "sd_status s" "g_former_nameid s = ad_nameId (ad_data p)" "unat (g_sensor_data_piece_cnt s) = 3" using assms(4) by (simp_all add: collecting_def)
  show ?thesis
    using assms(3-6) s report_index(2) [of t]
    unfolding row_reduces [OF assms(1,2) s(1)] sd_insert_t_def Let_def
    by (auto simp: sd_insert_same_def Let_def report_type report_index(1) sd_store_def collecting_def APP_SHM_SENSORDATA_TABLE_PIECE_MAX_ITS_def
        sd_time_bit_def sd_write_t_def sd_write_def sd_clear_def SHM_SD_IDX_LAST_TEMP_SENSING_TIME_T_def)
qed

lemma t_bits: "shm_set_sd_bit_map MODBUS_SENSOR_TYPE_T 4 (shm_set_sd_bit_map MODBUS_SENSOR_TYPE_T 0 (shm_set_sd_bit_map MODBUS_SENSOR_TYPE_T 3
     (shm_set_sd_bit_map MODBUS_SENSOR_TYPE_T 2 (shm_set_sd_bit_map MODBUS_SENSOR_TYPE_T 1 b)))) = or b 0x1F"
proof -
  have "(push_bit 4 1 :: u64) = 0x10" "(push_bit 3 1 :: u64) = 8" "(push_bit 2 1 :: u64) = 4" "(push_bit 1 1 :: u64) = 2" by simp_all
  moreover have "or (or (or (or (2 :: u64) 4) 8) 1) 0x10 = 0x1F" by simp
  ultimately show ?thesis
    by (simp add: shm_set_sd_bit_map_def APP_SHM_SENSORDATA_TABLE_PIECE_MAX_ITS_def or.assoc [symmetric] del: push_bit_numeral)
       (simp add: or.assoc)
qed

lemma report_arrives:
  assumes q: "sql_reachable q" "dev_rows q (int (unat (ad_nameId (ad_data p)))) \<noteq> None"
    and s: "sd_status s" "g_sensor_data_piece_cnt s = 0" "length (g_shm_data_buf s) = 27" "length (sd_places s) = 40"
    and t: "t1 \<noteq> None" "first_try ts4"
  shows "\<exists>s' i. i \<in> {1..40} \<and> chn_nameid_map q ! i = \<lparr>cm_validflag = 1, cm_ch = of_nat i, cm_nameid = ad_nameId (ad_data p)\<rparr>
    \<and> sd_run q (map (\<lambda>(t, tid, ts). Sd_row (to_fill_dtunit_array_for_sensordata_writing_sit p t) tid ts True)
         [(SIT_DT_MTEMP, t1, ts1), (SIT_DT_ETEMP, t2, ts2), (SIT_DT_RSSI, t3, ts3), (SIT_DT_VCC, t4, ts4)]) s = Some s'
    \<and> sd_places s' = (sd_places s)[i - 1 := (map (report_piece p) [SIT_DT_VCC, SIT_DT_MTEMP, SIT_DT_ETEMP, SIT_DT_RSSI]
         @ drop 4 (fst (sd_places s ! (i - 1))), or (g_shm_data_bits s) 0x1F)]"
proof -
  let ?n = "ad_nameId (ad_data p)"
  obtain i where i: "i \<in> {1..40}" "sd_channel q ?n = Some (of_nat i)"
    "chn_nameid_map q ! i = \<lparr>cm_validflag = 1, cm_ch = of_nat i, cm_nameid = ?n\<rparr>" using channel_of_row [OF q] by blast
  have u: "unat (of_nat i :: u8) = i" using i(1) by (simp add: unat_of_nat)
  have f: "modbus_feature_enable q" using reachable_chn_inv [OF q(1)] by (simp add: chn_inv_def)
  note x = sit_index_def sit_data_type.case
  obtain s1 where 1: "sd_row q (to_fill_dtunit_array_for_sensordata_writing_sit p SIT_DT_MTEMP) t1 ts1 True s = Some s1"
    "collecting ?n (of_nat i) 1 ((g_shm_data_buf s)[1 := report_piece p SIT_DT_MTEMP])
       (shm_set_sd_bit_map MODBUS_SENSOR_TYPE_T 1 (g_shm_data_bits s)) (sd_places s) s1"
    using report_first_row [OF f i(2) s(1,2) t(1), of SIT_DT_MTEMP ts1] unfolding x by blast
  obtain s2 where 2: "sd_row q (to_fill_dtunit_array_for_sensordata_writing_sit p SIT_DT_ETEMP) t2 ts2 True s1 = Some s2"
    "collecting ?n (of_nat i) 2 ((g_shm_data_buf s)[1 := report_piece p SIT_DT_MTEMP, 2 := report_piece p SIT_DT_ETEMP])
       (shm_set_sd_bit_map MODBUS_SENSOR_TYPE_T 2 (shm_set_sd_bit_map MODBUS_SENSOR_TYPE_T 1 (g_shm_data_bits s))) (sd_places s) s2"
    using report_next_row [OF f i(2) 1(2), of SIT_DT_ETEMP t2 ts2] unfolding x by (auto simp: numeral_2_eq_2)
  obtain s3 where 3: "sd_row q (to_fill_dtunit_array_for_sensordata_writing_sit p SIT_DT_RSSI) t3 ts3 True s2 = Some s3"
    "collecting ?n (of_nat i) 3 ((g_shm_data_buf s)[1 := report_piece p SIT_DT_MTEMP, 2 := report_piece p SIT_DT_ETEMP, 3 := report_piece p SIT_DT_RSSI])
       (shm_set_sd_bit_map MODBUS_SENSOR_TYPE_T 3 (shm_set_sd_bit_map MODBUS_SENSOR_TYPE_T 2
         (shm_set_sd_bit_map MODBUS_SENSOR_TYPE_T 1 (g_shm_data_bits s)))) (sd_places s) s3"
    using report_next_row [OF f i(2) 2(2), of SIT_DT_RSSI t3 ts3] unfolding x by (auto simp: numeral_3_eq_3)
  obtain s4 where 4: "sd_row q (to_fill_dtunit_array_for_sensordata_writing_sit p SIT_DT_VCC) t4 ts4 True s3 = Some s4"
    "sd_places s4 = (sd_places s)[i - 1 := (take 4 ((g_shm_data_buf s)[1 := report_piece p SIT_DT_MTEMP, 2 := report_piece p SIT_DT_ETEMP,
         3 := report_piece p SIT_DT_RSSI, 0 := report_piece p SIT_DT_VCC]) @ drop 4 (fst (sd_places s ! (i - 1))), or (g_shm_data_bits s) 0x1F)]"
    using report_last_row [OF f i(2) _ 3(2) _ t(2), of SIT_DT_VCC t4] i(1) s(3,4) unfolding u x t_bits by auto
  have "take 4 ((g_shm_data_buf s)[1 := a, 2 := b, 3 := c, 0 := d]) = [d, a, b, c]" for a b c d
    using s(3) by (intro nth_equalityI) (auto simp: nth_list_update nth_Cons' less_Suc_eq numeral_eq_Suc)
  then show ?thesis using i 1(1) 2(1) 3(1) 4 by (auto simp: sd_step_def intro!: exI [of _ s4] exI [of _ i])
qed

text \<open>
  C16: the four rows of an accepted report arrive in the shared memory: when nothing is being collected and the semaphore is free for the
  fourth row, the place of the sensor's channel holds its voltage, board temperature, environment temperature and signal strength, with
  the bitmap that marks them and the sensing time; no other place is changed.
\<close>

theorem report_reaches_place:
  assumes q: "sql_reachable q" "dev_rows q (int (unat (ad_nameId (ad_data p)))) \<noteq> None"
    and s: "sd_status s" "g_sensor_data_piece_cnt s = 0" "length (g_shm_data_buf s) = 27" "length (sd_places s) = 40"
    and t: "t1 \<noteq> None" "first_try ts4"
  shows "\<exists>s' i. i \<in> {1..40} \<and> chn_nameid_map q ! i = \<lparr>cm_validflag = 1, cm_ch = of_nat i, cm_nameid = ad_nameId (ad_data p)\<rparr>
    \<and> sd_run q (map (\<lambda>(t, tid, ts). Sd_row (to_fill_dtunit_array_for_sensordata_writing_sit p t) tid ts True)
         [(SIT_DT_MTEMP, t1, ts1), (SIT_DT_ETEMP, t2, ts2), (SIT_DT_RSSI, t3, ts3), (SIT_DT_VCC, t4, ts4)]) s = Some s'
    \<and> sd_places s' = (sd_places s)[i - 1 := (map (report_piece p) [SIT_DT_VCC, SIT_DT_MTEMP, SIT_DT_ETEMP, SIT_DT_RSSI]
         @ drop 4 (fst (sd_places s ! (i - 1))), or (g_shm_data_bits s) 0x1F)]"
  by (rule report_arrives [OF assms])

definition sample_dtpacket :: sit_dtpacket where
  "sample_dtpacket = \<lparr>tstamp = 1000, dp_event_type = 0, dp_addr_type = 0, dp_addr = [1, 2, 3, 4, 5, 6], dp_rssi = 0xC8,
     ad_data = zero_ad_packet\<lparr>ad_nameId := 7\<rparr>\<rparr>"

theorem report_reaches_place_witness:
  "\<exists>s' i. i \<in> {1..40} \<and> chn_nameid_map (fill 7) ! i = \<lparr>cm_validflag = 1, cm_ch = of_nat i, cm_nameid = ad_nameId (ad_data sample_dtpacket)\<rparr>
    \<and> sd_run (fill 7) (map (\<lambda>(t, tid, ts). Sd_row (to_fill_dtunit_array_for_sensordata_writing_sit sample_dtpacket t) tid ts True)
         [(SIT_DT_MTEMP, Some 5, []), (SIT_DT_ETEMP, None, []), (SIT_DT_RSSI, None, []), (SIT_DT_VCC, None, [True])]) sd_initial = Some s'
    \<and> sd_places s' = (sd_places sd_initial)[i - 1 := (map (report_piece sample_dtpacket) [SIT_DT_VCC, SIT_DT_MTEMP, SIT_DT_ETEMP, SIT_DT_RSSI]
         @ drop 4 (fst (sd_places sd_initial ! (i - 1))), or (g_shm_data_bits sd_initial) 0x1F)]"
proof -
  have n: "ad_nameId (ad_data sample_dtpacket) = 7" by (simp add: sample_dtpacket_def)
  have f: "sql_reachable (fill 7)" "dev_rows (fill 7) (int (unat (ad_nameId (ad_data sample_dtpacket)))) \<noteq> None"
    using fill_steps [of 7] unfolding n by force+
  have s: "sd_status sd_initial" "g_sensor_data_piece_cnt sd_initial = 0" "length (g_shm_data_buf sd_initial) = 27" "length (sd_places sd_initial) = 40"
    by (simp_all add: sd_initial_def)
  show ?thesis by (rule report_reaches_place [OF f s]) (simp_all add: first_try_def)
qed

end
