(* ===== verification/Sql_Place.thy ===== *)
theory Sql_Place
  imports Sql_Collect
begin

text \<open>
  Sensor data stay at their own channel as long as all sensors are of one kind; and the sequences of steps that break the collection.
\<close>

section \<open>Pieces at their place\<close>

definition piece_index :: "sd_piece \<Rightarrow> nat" where
  "piece_index p = (if pc_type p = TYPE_STR_INSIGHT_P then shm_sd_measType_to_idx ! unat (pc_dataType p)
     else shm_get_measure_type_idx_t (pc_dataType p))"

definition pieces_ok :: "sql_state \<Rightarrow> u8 \<Rightarrow> sd_piece list \<Rightarrow> bool" where
  "pieces_ok q c buf \<longleftrightarrow> length buf = 27
     \<and> (\<forall>k < 27. buf ! k = zero_piece \<or> sd_channel q (pc_nameId (buf ! k)) = Some c \<and> piece_index (buf ! k) = k)"

definition places_ok :: "sql_state \<Rightarrow> sd_state \<Rightarrow> bool" where
  "places_ok q s \<longleftrightarrow> length (sd_places s) = 40 \<and> (\<forall>c \<in> {1..40}. pieces_ok q (of_nat c) (fst (sd_places s ! (c - 1))))"

lemma pieces_ok_zero: "pieces_ok q c (replicate 27 zero_piece)"
  by (simp add: pieces_ok_def)

lemma pieces_ok_put:
  assumes "pieces_ok q c buf" "sd_channel q (pc_nameId p) = Some c" "piece_index p = k"
  shows "pieces_ok q c (buf[k := p])"
proof -
  have "buf[k := p] ! j = zero_piece \<or> sd_channel q (pc_nameId (buf[k := p] ! j)) = Some c \<and> piece_index (buf[k := p] ! j) = j" if j: "j < 27" for j
  proof (cases "j = k")
    case True
    then show ?thesis using assms j by (simp add: pieces_ok_def)
  next
    case False
    then show ?thesis using assms(1) j by (simp add: pieces_ok_def)
  qed
  then show ?thesis using assms(1) by (simp add: pieces_ok_def)
qed

lemma pieces_ok_length: "pieces_ok q c buf \<Longrightarrow> length buf = 27"
  by (simp add: pieces_ok_def)

lemma sd_write_ok:
  assumes "places_ok q s" "pieces_ok q c buf" "1 \<le> unat c \<and> unat c \<le> 40" "k \<le> 27"
  shows "\<exists>pl. sd_write c k buf bits s = Some (s\<lparr>sd_places := pl\<rparr>) \<and> places_ok q (s\<lparr>sd_places := pl\<rparr>)"
proof -
  let ?old = "fst (sd_places s ! (unat c - 1))"
  let ?pl = "(sd_places s)[unat c - 1 := (take k buf @ drop k ?old, bits)]"
  have len: "length (sd_places s) = 40" "length buf = 27" using assms(1,2) by (simp_all add: places_ok_def pieces_ok_def)
  have old: "pieces_ok q c ?old" using assms(1,3) by (auto simp: places_ok_def dest: bspec [of _ _ "unat c"])
  have new: "pieces_ok q c (take k buf @ drop k ?old)"
    unfolding pieces_ok_def
  proof (intro conjI allI impI)
    show "length (take k buf @ drop k ?old) = 27" using old assms(4) len by (simp add: pieces_ok_def)
    fix l :: nat assume l: "l < 27"
    have "(take k buf @ drop k ?old) ! l = (if l < k then buf ! l else ?old ! l)"
      using l len old assms(4) by (auto simp: nth_append pieces_ok_def)
    then show "(take k buf @ drop k ?old) ! l = zero_piece \<or>
        sd_channel q (pc_nameId ((take k buf @ drop k ?old) ! l)) = Some c \<and> piece_index ((take k buf @ drop k ?old) ! l) = l"
      using assms(2) old l by (auto simp: pieces_ok_def)
  qed
  have "pieces_ok q (of_nat d) (fst (?pl ! (d - 1)))" if d: "d \<in> {1..40}" for d
  proof (cases "d = unat c")
    case True
    have "?pl ! (d - 1) = (take k buf @ drop k ?old, bits)" unfolding True
      by (rule nth_list_update_eq) (use len assms(3) in linarith)
    then show ?thesis using new True by simp
  next
    case False
    then have "?pl ! (d - 1) = sd_places s ! (d - 1)" using d assms(3) by (intro nth_list_update_neq) auto
    then show ?thesis using assms(1) d by (simp add: places_ok_def)
  qed
  then have "places_ok q (s\<lparr>sd_places := ?pl\<rparr>)" using len by (simp add: places_ok_def)
  moreover have "sd_write c k buf bits s = Some (s\<lparr>sd_places := ?pl\<rparr>)" using assms(3,4) len by (simp add: sd_write_def)
  ultimately show ?thesis by blast
qed

lemma places_ok_frame: "sd_places s' = sd_places s \<Longrightarrow> places_ok q s \<Longrightarrow> places_ok q s'"
  by (simp add: places_ok_def)

section \<open>Predict sensors only\<close>

definition inst_ok :: "sql_state \<Rightarrow> appShmSensorDataInstance_t \<Rightarrow> bool" where
  "inst_ok q e \<longleftrightarrow> e = zero_instance \<or> sd_valid_flag e \<and> pieces_ok q (sd_chn_idx e) (sd_data_buf e)
     \<and> 1 \<le> unat (sd_chn_idx e) \<and> unat (sd_chn_idx e) \<le> 40 \<and> sd_piece_max e = 25"

definition inv_p :: "sql_state \<Rightarrow> sd_state \<Rightarrow> bool" where
  "inv_p q s \<longleftrightarrow> places_ok q s \<and> length (g_sd_instance s) = 8 \<and> (\<forall>i < 8. inst_ok q (g_sd_instance s ! i)) \<and> g_sensor_data_piece_cnt s = 0"

lemma bit_map_only: "\<exists>b. shm_update_sd_bit_map t e = e\<lparr>sd_bits := b\<rparr>"
proof (cases "sd_valid_flag e \<and> sd_sensor_type e \<in> {MODBUS_SENSOR_TYPE_P, MODBUS_SENSOR_TYPE_PRO}")
  case True
  show ?thesis unfolding shm_update_sd_bit_map_def Let_def if_P [OF True] by (rule exI, rule refl)
next
  case False
  show ?thesis unfolding shm_update_sd_bit_map_def Let_def if_not_P [OF False] by (rule exI [of _ "sd_bits e"]) simp
qed

lemma inst_ok_bits: "inst_ok q e \<Longrightarrow> sd_valid_flag e \<Longrightarrow> inst_ok q (shm_update_sd_bit_map t e) \<and> sd_valid_flag (shm_update_sd_bit_map t e)"
  using bit_map_only [of t e] by (auto simp: inst_ok_def zero_instance_def)

lemma inst_update: "length xs = n \<Longrightarrow> \<forall>j < n. P (xs ! j) \<Longrightarrow> P e \<Longrightarrow> \<forall>j < n. P (xs[i := e] ! j)"
  by (metis nth_list_update_eq nth_list_update_neq)

lemma sd_flush_ok:
  assumes "inv_p q s" "inst_ok q e" "sd_valid_flag e"
  shows "\<exists>s'. sd_flush i e s = Some s' \<and> inv_p q s'"
proof -
  have e: "pieces_ok q (sd_chn_idx e) (sd_data_buf e)" "1 \<le> unat (sd_chn_idx e) \<and> unat (sd_chn_idx e) \<le> 40" "unat (sd_piece_max e) \<le> 27"
    using assms(2,3) by (auto simp: inst_ok_def zero_instance_def)
  obtain pl where "sd_write (sd_chn_idx e) (unat (sd_piece_max e)) (sd_data_buf e) (sd_bits e) s = Some (s\<lparr>sd_places := pl\<rparr>)"
    "places_ok q (s\<lparr>sd_places := pl\<rparr>)"
    using sd_write_ok [OF _ e] assms(1) unfolding inv_p_def by blast
  moreover from this(2) have "inv_p q (s\<lparr>sd_places := pl, g_sd_instance := (g_sd_instance s)[i := zero_instance]\<rparr>)"
    using assms(1) inst_update [of "g_sd_instance s" 8 "inst_ok q" zero_instance i] by (simp add: inv_p_def places_ok_def inst_ok_def)
  ultimately show ?thesis by (simp add: sd_flush_alone)
qed

lemma inv_p_update: "inv_p q s \<Longrightarrow> inst_ok q e \<Longrightarrow> inv_p q (s\<lparr>g_sd_instance := (g_sd_instance s)[i := e]\<rparr>)"
  using inst_update [of "g_sd_instance s" 8 "inst_ok q" e i] by (simp add: inv_p_def places_ok_def)

lemma inv_p_flag: "inv_p q s \<Longrightarrow> inv_p q (s\<lparr>sd_w_flag := w\<rparr>)"
  by (simp add: inv_p_def places_ok_def)

lemma sd_put_ok:
  assumes "inst_ok q e" "sd_valid_flag e" "sd_channel q (pc_nameId p) = Some (sd_chn_idx e)" "piece_index p = k"
  shows "inst_ok q (sd_put k p e)" "sd_valid_flag (sd_put k p e)"
  using assms pieces_ok_put [of q "sd_chn_idx e" "sd_data_buf e" p k] by (auto simp: inst_ok_def sd_put_def zero_instance_def)

lemma sd_insert_p_ok:
  assumes q: "sql_reachable q" and inv: "inv_p q s" and p: "pc_type p = TYPE_STR_INSIGHT_P" "unat (pc_dataType p) < 64"
    "sd_channel q (pc_nameId p) = Some (g_current_ch_idx s)" and t: "tid \<noteq> None"
  shows "\<exists>s'. sd_insert_p p tid ts s = Some s' \<and> inv_p q s'"
proof -
  let ?k = "shm_sd_measType_to_idx ! unat (pc_dataType p)" and ?es = "g_sd_instance s"
  have k: "piece_index p = ?k" using p(1) by (simp add: piece_index_def)
  have l: "\<not> length shm_sd_measType_to_idx \<le> unat (pc_dataType p)" using p(2) by (simp add: shm_sd_measType_to_idx_def)
  show ?thesis
  proof (cases "sd_find (pc_nameId p) (g_current_ch_idx s) ?es")
    case (Some i)
    then have i: "i < 8" "sd_valid_flag (?es ! i)" "sd_chn_idx (?es ! i) = g_current_ch_idx s"
      by (auto simp: sd_find_def find_upt CONFIG_SHM_SENSOR_DATA_MAX_NUM_def simp del: upt_Suc)
    have "inst_ok q (?es ! i)" using inv i(1) by (simp add: inv_p_def)
    note e = sd_put_ok [OF this i(2) p(3) [folded i(3)] k]
    let ?e = "sd_put ?k p (?es ! i)"
    let ?e2 = "shm_update_sd_bit_map (sd_sensor_type ?e) ?e"
    have e2: "inst_ok q ?e2" "sd_valid_flag ?e2" using inst_ok_bits [OF e] by auto
    have "inv_p q (s\<lparr>g_sd_instance := ?es[i := ?e2]\<rparr>)" by (rule inv_p_update [OF inv e2(1)])
    then obtain s' where s': "sd_flush i ?e2 (s\<lparr>g_sd_instance := ?es[i := ?e2]\<rparr>) = Some s'" "inv_p q s'" "inv_p q (s\<lparr>g_sd_instance := ?es[i := ?e2]\<rparr>)"
      using sd_flush_ok [OF _ e2] by blast
    show ?thesis
      using l Some s' inv_p_flag [OF s'(2)] inv_p_flag [OF inv_p_update [OF inv e(1)]] by (simp add: sd_insert_p_alone Let_def)
  next
    case None
    show ?thesis
    proof (cases "sd_free ?es")
      case none: None
      then show ?thesis using l None inv_p_flag [OF inv] by (simp add: sd_insert_p_alone Let_def)
    next
      case (Some i)
      then have i: "i < 8" "\<not> sd_valid_flag (?es ! i)"
        by (auto simp: sd_free_def find_upt CONFIG_SHM_SENSOR_DATA_MAX_NUM_def simp del: upt_Suc)
      have "inst_ok q (?es ! i)" using inv i(1) by (simp add: inv_p_def)
      then have z: "?es ! i = zero_instance" using i(2) by (simp add: inst_ok_def)
      obtain t0 where t0: "tid = Some t0" using t by blast
      let ?e = "(?es ! i)\<lparr>sd_chn_idx := g_current_ch_idx s, sd_nameid := pc_nameId p, sd_valid_flag := True, sd_piece_cnt := 0,
          sd_piece_max := of_nat APP_SHM_SENSORDATA_TABLE_PIECE_MAX_PRS, sd_sensor_type := MODBUS_SENSOR_TYPE_P, sd_timer_id := t0\<rparr>"
      have "inst_ok q ?e" using channel_range(1) [OF q p(3)] pieces_ok_zero
        by (simp add: inst_ok_def z APP_SHM_SENSORDATA_TABLE_PIECE_MAX_PRS_def) (simp add: zero_instance_def pieces_ok_zero)
      from sd_put_ok(1) [OF this _ _ k] have "inst_ok q (sd_put ?k p ?e)" using p(3) by simp
      from inv_p_flag [OF inv_p_update [OF inv this]] show ?thesis using l None Some t0 by (simp add: sd_insert_p_alone Let_def)
    qed
  qed
qed

lemma timer_p_ok:
  assumes "inv_p q s"
  shows "\<exists>s'. shm_timer_handler_p tid s = Some s' \<and> inv_p q s'"
proof (cases "List.find (\<lambda>i. tid = sd_timer_id (g_sd_instance s ! i) \<and> sd_valid_flag (g_sd_instance s ! i)) [0..<CONFIG_SHM_SENSOR_DATA_MAX_NUM]")
  case None
  then show ?thesis using assms by (simp add: shm_timer_handler_p_alone)
next
  case (Some i)
  then have i: "i < 8" "sd_valid_flag (g_sd_instance s ! i)"
    by (auto simp: find_upt CONFIG_SHM_SENSOR_DATA_MAX_NUM_def simp del: upt_Suc)
  have "inst_ok q (g_sd_instance s ! i)" using assms i(1) by (simp add: inv_p_def)
  note e = inst_ok_bits [OF this i(2), of "sd_sensor_type (g_sd_instance s ! i)"]
  show ?thesis
    using Some inv_p_update [OF assms] e sd_flush_ok [OF inv_p_update [OF assms]] by (simp add: shm_timer_handler_p_alone Let_def)
qed

text \<open>Rows that can be collected: the type is one of the 64, a timer can be created, and a property of the piece holds; and no
  handler runs during a row.\<close>

fun row_event :: "(sd_piece \<Rightarrow> bool) \<Rightarrow> sd_event \<Rightarrow> bool" where
  "row_event f (Sd_row xs tid ts ok) = (tid \<noteq> None \<and> sd_positive xs \<noteq> None
     \<and> (case table_update_data_convert_sd (sd_fields xs) of None \<Rightarrow> False
          | Some p \<Rightarrow> f p \<and> unat (pc_dataType p) < 64))"
| "row_event f (Sd_timer_p tid) = True"
| "row_event f Sd_timer_t = True"
| "row_event f (Sd_command w ok) = True"
| "row_event f _ = False"

lemma inv_p_frame: "sd_places s' = sd_places s \<Longrightarrow> g_sd_instance s' = g_sd_instance s \<Longrightarrow> g_sensor_data_piece_cnt s' = g_sensor_data_piece_cnt s
  \<Longrightarrow> inv_p q s \<Longrightarrow> inv_p q s'"
  by (simp add: inv_p_def places_ok_def)

lemma inv_p_step:
  assumes q: "sql_reachable q" and inv: "inv_p q s" and e: "row_event (\<lambda>p. pc_type p = TYPE_STR_INSIGHT_P) e"
  shows "\<exists>s'. sd_step q e s = Some s' \<and> inv_p q s'"
proof (cases e)
  case (Sd_row xs tid ts ok)
  then obtain p where p: "table_update_data_convert_sd (sd_fields xs) = Some p" "pc_type p = TYPE_STR_INSIGHT_P" "unat (pc_dataType p) < 64" "tid \<noteq> None"
    and pos: "sd_positive xs \<noteq> None"
    using e by (auto split: option.splits)
  have "\<exists>s'. sd_insert q p tid ts s = Some s' \<and> inv_p q s'"
  proof (cases "pc_dataType p \<in> {1, 3, 4} \<or> sd_channel q (pc_nameId p) = None")
    case True
    then show ?thesis using inv_p_flag [OF inv] by (auto simp: sd_insert_alone)
  next
    case False
    then obtain c where c: "sd_channel q (pc_nameId p) = Some c" by blast
    let ?s = "s\<lparr>g_former_ch_idx := g_current_ch_idx s, g_current_ch_idx := c,
        g_sensor_data_piece_max := of_nat APP_SHM_SENSORDATA_TABLE_PIECE_MAX_PRS\<rparr>"
    have "inv_p q ?s" by (rule inv_p_frame [OF _ _ _ inv]) simp_all
    from sd_insert_p_ok [OF q this p(2,3) _ p(4)] show ?thesis using False c p(2) by (simp add: sd_insert_alone)
  qed
  then obtain s' where "sd_insert q p tid ts s = Some s'" "inv_p q s'" by blast
  moreover have "inv_p q (s\<lparr>sd_status := ok\<rparr>)" "inv_p q (s'\<lparr>sd_status := ok\<rparr>)"
    using inv_p_frame [OF _ _ _ inv, of "s\<lparr>sd_status := ok\<rparr>"] inv_p_frame [OF _ _ _ \<open>inv_p q s'\<close>, of "s'\<lparr>sd_status := ok\<rparr>"] by simp_all
  ultimately show ?thesis using inv p(1) pos Sd_row by (auto simp add: sd_step_def sd_row_alone)
next
  case (Sd_timer_p tid)
  then show ?thesis using timer_p_ok [OF inv] by (simp add: sd_step_def)
next
  case Sd_timer_t
  have c: "g_sensor_data_piece_cnt s = 0" using inv by (simp add: inv_p_def)
  have "shm_timer_handler s = Some (sd_time_bit (s\<lparr>g_timer_on := False\<rparr>))" by (simp add: shm_timer_handler_alone Let_def sd_time_bit_def c)
  moreover have "inv_p q (sd_time_bit (s\<lparr>g_timer_on := False\<rparr>))" by (rule inv_p_frame [OF _ _ _ inv]) (simp_all add: sd_time_bit_def)
  ultimately show ?thesis using Sd_timer_t inv by (simp add: sd_step_def)
next
  case (Sd_command w ok)
  have "inv_p q (s\<lparr>sd_w_flag := w, sd_status := ok\<rparr>)" by (rule inv_p_frame [OF _ _ _ inv]) simp_all
  then show ?thesis using Sd_command by (simp add: sd_step_def)
qed (use e in simp_all)

lemma run_keeps:
  assumes "\<And>e s. P s \<Longrightarrow> row_event f e \<Longrightarrow> \<exists>s'. sd_step q e s = Some s' \<and> P s'"
  shows "P s \<Longrightarrow> list_all (row_event f) es \<Longrightarrow> \<exists>s'. sd_run q es s = Some s' \<and> P s'"
proof (induction es arbitrary: s)
  case (Cons e es)
  obtain s1 where "sd_step q e s = Some s1" "P s1" using assms [OF Cons.prems(1)] Cons.prems(2) by auto
  then show ?case using Cons.IH [of s1] Cons.prems(2) by auto
qed simp

lemma inv_p_initial: "inv_p q sd_initial"
proof -
  have "pieces_ok q c (fst (replicate 40 (replicate 27 zero_piece, 0 :: u64) ! (d - 1)))" if "d \<in> {1..40}" for c d
  proof -
    have "replicate 40 (replicate 27 zero_piece, 0 :: u64) ! (d - 1) = (replicate 27 zero_piece, 0)" using that by (intro nth_replicate) auto
    then show ?thesis using pieces_ok_zero by (simp only: fst_conv)
  qed
  then show ?thesis by (simp add: inv_p_def sd_initial_def places_ok_def inst_ok_def)
qed

lemma places_ok_out:
  assumes "places_ok q s" "c \<in> {1..40}" "k < 27"
  shows "fst (sd_places s ! (c - 1)) ! k = zero_piece
    \<or> sd_channel q (pc_nameId (fst (sd_places s ! (c - 1)) ! k)) = Some (of_nat c) \<and> piece_index (fst (sd_places s ! (c - 1)) ! k) = k"
  using assms unfolding places_ok_def pieces_ok_def by blast

section \<open>Insight-T sensors only\<close>

text \<open>What is in the common buffer belongs to the sensor of the last row and to the channel of that row.\<close>

definition buf_zero :: "sd_state \<Rightarrow> bool" where
  "buf_zero s \<longleftrightarrow> g_shm_data_buf s = replicate 27 zero_piece"

definition inv_t :: "sql_state \<Rightarrow> sd_state \<Rightarrow> bool" where
  "inv_t q s \<longleftrightarrow> places_ok q s \<and> g_sd_instance s = replicate 8 zero_instance
     \<and> pieces_ok q (g_current_ch_idx s) (g_shm_data_buf s)
     \<and> (buf_zero s \<or> sd_channel q (g_former_nameid s) = Some (g_current_ch_idx s))
     \<and> (if g_sensor_data_piece_cnt s = 0 then buf_zero s
        else unat (g_sensor_data_piece_cnt s) \<le> 4 \<and> 1 \<le> unat (g_current_ch_idx s) \<and> unat (g_current_ch_idx s) \<le> 40)"

lemma inv_t_frame: "sd_places s' = sd_places s \<Longrightarrow> g_sd_instance s' = g_sd_instance s \<Longrightarrow> g_sensor_data_piece_cnt s' = g_sensor_data_piece_cnt s
  \<Longrightarrow> g_shm_data_buf s' = g_shm_data_buf s \<Longrightarrow> g_current_ch_idx s' = g_current_ch_idx s \<Longrightarrow> g_former_nameid s' = g_former_nameid s
  \<Longrightarrow> inv_t q s \<Longrightarrow> inv_t q s'"
  by (cases "g_sensor_data_piece_cnt s = 0") (simp_all add: inv_t_def places_ok_def buf_zero_def pieces_ok_zero)

text \<open>The common part of all branches that write the buffer.\<close>

lemma sd_write_t_ok:
  assumes "places_ok q s" "pieces_ok q c (g_shm_data_buf s)" "1 \<le> unat c \<and> unat c \<le> 40" "k \<le> 27"
  shows "\<exists>pl. sd_write_t c k s = Some (s\<lparr>sd_places := pl, g_shm_data_buf := replicate 27 zero_piece, g_shm_data_bits := 0\<rparr>)
    \<and> places_ok q (s\<lparr>sd_places := pl, g_shm_data_buf := replicate 27 zero_piece, g_shm_data_bits := 0\<rparr>)"
proof -
  obtain pl where "sd_write c k (g_shm_data_buf s) (g_shm_data_bits s) s = Some (s\<lparr>sd_places := pl\<rparr>)" "places_ok q (s\<lparr>sd_places := pl\<rparr>)"
    using sd_write_ok [OF assms] by blast
  then show ?thesis by (auto simp: sd_write_t_def sd_clear_def places_ok_def)
qed

lemma inv_t_cleared:
  assumes "places_ok q s" "g_sd_instance s = replicate 8 zero_instance" "buf_zero s"
    "g_sensor_data_piece_cnt s = 0 \<or> unat (g_sensor_data_piece_cnt s) \<le> 4 \<and> 1 \<le> unat (g_current_ch_idx s) \<and> unat (g_current_ch_idx s) \<le> 40"
  shows "inv_t q s"
  using assms pieces_ok_zero by (auto simp: inv_t_def buf_zero_def)

lemma inv_t_stored:
  assumes "places_ok q s" "g_sd_instance s = replicate 8 zero_instance" "pieces_ok q (g_current_ch_idx s) buf"
    "sd_channel q n = Some (g_current_ch_idx s)" "g_former_nameid s = n" "pc_nameId p = n" "piece_index p = k"
    "g_shm_data_buf s = buf[k := p]" "1 \<le> unat (g_sensor_data_piece_cnt s) \<and> unat (g_sensor_data_piece_cnt s) \<le> 4"
    "1 \<le> unat (g_current_ch_idx s) \<and> unat (g_current_ch_idx s) \<le> 40"
  shows "inv_t q s"
  using assms pieces_ok_put [OF assms(3), of p k] by (auto simp: inv_t_def)

lemma sd_same_ok:
  assumes "places_ok q s" "g_sd_instance s = replicate 8 zero_instance" "pieces_ok q (g_current_ch_idx s) (g_shm_data_buf s)"
    and c: "sd_channel q n = Some (g_current_ch_idx s)" "1 \<le> unat (g_current_ch_idx s) \<and> unat (g_current_ch_idx s) \<le> 40"
    and n: "g_former_nameid s = n" "pc_nameId p = n" "piece_index p = shm_get_measure_type_idx_t (pc_dataType p)"
    and cnt: "unat (g_sensor_data_piece_cnt s) \<le> 4" "g_sensor_data_piece_cnt s = 0 \<longrightarrow> buf_zero s" "g_sensor_data_piece_max s = 4" and t: "tid \<noteq> None"
  shows "\<exists>s'. sd_insert_same p tid ts s = Some s' \<and> inv_t q s'"
proof -
  let ?k = "shm_get_measure_type_idx_t (pc_dataType p)"
  obtain t0 where t0: "tid = Some t0" using t by blast
  have b: "uint (g_sensor_data_piece_cnt s) < 3 \<longleftrightarrow> unat (g_sensor_data_piece_cnt s) < 3" unfolding uint_nat by linarith
  have old: "inv_t q s" using assms(1-3) c n cnt by (auto simp: inv_t_def)
  show ?thesis
  proof (cases "unat (g_sensor_data_piece_cnt s) < 3")
    case True
    show ?thesis
    proof (cases "?k < 4")
      case k: True
      let ?s = "(sd_store ?k p s)\<lparr>g_sensor_data_piece_cnt := g_sensor_data_piece_cnt s + 1\<rparr>"
      have "unat (g_sensor_data_piece_cnt s + 1) = unat (g_sensor_data_piece_cnt s) + 1" using True by (simp add: unat_word_ariths)
      then have "inv_t q ?s" using True c assms(1-3) n
        by (intro inv_t_stored [of q _ "g_shm_data_buf s" n p ?k]) (simp_all add: sd_store_def places_ok_def)
      then have "inv_t q (?s\<lparr>sd_w_flag := True\<rparr>)" "inv_t q (?s\<lparr>g_timer_on := True, sd_w_flag := True\<rparr>)"
        using inv_t_frame [of "?s\<lparr>sd_w_flag := True\<rparr>" ?s q] inv_t_frame [of "?s\<lparr>g_timer_on := True, sd_w_flag := True\<rparr>" ?s q] by simp_all
      then show ?thesis using True k cnt(3) t0
        by (cases "g_sensor_data_piece_cnt s = 0") (simp_all add: sd_insert_same_def Let_def b APP_SHM_SENSORDATA_TABLE_PIECE_MAX_ITS_def)
    next
      case False
      have "inv_t q (s\<lparr>sd_w_flag := True\<rparr>)" using inv_t_frame [OF _ _ _ _ _ _ old, of "s\<lparr>sd_w_flag := True\<rparr>"] by simp
      then show ?thesis using True False cnt(3) by (simp add: sd_insert_same_def Let_def b APP_SHM_SENSORDATA_TABLE_PIECE_MAX_ITS_def)
    qed
  next
    case False
    show ?thesis
    proof (cases "?k < 4")
      case k: True
      let ?s = "sd_time_bit ((sd_store ?k p (s\<lparr>g_sensor_data_piece_cnt := 3, g_timer_on := False\<rparr>))\<lparr>g_sensor_data_piece_cnt := 4\<rparr>)"
      have inv: "inv_t q ?s" using False c assms(1-3) n
        by (intro inv_t_stored [of q _ "g_shm_data_buf s" n p ?k]) (simp_all add: sd_store_def sd_time_bit_def places_ok_def)
      obtain pl where w: "sd_write_t (g_current_ch_idx ?s) 4 ?s = Some (?s\<lparr>sd_places := pl, g_shm_data_buf := replicate 27 zero_piece, g_shm_data_bits := 0\<rparr>)"
        "places_ok q (?s\<lparr>sd_places := pl, g_shm_data_buf := replicate 27 zero_piece, g_shm_data_bits := 0\<rparr>)"
        using sd_write_t_ok [of q ?s "g_current_ch_idx ?s" 4] inv c(2) by (auto simp: inv_t_def sd_store_def sd_time_bit_def)
      let ?w = "?s\<lparr>sd_places := pl, g_shm_data_buf := replicate 27 zero_piece, g_shm_data_bits := 0\<rparr>"
      have fin: "inv_t q (?w\<lparr>g_sensor_data_piece_cnt := 0, sd_w_flag := f\<rparr>)" for f
        using w(2) assms(2) by (intro inv_t_cleared) (simp_all add: places_ok_def buf_zero_def sd_store_def sd_time_bit_def)
      show ?thesis
      proof (cases "first_try ts")
        case True
        then show ?thesis using False k cnt(3) w(1) fin [of True]
          by (simp add: sd_insert_same_def Let_def b APP_SHM_SENSORDATA_TABLE_PIECE_MAX_ITS_def)
             (simp add: sd_time_bit_def sd_store_def)
      next
        case nf: False
        then show ?thesis using False k cnt(3) w(1) fin [of "retry (tl ts)"] inv
          by (simp add: sd_insert_same_def Let_def b APP_SHM_SENSORDATA_TABLE_PIECE_MAX_ITS_def sd_after_t_def)
      qed
    next
      case k: False
      have "inv_t q (s\<lparr>g_sensor_data_piece_cnt := 3, g_timer_on := False, sd_w_flag := True\<rparr>)"
        using assms(1-3) c n by (simp add: inv_t_def places_ok_def)
      then show ?thesis using False k cnt(3) by (simp add: sd_insert_same_def Let_def b APP_SHM_SENSORDATA_TABLE_PIECE_MAX_ITS_def)
    qed
  qed
qed

lemma first_piece_ok:
  assumes "places_ok q s" "g_sd_instance s = replicate 8 zero_instance" "buf_zero s"
    "unat (g_sensor_data_piece_cnt s) \<le> 4" "1 \<le> unat (g_current_ch_idx s) \<and> unat (g_current_ch_idx s) \<le> 40"
    "sd_channel q n = Some (g_current_ch_idx s)" "g_former_nameid s = n" "pc_nameId p = n"
    "piece_index p = shm_get_measure_type_idx_t (pc_dataType p)"
  shows "inv_t q (if shm_get_measure_type_idx_t (pc_dataType p) < 4
     then (sd_store (shm_get_measure_type_idx_t (pc_dataType p)) p s)\<lparr>g_sensor_data_piece_cnt := 1\<rparr> else s)"
proof (cases "shm_get_measure_type_idx_t (pc_dataType p) < 4")
  case True
  then show ?thesis using assms
    by (simp, intro inv_t_stored [of q _ "replicate 27 zero_piece" n p "shm_get_measure_type_idx_t (pc_dataType p)"])
       (simp_all add: sd_store_def buf_zero_def places_ok_def pieces_ok_zero)
next
  case False
  then show ?thesis using assms by (auto intro!: inv_t_cleared)
qed

lemma inv_t_flags: "inv_t q s \<Longrightarrow> inv_t q (s\<lparr>g_timer_on := a\<rparr>)" "inv_t q s \<Longrightarrow> inv_t q (s\<lparr>sd_w_flag := b\<rparr>)" "inv_t q s \<Longrightarrow> inv_t q (s\<lparr>sd_status := c\<rparr>)"
  by (rule inv_t_frame; simp)+

lemma sd_other_ok:
  assumes "places_ok q s" "g_sd_instance s = replicate 8 zero_instance" "pieces_ok q (g_former_ch_idx s) (g_shm_data_buf s)"
    and c: "sd_channel q n = Some (g_current_ch_idx s)" "1 \<le> unat (g_current_ch_idx s) \<and> unat (g_current_ch_idx s) \<le> 40"
    and n: "pc_nameId p = n" "piece_index p = shm_get_measure_type_idx_t (pc_dataType p)"
    and cnt: "unat (g_sensor_data_piece_cnt s) \<le> 4" "g_sensor_data_piece_cnt s = 0 \<longrightarrow> buf_zero s"
      "g_sensor_data_piece_cnt s \<noteq> 0 \<longrightarrow> 1 \<le> unat (g_former_ch_idx s) \<and> unat (g_former_ch_idx s) \<le> 40" and t: "tid \<noteq> None"
  shows "\<exists>s'. sd_insert_other p tid ts s = Some s' \<and> inv_t q s'"
proof -
  obtain t0 where t0: "tid = Some t0" using t by blast
  let ?s = "s\<lparr>g_former_nameid := pc_nameId p\<rparr>"
  let ?k = "shm_get_measure_type_idx_t (pc_dataType p)"
  let ?new = "\<lambda>s. if ?k < 4 then (sd_store ?k p s)\<lparr>g_sensor_data_piece_cnt := 1\<rparr> else s"
  have new: "inv_t q (?new w)"
    if "places_ok q w" "g_sd_instance w = g_sd_instance s" "buf_zero w" "g_sensor_data_piece_cnt w = g_sensor_data_piece_cnt s"
      "g_current_ch_idx w = g_current_ch_idx s" "g_former_nameid w = n" for w
    using first_piece_ok [of q w n p] that assms by simp
  consider (none) "g_sensor_data_piece_cnt s = 0" | (now) "g_sensor_data_piece_cnt s \<noteq> 0" "first_try ts"
    | (later) "g_sensor_data_piece_cnt s \<noteq> 0" "\<not> first_try ts" by blast
  then show ?thesis
  proof cases
    case none
    have "inv_t q (?new ?s)" by (rule new) (use assms(1) cnt(2) none n in \<open>simp_all add: places_ok_def buf_zero_def\<close>)
    from inv_t_flags(1) [OF inv_t_flags(2) [OF this, of True], of True] show ?thesis using none t0
      by (simp add: sd_insert_other_def Let_def APP_SHM_SENSORDATA_TABLE_PIECE_MAX_ITS_def)
  next
    case now
    let ?b = "sd_time_bit ?s"
    obtain pl where w: "sd_write_t (g_former_ch_idx s) (unat (g_sensor_data_piece_cnt s)) ?b
        = Some (?b\<lparr>sd_places := pl, g_shm_data_buf := replicate 27 zero_piece, g_shm_data_bits := 0\<rparr>)"
      "places_ok q (?b\<lparr>sd_places := pl, g_shm_data_buf := replicate 27 zero_piece, g_shm_data_bits := 0\<rparr>)"
      using sd_write_t_ok [of q ?b "g_former_ch_idx s" "unat (g_sensor_data_piece_cnt s)"] assms(1,3) cnt now
      by (auto simp: sd_time_bit_def places_ok_def)
    have "inv_t q (?new (?b\<lparr>sd_places := pl, g_shm_data_buf := replicate 27 zero_piece, g_shm_data_bits := 0\<rparr>))"
      by (rule new) (use w(2) n in \<open>simp_all add: sd_time_bit_def buf_zero_def\<close>)
    from inv_t_flags(1) [OF inv_t_flags(2) [OF this, of True], of True] show ?thesis using now t0 w(1)
      by (simp add: sd_insert_other_def Let_def APP_SHM_SENSORDATA_TABLE_PIECE_MAX_ITS_def)
  next
    case later
    let ?b = "?s\<lparr>g_timer_on := True\<rparr>"
    obtain pl where w: "sd_write_t (g_former_ch_idx s) 4 ?b
        = Some (?b\<lparr>sd_places := pl, g_shm_data_buf := replicate 27 zero_piece, g_shm_data_bits := 0\<rparr>)"
      "places_ok q (?b\<lparr>sd_places := pl, g_shm_data_buf := replicate 27 zero_piece, g_shm_data_bits := 0\<rparr>)"
      using sd_write_t_ok [of q ?b "g_former_ch_idx s" 4] assms(1,3) cnt later by (auto simp: places_ok_def)
    have "inv_t q (?new (?b\<lparr>sd_places := pl, g_shm_data_buf := replicate 27 zero_piece, g_shm_data_bits := 0\<rparr>))"
      by (rule new) (use w(2) n in \<open>simp_all add: buf_zero_def\<close>)
    from inv_t_flags(2) [OF this, of "retry (tl ts)"] show ?thesis using later t0 w(1)
      by (simp add: sd_insert_other_def Let_def APP_SHM_SENSORDATA_TABLE_PIECE_MAX_ITS_def)
  qed
qed

definition plain_sensor :: "sd_piece \<Rightarrow> bool" where
  "plain_sensor p \<longleftrightarrow> pc_type p \<noteq> TYPE_STR_INSIGHT_P \<and> pc_type p \<noteq> TYPE_STR_INSIGHT_PP"

lemma sd_insert_t_ok:
  assumes inv: "inv_t q s" and c: "sd_channel q (pc_nameId p) = Some c" "1 \<le> unat c \<and> unat c \<le> 40"
    and p: "plain_sensor p" and t: "tid \<noteq> None"
  shows "\<exists>s'. sd_insert_t p tid ts (s\<lparr>g_former_ch_idx := g_current_ch_idx s, g_current_ch_idx := c\<rparr>) = Some s' \<and> inv_t q s'"
proof -
  let ?s = "s\<lparr>g_former_ch_idx := g_current_ch_idx s, g_current_ch_idx := c, g_sensor_data_piece_max := 4\<rparr>"
  have k: "piece_index p = shm_get_measure_type_idx_t (pc_dataType p)" using p by (simp add: piece_index_def plain_sensor_def)
  have pl: "places_ok q ?s" "g_sd_instance ?s = replicate 8 zero_instance" using inv by (simp_all add: inv_t_def places_ok_def)
  have cnt: "unat (g_sensor_data_piece_cnt ?s) \<le> 4" "g_sensor_data_piece_cnt ?s = 0 \<longrightarrow> buf_zero ?s"
    "g_sensor_data_piece_cnt ?s \<noteq> 0 \<longrightarrow> 1 \<le> unat (g_former_ch_idx ?s) \<and> unat (g_former_ch_idx ?s) \<le> 40"
    using inv by (auto simp: inv_t_def buf_zero_def split: if_splits)
  show ?thesis
  proof (cases "g_former_nameid s = pc_nameId p")
    case True
    then have "buf_zero s \<or> g_current_ch_idx s = c" using inv c(1) by (auto simp: inv_t_def)
    then have "pieces_ok q (g_current_ch_idx ?s) (g_shm_data_buf ?s)" using inv pieces_ok_zero by (auto simp: inv_t_def buf_zero_def)
    from sd_same_ok [OF pl this _ _ _ refl k cnt(1,2) _ t] show ?thesis
      using True c by (simp add: sd_insert_t_def APP_SHM_SENSORDATA_TABLE_PIECE_MAX_ITS_def)
  next
    case False
    have "pieces_ok q (g_former_ch_idx ?s) (g_shm_data_buf ?s)" using inv by (simp add: inv_t_def)
    from sd_other_ok [OF pl this _ _ refl k cnt t] show ?thesis
      using False c by (simp add: sd_insert_t_def APP_SHM_SENSORDATA_TABLE_PIECE_MAX_ITS_def)
  qed
qed

lemma inv_t_step:
  assumes q: "sql_reachable q" and inv: "inv_t q s" and e: "row_event plain_sensor e"
  shows "\<exists>s'. sd_step q e s = Some s' \<and> inv_t q s'"
proof (cases e)
  case (Sd_row xs tid ts ok)
  then obtain p where p: "table_update_data_convert_sd (sd_fields xs) = Some p" "plain_sensor p" "tid \<noteq> None"
    and pos: "sd_positive xs \<noteq> None" using e by (auto split: option.splits)
  have "\<exists>s'. sd_insert q p tid ts s = Some s' \<and> inv_t q s'"
  proof (cases "pc_dataType p \<in> {1, 3, 4} \<or> sd_channel q (pc_nameId p) = None")
    case True
    then show ?thesis using inv_t_flags(2) [OF inv] by (auto simp: sd_insert_alone)
  next
    case False
    then obtain c where c: "sd_channel q (pc_nameId p) = Some c" by blast
    show ?thesis using False c p(2) sd_insert_t_ok [OF inv c channel_range(1) [OF q c] p(2,3)]
      by (auto simp: sd_insert_alone plain_sensor_def)
  qed
  then obtain s' where "sd_insert q p tid ts s = Some s'" "inv_t q s'" by blast
  then show ?thesis using inv p(1) pos Sd_row inv_t_flags(3) [OF inv] inv_t_flags(3) by (auto simp add: sd_step_def sd_row_alone)
next
  case (Sd_timer_p tid)
  have "List.find (\<lambda>i. tid = sd_timer_id (g_sd_instance s ! i) \<and> sd_valid_flag (g_sd_instance s ! i)) [0..<CONFIG_SHM_SENSOR_DATA_MAX_NUM] = None"
    using inv by (auto simp: find_None_iff inv_t_def CONFIG_SHM_SENSOR_DATA_MAX_NUM_def zero_instance_def simp del: upt_Suc)
  then show ?thesis using Sd_timer_p inv by (simp add: sd_step_def shm_timer_handler_p_alone)
next
  case Sd_timer_t
  let ?b = "sd_time_bit (s\<lparr>g_timer_on := False\<rparr>)"
  have b: "inv_t q ?b" using inv by (intro inv_t_frame [OF _ _ _ _ _ _ inv]) (simp_all add: sd_time_bit_def)
  show ?thesis
  proof (cases "g_timer_on s \<and> 0 < g_sensor_data_piece_cnt s \<and> g_sensor_data_piece_cnt s \<le> g_sensor_data_piece_max s")
    case True
    have r: "1 \<le> unat (g_current_ch_idx s) \<and> unat (g_current_ch_idx s) \<le> 40" using inv True by (auto simp: inv_t_def split: if_splits)
    obtain pl where w: "sd_write_t (g_current_ch_idx s) 4 ?b
        = Some (?b\<lparr>sd_places := pl, g_shm_data_buf := replicate 27 zero_piece, g_shm_data_bits := 0\<rparr>)"
      "places_ok q (?b\<lparr>sd_places := pl, g_shm_data_buf := replicate 27 zero_piece, g_shm_data_bits := 0\<rparr>)"
      using sd_write_t_ok [of q ?b "g_current_ch_idx s" 4] b r by (auto simp: inv_t_def sd_time_bit_def)
    have "inv_t q (?b\<lparr>sd_places := pl, g_shm_data_buf := replicate 27 zero_piece, g_shm_data_bits := 0, g_sensor_data_piece_cnt := 0\<rparr>)"
      using w(2) inv by (intro inv_t_cleared) (simp_all add: places_ok_def buf_zero_def sd_time_bit_def inv_t_def)
    then show ?thesis using Sd_timer_t True w(1)
      by (simp add: sd_step_def shm_timer_handler_alone Let_def APP_SHM_SENSORDATA_TABLE_PIECE_MAX_ITS_def) (simp add: sd_time_bit_def)
  next
    case False
    then show ?thesis using Sd_timer_t inv b by (auto simp: sd_step_def shm_timer_handler_alone Let_def sd_time_bit_def)
  qed
next
  case (Sd_command w ok)
  then show ?thesis using inv_t_flags(3) [OF inv_t_flags(2) [OF inv]] by (simp add: sd_step_def)
qed (use e in simp_all)

lemma inv_t_initial: "inv_t q sd_initial"
  using inv_p_initial [of q] by (intro inv_t_cleared) (simp_all add: inv_p_def sd_initial_def buf_zero_def)

end
