(* ===== verification/Sql_Predict.thy ===== *)
theory Sql_Predict
  imports Sql_Place
begin

text \<open>
  A complete set of a Predict sensor: 25 rows, one of each shown measurement, arrive together in the place of the sensor's channel.
\<close>

section \<open>The instance of a sensor\<close>

definition p_index :: "sd_piece \<Rightarrow> nat" where
  "p_index p = shm_sd_measType_to_idx ! unat (pc_dataType p)"

definition fresh_instance :: "u8 \<Rightarrow> u32 \<Rightarrow> nat \<Rightarrow> appShmSensorDataInstance_t \<Rightarrow> appShmSensorDataInstance_t" where
  "fresh_instance c n t e = e\<lparr>sd_chn_idx := c, sd_nameid := n, sd_valid_flag := True, sd_piece_cnt := 0,
     sd_piece_max := of_nat APP_SHM_SENSORDATA_TABLE_PIECE_MAX_PRS, sd_sensor_type := MODBUS_SENSOR_TYPE_P, sd_timer_id := t\<rparr>"

definition put_all :: "sd_piece list \<Rightarrow> appShmSensorDataInstance_t \<Rightarrow> appShmSensorDataInstance_t" where
  "put_all ps e = foldl (\<lambda>e p. sd_put (p_index p) p e) e ps"

lemma put_all_snoc: "put_all (ps @ [p]) e = sd_put (p_index p) p (put_all ps e)" "put_all [] e = e"
  by (simp_all add: put_all_def)

lemma put_all_keeps:
  "sd_chn_idx (put_all ps e) = sd_chn_idx e" "sd_nameid (put_all ps e) = sd_nameid e" "sd_valid_flag (put_all ps e) = sd_valid_flag e"
  "sd_piece_max (put_all ps e) = sd_piece_max e" "sd_sensor_type (put_all ps e) = sd_sensor_type e"
  "length (sd_data_buf (put_all ps e)) = length (sd_data_buf e)" "sd_piece_cnt (put_all ps e) = sd_piece_cnt e + of_nat (length ps)"
  by (induction ps rule: rev_induct) (simp_all add: put_all_snoc sd_put_def)

lemma put_all_holds:
  assumes "distinct (map p_index ps)" "\<forall>p \<in> set ps. p_index p < 25" "length (sd_data_buf e) = 27" "sd_sensor_type e = MODBUS_SENSOR_TYPE_P"
  shows "\<forall>p \<in> set ps. sd_data_buf (put_all ps e) ! p_index p = p \<and> bit (sd_bits (put_all ps e)) (p_index p)"
  using assms(1,2)
proof (induction ps rule: rev_induct)
  case (snoc p ps)
  let ?e = "put_all ps e" and ?k = "p_index p"
  have IH: "sd_data_buf ?e ! p_index r = r \<and> bit (sd_bits ?e) (p_index r)" if "r \<in> set ps" for r
    using snoc.IH snoc.prems that by simp
  have k: "?k < length (sd_data_buf ?e)" "?k < 25" using snoc.prems(2) assms(3) by (simp_all add: put_all_keeps)
  have bits: "sd_bits (sd_put ?k p ?e) = or (sd_bits ?e) (push_bit ?k 1)"
    using k(2) assms(4) by (simp add: sd_put_def shm_set_sd_bit_map_def put_all_keeps APP_SHM_SENSORDATA_TABLE_PIECE_MAX_PRS_def)
  have buf: "sd_data_buf (sd_put ?k p ?e) = (sd_data_buf ?e)[?k := p]" by (simp add: sd_put_def)
  have "sd_data_buf (sd_put ?k p ?e) ! p_index r = r \<and> bit (sd_bits (sd_put ?k p ?e)) (p_index r)" if "r \<in> set (ps @ [p])" for r
  proof (cases "r = p")
    case True
    then show ?thesis using k by (simp add: buf bits bit_or_iff bit_exp_iff)
  next
    case False
    then have r: "r \<in> set ps" using that by simp
    then have "p_index r \<noteq> ?k" using snoc.prems(1) by (metis distinct_append distinct_map distinct.simps(2) image_eqI list.set_map list.simps(8,9) map_append not_distinct_conv_prefix)
    then show ?thesis using IH [OF r] by (simp add: buf bits bit_or_iff)
  qed
  then show ?case by (simp add: put_all_snoc)
qed simp

section \<open>The rows of a set\<close>

definition collecting_p :: "nat \<Rightarrow> u32 \<Rightarrow> u8 \<Rightarrow> appShmSensorDataInstance_t \<Rightarrow> sd_piece list \<Rightarrow> (sd_piece list \<times> u64) list \<Rightarrow> sd_state \<Rightarrow> bool" where
  "collecting_p i n c e0 ps places s \<longleftrightarrow> i < 8 \<and> length (g_sd_instance s) = 8 \<and> g_sd_instance s ! i = put_all ps e0
     \<and> (\<forall>j < i. \<not> (sd_valid_flag (g_sd_instance s ! j) \<and> n = sd_nameid (g_sd_instance s ! j) \<and> c = sd_chn_idx (g_sd_instance s ! j)))
     \<and> sd_places s = places \<and> sd_status s"

definition set_row :: "u32 \<Rightarrow> gw_pro_data_t list \<Rightarrow> sd_piece \<Rightarrow> bool" where
  "set_row n x p \<longleftrightarrow> sd_positive x = Some False \<and> table_update_data_convert_sd (sd_fields x) = Some p
     \<and> pc_type p = TYPE_STR_INSIGHT_P \<and> pc_nameId p = n \<and> unat (pc_dataType p) < 64 \<and> p_index p < 25"

definition set_event :: "gw_pro_data_t list \<times> nat option \<times> bool list \<Rightarrow> sd_event" where
  "set_event r = Sd_row (fst r) (fst (snd r)) (snd (snd r)) True"

lemma set_row_type: "set_row n x p \<Longrightarrow> pc_dataType p \<notin> {1, 3, 4}"
  by (auto simp: set_row_def p_index_def shm_sd_measType_to_idx_def)

lemma set_row_reduces:
  assumes "modbus_feature_enable q" "sd_channel q n = Some c" "sd_status s" "set_row n x p"
  shows "sd_row q x tid ts True s = map_option (\<lambda>s. s\<lparr>sd_status := True\<rparr>)
    (sd_insert_p p tid ts (s\<lparr>g_former_ch_idx := g_current_ch_idx s, g_current_ch_idx := c,
       g_sensor_data_piece_max := of_nat APP_SHM_SENSORDATA_TABLE_PIECE_MAX_PRS\<rparr>))"
  using assms set_row_type [OF assms(4)] by (simp add: sd_row_alone sd_insert_alone set_row_def del: insert_iff)

lemma find_own:
  assumes "collecting_p i n c (fresh_instance c n t e) ps places s"
  shows "sd_find n c (g_sd_instance s) = Some i"
proof -
  have "i < 8" "\<forall>j < i. \<not> (sd_valid_flag (g_sd_instance s ! j) \<and> n = sd_nameid (g_sd_instance s ! j) \<and> c = sd_chn_idx (g_sd_instance s ! j))"
    "sd_valid_flag (g_sd_instance s ! i)" "n = sd_nameid (g_sd_instance s ! i)" "c = sd_chn_idx (g_sd_instance s ! i)"
    using assms by (simp_all add: collecting_p_def put_all_keeps fresh_instance_def)
  then show ?thesis by (auto simp: sd_find_def find_upt CONFIG_SHM_SENSOR_DATA_MAX_NUM_def simp del: upt_Suc)
qed

lemma set_first_row:
  assumes "modbus_feature_enable q" "sd_channel q n = Some c" "sd_status s" "set_row n x p" "tid \<noteq> None"
    and s: "sd_find n c (g_sd_instance s) = None" "sd_free (g_sd_instance s) = Some i" "length (g_sd_instance s) = 8"
  shows "\<exists>s' t. sd_row q x tid ts True s = Some s' \<and> collecting_p i n c (fresh_instance c n t (g_sd_instance s ! i)) [p] (sd_places s) s'"
proof -
  obtain t where t: "tid = Some t" using assms(5) by blast
  have p: "pc_nameId p = n" "\<not> length shm_sd_measType_to_idx \<le> unat (pc_dataType p)" using assms(4) by (simp_all add: set_row_def shm_sd_measType_to_idx_def)
  have i: "i < 8" using s(2) by (auto simp: sd_free_def find_upt CONFIG_SHM_SENSOR_DATA_MAX_NUM_def simp del: upt_Suc)
  have o: "\<not> (sd_valid_flag (g_sd_instance s ! j) \<and> n = sd_nameid (g_sd_instance s ! j) \<and> c = sd_chn_idx (g_sd_instance s ! j))" if "j < 8" for j
    using s(1) that unfolding sd_find_def CONFIG_SHM_SENSOR_DATA_MAX_NUM_def find_None_iff by auto
  have one: "put_all [p] e = sd_put (p_index p) p e" for e using put_all_snoc(1) [of "[]" p e] by (simp add: put_all_snoc(2))
  show ?thesis
    unfolding set_row_reduces [OF assms(1-4)]
    using p s t i o one by (simp add: sd_insert_p_alone Let_def p_index_def [symmetric] collecting_p_def fresh_instance_def [symmetric]) (intro exI [of _ t], simp)
qed

lemma set_next_row:
  assumes "modbus_feature_enable q" "sd_channel q n = Some c" "set_row n x p"
    and s: "collecting_p i n c (fresh_instance c n t e) ps places s" "length ps < 24"
  shows "\<exists>s'. sd_row q x tid ts True s = Some s' \<and> collecting_p i n c (fresh_instance c n t e) (ps @ [p]) places s'"
proof -
  have st: "sd_status s" using s(1) by (simp add: collecting_p_def)
  have p: "pc_nameId p = n" "\<not> length shm_sd_measType_to_idx \<le> unat (pc_dataType p)" using assms(3) by (simp_all add: set_row_def shm_sd_measType_to_idx_def)
  have e: "g_sd_instance s ! i = put_all ps (fresh_instance c n t e)" using s(1) by (simp add: collecting_p_def)
  have "unat (of_nat (length ps) + 1 :: u8) = length ps + 1" using s(2) by (simp add: unat_word_ariths unat_of_nat)
  then have "\<not> (25 :: u8) \<le> of_nat (length ps) + 1" using s(2) by (simp add: word_le_nat_alt)
  then have cnt: "\<not> sd_piece_max (sd_put (p_index p) p (put_all ps (fresh_instance c n t e)))
      \<le> sd_piece_cnt (sd_put (p_index p) p (put_all ps (fresh_instance c n t e)))"
    by (simp add: sd_put_def put_all_keeps fresh_instance_def APP_SHM_SENSORDATA_TABLE_PIECE_MAX_PRS_def)
  show ?thesis
    unfolding set_row_reduces [OF assms(1,2) st assms(3)]
    using p find_own [OF s(1)] cnt s(1) e by (simp add: sd_insert_p_alone Let_def p_index_def [symmetric] collecting_p_def put_all_snoc)
qed

lemma set_rows:
  assumes "modbus_feature_enable q" "sd_channel q n = Some c"
  shows "collecting_p i n c (fresh_instance c n t e) ps places s \<Longrightarrow> list_all2 (\<lambda>r. set_row n (fst r)) rs qs \<Longrightarrow> length ps + length qs \<le> 24 \<Longrightarrow>
    \<exists>s'. sd_run q (map set_event rs) s = Some s' \<and> collecting_p i n c (fresh_instance c n t e) (ps @ qs) places s'"
proof (induction rs arbitrary: ps qs s)
  case (Cons r rs)
  obtain x tid ts where r: "r = (x, tid, ts)" by (cases r)
  obtain p qs' where qs: "qs = p # qs'" "set_row n x p" "list_all2 (\<lambda>r. set_row n (fst r)) rs qs'"
    using Cons.prems(2) by (auto simp: list_all2_Cons1 r)
  obtain s1 where s1: "sd_row q x tid ts True s = Some s1" "collecting_p i n c (fresh_instance c n t e) (ps @ [p]) places s1"
    using set_next_row [OF assms qs(2) Cons.prems(1)] Cons.prems(3) qs(1) by auto
  show ?case using Cons.IH [OF s1(2) qs(3)] s1(1) Cons.prems(3) by (simp add: r qs(1) sd_step_def set_event_def)
qed simp

lemma set_bit_grows: "bit b k \<longrightarrow> bit (shm_set_sd_bit_map t i b) k"
  by (simp add: shm_set_sd_bit_map_def Let_def bit_or_iff)

lemma bit_map_grows: "\<exists>b. shm_update_sd_bit_map t e = e\<lparr>sd_bits := b\<rparr> \<and> (\<forall>k. bit (sd_bits e) k \<longrightarrow> bit b k)"
proof (cases "sd_valid_flag e \<and> sd_sensor_type e \<in> {MODBUS_SENSOR_TYPE_P, MODBUS_SENSOR_TYPE_PRO}")
  case True
  show ?thesis unfolding shm_update_sd_bit_map_def Let_def if_P [OF True]
    by (rule exI, rule conjI, rule refl) (auto simp: set_bit_grows simp del: upt_Suc)
next
  case False
  show ?thesis unfolding shm_update_sd_bit_map_def Let_def if_not_P [OF False] by (rule exI [of _ "sd_bits e"]) simp
qed

lemma set_last_row:
  assumes "modbus_feature_enable q" "sd_channel q n = Some c" "1 \<le> unat c \<and> unat c \<le> length places" "set_row n x p" "first_try ts"
    and s: "collecting_p i n c (fresh_instance c n t e) ps places s" "length ps = 24" "length (sd_data_buf e) = 27"
  shows "\<exists>s' m. sd_row q x tid ts True s = Some s' \<and> sd_places s' = places[unat c - 1 :=
      (take 25 (sd_data_buf (put_all (ps @ [p]) (fresh_instance c n t e))) @ drop 25 (fst (places ! (unat c - 1))), m)]
    \<and> (\<forall>k. bit (sd_bits (put_all (ps @ [p]) (fresh_instance c n t e))) k \<longrightarrow> bit m k)"
proof -
  let ?e = "put_all (ps @ [p]) (fresh_instance c n t e)"
  have st: "sd_status s" using s(1) by (simp add: collecting_p_def)
  have p: "pc_nameId p = n" "\<not> length shm_sd_measType_to_idx \<le> unat (pc_dataType p)" using assms(4) by (simp_all add: set_row_def shm_sd_measType_to_idx_def)
  have e: "sd_put (p_index p) p (g_sd_instance s ! i) = ?e" "sd_places s = places" using s(1) by (simp_all add: collecting_p_def put_all_snoc)
  have cnt: "sd_piece_max ?e \<le> sd_piece_cnt ?e" "unat (sd_piece_max ?e) = 25" "sd_chn_idx ?e = c" "length (sd_data_buf ?e) = 27"
    using s(2,3) by (simp_all add: put_all_keeps fresh_instance_def APP_SHM_SENSORDATA_TABLE_PIECE_MAX_PRS_def)
  obtain b where b: "shm_update_sd_bit_map (sd_sensor_type ?e) ?e = ?e\<lparr>sd_bits := b\<rparr>" "\<forall>k. bit (sd_bits ?e) k \<longrightarrow> bit b k"
    using bit_map_grows by blast
  show ?thesis
    unfolding set_row_reduces [OF assms(1,2) st assms(4)]
    using p find_own [OF s(1)] cnt b e assms(3,5)
    by (simp add: sd_insert_p_alone Let_def p_index_def [symmetric] sd_flush_alone sd_write_def) blast
qed

lemma event_row: "sd_step q (set_event r) s = sd_row q (fst r) (fst (snd r)) (snd (snd r)) True s"
  by (simp add: sd_step_def set_event_def)

lemma run_append: "sd_run q (as @ bs) s = (case sd_run q as s of None \<Rightarrow> None | Some s \<Rightarrow> sd_run q bs s)"
  by (induction as arbitrary: s) (auto split: option.splits)

text \<open>
  C17: a complete set of a Predict sensor arrives in the shared memory: 25 rows of one sensor with the 25 shown measurements, in any order,
  are all in the place of the sensor's channel, each at its index and marked in the bitmap, and no other place is changed; an instance
  must be free, and the semaphore for the last row.
\<close>

theorem predict_set_reaches_place:
  assumes q: "sql_reachable q" "dev_rows q (int (unat n)) \<noteq> None"
    and s: "sd_status s" "length (g_sd_instance s) = 8" "length (sd_places s) = 40" "sd_free (g_sd_instance s) = Some i"
      "length (sd_data_buf (g_sd_instance s ! i)) = 27"
      "list_all (\<lambda>e. sd_valid_flag e \<longrightarrow> sd_nameid e \<noteq> n) (g_sd_instance s)"
    and r: "list_all2 (\<lambda>r. set_row n (fst r)) rs ps" "length ps = 25" "distinct (map p_index ps)"
      "fst (snd (hd rs)) \<noteq> None" "first_try (snd (snd (last rs)))"
  shows "\<exists>s' c pl m. c \<in> {1..40} \<and> chn_nameid_map q ! c = \<lparr>cm_validflag = 1, cm_ch = of_nat c, cm_nameid = n\<rparr>
    \<and> sd_run q (map set_event rs) s = Some s' \<and> sd_places s' = (sd_places s)[c - 1 := (pl, m)]
    \<and> list_all (\<lambda>p. pl ! p_index p = p \<and> bit m (p_index p)) ps"
proof -
  obtain c where c: "c \<in> {1..40}" "sd_channel q n = Some (of_nat c)"
    "chn_nameid_map q ! c = \<lparr>cm_validflag = 1, cm_ch = of_nat c, cm_nameid = n\<rparr>" using channel_of_row [OF q] by blast
  have u: "unat (of_nat c :: u8) = c" using c(1) by (simp add: unat_of_nat)
  have f: "modbus_feature_enable q" using reachable_chn_inv [OF q(1)] by (simp add: chn_inv_def)
  have none: "sd_find n (of_nat c) (g_sd_instance s) = None"
    using s(2,6) by (auto simp: sd_find_def find_None_iff CONFIG_SHM_SENSOR_DATA_MAX_NUM_def list_all_length simp del: upt_Suc)
  obtain r1 rs1 p1 ps1 where 1: "rs = r1 # rs1" "ps = p1 # ps1" "set_row n (fst r1) p1" "list_all2 (\<lambda>r. set_row n (fst r)) rs1 ps1"
    using r(1,2) by (cases ps) (auto simp: list_all2_Cons2)
  have l1: "length ps1 = 24" "length rs1 = 24" using r(2) 1 list_all2_lengthD [OF 1(4)] by simp_all
  obtain psm pl where pm: "ps1 = psm @ [pl]" using l1(1) by (cases ps1 rule: rev_cases) auto
  obtain rsm rl where rm: "rs1 = rsm @ [rl]" using l1(2) by (cases rs1 rule: rev_cases) auto
  have 2: "list_all2 (\<lambda>r. set_row n (fst r)) rsm psm" "set_row n (fst rl) pl" using 1(4) l1 by (auto simp: pm rm list_all2_append)
  obtain s1 t where s1: "sd_step q (set_event r1) s = Some s1"
    "collecting_p i n (of_nat c) (fresh_instance (of_nat c) n t (g_sd_instance s ! i)) [p1] (sd_places s) s1"
    using set_first_row [OF f c(2) s(1) 1(3) _ none s(4,2), of "fst (snd r1)" "snd (snd r1)"] r(4) unfolding event_row 1(1) by auto
  obtain s2 where s2: "sd_run q (map set_event rsm) s1 = Some s2"
    "collecting_p i n (of_nat c) (fresh_instance (of_nat c) n t (g_sd_instance s ! i)) ([p1] @ psm) (sd_places s) s2"
    using set_rows [OF f c(2) s1(2) 2(1)] l1(1) pm by auto
  have pre: "1 \<le> unat (of_nat c :: u8) \<and> unat (of_nat c :: u8) \<le> length (sd_places s)" "first_try (snd (snd rl))" "length ([p1] @ psm) = 24"
    using c(1) s(3) r(5) l1(1) by (simp_all add: u 1(1) rm pm)
  let ?e = "put_all (([p1] @ psm) @ [pl]) (fresh_instance (of_nat c) n t (g_sd_instance s ! i))"
  obtain s3 m where s3: "sd_step q (set_event rl) s2 = Some s3"
    "sd_places s3 = (sd_places s)[c - 1 := (take 25 (sd_data_buf ?e) @ drop 25 (fst (sd_places s ! (c - 1))), m)]" "\<forall>k. bit (sd_bits ?e) k \<longrightarrow> bit m k"
    using set_last_row [OF f c(2) pre(1) 2(2) pre(2) s2(2) pre(3) s(5), of "fst (snd rl)"] unfolding event_row u by blast
  have ps: "([p1] @ psm) @ [pl] = ps" by (simp add: 1(2) pm)
  have small: "\<forall>p \<in> set ps. p_index p < 25" using r(1) by (auto simp: list_all2_conv_all_nth in_set_conv_nth set_row_def)
  have "\<forall>p \<in> set ps. sd_data_buf ?e ! p_index p = p \<and> bit (sd_bits ?e) (p_index p)" and len: "length (sd_data_buf ?e) = 27"
    unfolding ps using put_all_holds [OF r(3) small] s(5) by (simp_all add: fresh_instance_def put_all_keeps)
  then have "list_all (\<lambda>p. (take 25 (sd_data_buf ?e) @ drop 25 (fst (sd_places s ! (c - 1)))) ! p_index p = p \<and> bit m (p_index p)) ps"
    using s3(3) small len by (auto simp: list_all_iff nth_append)
  moreover have "sd_run q (map set_event rs) s = Some s3" using s1(1) s2(1) s3(1) by (simp add: 1(1) rm run_append)
  ultimately show ?thesis using c s3(2) by blast
qed

section \<open>A set, row by row\<close>

definition predict_types :: "u8 list" where
  "predict_types = [13, 14, 15, 30, 42, 43, 44, 45, 46, 47, 48, 49, 50, 51, 52, 53, 54, 55, 56, 57, 58, 59, 60, 61, 62]"

definition plain_row :: "bytes \<Rightarrow> u32 \<Rightarrow> u8 \<Rightarrow> gw_pro_data_t list" where
  "plain_row ty n t = [(2, Data_uint32 n), (5, Data_char ty), (8, Data_uint64 1000), (11, Data_int8 t),
     (12, Data_char (ascii ''Digit'')), (21, Data_uint32 17)]"

definition plain_piece :: "bytes \<Rightarrow> u32 \<Rightarrow> u8 \<Rightarrow> sd_piece" where
  "plain_piece ty n t = \<lparr>pc_nameId = n, pc_type = ty, pc_sampleTime = 1000, pc_dataType = t, pc_value = Data_uint32 17, pc_product = 0\<rparr>"

lemma plain_row_converted:
  assumes "dev_text (Data_char ty) = Some ty"
  shows "sd_positive (plain_row ty n t) = Some False" "table_update_data_convert_sd (sd_fields (plain_row ty n t)) = Some (plain_piece ty n t)"
  using assms by (simp_all add: plain_row_def sd_fields_def table_update_data_convert_sd_def sd_convert_field_def union_uint8_def ascii_fits
      zero_piece_def plain_piece_def)

lemma dev_text_P: "dev_text (Data_char TYPE_STR_INSIGHT_P) = Some TYPE_STR_INSIGHT_P" "dev_text (Data_char TYPE_STR_INSIGHT_T) = Some TYPE_STR_INSIGHT_T"
  by code_simp+

lemma predict_types_fit: "list_all (\<lambda>t. unat t < 64 \<and> shm_sd_measType_to_idx ! unat t < 25) predict_types"
  "distinct (map (\<lambda>t. shm_sd_measType_to_idx ! unat t) predict_types)" "length predict_types = 25"
  by code_simp+

lemma map_all2: "list_all (\<lambda>t. R (f t) (g t)) ts \<Longrightarrow> list_all2 R (map f ts) (map g ts)"
  by (induction ts) simp_all

lemma sample_set: "list_all2 (\<lambda>r. set_row 7 (fst r))
    (map (\<lambda>t. (plain_row TYPE_STR_INSIGHT_P 7 t, Some 5, [True])) predict_types) (map (plain_piece TYPE_STR_INSIGHT_P 7) predict_types)"
proof (rule map_all2)
  show "list_all (\<lambda>t. set_row 7 (fst (plain_row TYPE_STR_INSIGHT_P 7 t, Some 5, [True])) (plain_piece TYPE_STR_INSIGHT_P 7 t)) predict_types"
    using predict_types_fit(1) plain_row_converted [OF dev_text_P(1), of 7]
    by (simp add: list_all_iff set_row_def) (simp add: plain_piece_def p_index_def)
qed

theorem predict_set_reaches_place_witness:
  "\<exists>s' c pl m. c \<in> {1..40} \<and> sd_run (fill 7) (map set_event (map (\<lambda>t. (plain_row TYPE_STR_INSIGHT_P 7 t, Some 5, [True])) predict_types)) sd_initial = Some s'
    \<and> sd_places s' = (sd_places sd_initial)[c - 1 := (pl, m)]
    \<and> list_all (\<lambda>p. pl ! p_index p = p \<and> bit m (p_index p)) (map (plain_piece TYPE_STR_INSIGHT_P 7) predict_types)"
proof -
  have f: "sql_reachable (fill 7)" "dev_rows (fill 7) (int (unat (7 :: u32))) \<noteq> None" using fill_steps [of 7] by force+
  have free: "sd_free (g_sd_instance sd_initial) = Some 0" by code_simp
  have d: "distinct (map p_index (map (plain_piece TYPE_STR_INSIGHT_P 7) predict_types))"
    using predict_types_fit(2) by (simp add: comp_def p_index_def plain_piece_def)
  have e: "fst (snd (hd (map (\<lambda>t. (plain_row TYPE_STR_INSIGHT_P 7 t, Some (5 :: nat), [True])) predict_types))) \<noteq> None"
    "first_try (snd (snd (last (map (\<lambda>t. (plain_row TYPE_STR_INSIGHT_P 7 t, Some (5 :: nat), [True])) predict_types))))"
    by (simp_all add: predict_types_def first_try_def)
  have s: "sd_status sd_initial" "length (g_sd_instance sd_initial) = 8" "length (sd_places sd_initial) = 40"
    "length (sd_data_buf (g_sd_instance sd_initial ! 0)) = 27" "list_all (\<lambda>e. sd_valid_flag e \<longrightarrow> sd_nameid e \<noteq> 7) (g_sd_instance sd_initial)"
    by (simp_all add: sd_initial_def zero_instance_def list_all_length)
  have l: "length (map (plain_piece TYPE_STR_INSIGHT_P 7) predict_types) = 25" using predict_types_fit(3) by simp
  show ?thesis using predict_set_reaches_place [OF f s(1-3) free s(4,5) sample_set l d e] by blast
qed

end
