(* ===== verification/Sql_Cases.thy ===== *)
theory Sql_Cases
  imports Sql_Predict
begin

text \<open>
  The safety of the collection of sensor data when all sensors are of one kind, and the sequences of steps in which it fails.
\<close>

section \<open>Sensors of one kind\<close>

text \<open>
  As long as all rows are of Predict sensors, or none is of a Predict or Pro sensor, the collection of sensor data neither reads
  nor writes outside its arrays, and every piece in the place of a channel belongs to the sensor of that channel and stands at the index
  of its measurement, whatever rows come from which sensors and whenever the semaphore is taken.  This needs that the channels do not change
  and that no handler of a timer runs during a row; the lemmas below show what happens otherwise.
\<close>

lemma sensor_data_at_home:
  assumes "sql_reachable q" "list_all (row_event (\<lambda>p. pc_type p = TYPE_STR_INSIGHT_P)) es \<or> list_all (row_event plain_sensor) es"
  shows "\<exists>s'. sd_run q es sd_initial = Some s' \<and> (\<forall>c \<in> {1..40}. \<forall>k < 27.
    let p = fst (sd_places s' ! (c - 1)) ! k in p = zero_piece \<or> sd_channel q (pc_nameId p) = Some (of_nat c) \<and> piece_index p = k)"
proof -
  have "\<exists>s'. sd_run q es sd_initial = Some s' \<and> places_ok q s'"
    using assms(2)
  proof
    assume "list_all (row_event (\<lambda>p. pc_type p = TYPE_STR_INSIGHT_P)) es"
    from run_keeps [OF inv_p_step [OF assms(1)] inv_p_initial this] show ?thesis by (auto simp: inv_p_def)
  next
    assume "list_all (row_event plain_sensor) es"
    from run_keeps [OF inv_t_step [OF assms(1)] inv_t_initial this] show ?thesis by (auto simp: inv_t_def)
  qed
  then show ?thesis using places_ok_out unfolding Let_def by blast
qed

definition t_row :: "u32 \<Rightarrow> u8 \<Rightarrow> bool list \<Rightarrow> sd_event" where
  "t_row n t ts = Sd_row (plain_row TYPE_STR_INSIGHT_T n t) (Some 5) ts True"

definition p_row :: "u32 \<Rightarrow> u8 \<Rightarrow> bool list \<Rightarrow> sd_event" where
  "p_row n t ts = Sd_row (plain_row TYPE_STR_INSIGHT_P n t) (Some 6) ts True"

lemma t_row_plain: "row_event plain_sensor (t_row n t ts) \<longleftrightarrow> unat t < 64"
  using type_strings by (auto simp: t_row_def plain_row_converted [OF dev_text_P(2)] plain_sensor_def) (auto simp: plain_piece_def)

lemma sensor_data_at_home_example:
  "\<exists>s'. sd_run (fill 7) [t_row 1 29 [], t_row 2 29 [False, False, True], Sd_timer_t] sd_initial = Some s'
    \<and> (let p = fst (sd_places s' ! 0) ! 0 in p = zero_piece \<or> sd_channel (fill 7) (pc_nameId p) = Some 1 \<and> piece_index p = 0)"
proof -
  have f: "sql_reachable (fill 7)" using fill_steps [of 7] by simp
  have e: "list_all (row_event plain_sensor) [t_row 1 29 [], t_row 2 29 [False, False, True], Sd_timer_t]" by (simp add: t_row_plain)
  from sensor_data_at_home [OF f disjI2 [OF e]] obtain s' where s': "sd_run (fill 7) [t_row 1 29 [], t_row 2 29 [False, False, True], Sd_timer_t] sd_initial = Some s'"
    "\<forall>c \<in> {1..40}. \<forall>k < 27. let p = fst (sd_places s' ! (c - 1)) ! k in p = zero_piece \<or> sd_channel (fill 7) (pc_nameId p) = Some (of_nat c) \<and> piece_index p = k"
    by blast
  have "let p = fst (sd_places s' ! (1 - 1)) ! 0 in p = zero_piece \<or> sd_channel (fill 7) (pc_nameId p) = Some (of_nat 1) \<and> piece_index p = 0"
    using s'(2) [rule_format, of 1 0] by simp
  then show ?thesis using s'(1) by auto
qed

section \<open>Where the collection fails\<close>

lemma t_row_reduces:
  assumes "modbus_feature_enable q" "sd_channel q n = Some c" "sd_status s" "t \<notin> {1, 3, 4}"
  shows "sd_step q (t_row n t ts) s = map_option (\<lambda>s. s\<lparr>sd_status := True\<rparr>)
    (sd_insert_t (plain_piece TYPE_STR_INSIGHT_T n t) (Some 5) ts (s\<lparr>g_former_ch_idx := g_current_ch_idx s, g_current_ch_idx := c\<rparr>))"
  using assms type_strings
  by (simp add: t_row_def sd_step_def sd_row_alone plain_row_converted [OF dev_text_P(2)] sd_insert_alone del: insert_iff) (simp add: plain_piece_def)

lemma p_row_reduces:
  assumes "modbus_feature_enable q" "sd_channel q n = Some c" "sd_status s" "t \<notin> {1, 3, 4}"
  shows "sd_step q (p_row n t ts) s = map_option (\<lambda>s. s\<lparr>sd_status := True\<rparr>)
    (sd_insert_p (plain_piece TYPE_STR_INSIGHT_P n t) (Some 6) ts (s\<lparr>g_former_ch_idx := g_current_ch_idx s, g_current_ch_idx := c,
       g_sensor_data_piece_max := of_nat APP_SHM_SENSORDATA_TABLE_PIECE_MAX_PRS\<rparr>))"
  using assms
  by (simp add: p_row_def sd_step_def sd_row_alone plain_row_converted [OF dev_text_P(1)] sd_insert_alone del: insert_iff) (simp add: plain_piece_def)

text \<open>
  The channel of the last message is used for both kinds of sensors: when the timer of an Insight-T sensor expires after a row of a Predict
  sensor, its voltage is written to the place of that sensor.
\<close>

lemma mixed_kinds_misplace:
  assumes "sql_reachable q" "sd_channel q n = Some c" "sd_channel q m = Some d" "n \<noteq> 0"
  shows "\<exists>s'. sd_run q [t_row n 29 [], p_row m 13 [], Sd_timer_t] sd_initial = Some s'
    \<and> fst (sd_places s' ! (unat d - 1)) ! 0 = plain_piece TYPE_STR_INSIGHT_T n 29"
proof -
  have f: "modbus_feature_enable q" using reachable_chn_inv [OF assms(1)] by (simp add: chn_inv_def)
  have d: "1 \<le> unat d \<and> unat d \<le> 40" by (rule channel_range(1) [OF assms(1,3)])
  then have k: "unat d - Suc 0 < 40" by linarith
  let ?s1 = "sd_initial\<lparr>g_former_nameid := n, g_current_ch_idx := c, g_sensor_data_piece_max := 4, g_sensor_data_piece_cnt := 1,
      g_shm_data_buf := (replicate 27 zero_piece)[0 := plain_piece TYPE_STR_INSIGHT_T n 29], g_shm_data_bits := 1, g_timer_on := True, sd_w_flag := True\<rparr>"
  have 1: "sd_step q (t_row n 29 []) sd_initial = Some ?s1"
    using t_row_reduces [OF f assms(2), of sd_initial 29 "[]"] assms(4)
    by (simp add: sd_initial_def sd_insert_t_def sd_insert_other_def shm_get_measure_type_idx_t_def plain_piece_def sd_store_def
        shm_set_sd_bit_map_def APP_SHM_SENSORDATA_TABLE_PIECE_MAX_ITS_def Let_def)
  have "sd_find m d (g_sd_instance sd_initial) = None" "sd_free (g_sd_instance sd_initial) = Some 0"
    by (simp_all add: sd_find_def sd_free_def sd_initial_def zero_instance_def CONFIG_SHM_SENSOR_DATA_MAX_NUM_def upt_conv_Cons find_None_iff)
  then obtain s2 where 2: "sd_step q (p_row m 13 []) ?s1 = Some s2" "g_timer_on s2" "g_sensor_data_piece_cnt s2 = 1" "g_sensor_data_piece_max s2 = 25"
    "g_current_ch_idx s2 = d" "g_shm_data_buf s2 = (replicate 27 zero_piece)[0 := plain_piece TYPE_STR_INSIGHT_T n 29]" "sd_places s2 = sd_places sd_initial"
    using p_row_reduces [OF f assms(3), of ?s1 13 "[]"]
    by (simp add: sd_insert_p_alone plain_piece_def shm_sd_measType_to_idx_def Let_def APP_SHM_SENSORDATA_TABLE_PIECE_MAX_PRS_def) (simp add: sd_initial_def)
  show ?thesis using 1 2 d k
    by (simp add: sd_step_def [of q Sd_timer_t] shm_timer_handler_alone Let_def sd_time_bit_def sd_write_t_def sd_write_def sd_clear_def
        APP_SHM_SENSORDATA_TABLE_PIECE_MAX_ITS_def sd_initial_def nth_append)
qed

text \<open>
  The semaphore is taken when the fourth row of a set arrives: the set is not written at all, because the flag of the previous message
  suppresses the two further attempts and the write without the semaphore, and the timer has been deleted.
\<close>

lemma complete_set_not_written:
  assumes "sql_reachable q" "sd_channel q n = Some c" "n \<noteq> 0"
  shows "\<exists>s'. sd_run q [t_row n 29 [], t_row n 21 [], t_row n 13 [], t_row n 42 [False, True, True], Sd_timer_t] sd_initial = Some s'
    \<and> sd_places s' = sd_places sd_initial \<and> \<not> g_timer_on s' \<and> g_sensor_data_piece_cnt s' = 4"
proof -
  have f: "modbus_feature_enable q" using reachable_chn_inv [OF assms(1)] by (simp add: chn_inv_def)
  note red = t_row_reduces [OF f assms(2)]
  show ?thesis using assms(3) by (simp add: red sd_initial_def sd_insert_t_def sd_insert_other_def sd_insert_same_def shm_get_measure_type_idx_t_def plain_piece_def
      sd_store_def APP_SHM_SENSORDATA_TABLE_PIECE_MAX_ITS_def Let_def first_try_def sd_after_t_def sd_time_bit_def sd_step_def [of q Sd_timer_t])
qed

text \<open>A set that is cut short: the pieces stand at the index of their type, but only as many as were counted are written, and all are marked.\<close>

lemma partial_set_lost:
  assumes "sql_reachable q" "sd_channel q n = Some c" "sd_channel q m = Some d" "n \<noteq> 0" "m \<noteq> n"
  shows "\<exists>s'. sd_run q [t_row n 42 [], t_row m 29 [True]] sd_initial = Some s'
    \<and> fst (sd_places s' ! (unat c - 1)) ! 3 = zero_piece \<and> bit (snd (sd_places s' ! (unat c - 1))) 3"
proof -
  have f: "modbus_feature_enable q" using reachable_chn_inv [OF assms(1)] by (simp add: chn_inv_def)
  have c: "1 \<le> unat c \<and> unat c \<le> 40" by (rule channel_range(1) [OF assms(1,2)])
  then have k: "unat c - Suc 0 < 40" by linarith
  show ?thesis using assms(4,5) c k
    by (simp add: t_row_reduces [OF f assms(2)] t_row_reduces [OF f assms(3)] sd_initial_def sd_insert_t_def sd_insert_other_def
      shm_get_measure_type_idx_t_def plain_piece_def sd_store_def APP_SHM_SENSORDATA_TABLE_PIECE_MAX_ITS_def Let_def first_try_def sd_time_bit_def
      sd_write_t_def sd_write_def sd_clear_def shm_set_sd_bit_map_def bit_or_iff SHM_SD_IDX_LAST_TEMP_SENSING_TIME_T_def nth_append)
qed

text \<open>After one failed command all rows are dropped until a command on another table succeeds.\<close>

lemma rows_dropped_after_failure:
  "sd_run q (Sd_command w False # map (\<lambda>(xs, tid, ts, ok). Sd_row xs tid ts ok) rs) s = Some (s\<lparr>sd_w_flag := w, sd_status := False\<rparr>)"
proof -
  have "sd_run q (map (\<lambda>(xs, tid, ts, ok). Sd_row xs tid ts ok) rs) s = Some s" if "\<not> sd_status s" for s
    using that by (induction rs) (auto simp: sd_step_def sd_row_alone)
  then show ?thesis by (simp add: sd_step_def [of q "Sd_command w False"])
qed

section \<open>Handlers in threads of their own\<close>

text \<open>
  The handler of the Insight-T sensors runs during the row of another sensor, after its channel has become the current one: the pieces of the
  first sensor are written to the place of the second.
\<close>

lemma first_t_row:
  assumes "modbus_feature_enable q" "sd_channel q n = Some c" "n \<noteq> 0"
  shows "sd_step q (t_row n 29 []) sd_initial = Some (sd_initial\<lparr>g_former_nameid := n, g_current_ch_idx := c, g_sensor_data_piece_max := 4,
    g_sensor_data_piece_cnt := 1, g_shm_data_buf := (replicate 27 zero_piece)[0 := plain_piece TYPE_STR_INSIGHT_T n 29], g_shm_data_bits := 1,
    g_timer_on := True, sd_w_flag := True\<rparr>)"
  using t_row_reduces [OF assms(1,2), of sd_initial 29 "[]"] assms(3)
  by (simp add: sd_initial_def sd_insert_t_def sd_insert_other_def shm_get_measure_type_idx_t_def plain_piece_def sd_store_def
      shm_set_sd_bit_map_def APP_SHM_SENSORDATA_TABLE_PIECE_MAX_ITS_def Let_def)

lemma t_row_during_reduces:
  assumes "modbus_feature_enable q" "sd_channel q n = Some c" "sd_status s" "t \<notin> {1, 3, 4}"
  shows "sd_row_during during q (plain_row TYPE_STR_INSIGHT_T n t) (Some 5) ts True s =
    (case during 0 (s\<lparr>g_former_ch_idx := g_current_ch_idx s, g_current_ch_idx := c\<rparr>) of None \<Rightarrow> None
     | Some s \<Rightarrow> map_option (\<lambda>s. s\<lparr>sd_status := True\<rparr>) (sd_insert_t (plain_piece TYPE_STR_INSIGHT_T n t) (Some 5) ts s))"
  using assms type_strings
  by (simp add: sd_row_during_def plain_row_converted [OF dev_text_P(2)] sd_insert_during_def del: insert_iff split: option.splits) (simp add: plain_piece_def)

lemma timer_during_row_misplaces:
  assumes "sql_reachable q" "sd_channel q n = Some c" "sd_channel q m = Some d" "n \<noteq> 0" "m \<noteq> n"
  shows "\<exists>s'. sd_run q [t_row n 29 [], Sd_row_timer 0 None (plain_row TYPE_STR_INSIGHT_T m 29) (Some 5) [] True] sd_initial = Some s'
    \<and> fst (sd_places s' ! (unat d - 1)) ! 0 = plain_piece TYPE_STR_INSIGHT_T n 29"
proof -
  have f: "modbus_feature_enable q" using reachable_chn_inv [OF assms(1)] by (simp add: chn_inv_def)
  have d: "1 \<le> unat d \<and> unat d \<le> 40" by (rule channel_range(1) [OF assms(1,3)])
  then have k: "unat d - Suc 0 < 40" by linarith
  show ?thesis using d k assms(4,5)
    by (simp add: first_t_row [OF f assms(2,4)])
      (simp add: sd_step_def t_row_during_reduces [OF f assms(3)] sd_initial_def sd_handler_def shm_timer_handler_during_def Let_def sd_time_bit_def sd_write_def
        sd_clear_def APP_SHM_SENSORDATA_TABLE_PIECE_MAX_ITS_def sd_insert_t_def sd_insert_other_def sd_insert_same_def shm_get_measure_type_idx_t_def
        plain_piece_def sd_store_def nth_append)
qed

text \<open>
  A row is handled while the handler is between the write and the clearing of the buffer: the piece of the row is in no place and in no buffer.
\<close>

lemma row_during_timer_lost:
  assumes "sql_reachable q" "sd_channel q n = Some c" "n \<noteq> 0"
  shows "\<exists>s'. sd_run q [t_row n 29 [], Sd_timer_row None (plain_row TYPE_STR_INSIGHT_T n 21) (Some 5) [] True] sd_initial = Some s'
    \<and> fst (sd_places s' ! (unat c - 1)) ! 1 = zero_piece \<and> g_shm_data_buf s' = replicate 27 zero_piece \<and> g_sensor_data_piece_cnt s' = 0"
proof -
  have f: "modbus_feature_enable q" using reachable_chn_inv [OF assms(1)] by (simp add: chn_inv_def)
  have c: "1 \<le> unat c \<and> unat c \<le> 40" by (rule channel_range(1) [OF assms(1,2)])
  then have k: "unat c - Suc 0 < 40" by linarith
  show ?thesis using c k assms(3)
    by (simp add: first_t_row [OF f assms(2,3)])
      (simp add: sd_step_def sd_row_def t_row_during_reduces [OF f assms(2)] sd_initial_def sd_handler_def shm_timer_handler_during_def Let_def
        sd_time_bit_def sd_write_def sd_clear_def APP_SHM_SENSORDATA_TABLE_PIECE_MAX_ITS_def sd_insert_t_def sd_insert_other_def sd_insert_same_def
        shm_get_measure_type_idx_t_def plain_piece_def sd_store_def nth_append)
qed

text \<open>
  The handler of a Predict sensor writes and clears the instance that a row has just found: the row completes a set of no pieces of channel 0, and
  the bitmap is written before the table of the sensor data.
\<close>

lemma timer_during_row_out_of_bounds:
  assumes "sql_reachable q" "sd_channel q n = Some c"
  shows "sd_run q [p_row n 13 [], Sd_row_timer 1 (Some 6) (plain_row TYPE_STR_INSIGHT_P n 14) (Some 6) [True] True] sd_initial = None"
proof -
  have f: "modbus_feature_enable q" using reachable_chn_inv [OF assms(1)] by (simp add: chn_inv_def)
  have c: "1 \<le> unat c \<and> unat c \<le> 40" by (rule channel_range(1) [OF assms(1,2)])
  have free: "sd_find n c (g_sd_instance sd_initial) = None" "sd_free (g_sd_instance sd_initial) = Some 0"
    by (simp_all add: sd_find_def sd_free_def sd_initial_def zero_instance_def CONFIG_SHM_SENSOR_DATA_MAX_NUM_def upt_conv_Cons find_None_iff)
  let ?e = "zero_instance\<lparr>sd_chn_idx := c, sd_nameid := n, sd_valid_flag := True, sd_piece_max := 25, sd_sensor_type := MODBUS_SENSOR_TYPE_P,
      sd_timer_id := 6\<rparr>"
  let ?es = "(replicate 8 zero_instance)[0 := sd_put 6 (plain_piece TYPE_STR_INSIGHT_P n 13) ?e]"
  obtain s1 where s1: "sd_step q (p_row n 13 []) sd_initial = Some s1" "g_sd_instance s1 = ?es" "sd_places s1 = sd_places sd_initial" "sd_status s1"
    using p_row_reduces [OF f assms(2), of sd_initial 13 "[]"] free
    by (simp add: sd_insert_p_alone plain_piece_def shm_sd_measType_to_idx_def Let_def APP_SHM_SENSORDATA_TABLE_PIECE_MAX_PRS_def)
      (simp add: sd_initial_def zero_instance_def)
  define e0 where "e0 = sd_put 6 (plain_piece TYPE_STR_INSIGHT_P n 13) ?e"
  define e1 where "e1 = shm_update_sd_bit_map MODBUS_SENSOR_TYPE_P e0"
  have e0: "sd_sensor_type e0 = MODBUS_SENSOR_TYPE_P" "sd_timer_id e0 = 6" "sd_valid_flag e0" "sd_nameid e0 = n" "sd_chn_idx e0 = c"
    by (simp_all add: e0_def sd_put_def)
  have e1: "sd_chn_idx e1 = c" "sd_piece_cnt e1 = 1" "sd_piece_max e1 = 25" "length (sd_data_buf e1) = 27"
    by (simp_all add: e1_def e0_def shm_update_sd_bit_map_def sd_put_def zero_instance_def Let_def)
  define s2 where "s2 = s1\<lparr>g_former_ch_idx := g_current_ch_idx s1, g_current_ch_idx := c, g_sensor_data_piece_max := 25\<rparr>"
  have s2: "g_sd_instance s2 = (replicate 8 zero_instance)[0 := e0]" "sd_places s2 = sd_places sd_initial" "g_current_ch_idx s2 = c"
    using s1 by (simp_all add: s2_def e0_def)
  have found: "sd_find n c ((replicate 8 zero_instance)[0 := e0]) = Some 0"
    by (simp add: sd_find_def find_upt CONFIG_SHM_SENSOR_DATA_MAX_NUM_def e0 del: upt_Suc)
  have "List.find (\<lambda>i. 6 = sd_timer_id ((replicate 8 zero_instance)[0 := e0] ! i) \<and> sd_valid_flag ((replicate 8 zero_instance)[0 := e0] ! i)) [0..<8] = Some 0"
    by (simp add: find_upt e0 del: upt_Suc)
  then obtain s3 where s3: "sd_handler Some (Some 6) s2 = Some s3" "g_sd_instance s3 ! 0 = zero_instance" "length (g_sd_instance s3) = 8"
    using s2 c e1 e0
    by (simp add: sd_handler_def shm_timer_handler_p_during_def CONFIG_SHM_SENSOR_DATA_MAX_NUM_def Let_def sd_flush_during_def sd_write_def
        APP_SHM_SENSORDATA_TABLE_PIECE_MAX_PRS_def e1_def [symmetric] sd_initial_def)
  have "sd_insert_p_during (sd_handler Some (Some 6)) (plain_piece TYPE_STR_INSIGHT_P n 14) (Some 6) [True] s2 = None"
    using found s2 s3
    by (simp add: sd_insert_p_during_def plain_piece_def shm_sd_measType_to_idx_def Let_def sd_put_def zero_instance_def first_try_def sd_flush_def
        sd_flush_during_def sd_write_def shm_update_sd_bit_map_def)
  then show ?thesis
    using s1 f assms(2) type_strings
    by (simp add: sd_step_def [of q "Sd_row_timer _ _ _ _ _ _"] sd_row_during_def plain_row_converted [OF dev_text_P(1)] sd_insert_during_def)
      (simp add: plain_piece_def s2_def APP_SHM_SENSORDATA_TABLE_PIECE_MAX_PRS_def)
qed

section \<open>A channel that is given to another sensor\<close>

text \<open>
  A deletion clears the place of the device but not the place of its sensor data.  A set of device 1 is written, the device is deleted, and
  device 2 gets its channel: the place of device 2 holds the value of device 1.
\<close>

definition reused :: sql_state where
  "reused = snd (the (dev_update_item [] True True 2 (sample_msg 2) (snd (the (dev_delete_item [] True 1 (fill 1))))))"

lemma set_written:
  assumes "modbus_feature_enable q" "sd_channel q 1 = Some 1"
  shows "\<exists>s'. sd_runs [(q, t_row 1 29 []), (q, Sd_timer_t), (q', Sd_command True True)] sd_initial = Some s'
    \<and> fst (sd_places s' ! 0) ! 0 = plain_piece TYPE_STR_INSIGHT_T 1 29"
  by (simp add: first_t_row [OF assms])
    (simp add: sd_step_def sd_initial_def shm_timer_handler_alone Let_def sd_time_bit_def sd_write_t_def sd_write_def sd_clear_def
      APP_SHM_SENSORDATA_TABLE_PIECE_MAX_ITS_def plain_piece_def nth_append)

lemma stale_sensor_data:
  "sql_reachable reused \<and> sd_channel reused 1 = None \<and> sd_channel reused 2 = Some 1
    \<and> (\<exists>s'. sd_runs [(fill 1, t_row 1 29 []), (fill 1, Sd_timer_t), (reused, Sd_command True True)] sd_initial = Some s'
        \<and> fst (sd_places s' ! 0) ! 0 = plain_piece TYPE_STR_INSIGHT_T 1 29)"
proof -
  note f = fill_steps [of 1]
  have r1: "sql_reachable (fill 1)" "dev_rows (fill 1) (sint (1 :: u32)) \<noteq> None" using f by auto
  have inv: "chn_inv (fill 1)" by (rule reachable_chn_inv [OF r1(1)])
  obtain i where i: "i \<in> {1..40}" "taken (fill 1) i" "holder (fill 1) i = 1" "dev_delete_item [] True 1 (fill 1) = Some (True, clear_place i (fill 1))"
    using dev_delete_effect [OF inv, of 1 "[]"] r1(2) by auto
  let ?q = "clear_place i (fill 1)"
  have q: "sql_reachable ?q" by (rule sql_delete [OF r1(1) _ i(4)]) simp
  have rows: "dom (dev_rows ?q) = {}" using f i(3) by (auto simp: clear_place_def)
  have h0: "holder ?q 0 = 0" using f i(1) by (simp add: clear_place_def holder_def)
  have m: "message_ok 2 (sample_msg 2)" by (rule sample_msg_ok) simp_all
  obtain j cnt d r where j: "j \<in> {1..40}" "dev_update_item [] True True 2 (sample_msg 2) ?q = Some (True, put_place j 2 cnt d r ?q)"
    using message_effect [OF reachable_chn_inv [OF q] m, of "[]"] h0 rows by auto
  have "sql_reachable (put_place j 2 cnt d r ?q)"
    by (rule sql_message [OF q m _ _ j(2)]) (use h0 rows in simp_all)
  then have reach: "sql_reachable reused" using i(4) j(2) by (simp add: reused_def del: fill.simps)
  have ch: "sd_channel reused 1 = None" "sd_channel reused 2 = Some 1" "sd_channel (fill 1) 1 = Some 1" by code_simp+
  have fe: "modbus_feature_enable (fill 1)" using inv by (simp add: chn_inv_def)
  note run = set_written [OF fe ch(3), of reused]
  show ?thesis using reach ch run by simp
qed

end
