(* ===== verification/Sql_Report.thy ===== *)
theory Sql_Report
  imports Mslave_Serve Sql_Serve Sql_Collect
begin

text \<open>
  The path of a report of an Insight-T sensor through the whole gateway: from its rows through the database process and the shared memory
  to the registers that a Modbus master reads.
\<close>

section \<open>The registers of an Insight-T sensor\<close>

lemma nine_registers:
  assumes "9 \<le> length (xs :: 'a list)"
  obtains x0 x1 x2 x3 x4 x5 x6 x7 x8 ys where "xs = x0 # x1 # x2 # x3 # x4 # x5 # x6 # x7 # x8 # ys"
proof -
  have "length xs = Suc (Suc (Suc (Suc (Suc (Suc (Suc (Suc (Suc (length xs - 9)))))))))" using assms by simp
  then show thesis using that by (auto simp: length_Suc_conv)
qed

lemma float_two: obtains a b where "to_set_float bo v = [a, b]"
  by (cases bo) (auto simp: to_set_float_def Let_def)

lemma uint32_two: obtains a b where "to_set_uint32 bo v = [a, b]"
  by (cases bo) (auto simp: to_set_uint32_def Let_def)

text \<open>What the four pieces of a report leave in the first nine registers; the update bits are written with each of them.\<close>

definition ist_item :: "measurement_type \<Rightarrow> u32 \<Rightarrow> u64 \<Rightarrow> bytes \<Rightarrow> appShmDataItem_t_original" where
  "ist_item t n time v = \<lparr>appShmDataType = GW_PRO_TABLE_IDX_SENSOR_DATA_TABLE,
     sensorDataTableData = \<lparr>sd_nameId = n, sampleTime = time, dataType = t, sd_value = v, product = INSIGHT_T\<rparr>\<rparr>"

lemmas ist_defs = write_product_def ist_item_def to_write_ist_data_to_register_table_def to_write_ist_bitmap_to_register_table_def
  write_guard_def store_field_def store_two_def put_checked_def put_regs_def layout_defs

lemma ist_pieces_written:
  assumes "mapping_wf m" "nb_registers m = 0x80"
  shows "take 9 (tab_registers (fold (\<lambda>(t, v) m. write_product be fs bo (ist_item t n time v) bm 0 m)
      [(VOLTAGE_CURRENT, v0), (BOARD_TEMPERATURE_CURRENT, v1), (ENVIROMENTAL_TEMPERATURE_CURRENT, v2), (BLE_RSSI_CURRENT, v3)] m))
    = to_set_float bo (data_float be v1) @ to_set_float bo (data_float be v0)
      @ [to_set_uint16 bo (data_int8 v3), to_set_uint16 bo (data_int8 v2)] @ to_set_uint32 bo (ucast time) @ [to_set_uint16 bo (ucast (bm AND 0xFF))]"
proof -
  have "9 \<le> length (tab_registers m)" using assms by (simp add: mapping_wf_def)
  then obtain x0 x1 x2 x3 x4 x5 x6 x7 x8 ys where t: "tab_registers m = x0 # x1 # x2 # x3 # x4 # x5 # x6 # x7 # x8 # ys" by (rule nine_registers)
  obtain a b where ab: "to_set_float bo (data_float be v0) = [a, b]" by (rule float_two)
  obtain c d where cd: "to_set_float bo (data_float be v1) = [c, d]" by (rule float_two)
  obtain e f where ef: "to_set_uint32 bo (ucast time) = [e, f]" by (rule uint32_two)
  show ?thesis using assms(2) by (simp add: ist_defs Let_def t ab cd ef)
qed

section \<open>Layouts by name number\<close>

lemma layout_by_name:
  assumes "List.find (\<lambda>dev. n = dev_nameId dev) (take 40 (dev_array c)) = Some dev"
    and L: "app_mslave_ipc_get_sdata_layout_info c dev = \<lparr>is_valid = True, nameid = m, ch = h, addr = a, regnum = 0x80, stype = st\<rparr>"
  shows "is_valid (to_get_sdata_layout_info c n)" "addr (to_get_sdata_layout_info c n) = a"
    "unat (regnum (to_get_sdata_layout_info c n)) = 0x80 + unat (util_tool_hex_char_to_uint8 (dev_name dev ! 14))"
proof -
  let ?d = "dev_description dev"
  have r: "hex2 (?d ! 13) (?d ! 14) = 0x80" "addr (app_mslave_ipc_get_sdata_layout_info c dev) = a"
    using L by (auto simp: app_mslave_ipc_get_sdata_layout_info_def Let_def zero_layout_def split: if_splits)
  have ok: "util_tool_is_hex_char (?d ! 2)" "util_tool_is_hex_char (?d ! 3)" "util_tool_is_hex_char (?d ! 7)" "util_tool_is_hex_char (?d ! 8)"
    "util_tool_is_hex_char (?d ! 9)" "util_tool_is_hex_char (?d ! 10)" "util_tool_is_hex_char (?d ! 13)"
    "take 3 (drop 16 ?d) = type_PRS \<or> take 3 (drop 16 ?d) = type_ITS"
    using L by (auto simp: app_mslave_ipc_get_sdata_layout_info_def Let_def zero_layout_def split: if_splits)
  have h: "unat (util_tool_hex_char_to_uint8 x) < 16" for x using hex_char_to_uint8_bound [of x] by (simp add: word_less_nat_alt)
  have "unat (hex2 x y) = unat (util_tool_hex_char_to_uint8 x) * 16 + unat (util_tool_hex_char_to_uint8 y)" for x y
    unfolding hex2_def using h [of x] h [of y] by (intro unat_address) linarith
  note two = this
  have "unat (util_tool_hex_char_to_uint8 (?d ! 13)) * 16 + unat (util_tool_hex_char_to_uint8 (?d ! 14)) = 0x80"
    using arg_cong [OF r(1), of unat] unfolding two by simp
  then have eight: "unat (util_tool_hex_char_to_uint8 (?d ! 13)) = 8" using h [of "?d ! 14"] by linarith
  have "a = addr (app_mslave_ipc_get_sdata_layout_info c dev)" using r(2) by simp
  then show "is_valid (to_get_sdata_layout_info c n)" "addr (to_get_sdata_layout_info c n) = a"
    using ok assms(1) by (auto simp: to_get_sdata_layout_info_def app_mslave_ipc_get_sdata_layout_info_def Let_def)
  have "regnum (to_get_sdata_layout_info c n) = hex2 (?d ! 13) (dev_name dev ! 14)"
    using ok assms(1) by (auto simp: to_get_sdata_layout_info_def Let_def)
  then show "unat (regnum (to_get_sdata_layout_info c n)) = 0x80 + unat (util_tool_hex_char_to_uint8 (dev_name dev ! 14))"
    using two eight by simp
qed

lemma layout_valid_same:
  assumes "List.find (\<lambda>dev. n = dev_nameId dev) (take 40 (dev_array c)) = Some dev" "is_valid (to_get_sdata_layout_info c n)"
  shows "is_valid (app_mslave_ipc_get_sdata_layout_info c dev)"
    "addr (to_get_sdata_layout_info c n) = addr (app_mslave_ipc_get_sdata_layout_info c dev)"
  using assms by (auto simp: to_get_sdata_layout_info_def app_mslave_ipc_get_sdata_layout_info_def Let_def zero_layout_def split: if_splits)

lemma layout_name_frame: "to_get_sdata_layout_info (c\<lparr>mapping_queue := q\<rparr>) n = to_get_sdata_layout_info c n"
proof -
  have "app_mslave_get_reg_mapping_offset (c\<lparr>mapping_queue := q\<rparr>) = app_mslave_get_reg_mapping_offset c"
    by (simp add: app_mslave_get_reg_mapping_offset_def)
  then show ?thesis by (simp only: to_get_sdata_layout_info_def) simp
qed

text \<open>The devices that the slave has loaded from the places of the database process.\<close>

definition holds_devices :: "sql_state \<Rightarrow> ctr \<Rightarrow> bool" where
  "holds_devices s c \<longleftrightarrow> length (dev_array c) = 40 \<and> \<not> flg (g_reg_mapping_info c)
     \<and> (\<forall>i \<in> {1..40}. dev_array c ! (i - 1) = (if taken s i then snd (slave_view (dev_cells s ! (i - 1))) else zero_dev))"

lemma holds_devices_frame: "holds_devices s (c\<lparr>mapping_queue := q\<rparr>) = holds_devices s c"
  by (simp add: holds_devices_def)

lemma found_device:
  assumes "chn_inv s" "holds_devices s c" "List.find (\<lambda>dev. n = dev_nameId dev) (take 40 (dev_array c)) = Some dev" "n \<noteq> 0"
  shows "\<exists>i \<in> {1..40}. taken s i \<and> holder s i = n \<and> dev = snd (slave_view (dev_cells s ! (i - 1)))"
proof -
  obtain l where l: "l < 40" "dev = dev_array c ! l" "n = dev_nameId dev"
    using assms(2,3) by (auto simp: find_Some_iff holds_devices_def)
  define i where "i = Suc l"
  have i: "i \<in> {1..40}" "dev = dev_array c ! (i - 1)" using l by (auto simp: i_def)
  have t: "taken s i"
  proof (rule ccontr)
    assume "\<not> taken s i"
    then have "dev = zero_dev" using assms(2) i by (simp add: holds_devices_def)
    then show False using l(3) assms(4) by (simp add: zero_dev_def)
  qed
  then have v: "dev = snd (slave_view (dev_cells s ! (i - 1)))" using assms(2) i by (simp add: holds_devices_def)
  obtain d where "dev_cells s ! (i - 1) = (2, d)" "di_nameid d = holder s i" using taken_entry(4) [OF assms(1) i(1) t] by blast
  then have "holder s i = n" using l(3) v by (simp add: slave_view_def)
  then show ?thesis using i(1) t v by blast
qed

lemma device_found:
  assumes "chn_inv s" "holds_devices s c" "i \<in> {1..40}" "taken s i" "dev_cells s ! (i - 1) = (2, d)"
  shows "List.find (\<lambda>dev. holder s i = dev_nameId dev) (take 40 (dev_array c)) = Some (snd (slave_view (2, d)))"
proof -
  have n: "holder s i \<noteq> 0" by (rule taken_entry(2) [OF assms(1,3,4)])
  have "di_nameid d = holder s i" using taken_entry(4) [OF assms(1,3,4)] assms(5) by auto
  then have v: "dev_array c ! (i - 1) = snd (slave_view (2, d))" "holder s i = dev_nameId (dev_array c ! (i - 1))"
    using assms(2-5) by (simp_all add: holds_devices_def slave_view_def)
  have mem: "i - 1 < length (take 40 (dev_array c))" using assms(2,3) by (auto simp: holds_devices_def)
  have "List.find (\<lambda>dev. holder s i = dev_nameId dev) (take 40 (dev_array c)) \<noteq> None"
    unfolding find_None_iff using mem v(2) by (auto simp: in_set_conv_nth intro!: exI [of _ "i - 1"])
  then obtain dev where dev: "List.find (\<lambda>dev. holder s i = dev_nameId dev) (take 40 (dev_array c)) = Some dev" by blast
  obtain j where j: "j \<in> {1..40}" "taken s j" "holder s j = holder s i" "dev = snd (slave_view (dev_cells s ! (j - 1)))"
    using found_device [OF assms(1,2) dev n] by blast
  have "j = i" using assms(1,3,4) j(1-3) by (auto simp: chn_inv_def inj_on_def)
  then show ?thesis using dev j(4) assms(5) by simp
qed

text \<open>A valid layout names the registers of the holder of the name number.\<close>

lemma layout_of_other:
  assumes "chn_inv s" "holds_devices s c" "n \<noteq> 0" "is_valid (to_get_sdata_layout_info c n)"
  shows "\<exists>i \<in> {1..40}. taken s i \<and> holder s i = n \<and> addr (to_get_sdata_layout_info c n) = of_nat (0x80 * i)"
proof -
  obtain dev where f: "List.find (\<lambda>dev. n = dev_nameId dev) (take 40 (dev_array c)) = Some dev"
    using assms(4) by (auto simp: to_get_sdata_layout_info_def zero_layout_def split: option.splits)
  obtain i where i: "i \<in> {1..40}" "taken s i" "holder s i = n" "dev = snd (slave_view (dev_cells s ! (i - 1)))"
    using found_device [OF assms(1,2) f assms(3)] by blast
  obtain d where d: "dev_cells s ! (i - 1) = (2, d)" "di_description d = ext_layout i (di_sensor_type d)"
    using taken_entry(4) [OF assms(1) i(1,2)] by blast
  have dv: "dev = snd (slave_view (2, d))" using i(4) d(1) by simp
  have v: "is_valid (app_mslave_ipc_get_sdata_layout_info c dev)" by (rule layout_valid_same(1) [OF f assms(4)])
  have t: "di_sensor_type d \<noteq> TYPE_STR_INSIGHT_PP" using pro_layout_invalid [OF i(1), of d c] d(2) v dv by auto
  have flg: "\<not> flg (g_reg_mapping_info c)" using assms(2) by (simp add: holds_devices_def)
  obtain st where "app_mslave_ipc_get_sdata_layout_info c dev =
    \<lparr>is_valid = True, nameid = di_nameid d, ch = of_nat i, addr = of_nat (0x80 * i), regnum = 0x80, stype = st\<rparr>"
    using layout_of_cell [OF i(1) d(2) t flg] dv by blast
  then have "addr (to_get_sdata_layout_info c n) = of_nat (0x80 * i)" using layout_valid_same(2) [OF f assms(4)] by simp
  then show ?thesis using i(1-3) by blast
qed

lemma layout_of_own:
  assumes "chn_inv s" "holds_devices s c" "i \<in> {1..40}" "taken s i" "dev_cells s ! (i - 1) = (2, d)" "di_sensor_type d \<noteq> TYPE_STR_INSIGHT_PP"
  shows "is_valid (to_get_sdata_layout_info c (holder s i))" "addr (to_get_sdata_layout_info c (holder s i)) = of_nat (0x80 * i)"
    "unat (regnum (to_get_sdata_layout_info c (holder s i))) = 0x80 + unat (util_tool_hex_char_to_uint8 (char_array (di_name d) ! 14))"
proof -
  have d: "di_description d = ext_layout i (di_sensor_type d)" using taken_entry(4) [OF assms(1,3,4)] assms(5) by auto
  have "\<not> flg (g_reg_mapping_info c)" using assms(2) by (simp add: holds_devices_def)
  then obtain st where L: "app_mslave_ipc_get_sdata_layout_info c (snd (slave_view (2, d))) =
    \<lparr>is_valid = True, nameid = di_nameid d, ch = of_nat i, addr = of_nat (0x80 * i), regnum = 0x80, stype = st\<rparr>"
    using layout_of_cell [OF assms(3) d assms(6)] by blast
  note f = device_found [OF assms(1-5)]
  show "is_valid (to_get_sdata_layout_info c (holder s i))" "addr (to_get_sdata_layout_info c (holder s i)) = of_nat (0x80 * i)"
    "unat (regnum (to_get_sdata_layout_info c (holder s i))) = 0x80 + unat (util_tool_hex_char_to_uint8 (char_array (di_name d) ! 14))"
    using layout_by_name [OF f L] by (simp_all add: slave_view_def)
qed

section \<open>Writing a place\<close>

definition has_block :: "ctr \<Rightarrow> nat \<Rightarrow> nat \<Rightarrow> bool" where
  "has_block c k i \<longleftrightarrow> k < length (mapping_queue c) \<and> start_registers (mapping_queue c ! k) = 0x80 * i \<and> nb_registers (mapping_queue c ! k) = 0x80
     \<and> (\<forall>m \<in> set (mapping_queue c). mapping_wf m)"

definition same_block :: "nat \<Rightarrow> ctr \<Rightarrow> ctr \<Rightarrow> bool" where
  "same_block k c c' \<longleftrightarrow> (\<exists>q. c' = c\<lparr>mapping_queue := q\<rparr> \<and> regs_only (mapping_queue c) q \<and> q ! k = mapping_queue c ! k)"

lemma same_block_refl: "same_block k c c"
  unfolding same_block_def by (rule exI [of _ "mapping_queue c"]) (simp add: regs_only_refl)

lemma same_block_trans:
  assumes "same_block k c c'" "same_block k c' c''"
  shows "same_block k c c''"
proof -
  obtain q r where "c' = c\<lparr>mapping_queue := q\<rparr>" "regs_only (mapping_queue c) q" "q ! k = mapping_queue c ! k"
    "c'' = c'\<lparr>mapping_queue := r\<rparr>" "regs_only q r" "r ! k = q ! k" using assms by (auto simp: same_block_def)
  then show ?thesis unfolding same_block_def using regs_only_trans by (intro exI [of _ r]) auto
qed

lemma regs_only_nth: "regs_only q q' \<Longrightarrow> l < length q \<Longrightarrow> only_regs UNIV (q ! l) (q' ! l)" "regs_only q q' \<Longrightarrow> length q' = length q"
  by (auto simp: regs_only_def list_all2_conv_all_nth)

lemma locate_regs_only:
  assumes "regs_only (mapping_queue c) q"
  shows "app_mslave_locate_mapping (c\<lparr>mapping_queue := q\<rparr>) a ADDR_GP_HOLDING_REGISTER = Some l
    \<longleftrightarrow> app_mslave_locate_mapping c a ADDR_GP_HOLDING_REGISTER = Some l"
proof -
  have "mapping_covers a ADDR_GP_HOLDING_REGISTER (q ! j) = mapping_covers a ADDR_GP_HOLDING_REGISTER (mapping_queue c ! j)"
    if "j < length (mapping_queue c)" for j
    using only_regs_covers [OF regs_only_nth(1) [OF assms that]] .
  then show ?thesis using regs_only_nth(2) [OF assms] by (auto simp: locate_Some)
qed

lemma has_block_same: "has_block c k i \<Longrightarrow> same_block k c c' \<Longrightarrow> has_block c' k i"
  unfolding has_block_def same_block_def
  using regs_only_nth(2) regs_only_wf by (auto simp: regs_only_def dest: list_all2_lengthD)

lemma has_block_regs:
  assumes "has_block c k i" "regs_only (mapping_queue c) q"
  shows "has_block (c\<lparr>mapping_queue := q\<rparr>) k i"
proof -
  have k: "k < length (mapping_queue c)" using assms(1) by (simp add: has_block_def)
  show ?thesis using assms(1) only_regs_header(1,2) [OF regs_only_nth(1) [OF assms(2) k]] regs_only_nth(2) [OF assms(2)] regs_only_wf [OF assms(2)]
    by (simp add: has_block_def)
qed

text \<open>Pieces of other sensors do not touch the block.\<close>

definition piece_of_other :: "shm_abi \<Rightarrow> bytes \<Rightarrow> u32 \<Rightarrow> nat \<Rightarrow> bool" where
  "piece_of_other abi shm n idx \<longleftrightarrow> (case to_load_sdata_from_shmem_v2 abi shm idx of
     None \<Rightarrow> True | Some item \<Rightarrow> sd_nameId (sensorDataTableData item) \<noteq> n)"

lemma other_pieces:
  assumes inv: "chn_inv s" and i: "i \<in> {1..40}"
  shows "holds_devices s c \<Longrightarrow> has_block c k i \<Longrightarrow> \<forall>j \<in> set js. piece_of_other abi (shm_mem ie) (holder s i) (pl * APP_SHM_SENSORDATA_TABLE_PIECE_MAX + j)
    \<Longrightarrow> same_block k c (sdata_pieces abi ie None pl js c)"
proof (induction js arbitrary: c)
  case (Cons j js)
  let ?idx = "pl * APP_SHM_SENSORDATA_TABLE_PIECE_MAX + j"
  have IH: "same_block k c (sdata_pieces abi ie None pl js c)" using Cons.IH [OF Cons.prems(1,2)] Cons.prems(3) by simp
  show ?case
  proof (cases "to_load_sdata_from_shmem_v2 abi (shm_mem ie) ?idx")
    case None
    then show ?thesis using IH by (simp add: Let_def)
  next
    case (Some item)
    let ?n = "sd_nameId (sensorDataTableData item)" and ?L = "to_get_sdata_layout_info c (sd_nameId (sensorDataTableData item))"
    have n: "?n \<noteq> holder s i" using Cons.prems(3) Some by (simp add: piece_of_other_def)
    show ?thesis
    proof (cases "appShmDataType item = GW_PRO_TABLE_IDX_SENSOR_DATA_TABLE \<and> is_valid ?L")
      case False
      then show ?thesis using IH Some same_block_refl by (auto simp: Let_def)
    next
      case True
      have "?n \<noteq> 0" using Some True by (auto simp: to_load_sdata_from_shmem_v2_def Let_def is_sensor_data_valid_def
          GW_PRO_TABLE_IDX_SENSOR_DATA_TABLE_def split: if_splits)
      then obtain i' where i': "i' \<in> {1..40}" "holder s i' = ?n" "addr ?L = of_nat (0x80 * i')"
        using layout_of_other [OF inv Cons.prems(1)] True by blast
      show ?thesis
      proof (cases "app_mslave_locate_mapping c (addr ?L) ADDR_GP_HOLDING_REGISTER")
        case None
        then show ?thesis using Some True same_block_refl by (simp add: Let_def)
      next
        case (Some l)
        have "l \<noteq> k"
        proof
          assume "l = k"
          then have cov: "mapping_covers (addr ?L) ADDR_GP_HOLDING_REGISTER (mapping_queue c ! k)" using Some by (simp add: locate_Some)
          have b: "start_registers (mapping_queue c ! k) = 0x80 * i" "nb_registers (mapping_queue c ! k) = 0x80" using Cons.prems(2) by (simp_all add: has_block_def)
          have "unat (addr ?L) = 0x80 * i'" unfolding i'(3) by (rule unat_address) (use i'(1) in simp)
          then have "0x80 * i \<le> 0x80 * i' \<and> 0x80 * i' < 0x80 * i + 0x80" using cov covers_holding [of "mapping_queue c ! k" "addr ?L"] b i by simp
          then have "i' = i" by simp
          then show False using i'(2) n by simp
        qed
        let ?m = "write_product (big_endian (create_env ie)) (alarm_files ie) (app_mslave_get_mbus_border c) item
            (to_load_sdata_bitmap_from_shmem abi (shm_mem ie) ?idx) (of_int (int (unat (addr ?L)) - int (start_registers (mapping_queue c ! l)))) (mapping_queue c ! l)"
        let ?c = "c\<lparr>mapping_queue := (mapping_queue c)[l := ?m]\<rparr>"
        have l: "l < length (mapping_queue c)" using Some by (simp add: locate_Some)
        have "mapping_wf (mapping_queue c ! l)" using Cons.prems(2) l by (simp add: has_block_def)
        then have "regs_only (mapping_queue c) (mapping_queue ?c)" using l by (auto intro!: regs_only_update write_product_only)
        then have same: "same_block k c ?c" unfolding same_block_def using \<open>l \<noteq> k\<close> by (intro exI [of _ "mapping_queue ?c"]) simp
        have "same_block k ?c (sdata_pieces abi ie None pl js ?c)"
          using Cons.IH [of ?c] Cons.prems has_block_same [OF Cons.prems(2) same] by (simp add: holds_devices_frame)
        then show ?thesis
          using same_block_trans [OF same] \<open>to_load_sdata_from_shmem_v2 abi (shm_mem ie) ?idx = Some item\<close> True Some same_block_refl
          by (auto simp: Let_def)
      qed
    qed
  qed
qed (simp add: same_block_refl)

text \<open>Pieces of the sensor itself are written to its block, one after the other; empty pieces are skipped.\<close>

definition place_bits :: "shm_abi \<Rightarrow> bytes \<Rightarrow> nat \<Rightarrow> 64 word" where
  "place_bits abi shm pl = u64_item abi (shm_slice shm ((APP_SHM_SENSORDATA_TABLE_ADDR_OFFSET
     + (pl * APP_SHM_SENSORDATA_TABLE_PIECE_MAX + 27) * APP_SHM_SENSORDATA_TABLE_PIECE_SIZE) mod APP_SHM_TOTAL_SIZE) 8)"

lemma bitmap_of_place:
  "j < 28 \<Longrightarrow> to_load_sdata_bitmap_from_shmem abi shm (pl * APP_SHM_SENSORDATA_TABLE_PIECE_MAX + j) = place_bits abi shm pl"
  by (simp add: to_load_sdata_bitmap_from_shmem_def place_bits_def APP_SHM_SENSORDATA_TABLE_PIECE_MAX_def Let_def add.commute)

definition own_layout :: "ctr \<Rightarrow> u32 \<Rightarrow> nat \<Rightarrow> nat \<Rightarrow> bool" where
  "own_layout c n i k \<longleftrightarrow> (let L = to_get_sdata_layout_info c n in is_valid L \<and> addr L = of_nat (0x80 * i) \<and> unat (regnum L) = 0x80)
     \<and> i \<in> {1..40} \<and> app_mslave_locate_mapping c (of_nat (0x80 * i)) ADDR_GP_HOLDING_REGISTER = Some k"

definition own_item :: "shm_abi \<Rightarrow> bytes \<Rightarrow> u32 \<Rightarrow> nat \<Rightarrow> appShmDataItem_t_original \<Rightarrow> bool" where
  "own_item abi shm n idx item \<longleftrightarrow> to_load_sdata_from_shmem_v2 abi shm idx = Some item
     \<and> appShmDataType item = GW_PRO_TABLE_IDX_SENSOR_DATA_TABLE \<and> sd_nameId (sensorDataTableData item) = n"

definition block_written :: "ipc_env \<Rightarrow> ctr \<Rightarrow> 64 word \<Rightarrow> appShmDataItem_t_original list \<Rightarrow> modbus_mapping_t \<Rightarrow> modbus_mapping_t" where
  "block_written ie c bm items m =
     fold (\<lambda>item m. write_product (big_endian (create_env ie)) (alarm_files ie) (mbus_border c) item bm 0 m) items m"

lemma own_layout_frame:
  assumes "own_layout c n i k" "regs_only (mapping_queue c) q"
  shows "own_layout (c\<lparr>mapping_queue := q\<rparr>) n i k"
  using assms(1) locate_regs_only [OF assms(2)] by (simp add: own_layout_def layout_name_frame)

lemma own_pieces:
  "has_block c k i \<Longrightarrow> own_layout c n i k
    \<Longrightarrow> list_all2 (\<lambda>j item. j < 28 \<and> own_item abi (shm_mem ie) n (pl * APP_SHM_SENSORDATA_TABLE_PIECE_MAX + j) item) js items
    \<Longrightarrow> sdata_pieces abi ie None pl (js @ rest) c = sdata_pieces abi ie None pl rest
      (c\<lparr>mapping_queue := (mapping_queue c)[k := block_written ie c (place_bits abi (shm_mem ie) pl) items (mapping_queue c ! k)]\<rparr>)"
proof (induction js arbitrary: items c)
  case Nil
  then show ?case by (simp add: block_written_def)
next
  case (Cons j js)
  obtain item items' where it: "items = item # items'" "j < 28" "own_item abi (shm_mem ie) n (pl * APP_SHM_SENSORDATA_TABLE_PIECE_MAX + j) item"
    "list_all2 (\<lambda>j item. j < 28 \<and> own_item abi (shm_mem ie) n (pl * APP_SHM_SENSORDATA_TABLE_PIECE_MAX + j) item) js items'"
    using Cons.prems(3) by (auto simp: list_all2_Cons1)
  let ?bm = "place_bits abi (shm_mem ie) pl"
  let ?m = "write_product (big_endian (create_env ie)) (alarm_files ie) (mbus_border c) item ?bm 0 (mapping_queue c ! k)"
  let ?c = "c\<lparr>mapping_queue := (mapping_queue c)[k := ?m]\<rparr>"
  have b: "k < length (mapping_queue c)" "start_registers (mapping_queue c ! k) = 0x80 * i" "nb_registers (mapping_queue c ! k) = 0x80"
    "mapping_wf (mapping_queue c ! k)" using Cons.prems(1) by (simp_all add: has_block_def)
  have L: "is_valid (to_get_sdata_layout_info c n)" "addr (to_get_sdata_layout_info c n) = of_nat (0x80 * i)"
    "unat (regnum (to_get_sdata_layout_info c n)) = 0x80" "i \<in> {1..40}" "app_mslave_locate_mapping c (of_nat (0x80 * i)) ADDR_GP_HOLDING_REGISTER = Some k"
    using Cons.prems(2) by (simp_all add: own_layout_def Let_def)
  have a: "unat (of_nat (0x80 * i) :: u16) = 0x80 * i" by (rule unat_address) (use L(4) in simp)
  have regs: "regs_only (mapping_queue c) ((mapping_queue c)[k := ?m])" using b by (intro regs_only_update write_product_only)
  have hb: "has_block ?c k i"
    using Cons.prems(1) regs_only_wf [OF regs] only_regs_header(1,2) [OF write_product_only [OF b(4)]] b by (simp add: has_block_def)
  have "sdata_pieces abi ie None pl ((j # js) @ rest) c = sdata_pieces abi ie None pl (js @ rest) ?c"
    using it(3) L(1,3,5) a b(2,3) by (simp add: own_item_def Let_def L(2) bitmap_of_place [OF it(2)] app_mslave_get_mbus_border_def del: of_nat_mult)
  also have "\<dots> = sdata_pieces abi ie None pl rest (?c\<lparr>mapping_queue := (mapping_queue ?c)[k := block_written ie ?c ?bm items' (mapping_queue ?c ! k)]\<rparr>)"
    by (rule Cons.IH [OF hb own_layout_frame [OF Cons.prems(2) regs] it(4)])
  finally show ?case using b(1) by (simp add: it(1) block_written_def)
qed

lemma empty_pieces:
  "\<forall>j \<in> set js. \<forall>item. to_load_sdata_from_shmem_v2 abi (shm_mem ie) (pl * APP_SHM_SENSORDATA_TABLE_PIECE_MAX + j) = Some item
     \<longrightarrow> appShmDataType item \<noteq> GW_PRO_TABLE_IDX_SENSOR_DATA_TABLE \<Longrightarrow> sdata_pieces abi ie None pl js c = c"
  by (induction js) (auto simp: Let_def split: option.splits)

section \<open>The shared memory as the slave reads it\<close>

definition measurement_of :: "u8 \<Rightarrow> measurement_type" where
  "measurement_of t =
     (case map_of [(13 :: u8, ENVIROMENTAL_TEMPERATURE_CURRENT), (14, ENVIROMENTAL_TEMPERATURE_MAX), (15, ENVIROMENTAL_TEMPERATURE_MIN),
        (21, BOARD_TEMPERATURE_CURRENT), (29, VOLTAGE_CURRENT), (30, REMAINING_VOLUME), (42, BLE_RSSI_CURRENT),
        (43, ADVANCED_ALGO_MACHINE_RUN_CODE), (44, ADVANCED_ALGO_MACHINE_CONDITON_CODE), (45, ADVANCED_ALGO_ALARM_CODE),
        (46, ADVANCED_ALGO_RMS_MAG_PRE), (47, ADVANCED_ALGO_RMS_VIB_PRE), (48, ADVANCED_ALGO_EST_RPM_START), (49, ADVANCED_ALGO_EST_RPM_END),
        (50, ADVANCED_ALGO_VEL_OV), (51, ADVANCED_ALGO_VEL_RSH), (52, ADVANCED_ALGO_VEL_MTR), (53, ADVANCED_ALGO_VEL_FAN),
        (54, ADVANCED_ALGO_VEL_PUMP), (55, ADVANCED_ALGO_ENV_OV), (56, ADVANCED_ALGO_ENV_BPFI), (57, ADVANCED_ALGO_ENV_BPFO),
        (58, ADVANCED_ALGO_ENV_BSF), (59, ADVANCED_ALGO_ENV_FTF), (60, ADVANCED_ALGO_ENV_RSH), (61, ADVANCED_ALGO_ACC_OV),
        (62, ADVANCED_ALGO_ACC_GEAR)] t of
        None \<Rightarrow> MT_OTHER (unat t) | Some m \<Rightarrow> m)"

definition product_of :: "u8 \<Rightarrow> product_type" where
  "product_of t = (if t = 5 then BULLET_NODE else if t = 6 then BULLET_GATEWAY else if t = 7 then INSIGHT_T else PRODUCT_OTHER (unat t))"

text \<open>A piece as the structure of the slave; \<^term>\<open>enc\<close> is the object representation of a value.\<close>

definition piece_view :: "(gw_value \<Rightarrow> bytes) \<Rightarrow> sd_piece \<Rightarrow> sensorDataTableData_t" where
  "piece_view enc p = \<lparr>sd_nameId = pc_nameId p, sampleTime = pc_sampleTime p, dataType = measurement_of (pc_dataType p),
     sd_value = enc (pc_value p), product = product_of (pc_product p)\<rparr>"

definition piece_slice :: "shm_abi \<Rightarrow> bytes \<Rightarrow> nat \<Rightarrow> bytes" where
  "piece_slice abi shm idx = shm_slice shm ((APP_SHM_SENSORDATA_TABLE_ADDR_OFFSET + idx * APP_SHM_SENSORDATA_TABLE_PIECE_SIZE)
     mod APP_SHM_TOTAL_SIZE) (sizeof_sdata abi)"

text \<open>
  The bytes of the shared memory are those of the places: 27 pieces and the bitmap, whose upper half lies where a piece has its name number.
\<close>

definition reads_sdata :: "shm_abi \<Rightarrow> (gw_value \<Rightarrow> bytes) \<Rightarrow> bytes \<Rightarrow> (sd_piece list \<times> u64) list \<Rightarrow> bool" where
  "reads_sdata abi enc shm places \<longleftrightarrow> (\<forall>c < 40.
     (\<forall>k < 27. sdata_item abi (piece_slice abi shm (c * APP_SHM_SENSORDATA_TABLE_PIECE_MAX + k)) = piece_view enc (fst (places ! c) ! k))
     \<and> sd_nameId (sdata_item abi (piece_slice abi shm (c * APP_SHM_SENSORDATA_TABLE_PIECE_MAX + 27))) = ucast (drop_bit 32 (snd (places ! c)))
     \<and> place_bits abi shm c = snd (places ! c))"

definition abi_fits :: "shm_abi \<Rightarrow> bool" where
  "abi_fits abi \<longleftrightarrow> sizeof_item_original abi \<le> sizeof_item abi \<and> sizeof_item_original abi < SZ_IPC_BUF
     \<and> sizeof_sdata abi \<le> APP_SHM_SENSORDATA_TABLE_PIECE_SIZE"

lemma loaded_piece:
  assumes "abi_fits abi" "sd = sdata_item abi (piece_slice abi shm idx)"
  shows "to_load_sdata_from_shmem_v2 abi shm idx = Some \<lparr>appShmDataType = (if sd_nameId sd = 0 then 0 else GW_PRO_TABLE_IDX_SENSOR_DATA_TABLE),
    sensorDataTableData = sd\<rparr>"
  using assms by (simp add: abi_fits_def to_load_sdata_from_shmem_v2_def piece_slice_def is_sensor_data_valid_def Let_def not_le not_less)

lemma pieces_of_other_place:
  assumes "abi_fits abi" "reads_sdata abi enc shm places" "c < 40" "j < 28"
    and "\<forall>k < 27. pc_nameId (fst (places ! c) ! k) \<noteq> n" "drop_bit 32 (snd (places ! c)) = 0" "n \<noteq> 0"
  shows "piece_of_other abi shm n (c * APP_SHM_SENSORDATA_TABLE_PIECE_MAX + j)"
proof -
  have "sd_nameId (sdata_item abi (piece_slice abi shm (c * APP_SHM_SENSORDATA_TABLE_PIECE_MAX + j))) \<noteq> n"
  proof (cases "j = 27")
    case True
    then have "sd_nameId (sdata_item abi (piece_slice abi shm (c * APP_SHM_SENSORDATA_TABLE_PIECE_MAX + j))) = ucast (drop_bit 32 (snd (places ! c)))"
      using assms(2,3) by (simp add: reads_sdata_def)
    then show ?thesis using assms(6,7) by simp
  next
    case False
    then have "j < 27" using assms(4) by simp
    then have "sdata_item abi (piece_slice abi shm (c * APP_SHM_SENSORDATA_TABLE_PIECE_MAX + j)) = piece_view enc (fst (places ! c) ! j)"
      using assms(2,3) by (simp add: reads_sdata_def)
    then show ?thesis using assms(5) \<open>j < 27\<close> by (simp add: piece_view_def)
  qed
  then show ?thesis by (simp add: piece_of_other_def loaded_piece [OF assms(1) refl])
qed

lemma other_places:
  assumes inv: "chn_inv s" "i \<in> {1..40}" and abi: "abi_fits abi" "reads_sdata abi enc (shm_mem ie) places" and n: "holder s i \<noteq> 0"
  shows "holds_devices s c \<Longrightarrow> has_block c k i \<Longrightarrow> \<forall>pl \<in> set pls. pl < 40 \<and> drop_bit 32 (snd (places ! pl)) = 0 \<and> (\<forall>k < 27. pc_nameId (fst (places ! pl) ! k) \<noteq> holder s i)
    \<Longrightarrow> same_block k c (fold (\<lambda>pl. sdata_pieces abi ie None pl [0..<28]) pls c)"
proof (induction pls arbitrary: c)
  case (Cons pl pls)
  let ?c = "sdata_pieces abi ie None pl [0..<28] c"
  have "\<forall>j \<in> set [0..<28]. piece_of_other abi (shm_mem ie) (holder s i) (pl * APP_SHM_SENSORDATA_TABLE_PIECE_MAX + j)"
    using pieces_of_other_place [OF abi _ _ _ _ n] Cons.prems(3) by (auto simp del: upt_Suc)
  then have same: "same_block k c ?c" using other_pieces [OF inv Cons.prems(1,2)] by blast
  then have "holds_devices s ?c" using Cons.prems(1) by (auto simp: same_block_def holds_devices_frame)
  then have "same_block k ?c (fold (\<lambda>pl. sdata_pieces abi ie None pl [0..<28]) pls ?c)"
    using Cons.IH has_block_same [OF Cons.prems(2) same] Cons.prems(3) by simp
  then show ?case using same_block_trans [OF same] by (simp only: fold_simps)
qed (simp add: same_block_refl)

section \<open>The place of the sensor\<close>

definition report_values :: "(gw_value \<Rightarrow> bytes) \<Rightarrow> sit_dtpacket \<Rightarrow> (measurement_type \<times> bytes) list" where
  "report_values enc p = [(VOLTAGE_CURRENT, enc (sit_value p SIT_DT_VCC)), (BOARD_TEMPERATURE_CURRENT, enc (sit_value p SIT_DT_MTEMP)),
     (ENVIROMENTAL_TEMPERATURE_CURRENT, enc (sit_value p SIT_DT_ETEMP)), (BLE_RSSI_CURRENT, enc (sit_value p SIT_DT_RSSI))]"

lemma report_view:
  "piece_view enc (report_piece p SIT_DT_VCC) = sensorDataTableData (ist_item VOLTAGE_CURRENT (ad_nameId (ad_data p)) (sit_dtpacket.tstamp p) (enc (sit_value p SIT_DT_VCC)))"
  "piece_view enc (report_piece p SIT_DT_MTEMP) = sensorDataTableData (ist_item BOARD_TEMPERATURE_CURRENT (ad_nameId (ad_data p)) (sit_dtpacket.tstamp p) (enc (sit_value p SIT_DT_MTEMP)))"
  "piece_view enc (report_piece p SIT_DT_ETEMP) = sensorDataTableData (ist_item ENVIROMENTAL_TEMPERATURE_CURRENT (ad_nameId (ad_data p)) (sit_dtpacket.tstamp p) (enc (sit_value p SIT_DT_ETEMP)))"
  "piece_view enc (report_piece p SIT_DT_RSSI) = sensorDataTableData (ist_item BLE_RSSI_CURRENT (ad_nameId (ad_data p)) (sit_dtpacket.tstamp p) (enc (sit_value p SIT_DT_RSSI)))"
  by (simp_all add: piece_view_def report_piece_def ist_item_def product_of_def sit_measurement_type_def measurement_of_def)

lemma own_place:
  assumes abi: "abi_fits abi" "reads_sdata abi enc (shm_mem ie) places"
    and c: "has_block c k i" "own_layout c n i k" and n: "n = ad_nameId (ad_data p)" "n \<noteq> 0"
    and pl: "places ! (i - 1) = (map (report_piece p) [SIT_DT_VCC, SIT_DT_MTEMP, SIT_DT_ETEMP, SIT_DT_RSSI] @ replicate 23 zero_piece, bits)"
      "drop_bit 32 bits = 0"
  shows "sdata_pieces abi ie None (i - 1) [0..<28] c = c\<lparr>mapping_queue := (mapping_queue c)[k :=
    fold (\<lambda>(t, v) m. write_product (big_endian (create_env ie)) (alarm_files ie) (mbus_border c) (ist_item t n (sit_dtpacket.tstamp p) v) bits 0 m)
      (report_values enc p) (mapping_queue c ! k)]\<rparr>"
proof -
  let ?items = "map (\<lambda>(t, v). ist_item t n (sit_dtpacket.tstamp p) v) (report_values enc p)"
  have i: "i - 1 < 40" using c(2) by (auto simp: own_layout_def)
  have view: "sdata_item abi (piece_slice abi (shm_mem ie) ((i - 1) * APP_SHM_SENSORDATA_TABLE_PIECE_MAX + j)) =
      piece_view enc ((map (report_piece p) [SIT_DT_VCC, SIT_DT_MTEMP, SIT_DT_ETEMP, SIT_DT_RSSI] @ replicate 23 zero_piece) ! j)" if "j < 27" for j
    using abi(2) i that pl(1) unfolding reads_sdata_def by (metis fst_conv)
  have own: "own_item abi (shm_mem ie) n ((i - 1) * APP_SHM_SENSORDATA_TABLE_PIECE_MAX + j) (ist_item t n (sit_dtpacket.tstamp p) v)"
    if "j < 27" "piece_view enc ((map (report_piece p) [SIT_DT_VCC, SIT_DT_MTEMP, SIT_DT_ETEMP, SIT_DT_RSSI] @ replicate 23 zero_piece) ! j)
      = sensorDataTableData (ist_item t n (sit_dtpacket.tstamp p) v)" for j t v
    using loaded_piece [OF abi(1) view [OF that(1), symmetric]] that(2) n(2) by (simp add: own_item_def ist_item_def)
  have items: "list_all2 (\<lambda>j item. j < 28 \<and> own_item abi (shm_mem ie) n ((i - 1) * APP_SHM_SENSORDATA_TABLE_PIECE_MAX + j) item) [0, 1, 2, 3] ?items"
    using own [of 0] own [of 1] own [of 2] own [of 3] report_view [of enc p] n(1) by (simp add: report_values_def)
  have zero: "sd_nameId (sdata_item abi (piece_slice abi (shm_mem ie) ((i - 1) * APP_SHM_SENSORDATA_TABLE_PIECE_MAX + j))) = 0" if "4 \<le> j" "j < 28" for j
  proof (cases "j = 27")
    case True
    then have "sd_nameId (sdata_item abi (piece_slice abi (shm_mem ie) ((i - 1) * APP_SHM_SENSORDATA_TABLE_PIECE_MAX + j))) = ucast (drop_bit 32 (snd (places ! (i - 1))))"
      using abi(2) i by (simp add: reads_sdata_def)
    then show ?thesis using pl by simp
  next
    case False
    then have "j < 27" using that(2) by simp
    then have "(map (report_piece p) [SIT_DT_VCC, SIT_DT_MTEMP, SIT_DT_ETEMP, SIT_DT_RSSI] @ replicate 23 zero_piece) ! j = zero_piece"
      using that(1) by (simp add: nth_append)
    then show ?thesis using view [OF \<open>j < 27\<close>] by (simp add: piece_view_def zero_piece_def)
  qed
  have bits: "place_bits abi (shm_mem ie) (i - 1) = bits" using abi(2) i pl(1) by (simp add: reads_sdata_def)
  have "[0..<28] = [0, 1, 2, 3] @ [4..<28 :: nat]" by (simp add: upt_conv_Cons)
  then have "sdata_pieces abi ie None (i - 1) [0..<28] c = sdata_pieces abi ie None (i - 1) [4..<28]
      (c\<lparr>mapping_queue := (mapping_queue c)[k := block_written ie c bits ?items (mapping_queue c ! k)]\<rparr>)"
    using own_pieces [OF c items, of "[4..<28]"] bits by (simp only:)
  also have "\<dots> = c\<lparr>mapping_queue := (mapping_queue c)[k := block_written ie c bits ?items (mapping_queue c ! k)]\<rparr>"
  proof (rule empty_pieces, intro ballI allI impI)
    fix j item assume "j \<in> set [4..<28 :: nat]" and l: "to_load_sdata_from_shmem_v2 abi (shm_mem ie) ((i - 1) * APP_SHM_SENSORDATA_TABLE_PIECE_MAX + j) = Some item"
    then have "4 \<le> j" "j < 28" by auto
    then show "appShmDataType item \<noteq> GW_PRO_TABLE_IDX_SENSOR_DATA_TABLE"
      using l loaded_piece [OF abi(1) refl, of "shm_mem ie" "(i - 1) * APP_SHM_SENSORDATA_TABLE_PIECE_MAX + j"] zero
      by (auto simp: GW_PRO_TABLE_IDX_SENSOR_DATA_TABLE_def)
  qed
  finally show ?thesis by (simp add: block_written_def report_values_def)
qed

section \<open>From the rows to the wire\<close>

text \<open>Places that only Insight-T sensors have written: at most four pieces, all of the sensor of the channel.\<close>

definition t_places :: "sql_state \<Rightarrow> (sd_piece list \<times> u64) list \<Rightarrow> bool" where
  "t_places q places \<longleftrightarrow> length places = 40 \<and> (\<forall>c < 40. length (fst (places ! c)) = 27 \<and> drop_bit 32 (snd (places ! c)) = 0
     \<and> (\<forall>k < 27. fst (places ! c) ! k = zero_piece \<or> k < 4 \<and> sd_channel q (pc_nameId (fst (places ! c) ! k)) = Some (of_nat (c + 1))))"

lemma upt_split: "i \<in> {1..n} \<Longrightarrow> [0..<n] = [0..<i - 1] @ (i - 1) # [i..<n]"
  using upt_add_eq_append [of 0 "i - 1" "n - (i - 1)"] upt_conv_Cons [of "i - 1" n] by auto

lemma update_writes_place:
  assumes inv: "chn_inv s" "holds_devices s c" and i: "i \<in> {1..40}" "holder s i = n" "n \<noteq> 0" and n: "n = ad_nameId (ad_data p)"
    and c: "has_block c k i" "own_layout c n i k" and abi: "abi_fits abi" "reads_sdata abi enc (shm_mem ie) places"
    and own: "places ! (i - 1) = (map (report_piece p) [SIT_DT_VCC, SIT_DT_MTEMP, SIT_DT_ETEMP, SIT_DT_RSSI] @ replicate 23 zero_piece, bits)"
      "drop_bit 32 bits = 0"
    and other: "\<And>l. l < 40 \<Longrightarrow> l \<noteq> i - 1 \<Longrightarrow> drop_bit 32 (snd (places ! l)) = 0 \<and> (\<forall>k < 27. pc_nameId (fst (places ! l) ! k) \<noteq> n)"
  shows "\<exists>q. to_update_sdata_register abi ie c = (ERR_NONE, c\<lparr>mapping_queue := q\<rparr>) \<and> regs_only (mapping_queue c) q
    \<and> take 9 (tab_registers (q ! k)) = to_set_float (mbus_border c) (data_float (big_endian (create_env ie)) (enc (sit_value p SIT_DT_MTEMP)))
        @ to_set_float (mbus_border c) (data_float (big_endian (create_env ie)) (enc (sit_value p SIT_DT_VCC)))
        @ [to_set_uint16 (mbus_border c) (data_int8 (enc (sit_value p SIT_DT_RSSI))), to_set_uint16 (mbus_border c) (data_int8 (enc (sit_value p SIT_DT_ETEMP)))]
        @ to_set_uint32 (mbus_border c) (ucast (sit_dtpacket.tstamp p)) @ [to_set_uint16 (mbus_border c) (ucast (bits AND 0xFF))]"
proof -
  let ?f = "\<lambda>pls. fold (\<lambda>pl. sdata_pieces abi ie None pl [0..<28]) pls"
  have split: "[0..<40] = [0..<i - 1] @ (i - 1) # [i..<40]" by (rule upt_split [OF i(1)])
  have ok: "pl < 40 \<and> drop_bit 32 (snd (places ! pl)) = 0 \<and> (\<forall>k < 27. pc_nameId (fst (places ! pl) ! k) \<noteq> holder s i)"
    if "pl \<in> set [0..<i - 1] \<or> pl \<in> set [i..<40]" for pl
    using that other [of pl] i(1,2) by auto
  have nz: "holder s i \<noteq> 0" using i(2,3) by simp
  let ?c1 = "?f [0..<i - 1] c"
  have s1: "same_block k c ?c1" by (rule other_places [OF inv(1) i(1) abi nz inv(2) c(1)]) (use ok in blast)
  then obtain q1 where q1: "?c1 = c\<lparr>mapping_queue := q1\<rparr>" "regs_only (mapping_queue c) q1" "q1 ! k = mapping_queue c ! k" unfolding same_block_def by blast
  have b1: "has_block ?c1 k i" by (rule has_block_same [OF c(1) s1])
  have l1: "own_layout ?c1 n i k" unfolding q1(1) by (rule own_layout_frame [OF c(2) q1(2)])
  let ?m = "fold (\<lambda>(t, v) m. write_product (big_endian (create_env ie)) (alarm_files ie) (mbus_border c) (ist_item t n (sit_dtpacket.tstamp p) v) bits 0 m)
      (report_values enc p) (mapping_queue c ! k)"
  let ?c2 = "sdata_pieces abi ie None (i - 1) [0..<28] ?c1"
  have c2: "?c2 = c\<lparr>mapping_queue := q1[k := ?m]\<rparr>"
    using own_place [OF abi b1 l1 n i(3) own] unfolding q1(1) by (simp add: q1(3))
  have wf: "mapping_wf (mapping_queue c ! k)" "k < length (mapping_queue c)" "nb_registers (mapping_queue c ! k) = 0x80"
    using c(1) by (simp_all add: has_block_def)
  have wf1: "\<forall>m \<in> set (mapping_queue ?c1). mapping_wf m" using b1 by (simp add: has_block_def)
  obtain q2 where q2: "?c2 = ?c1\<lparr>mapping_queue := q2\<rparr>" "regs_only (mapping_queue ?c1) q2" using sdata_pieces_only [OF wf1] by blast
  have e2: "q2 = q1[k := ?m]" using arg_cong [OF c2, of mapping_queue] arg_cong [OF q2(1), of mapping_queue] by simp
  have b2: "has_block ?c2 k i" unfolding q2(1) by (rule has_block_regs [OF b1 q2(2)])
  have h2: "holds_devices s ?c2" using inv(2) unfolding c2 by (simp add: holds_devices_frame)
  have s3: "same_block k ?c2 (?f [i..<40] ?c2)" by (rule other_places [OF inv(1) i(1) abi nz h2 b2]) (use ok in blast)
  then obtain q3 where q3: "?f [i..<40] ?c2 = ?c2\<lparr>mapping_queue := q3\<rparr>" "regs_only (mapping_queue ?c2) q3" "q3 ! k = mapping_queue ?c2 ! k"
    unfolding same_block_def by blast
  have run: "?f [0..<40] c = c\<lparr>mapping_queue := q3\<rparr>" using q3(1) unfolding split fold_append comp_def fold_simps c2 by simp
  have q: "q3 ! k = ?m" using q3(3) wf(2) regs_only_nth(2) [OF q1(2)] unfolding c2 by simp
  have "regs_only q1 q2" using q2(2) q1(1) by simp
  then have regs: "regs_only (mapping_queue c) q3" using q3(2) regs_only_trans [OF q1(2)] regs_only_trans e2 unfolding c2 by auto
  have "to_update_sdata_register abi ie c = (ERR_NONE, ?f [0..<40] c)"
    using abi(1) inv(2)
    by (simp add: to_update_sdata_register_def abi_fits_def holds_devices_def APP_SHM_SENSORDATA_TABLE_PIECE_MAX_def APP_SHM_SENSORDATA_TABLE_ITEM_MAX_def
        Let_def del: upt_Suc upt_rec_numeral fold_simps)
  then have "to_update_sdata_register abi ie c = (ERR_NONE, c\<lparr>mapping_queue := q3\<rparr>)" unfolding run .
  then show ?thesis using regs ist_pieces_written [OF wf(1,3), of "big_endian (create_env ie)" "alarm_files ie" "mbus_border c" n "sit_dtpacket.tstamp p" bits]
    by (intro exI [of _ q3]) (simp add: q report_values_def del: fold_simps)
qed

lemma entry_unique:
  assumes "chn_inv s" "i \<in> {1..40}" "j \<in> {1..40}" "cm_nameid (chn_nameid_map s ! i) = n" "cm_nameid (chn_nameid_map s ! j) = n"
    "cm_validflag (chn_nameid_map s ! i) = 1" "cm_validflag (chn_nameid_map s ! j) = 1"
  shows "i = j"
proof -
  have "taken s i" "taken s j" "holder s i = holder s j" using assms(4-7) by (auto simp: taken_def holder_def zero_chn_def)
  then show ?thesis using assms(1-3) by (auto simp: chn_inv_def inj_on_def)
qed

lemma places_of_others:
  assumes "t_places q places" "sd_channel q n = Some (of_nat i)" "i \<in> {1..40}" "n \<noteq> 0" "l < 40" "l \<noteq> i - 1"
  shows "drop_bit 32 (snd (places ! l)) = 0 \<and> (\<forall>k < 27. pc_nameId (fst (places ! l) ! k) \<noteq> n)"
proof -
  have "(of_nat (l + 1) :: u8) \<noteq> of_nat i"
  proof
    assume "(of_nat (l + 1) :: u8) = of_nat i"
    then have "unat (of_nat (l + 1) :: u8) = unat (of_nat i :: u8)" by simp
    then have "l + 1 = i" using assms(3,5) by (simp add: unat_of_nat del: of_nat_Suc of_nat_add)
    then show False using assms(6) by simp
  qed
  then have "pc_nameId (fst (places ! l) ! k) \<noteq> n" if "k < 27" for k
  proof -
    have "fst (places ! l) ! k = zero_piece \<or> sd_channel q (pc_nameId (fst (places ! l) ! k)) = Some (of_nat (l + 1))"
      using assms(1,5) that unfolding t_places_def by blast
    then show ?thesis using assms(2,4) \<open>(of_nat (l + 1) :: u8) \<noteq> of_nat i\<close> by (auto simp: zero_piece_def)
  qed
  then show ?thesis using assms(1,5) by (simp add: t_places_def)
qed

text \<open>What the slave has after it has loaded the devices and created its mappings.\<close>

lemma slave_ready:
  assumes q: "sql_reachable q" and i: "i \<in> {1..40}" "chn_nameid_map q ! i = \<lparr>cm_validflag = 1, cm_ch = of_nat i, cm_nameid = n\<rparr>"
    and row: "dev_rows q (int (unat n)) = Some r" "take 68 (r 6) \<noteq> TYPE_STR_INSIGHT_PP"
    and name: "\<forall>cell \<in> set (dev_cells q). di_nameid (snd cell) = n \<longrightarrow> util_tool_hex_char_to_uint8 (char_array (di_name (snd cell)) ! 14) = 0"
    and rd: "reads_places abi shm q" "length (dev_array c) = 40" "to_load_devlist_from_shmem abi shm c = (ERR_NONE, c1)" "dev_hash c1 \<noteq> dev_hash c"
    and gw: "gw_description (gwconf c1) = build_name 0 0 0x80 type_GWY @ rest" "\<not> flg (g_reg_mapping_info c1)"
    and create: "to_create_extensible_reg_mapping_v2 mem_ok c1 = (ERR_NONE, c2)"
  shows "\<exists>k. holds_devices q c2 \<and> has_block c2 k i \<and> own_layout c2 n i k"
proof -
  have inv: "chn_inv q" by (rule reachable_chn_inv [OF q])
  have t: "taken q i" "holder q i = n" using i(2) by (simp_all add: taken_def holder_def zero_chn_def)
  note dev = slave_devices [OF inv rd]
  obtain g where g: "modbus_mapping_new_start_address (mem_ok 0) 0 0 0 0 (unat (addr (app_mslave_ipc_get_gwconf_layout_info c1 (gwconf c1))))
      (unat (regnum (app_mslave_ipc_get_gwconf_layout_info c1 (gwconf c1)))) 0 0 = Some g"
    "create_sensor_mappings mem_ok 1 (take 40 (dev_array c1)) (c1\<lparr>mapping_queue := [g]\<rparr>) = (ERR_NONE, c2)"
    by (rule created_queue [OF create gw(2)])
  obtain ms where ms: "c2 = c1\<lparr>mapping_queue := g # ms\<rparr>" "\<forall>m \<in> set ms. holding_only m" using create_sensor_mappings_appends [OF g(2)] by auto
  have wf: "\<forall>m \<in> set (mapping_queue c2). mapping_wf m" using ms new_holding_only [OF g(1)] by (simp add: holding_only_def)
  have h: "holds_devices q c2" using dev gw(2) unfolding ms(1) holds_devices_frame by (simp add: holds_devices_def)
  obtain i' k where k: "i' \<in> {1..40}" "chn_nameid_map q ! i' = \<lparr>cm_validflag = 1, cm_ch = of_nat i', cm_nameid = word_of_int (int (unat n))\<rparr>"
    "app_mslave_locate_mapping c2 (of_nat (0x80 * i' + 0)) ADDR_GP_HOLDING_REGISTER = Some k" "start_registers (mapping_queue c2 ! k) = 0x80 * i'"
    "nb_registers (mapping_queue c2 ! k) = 0x80"
    using served_at_channel [OF q rd(1,2) rd(3,4) gw create row, of 0] by auto
  have "i' = i" by (rule entry_unique [OF inv k(1) i(1), of n]) (simp_all add: k(2) i(2))
  note k = k [unfolded this]
  have b: "has_block c2 k i" using k(3-5) wf by (simp add: has_block_def locate_Some)
  obtain d r' where d: "dev_cells q ! (i - 1) = (2, d)" "di_nameid d = n" "dev_rows q (int (unat n)) = Some r'" "di_sensor_type d = take 68 (r' 6)"
    using taken_entry(4) [OF inv i(1) t(1)] t(2) by auto
  have "i - 1 < length (dev_cells q)" using inv i(1) by (auto simp: chn_inv_def)
  then have "(2, d) \<in> set (dev_cells q)" using d(1) nth_mem by fastforce
  then have "util_tool_hex_char_to_uint8 (char_array (di_name d) ! 14) = 0" using name d(2) by auto
  moreover have "di_sensor_type d \<noteq> TYPE_STR_INSIGHT_PP" using row d(3,4) by simp
  note layout_of_own [OF inv h i(1) t(1) d(1) this, unfolded t(2)]
  ultimately have "own_layout c2 n i k" using k(3) i(1) by (simp add: own_layout_def)
  then show ?thesis using h b by blast
qed

text \<open>
  C3: a report of an Insight-T sensor is what a Modbus master reads: when the four rows of the report have gone through the database
  process, in extensible mode, and the slave has loaded the devices, created its mappings and written the sensor data, then a request for
  the first nine registers of the sensor's channel is answered with the board temperature, the voltage, the signal strength, the environment
  temperature, the time of the report and the update bits.  The name of the sensor must not have another hexadecimal digit than 0 as its
  15th character, because the slave takes part of the length of the block from it.  The addresses are registers, as the two programs
  take them, not the bytes of the comment in \<^verbatim>\<open>sh_mem.h\<close>.
\<close>

theorem report_read_by_master:
  assumes q: "sql_reachable q" "dev_rows q (int (unat n)) = Some r" "take 68 (r 6) \<noteq> TYPE_STR_INSIGHT_PP" "n = ad_nameId (ad_data p)"
      "\<forall>cell \<in> set (dev_cells q). di_nameid (snd cell) = n \<longrightarrow> util_tool_hex_char_to_uint8 (char_array (di_name (snd cell)) ! 14) = 0"
    and i: "i \<in> {1..40}" "chn_nameid_map q ! i = \<lparr>cm_validflag = 1, cm_ch = of_nat i, cm_nameid = n\<rparr>"
    and s: "sd_status s" "g_sensor_data_piece_cnt s = 0" "length (g_shm_data_buf s) = 27" "g_shm_data_bits s = 0" "t_places q (sd_places s)"
    and t: "t1 \<noteq> None" "first_try ts4"
    and slave: "reads_places abi shm q" "length (dev_array c) = 40" "to_load_devlist_from_shmem abi shm c = (ERR_NONE, c1)" "dev_hash c1 \<noteq> dev_hash c"
      "gw_description (gwconf c1) = build_name 0 0 0x80 type_GWY @ rest" "\<not> flg (g_reg_mapping_info c1)"
      "to_create_extensible_reg_mapping_v2 mem_ok c1 = (ERR_NONE, c2)"
    and abi: "abi_fits abi" "\<forall>b. enc (Data_int8 b) ! 0 = b"
    and req: "lock_ok e" "rx e = Some bs" "pkt_ok c2 bs" "8 \<le> length bs" "smode c2 \<noteq> SMODE_LISTEN_ONLY" "bs ! 0 \<noteq> 0" "bs ! 1 = 0x03" "tx_ok e (tx_cnt c2)"
      "mk16 (bs ! 2) (bs ! 3) = of_nat (0x80 * i)" "mk16 (bs ! 4) (bs ! 5) = 9"
  shows "\<exists>s'. sd_run q (map (\<lambda>(t, tid, ts). Sd_row (to_fill_dtunit_array_for_sensordata_writing_sit p t) tid ts True)
         [(SIT_DT_MTEMP, t1, ts1), (SIT_DT_ETEMP, t2, ts2), (SIT_DT_RSSI, t3, ts3), (SIT_DT_VCC, t4, ts4)]) s = Some s'
    \<and> (reads_sdata abi enc (shm_mem ie) (sd_places s') \<longrightarrow>
        (\<exists>c3 f. to_update_sdata_register abi ie c2 = (ERR_NONE, c3) \<and> wire (mloop_step e c3) = f # wire c2
          \<and> take 3 f = [bs ! 0, 0x03, 18] \<and> util_tool_cal_crc16 f = 0
          \<and> map (\<lambda>j. mk16 (f ! (3 + 2 * j)) (f ! (4 + 2 * j))) [0..<9] =
              (let bo = mbus_border c2; be = big_endian (create_env ie); ad = ad_data p in
               to_set_float bo (data_float be (enc (Data_float (m_tempval ad)))) @ to_set_float bo (data_float be (enc (Data_float (vcc_val ad))))
               @ [to_set_uint16 bo (scast (dp_rssi p)), to_set_uint16 bo (scast (sensor_tpval ad))]
               @ to_set_uint32 bo (ucast (sit_dtpacket.tstamp p)) @ [to_set_uint16 bo 0x1F])))"
proof -
  have inv: "chn_inv q" by (rule reachable_chn_inv [OF q(1)])
  have tk: "taken q i" "holder q i = n" using i(2) by (simp_all add: taken_def holder_def zero_chn_def)
  have n: "n \<noteq> 0" using taken_entry(2) [OF inv i(1) tk(1)] tk(2) by simp
  have ch: "sd_channel q n = Some (of_nat i)" using find_chn_holder [OF inv i(1) tk(1)] tk(2) inv by (simp add: sd_channel_def chn_inv_def)
  obtain k where k: "holds_devices q c2" "has_block c2 k i" "own_layout c2 n i k"
    using slave_ready [OF q(1) i q(2,3,5) slave] by blast
  have len: "length (sd_places s) = 40" using s(5) by (simp add: t_places_def)
  have row: "dev_rows q (int (unat (ad_nameId (ad_data p)))) \<noteq> None" using q(2,4) by simp
  obtain s' i' where s': "i' \<in> {1..40}" "chn_nameid_map q ! i' = \<lparr>cm_validflag = 1, cm_ch = of_nat i', cm_nameid = ad_nameId (ad_data p)\<rparr>"
    "sd_run q (map (\<lambda>(t, tid, ts). Sd_row (to_fill_dtunit_array_for_sensordata_writing_sit p t) tid ts True)
         [(SIT_DT_MTEMP, t1, ts1), (SIT_DT_ETEMP, t2, ts2), (SIT_DT_RSSI, t3, ts3), (SIT_DT_VCC, t4, ts4)]) s = Some s'"
    "sd_places s' = (sd_places s)[i' - 1 := (map (report_piece p) [SIT_DT_VCC, SIT_DT_MTEMP, SIT_DT_ETEMP, SIT_DT_RSSI]
         @ drop 4 (fst (sd_places s ! (i' - 1))), or (g_shm_data_bits s) 0x1F)]"
    using report_arrives [OF q(1) row s(1-3) len t, of ts1 t2 ts2 t3 ts3 t4] by blast
  have "i' = i" by (rule entry_unique [OF inv s'(1) i(1), of n]) (simp_all add: s'(2) i(2) q(4))
  note pl = s'(4) [unfolded this]
  have i1: "i - 1 < 40" using i(1) by auto
  have lp: "length (fst (sd_places s ! (i - 1))) = 27" "\<And>k. k < 27 \<Longrightarrow> \<not> k < 4 \<Longrightarrow> fst (sd_places s ! (i - 1)) ! k = zero_piece"
    using s(5) i1 unfolding t_places_def by blast+
  then have "drop 4 (fst (sd_places s ! (i - 1))) = replicate 23 zero_piece" by (intro nth_equalityI) simp_all
  then have own: "sd_places s' ! (i - 1) = (map (report_piece p) [SIT_DT_VCC, SIT_DT_MTEMP, SIT_DT_ETEMP, SIT_DT_RSSI] @ replicate 23 zero_piece, 0x1F)"
    unfolding pl using i1 len s(4) by (simp only: nth_list_update_eq) simp
  have other: "drop_bit 32 (snd (sd_places s' ! l)) = 0 \<and> (\<forall>k < 27. pc_nameId (fst (sd_places s' ! l) ! k) \<noteq> n)" if "l < 40" "l \<noteq> i - 1" for l
    using places_of_others [OF s(5) ch i(1) n that] that(2) unfolding pl by simp
  show ?thesis
  proof (intro exI [of _ s'] conjI impI)
    show "sd_run q (map (\<lambda>(t, tid, ts). Sd_row (to_fill_dtunit_array_for_sensordata_writing_sit p t) tid ts True)
         [(SIT_DT_MTEMP, t1, ts1), (SIT_DT_ETEMP, t2, ts2), (SIT_DT_RSSI, t3, ts3), (SIT_DT_VCC, t4, ts4)]) s = Some s'" by (rule s'(3))
    assume rd: "reads_sdata abi enc (shm_mem ie) (sd_places s')"
    obtain m where m: "to_update_sdata_register abi ie c2 = (ERR_NONE, c2\<lparr>mapping_queue := m\<rparr>)" "regs_only (mapping_queue c2) m"
      "take 9 (tab_registers (m ! k)) = to_set_float (mbus_border c2) (data_float (big_endian (create_env ie)) (enc (sit_value p SIT_DT_MTEMP)))
        @ to_set_float (mbus_border c2) (data_float (big_endian (create_env ie)) (enc (sit_value p SIT_DT_VCC)))
        @ [to_set_uint16 (mbus_border c2) (data_int8 (enc (sit_value p SIT_DT_RSSI))), to_set_uint16 (mbus_border c2) (data_int8 (enc (sit_value p SIT_DT_ETEMP)))]
        @ to_set_uint32 (mbus_border c2) (ucast (sit_dtpacket.tstamp p)) @ [to_set_uint16 (mbus_border c2) (ucast ((0x1F :: 64 word) AND 0xFF))]"
      using update_writes_place [OF inv k(1) i(1) tk(2) n q(4) k(2,3) abi(1) rd own _ other] by auto
    let ?c3 = "c2\<lparr>mapping_queue := m\<rparr>" and ?a = "of_nat (0x80 * i) :: u16"
    have a: "unat ?a = 0x80 * i" by (rule unat_address) (use i(1) in simp)
    have b: "has_block ?c3 k i" by (rule has_block_regs [OF k(2) m(2)])
    then have b3: "start_registers (m ! k) = 0x80 * i" "nb_registers (m ! k) = 0x80" "mapping_wf (m ! k)" by (simp_all add: has_block_def)
    have "app_mslave_locate_mapping c2 ?a ADDR_GP_HOLDING_REGISTER = Some k" using k(3) by (simp add: own_layout_def)
    then have loc: "app_mslave_locate_mapping ?c3 ?a ADDR_GP_HOLDING_REGISTER = Some k" using locate_regs_only [OF m(2)] by blast
    have pk: "pkt_ok ?c3 bs" using req(3) by (simp add: pkt_ok_def addressed_def)
    have "\<exists>f. wire (mloop_step e ?c3) = f # wire ?c3 \<and> length f = 5 + 2 * 9
      \<and> take 3 f = [bs ! 0, 0x03, of_nat (2 * 9)] \<and> util_tool_cal_crc16 f = 0
      \<and> (\<forall>j < 9. mk16 (f ! (3 + 2 * j)) (f ! (4 + 2 * j)) = tab_registers (m ! k) ! (unat ?a - start_registers (m ! k) + j))"
      by (rule turn_reads_registers [OF req(1,2) pk req(4) _ req(6,7) _ req(9) [symmetric] _ _ _ _ loc])
         (use req(5,8,10) a b3 i(1) in simp_all)
    then obtain f where f: "wire (mloop_step e ?c3) = f # wire c2" "take 3 f = [bs ! 0, 0x03, 18]" "util_tool_cal_crc16 f = 0"
      "\<forall>j < 9. mk16 (f ! (3 + 2 * j)) (f ! (4 + 2 * j)) = tab_registers (m ! k) ! j"
      using a b3(1) by auto
    have "map (\<lambda>j. mk16 (f ! (3 + 2 * j)) (f ! (4 + 2 * j))) [0..<9] = map (\<lambda>j. tab_registers (m ! k) ! j) [0..<9]"
      using f(4) by (intro map_cong) (simp_all del: upt_Suc)
    also have "\<dots> = take 9 (tab_registers (m ! k))" using b3(2,3) by (intro nth_equalityI) (simp_all add: mapping_wf_def)
    finally show "\<exists>c3 f. to_update_sdata_register abi ie c2 = (ERR_NONE, c3) \<and> wire (mloop_step e c3) = f # wire c2
          \<and> take 3 f = [bs ! 0, 0x03, 18] \<and> util_tool_cal_crc16 f = 0
          \<and> map (\<lambda>j. mk16 (f ! (3 + 2 * j)) (f ! (4 + 2 * j))) [0..<9] =
              (let bo = mbus_border c2; be = big_endian (create_env ie); ad = ad_data p in
               to_set_float bo (data_float be (enc (Data_float (m_tempval ad)))) @ to_set_float bo (data_float be (enc (Data_float (vcc_val ad))))
               @ [to_set_uint16 bo (scast (dp_rssi p)), to_set_uint16 bo (scast (sensor_tpval ad))]
               @ to_set_uint32 bo (ucast (sit_dtpacket.tstamp p)) @ [to_set_uint16 bo 0x1F])"
      using m(1) f(1-3) unfolding m(3) by (intro exI [of _ ?c3] exI [of _ f]) (simp add: sit_value_def data_int8_def abi(2) Let_def)
  qed
qed

section \<open>A report on a concrete gateway\<close>

text \<open>
  The run with one device.  Every table entry of the shared memory begins with its number, by which the reader of the bytes finds what the
  database process has written; integers are one byte, other values zero.
\<close>

definition report_packet :: sit_dtpacket where
  "report_packet = sample_dtpacket\<lparr>ad_data := zero_ad_packet\<lparr>ad_nameId := 1\<rparr>\<rparr>"

definition report_shm :: bytes where
  "report_shm = map (\<lambda>a. if a mod 0x400 = 0 then of_nat (a div 0x400 div 256) else if a mod 0x400 = 1 then of_nat (a div 0x400 mod 256) else 0)
     [0..<1162 * 0x400]"

definition entry_number :: "bytes \<Rightarrow> nat" where
  "entry_number b = unat (b ! 0) * 256 + unat (b ! 1)"

definition report_enc :: "gw_value \<Rightarrow> bytes" where
  "report_enc v = (case v of Data_int8 b \<Rightarrow> [b] | _ \<Rightarrow> [0, 0, 0, 0])"

definition report_abi :: "(sd_piece list \<times> u64) list \<Rightarrow> shm_abi" where
  "report_abi places = sample_abi\<lparr>dev_item := (\<lambda>b. slave_view (dev_cells (fill 1) ! (entry_number b - 2))),
     sdata_item := (\<lambda>b. let x = entry_number b - 42; (pieces, bits) = places ! (x div 28) in
       if x mod 28 < 27 then piece_view report_enc (pieces ! (x mod 28)) else (piece_view report_enc zero_piece)\<lparr>sd_nameId := ucast (drop_bit 32 bits)\<rparr>),
     u64_item := (\<lambda>b. snd (places ! ((entry_number b - 42) div 28)))\<rparr>"

definition report_ctr :: ctr where
  "report_ctr = sample_slave\<lparr>gwconf := sample_gw, dev_hash := util_tool_cal_elfhash (Some
     (shm_slice report_shm APP_SHM_DEV_TABLE_ADDR_OFFSET (APP_SHM_DEV_TABLE_ITEM_SIZE * APP_SHM_DEV_TABLE_ITEM_MAX))) + 1\<rparr>"

lemma shm_byte:
  "a < 1162 * 0x400 \<Longrightarrow> report_shm ! a = (if a mod 0x400 = 0 then of_nat (a div 0x400 div 256) else if a mod 0x400 = 1 then of_nat (a div 0x400 mod 256) else 0)"
  by (simp add: report_shm_def)

lemma entry_at:
  assumes "k < 1162" "2 \<le> n"
  shows "entry_number (shm_slice report_shm (k * 0x400) n) = k"
proof -
  have "k * 0x400 + 1 < 1162 * 0x400" using assms(1) by linarith
  moreover have "(k * 0x400 + 1) mod 0x400 = 1 mod 0x400" by (rule mod_mult_self3)
  moreover have "(k * 0x400 + 1) div 0x400 = k + 1 div 0x400" by (rule div_mult_self3) simp
  ultimately have one: "k * 0x400 + 1 < 1162 * 0x400" "(k * 0x400 + 1) mod 0x400 = 1" "(k * 0x400 + 1) div 0x400 = k" by simp_all
  have "length report_shm = 1162 * 0x400" by (simp add: report_shm_def)
  then have s: "shm_slice report_shm (k * 0x400) n ! j = report_shm ! (k * 0x400 + j)" if "j < 2" for j
    using that assms by (simp add: shm_slice_def)
  have "report_shm ! (k * 0x400) = of_nat (k div 256)" using shm_byte [of "k * 0x400"] assms(1) by simp
  moreover have "report_shm ! (k * 0x400 + 1) = of_nat (k mod 256)" unfolding shm_byte [OF one(1)] one(2,3) by simp
  ultimately have "shm_slice report_shm (k * 0x400) n ! 0 = of_nat (k div 256)" "shm_slice report_shm (k * 0x400) n ! 1 = of_nat (k mod 256)"
    using s [of 0] s [of 1] by simp_all
  then show ?thesis using assms(1) by (simp add: entry_number_def unat_of_nat)
qed

lemma report_devices: "reads_places (report_abi P) report_shm (fill 1)"
proof -
  have n: "APP_SHM_DEV_TABLE_ITEM_SIZE mod SZ_IPC_BUF = 0x400" by (simp add: shm_sizes)
  have "APP_SHM_DEV_TABLE_ADDR_OFFSET + i * APP_SHM_DEV_TABLE_ITEM_SIZE = (i + 2) * 0x400" for i by (simp add: shm_sizes)
  then have "entry_number (shm_slice report_shm (APP_SHM_DEV_TABLE_ADDR_OFFSET + i * APP_SHM_DEV_TABLE_ITEM_SIZE)
      (APP_SHM_DEV_TABLE_ITEM_SIZE mod SZ_IPC_BUF)) = i + 2" if "i < 40" for i
    unfolding n using entry_at [of "i + 2" "0x400"] that by (simp only:)
  then show ?thesis by (simp add: reads_places_def report_abi_def)
qed

lemma report_fits: "abi_fits (report_abi P)" "sizeof_item (report_abi P) < 0x400"
  by (simp_all add: abi_fits_def report_abi_def sample_abi_def shm_sizes)

lemma report_places: "reads_sdata (report_abi P) report_enc report_shm P"
proof -
  have "entry_number (shm_slice report_shm ((APP_SHM_SENSORDATA_TABLE_ADDR_OFFSET + x * APP_SHM_SENSORDATA_TABLE_PIECE_SIZE) mod APP_SHM_TOTAL_SIZE) m) = x + 42"
    if "x < 1120" "2 \<le> m" for x m
  proof -
    have "(APP_SHM_SENSORDATA_TABLE_ADDR_OFFSET + x * APP_SHM_SENSORDATA_TABLE_PIECE_SIZE) mod APP_SHM_TOTAL_SIZE = (x + 42) * 0x400"
      using that(1) by (simp add: shm_sizes APP_SHM_SENSORDATA_TABLE_ADDR_OFFSET_def APP_SHM_TOTAL_SIZE_def APP_SHM_SENSORDATA_TABLE_ITEM_SIZE_def
        APP_SHM_SENSORDATA_TABLE_ITEM_MAX_def APP_SHM_SENSORDATA_TABLE_PIECE_MAX_def)
    then show ?thesis using entry_at [of "x + 42" m] that by simp
  qed
  note e = this
  have p: "entry_number (piece_slice (report_abi P) report_shm (c * 28 + k)) = c * 28 + k + 42" if "c < 40" "k < 28" for c k
    unfolding piece_slice_def by (rule e) (use that in \<open>simp_all add: report_abi_def sample_abi_def\<close>)
  have "entry_number (shm_slice report_shm ((APP_SHM_SENSORDATA_TABLE_ADDR_OFFSET + (c * 28 + 27) * APP_SHM_SENSORDATA_TABLE_PIECE_SIZE)
      mod APP_SHM_TOTAL_SIZE) 8) = c * 28 + 27 + 42" if "c < 40" for c
    by (rule e) (use that in simp_all)
  then have b: "place_bits (report_abi P) report_shm c = snd (P ! c)" if "c < 40" for c
    using that by (simp add: place_bits_def APP_SHM_SENSORDATA_TABLE_PIECE_MAX_def report_abi_def)
  have i: "sdata_item (report_abi P) = (\<lambda>b. let x = entry_number b - 42; (pieces, bits) = P ! (x div 28) in
       if x mod 28 < 27 then piece_view report_enc (pieces ! (x mod 28)) else (piece_view report_enc zero_piece)\<lparr>sd_nameId := ucast (drop_bit 32 bits)\<rparr>)"
    by (simp add: report_abi_def)
  show ?thesis unfolding reads_sdata_def i APP_SHM_SENSORDATA_TABLE_PIECE_MAX_def
    using p b by (simp add: case_prod_beta)
qed

lemma channel_address: "i \<in> {1..40} \<Longrightarrow> mk16 (of_nat (i div 2)) (of_nat (i mod 2 * 128)) = of_nat (0x80 * i)"
proof -
  have "list_all (\<lambda>i. mk16 (of_nat (i div 2)) (of_nat (i mod 2 * 128)) = of_nat (0x80 * i)) [1..<41]" by code_simp
  then show "i \<in> {1..40} \<Longrightarrow> ?thesis" by (simp only: list_all_iff) auto
qed

lemma unnamed_devices: "\<forall>cell \<in> set (dev_cells (fill 1)). di_nameid (snd cell) = n \<longrightarrow> util_tool_hex_char_to_uint8 (char_array (di_name (snd cell)) ! 14) = 0"
proof -
  have "list_all (\<lambda>cell. util_tool_hex_char_to_uint8 (char_array (di_name (snd cell)) ! 14) = 0) (dev_cells (fill 1))" by code_simp
  then show ?thesis by (simp only: list_all_iff) blast
qed

lemma report_slave:
  obtains c1 c2 where "to_load_devlist_from_shmem (report_abi P) report_shm report_ctr = (ERR_NONE, c1)" "dev_hash c1 \<noteq> dev_hash report_ctr"
    "gwconf c1 = sample_gw" "\<not> flg (g_reg_mapping_info c1)" "to_create_extensible_reg_mapping_v2 (\<lambda>_. True) c1 = (ERR_NONE, c2)"
    "mctx c2 = mctx sample_slave" "smode c2 = SMODE_ACTIVE" "wire c2 = []" "mbus_border c2 = MBUS_BORDER_CDAB"
proof -
  have r: "gwconf report_ctr = sample_gw" "\<not> flg (g_reg_mapping_info report_ctr)" "mctx report_ctr = mctx sample_slave" "smode report_ctr = SMODE_ACTIVE"
    "wire report_ctr = []" "mbus_border report_ctr = MBUS_BORDER_CDAB"
    by (simp_all add: report_ctr_def sample_slave_def init_ctr_def g_mslave_ctr_def zero_remap_def)
  obtain c1 where c1: "to_load_devlist_from_shmem (report_abi P) report_shm report_ctr = (ERR_NONE, c1)" "dev_hash c1 \<noteq> dev_hash report_ctr"
    "gwconf c1 = gwconf report_ctr" "g_reg_mapping_info c1 = g_reg_mapping_info report_ctr"
    by (rule load_devlist_changed [OF report_fits(2), of report_ctr report_shm]) (simp_all add: report_ctr_def)
  have g: "gwconf c1 = sample_gw" "\<not> flg (g_reg_mapping_info c1)" using c1(3,4) r by simp_all
  obtain c2 where c2: "to_create_extensible_reg_mapping_v2 (\<lambda>_. True) c1 = (ERR_NONE, c2)" using created_with_memory [OF g] by blast
  obtain g' where "create_sensor_mappings (\<lambda>_. True) 1 (take 40 (dev_array c1)) (c1\<lparr>mapping_queue := [g']\<rparr>) = (ERR_NONE, c2)"
    using created_queue [OF c2 g(2)] by blast
  then obtain q where q: "c2 = c1\<lparr>mapping_queue := q\<rparr>" using create_sensor_mappings_appends by fastforce
  obtain ds h where "c1 = report_ctr\<lparr>dev_array := ds, dev_hash := h\<rparr>" using load_devlist_frame [OF c1(1)] by blast
  then show thesis using that [OF c1(1,2) g c2] q r by simp
qed

theorem report_read_by_master_witness:
  "\<exists>i s' c1 c2 c3 f. chn_nameid_map (fill 1) ! i = \<lparr>cm_validflag = 1, cm_ch = of_nat i, cm_nameid = 1\<rparr>
    \<and> sd_run (fill 1) (map (\<lambda>(t, tid, ts). Sd_row (to_fill_dtunit_array_for_sensordata_writing_sit report_packet t) tid ts True)
         [(SIT_DT_MTEMP, Some 5, []), (SIT_DT_ETEMP, None, []), (SIT_DT_RSSI, None, []), (SIT_DT_VCC, None, [True])]) sd_initial = Some s'
    \<and> to_load_devlist_from_shmem (report_abi (sd_places s')) report_shm report_ctr = (ERR_NONE, c1)
    \<and> to_create_extensible_reg_mapping_v2 (\<lambda>_. True) c1 = (ERR_NONE, c2)
    \<and> to_update_sdata_register (report_abi (sd_places s')) (sample_ipc report_shm) c2 = (ERR_NONE, c3)
    \<and> wire (mloop_step (sample_env [1, 3, of_nat (i div 2), of_nat (i mod 2 * 128), 0, 9]) c3) = [f]
    \<and> map (\<lambda>j. mk16 (f ! (3 + 2 * j)) (f ! (4 + 2 * j))) [4..<9] = [0xFFC8, 0, 1000, 0, 0x1F]"
proof -
  have f: "sql_reachable (fill 1)" using fill_steps [of 1] by simp
  have n: "ad_nameId (ad_data report_packet) = 1" by (simp add: report_packet_def)
  obtain r where r: "dev_rows (fill 1) (int (unat (1 :: u32))) = Some r" "take 68 (r 6) \<noteq> TYPE_STR_INSIGHT_PP"
    using sample_first type_T_chars(3) type_strings by auto
  have row: "dev_rows (fill 1) (int (unat (ad_nameId (ad_data report_packet)))) \<noteq> None" using r(1) unfolding n by simp
  have s: "sd_status sd_initial" "g_sensor_data_piece_cnt sd_initial = 0" "length (g_shm_data_buf sd_initial) = 27" "length (sd_places sd_initial) = 40"
    "g_shm_data_bits sd_initial = 0" "t_places (fill 1) (sd_places sd_initial)" by (simp_all add: sd_initial_def t_places_def)
  let ?rows = "map (\<lambda>(t, tid, ts). Sd_row (to_fill_dtunit_array_for_sensordata_writing_sit report_packet t) tid ts True)
         [(SIT_DT_MTEMP, Some 5, []), (SIT_DT_ETEMP, None, []), (SIT_DT_RSSI, None, []), (SIT_DT_VCC, None, [True])]"
  have t: "Some (5 :: nat) \<noteq> None" "first_try [True]" by (simp_all add: first_try_def)
  obtain s' i where i: "i \<in> {1..40}" "chn_nameid_map (fill 1) ! i = \<lparr>cm_validflag = 1, cm_ch = of_nat i, cm_nameid = 1\<rparr>"
    and run: "sd_run (fill 1) ?rows sd_initial = Some s'"
    using report_arrives [OF f row s(1-4) t] unfolding n by blast
  obtain c1 c2 where c: "to_load_devlist_from_shmem (report_abi (sd_places s')) report_shm report_ctr = (ERR_NONE, c1)" "dev_hash c1 \<noteq> dev_hash report_ctr"
    "gwconf c1 = sample_gw" "\<not> flg (g_reg_mapping_info c1)" "to_create_extensible_reg_mapping_v2 (\<lambda>_. True) c1 = (ERR_NONE, c2)"
    "mctx c2 = mctx sample_slave" "smode c2 = SMODE_ACTIVE" "wire c2 = []" "mbus_border c2 = MBUS_BORDER_CDAB"
    by (rule report_slave)
  have gw: "gw_description (gwconf c1) = build_name 0 0 0x80 type_GWY @ [0]" by (simp add: c(3) sample_gw_def)
  let ?q = "[1, 3, of_nat (i div 2), of_nat (i mod 2 * 128), 0, 9] :: bytes"
  let ?bs = "modbus_rtu_send_msg_pre ?q"
  have q: "?bs ! 0 = 1" "?bs ! 1 = 3" "mk16 (?bs ! 2) (?bs ! 3) = of_nat (0x80 * i)" "mk16 (?bs ! 4) (?bs ! 5) = 9" "8 \<le> length ?bs"
    using channel_address [OF i(1)] by (simp_all add: modbus_rtu_send_msg_pre_def mk16_def)
  have p: "pkt_ok c2 ?bs" by (rule sample_pkt_ok) (simp_all add: is_fun_code_for_reading_def c(6))
  have len: "length (dev_array report_ctr) = 40" by (simp add: report_ctr_def sample_slave_def)
  have enc: "\<forall>b. report_enc (Data_int8 b) ! 0 = b" by (simp add: report_enc_def)
  have e: "lock_ok (sample_env ?q)" "rx (sample_env ?q) = Some ?bs" "tx_ok (sample_env ?q) (tx_cnt c2)" by simp_all
  have mode: "smode c2 \<noteq> SMODE_LISTEN_ONLY" "?bs ! 0 \<noteq> 0" using c(7) q(1) by simp_all
  obtain c3 f where w: "to_update_sdata_register (report_abi (sd_places s')) (sample_ipc report_shm) c2 = (ERR_NONE, c3)"
    "wire (mloop_step (sample_env ?q) c3) = f # wire c2"
    "map (\<lambda>j. mk16 (f ! (3 + 2 * j)) (f ! (4 + 2 * j))) [0..<9] =
       (let bo = mbus_border c2; be = big_endian (create_env (sample_ipc report_shm)); ad = ad_data report_packet in
        to_set_float bo (data_float be (report_enc (Data_float (m_tempval ad)))) @ to_set_float bo (data_float be (report_enc (Data_float (vcc_val ad))))
        @ [to_set_uint16 bo (scast (dp_rssi report_packet)), to_set_uint16 bo (scast (sensor_tpval ad))]
        @ to_set_uint32 bo (ucast (sit_dtpacket.tstamp report_packet)) @ [to_set_uint16 bo 0x1F])"
    using report_read_by_master [OF f r n [symmetric] unnamed_devices i s(1-3,5,6) t report_devices len c(1,2) gw c(4,5) report_fits(1) enc e(1,2) p q(5)
      mode(1,2) q(2) e(3) q(3,4), of "[]" None "[]" None "[]" None "sample_ipc report_shm"] run report_places by auto
  obtain a b where ab: "to_set_float MBUS_BORDER_CDAB (data_float False (report_enc (Data_float (m_tempval (ad_data report_packet))))) = [a, b]" by (rule float_two)
  obtain x y where xy: "to_set_float MBUS_BORDER_CDAB (data_float False (report_enc (Data_float (vcc_val (ad_data report_packet))))) = [x, y]" by (rule float_two)
  have be: "\<not> big_endian (create_env (sample_ipc report_shm))" by (simp add: sample_ipc_def)
  have v: "dp_rssi report_packet = 0xC8" "sensor_tpval (ad_data report_packet) = 0" "sit_dtpacket.tstamp report_packet = 1000"
    by (simp_all add: report_packet_def sample_dtpacket_def zero_ad_packet_def)
  have k: "to_set_uint16 MBUS_BORDER_CDAB (scast (0xC8 :: u8)) = 0xFFC8" "to_set_uint16 MBUS_BORDER_CDAB (scast (0 :: u8)) = 0"
    "to_set_uint32 MBUS_BORDER_CDAB (ucast (1000 :: u64)) = [1000, 0]" "to_set_uint16 MBUS_BORDER_CDAB 0x1F = 0x1F" by code_simp+
  have "map (\<lambda>j. mk16 (f ! (3 + 2 * j)) (f ! (4 + 2 * j))) [0..<9] = [a, b, x, y, 0xFFC8, 0, 1000, 0, 0x1F]"
    using w(3) be k by (simp add: Let_def ab xy v c(9) del: upt_Suc upt_rec_numeral)
  then have "drop 4 (map (\<lambda>j. mk16 (f ! (3 + 2 * j)) (f ! (4 + 2 * j))) [0..<9]) = [0xFFC8, 0, 1000, 0, 0x1F]" by simp
  then have regs: "map (\<lambda>j. mk16 (f ! (3 + 2 * j)) (f ! (4 + 2 * j))) [4..<9] = [0xFFC8, 0, 1000, 0, 0x1F]" by (simp only: drop_map drop_upt) simp
  show ?thesis by (intro exI conjI, rule i(2), rule run, rule c(1), rule c(5), rule w(1), rule w(2) [unfolded c(8)], rule regs)
qed

end
