(* ===== verification/Spec2Isabelle.thy ===== *)
theory Spec2Isabelle
  imports Wave_Snap Waiting_Queue Froto_Reply Db_Op Dev_List Magic_File Mslave_Serve Mslave_Ipc Sql_Process Sql_Serve Sql_Limits Sql_Cases Sql_Report
begin

text \<open>
  The SKF gateway collects measurements of vibration and temperature sensors over Bluetooth and puts them
  into a shared memory.  This development models seven parts of it: the Modbus RTU slave,
  \<^verbatim>\<open>src/modbus_rtu/modbus_slave\<close> with the part of libmodbus it calls, which makes the measurements readable for
  a Modbus master on a serial line; the compression of waveforms, \<^verbatim>\<open>src/DWT_Huffman\<close>; the queues through which
  the threads of the gateway talk, \<^verbatim>\<open>src/bluez-5.66/ell/queue.c\<close> and
  \<^verbatim>\<open>src/skf_gw/source/src/app_waiting_queue.c\<close>; the expected replies of the Froto protocol between gateway and
  sensors, \<^verbatim>\<open>src/skf_gw/source/src/general/froto/app_froto_new.c\<close>; the advertisements of Insight-T temperature sensors,
  \<^verbatim>\<open>src/skf_gw/source/src/ble/app_hci_evt_mgmt_new.c\<close>; the requests to the database process,
  \<^verbatim>\<open>src/skf_gw/source/src/general/app_db.c\<close>, with the device list that is read through them; and what the database process,
  \<^verbatim>\<open>src/skf_gw_mqtt/sqlite/main.c\<close>, does with devices and their data: channels, rows and places in the shared memory.

  \<^bold>\<open>The slave.\<close>  \<^verbatim>\<open>main\<close> loads the remapping table, initialises the controller \<^verbatim>\<open>g_mslave_ctr\<close>, waits for
  a valid configuration in the shared memory, opens the port, creates the register table and starts two
  threads.  The main loop receives a frame, validates it and calls the handler of its function code, which
  replies through libmodbus or through its own sender.  The service thread compares hashes of the shared
  memory with the last ones and, when they differ, reopens the port, creates the register table again and
  writes the sensor data into it.  Both work on the one controller.

  \<^bold>\<open>The gateway.\<close>  A waveform of 16-bit samples is transformed by five levels of the Haar transform, quantised
  and written with a static Huffman code, in chunks of 100 symbols through a buffer of 1024 bytes; the receiver
  undoes these steps.  Messages between threads pass through a waiting queue: a linked queue, a semaphore
  that counts its entries and a mutex.  A thread that sends a Froto request registers the reply it expects in a
  linked queue, waits on a condition variable and unregisters; the receiving thread gives each message to the first
  registration that matches it.

  \<^bold>\<open>Sensors and database.\<close>  The Bluetooth monitor writes the advertisements it receives with a checksum to a pipe.  A thread
  reads them, drops those with a wrong checksum or a sender that is not in the white list, decodes the others and
  keeps the latest packet of each sensor; when a sensor has been silent for two seconds, its packet is sent to the database process as four rows.
  The white list comes from the device table: the gateway asks the database process for the numbers of the devices and then for each
  row.  Such a request blocks: its thread puts an object into a queue, sends the command and waits until the thread that receives
  the responses finds the object by the number of the command.

  \<^bold>\<open>Devices and channels.\<close>  The database process gives every device a channel and a block of registers, writes both as a string into the
  description column of the device table, and copies the device into the place of its channel in the shared memory.  In extensible mode the
  blocks of all channels have 128 registers, in efficient mode as many as the sensor type needs.  After a restart the process
  reads the channels back from the descriptions.  The service thread of the slave reads the places and creates the register table from the strings.
  The rows of sensor data are collected until a set is complete, 4 rows of an Insight-T sensor in one common buffer or 25 rows of a Predict sensor in
  one of eight instances, or until a timer expires; then the set and a bitmap of its pieces are copied into the place of the sensor's channel.

  \<^bold>\<open>The theories.\<close>
  \<^item> \<^verbatim>\<open>Prelude\<close>: types, words of 8 and 16 bits, lemmas on lists and options.
  \<^item> \<^verbatim>\<open>Mbus_Util\<close> (\<^verbatim>\<open>util_tool.c\<close>): the table-driven checksum, hexadecimal digits, the ELF hash.  The
    checksum equals the bit-serial CRC-16 of Modbus, a frame followed by its checksum has residue 0, and a
    change of one byte is detected.
  \<^item> \<^verbatim>\<open>Mslave_State\<close> (\<^verbatim>\<open>app_mslave.h\<close>, first part of \<^verbatim>\<open>app_mslave.c\<close>): the controller as a record, the ten
    saturating counters (one locale, interpreted for each of them), the ring buffer of the event log.
  \<^item> \<^verbatim>\<open>Libmodbus\<close> (\<^verbatim>\<open>modbus.c\<close>, \<^verbatim>\<open>modbus-rtu.c\<close>, \<^verbatim>\<open>app_modbus_common.c\<close>): mappings, the read replies,
    exceptions, framing and sending.
  \<^item> \<^verbatim>\<open>Magic_File\<close> (\<^verbatim>\<open>parse_magicfileitem\<close>, \<^verbatim>\<open>app_mslave_load_reg_mapping_info\<close>): the remapping table from a
    parsed JSON document.
  \<^item> \<^verbatim>\<open>Mslave_Mapping\<close>: the queue of register blocks, its lookup, its creation from the layout strings of
    the devices, the copy into the remapping block.
  \<^item> \<^verbatim>\<open>Mbus_Order\<close> and \<^verbatim>\<open>Mslave_Regs\<close> (\<^verbatim>\<open>app_mslave_ipc.c\<close>, \<^verbatim>\<open>app_mslave_ipc.h\<close>): the four byte orders, the
    register layout of the three products and the writers of measured values.  The locale of a register
    writer states which registers a writer may touch; the five writers are its interpretations.
  \<^item> \<^verbatim>\<open>Mslave_File\<close>: the buffers behind ''Read File Record'' and its handler.
  \<^item> \<^verbatim>\<open>Mslave_Handlers\<close>: validation, the handlers of all function codes, one turn of the main loop and the
    reachable states.  The locale of a request handler states what the loop relies on: at most one reply,
    to this request, with a good frame, and nothing of the configuration changed; all handlers are its
    interpretations.
  \<^item> \<^verbatim>\<open>Mslave_Ipc\<close>: the service thread: reading the shared memory, the port, the update, the two waiting
    loops.  \<^verbatim>\<open>Mslave_Serve\<close>: what a block written by the service thread means for the requests of a master.
  \<^item> \<^verbatim>\<open>Wave_Huffman\<close> (\<^verbatim>\<open>huffman.c\<close>, \<^verbatim>\<open>huffman.h\<close>, \<^verbatim>\<open>huffman_table.h\<close>): the bit stream, the encoder and its check mode, the
    decoding tree and the decoder.  The encoder appends the code words of its symbols, the decoder returns the
    symbols that were encoded, also when it is called in pieces.
  \<^item> \<^verbatim>\<open>Wave_Dwt\<close> (\<^verbatim>\<open>dwt.c\<close>): the Haar transform in place and its inverse, the quantisation.  The transform refines
    the textbook pyramid on lists; forward, quantise and back changes a sample by a bounded amount.
  \<^item> \<^verbatim>\<open>Wave_Snap\<close> (\<^verbatim>\<open>main.c\<close>): the chunked compression and decompression, with the byte carried over between chunks.
  \<^item> \<^verbatim>\<open>Ell_Queue\<close> (\<^verbatim>\<open>ell/queue.c\<close>): all operations on an explicit store of entries; each refines the operation on
    lists.  The locale of a queue states what its clients rely on and is interpreted on the store operations.
  \<^item> \<^verbatim>\<open>Waiting_Queue\<close> (\<^verbatim>\<open>app_waiting_queue.c\<close>): posting and taking of messages as a step relation of several threads, with
    waits that a signal interrupts.
  \<^item> \<^verbatim>\<open>Froto_Reply\<close> (\<^verbatim>\<open>app_froto_new.c\<close>): registering, matching, collecting blocks and acknowledgements, waking and
    unregistering; sending with and without a reply.
  \<^item> \<^verbatim>\<open>Crc_Serial\<close> and \<^verbatim>\<open>Froto_Crc\<close> (\<^verbatim>\<open>util_froto.c\<close>, \<^verbatim>\<open>app_froto_common.c\<close>): cyclic redundancy checks bit by bit, with one locale for
    all polynomials, interpreted for the CRC-16 of \<^verbatim>\<open>Mbus_Util\<close> and the CRC-32 of the gateway; both copies of the table-driven CRC-32 equal it.
  \<^item> \<^verbatim>\<open>Float32\<close>: rounding to single precision, on rationals.
  \<^item> \<^verbatim>\<open>Hci_Adv\<close> and \<^verbatim>\<open>Hci_Save\<close> (\<^verbatim>\<open>app_hci_evt_mgmt_new.c\<close>, rows and sending from \<^verbatim>\<open>app_db.c\<close>): the pipe, the filter, the decoder of
    advertising data; the two queues, the rows and a turn of the thread, with the reachable states.
  \<^item> \<^verbatim>\<open>Db_Op\<close> (\<^verbatim>\<open>app_db.c\<close>): the blocking request as steps of several threads, the receiver and the database process.
  \<^item> \<^verbatim>\<open>Dev_List\<close> (\<^verbatim>\<open>app_db.c\<close>, \<^verbatim>\<open>util_froto.c\<close>, \<^verbatim>\<open>app_pro_general_new.c\<close>): rows of the device table, addresses as strings, the white lists.
  \<^item> \<^verbatim>\<open>Sql_Shm\<close> (\<^verbatim>\<open>sqlite/main.c\<close>, \<^verbatim>\<open>sqlite/misc.c\<close>, \<^verbatim>\<open>middleware/sqlite3\<close>, \<^verbatim>\<open>sh_mem.h\<close>): the two channel tables, the device table, the
    places of the shared memory; update, insertion, deletion, the place of the gateway, the start.
  \<^item> \<^verbatim>\<open>Sql_Channels\<close>: the state that every sequence of these operations keeps in extensible mode, the effect of each operation, a run that
    fills the table.  \<^verbatim>\<open>Sql_Process\<close>: runs in which commands on the database fail, and one channel for every device.
    \<^verbatim>\<open>Sql_Serve\<close>: restarts, and the registers at which the slave serves the devices.
    \<^verbatim>\<open>Sql_Limits\<close>: the 41st device, the places of the efficient mode.
  \<^item> \<^verbatim>\<open>Sql_Sdata\<close> (\<^verbatim>\<open>sqlite/main.c\<close>, \<^verbatim>\<open>sh_mem.h\<close>): the collection of sensor data, with rows, timers and other commands as steps,
    and with handlers of timers that run in the middle of a row.
    \<^verbatim>\<open>Sql_Collect\<close>: a report of an Insight-T sensor.  \<^verbatim>\<open>Sql_Place\<close>: the invariants of the collection.  \<^verbatim>\<open>Sql_Predict\<close>: a set of a Predict
    sensor.  \<^verbatim>\<open>Sql_Cases\<close>: when every piece is at its place, and the sequences in which the collection fails.
  \<^item> \<^verbatim>\<open>Sql_Report\<close>: a report of an Insight-T sensor from its rows to the registers that a master reads.
  \<^item> This theory: the start-up, the interleaving of the two threads, and the properties of the whole slave.

  \<^bold>\<open>State, effects and bounds.\<close>  Operations take and return the controller.  Frames handed to the port are
  collected in the field \<^verbatim>\<open>wire\<close>.  What the environment decides is an argument: whether a lock is free, an
  allocation or a write succeeds, what arrives on the line, the bytes of the shared memory, the content of a
  file, the time.  Machine integers are words where they can wrap, C \<^verbatim>\<open>int\<close>s that are never negative are
  natural numbers.  The byte layout of C structures in the shared memory (\<^verbatim>\<open>shm_abi\<close>) and the JSON parser are
  parameters.  A turn of a thread is one step; the locks of the source make the parts that touch the port and
  the register table exclusive.  Every function of the slave is total.  Its only unbounded loop before the threads start,
  the wait for a configuration, consumes a list of snapshots of the shared memory, so that a result \<^verbatim>\<open>None\<close>
  means it is still waiting; it ends at the first snapshot with a new valid configuration.
  The arrays of \<^verbatim>\<open>float\<close> of the compression hold whole numbers and are lists of integers.  The decoder's walk over
  the bit stream has fuel of one more than the bits of the buffer, and each of its steps consumes a bit, so that it never runs
  out.  The operations of the linked queue are partial functions: \<^verbatim>\<open>None\<close> is an access through a bad pointer or a loop
  that does not end, and their lemmas show a result.  Callbacks, the addresses that allocation returns and
  the peer's packets are arguments.  In the theories of the sensors \<^verbatim>\<open>None\<close> is an access outside an array or to the wrong member of a
  union.  The times and the successes of sending are lists of answers of the operating system.  The database process is a function from commands to
  responses that may handle them in any order and loses none; the theorems on requests hold for the first 4294967285 command numbers, before
  they start again.  In the theories of the database process the device table is a map from name numbers to columns, which SQL commands change as SQLite
  documents them, unless the database cannot be opened or a statement fails, which is an argument; the shared memory is a list of the 40 places and the cell behind them.  Its invariant is for messages with all seven columns,
  texts without quotes, name numbers below \<open>2 ^ 31\<close> that differ from that of the gateway, at most 40 devices and deletions of one device.
  Its first part, on the entries and the shared memory, holds whatever commands on the database fail, its second part, on the rows, as long as none fails.
  Each step of the collection of sensor data takes the channels as they are at that moment; the theorems on one report and one set are about steps between which the
  channels stay the same and no handler runs in the middle of a row.  The handlers run in threads of their own: they may come in at two points of a row, and a row
  at one point of a handler, which the lemmas on races use; finer interleavings are not modelled.
  The semaphore of the shared memory is free or taken as a list of answers says.
  The search of the efficient mode moves on by at least one place in each step, which its termination proof uses.

  \<^bold>\<open>What is shown.\<close>  For the slave as a whole: the invariant of all reachable states, the separation of the two
  threads, the path of a measured value from the shared memory to the wire, and that a change of the port
  settings silences the slave until it is restarted.  For its main loop: one reply for each accepted request,
  with the contents of the registers; no reply and three counters for a rejected one; silence in listen-only
  mode.  For its parts: the checksum, layouts and their round trip, lookups, remapping, file records, byte
  orders, frames of the writers, loading of the tables.  For the compression: the whole program recovers every
  sample up to a bound, when the compressed data fit the buffer, and leaves its buffer when they do not; round trip and
  totality of the codec, the transform against its reference.  For the queues: refinement of lists, first in first out, no
  message lost or repeated under any interleaving, a null pointer for a thread only after an interrupted wait, and progress of a waiting thread.  For the replies: the bound of
  registrations per peer in all reachable states, delivery to the first match only, and that a finished request whose message fits the buffer leaves no
  registration behind.  For the sensors: every configured sensor passes the filter, an advertisement is decoded without leaving its arrays, with
  values that are too small by their high byte, a changed byte in the pipe is noticed, and the rows of an accepted report are sent once, in order, whatever
  the message queue takes.  For the requests: a thread gets the response to its own command under every interleaving, and one that waits can
  always be answered.  For the channels: every taken channel has one device, on which entry and shared memory agree whatever commands fail, and the row too as long as
  none fails; a restart keeps
  them; the slave serves each device that is no Pro sensor at its own 128 registers; in efficient mode blocks stay apart as long as holes are large enough.
  For the collected data: a report and a complete set arrive in the place of their channel, and a report of an Insight-T sensor is what a master reads at the registers of the
  sensor.
  A number of theorems show places where the code departs from its comments or from the
  neighbouring code.

  \<^bold>\<open>Not modelled.\<close>  Mutexes and timing inside a turn, logging and dump functions, disabled preprocessor
  branches, \<^verbatim>\<open>modbus_receive\<close> and the write branches of libmodbus (the slave filters them out), the Modbus
  master; the statistics and the table generator of the compression; the protocol buffers, the dispatch of message
  types and the sockets below the Froto engine; the tables of the database other than those of devices and sensor data, the
  configuration of the gateway and the reports of modified tables; the filters in the database process and SQLite itself;
  and the rest of the gateway (Bluetooth connections, MQTT), which appears as the writer of sensor data, as the sender of advertisements and as the
  function that answers commands.
\<close>

section \<open>Start-up\<close>

text \<open>
  \<^verbatim>\<open>main\<close> up to the start of the threads.  The result is \<^term>\<open>None\<close> when the initialisation fails, which
  \<^verbatim>\<open>main\<close> does not check and the model does not follow, and while the shared memory holds no valid
  configuration.  A port that cannot be opened and a table that cannot be created do not stop it.
\<close>

definition main_startup ::
    "(string \<Rightarrow> cjson list option) \<Rightarrow> string option option \<Rightarrow> (nat \<Rightarrow> int) \<Rightarrow> error_code \<Rightarrow> error_code
     \<Rightarrow> shm_abi \<Rightarrow> bytes list \<Rightarrow> ipc_env \<Rightarrow> ctr option" where
  "main_startup json_parse mfile mtx_rc shm_rc sem_rc abi shms ie =
     (let info = snd (app_mslave_load_reg_mapping_info json_parse mfile []);
          c = g_mslave_ctr\<lparr>g_reg_mapping_info := info\<rparr> in
      case app_mslave_init_ctr mtx_rc shm_rc sem_rc c of
        Inl err \<Rightarrow> None
      | Inr c \<Rightarrow>
          (case app_mslave_ipc_load_conf abi shms c of
             None \<Rightarrow> None
           | Some c \<Rightarrow>
               let c = snd (app_mslave_init_port ie c);
                   c = app_mslave_release_mapping c in
               Some (snd (app_mslave_create_mapping (create_env ie) (map_mem_ok ie) c))))"

section \<open>The two threads together\<close>

text \<open>
  The running slave: turns of the main loop and turns of the service thread, in any order.  A turn is
  one step; the locks of the source make the parts of a turn that touch the port and the register
  table exclusive, and a lock that is taken is an input of the turn.
\<close>

inductive slave_run :: "shm_abi \<Rightarrow> ctr \<Rightarrow> ctr \<Rightarrow> bool" for abi :: shm_abi and c\<^sub>0 :: ctr where
  boot: "slave_run abi c\<^sub>0 c\<^sub>0"
| request: "slave_run abi c\<^sub>0 c \<Longrightarrow> rx_fits e \<Longrightarrow> slave_run abi c\<^sub>0 (mloop_step e c)"
| service: "slave_run abi c\<^sub>0 c \<Longrightarrow> slave_run abi c\<^sub>0 (snd (ipc_service_step abi ie c))"

inductive_cases slave_run_cases: "slave_run abi c c'"

text \<open>The parts of the controller that belong to the main loop.\<close>

definition same_protocol :: "ctr \<Rightarrow> ctr \<Rightarrow> bool" where
  "same_protocol c c' \<longleftrightarrow> wire c' = wire c \<and> tx_cnt c' = tx_cnt c \<and> smode c' = smode c
     \<and> state_set c' = state_set c \<and> ch_input_delimiter c' = ch_input_delimiter c
     \<and> freading_buf_queue c' = freading_buf_queue c"

text \<open>The invariant of the register table and of the device list.\<close>

definition table_inv :: "ctr \<Rightarrow> bool" where
  "table_inv c \<longleftrightarrow> (\<forall>m \<in> set (mapping_queue c). holding_only m) \<and> length (dev_array c) = 40"

text \<open>What a part of a service turn may do.\<close>

definition serves :: "ctr \<Rightarrow> ctr \<Rightarrow> bool" where
  "serves c c' \<longleftrightarrow> same_protocol c c' \<and> (table_inv c \<longrightarrow> table_inv c') \<and> (mctx c' = mctx c \<or> mctx c' = None)"

lemma serves_refl: "serves c c"
  by (simp add: serves_def same_protocol_def)

lemma serves_trans: "serves c d \<Longrightarrow> serves d f \<Longrightarrow> serves c f"
  by (auto simp: serves_def same_protocol_def)

lemma load_gwcfg_serves: "to_load_gwcfg_from_shmem abi shm c = (rc, c') \<Longrightarrow> serves c c'"
  using load_gwcfg_frame [of abi shm c rc c'] by (auto simp: serves_def same_protocol_def table_inv_def)

lemma load_devlist_serves:
  assumes "to_load_devlist_from_shmem abi shm c = (rc, c')"
  shows "serves c c'"
proof -
  have "length (fold (load_dev_item abi shm) is ds) = length ds" for "is" ds
    by (induction "is" arbitrary: ds) (simp_all add: load_dev_item_def case_prod_beta)
  then have "length (dev_array c') = length (dev_array c)"
    using assms by (auto simp: to_load_devlist_from_shmem_def Let_def split: if_splits)
  then show ?thesis
    using load_devlist_frame [OF assms] by (auto simp: serves_def same_protocol_def table_inv_def)
qed

lemma check_sdata_serves: "serves c (snd (to_check_sdata_hash_value abi shm c))"
  using check_sdata_frame [of abi shm c] by (auto simp: serves_def same_protocol_def table_inv_def)

lemma flag_serves:
  "serves c (app_mslave_ipc_set_force_gwconf_update b c)" "serves c (app_mslave_ipc_set_force_dev_update b c)"
  "serves c (app_mslave_ipc_set_force_sdata_update b c)" "serves c (app_mslave_set_to_update_mslave b c)"
  by (simp_all add: serves_def same_protocol_def table_inv_def app_mslave_ipc_set_force_gwconf_update_def
      app_mslave_ipc_set_force_dev_update_def app_mslave_ipc_set_force_sdata_update_def app_mslave_set_to_update_mslave_def)

lemma reinit_port_serves:
  assumes "is_gateway_conf_valid (gwconf c)"
  shows "serves c (reinit_port ie c)"
  using new_rtu_raw_parity [OF valid_parity [OF assms]]
  by (simp add: reinit_port_def app_mslave_set_mctx_def Let_def serves_def same_protocol_def table_inv_def)

lemma update_port_serves: "serves c (snd (update_port ie c))"
proof -
  let ?c = "app_mslave_ipc_set_force_gwconf_update False (app_mslave_set_to_update_mslave False c)"
  have s: "serves c ?c" by (rule serves_trans [OF flag_serves(4) flag_serves(1)])
  have "snd (update_port ie c) = ?c \<or> is_gateway_conf_valid (gwconf ?c) \<and> snd (update_port ie c) = reinit_port ie ?c"
    by (simp add: update_port_def Let_def)
  then show ?thesis
    using s serves_trans [OF s reinit_port_serves] by auto
qed

section \<open>Creating the register table again\<close>

text \<open>A new queue of holding-register blocks, and perhaps a cleared remapping flag.\<close>

lemma new_table_serves:
  assumes "c' = c\<lparr>mapping_queue := q, g_reg_mapping_info := r\<rparr>" "\<forall>m \<in> set q. holding_only m"
  shows "serves c c'"
  using assms by (simp add: serves_def same_protocol_def table_inv_def)

lemma create_efficient_serves:
  assumes "to_create_efficient_reg_mapping mem_ok c = (rc, c')"
  shows "serves c c'"
proof -
  obtain q r where "c' = c\<lparr>mapping_queue := q, g_reg_mapping_info := r\<rparr>" "\<forall>m \<in> set q. holding_only m"
  proof (cases "modbus_mapping_new_start_address mem_ok 0 0 0 0 0 0xFFFF 0 0")
    case None
    then have "c' = c\<lparr>mapping_queue := [], g_reg_mapping_info := g_reg_mapping_info c\<rparr>"
      using assms by (auto simp: to_create_efficient_reg_mapping_def Let_def app_mslave_release_mapping_none_thread_safe_def)
    then show ?thesis by (rule that) simp
  next
    case (Some m)
    have "c' = c\<lparr>mapping_queue := [m], g_reg_mapping_info := g_reg_mapping_info c'\<rparr>"
      using assms Some
      by (auto simp: to_create_efficient_reg_mapping_def Let_def app_mslave_release_mapping_none_thread_safe_def split: if_splits)
    then show ?thesis using that new_holding_only [OF Some] by simp
  qed
  then show ?thesis by (rule new_table_serves)
qed

lemma create_extensible_serves:
  assumes "to_create_extensible_reg_mapping_v2 mem_ok c = (rc, c')"
  shows "serves c c'"
proof -
  let ?c = "c\<lparr>mapping_queue := []\<rparr>"
  let ?L = "app_mslave_ipc_get_gwconf_layout_info ?c (gwconf c)"
  have none: "serves c ?c"
    by (simp add: serves_def same_protocol_def table_inv_def)
  consider "c' = ?c"
    | g c1 r1 where "modbus_mapping_new_start_address (mem_ok 0) 0 0 0 0 (unat (addr ?L)) (unat (regnum ?L)) 0 0 = Some g"
      "create_sensor_mappings mem_ok 1 (take 40 (dev_array c)) (c\<lparr>mapping_queue := [g]\<rparr>) = (r1, c1)"
      "c' = c1 \<or> create_remap_block (mem_ok 41) c1 = (rc, c')"
    using assms
    by (auto simp: to_create_extensible_reg_mapping_v2_def Let_def app_mslave_release_mapping_none_thread_safe_def
        split: if_splits option.splits prod.splits)
  then show ?thesis
  proof cases
    case 2
    from create_sensor_mappings_appends [OF 2(2)] obtain ms where ms:
      "c1 = c\<lparr>mapping_queue := g # ms\<rparr>" "\<forall>m \<in> set ms. holding_only m" by auto
    have g: "\<forall>m \<in> set (g # ms). holding_only m" using ms(2) new_holding_only [OF 2(1)] by simp
    from 2(3) obtain ns where "c' = c1\<lparr>mapping_queue := mapping_queue c1 @ ns\<rparr>" "\<forall>m \<in> set ns. holding_only m"
    proof (elim disjE)
      assume "c' = c1"
      then show ?thesis using that [of "[]"] by simp
    qed (use create_remap_block_appends in blast)
    then have "c' = c\<lparr>mapping_queue := g # ms @ ns, g_reg_mapping_info := g_reg_mapping_info c\<rparr>"
      "\<forall>m \<in> set (g # ms @ ns). holding_only m" using ms(1) g by auto
    then show ?thesis by (rule new_table_serves)
  qed (use none in simp)
qed

lemma create_mapping_serves: "serves c (snd (app_mslave_create_mapping e mem_ok c))"
proof -
  let ?c = "app_mslave_set_to_update_mslave False c"
  let ?r = "app_mslave_create_mapping e mem_ok c"
  have "?r = (ERR_API_FAIL, app_mslave_set_to_update_mslave True c) \<or> ?r = to_create_extensible_reg_mapping_v2 mem_ok ?c
    \<or> ?r = to_create_efficient_reg_mapping (mem_ok 0) ?c \<or> ?r = (ERR_API_FAIL, ?c)"
    by (simp add: app_mslave_create_mapping_def Let_def)
  moreover have "serves ?c (snd (to_create_extensible_reg_mapping_v2 mem_ok ?c))"
    "serves ?c (snd (to_create_efficient_reg_mapping (mem_ok 0) ?c))"
    by (rule create_extensible_serves create_efficient_serves, rule prod.collapse [symmetric])+
  ultimately show ?thesis
    using flag_serves(4) serves_trans by fastforce
qed

lemma update_mappings_serves: "serves c (snd (update_mappings ie c))"
proof -
  let ?c = "app_mslave_ipc_set_force_dev_update False c"
  let ?d = "snd (app_mslave_create_mapping (create_env ie) (map_mem_ok ie) ?c)"
  have d: "serves c ?d" by (rule serves_trans [OF flag_serves(2) create_mapping_serves])
  have "snd (update_mappings ie c) = app_mslave_ipc_set_force_dev_update True ?d
    \<or> snd (update_mappings ie c) = app_mslave_ipc_set_force_sdata_update True ?d"
    by (simp add: update_mappings_def Let_def case_prod_beta)
  then show ?thesis
    using serves_trans [OF d flag_serves(2)] serves_trans [OF d flag_serves(3)] by auto
qed

section \<open>A whole service turn\<close>

lemma only_regs_holding:
  assumes "only_regs S m m'" "holding_only m"
  shows "holding_only m'"
proof -
  obtain t where "m' = m\<lparr>tab_registers := t\<rparr>" using assms(1) by (metis only_regs_def)
  then show ?thesis
    using only_regs_header(3) [OF assms(1)] assms(2) unfolding holding_only_def by simp
qed

lemma regs_only_holding:
  assumes "regs_only q q'" "\<forall>m \<in> set q. holding_only m"
  shows "\<forall>m \<in> set q'. holding_only m"
proof
  fix m' assume "m' \<in> set q'"
  then obtain m where "m \<in> set q" "only_regs UNIV m m'"
    using assms(1) unfolding regs_only_def by (metis in_set_conv_nth list_all2_conv_all_nth)
  then show "holding_only m'" using only_regs_holding assms(2) by blast
qed

text \<open>Writing the data needs the invariant, since the writers rely on the table of a block.\<close>

lemma update_sdata_serves:
  assumes "table_inv c"
  shows "serves c (snd (update_sdata abi ie h c))"
proof -
  let ?c = "app_mslave_ipc_set_force_sdata_update False (app_mslave_ipc_set_force_sdata_update True c)"
  let ?r = "to_update_sdata_register abi ie ?c"
  have f: "serves c ?c" by (rule serves_trans [OF flag_serves(3) flag_serves(3)])
  have h: "\<forall>m \<in> set (mapping_queue ?c). holding_only m"
    using f assms by (simp add: serves_def table_inv_def)
  then have wf: "\<forall>m \<in> set (mapping_queue ?c). mapping_wf m" by (simp add: holding_only_def)
  obtain q where q: "snd ?r = ?c\<lparr>mapping_queue := q\<rparr>" "regs_only (mapping_queue ?c) q"
    using update_sdata_only [OF wf prod.collapse [symmetric]] by blast
  have "serves ?c (snd ?r)"
    using q(1) regs_only_holding [OF q(2) h] by (simp add: serves_def same_protocol_def table_inv_def)
  moreover have "snd (update_sdata abi ie h c) = snd ?r"
    by (simp add: update_sdata_def Let_def case_prod_beta app_mslave_ipc_get_force_sdata_update_def
        app_mslave_ipc_set_force_sdata_update_def)
  ultimately show ?thesis using serves_trans [OF f] by simp
qed

lemma update_serves:
  assumes "table_inv c"
  shows "serves c (snd (to_update_mslave_mapping abi ie c))"
proof -
  obtain r1 c1 where g: "to_load_gwcfg_from_shmem abi (shm_mem ie) c = (r1, c1)" by (metis surj_pair)
  obtain r2 c2 where d: "to_load_devlist_from_shmem abi (shm_mem ie) c1 = (r2, c2)" by (metis surj_pair)
  obtain c3 where c3: "snd (to_check_sdata_hash_value abi (shm_mem ie) c2) = c3" by simp
  obtain md c4 where p: "(if gwconf_hash c \<noteq> gwconf_hash c3 \<or> app_mslave_ipc_get_force_gwconf_update c3
      then update_port ie c3 else (False, c3)) = (md, c4)" by (metis surj_pair)
  obtain r5 c5 where m: "update_mappings ie c4 = (r5, c5)" by (metis surj_pair)
  have s1: "serves c c1" by (rule load_gwcfg_serves [OF g])
  have s2: "serves c c2" by (rule serves_trans [OF s1 load_devlist_serves [OF d]])
  have s3: "serves c c3" using serves_trans [OF s2 check_sdata_serves [of c2 abi "shm_mem ie"]] c3 by simp
  have "c4 = snd (if gwconf_hash c \<noteq> gwconf_hash c3 \<or> app_mslave_ipc_get_force_gwconf_update c3
      then update_port ie c3 else (False, c3))" using p by simp
  then have s4: "serves c c4" using s3 serves_trans [OF s3 update_port_serves] by simp
  have s5: "serves c c5" using serves_trans [OF s4 update_mappings_serves [of c4 ie]] m by simp
  have i: "table_inv c4" "table_inv c5" using s4 s5 assms by (simp_all add: serves_def)
  let ?busy = "app_mslave_ipc_set_force_gwconf_update True (app_mslave_set_to_update_mslave True c3)"
  have b: "serves c ?busy" by (rule serves_trans [OF s3 serves_trans [OF flag_serves(4) flag_serves(1)]])
  have "snd (to_update_mslave_mapping abi ie c) \<in> {c1, c2, ?busy, c5, snd (update_sdata abi ie (sdata_hash c) c4),
      snd (update_sdata abi ie (sdata_hash c) c5)}"
    unfolding to_update_mslave_mapping_def Let_def g d c3 prod.case p m by simp
  then show ?thesis
    using s1 s2 b s5 serves_trans [OF s4 update_sdata_serves [OF i(1)]] serves_trans [OF s5 update_sdata_serves [OF i(2)]]
    by auto
qed

lemma service_serves: "table_inv c \<Longrightarrow> serves c (snd (ipc_service_step abi ie c))"
  using update_serves [of c abi ie] by (simp add: ipc_service_step_def case_prod_beta)

section \<open>Properties of the running slave\<close>

lemma turn_same_conf: "ctr_inv c \<Longrightarrow> rx_fits e \<Longrightarrow> same_conf c (mloop_step e c)"
  using turn_answers [of e c] by (simp add: ctr_inv_def answers_def)

lemma same_protocol_inv: "same_protocol c c' \<Longrightarrow> ctr_inv c \<Longrightarrow> ctr_inv c'"
  by (simp add: same_protocol_def ctr_inv_def wire_ok_def bufs_ok_def log_wf_def mode_ok_def)

lemma run_inv:
  assumes "slave_run abi c\<^sub>0 c" "ctr_inv c\<^sub>0" "table_inv c\<^sub>0"
  shows "ctr_inv c \<and> table_inv c"
  using assms
proof (induction rule: slave_run.induct)
  case (request c e)
  then show ?case
    using turn_inv [of c e] turn_same_conf [of c e] by (simp add: table_inv_def same_conf_def)
next
  case (service c ie)
  then show ?case
    using service_serves [of c abi ie] same_protocol_inv by (auto simp: serves_def)
qed simp

text \<open>Start-up establishes the invariants.\<close>

lemma load_conf_frame:
  assumes "app_mslave_ipc_load_conf abi shms c = Some c'"
  shows "same_protocol c c' \<and> (table_inv c \<longrightarrow> table_inv c')"
  using assms
proof (induction shms arbitrary: c)
  case (Cons shm shms)
  obtain r1 c1 where g: "to_load_gwcfg_from_shmem abi shm c = (r1, c1)" by (metis surj_pair)
  obtain r2 c2 where d: "to_load_devlist_from_shmem abi shm c1 = (r2, c2)" by (metis surj_pair)
  obtain r3 pc where p: "app_mslave_ipc_set_port_conf (port_conf c2) (modbusConfig (gwconf c2)) = (r3, pc)"
    by (metis surj_pair)
  let ?c3 = "c2\<lparr>port_conf := pc, slave_id := slaveID pc\<rparr>"
  have s: "serves c c1" "serves c c2"
    using load_gwcfg_serves [OF g] serves_trans [OF load_gwcfg_serves [OF g] load_devlist_serves [OF d]] by simp_all
  have "serves c2 ?c3" by (simp add: serves_def same_protocol_def table_inv_def)
  then have s3: "serves c ?c3" by (rule serves_trans [OF s(2)])
  have "c' = ?c3 \<or> (\<exists>c4 \<in> {c1, c2, ?c3}. app_mslave_ipc_load_conf abi shms c4 = Some c')"
    using Cons.prems g d p by (auto simp: Let_def split: if_splits)
  moreover have "same_protocol c c' \<and> (table_inv c \<longrightarrow> table_inv c')"
    if "app_mslave_ipc_load_conf abi shms c4 = Some c'" "serves c c4" for c4
    using Cons.IH [OF that(1)] that(2) by (auto simp: serves_def same_protocol_def)
  ultimately show ?case
    using s s3 by (auto simp: serves_def)
qed simp

lemma init_port_frame:
  "same_protocol c (snd (app_mslave_init_port ie c)) \<and> table_inv (snd (app_mslave_init_port ie c)) = table_inv c"
  by (auto simp: app_mslave_init_port_def Let_def app_mslave_set_mctx_def same_protocol_def table_inv_def split: option.split)

lemma init_ctr_frame:
  assumes "app_mslave_init_ctr mtx_rc shm_rc sem_rc (g_mslave_ctr\<lparr>g_reg_mapping_info := info\<rparr>) = Inr c"
  shows "ctr_inv c \<and> table_inv c"
proof -
  have "c = init_ctr\<lparr>g_reg_mapping_info := info\<rparr>"
    using assms by (auto simp: app_mslave_init_ctr_def init_ctr_def g_mslave_ctr_def Let_def split: if_splits)
  moreover have "same_protocol init_ctr (init_ctr\<lparr>g_reg_mapping_info := info\<rparr>)" by (simp add: same_protocol_def)
  moreover have "table_inv (init_ctr\<lparr>g_reg_mapping_info := info\<rparr>)"
    by (simp add: table_inv_def init_ctr_def g_mslave_ctr_def)
  ultimately show ?thesis using same_protocol_inv init_inv by auto
qed

lemma startup_inv:
  assumes "main_startup json_parse mfile mtx_rc shm_rc sem_rc abi shms ie = Some c"
  shows "ctr_inv c \<and> table_inv c"
proof -
  obtain c1 c2 where c: "app_mslave_init_ctr mtx_rc shm_rc sem_rc
        (g_mslave_ctr\<lparr>g_reg_mapping_info := snd (app_mslave_load_reg_mapping_info json_parse mfile [])\<rparr>) = Inr c1"
      "app_mslave_ipc_load_conf abi shms c1 = Some c2"
      "c = snd (app_mslave_create_mapping (create_env ie) (map_mem_ok ie)
            (app_mslave_release_mapping (snd (app_mslave_init_port ie c2))))"
    using assms by (auto simp: main_startup_def Let_def split: sum.splits option.splits)
  let ?c4 = "app_mslave_release_mapping (snd (app_mslave_init_port ie c2))"
  have i: "ctr_inv c2 \<and> table_inv c2"
    using load_conf_frame [OF c(2)] init_ctr_frame [OF c(1)] same_protocol_inv by auto
  have "same_protocol c2 ?c4" "table_inv ?c4"
    using init_port_frame [of c2 ie] i
    by (simp_all add: app_mslave_release_mapping_def same_protocol_def table_inv_def)
  then have "ctr_inv ?c4 \<and> table_inv ?c4" using i same_protocol_inv by blast
  then show ?thesis
    using create_mapping_serves [of ?c4 "create_env ie" "map_mem_ok ie"] c(3) same_protocol_inv by (auto simp: serves_def)
qed

text \<open>
  C1: whatever requests arrive, whatever the shared memory holds and however the two threads take
  turns after the start-up: every frame ever sent has at most 256 bytes and checksum 0, every block of
  the register table has a table of exactly its length and no coils or inputs, the device list keeps
  its 40 places, the event log and the file buffers stay well formed.
\<close>

theorem slave_run_invariant:
  assumes "main_startup json_parse mfile mtx_rc shm_rc sem_rc abi shms ie = Some c\<^sub>0" "slave_run abi c\<^sub>0 c"
  shows "(\<forall>f \<in> set (wire c). length f \<le> 256 \<and> util_tool_cal_crc16 f = 0)
    \<and> (\<forall>m \<in> set (mapping_queue c). length (tab_registers m) = nb_registers m
         \<and> nb_bits m = 0 \<and> nb_input_bits m = 0 \<and> nb_input_registers m = 0)
    \<and> length (dev_array c) = 40 \<and> log_wf c \<and> bufs_ok c"
proof -
  have "ctr_inv c" "table_inv c" using run_inv [OF assms(2)] startup_inv [OF assms(1)] by simp_all
  then show ?thesis
    unfolding ctr_inv_def table_inv_def wire_ok_def frame_ok_def holding_only_def mapping_wf_def by simp
qed

text \<open>
  C4: the two threads own different parts of the controller.  A turn of the main loop leaves the port,
  the register table, the byte order, the configuration and the device list alone; a turn of the
  service thread sends nothing and leaves the counters, the event log, the mode and the file buffers
  alone.
\<close>

theorem threads_own_their_state:
  assumes "main_startup json_parse mfile mtx_rc shm_rc sem_rc abi shms ie\<^sub>0 = Some c\<^sub>0" "slave_run abi c\<^sub>0 c" "rx_fits e"
  shows "same_conf c (mloop_step e c) \<and> same_protocol c (snd (ipc_service_step abi ie c))"
proof -
  have i: "ctr_inv c" "table_inv c" using run_inv [OF assms(2)] startup_inv [OF assms(1)] by simp_all
  show ?thesis
    using turn_same_conf [OF i(1) assms(3)] service_serves [OF i(2), of abi ie] by (simp add: serves_def)
qed

lemma disconnected_turn:
  assumes "mctx c = None" "rx_fits e"
  shows "wire (mloop_step e c) = wire c \<and> mctx (mloop_step e c) = None"
proof (cases "\<not> lock_ok e \<or> rx e = None \<or> rx e = Some []")
  case True
  then show ?thesis using silent_answers [of e "[]" c] assms by (auto simp: answers_def same_conf_def)
next
  case False
  then obtain bs where bs: "rx e = Some bs" "bs \<noteq> []" "lock_ok e" by auto
  have "modbus_get_slave (mctx c) = - 1" using assms by (simp add: modbus_get_slave_def)
  then have n: "\<not> pkt_ok c bs" by (simp add: pkt_ok_def addressed_def del: of_nat_unat)
  have l: "length bs \<le> 256" using bs(1) assms(2) by (simp add: rx_fits_def)
  show ?thesis
    using rejected_answers [OF bs(3,1,2) l n, of "[]"] assms by (auto simp: answers_def same_conf_def)
qed

lemma disconnected_run:
  assumes "slave_run abi c\<^sub>0 c" "ctr_inv c\<^sub>0" "table_inv c\<^sub>0" "mctx c\<^sub>0 = None"
  shows "wire c = wire c\<^sub>0 \<and> mctx c = None"
  using assms
proof (induction rule: slave_run.induct)
  case (request c e)
  then show ?case using disconnected_turn [of c e] by simp
next
  case (service c ie)
  then show ?case
    using service_serves [of c abi ie] run_inv [OF service.hyps(1)] by (auto simp: serves_def same_protocol_def)
qed simp

text \<open>A service turn that finds a new configuration with other port settings.\<close>

definition new_port_settings :: "shm_abi \<Rightarrow> ipc_env \<Rightarrow> ctr \<Rightarrow> bool" where
  "new_port_settings abi ie c \<longleftrightarrow>
     (let buf = shm_slice (shm_mem ie) 0 APP_SHM_GATEWAY_TABLE_ITEM_SIZE; (ty, gw) = gw_item abi buf in
      util_tool_cal_elfhash (Some buf) \<noteq> gwconf_hash c \<and> ty = GW_PRO_TABLE_IDX_GW_CONFIG_TABLE
      \<and> is_gateway_conf_valid gw \<and> is_port_conf_modified (port_conf c) gw)"

lemma new_settings_close_port:
  assumes "sizeof_item abi < APP_SHM_DEV_TABLE_ITEM_SIZE" "new_port_settings abi ie c" "conf_lock ie" "table_inv c"
  shows "mctx (snd (ipc_service_step abi ie c)) = None"
proof -
  have sz: "APP_SHM_GATEWAY_TABLE_ITEM_SIZE mod SZ_IPC_BUF = APP_SHM_GATEWAY_TABLE_ITEM_SIZE"
    "\<not> APP_SHM_GATEWAY_TABLE_ITEM_SIZE > SZ_IPC_BUF" "sizeof_item abi < APP_SHM_GATEWAY_TABLE_ITEM_SIZE"
    "\<not> APP_SHM_DEV_TABLE_ITEM_SIZE > SZ_IPC_BUF" "\<not> sizeof_item abi \<ge> APP_SHM_DEV_TABLE_ITEM_SIZE"
    using assms(1) by (simp_all add: shm_sizes)
  obtain c1 gw where c1: "to_load_gwcfg_from_shmem abi (shm_mem ie) c = (ERR_NONE, c1)" "gwconf c1 = gw"
      "gwconf_hash c1 \<noteq> gwconf_hash c" "port_conf c1 = port_conf c" "is_gateway_conf_valid gw" "is_port_conf_modified (port_conf c) gw"
    using assms(2) sz by (auto simp: to_load_gwcfg_from_shmem_def new_port_settings_def Let_def case_prod_beta)
  obtain c2 where d: "to_load_devlist_from_shmem abi (shm_mem ie) c1 = (ERR_NONE, c2)"
  proof
    have "fst (to_load_devlist_from_shmem abi (shm_mem ie) c1) = ERR_NONE"
      using sz by (simp add: to_load_devlist_from_shmem_def Let_def)
    then show "to_load_devlist_from_shmem abi (shm_mem ie) c1 = (ERR_NONE, snd (to_load_devlist_from_shmem abi (shm_mem ie) c1))"
      by (simp add: prod_eq_iff)
  qed
  obtain c3 where c3: "snd (to_check_sdata_hash_value abi (shm_mem ie) c2) = c3" by simp
  have k: "gwconf c3 = gw" "gwconf_hash c3 \<noteq> gwconf_hash c" "port_conf c3 = port_conf c"
    using load_devlist_frame [OF d] check_sdata_frame [of abi "shm_mem ie" c2] c3 c1 by auto
  obtain md c4 where p: "update_port ie c3 = (md, c4)" by (metis surj_pair)
  obtain r5 c5 where m: "update_mappings ie c4 = (r5, c5)" by (metis surj_pair)
  have n4: "mctx c4 = None" using update_port_disconnects [of c3 ie] k c1 p by simp
  have s4: "serves c c4"
    using serves_trans [OF load_gwcfg_serves [OF c1(1)] load_devlist_serves [OF d]]
      check_sdata_serves [of c2 abi "shm_mem ie"] update_port_serves [of c3 ie] c3 p serves_trans by (metis snd_conv)
  have s5: "serves c4 c5" using update_mappings_serves [of c4 ie] m by simp
  have i: "table_inv c4" "table_inv c5" using s4 s5 assms(4) by (simp_all add: serves_def)
  have "snd (to_update_mslave_mapping abi ie c) \<in> {c5, snd (update_sdata abi ie (sdata_hash c) c4),
      snd (update_sdata abi ie (sdata_hash c) c5)}"
    unfolding to_update_mslave_mapping_def Let_def c1(1) d c3 prod.case using k assms(3) p m by simp
  then have "serves c4 (snd (to_update_mslave_mapping abi ie c))"
    using s5 update_sdata_serves [OF i(1)] serves_trans [OF s5 update_sdata_serves [OF i(2)]] by auto
  then show ?thesis using n4 by (auto simp: serves_def ipc_service_step_def case_prod_beta)
qed

text \<open>
  C8: a new port setting silences the slave for good.  The service turn that finds a valid
  configuration with another baud rate, parity, stop bits or slave address closes the port, and no
  later turn of either thread opens it again, so that nothing is ever sent after it: the service thread
  reopens the port with the number of the parity mode, which the library refuses.
\<close>

theorem new_port_settings_silence_slave:
  assumes "main_startup json_parse mfile mtx_rc shm_rc sem_rc abi shms ie\<^sub>0 = Some c\<^sub>0" "slave_run abi c\<^sub>0 c"
    and "sizeof_item abi < APP_SHM_DEV_TABLE_ITEM_SIZE" "new_port_settings abi ie c" "conf_lock ie"
    and "slave_run abi (snd (ipc_service_step abi ie c)) c'"
  shows "wire c' = wire c \<and> mctx c' = None"
proof -
  have i: "ctr_inv c \<and> table_inv c" using run_inv [OF assms(2)] startup_inv [OF assms(1)] by blast
  have s: "serves c (snd (ipc_service_step abi ie c))" using i by (simp add: service_serves)
  have j: "ctr_inv (snd (ipc_service_step abi ie c))" "table_inv (snd (ipc_service_step abi ie c))"
    using i s same_protocol_inv by (auto simp: serves_def)
  have "mctx (snd (ipc_service_step abi ie c)) = None"
    using i by (intro new_settings_close_port assms(3-5)) simp
  then have "wire c' = wire (snd (ipc_service_step abi ie c)) \<and> mctx c' = None"
    by (rule disconnected_run [OF assms(6) j])
  then show ?thesis using s by (simp add: serves_def same_protocol_def)
qed

section \<open>From the shared memory to the wire\<close>

lemma bitmap_keeps_values:
  assumes "mapping_wf m" "k < unat ofs + 50"
  shows "tab_registers (snd (to_write_sensor_bitmap_to_register_table bo m val ofs)) ! k = tab_registers m ! k"
proof -
  have "only_regs {unat ofs + 50..<unat ofs + 52} m (snd (to_write_sensor_bitmap_to_register_table bo m val ofs))"
    using assms(1)
    by (auto simp: to_write_sensor_bitmap_to_register_table_def Let_def layout_defs only_regs_refl intro!: store_two_only)
  then show ?thesis using assms(2) unfolding only_regs_def by simp
qed

lemma node_float_written:
  assumes "mapping_wf m" "appShmDataType item = GW_PRO_TABLE_IDX_SENSOR_DATA_TABLE" "product (sensorDataTableData item) = BULLET_NODE"
    and "t = dataType (sensorDataTableData item)" "prs_field t = FK_FLOAT" "unat ofs + 52 \<le> nb_registers m"
    and "w = to_set_float bo (data_float be (sd_value (sensorDataTableData item)))"
    and "l < 2"
  shows "tab_registers (write_product be fs bo item bm ofs m) ! (unat ofs + DT_OFFSET t + l) = w ! l"
proof -
  let ?m1 = "snd (to_write_sensor_data_to_register_table be fs bo m item ofs)"
  have wf: "mapping_wf ?m1" by (rule prs_writer.write_wf [OF assms(1)])
  have off: "DT_OFFSET t + 2 \<le> 46"
    using prs_regs_bound [of "DT_OFFSET t + 1" t] assms(5) by (simp add: prs_regs_def field_regnum_def)
  have len: "length (tab_registers ?m1) = nb_registers m"
    using wf prs_writer.write_shape [OF assms(1), of be fs bo item ofs] by (simp add: mapping_wf_def)
  have "take 2 (drop (unat ofs + DT_OFFSET t) (tab_registers ?m1)) = w"
    using float_stored [OF assms(1,2) _ assms(6) prod.collapse [symmetric]] assms(4,5,7) by simp
  then have "w ! l = take 2 (drop (unat ofs + DT_OFFSET t) (tab_registers ?m1)) ! l" by simp
  also have "\<dots> = tab_registers ?m1 ! (unat ofs + DT_OFFSET t + l)"
    using assms(6,8) off len by (simp add: add.commute add.left_commute)
  finally show ?thesis
    using bitmap_keeps_values [OF wf, of "unat ofs + DT_OFFSET t + l" ofs] off assms(3,8) by (simp add: write_product_def)
qed

lemma node_piece_written:
  assumes "\<forall>m \<in> set (mapping_queue c). mapping_wf m"
    and "piece_ready abi ie (i * APP_SHM_SENSORDATA_TABLE_PIECE_MAX + j) c item k"
    and sd: "sd = sensorDataTableData item" "product sd = BULLET_NODE" "prs_field (dataType sd) = FK_FLOAT"
    and L: "L = to_get_sdata_layout_info c (sd_nameId sd)" "52 \<le> unat (regnum L)" "start_registers (mapping_queue c ! k) \<le> unat (addr L)"
    and w: "w = to_set_float (mbus_border c) (data_float (big_endian (create_env ie)) (sd_value sd))"
  shows "\<exists>m'. sdata_pieces abi ie None i [j] c = c\<lparr>mapping_queue := (mapping_queue c)[k := m']\<rparr>
    \<and> only_regs UNIV (mapping_queue c ! k) m' \<and> unat (addr L) + 52 \<le> start_registers m' + nb_registers m'
    \<and> start_registers m' \<le> unat (addr L)
    \<and> (\<forall>l < 2. tab_registers m' ! (unat (addr L) - start_registers m' + DT_OFFSET (dataType sd) + l) = w ! l)"
proof -
  let ?m = "mapping_queue c ! k"
  define ofs :: u16 where "ofs = of_int (int (unat (addr L)) - int (start_registers ?m))"
  define m' where "m' = write_product (big_endian (create_env ie)) (alarm_files ie) (mbus_border c) item
      (to_load_sdata_bitmap_from_shmem abi (shm_mem ie) (i * APP_SHM_SENSORDATA_TABLE_PIECE_MAX + j)) ofs ?m"
  have r: "appShmDataType item = GW_PRO_TABLE_IDX_SENSOR_DATA_TABLE" "k < length (mapping_queue c)"
    "unat (addr L) + unat (regnum L) \<le> start_registers ?m + nb_registers ?m"
    using assms(2) L(1) sd(1) by (auto simp: piece_ready_def Let_def locate_Some)
  then have wf: "mapping_wf ?m" using assms(1) by simp
  have o: "unat ofs = unat (addr L) - start_registers ?m" unfolding ofs_def by (rule offset_value [OF L(3)])
  have big: "unat ofs + 52 \<le> nb_registers ?m" using o r(3) L(2,3) by simp
  have only: "only_regs UNIV ?m m'" unfolding m'_def by (rule write_product_only [OF wf])
  have "sdata_pieces abi ie None i [j] c = c\<lparr>mapping_queue := (mapping_queue c)[k := m']\<rparr>"
    using piece_written [OF assms(2)] L(1) sd(1) by (simp add: m'_def ofs_def)
  moreover have "tab_registers m' ! (unat ofs + DT_OFFSET (dataType sd) + l) = w ! l" if "l < 2" for l
    unfolding m'_def using wf r(1) sd big that w by (intro node_float_written) simp_all
  ultimately show ?thesis
    using only only_regs_header [OF only] o r(3) L(2,3) by (intro exI [of _ m']) simp
qed

lemma list_of_two: "length xs = 2 \<Longrightarrow> xs = [xs ! 0, xs ! 1]"
  by (rule nth_equalityI) (auto simp: less_2_cases_iff)

text \<open>
  C2: a float measured by a Predict sensor reaches the master.  When the service thread has written a
  piece of the shared memory whose layout names a block with at least 52 registers, an accepted request
  for the two registers of the measurement is answered with exactly the value of the piece, in the byte
  order of the slave.
\<close>

theorem sensor_value_served:
  assumes "\<forall>m \<in> set (mapping_queue c). mapping_wf m"
    and "piece_ready abi ie (i * APP_SHM_SENSORDATA_TABLE_PIECE_MAX + j) c item k"
    and sd: "sd = sensorDataTableData item" "product sd = BULLET_NODE" "prs_field (dataType sd) = FK_FLOAT"
    and L: "L = to_get_sdata_layout_info c (sd_nameId sd)" "52 \<le> unat (regnum L)" "unat (addr L) + 52 \<le> 0xFFFF"
      "start_registers (mapping_queue c ! k) \<le> unat (addr L)"
    and req: "lock_ok e" "rx e = Some bs" "pkt_ok c bs" "8 \<le> length bs" "smode c \<noteq> SMODE_LISTEN_ONLY"
      "bs ! 0 \<noteq> 0" "bs ! 1 = 0x03" "tx_ok e (tx_cnt c)"
    and a: "a = mk16 (bs ! 2) (bs ! 3)" "unat a = unat (addr L) + DT_OFFSET (dataType sd)"
      "app_mslave_locate_mapping c a ADDR_GP_HOLDING_REGISTER = Some k"
    and nb: "unat (mk16 (bs ! 4) (bs ! 5)) = 2"
  shows "\<exists>f. wire (mloop_step e (sdata_pieces abi ie None i [j] c)) = f # wire c
    \<and> take 3 f = [bs ! 0, 0x03, 4] \<and> util_tool_cal_crc16 f = 0
    \<and> [mk16 (f ! 3) (f ! 4), mk16 (f ! 5) (f ! 6)]
        = to_set_float (mbus_border c) (data_float (big_endian (create_env ie)) (sd_value sd))"
proof -
  let ?t = "dataType sd" and ?w = "to_set_float (mbus_border c) (data_float (big_endian (create_env ie)) (sd_value sd))"
  obtain m' where m': "sdata_pieces abi ie None i [j] c = c\<lparr>mapping_queue := (mapping_queue c)[k := m']\<rparr>"
    "only_regs UNIV (mapping_queue c ! k) m'" "unat (addr L) + 52 \<le> start_registers m' + nb_registers m'"
    "start_registers m' \<le> unat (addr L)"
    "\<forall>l < 2. tab_registers m' ! (unat (addr L) - start_registers m' + DT_OFFSET ?t + l) = ?w ! l"
    using node_piece_written [OF assms(1,2) sd L(1,2,4) refl] by blast
  let ?c = "c\<lparr>mapping_queue := (mapping_queue c)[k := m']\<rparr>"
  have off: "DT_OFFSET ?t + 2 \<le> 46"
    using prs_regs_bound [of "DT_OFFSET ?t + 1" ?t] sd(3) by (simp add: prs_regs_def field_regnum_def)
  have k: "k < length (mapping_queue c)" using a(3) by (simp add: locate_Some)
  have p: "pkt_ok ?c bs" using req(3) by (simp add: pkt_ok_def addressed_def)
  have "\<exists>f. wire (mloop_step e ?c) = f # wire ?c \<and> length f = 5 + 2 * 2
    \<and> take 3 f = [bs ! 0, 0x03, of_nat (2 * 2)] \<and> util_tool_cal_crc16 f = 0
    \<and> (\<forall>j < 2. mk16 (f ! (3 + 2 * j)) (f ! (4 + 2 * j)) = tab_registers m' ! (unat a - start_registers m' + j))"
  proof (rule turn_reads_registers [OF req(1,2) p req(4) _ req(6,7) _ a(1) nb [symmetric]])
    show "app_mslave_locate_mapping ?c a ADDR_GP_HOLDING_REGISTER = Some k"
      using locate_after_write [OF m'(2)] a(3) by blast
    show "unat a + 2 \<le> start_registers m' + nb_registers m'" "start_registers m' \<le> unat a" "unat a + 2 \<le> 0xFFFF"
      using a(2) off m'(3,4) L(3) by simp_all
  qed (use req k in simp_all)
  moreover have "unat a - start_registers m' + l = unat (addr L) - start_registers m' + DT_OFFSET ?t + l" for l
    using a(2) m'(4) by simp
  ultimately obtain f where f: "wire (mloop_step e ?c) = f # wire c" "take 3 f = [bs ! 0, 0x03, 4]"
    "util_tool_cal_crc16 f = 0" "\<forall>l < 2. mk16 (f ! (3 + 2 * l)) (f ! (4 + 2 * l)) = ?w ! l"
    using m'(5) by auto
  have "length ?w = 2" by (cases "mbus_border c") (simp_all add: to_set_float_def)
  then have "?w = [?w ! 0, ?w ! 1]" by (rule list_of_two)
  moreover have "mk16 (f ! 3) (f ! 4) = ?w ! 0" "mk16 (f ! 5) (f ! 6) = ?w ! 1"
    using spec [OF f(4), of 0] spec [OF f(4), of 1] by simp_all
  ultimately show ?thesis
    using f(1-3) m'(1) by (intro exI [of _ f]) simp
qed

section \<open>The theorems on a concrete gateway\<close>

text \<open>
  A gateway whose configuration is changed once: the bytes 1 and 2 stand for the two contents of the
  configuration table.  The register table is locked during the start-up, so that it stays empty.
\<close>

definition changed_abi :: shm_abi where
  "changed_abi = sample_abi\<lparr>gw_item := (\<lambda>b. (1, if b = [2]
     then sample_conf\<lparr>modbusConfig := (modbusConfig sample_conf)\<lparr>baudrateSlave := 9600\<rparr>\<rparr> else sample_conf))\<rparr>"

definition sample_locked :: "bytes \<Rightarrow> ipc_env" where
  "sample_locked shm = (sample_ipc shm)\<lparr>conf_lock := True, create_env := (create_env (sample_ipc shm))\<lparr>lock_ok := False\<rparr>\<rparr>"

definition sample_booted :: ctr where
  "sample_booted = init_ctr\<lparr>gwconf := sample_conf, gwconf_hash := 1, mbus_border := MBUS_BORDER_ABCD,
     port_conf := \<lparr>baudrate = 19200, parity = PARITY_EVEN, stopbit = SBIT_1, slaveID = 5, reg_md = REG_MD_EXTENSIBLE\<rparr>,
     slave_id := 5, mctx := Some \<lparr>ctx_baud = 19200, ctx_parity = 0x45, ctx_stop = 1, ctx_slave = 5\<rparr>,
     to_update_mslave_req := True\<rparr>"

lemma changed_abi_simps [simp]:
  "b \<noteq> [2] \<Longrightarrow> gw_item changed_abi b = (1, sample_conf)"
  "gw_item changed_abi [2] = (1, sample_conf\<lparr>modbusConfig := (modbusConfig sample_conf)\<lparr>baudrateSlave := 9600\<rparr>\<rparr>)"
  "sizeof_item changed_abi = 512"
  by (simp_all add: changed_abi_def)

lemma short_slice: "shm_slice [b] 0 APP_SHM_GATEWAY_TABLE_ITEM_SIZE = [b]"
  "shm_slice [b] APP_SHM_DEV_TABLE_ADDR_OFFSET n = []"
  by (simp_all add: shm_slice_def shm_sizes)

lemma sample_boot: "main_startup (\<lambda>_. None) None (\<lambda>_. 0) ERR_NONE ERR_NONE changed_abi [[1]] (sample_locked []) = Some sample_booted"
proof -
  have i: "app_mslave_init_ctr (\<lambda>_. 0) ERR_NONE ERR_NONE (g_mslave_ctr\<lparr>g_reg_mapping_info := zero_remap\<rparr>) = Inr init_ctr"
    using init_ctr_reached by (simp add: g_mslave_ctr_def)
  have m: "APP_SHM_GATEWAY_TABLE_ITEM_SIZE mod SZ_IPC_BUF = APP_SHM_GATEWAY_TABLE_ITEM_SIZE"
    "\<not> SZ_IPC_BUF < APP_SHM_GATEWAY_TABLE_ITEM_SIZE" "\<not> APP_SHM_GATEWAY_TABLE_ITEM_SIZE \<le> 512"
    "\<not> SZ_IPC_BUF < APP_SHM_DEV_TABLE_ITEM_SIZE" "\<not> APP_SHM_DEV_TABLE_ITEM_SIZE \<le> 512"
    by (simp_all add: shm_sizes)
  have g: "to_load_gwcfg_from_shmem changed_abi [1] init_ctr = (ERR_NONE, init_ctr\<lparr>gwconf := sample_conf, gwconf_hash := 1,
     mbus_border := MBUS_BORDER_ABCD\<rparr>)"
    using sample_hash
    by (simp add: to_load_gwcfg_from_shmem_def m short_slice GW_PRO_TABLE_IDX_GW_CONFIG_TABLE_def border_of_mode_def)
  have pc: "app_mslave_ipc_set_port_conf pc (modbusConfig sample_conf) = (ERR_NONE, \<lparr>baudrate = 19200,
      parity = PARITY_EVEN, stopbit = SBIT_1, slaveID = 5, reg_md = REG_MD_EXTENSIBLE\<rparr>)" for pc
    by (cases pc) (simp add: app_mslave_ipc_set_port_conf_def app_mslave_get_reg_mode_def Let_def)
  have "app_mslave_ipc_load_conf changed_abi [[1]] init_ctr = Some (init_ctr\<lparr>gwconf := sample_conf, gwconf_hash := 1,
     mbus_border := MBUS_BORDER_ABCD, port_conf := \<lparr>baudrate = 19200, parity = PARITY_EVEN, stopbit = SBIT_1,
     slaveID = 5, reg_md = REG_MD_EXTENSIBLE\<rparr>, slave_id := 5\<rparr>)"
    by (simp add: g to_load_devlist_from_shmem_def m short_slice util_tool_cal_elfhash_def pc Let_def)
  then show ?thesis
    using i
    by (simp add: main_startup_def app_mslave_load_reg_mapping_info_def app_mslave_init_port_def modbus_new_rtu_def
        parity_char_def stop_number_def modbus_set_slave_def app_mslave_set_mctx_def app_mslave_release_mapping_def
        app_mslave_create_mapping_def app_mslave_set_to_update_mslave_def sample_locked_def sample_booted_def
        init_ctr_def g_mslave_ctr_def Let_def)
qed

theorem slave_run_invariant_witness:
  "log_wf (mloop_step (sample_env [5, 3, 0, 1, 0, 2]) sample_booted)
   \<and> length (dev_array (mloop_step (sample_env [5, 3, 0, 1, 0, 2]) sample_booted)) = 40"
proof -
  have "rx_fits (sample_env [5, 3, 0, 1, 0, 2])" by (simp add: rx_fits_def modbus_rtu_send_msg_pre_def)
  then have "slave_run changed_abi sample_booted (mloop_step (sample_env [5, 3, 0, 1, 0, 2]) sample_booted)"
    by (intro slave_run.request slave_run.boot)
  from slave_run_invariant [OF sample_boot this] show ?thesis by blast
qed

theorem threads_own_their_state_witness:
  "same_conf sample_booted (mloop_step (sample_env [5, 3, 0, 1, 0, 2]) sample_booted)
   \<and> same_protocol sample_booted (snd (ipc_service_step changed_abi (sample_locked [2]) sample_booted))"
  by (rule threads_own_their_state [OF sample_boot slave_run.boot])
    (simp add: rx_fits_def modbus_rtu_send_msg_pre_def)

theorem new_port_settings_silence_slave_witness:
  "mctx sample_booted \<noteq> None
   \<and> mctx (mloop_step (sample_env [5, 3, 0, 1, 0, 2]) (snd (ipc_service_step changed_abi (sample_locked [2]) sample_booted))) = None"
proof -
  let ?c = "snd (ipc_service_step changed_abi (sample_locked [2]) sample_booted)"
  let ?gw = "sample_conf\<lparr>modbusConfig := (modbusConfig sample_conf)\<lparr>baudrateSlave := 9600\<rparr>\<rparr>"
  have h: "util_tool_cal_elfhash (Some [2]) = 2" by (simp add: util_tool_cal_elfhash_def elfhash_round_def)
  have v: "is_gateway_conf_valid ?gw"
    by (simp add: is_gateway_conf_valid_def sample_conf_def sample_gw_def app_mslave_get_reg_mode_def)
  have "is_port_conf_modified (port_conf sample_booted) ?gw"
    by (simp add: is_port_conf_modified_def app_mslave_ipc_set_port_conf_def sample_booted_def)
  then have n: "new_port_settings changed_abi (sample_locked [2]) sample_booted"
    using h v by (simp add: new_port_settings_def short_slice sample_locked_def sample_booted_def GW_PRO_TABLE_IDX_GW_CONFIG_TABLE_def)
  have "rx_fits (sample_env [5, 3, 0, 1, 0, 2])" by (simp add: rx_fits_def modbus_rtu_send_msg_pre_def)
  then have r: "slave_run changed_abi ?c (mloop_step (sample_env [5, 3, 0, 1, 0, 2]) ?c)"
    by (intro slave_run.request slave_run.boot)
  have "mctx (mloop_step (sample_env [5, 3, 0, 1, 0, 2]) ?c) = None"
    using new_port_settings_silence_slave [OF sample_boot slave_run.boot _ n _ r] by (simp add: shm_sizes sample_locked_def)
  then show ?thesis by (simp add: sample_booted_def)
qed

text \<open>The two readers of a layout agree on a device whose name repeats its description.\<close>

lemma layouts_agree:
  assumes "List.find (\<lambda>dev. nid = dev_nameId dev) (take 40 (dev_array c)) = Some dev"
    and "dev_name dev ! 14 = dev_description dev ! 14"
  shows "to_get_sdata_layout_info c nid = (app_mslave_ipc_get_sdata_layout_info c dev)\<lparr>nameid := 0\<rparr>"
  unfolding to_get_sdata_layout_info_def assms(1) option.case app_mslave_ipc_get_sdata_layout_info_def Let_def assms(2)
  by (simp add: zero_layout_def)

text \<open>The sample slave with one sensor, whose value 1.0 stands in the shared memory.\<close>

definition sample_node :: ctr where
  "sample_node = sample_slave\<lparr>mapping_queue := [sample_block], dev_array := [sample_dev\<lparr>dev_name := dev_description sample_dev\<rparr>]\<rparr>"

lemma sample_node_layout: "to_get_sdata_layout_info sample_node 7 =
    \<lparr>is_valid = True, nameid = 0, ch = 1, addr = 0x80, regnum = 0x80, stype = STYPE_PREDICT\<rparr>"
proof -
  let ?d = "sample_dev\<lparr>dev_name := dev_description sample_dev\<rparr>"
  have f: "List.find (\<lambda>dev. 7 = dev_nameId dev) (take 40 (dev_array sample_node)) = Some ?d"
    by (simp add: sample_node_def sample_dev_def take_Cons')
  have "app_mslave_get_reg_mapping_offset sample_node = 0"
    by (simp add: app_mslave_get_reg_mapping_offset_def sample_node_def sample_slave_def init_ctr_def g_mslave_ctr_def zero_remap_def)
  then show ?thesis
    using layouts_agree [OF f] sdata_layout_value [of 1 "0x80" "0x80" type_PRS ?d "[0]" sample_node]
    by (simp add: sample_dev_def add_offset_def)
qed

lemma sample_node_locate:
  "app_mslave_locate_mapping sample_node 0x80 ADDR_GP_HOLDING_REGISTER = Some 0"
  "app_mslave_locate_mapping sample_node 0x82 ADDR_GP_HOLDING_REGISTER = Some 0"
  by (simp_all add: locate_Some mapping_covers_def sample_node_def sample_block_def modbus_mapping_new_start_address_def)

lemma sample_node_ready: "piece_ready sample_abi (sample_ipc []) (0 * APP_SHM_SENSORDATA_TABLE_PIECE_MAX + 0) sample_node sample_item 0"
  using sample_node_layout sample_node_locate(1)
  by (simp add: piece_ready_def to_load_sdata_from_shmem_v2_def shm_sizes is_sensor_data_valid_def sample_abi_def
      sample_item_def sample_node_def sample_block_def modbus_mapping_new_start_address_def GW_PRO_TABLE_IDX_SENSOR_DATA_TABLE_def)

theorem sensor_value_served_witness:
  "\<exists>f. wire (mloop_step (sample_env [1, 3, 0, 0x82, 0, 2]) (sdata_pieces sample_abi (sample_ipc []) None 0 [0] sample_node)) = [f]
     \<and> [mk16 (f ! 3) (f ! 4), mk16 (f ! 5) (f ! 6)] = [0x0000, 0x3F80]"
proof -
  let ?q = "[1, 3, 0, 0x82, 0, 2] :: bytes"
  let ?bs = "modbus_rtu_send_msg_pre ?q"
  have q: "?bs ! 0 = 1" "?bs ! 1 = 3" "mk16 (?bs ! 2) (?bs ! 3) = 0x82" "unat (mk16 (?bs ! 4) (?bs ! 5)) = 2"
    "8 \<le> length ?bs"
    by (simp_all add: modbus_rtu_send_msg_pre_def mk16_def)
  have p: "pkt_ok sample_node ?bs"
    by (rule sample_pkt_ok) (simp_all add: is_fun_code_for_reading_def sample_node_def)
  have s: "mapping_queue sample_node = [sample_block]" "smode sample_node = SMODE_ACTIVE" "wire sample_node = []"
    "mbus_border sample_node = MBUS_BORDER_CDAB" "start_registers sample_block = 0x80"
    by (simp_all add: sample_node_def sample_block_def modbus_mapping_new_start_address_def)
      (simp_all add: sample_slave_def init_ctr_def)
  have i: "sd_nameId (sensorDataTableData sample_item) = 7" "product (sensorDataTableData sample_item) = BULLET_NODE"
    "dataType (sensorDataTableData sample_item) = ADVANCED_ALGO_ENV_OV" "sd_value (sensorDataTableData sample_item) = [0x00, 0x00, 0x80, 0x3F]"
    by (simp_all add: sample_item_def)
  have "\<exists>f. wire (mloop_step (sample_env ?q) (sdata_pieces sample_abi (sample_ipc []) None 0 [0] sample_node)) = f # wire sample_node
    \<and> take 3 f = [?bs ! 0, 0x03, 4] \<and> util_tool_cal_crc16 f = 0
    \<and> [mk16 (f ! 3) (f ! 4), mk16 (f ! 5) (f ! 6)] = to_set_float (mbus_border sample_node)
        (data_float (big_endian (create_env (sample_ipc []))) (sd_value (sensorDataTableData sample_item)))"
    by (rule sensor_value_served [OF _ sample_node_ready refl _ _ refl _ _ _ _ _ p _ _ _ _ _ refl])
      (simp_all add: s i q sample_node_layout sample_node_locate sample_block_simps sample_item_def del: One_nat_def)
  moreover have "\<not> big_endian (create_env (sample_ipc []))" by (simp add: sample_ipc_def)
  ultimately show ?thesis
    by (auto simp: s i sample_float simp del: sdata_pieces.simps)
qed

end
